(* ===== verification/Fitz_Prelude.thy ===== *)
theory Fitz_Prelude
  imports Main "HOL-Library.Word"
begin

text \<open>
  Shared vocabulary of the development: the machine types of the Go sources, byte slices with
  Go's bounds checks, big-endian integers, Go errors and their wrap chains, and the outcome of a
  fallible Go function. Everything later theories share on lists, words and results is here.
\<close>

section \<open>Machine types\<close>

unbundle bit_operations_syntax

type_synonym u8 = "8 word"
type_synonym u16 = "16 word"
type_synonym u32 = "32 word"
type_synonym u64 = "64 word"
type_synonym bytes = "u8 list"

named_theorems res_simps \<open>rewriting of outcomes\<close>
named_theorems byte_simps \<open>rewriting of byte slices and integers\<close>
named_theorems no_panic_intros \<open>functions that never panic\<close>
named_theorems append_only_intros \<open>payload writers that only append\<close>

section \<open>Errors\<close>

text \<open>
  The error values of the sources. \<open>Sentinel\<close> is a package-level \<open>errors.New\<close> variable, named by
  its text; \<open>ErrNew\<close> an error made on the spot; \<open>Wrap\<close> an error made by \<open>fmt.Errorf\<close> with
  \<open>%w\<close> verbs or by \<open>errors.Join\<close>, with its text and the errors it wraps; \<open>DomainError\<close> and
  \<open>TransportError\<close> are the two concrete error types, and \<open>AsyncOverflow\<close> the overflow error.
\<close>

record domain_error =
  de_code :: u32
  de_class :: u8
  de_effect :: u8
  de_message :: string

datatype go_error =
    Sentinel string
  | ErrNew string
  | DomainError domain_error
  | TransportError string go_error
  | AsyncOverflow string u64
  | Wrap string "go_error list"

section \<open>Outcomes\<close>

text \<open>
  A Go function with an error result either returns a value, returns an error, or panics. The
  panics modelled are the ones a bounds check raises.
\<close>

datatype 'a res = Ok 'a | Err go_error | Panic

primrec bind_res :: "'a res \<Rightarrow> ('a \<Rightarrow> 'b res) \<Rightarrow> 'b res" where
  "bind_res (Ok x) f = f x"
| "bind_res (Err e) f = Err e"
| "bind_res Panic f = Panic"

primrec is_Ok :: "'a res \<Rightarrow> bool" where
  "is_Ok (Ok x) = True"
| "is_Ok (Err e) = False"
| "is_Ok Panic = False"

definition require :: "bool \<Rightarrow> go_error \<Rightarrow> unit res" where
  "require b e = (if b then Ok () else Err e)"

lemma bind_res_Ok_iff: "bind_res r f = Ok y \<longleftrightarrow> (\<exists>x. r = Ok x \<and> f x = Ok y)"
  by (cases r) auto

lemma bind_res_Err_iff:
  "bind_res r f = Err e \<longleftrightarrow> r = Err e \<or> (\<exists>x. r = Ok x \<and> f x = Err e)"
  by (cases r) auto

lemma bind_res_Panic_iff:
  "bind_res r f = Panic \<longleftrightarrow> r = Panic \<or> (\<exists>x. r = Ok x \<and> f x = Panic)"
  by (cases r) auto

lemma bind_res_assoc: "bind_res (bind_res r f) g = bind_res r (\<lambda>x. bind_res (f x) g)"
  by (cases r) auto

definition no_panic :: "'a res \<Rightarrow> bool" where
  "no_panic r \<longleftrightarrow> r \<noteq> Panic"

lemma no_panic_simps [simp]: "no_panic (Ok x)" "no_panic (Err e)" "\<not> no_panic Panic"
  by (simp_all add: no_panic_def)

lemma no_panic_bind [no_panic_intros]:
  "no_panic r \<Longrightarrow> (\<And>x. r = Ok x \<Longrightarrow> no_panic (f x)) \<Longrightarrow> no_panic (bind_res r f)"
  by (cases r) auto

lemma require_simps [simp]:
  "require True e = Ok ()" "require False e = Err e"
  "require b e = Ok u \<longleftrightarrow> b" "no_panic (require b e)"
  by (auto simp: require_def)

lemmas [res_simps] = bind_res_Ok_iff bind_res_Err_iff bind_res_Panic_iff

lemma is_Ok_iff: "is_Ok r \<longleftrightarrow> (\<exists>x. r = Ok x)"
  by (cases r) auto

section \<open>Slices\<close>

text \<open>
  \<open>slice bs lo hi\<close> is \<open>bs[lo:hi]\<close>, \<open>slice_from bs lo\<close> is \<open>bs[lo:]\<close> and \<open>index bs i\<close> is
  \<open>bs[i]\<close>; each panics out of range. Go checks the upper bound of a slice expression against the
  capacity; the model checks it against the length, so it panics at least whenever Go does.
\<close>

definition slice :: "'a list \<Rightarrow> nat \<Rightarrow> nat \<Rightarrow> 'a list res" where
  "slice bs lo hi = (if lo \<le> hi \<and> hi \<le> length bs then Ok (take (hi - lo) (drop lo bs)) else Panic)"

definition slice_from :: "'a list \<Rightarrow> nat \<Rightarrow> 'a list res" where
  "slice_from bs lo = slice bs lo (length bs)"

definition index :: "'a list \<Rightarrow> nat \<Rightarrow> 'a res" where
  "index bs i = (if i < length bs then Ok (bs ! i) else Panic)"

lemma slice_Ok [simp]:
  "lo \<le> hi \<Longrightarrow> hi \<le> length bs \<Longrightarrow> slice bs lo hi = Ok (take (hi - lo) (drop lo bs))"
  by (simp add: slice_def)

lemma slice_from_Ok [simp]: "lo \<le> length bs \<Longrightarrow> slice_from bs lo = Ok (drop lo bs)"
  by (simp add: slice_from_def slice_def)

lemma index_Ok [simp]: "i < length bs \<Longrightarrow> index bs i = Ok (bs ! i)"
  by (simp add: index_def)

lemma slice_Ok_iff:
  "slice bs lo hi = Ok xs \<longleftrightarrow> lo \<le> hi \<and> hi \<le> length bs \<and> xs = take (hi - lo) (drop lo bs)"
  by (auto simp: slice_def)

lemma slice_not_Err [simp]: "slice bs lo hi \<noteq> Err e"
  by (simp add: slice_def)

lemma index_not_Err [simp]: "index bs i \<noteq> Err e"
  by (simp add: index_def)

lemma drop_shift:
  assumes "drop n xs = a @ b" "length a = k"
  shows "drop (n + k) xs = b"
proof -
  have "drop (n + k) xs = drop k (drop n xs)" by (simp add: add.commute)
  then show ?thesis using assms by simp
qed

lemma drop_pos: "drop n xs = a @ b \<Longrightarrow> 0 < length a \<Longrightarrow> n + length a \<le> length xs"
proof -
  assume "drop n xs = a @ b" "0 < length a"
  then have "length xs - n = length a + length b" by (metis length_append length_drop)
  with \<open>0 < length a\<close> show ?thesis by linarith
qed

lemma slice_no_panic [no_panic_intros]: "lo \<le> hi \<Longrightarrow> hi \<le> length bs \<Longrightarrow> no_panic (slice bs lo hi)"
  by simp

lemma slice_from_no_panic [no_panic_intros]: "lo \<le> length bs \<Longrightarrow> no_panic (slice_from bs lo)"
  by simp

lemma index_no_panic [no_panic_intros]: "i < length bs \<Longrightarrow> no_panic (index bs i)"
  by simp

section \<open>Big-endian integers\<close>

text \<open>
  \<open>be_put n v\<close> is the \<open>n\<close>-byte big-endian form of \<open>v\<close> (each byte truncates, as Go's \<open>byte(...)\<close>
  does) and \<open>be_get\<close> reads one back. \<open>PutUint16/32/64\<close> and \<open>Uint16/32/64\<close> are the
  functions of \<open>encoding/binary\<close> the sources call; the readers panic on a short slice.
\<close>

primrec be_put :: "nat \<Rightarrow> nat \<Rightarrow> bytes" where
  "be_put 0 v = []"
| "be_put (Suc n) v = word_of_nat (v div 256 ^ n) # be_put n v"

definition be_get :: "bytes \<Rightarrow> nat" where
  "be_get bs = foldl (\<lambda>acc b. acc * 256 + unat b) 0 bs"

lemma unat_u8_less: "unat (b :: u8) < 256"
proof -
  have "unat b < 2 ^ LENGTH(8)" by (rule unsigned_less)
  then show ?thesis by simp
qed

lemma unat_u16_less: "unat (b :: u16) < 65536"
proof -
  have "unat b < 2 ^ LENGTH(16)" by (rule unsigned_less)
  then show ?thesis by simp
qed

lemma length_be_put [simp]: "length (be_put n v) = n"
  by (induction n) auto

lemma be_get_foldl:
  "foldl (\<lambda>acc b. acc * 256 + unat (b :: u8)) a bs = a * 256 ^ length bs + be_get bs"
proof (induction bs rule: rev_induct)
  case Nil
  then show ?case by (simp add: be_get_def)
next
  case (snoc b bs)
  then show ?case by (simp add: be_get_def algebra_simps)
qed

lemma be_get_Nil [simp]: "be_get [] = 0"
  by (simp add: be_get_def)

lemma be_get_Cons [simp]: "be_get (b # bs) = unat b * 256 ^ length bs + be_get bs"
  using be_get_foldl [of "unat b" bs] by (simp add: be_get_def)

lemma be_get_less: "be_get bs < 256 ^ length bs"
proof (induction bs)
  case Nil
  then show ?case by simp
next
  case (Cons b bs)
  have "unat b < 256" by (rule unat_u8_less)
  then have "(unat b + 1) * 256 ^ length bs \<le> 256 * 256 ^ length bs"
    by (intro mult_right_mono) simp_all
  moreover have "unat b * 256 ^ length bs + be_get bs < (unat b + 1) * 256 ^ length bs"
    using Cons by simp
  ultimately show ?case by (simp only: be_get_Cons length_Cons power_Suc)
qed

lemma be_get_put: "be_get (be_put n v) = v mod 256 ^ n"
proof (induction n)
  case 0
  then show ?case by simp
next
  case (Suc n)
  have "unat (word_of_nat (v div 256 ^ n) :: u8) = (v div 256 ^ n) mod 256"
    by (simp add: unat_of_nat)
  moreover have "v mod 256 ^ Suc n = 256 ^ n * (v div 256 ^ n mod 256) + v mod 256 ^ n"
    using mod_mult2_eq [of v "256 ^ n" 256] by (simp add: mult.commute)
  ultimately show ?case using Suc by simp
qed

lemma be_put_add_mult: "be_put n (k * 256 ^ n + v) = be_put n v"
proof (induction n arbitrary: k)
  case 0
  then show ?case by simp
next
  case (Suc n)
  have split: "k * 256 ^ Suc n + v = (k * 256) * 256 ^ n + v" by simp
  have "(k * 256 + v div 256 ^ n) mod 256 = (v div 256 ^ n) mod 256" by simp
  then have "(word_of_nat (k * 256 + v div 256 ^ n) :: u8) = word_of_nat (v div 256 ^ n)"
    by (simp only: word_of_nat_eq_iff take_bit_eq_mod) simp
  then have "(word_of_nat ((k * 256 ^ Suc n + v) div 256 ^ n) :: u8) = word_of_nat (v div 256 ^ n)"
    unfolding split by simp
  with Suc.IH [of "k * 256"] show ?case unfolding split by simp
qed

lemma be_put_get: "be_put (length bs) (be_get bs) = bs"
proof (induction bs)
  case Nil
  then show ?case by simp
next
  case (Cons b bs)
  have less: "be_get bs < 256 ^ length bs" by (rule be_get_less)
  then have "(unat b * 256 ^ length bs + be_get bs) div 256 ^ length bs = unat b" by simp
  moreover have "be_put (length bs) (unat b * 256 ^ length bs + be_get bs)
    = be_put (length bs) (be_get bs)"
    by (rule be_put_add_mult)
  ultimately show ?case using Cons by simp
qed

definition PutUint16 :: "u16 \<Rightarrow> bytes" where "PutUint16 v = be_put 2 (unat v)"
definition PutUint32 :: "u32 \<Rightarrow> bytes" where "PutUint32 v = be_put 4 (unat v)"
definition PutUint64 :: "u64 \<Rightarrow> bytes" where "PutUint64 v = be_put 8 (unat v)"

definition Uint16 :: "bytes \<Rightarrow> u16 res" where
  "Uint16 bs = (if length bs < 2 then Panic else Ok (word_of_nat (be_get (take 2 bs))))"
definition Uint32 :: "bytes \<Rightarrow> u32 res" where
  "Uint32 bs = (if length bs < 4 then Panic else Ok (word_of_nat (be_get (take 4 bs))))"
definition Uint64 :: "bytes \<Rightarrow> u64 res" where
  "Uint64 bs = (if length bs < 8 then Panic else Ok (word_of_nat (be_get (take 8 bs))))"

lemma length_Put [simp]:
  "length (PutUint16 a) = 2" "length (PutUint32 b) = 4" "length (PutUint64 c) = 8"
  by (simp_all add: PutUint16_def PutUint32_def PutUint64_def)

lemma word_be_get_put:
  fixes v :: "'a::len word"
  assumes "256 ^ n = (2::nat) ^ LENGTH('a)"
  shows "word_of_nat (be_get (be_put n (unat v))) = v"
  using unsigned_less [of v] by (simp add: be_get_put assms)

lemma Uint_Put [simp]:
  "Uint16 (PutUint16 a @ r) = Ok a" "Uint32 (PutUint32 b @ r) = Ok b"
  "Uint64 (PutUint64 c @ r) = Ok c"
  by (simp_all add: Uint16_def Uint32_def Uint64_def PutUint16_def PutUint32_def PutUint64_def
      word_be_get_put)

lemma Uint_Put_Nil [simp]:
  "Uint16 (PutUint16 a) = Ok a" "Uint32 (PutUint32 b) = Ok b" "Uint64 (PutUint64 c) = Ok c"
  using Uint_Put [where r = "[]"] by simp_all

lemma be_put_take:
  fixes v :: "'a::len word"
  assumes "n \<le> length bs" "256 ^ n = (2::nat) ^ LENGTH('a)" "v = word_of_nat (be_get (take n bs))"
  shows "be_put n (unat v) = take n bs"
proof -
  have len: "length (take n bs) = n" using assms(1) by simp
  have "be_get (take n bs) < 2 ^ LENGTH('a)"
    using be_get_less [of "take n bs"] assms(2) len by simp
  then have "unat v = be_get (take n bs)"
    using assms(3) by (simp add: unat_of_nat)
  then show ?thesis using be_put_get [of "take n bs"] len by simp
qed

lemma Put_Uint:
  "Uint16 bs = Ok a \<Longrightarrow> PutUint16 a = take 2 bs"
  "Uint32 bs = Ok b \<Longrightarrow> PutUint32 b = take 4 bs"
  "Uint64 bs = Ok c \<Longrightarrow> PutUint64 c = take 8 bs"
  by (auto simp: Uint16_def Uint32_def Uint64_def PutUint16_def PutUint32_def PutUint64_def
      split: if_splits intro!: be_put_take)

lemma Uint_Ok_iff:
  "(\<exists>a. Uint16 bs = Ok a) \<longleftrightarrow> 2 \<le> length bs" "(\<exists>b. Uint32 bs = Ok b) \<longleftrightarrow> 4 \<le> length bs"
  "(\<exists>c. Uint64 bs = Ok c) \<longleftrightarrow> 8 \<le> length bs"
  by (auto simp: Uint16_def Uint32_def Uint64_def)

lemma Uint_no_panic [simp]:
  "no_panic (Uint16 bs) \<longleftrightarrow> 2 \<le> length bs" "no_panic (Uint32 bs) \<longleftrightarrow> 4 \<le> length bs"
  "no_panic (Uint64 bs) \<longleftrightarrow> 8 \<le> length bs"
  by (auto simp: Uint16_def Uint32_def Uint64_def)

lemma Uint_not_Err [simp]: "Uint16 bs \<noteq> Err e" "Uint32 bs \<noteq> Err e" "Uint64 bs \<noteq> Err e"
  by (auto simp: Uint16_def Uint32_def Uint64_def)

text \<open>Evaluation of integers at concrete values, for witnesses.\<close>

lemma be_put_numeral:
  "be_put (numeral k) v = word_of_nat (v div 256 ^ pred_numeral k) # be_put (pred_numeral k) v"
  by (simp add: numeral_eq_Suc)

lemmas int_eval = PutUint16_def PutUint32_def PutUint64_def Uint16_def Uint32_def Uint64_def
  be_put_numeral

text \<open>\<open>splice pos xs buf\<close> overwrites \<open>buf[pos:pos+len(xs)]\<close> with \<open>xs\<close>.\<close>

definition splice :: "nat \<Rightarrow> bytes \<Rightarrow> bytes \<Rightarrow> bytes" where
  "splice pos xs buf = take pos buf @ xs @ drop (pos + length xs) buf"

lemma length_splice [simp]: "pos + length xs \<le> length buf \<Longrightarrow> length (splice pos xs buf) = length buf"
  by (simp add: splice_def)

lemma splice_mid:
  "length a = pos \<Longrightarrow> length b = length xs \<Longrightarrow> splice pos xs (a @ b @ c) = a @ xs @ c"
  by (simp add: splice_def)

lemma Uint_take [simp]:
  "Uint16 (take 2 bs) = Uint16 bs" "Uint32 (take 4 bs) = Uint32 bs" "Uint64 (take 8 bs) = Uint64 bs"
  by (auto simp: Uint16_def Uint32_def Uint64_def min_def)

section \<open>Lengths as 32-bit fields\<close>

text \<open>\<open>u32_len xs\<close> is \<open>uint32(len(xs))\<close>: it truncates.\<close>

definition u32_len :: "'a list \<Rightarrow> u32" where
  "u32_len xs = word_of_nat (length xs)"

lemma unat_u32_len [simp]: "length xs < 2 ^ 32 \<Longrightarrow> unat (u32_len xs) = length xs"
  by (simp add: u32_len_def unat_of_nat)

lemma unat_u32_less: "unat (x :: u32) < 2 ^ 32"
  using unsigned_less [of x] by simp

section \<open>Texts\<close>

text \<open>A Go string is its bytes; \<open>string\<close> has one character per byte.\<close>

definition bytes_of_string :: "string \<Rightarrow> bytes" where
  "bytes_of_string s = map (\<lambda>c. word_of_nat (of_char c)) s"

definition string_of_bytes :: "bytes \<Rightarrow> string" where
  "string_of_bytes bs = map (\<lambda>b. char_of (unat b)) bs"

lemma length_bytes_of_string [simp]: "length (bytes_of_string s) = length s"
  by (simp add: bytes_of_string_def)

lemma length_string_of_bytes [simp]: "length (string_of_bytes s) = length s"
  by (simp add: string_of_bytes_def)

lemma string_of_bytes_of_string [simp]: "string_of_bytes (bytes_of_string s) = s"
proof -
  have "char_of (unat (word_of_nat (of_char c) :: u8)) = c" for c
    by (simp add: unat_of_nat)
  then show ?thesis by (simp add: string_of_bytes_def bytes_of_string_def map_idI)
qed

lemma bytes_of_string_of_bytes [simp]: "bytes_of_string (string_of_bytes bs) = bs"
proof -
  have "word_of_nat (of_char (char_of (unat b))) = b" for b :: u8
    using unat_u8_less [of b] by simp
  then show ?thesis by (simp add: string_of_bytes_def bytes_of_string_def map_idI)
qed

text \<open>Decimal rendering, for the \<open>%d\<close> verb on non-negative numbers.\<close>

fun dec :: "nat \<Rightarrow> string" where
  "dec n = (if n < 10 then [char_of (48 + n)] else dec (n div 10) @ [char_of (48 + n mod 10)])"

declare dec.simps [simp del]

section \<open>Payload writers\<close>

text \<open>
  A payload writer of the sources is a \<open>func(*bytes.Buffer)\<close>: it takes the buffer's contents to
  its new contents. Every writer of the sources only appends.
\<close>

text \<open>Functional refinement of a state-returning operation, read componentwise.\<close>

lemma map_prod_idD: "map_prod id f p = q \<Longrightarrow> fst p = fst q \<and> f (snd p) = snd q"
  by (cases p) auto

type_synonym writer = "bytes \<Rightarrow> bytes"

definition append_only :: "writer \<Rightarrow> bool" where
  "append_only w \<longleftrightarrow> (\<forall>buf. w buf = buf @ w [])"

lemma append_only_apply: "append_only w \<Longrightarrow> w buf = buf @ w []"
  unfolding append_only_def by blast

lemma append_only_compose [append_only_intros]:
  assumes "append_only v" "append_only w"
  shows "append_only (\<lambda>buf. w (v buf))"
proof -
  have "w (v buf) = buf @ w (v [])" for buf
    using append_only_apply [OF assms(1), of buf] append_only_apply [OF assms(2), of "v buf"]
      append_only_apply [OF assms(2), of "v []"] by simp
  then show ?thesis unfolding append_only_def by blast
qed

lemma append_only_append [append_only_intros]: "append_only (\<lambda>buf. buf @ xs)"
  by (simp add: append_only_def)

lemma append_only_id [append_only_intros]: "append_only (\<lambda>buf. buf)"
  by (simp add: append_only_def)

end
