(* ===== verification/Tlv_Codec.thy ===== *)
theory Tlv_Codec
  imports Fitz_Prelude
begin

text \<open>
  The tag-length-value layer of \<open>internal/core/transport/tlv.go\<close>: an encoder that collects tagged
  values and remembers its first error, a decoder that refuses truncated data and duplicate tags,
  and the escape encoding of operation codes.
\<close>

section \<open>Encoder\<close>

definition MaxTLVValueLen :: nat where "MaxTLVValueLen = 65535"
definition TagOp :: u8 where "TagOp = 0x11"

record tlv_value =
  tlv_tag :: u8
  tlv_val :: bytes

record tlv_encoder =
  enc_entries :: "tlv_value list"
  enc_seen :: "u8 \<Rightarrow> bool"
  enc_err :: "go_error option"

definition NewTLVEncoder :: tlv_encoder where
  "NewTLVEncoder = \<lparr>enc_entries = [], enc_seen = (\<lambda>_. False), enc_err = None\<rparr>"

definition AddTag :: "u8 \<Rightarrow> bytes \<Rightarrow> tlv_encoder \<Rightarrow> tlv_encoder" where
  "AddTag tag v e =
     (if enc_err e \<noteq> None then e
      else if length v > MaxTLVValueLen
        then e\<lparr>enc_err := Some (ErrNew ''TLV value exceeds maximum'')\<rparr>
      else if enc_seen e tag then e\<lparr>enc_err := Some (ErrNew ''duplicate TLV tag'')\<rparr>
      else e\<lparr>enc_seen := (enc_seen e)(tag := True),
             enc_entries := enc_entries e @ [\<lparr>tlv_tag = tag, tlv_val = v\<rparr>]\<rparr>)"

definition AddString :: "u8 \<Rightarrow> string \<Rightarrow> tlv_encoder \<Rightarrow> tlv_encoder" where
  "AddString tag v e = AddTag tag (bytes_of_string v) e"
definition AddBytes :: "u8 \<Rightarrow> bytes \<Rightarrow> tlv_encoder \<Rightarrow> tlv_encoder" where
  "AddBytes tag v e = AddTag tag v e"
definition AddUint32 :: "u8 \<Rightarrow> u32 \<Rightarrow> tlv_encoder \<Rightarrow> tlv_encoder" where
  "AddUint32 tag v e = AddTag tag (PutUint32 v) e"
definition AddUint64 :: "u8 \<Rightarrow> u64 \<Rightarrow> tlv_encoder \<Rightarrow> tlv_encoder" where
  "AddUint64 tag v e = AddTag tag (PutUint64 v) e"
definition AddUint8 :: "u8 \<Rightarrow> u8 \<Rightarrow> tlv_encoder \<Rightarrow> tlv_encoder" where
  "AddUint8 tag v e = AddTag tag [v] e"

text \<open>
  \<open>Encode\<close> allocates the result and writes each entry at a running offset. A nil result is
  \<open>None\<close>.
\<close>

definition encode_entry :: "bytes \<times> nat \<Rightarrow> tlv_value \<Rightarrow> bytes \<times> nat" where
  "encode_entry st entry =
     (let (result, offset) = st;
          r1 = splice offset [tlv_tag entry] result;
          r2 = splice (offset + 1) (PutUint16 (word_of_nat (length (tlv_val entry)))) r1;
          r3 = splice (offset + 3) (tlv_val entry) r2
      in (r3, offset + 3 + length (tlv_val entry)))"

definition Encode :: "tlv_encoder \<Rightarrow> bytes option" where
  "Encode e =
     (if enc_err e \<noteq> None then None
      else let totalSize = sum_list (map (\<lambda>entry. 1 + 2 + length (tlv_val entry)) (enc_entries e))
           in Some (fst (foldl encode_entry (replicate totalSize 0, 0) (enc_entries e))))"

section \<open>Decoder\<close>

type_synonym tlv_decoder = "u8 \<rightharpoonup> bytes"

function tlv_parse :: "bytes \<Rightarrow> nat \<Rightarrow> tlv_decoder \<Rightarrow> tlv_decoder res" where
  "tlv_parse data offset entries =
     (if offset < length data then
        (if offset + 3 > length data
         then Err (ErrNew ''truncated TLV: insufficient bytes for tag and length'')
         else bind_res (index data offset) (\<lambda>tag.
              bind_res (bind_res (slice data (offset + 1) (offset + 3)) Uint16) (\<lambda>n.
                if offset + 3 + unat n > length data
                then Err (ErrNew ''truncated TLV: value exceeds remaining bytes'')
                else bind_res (slice data (offset + 3) (offset + 3 + unat n)) (\<lambda>v.
                  if entries tag \<noteq> None then Err (ErrNew ''duplicate TLV tag'')
                  else tlv_parse data (offset + 3 + unat n) (entries(tag \<mapsto> v))))))
      else Ok entries)"
  by pat_completeness auto
termination
  by (relation "measure (\<lambda>(data, offset, entries). length data - offset)") auto

declare tlv_parse.simps [simp del]

definition NewTLVDecoder :: "bytes \<Rightarrow> tlv_decoder res" where
  "NewTLVDecoder data = tlv_parse data 0 (\<lambda>_. None)"

definition GetBytes :: "tlv_decoder \<Rightarrow> u8 \<Rightarrow> bytes option" where
  "GetBytes d tag = d tag"

definition GetString :: "tlv_decoder \<Rightarrow> u8 \<Rightarrow> string" where
  "GetString d tag = (case d tag of None \<Rightarrow> '''' | Some v \<Rightarrow> string_of_bytes v)"

definition GetUint32 :: "tlv_decoder \<Rightarrow> u8 \<Rightarrow> u32 res" where
  "GetUint32 d tag =
     (case d tag of
        None \<Rightarrow> Ok 0
      | Some v \<Rightarrow> if length v \<noteq> 4 then Err (ErrNew ''invalid u32 length'') else Uint32 v)"

definition GetUint64 :: "tlv_decoder \<Rightarrow> u8 \<Rightarrow> u64 res" where
  "GetUint64 d tag =
     (case d tag of
        None \<Rightarrow> Ok 0
      | Some v \<Rightarrow> if length v \<noteq> 8 then Err (ErrNew ''invalid u64 length'') else Uint64 v)"

definition Has :: "tlv_decoder \<Rightarrow> u8 \<Rightarrow> bool" where
  "Has d tag \<longleftrightarrow> d tag \<noteq> None"

section \<open>Operation codes\<close>

definition EncodeOpTag :: "u16 \<Rightarrow> bytes" where
  "EncodeOpTag opCode = (if opCode \<le> 0xFE then [ucast opCode] else 0xFF # PutUint16 opCode)"

definition DecodeOpTag :: "bytes \<Rightarrow> (u16 \<times> nat) res" where
  "DecodeOpTag data =
     (if length data = 0 then Err (ErrNew ''empty tlv value for TagOp'')
      else bind_res (index data 0) (\<lambda>b.
        if b \<noteq> 0xFF then Ok (ucast b, 1)
        else if length data < 3 then Err (ErrNew ''truncated TagOp escape sequence'')
        else bind_res (bind_res (slice data 1 3) Uint16) (\<lambda>code.
          if code \<le> 0xFE then Err (ErrNew ''non-canonical escaped TagOp value'')
          else Ok (code, 3))))"

definition AddOp :: "u16 \<Rightarrow> tlv_encoder \<Rightarrow> tlv_encoder" where
  "AddOp opCode e = AddTag TagOp (EncodeOpTag opCode) e"

definition GetOp :: "tlv_decoder \<Rightarrow> u16 res" where
  "GetOp d =
     (case d TagOp of
        None \<Rightarrow> Ok 0
      | Some v \<Rightarrow> bind_res (DecodeOpTag v) (\<lambda>(code, _). Ok code))"

section \<open>Lemmas\<close>

text \<open>The bytes of an entry, and the entries an encoder may hold.\<close>

definition tlv_bytes :: "tlv_value \<Rightarrow> bytes" where
  "tlv_bytes t = [tlv_tag t] @ PutUint16 (word_of_nat (length (tlv_val t))) @ tlv_val t"

definition tlv_map :: "tlv_value list \<Rightarrow> tlv_decoder" where
  "tlv_map ts = map_of (map (\<lambda>t. (tlv_tag t, tlv_val t)) ts)"

definition tlv_list_ok :: "tlv_value list \<Rightarrow> bool" where
  "tlv_list_ok ts \<longleftrightarrow> distinct (map tlv_tag ts) \<and> list_all (\<lambda>t. length (tlv_val t) \<le> MaxTLVValueLen) ts"

definition encoder_inv :: "tlv_encoder \<Rightarrow> bool" where
  "encoder_inv e \<longleftrightarrow> tlv_list_ok (enc_entries e) \<and>
     (\<forall>t. enc_seen e t \<longleftrightarrow> t \<in> tlv_tag ` set (enc_entries e))"

lemma length_tlv_bytes [simp]: "length (tlv_bytes t) = 3 + length (tlv_val t)"
  by (simp add: tlv_bytes_def)

lemma encoder_inv_New: "encoder_inv NewTLVEncoder"
  by (simp add: encoder_inv_def NewTLVEncoder_def tlv_list_ok_def)

lemma encoder_inv_AddTag: "encoder_inv e \<Longrightarrow> encoder_inv (AddTag tag v e)"
  by (auto simp: encoder_inv_def AddTag_def tlv_list_ok_def)

lemma encode_entry_append:
  assumes "length pre = offset"
  shows "encode_entry (pre @ replicate (3 + length (tlv_val t) + n) 0, offset) t
    = (pre @ tlv_bytes t @ replicate n 0, offset + length (tlv_bytes t))"
proof -
  let ?z = "\<lambda>k. replicate k (0 :: u8)"
  let ?l = "PutUint16 (word_of_nat (length (tlv_val t)))"
  have z: "?z (3 + length (tlv_val t) + n) = ?z 1 @ ?z 2 @ ?z (length (tlv_val t)) @ ?z n"
  proof -
    have "3 + length (tlv_val t) + n = 1 + (2 + (length (tlv_val t) + n))" by simp
    then show ?thesis by (simp only: replicate_add)
  qed
  have 1: "splice offset [tlv_tag t] (pre @ ?z 1 @ ?z 2 @ ?z (length (tlv_val t)) @ ?z n)
    = pre @ [tlv_tag t] @ ?z 2 @ ?z (length (tlv_val t)) @ ?z n"
    by (rule splice_mid) (simp_all add: assms)
  have 2: "splice (offset + 1) ?l ((pre @ [tlv_tag t]) @ ?z 2 @ ?z (length (tlv_val t)) @ ?z n)
    = (pre @ [tlv_tag t]) @ ?l @ ?z (length (tlv_val t)) @ ?z n"
    by (rule splice_mid) (simp_all add: assms)
  have 3: "splice (offset + 3) (tlv_val t) ((pre @ [tlv_tag t] @ ?l) @ ?z (length (tlv_val t)) @ ?z n)
    = (pre @ [tlv_tag t] @ ?l) @ tlv_val t @ ?z n"
    by (rule splice_mid) (simp_all add: assms)
  show ?thesis
    unfolding encode_entry_def z Let_def prod.case 1
    using 2 3 by (simp add: tlv_bytes_def)
qed

lemma foldl_encode_entry:
  "length pre = offset \<Longrightarrow>
   fst (foldl encode_entry
     (pre @ replicate (sum_list (map (\<lambda>t. 1 + 2 + length (tlv_val t)) ts)) 0, offset) ts)
   = pre @ concat (map tlv_bytes ts)"
proof (induction ts arbitrary: pre offset)
  case Nil
  then show ?case by simp
next
  case (Cons t ts)
  let ?n = "sum_list (map (\<lambda>t. 1 + 2 + length (tlv_val t)) ts)"
  have "encode_entry (pre @ replicate (sum_list (map (\<lambda>t. 1 + 2 + length (tlv_val t)) (t # ts))) 0, offset) t
    = ((pre @ tlv_bytes t) @ replicate ?n 0, offset + length (tlv_bytes t))"
  proof -
    have "sum_list (map (\<lambda>t. 1 + 2 + length (tlv_val t)) (t # ts)) = 3 + length (tlv_val t) + ?n" by simp
    then show ?thesis
      using encode_entry_append [OF Cons.prems, of t ?n] by (simp only: append_assoc)
  qed
  then show ?case
    using Cons.IH [of "pre @ tlv_bytes t" "offset + length (tlv_bytes t)"] Cons.prems
    by (simp only: foldl.simps) simp
qed

lemma Encode_concat:
  "Encode e = (if enc_err e \<noteq> None then None else Some (concat (map tlv_bytes (enc_entries e))))"
  using foldl_encode_entry [of "[]" 0 "enc_entries e"] by (simp add: Encode_def Let_def)

lemma tlv_parse_step:
  assumes "drop offset data = tlv_bytes t @ rest" "length (tlv_val t) \<le> MaxTLVValueLen"
  shows "tlv_parse data offset m =
    (if m (tlv_tag t) \<noteq> None then Err (ErrNew ''duplicate TLV tag'')
     else tlv_parse data (offset + length (tlv_bytes t)) (m(tlv_tag t \<mapsto> tlv_val t)))"
proof -
  let ?n = "word_of_nat (length (tlv_val t)) :: u16"
  have n: "unat ?n = length (tlv_val t)"
    using assms(2) by (simp add: unat_of_nat MaxTLVValueLen_def)
  have pos: "offset + 3 + length (tlv_val t) \<le> length data"
    using drop_pos [OF assms(1)] by simp
  have d: "drop offset data = [tlv_tag t] @ (PutUint16 ?n @ tlv_val t @ rest)"
    using assms(1) by (simp add: tlv_bytes_def)
  have d1: "drop (offset + 1) data = PutUint16 ?n @ (tlv_val t @ rest)"
    by (rule drop_shift [OF d]) simp
  have d3: "drop (offset + 3) data = tlv_val t @ rest"
    using drop_shift [OF d1, of 2] by (simp add: numeral_3_eq_3)
  have i: "index data offset = Ok (tlv_tag t)" using pos d by (simp add: nth_via_drop)
  have s1: "slice data (offset + 1) (offset + 3) = Ok (PutUint16 ?n)"
    using pos d1 by simp
  have s3: "slice data (offset + 3) (offset + 3 + length (tlv_val t)) = Ok (tlv_val t)"
    using pos d3 by simp
  have g: "offset < length data" "\<not> length data < offset + 3"
    "\<not> length data < offset + 3 + length (tlv_val t)" using pos by linarith+
  have e: "offset + length (tlv_bytes t) = offset + 3 + length (tlv_val t)" by simp
  show ?thesis
    unfolding e by (subst tlv_parse.simps)
      (simp only: g i s1 s3 n bind_res.simps Uint_Put_Nil if_True if_False)
qed

lemma tlv_parse_Ok_split:
  assumes "tlv_parse data offset m = Ok m'" "offset < length data"
  obtains t rest where "drop offset data = tlv_bytes t @ rest"
    "length (tlv_val t) \<le> MaxTLVValueLen"
proof -
  from assms have l3: "offset + 3 \<le> length data"
    by (subst (asm) tlv_parse.simps) (auto split: if_splits)
  then have "2 \<le> length (drop (offset + 1) data)" by simp
  then obtain n where n: "Uint16 (drop (offset + 1) data) = Ok n" using Uint_Ok_iff(1) by blast
  have d: "drop offset data = data ! offset # drop (offset + 1) data"
    using assms(2) by (simp add: Cons_nth_drop_Suc)
  have d1: "drop (offset + 1) data = PutUint16 n @ drop (offset + 3) data"
    using Put_Uint(1) [OF n] append_take_drop_id [of 2 "drop (offset + 1) data"]
    by (simp add: numeral_3_eq_3)
  have s1: "slice data (offset + 1) (offset + 3) = Ok (PutUint16 n)" using l3 d1 by simp
  have g: "\<not> length data < offset + 3" using l3 by simp
  have fits: "offset + 3 + unat n \<le> length data"
    using assms(1) by (subst (asm) tlv_parse.simps)
      (simp only: assms(2) g s1 index_Ok bind_res.simps Uint_Put_Nil if_True if_False,
        auto split: if_splits)
  let ?t = "\<lparr>tlv_tag = data ! offset, tlv_val = take (unat n) (drop (offset + 3) data)\<rparr>"
  have "unat n \<le> 65535" using unat_u16_less [of n] by simp
  moreover have lt: "length (tlv_val ?t) = unat n" using fits by simp
  moreover have "drop offset data = tlv_bytes ?t @ drop (unat n) (drop (offset + 3) data)"
    using d d1 lt by (simp add: tlv_bytes_def del: drop_drop)
  ultimately show ?thesis using that [of ?t] by (simp add: MaxTLVValueLen_def)
qed

lemma tlv_parse_concat:
  "tlv_list_ok ts \<Longrightarrow> drop offset data = concat (map tlv_bytes ts) \<Longrightarrow> offset \<le> length data \<Longrightarrow>
   dom m \<inter> tlv_tag ` set ts = {} \<Longrightarrow> tlv_parse data offset m = Ok (m ++ tlv_map ts)"
proof (induction ts arbitrary: offset m)
  case Nil
  then show ?case by (subst tlv_parse.simps) (simp add: tlv_map_def)
next
  case (Cons t ts)
  have d: "drop offset data = tlv_bytes t @ concat (map tlv_bytes ts)" using Cons.prems by simp
  have n: "offset + length (tlv_bytes t) \<le> length data" by (rule drop_pos [OF d]) simp
  have dn: "drop (offset + length (tlv_bytes t)) data = concat (map tlv_bytes ts)"
    by (rule drop_shift [OF d]) simp
  have t: "length (tlv_val t) \<le> MaxTLVValueLen" "tlv_list_ok ts" "tlv_tag t \<notin> tlv_tag ` set ts"
    using Cons.prems(1) by (auto simp: tlv_list_ok_def)
  have fresh: "m (tlv_tag t) = None" using Cons.prems(4) by (auto simp: domIff)
  have "tlv_tag t \<notin> dom (tlv_map ts)" using t(3) by (simp add: tlv_map_def dom_map_of_conv_image_fst image_image)
  then have "m(tlv_tag t \<mapsto> tlv_val t) ++ tlv_map ts = m ++ tlv_map (t # ts)"
    by (auto simp: tlv_map_def map_add_def fun_eq_iff domIff split: option.split)
  moreover have dis: "dom (m(tlv_tag t \<mapsto> tlv_val t)) \<inter> tlv_tag ` set ts = {}"
    using Cons.prems(4) t(3) by auto
  ultimately have "tlv_parse data (offset + length (tlv_bytes t)) (m(tlv_tag t \<mapsto> tlv_val t))
    = Ok (m ++ tlv_map (t # ts))"
    using Cons.IH [OF t(2) dn n dis] by (simp only:)
  then show ?case using tlv_parse_step [OF d t(1), of m] fresh by simp
qed

lemma tlv_parse_sound:
  assumes "tlv_parse data offset m = Ok m'" "offset \<le> length data"
  shows "\<exists>ts. drop offset data = concat (map tlv_bytes ts) \<and> tlv_list_ok ts \<and>
    dom m \<inter> tlv_tag ` set ts = {}"
  using assms
proof (induction "length data - offset" arbitrary: offset m rule: less_induct)
  case less
  show ?case
  proof (cases "offset < length data")
    case False
    then show ?thesis using less.prems by (intro exI [of _ "[]"]) (simp add: tlv_list_ok_def)
  next
    case True
    obtain t rest where t: "drop offset data = tlv_bytes t @ rest" "length (tlv_val t) \<le> MaxTLVValueLen"
      using less.prems(1) True by (rule tlv_parse_Ok_split)
    have n: "offset + length (tlv_bytes t) \<le> length data" by (rule drop_pos [OF t(1)]) simp
    have dn: "drop (offset + length (tlv_bytes t)) data = rest" by (rule drop_shift [OF t(1)]) simp
    have fresh: "m (tlv_tag t) = None"
      and p: "tlv_parse data (offset + length (tlv_bytes t)) (m(tlv_tag t \<mapsto> tlv_val t)) = Ok m'"
      using less.prems(1) tlv_parse_step [OF t, of m] by (auto split: if_splits)
    have "length data - (offset + length (tlv_bytes t)) < length data - offset" using True by simp
    from less.hyps [OF this p n] dn obtain ts where ts: "rest = concat (map tlv_bytes ts)"
      "tlv_list_ok ts" "dom (m(tlv_tag t \<mapsto> tlv_val t)) \<inter> tlv_tag ` set ts = {}" by auto
    then show ?thesis using t fresh by (intro exI [of _ "t # ts"]) (auto simp: tlv_list_ok_def)
  qed
qed

lemma NewTLVDecoder_Ok_iff:
  "NewTLVDecoder data = Ok m \<longleftrightarrow>
     (\<exists>ts. data = concat (map tlv_bytes ts) \<and> tlv_list_ok ts \<and> m = tlv_map ts)"
proof
  assume a: "NewTLVDecoder data = Ok m"
  then obtain ts where "data = concat (map tlv_bytes ts)" "tlv_list_ok ts"
    using tlv_parse_sound [of data 0 "\<lambda>_. None" m] by (auto simp: NewTLVDecoder_def)
  with a show "\<exists>ts. data = concat (map tlv_bytes ts) \<and> tlv_list_ok ts \<and> m = tlv_map ts"
    using tlv_parse_concat [of ts 0 data "\<lambda>_. None"]
    by (intro exI [of _ ts]) (simp add: NewTLVDecoder_def map_add_def tlv_map_def split: option.split)
next
  assume "\<exists>ts. data = concat (map tlv_bytes ts) \<and> tlv_list_ok ts \<and> m = tlv_map ts"
  then show "NewTLVDecoder data = Ok m"
    using tlv_parse_concat [of _ 0 data "\<lambda>_. None"]
    by (auto simp: NewTLVDecoder_def map_add_def fun_eq_iff split: option.split)
qed

lemma tlv_parse_no_panic: "no_panic (tlv_parse data offset m)"
proof (induction data offset m rule: tlv_parse.induct)
  case (1 data offset m)
  then show ?case
    by (subst tlv_parse.simps) (auto simp: slice_Ok_iff simp del: fun_upd_apply intro!: no_panic_intros)
qed

text \<open>A run of \<open>AddTag\<close> calls on a new encoder.\<close>

definition add_all :: "(u8 \<times> bytes) list \<Rightarrow> tlv_encoder" where
  "add_all kvs = fold (\<lambda>(t, v). AddTag t v) kvs NewTLVEncoder"

definition tags_ok :: "(u8 \<times> bytes) list \<Rightarrow> bool" where
  "tags_ok kvs \<longleftrightarrow> distinct (map fst kvs) \<and> list_all (\<lambda>(t, v). length v \<le> MaxTLVValueLen) kvs"

lemma add_all_inv: "encoder_inv (add_all kvs)"
proof (induction kvs rule: rev_induct)
  case Nil
  then show ?case by (simp add: add_all_def encoder_inv_New)
next
  case (snoc kv kvs)
  then show ?case by (cases kv) (simp add: add_all_def encoder_inv_AddTag)
qed

lemma add_all_entries:
  "(enc_err (add_all kvs) = None \<longleftrightarrow> tags_ok kvs) \<and>
   (tags_ok kvs \<longrightarrow> enc_entries (add_all kvs) = map (\<lambda>(t, v). \<lparr>tlv_tag = t, tlv_val = v\<rparr>) kvs)"
proof (induction kvs rule: rev_induct)
  case Nil
  then show ?case by (simp add: add_all_def NewTLVEncoder_def tags_ok_def)
next
  case (snoc kv kvs)
  obtain t v where kv: "kv = (t, v)" by (cases kv)
  have step: "add_all (kvs @ [(t, v)]) = AddTag t v (add_all kvs)" by (simp add: add_all_def)
  have ok: "tags_ok (kvs @ [(t, v)]) \<longleftrightarrow>
    tags_ok kvs \<and> t \<notin> fst ` set kvs \<and> length v \<le> MaxTLVValueLen"
    by (auto simp: tags_ok_def)
  have seen: "enc_seen (add_all kvs) t \<longleftrightarrow> t \<in> tlv_tag ` set (enc_entries (add_all kvs))"
    using add_all_inv [of kvs] by (simp add: encoder_inv_def)
  show ?case
  proof (cases "tags_ok kvs")
    case False
    then show ?thesis using snoc unfolding kv step ok by (simp add: AddTag_def)
  next
    case True
    then have "enc_seen (add_all kvs) t \<longleftrightarrow> t \<in> fst ` set kvs"
      using snoc unfolding seen by (simp add: image_image case_prod_beta)
    then show ?thesis using snoc True unfolding kv step ok by (simp add: AddTag_def)
  qed
qed

section \<open>Properties\<close>

text \<open>TLV round trip. A sequence of tagged values encodes exactly when its tags are distinct and
  no value is longer than 65535 bytes, and then decoding the encoding gives back exactly the
  values under their tags. A repeated tag or an oversized value anywhere in the sequence makes the
  whole encoding fail.\<close>

theorem tlv_roundtrip:
  "case Encode (add_all kvs) of
     None \<Rightarrow> \<not> tags_ok kvs
   | Some data \<Rightarrow> tags_ok kvs \<and> NewTLVDecoder data = Ok (map_of kvs)"
proof (cases "tags_ok kvs")
  case True
  let ?ts = "map (\<lambda>(t, v). \<lparr>tlv_tag = t, tlv_val = v\<rparr>) kvs"
  have enc: "Encode (add_all kvs) = Some (concat (map tlv_bytes ?ts))"
    using add_all_entries [of kvs] True by (simp add: Encode_concat)
  have "tlv_list_ok ?ts"
    using add_all_inv [of kvs] add_all_entries [of kvs] True by (simp add: encoder_inv_def)
  then have "NewTLVDecoder (concat (map tlv_bytes ?ts)) = Ok (tlv_map ?ts)"
    using NewTLVDecoder_Ok_iff by blast
  moreover have "tlv_map ?ts = map_of kvs"
    by (simp add: tlv_map_def comp_def case_prod_beta')
  ultimately show ?thesis using True by (simp add: enc)
next
  case False
  then show ?thesis using add_all_entries [of kvs] by (simp add: Encode_concat)
qed

text \<open>TLV decoder. The decoder accepts exactly the concatenations of entries with distinct tags
  and returns the map they spell; any truncation or duplicate is an error, never a panic.\<close>

theorem tlv_decoder_exact:
  "(NewTLVDecoder data = Ok m \<longleftrightarrow>
     (\<exists>ts. data = concat (map tlv_bytes ts) \<and> tlv_list_ok ts \<and> m = tlv_map ts)) \<and>
   no_panic (NewTLVDecoder data)"
  using NewTLVDecoder_Ok_iff tlv_parse_no_panic by (simp add: NewTLVDecoder_def)

lemma ucast_u8_u16: "unat (ucast (b :: u8) :: u16) = unat b"
  using unat_u8_less [of b] by (simp add: unsigned_ucast_eq take_bit_nat_eq_self)

lemma unat_ucast_u16_u8: "unat (ucast (x :: u16) :: u8) = unat x mod 256"
  by (simp add: unsigned_ucast_eq take_bit_eq_mod)

lemma op_tag_short:
  "b \<noteq> 0xFF \<and> opCode = ucast (b :: u8) \<longleftrightarrow> opCode \<le> 0xFE \<and> b = ucast (opCode :: u16)"
proof
  assume a: "b \<noteq> 0xFF \<and> opCode = ucast b"
  then have "unat b \<noteq> 255" by (simp add: word_unat_eq_iff)
  then have "unat b \<le> 254" using unat_u8_less [of b] by simp
  moreover have op: "unat opCode = unat b" using a by (simp add: ucast_u8_u16)
  moreover have "unat (ucast opCode :: u8) = unat b"
    using unat_u8_less [of b] by (simp only: unat_ucast_u16_u8 op) simp
  ultimately show "opCode \<le> 0xFE \<and> b = ucast opCode"
    by (simp add: word_le_nat_alt word_unat_eq_iff [of b])
next
  assume a: "opCode \<le> 0xFE \<and> b = ucast opCode"
  then have le: "unat opCode \<le> 254" by (simp add: word_le_nat_alt)
  then have "unat b = unat opCode"
    using a by (simp add: unsigned_ucast_eq take_bit_nat_eq_self)
  then have "opCode = ucast b" using ucast_u8_u16 [of b] by (simp add: word_unat_eq_iff)
  moreover have "b \<noteq> 0xFF" using \<open>unat b = unat opCode\<close> le by auto
  ultimately show "b \<noteq> 0xFF \<and> opCode = ucast b" by simp
qed

text \<open>Operation codes. The escape encoding is canonical: decoding returns a code and the number
  of bytes it used exactly when the input starts with the encoding of that code, so a long form of
  a short code is refused.\<close>

theorem op_tag_exact:
  "DecodeOpTag data = Ok (opCode, n) \<longleftrightarrow>
     (\<exists>rest. data = EncodeOpTag opCode @ rest) \<and> n = length (EncodeOpTag opCode)"
proof (cases data)
  case Nil
  then show ?thesis by (simp add: DecodeOpTag_def EncodeOpTag_def)
next
  case (Cons b r)
  show ?thesis
  proof (cases "b = 0xFF")
    case False
    then show ?thesis
      using op_tag_short [of b opCode] by (auto simp: Cons DecodeOpTag_def EncodeOpTag_def)
  next
    case esc: True
    have short: "\<not> (opCode \<le> 0xFE \<and> b = ucast opCode)" using esc op_tag_short [of b opCode] by blast
    show ?thesis
    proof (cases "2 \<le> length r")
      case True
      then obtain c where c: "Uint16 r = Ok c" using Uint_Ok_iff(1) [of r] by blast
      then have r: "r = PutUint16 c @ drop 2 r"
        using Put_Uint(1) [OF c] append_take_drop_id [of 2 r] by simp
      have "slice data 1 3 = Ok (PutUint16 c)"
        using True Put_Uint(1) [OF c] by (simp add: Cons)
      then have dec: "DecodeOpTag data
        = (if c \<le> 0xFE then Err (ErrNew ''non-canonical escaped TagOp value'') else Ok (c, 3))"
        using True by (simp add: DecodeOpTag_def Cons esc)
      have "(\<exists>rest. r = PutUint16 opCode @ rest) \<longleftrightarrow> opCode = c"
      proof
        assume "\<exists>rest. r = PutUint16 opCode @ rest"
        then have "Uint16 r = Ok opCode" by auto
        with c show "opCode = c" by simp
      qed (use r in blast)
      then show ?thesis using short unfolding dec by (auto simp: EncodeOpTag_def Cons esc)
    next
      case False
      then have "\<not> (\<exists>rest. r = PutUint16 opCode @ rest)" by auto
      then show ?thesis
        using short False by (auto simp: DecodeOpTag_def EncodeOpTag_def Cons esc)
    qed
  qed
qed

end
