(* ===== verification/Request_Queue.thy ===== *)
theory Request_Queue
  imports Fitz_Prelude
begin

text \<open>
  The queue of pending requests the multiplexer keeps per message type
  (\<^verbatim>\<open>internal/core/connection/mux.go\<close>, type \<open>requestQueue\<close>): a slice with a moving head, vacant slots
  for requests removed from the middle, tombstones for abandoned requests whose response is still to
  come, a waiter index and compaction. A waiter, a pointer in the code, is a number here. Reading and
  deleting from Go's nil map behave as on an empty one, so \<open>q_index\<close> identifies the two. The theory ends
  with the abstract queue of slots (a locale) and the proof that the code implements it.
\<close>

type_synonym waiter = nat

record pendingRequest =
  req_waiter :: "waiter option"
  req_cancel :: "nat option"
  req_discard :: bool

record requestQueue =
  q_items :: "pendingRequest list"
  q_head :: nat
  q_live :: int
  q_removed :: nat
  q_index :: "waiter \<rightharpoonup> nat"

definition no_request :: pendingRequest where
  "no_request = \<lparr>req_waiter = None, req_cancel = None, req_discard = False\<rparr>"

definition tombstone :: pendingRequest where
  "tombstone = \<lparr>req_waiter = None, req_cancel = None, req_discard = True\<rparr>"

definition newQueue :: requestQueue where
  "newQueue = \<lparr>q_items = [], q_head = 0, q_live = 0, q_removed = 0, q_index = Map.empty\<rparr>"

definition rq_push :: "pendingRequest \<Rightarrow> requestQueue \<Rightarrow> requestQueue" where
  "rq_push req q =
     (let q' = q\<lparr>q_items := q_items q @ [req], q_live := q_live q + 1\<rparr>
      in case req_waiter req of
           None \<Rightarrow> q'
         | Some w \<Rightarrow> q'\<lparr>q_index := (q_index q')(w \<mapsto> length (q_items q') - 1)\<rparr>)"

definition rq_reset :: "requestQueue \<Rightarrow> requestQueue" where
  "rq_reset q = q\<lparr>q_items := [], q_head := 0, q_live := 0, q_removed := 0, q_index := Map.empty\<rparr>"

definition vacant :: "pendingRequest \<Rightarrow> bool" where
  "vacant r \<longleftrightarrow> req_waiter r = None \<and> \<not> req_discard r"

function trim_loop :: "requestQueue \<Rightarrow> requestQueue" where
  "trim_loop q =
     (if q_head q < length (q_items q) \<and> vacant (q_items q ! q_head q)
      then trim_loop (q\<lparr>q_head := q_head q + 1,
                        q_removed := (if q_removed q > 0 then q_removed q - 1 else q_removed q)\<rparr>)
      else q)"
  by pat_completeness auto
termination by (relation "measure (\<lambda>q. length (q_items q) - q_head q)") auto

declare trim_loop.simps [simp del]

definition trimHead :: "requestQueue \<Rightarrow> requestQueue" where
  "trimHead q =
     (let q' = trim_loop q in if q_head q' \<ge> length (q_items q') then rq_reset q' else q')"

definition compact_step ::
    "pendingRequest list \<times> (waiter \<rightharpoonup> nat) \<Rightarrow> pendingRequest \<Rightarrow> pendingRequest list \<times> (waiter \<rightharpoonup> nat)" where
  "compact_step acc req =
     (let (items, idx) = acc in
      if vacant req then (items, idx)
      else (items @ [req],
            case req_waiter req of None \<Rightarrow> idx | Some w \<Rightarrow> idx(w \<mapsto> length items)))"

definition rq_compact :: "requestQueue \<Rightarrow> requestQueue" where
  "rq_compact q =
     (if q_live q = 0 then rq_reset q
      else let (items, idx) = foldl compact_step ([], Map.empty) (drop (q_head q) (q_items q))
           in q\<lparr>q_items := items, q_head := 0, q_removed := 0, q_index := idx\<rparr>)"

definition compactIfNeeded :: "requestQueue \<Rightarrow> requestQueue" where
  "compactIfNeeded q =
     (if q_live q = 0 then rq_reset q
      else if q_head q < 32 \<and> q_removed q < 32 then q
      else if q_head q * 2 < length (q_items q) \<and> q_removed q * 2 < length (q_items q) then q
      else rq_compact q)"

definition rq_pop :: "requestQueue \<Rightarrow> (pendingRequest \<times> bool) \<times> requestQueue" where
  "rq_pop q0 =
     (let q = trimHead q0 in
      if q_head q \<ge> length (q_items q) then ((no_request, False), rq_reset q)
      else
        let req = q_items q ! q_head q;
            q1 = q\<lparr>q_items := (q_items q)[q_head q := no_request], q_head := q_head q + 1\<rparr>;
            q2 = (case req_waiter req of
                    None \<Rightarrow> q1 | Some w \<Rightarrow> q1\<lparr>q_index := (q_index q1)(w := None)\<rparr>);
            q3 = q2\<lparr>q_live := q_live q2 - 1\<rparr>
        in ((req, True), compactIfNeeded (trimHead q3)))"

definition removeWaiter ::
    "waiter \<Rightarrow> bool \<Rightarrow> requestQueue \<Rightarrow> (pendingRequest \<times> bool) \<times> requestQueue" where
  "removeWaiter w preserveResponseSlot q =
     (let forget = q\<lparr>q_index := (q_index q)(w := None)\<rparr> in
      case q_index q w of
        None \<Rightarrow> ((no_request, False), forget)
      | Some i \<Rightarrow>
          if i < q_head q \<or> i \<ge> length (q_items q) then ((no_request, False), forget)
          else
            let req = q_items q ! i in
            if req_waiter req \<noteq> Some w then ((no_request, False), forget)
            else
              let q' = (if preserveResponseSlot
                        then forget\<lparr>q_items := (q_items q)[i := tombstone]\<rparr>
                        else
                          let q1 = forget\<lparr>q_items := (q_items q)[i := no_request],
                                          q_live := q_live q - 1, q_removed := q_removed q + 1\<rparr>
                          in if i = q_head q1 then trimHead q1 else q1)
              in ((req, True), compactIfNeeded q'))"

definition rq_len :: "requestQueue \<Rightarrow> int" where "rq_len q = q_live q"

section \<open>Contents and invariant\<close>

text \<open>The slots still to be answered, oldest first: what the queue means.\<close>

definition slots :: "requestQueue \<Rightarrow> pendingRequest list" where
  "slots q = filter (\<lambda>r. \<not> vacant r) (drop (q_head q) (q_items q))"

definition rq_inv :: "requestQueue \<Rightarrow> bool" where
  "rq_inv q \<longleftrightarrow>
     q_head q \<le> length (q_items q) \<and>
     q_live q = int (length (slots q)) \<and>
     q_removed q = length (filter vacant (drop (q_head q) (q_items q))) \<and>
     (\<forall>w i. q_index q w = Some i \<longleftrightarrow>
        q_head q \<le> i \<and> i < length (q_items q) \<and> req_waiter (q_items q ! i) = Some w)"

lemma vacant_simps [simp]: "vacant no_request" "\<not> vacant tombstone"
  "req_waiter r = Some w \<Longrightarrow> \<not> vacant r"
  by (simp_all add: vacant_def no_request_def tombstone_def)

lemma no_request_sel [simp]: "req_waiter no_request = None" "req_waiter tombstone = None"
  "req_discard tombstone" "\<not> req_discard no_request"
  by (simp_all add: no_request_def tombstone_def)

lemma rq_reset_inv [simp]: "rq_inv (rq_reset q)" "slots (rq_reset q) = []"
  by (simp_all add: rq_inv_def rq_reset_def slots_def)

lemma newQueue_inv [simp]: "rq_inv newQueue" "slots newQueue = []"
  by (simp_all add: rq_inv_def newQueue_def slots_def)

lemma rq_inv_index:
  assumes "rq_inv q" "q_index q w = Some i"
  shows "q_head q \<le> i" "i < length (q_items q)" "req_waiter (q_items q ! i) = Some w"
  using assms by (auto simp: rq_inv_def)

text \<open>The index is injective: a waiter holds at most one slot.\<close>

lemma rq_inv_unique:
  assumes "rq_inv q" "q_head q \<le> i" "i < length (q_items q)" "q_head q \<le> j" "j < length (q_items q)"
    "req_waiter (q_items q ! i) = Some w" "req_waiter (q_items q ! j) = Some w"
  shows "i = j"
proof -
  have "q_index q w = Some i" "q_index q w = Some j" using assms unfolding rq_inv_def by blast+
  then show ?thesis by simp
qed

lemma rq_inv_index_None:
  assumes "rq_inv q"
  shows "q_index q w = None \<longleftrightarrow> (\<forall>r\<in>set (slots q). req_waiter r \<noteq> Some w)"
proof
  assume none: "q_index q w = None"
  show "\<forall>r\<in>set (slots q). req_waiter r \<noteq> Some w"
  proof (intro ballI notI)
    fix r assume "r \<in> set (slots q)" "req_waiter r = Some w"
    then obtain k where "k < length (q_items q) - q_head q" "q_items q ! (q_head q + k) = r"
      by (auto simp: slots_def in_set_conv_nth)
    then have "q_index q w = Some (q_head q + k)"
      using assms \<open>req_waiter r = Some w\<close> unfolding rq_inv_def by auto
    with none show False by simp
  qed
next
  assume no: "\<forall>r\<in>set (slots q). req_waiter r \<noteq> Some w"
  show "q_index q w = None"
  proof (rule ccontr)
    assume "q_index q w \<noteq> None"
    then obtain i where i: "q_index q w = Some i" by blast
    note f = rq_inv_index [OF assms i]
    have "drop (q_head q) (q_items q) ! (i - q_head q) \<in> set (drop (q_head q) (q_items q))"
      by (rule nth_mem) (use f in simp)
    then have "q_items q ! i \<in> set (drop (q_head q) (q_items q))" using f by simp
    then have "q_items q ! i \<in> set (slots q)" using f(3) by (simp add: slots_def)
    with no f(3) show False by blast
  qed
qed

section \<open>Every operation keeps the invariant\<close>

lemma drop_head_step:
  "q_head q < length (q_items q) \<Longrightarrow>
   drop (q_head q) (q_items q) = q_items q ! q_head q # drop (Suc (q_head q)) (q_items q)"
  by (simp add: Cons_nth_drop_Suc)

lemma trim_loop_inv:
  "rq_inv q \<Longrightarrow>
   rq_inv (trim_loop q) \<and> slots (trim_loop q) = slots q \<and>
   (q_head (trim_loop q) < length (q_items (trim_loop q)) \<longrightarrow>
    \<not> vacant (q_items (trim_loop q) ! q_head (trim_loop q)))"
proof (induction q rule: trim_loop.induct)
  case (1 q)
  show ?case
  proof (cases "q_head q < length (q_items q) \<and> vacant (q_items q ! q_head q)")
    case True
    let ?q = "q\<lparr>q_head := q_head q + 1,
      q_removed := (if q_removed q > 0 then q_removed q - 1 else q_removed q)\<rparr>"
    have d: "drop (q_head q) (q_items q) = q_items q ! q_head q # drop (Suc (q_head q)) (q_items q)"
      using True by (intro drop_head_step) simp
    have sl: "slots ?q = slots q" using True unfolding slots_def d by simp
    have "q_head q \<le> i \<and> i < length (q_items q) \<and> req_waiter (q_items q ! i) = Some w \<longleftrightarrow>
      Suc (q_head q) \<le> i \<and> i < length (q_items q) \<and> req_waiter (q_items q ! i) = Some w" for w i
      using True by (cases "i = q_head q") (auto simp: vacant_def)
    then have "rq_inv ?q"
      using 1(2) True unfolding rq_inv_def sl by (auto simp: d)
    from 1(1) [OF True this] show ?thesis
      unfolding sl using True by (subst (1 2 3 4 5 6) trim_loop.simps) simp
  qed (use 1(2) in \<open>subst (1 2 3 4 5 6) trim_loop.simps, auto\<close>)
qed

lemma trimHead_inv:
  assumes "rq_inv q"
  shows "rq_inv (trimHead q)" "slots (trimHead q) = slots q"
    "q_head (trimHead q) < length (q_items (trimHead q)) \<Longrightarrow>
      \<not> vacant (q_items (trimHead q) ! q_head (trimHead q))"
  using trim_loop_inv [OF assms]
  by (auto simp: trimHead_def Let_def rq_reset_def slots_def rq_inv_def)

definition waiters :: "pendingRequest list \<Rightarrow> waiter list" where
  "waiters rs = List.map_filter req_waiter rs"

lemma waiters_simps [simp]:
  "waiters [] = []"
  "waiters (r # rs) = (case req_waiter r of None \<Rightarrow> waiters rs | Some w \<Rightarrow> w # waiters rs)"
  "waiters (rs @ ts) = waiters rs @ waiters ts"
  by (simp_all add: waiters_def List.map_filter_def split: option.splits)

lemma set_waiters: "w \<in> set (waiters rs) \<longleftrightarrow> (\<exists>r\<in>set rs. req_waiter r = Some w)"
  by (induction rs) (auto split: option.splits)

lemma waiters_nonvacant [simp]: "waiters (filter (\<lambda>r. \<not> vacant r) rs) = waiters rs"
  by (induction rs) (auto simp: vacant_def split: option.splits)

lemma distinct_waiters:
  assumes "\<And>i j w. i < length rs \<Longrightarrow> j < length rs \<Longrightarrow> req_waiter (rs ! i) = Some w \<Longrightarrow>
    req_waiter (rs ! j) = Some w \<Longrightarrow> i = j"
  shows "distinct (waiters rs)"
  using assms
proof (induction rs)
  case (Cons r rs)
  have "distinct (waiters rs)"
    using Cons.prems [of "Suc i" "Suc j" for i j] by (intro Cons.IH) fastforce
  moreover have "w \<notin> set (waiters rs)" if w: "req_waiter r = Some w" for w
  proof
    assume "w \<in> set (waiters rs)"
    then obtain k where "k < length rs" "req_waiter (rs ! k) = Some w"
      unfolding set_waiters by (metis in_set_conv_nth)
    then show False using Cons.prems [of 0 "Suc k" w] w by simp
  qed
  ultimately show ?case by (simp split: option.splits)
qed simp

lemma compact_fold:
  assumes "\<forall>w i. idx w = Some i \<longleftrightarrow> i < length items \<and> req_waiter (items ! i) = Some w"
    and "distinct (waiters (items @ rs))"
    and "foldl compact_step (items, idx) rs = (items', idx')"
  shows "items' = items @ filter (\<lambda>r. \<not> vacant r) rs \<and>
    (\<forall>w i. idx' w = Some i \<longleftrightarrow> i < length items' \<and> req_waiter (items' ! i) = Some w)"
  using assms
proof (induction rs arbitrary: items idx)
  case (Cons r rs)
  show ?case
  proof (cases "vacant r")
    case True
    then have "req_waiter r = None" by (simp add: vacant_def)
    with True show ?thesis
      using Cons.IH [of idx items] Cons.prems by (simp add: compact_step_def)
  next
    case False
    let ?idx = "case req_waiter r of None \<Rightarrow> idx | Some w \<Rightarrow> idx(w \<mapsto> length items)"
    have "\<forall>w i. ?idx w = Some i \<longleftrightarrow>
      i < length (items @ [r]) \<and> req_waiter ((items @ [r]) ! i) = Some w"
    proof (intro allI)
      fix w i
      have "req_waiter r = Some w \<Longrightarrow> i < length items \<Longrightarrow> req_waiter (items ! i) \<noteq> Some w"
        using Cons.prems(2) by (auto simp: set_waiters)
      then show "?idx w = Some i \<longleftrightarrow>
        i < length (items @ [r]) \<and> req_waiter ((items @ [r]) ! i) = Some w"
        using Cons.prems(1) by (auto simp: nth_append less_Suc_eq split: option.splits)
    qed
    from Cons.IH [OF this] False show ?thesis
      using Cons.prems(2,3) by (simp add: compact_step_def)
  qed
qed simp

lemma rq_inv_distinct:
  assumes "rq_inv q"
  shows "distinct (waiters (drop (q_head q) (q_items q)))" "distinct (waiters (slots q))"
proof -
  show "distinct (waiters (drop (q_head q) (q_items q)))"
  proof (rule distinct_waiters)
    fix i j w
    assume "i < length (drop (q_head q) (q_items q))" "j < length (drop (q_head q) (q_items q))"
      "req_waiter (drop (q_head q) (q_items q) ! i) = Some w"
      "req_waiter (drop (q_head q) (q_items q) ! j) = Some w"
    then show "i = j" using rq_inv_unique [OF assms, of "q_head q + i" "q_head q + j" w] by simp
  qed
  then show "distinct (waiters (slots q))" by (simp add: slots_def)
qed

lemma rq_live_zero: "rq_inv q \<Longrightarrow> q_live q = 0 \<longleftrightarrow> slots q = []"
  by (simp add: rq_inv_def)

lemma compact_inv:
  assumes "rq_inv q"
  shows "rq_inv (rq_compact q)" "slots (rq_compact q) = slots q"
proof -
  obtain items' idx' where f:
    "foldl compact_step ([], Map.empty) (drop (q_head q) (q_items q)) = (items', idx')"
    by fastforce
  have "items' = slots q \<and>
    (\<forall>w i. idx' w = Some i \<longleftrightarrow> i < length items' \<and> req_waiter (items' ! i) = Some w)"
    using compact_fold [OF _ _ f] rq_inv_distinct [OF assms] by (simp add: slots_def)
  moreover have "filter (\<lambda>r. \<not> vacant r) (slots q) = slots q" "filter vacant (slots q) = []"
    by (simp_all add: slots_def)
  ultimately show "rq_inv (rq_compact q)" "slots (rq_compact q) = slots q"
    using assms rq_live_zero [OF assms]
    by (auto simp: rq_compact_def f) (simp_all add: rq_inv_def slots_def)
qed

lemma compactIfNeeded_inv:
  assumes "rq_inv q"
  shows "rq_inv (compactIfNeeded q)" "slots (compactIfNeeded q) = slots q"
  using compact_inv [OF assms] assms rq_live_zero [OF assms] by (simp_all add: compactIfNeeded_def)

lemma rq_push_inv:
  assumes "rq_inv q" "req_waiter r = Some w" "\<forall>r'\<in>set (slots q). req_waiter r' \<noteq> Some w"
  shows "rq_inv (rq_push r q)" "slots (rq_push r q) = slots q @ [r]"
proof -
  have h: "q_head q \<le> length (q_items q)" using assms(1) by (simp add: rq_inv_def)
  have none: "q_index q w = None" using rq_inv_index_None [OF assms(1)] assms(3) by blast
  show sl: "slots (rq_push r q) = slots q @ [r]"
    using h assms(2) by (simp add: slots_def rq_push_def)
  have no: "\<not> (q_head q \<le> i \<and> i < length (q_items q) \<and> req_waiter (q_items q ! i) = Some w)" for i
  proof -
    have "q_index q w = Some i \<longleftrightarrow>
      q_head q \<le> i \<and> i < length (q_items q) \<and> req_waiter (q_items q ! i) = Some w"
      using assms(1) unfolding rq_inv_def by blast
    with none show ?thesis by simp
  qed
  show "rq_inv (rq_push r q)"
    using assms(1,2) no unfolding rq_inv_def sl
    by (auto simp: rq_push_def nth_append less_Suc_eq)
qed

lemma rq_pop_Nil:
  assumes "rq_inv q" "slots q = []"
  shows "fst (rq_pop q) = (no_request, False)" "rq_inv (snd (rq_pop q))" "slots (snd (rq_pop q)) = []"
proof -
  note t = trimHead_inv [OF assms(1)]
  have "q_head (trimHead q) \<ge> length (q_items (trimHead q))"
  proof (rule ccontr)
    assume "\<not> ?thesis"
    then have "slots (trimHead q) \<noteq> []"
      using t(3) drop_head_step [of "trimHead q"] by (simp add: slots_def)
    with t(2) assms(2) show False by simp
  qed
  then show "fst (rq_pop q) = (no_request, False)" "rq_inv (snd (rq_pop q))"
    "slots (snd (rq_pop q)) = []"
    by (simp_all add: rq_pop_def Let_def)
qed

lemma rq_pop_Cons:
  assumes "rq_inv q" "slots q = r # rs"
  shows "fst (rq_pop q) = (r, True)" "rq_inv (snd (rq_pop q))" "slots (snd (rq_pop q)) = rs"
proof -
  define t where "t = trimHead q"
  note inv = trimHead_inv [OF assms(1), folded t_def]
  have h: "q_head t < length (q_items t)"
    using inv(2) assms(2) by (cases "q_head t < length (q_items t)") (auto simp: slots_def)
  note d = drop_head_step [OF h]
  have r: "q_items t ! q_head t = r" and rs: "slots (t\<lparr>q_head := q_head t + 1\<rparr>) = rs"
    using inv(2,3) assms(2) h by (simp_all add: slots_def d)
  let ?idx = "case req_waiter r of None \<Rightarrow> q_index t | Some w \<Rightarrow> (q_index t)(w := None)"
  define p where "p = t\<lparr>q_items := (q_items t)[q_head t := no_request], q_head := q_head t + 1,
    q_index := ?idx, q_live := q_live t - 1\<rparr>"
  have sp: "slots p = rs" using rs by (simp add: p_def slots_def)
  have nv: "\<not> vacant r" using inv(3) h r by simp
  have "q_removed t = length (filter vacant (drop (q_head p) (q_items p)))"
    using inv(1) nv by (simp add: rq_inv_def d r p_def)
  moreover have "q_live p = int (length rs)"
    using inv(1,2) assms(2) by (simp add: rq_inv_def p_def)
  moreover have "q_index p w = Some i \<longleftrightarrow>
    q_head p \<le> i \<and> i < length (q_items p) \<and> req_waiter (q_items p ! i) = Some w" for w i
  proof -
    have "q_index t w = Some i \<longleftrightarrow>
      q_head t \<le> i \<and> i < length (q_items t) \<and> req_waiter (q_items t ! i) = Some w"
      using inv(1) unfolding rq_inv_def by blast
    moreover have "req_waiter r = Some w \<Longrightarrow> q_head t < i \<Longrightarrow> i < length (q_items t) \<Longrightarrow>
      req_waiter (q_items t ! i) \<noteq> Some w"
      using rq_inv_unique [OF inv(1), of "q_head t" i w] h r by auto
    ultimately show ?thesis
      using r h by (cases "i = q_head t") (auto simp: p_def nth_list_update split: option.splits)
  qed
  ultimately have ip: "rq_inv p" using h sp by (simp add: rq_inv_def p_def)
  have "rq_pop q = ((r, True), compactIfNeeded (trimHead p))"
    using h r by (simp add: rq_pop_def Let_def t_def [symmetric] p_def split: option.splits)
  moreover note trimHead_inv [OF ip] compactIfNeeded_inv [OF trimHead_inv(1) [OF ip]]
  ultimately show "fst (rq_pop q) = (r, True)" "rq_inv (snd (rq_pop q))"
    "slots (snd (rq_pop q)) = rs"
    using sp by simp_all
qed

lemma removeWaiter_absent:
  assumes "rq_inv q" "w \<notin> set (waiters (slots q))"
  shows "removeWaiter w keep q = ((no_request, False), q)"
proof -
  have "q_index q w = None" using rq_inv_index_None [OF assms(1)] assms(2) by (simp add: set_waiters)
  moreover from this have "(q_index q)(w := None) = q_index q" by (rule fun_upd_idem)
  ultimately show ?thesis by (simp add: removeWaiter_def)
qed

text \<open>Overwriting the slot of a waiter: what the contents and the index become.\<close>

lemma slot_overwritten:
  assumes "rq_inv q" "q_index q w = Some i"
  obtains before after where
    "drop (q_head q) (q_items q) = before @ q_items q ! i # after"
    "\<And>v. drop (q_head q) ((q_items q)[i := v]) = before @ v # after"
proof -
  note f = rq_inv_index [OF assms]
  let ?d = "drop (q_head q) (q_items q)" and ?k = "i - q_head q"
  have k: "?k < length ?d" "?d ! ?k = q_items q ! i" using f by auto
  show thesis
  proof (rule that)
    show "?d = take ?k ?d @ q_items q ! i # drop (Suc ?k) ?d"
      using id_take_nth_drop [OF k(1)] k(2) by simp
    show "drop (q_head q) ((q_items q)[i := v]) = take ?k ?d @ v # drop (Suc ?k) ?d" for v
      using f(1) upd_conv_take_nth_drop [OF k(1)] by (simp add: drop_update_swap)
  qed
qed

lemma index_overwritten:
  assumes "rq_inv q" "q_index q w = Some i" "req_waiter v = None"
  shows "((q_index q)(w := None)) w' = Some j \<longleftrightarrow>
    q_head q \<le> j \<and> j < length ((q_items q)[i := v]) \<and> req_waiter ((q_items q)[i := v] ! j) = Some w'"
proof -
  note f = rq_inv_index [OF assms(1,2)]
  have eq: "q_index q w' = Some j \<longleftrightarrow>
    q_head q \<le> j \<and> j < length (q_items q) \<and> req_waiter (q_items q ! j) = Some w'"
    using assms(1) unfolding rq_inv_def by blast
  show ?thesis
  proof (cases "j = i")
    case True
    then show ?thesis using f assms(3) eq by (cases "w' = w") simp_all
  next
    case False
    then show ?thesis using eq assms(2) by (cases "w' = w") simp_all
  qed
qed

lemma removeWaiter_present:
  assumes "rq_inv q" "w \<in> set (waiters (slots q))"
  obtains r before after where
    "slots q = before @ r # after" "req_waiter r = Some w"
    "fst (removeWaiter w keep q) = (r, True)" "rq_inv (snd (removeWaiter w keep q))"
    "slots (snd (removeWaiter w keep q)) = before @ (if keep then [tombstone] else []) @ after"
proof -
  obtain i where i: "q_index q w = Some i"
    using rq_inv_index_None [OF assms(1), of w] assms(2) by (auto simp: set_waiters)
  note f = rq_inv_index [OF assms(1) i]
  obtain bs as where d: "drop (q_head q) (q_items q) = bs @ q_items q ! i # as"
    "\<And>v. drop (q_head q) ((q_items q)[i := v]) = bs @ v # as"
    using slot_overwritten [OF assms(1) i] by metis
  let ?nv = "filter (\<lambda>r. \<not> vacant r)"
  have sl: "slots q = ?nv bs @ q_items q ! i # ?nv as" using f(3) by (simp add: slots_def d)
  define q1 where "q1 = (if keep
    then q\<lparr>q_index := (q_index q)(w := None), q_items := (q_items q)[i := tombstone]\<rparr>
    else q\<lparr>q_index := (q_index q)(w := None), q_items := (q_items q)[i := no_request],
           q_live := q_live q - 1, q_removed := q_removed q + 1\<rparr>)"
  have s1: "slots q1 = ?nv bs @ (if keep then [tombstone] else []) @ ?nv as"
    by (simp add: q1_def slots_def d)
  have i1: "rq_inv q1"
  proof -
    have "q_head q \<le> length (q_items q)" "q_live q = int (length (slots q))"
      "q_removed q = length (filter vacant (drop (q_head q) (q_items q)))"
      using assms(1) by (simp_all add: rq_inv_def)
    moreover have "q_index q1 w' = Some j \<longleftrightarrow>
      q_head q1 \<le> j \<and> j < length (q_items q1) \<and> req_waiter (q_items q1 ! j) = Some w'" for w' j
      using index_overwritten [OF assms(1) i] by (simp add: q1_def del: fun_upd_apply)
    ultimately show ?thesis
      unfolding rq_inv_def s1 using f(3) by (simp add: q1_def d sl)
  qed
  define q2 where "q2 = (if \<not> keep \<and> i = q_head q then trimHead q1 else q1)"
  have 2: "rq_inv q2" "slots q2 = slots q1"
    using i1 trimHead_inv [OF i1] by (auto simp: q2_def)
  have "removeWaiter w keep q = ((q_items q ! i, True), compactIfNeeded q2)"
    using i f by (simp add: removeWaiter_def Let_def q1_def q2_def)
  with that [OF sl f(3)] show thesis using 2 s1 compactIfNeeded_inv [OF 2(1)] by simp
qed

section \<open>The abstract queue of response slots\<close>

text \<open>
  What a queue of response slots promises, stated on plain lists: a request takes the slot at the
  end, a response consumes the slot at the front, a removed request frees its slot, and an abandoned
  one leaves a tombstone in it that consumes the late response.
\<close>

datatype queue_op = Push pendingRequest | Pop | Remove waiter bool

definition fresh_request :: "pendingRequest \<Rightarrow> pendingRequest list \<Rightarrow> bool" where
  "fresh_request r rs \<longleftrightarrow>
     (case req_waiter r of None \<Rightarrow> False | Some w \<Rightarrow> w \<notin> set (waiters rs))"

fun slots_pop :: "pendingRequest list \<Rightarrow> (pendingRequest \<times> bool) \<times> pendingRequest list" where
  "slots_pop [] = ((no_request, False), [])"
| "slots_pop (r # rs) = ((r, True), rs)"

fun slots_remove ::
    "waiter \<Rightarrow> bool \<Rightarrow> pendingRequest list \<Rightarrow> (pendingRequest \<times> bool) \<times> pendingRequest list" where
  "slots_remove w keep [] = ((no_request, False), [])"
| "slots_remove w keep (r # rs) =
     (if req_waiter r = Some w then ((r, True), (if keep then [tombstone] else []) @ rs)
      else map_prod id ((#) r) (slots_remove w keep rs))"

fun slots_step :: "queue_op \<Rightarrow> pendingRequest list \<Rightarrow> (pendingRequest \<times> bool) \<times> pendingRequest list" where
  "slots_step (Push r) rs = ((r, True), rs @ [r])"
| "slots_step Pop rs = slots_pop rs"
| "slots_step (Remove w keep) rs = slots_remove w keep rs"

fun queue_step :: "queue_op \<Rightarrow> requestQueue \<Rightarrow> (pendingRequest \<times> bool) \<times> requestQueue" where
  "queue_step (Push r) q = ((r, True), rq_push r q)"
| "queue_step Pop q = rq_pop q"
| "queue_step (Remove w keep) q = removeWaiter w keep q"

fun run_ops :: "(queue_op \<Rightarrow> 'q \<Rightarrow> 'r \<times> 'q) \<Rightarrow> queue_op list \<Rightarrow> 'q \<Rightarrow> 'r list \<times> 'q" where
  "run_ops step [] q = ([], q)"
| "run_ops step (c # cs) q =
     (let (r, q') = step c q; (rs, q'') = run_ops step cs q' in (r # rs, q''))"

fun admissible :: "queue_op list \<Rightarrow> pendingRequest list \<Rightarrow> bool" where
  "admissible [] rs = True"
| "admissible (c # cs) rs =
     ((case c of Push r \<Rightarrow> fresh_request r rs | _ \<Rightarrow> True) \<and> admissible cs (snd (slots_step c rs)))"

locale request_slots =
  fixes push :: "pendingRequest \<Rightarrow> 'q \<Rightarrow> 'q"
    and pop :: "'q \<Rightarrow> (pendingRequest \<times> bool) \<times> 'q"
    and remove :: "waiter \<Rightarrow> bool \<Rightarrow> 'q \<Rightarrow> (pendingRequest \<times> bool) \<times> 'q"
    and contents :: "'q \<Rightarrow> pendingRequest list"
    and inv :: "'q \<Rightarrow> bool"
    and count :: "'q \<Rightarrow> int"
  assumes push: "inv q \<Longrightarrow> fresh_request r (contents q) \<Longrightarrow>
      inv (push r q) \<and> contents (push r q) = contents q @ [r]"
    and pop: "inv q \<Longrightarrow> inv (snd (pop q)) \<and> map_prod id contents (pop q) = slots_pop (contents q)"
    and remove: "inv q \<Longrightarrow> inv (snd (remove w keep q)) \<and>
      map_prod id contents (remove w keep q) = slots_remove w keep (contents q)"
    and count: "inv q \<Longrightarrow> count q = int (length (contents q))"
begin

lemma pop_front:
  assumes "inv q" "contents q = r # rs"
  shows "fst (pop q) = (r, True)" "inv (snd (pop q))" "contents (snd (pop q)) = rs"
  using pop [OF assms(1)] assms(2) by (cases "pop q"; simp)+

lemma remove_result:
  assumes "inv q"
  shows "fst (remove w keep q) = fst (slots_remove w keep (contents q))"
    "inv (snd (remove w keep q))"
    "contents (snd (remove w keep q)) = snd (slots_remove w keep (contents q))"
  using remove [OF assms, of w keep] map_prod_idD by blast+

lemma count_pos: "inv q \<Longrightarrow> count q = 0 \<longleftrightarrow> contents q = []"
  by (simp add: count)

end

lemma slots_remove_absent:
  "w \<notin> set (waiters rs) \<Longrightarrow> slots_remove w keep rs = ((no_request, False), rs)"
  by (induction rs) (auto split: option.splits)

lemma removeWaiter_slots:
  assumes "rq_inv q"
  shows "rq_inv (snd (removeWaiter w keep q)) \<and>
    map_prod id slots (removeWaiter w keep q) = slots_remove w keep (slots q)"
proof (cases "w \<in> set (waiters (slots q))")
  case False
  then have "slots_remove w keep (slots q) = ((no_request, False), slots q)"
    using slots_remove_absent by blast
  then show ?thesis using removeWaiter_absent [OF assms False] assms by simp
next
  case True
  obtain r bs as where *: "slots q = bs @ r # as" "req_waiter r = Some w"
    "fst (removeWaiter w keep q) = (r, True)" "rq_inv (snd (removeWaiter w keep q))"
    "slots (snd (removeWaiter w keep q)) = bs @ (if keep then [tombstone] else []) @ as"
    using removeWaiter_present [OF assms True, of keep] by metis
  have "w \<notin> set (waiters bs)" using rq_inv_distinct(2) [OF assms] * by simp
  then have "slots_remove w keep (bs @ r # as) = ((r, True), bs @ (if keep then [tombstone] else []) @ as)"
    using *(2) by (induction bs) (auto split: option.splits)
  then show ?thesis using * by (cases "removeWaiter w keep q") simp
qed

interpretation rq: request_slots rq_push rq_pop removeWaiter slots rq_inv rq_len
proof
  show "rq_inv (rq_push r q) \<and> slots (rq_push r q) = slots q @ [r]"
    if "rq_inv q" "fresh_request r (slots q)" for q r
    using that rq_push_inv [OF that(1)]
    by (auto simp: fresh_request_def set_waiters split: option.splits)
  show "rq_inv (snd (rq_pop q)) \<and> map_prod id slots (rq_pop q) = slots_pop (slots q)"
    if "rq_inv q" for q
    using rq_pop_Nil [OF that] rq_pop_Cons [OF that]
    by (cases "slots q"; cases "rq_pop q") auto
qed (use removeWaiter_slots in \<open>auto simp: rq_inv_def rq_len_def\<close>)

lemma queue_step_refines:
  assumes "rq_inv q" "case c of Push r \<Rightarrow> fresh_request r (slots q) | _ \<Rightarrow> True"
  shows "rq_inv (snd (queue_step c q))"
    "map_prod id slots (queue_step c q) = slots_step c (slots q)"
  using assms rq.push rq.pop rq.remove by (cases c; simp)+

lemma run_ops_refines:
  "rq_inv q \<Longrightarrow> admissible cs (slots q) \<Longrightarrow>
   rq_inv (snd (run_ops queue_step cs q)) \<and>
   map_prod id slots (run_ops queue_step cs q) = run_ops slots_step cs (slots q)"
proof (induction cs arbitrary: q)
  case (Cons c cs)
  obtain r q' where s: "queue_step c q = (r, q')" by fastforce
  have "rq_inv q'" "slots_step c (slots q) = (r, slots q')"
    using queue_step_refines [of q c] Cons.prems s by auto
  then show ?case
    using Cons.IH [of q'] Cons.prems(2) s
    by (cases "run_ops queue_step cs q'"; cases "run_ops slots_step cs (slots q')") auto
qed simp

section \<open>Properties\<close>

text \<open>C2: Queue refinement. Run any sequence of pushes of fresh waiters, pops, removals and
  abandonments on an empty queue: every operation returns what the abstract list of slots returns,
  the live counter is the number of slots left, and the contents are that list, whatever trimming and
  compaction happened on the way.\<close>

theorem queue_refines_slots:
  assumes "admissible cs []"
  shows "fst (run_ops queue_step cs newQueue) = fst (run_ops slots_step cs []) \<and>
    slots (snd (run_ops queue_step cs newQueue)) = snd (run_ops slots_step cs []) \<and>
    rq_len (snd (run_ops queue_step cs newQueue)) = int (length (snd (run_ops slots_step cs [])))"
proof -
  have r: "rq_inv (snd (run_ops queue_step cs newQueue))"
    "map_prod id slots (run_ops queue_step cs newQueue) = run_ops slots_step cs []"
    using run_ops_refines [of newQueue cs] assms by simp_all
  obtain rs q where e: "run_ops queue_step cs newQueue = (rs, q)" by fastforce
  have "run_ops slots_step cs [] = (rs, slots q)" using r(2) unfolding e by simp
  then show ?thesis using r(1) rq.count [of q] unfolding e by simp
qed

definition request_of :: "waiter \<Rightarrow> pendingRequest" where
  "request_of w = \<lparr>req_waiter = Some w, req_cancel = None, req_discard = False\<rparr>"

theorem queue_refines_slots_witness:
  "fst (run_ops queue_step
      [Push (request_of 1), Push (request_of 2), Push (request_of 3), Remove 1 True, Remove 2 False,
       Pop, Pop, Pop] newQueue)
   = [(request_of 1, True), (request_of 2, True), (request_of 3, True), (request_of 1, True),
      (request_of 2, True), (tombstone, True), (request_of 3, True), (no_request, False)]"
  using queue_refines_slots [of "[Push (request_of 1), Push (request_of 2), Push (request_of 3),
    Remove 1 True, Remove 2 False, Pop, Pop, Pop]"]
  by (simp add: request_of_def fresh_request_def)

end
