(* ===== verification/Core_Errors.thy ===== *)
theory Core_Errors
  imports Fitz_Prelude
begin

text \<open>
  Errors of the client (\<^verbatim>\<open>internal/core/errors/errors.go\<close>, \<^verbatim>\<open>internal/core/transport/errors.go\<close>): the
  broker's numeric codes and their names, the text of an error, and the search of \<open>errors.Is\<close> and
  \<open>errors.As\<close> through the errors an error wraps. A constant is named by its Go name.
\<close>

section \<open>Codes\<close>

abbreviation (input) KvUnauthorized :: u32 where "KvUnauthorized \<equiv> 1001"
abbreviation (input) KvInvalidRoute :: u32 where "KvInvalidRoute \<equiv> 1002"
abbreviation (input) KvInvalidSubscription :: u32 where "KvInvalidSubscription \<equiv> 1003"
abbreviation (input) KvSubscriptionLimit :: u32 where "KvSubscriptionLimit \<equiv> 1004"
abbreviation (input) KvBusy :: u32 where "KvBusy \<equiv> 1005"
abbreviation (input) KvBackendError :: u32 where "KvBackendError \<equiv> 1006"
abbreviation (input) KvTimeout :: u32 where "KvTimeout \<equiv> 1007"
abbreviation (input) KvBadRequest :: u32 where "KvBadRequest \<equiv> 1008"
abbreviation (input) KvNotFound :: u32 where "KvNotFound \<equiv> 1009"
abbreviation (input) KvUnsupported :: u32 where "KvUnsupported \<equiv> 1010"
abbreviation (input) KvTransactionNotFound :: u32 where "KvTransactionNotFound \<equiv> 1050"
abbreviation (input) KvInvalidMode :: u32 where "KvInvalidMode \<equiv> 1051"
abbreviation (input) KvKeyNotFound :: u32 where "KvKeyNotFound \<equiv> 1052"
abbreviation (input) KvIsolationConflict :: u32 where "KvIsolationConflict \<equiv> 1053"
abbreviation (input) KvWriteInReadonly :: u32 where "KvWriteInReadonly \<equiv> 1054"
abbreviation (input) KvKeyExists :: u32 where "KvKeyExists \<equiv> 1055"
abbreviation (input) KvRealmMismatch :: u32 where "KvRealmMismatch \<equiv> 1056"
abbreviation (input) KvTransactionAborted :: u32 where "KvTransactionAborted \<equiv> 1057"
abbreviation (input) StreamUnauthorized :: u32 where "StreamUnauthorized \<equiv> 2001"
abbreviation (input) StreamInvalidRoute :: u32 where "StreamInvalidRoute \<equiv> 2002"
abbreviation (input) StreamInvalidSubscription :: u32 where "StreamInvalidSubscription \<equiv> 2003"
abbreviation (input) StreamSubscriptionLimit :: u32 where "StreamSubscriptionLimit \<equiv> 2004"
abbreviation (input) StreamBusy :: u32 where "StreamBusy \<equiv> 2005"
abbreviation (input) StreamBackendError :: u32 where "StreamBackendError \<equiv> 2006"
abbreviation (input) StreamTimeout :: u32 where "StreamTimeout \<equiv> 2007"
abbreviation (input) StreamBadRequest :: u32 where "StreamBadRequest \<equiv> 2008"
abbreviation (input) StreamNotFound :: u32 where "StreamNotFound \<equiv> 2009"
abbreviation (input) StreamUnsupported :: u32 where "StreamUnsupported \<equiv> 2010"
abbreviation (input) StreamConcurrencyConflict :: u32 where "StreamConcurrencyConflict \<equiv> 2050"
abbreviation (input) StreamSessionAlreadyActive :: u32 where "StreamSessionAlreadyActive \<equiv> 2051"
abbreviation (input) StreamSessionNotFound :: u32 where "StreamSessionNotFound \<equiv> 2052"
abbreviation (input) StreamInvalidReadBound :: u32 where "StreamInvalidReadBound \<equiv> 2053"
abbreviation (input) StreamResourceNotFound :: u32 where "StreamResourceNotFound \<equiv> 2054"
abbreviation (input) StreamFilterUnsupported :: u32 where "StreamFilterUnsupported \<equiv> 2055"
abbreviation (input) StreamFilterInvalidPayload :: u32 where "StreamFilterInvalidPayload \<equiv> 2056"
abbreviation (input) StreamReadResponseTooLarge :: u32 where "StreamReadResponseTooLarge \<equiv> 2057"
abbreviation (input) NoticeUnauthorized :: u32 where "NoticeUnauthorized \<equiv> 3001"
abbreviation (input) NoticeInvalidRoute :: u32 where "NoticeInvalidRoute \<equiv> 3002"
abbreviation (input) NoticeInvalidPattern :: u32 where "NoticeInvalidPattern \<equiv> 3003"
abbreviation (input) NoticeSubscriptionLimit :: u32 where "NoticeSubscriptionLimit \<equiv> 3004"
abbreviation (input) NoticeBusy :: u32 where "NoticeBusy \<equiv> 3005"
abbreviation (input) NoticeBackendError :: u32 where "NoticeBackendError \<equiv> 3006"
abbreviation (input) NoticeTimeout :: u32 where "NoticeTimeout \<equiv> 3007"
abbreviation (input) NoticeBadRequest :: u32 where "NoticeBadRequest \<equiv> 3008"
abbreviation (input) NoticeNotFound :: u32 where "NoticeNotFound \<equiv> 3009"
abbreviation (input) NoticeUnsupported :: u32 where "NoticeUnsupported \<equiv> 3010"
abbreviation (input) NoticeTransportClosed :: u32 where "NoticeTransportClosed \<equiv> 3050"
abbreviation (input) QueueUnauthorized :: u32 where "QueueUnauthorized \<equiv> 4001"
abbreviation (input) QueueInvalidRoute :: u32 where "QueueInvalidRoute \<equiv> 4002"
abbreviation (input) QueueInvalidSubscription :: u32 where "QueueInvalidSubscription \<equiv> 4003"
abbreviation (input) QueueSubscriptionLimit :: u32 where "QueueSubscriptionLimit \<equiv> 4004"
abbreviation (input) QueueFull :: u32 where "QueueFull \<equiv> 4005"
abbreviation (input) QueueBackendError :: u32 where "QueueBackendError \<equiv> 4006"
abbreviation (input) QueueTimeout :: u32 where "QueueTimeout \<equiv> 4007"
abbreviation (input) QueueBadRequest :: u32 where "QueueBadRequest \<equiv> 4008"
abbreviation (input) QueueGenericNotFound :: u32 where "QueueGenericNotFound \<equiv> 4009"
abbreviation (input) QueueUnsupported :: u32 where "QueueUnsupported \<equiv> 4010"
abbreviation (input) QueueInvalidToken :: u32 where "QueueInvalidToken \<equiv> 4050"
abbreviation (input) QueueLeaseExpired :: u32 where "QueueLeaseExpired \<equiv> 4051"
abbreviation (input) QueueMessageNotFound :: u32 where "QueueMessageNotFound \<equiv> 4052"
abbreviation (input) QueueNotFound :: u32 where "QueueNotFound \<equiv> 4053"
abbreviation (input) LeaseUnauthorized :: u32 where "LeaseUnauthorized \<equiv> 5001"
abbreviation (input) LeaseInvalidRoute :: u32 where "LeaseInvalidRoute \<equiv> 5002"
abbreviation (input) LeaseInvalidSubscriptionRoute :: u32 where "LeaseInvalidSubscriptionRoute \<equiv> 5003"
abbreviation (input) LeaseSubscriptionLimit :: u32 where "LeaseSubscriptionLimit \<equiv> 5004"
abbreviation (input) LeaseQueueFull :: u32 where "LeaseQueueFull \<equiv> 5005"
abbreviation (input) LeaseBackendError :: u32 where "LeaseBackendError \<equiv> 5006"
abbreviation (input) LeaseTimeout :: u32 where "LeaseTimeout \<equiv> 5007"
abbreviation (input) LeaseBadRequest :: u32 where "LeaseBadRequest \<equiv> 5008"
abbreviation (input) LeaseGenericNotFound :: u32 where "LeaseGenericNotFound \<equiv> 5009"
abbreviation (input) LeaseUnsupported :: u32 where "LeaseUnsupported \<equiv> 5010"
abbreviation (input) LeaseHeld :: u32 where "LeaseHeld \<equiv> 5050"
abbreviation (input) LeaseInvalidFence :: u32 where "LeaseInvalidFence \<equiv> 5051"
abbreviation (input) LeaseExpired :: u32 where "LeaseExpired \<equiv> 5052"
abbreviation (input) LeaseNotFound :: u32 where "LeaseNotFound \<equiv> 5053"
abbreviation (input) LeaseInvalidToken :: u32 where "LeaseInvalidToken \<equiv> 5054"
abbreviation (input) LeaseAcquireWaitExpired :: u32 where "LeaseAcquireWaitExpired \<equiv> 5055"
abbreviation (input) LeaseWaitersLimit :: u32 where "LeaseWaitersLimit \<equiv> 5056"
abbreviation (input) LeaseInvalidListCursor :: u32 where "LeaseInvalidListCursor \<equiv> 5057"
abbreviation (input) RpcUnauthorized :: u32 where "RpcUnauthorized \<equiv> 6001"
abbreviation (input) RpcInvalidRoute :: u32 where "RpcInvalidRoute \<equiv> 6002"
abbreviation (input) RpcInvalidSubscription :: u32 where "RpcInvalidSubscription \<equiv> 6003"
abbreviation (input) RpcSubscriptionLimit :: u32 where "RpcSubscriptionLimit \<equiv> 6004"
abbreviation (input) RpcBackpressure :: u32 where "RpcBackpressure \<equiv> 6005"
abbreviation (input) RpcBackendError :: u32 where "RpcBackendError \<equiv> 6006"
abbreviation (input) RpcTimeout :: u32 where "RpcTimeout \<equiv> 6007"
abbreviation (input) RpcBadRequest :: u32 where "RpcBadRequest \<equiv> 6008"
abbreviation (input) RpcNotFound :: u32 where "RpcNotFound \<equiv> 6009"
abbreviation (input) RpcUnsupported :: u32 where "RpcUnsupported \<equiv> 6010"
abbreviation (input) RpcWorkerNotFound :: u32 where "RpcWorkerNotFound \<equiv> 6050"
abbreviation (input) RpcRouteNotRegistered :: u32 where "RpcRouteNotRegistered \<equiv> 6051"
abbreviation (input) RpcCorrelationNotFound :: u32 where "RpcCorrelationNotFound \<equiv> 6052"
abbreviation (input) RpcInvalidSequence :: u32 where "RpcInvalidSequence \<equiv> 6053"
abbreviation (input) RpcDuplicateCorrelation :: u32 where "RpcDuplicateCorrelation \<equiv> 6054"
abbreviation (input) RpcWrongWorker :: u32 where "RpcWrongWorker \<equiv> 6055"
abbreviation (input) ScheduleUnauthorized :: u32 where "ScheduleUnauthorized \<equiv> 7001"
abbreviation (input) ScheduleInvalidRoute :: u32 where "ScheduleInvalidRoute \<equiv> 7002"
abbreviation (input) ScheduleInvalidSubscription :: u32 where "ScheduleInvalidSubscription \<equiv> 7003"
abbreviation (input) ScheduleSubscriptionLimit :: u32 where "ScheduleSubscriptionLimit \<equiv> 7004"
abbreviation (input) ScheduleBusy :: u32 where "ScheduleBusy \<equiv> 7005"
abbreviation (input) ScheduleBackendError :: u32 where "ScheduleBackendError \<equiv> 7006"
abbreviation (input) ScheduleTimeout :: u32 where "ScheduleTimeout \<equiv> 7007"
abbreviation (input) ScheduleParseError :: u32 where "ScheduleParseError \<equiv> 7008"
abbreviation (input) ScheduleNotFound :: u32 where "ScheduleNotFound \<equiv> 7050"
abbreviation (input) ScheduleInvalidCron :: u32 where "ScheduleInvalidCron \<equiv> 7051"
abbreviation (input) ScheduleLimit :: u32 where "ScheduleLimit \<equiv> 7052"
abbreviation (input) ScheduleInvalidTarget :: u32 where "ScheduleInvalidTarget \<equiv> 7053"
abbreviation (input) ScheduleInvalidDeliveryMode :: u32 where "ScheduleInvalidDeliveryMode \<equiv> 7054"
abbreviation (input) LeaseInvalidListPattern :: u32 where "LeaseInvalidListPattern \<equiv> LeaseInvalidSubscriptionRoute"
abbreviation (input) StreamOffsetTooFarAhead :: u32 where "StreamOffsetTooFarAhead \<equiv> StreamSessionAlreadyActive"
abbreviation (input) StreamReadBeyondWatermark :: u32 where "StreamReadBeyondWatermark \<equiv> StreamInvalidReadBound"

text \<open>The codes of each domain, with the first code of the domain's range.\<close>

definition code_ranges :: "(nat \<times> u32 list) list" where
  "code_ranges =
    [(1000, [KvUnauthorized, KvInvalidRoute, KvInvalidSubscription, KvSubscriptionLimit,
       KvBusy, KvBackendError, KvTimeout, KvBadRequest, KvNotFound, KvUnsupported,
       KvTransactionNotFound, KvInvalidMode, KvKeyNotFound, KvIsolationConflict,
       KvWriteInReadonly, KvKeyExists, KvRealmMismatch, KvTransactionAborted]),
     (2000, [StreamUnauthorized, StreamInvalidRoute, StreamInvalidSubscription,
       StreamSubscriptionLimit, StreamBusy, StreamBackendError, StreamTimeout,
       StreamBadRequest, StreamNotFound, StreamUnsupported, StreamConcurrencyConflict,
       StreamSessionAlreadyActive, StreamSessionNotFound, StreamInvalidReadBound,
       StreamResourceNotFound, StreamFilterUnsupported, StreamFilterInvalidPayload,
       StreamReadResponseTooLarge]),
     (3000, [NoticeUnauthorized, NoticeInvalidRoute, NoticeInvalidPattern,
       NoticeSubscriptionLimit, NoticeBusy, NoticeBackendError, NoticeTimeout,
       NoticeBadRequest, NoticeNotFound, NoticeUnsupported, NoticeTransportClosed]),
     (4000, [QueueUnauthorized, QueueInvalidRoute, QueueInvalidSubscription,
       QueueSubscriptionLimit, QueueFull, QueueBackendError, QueueTimeout,
       QueueBadRequest, QueueGenericNotFound, QueueUnsupported, QueueInvalidToken,
       QueueLeaseExpired, QueueMessageNotFound, QueueNotFound]),
     (5000, [LeaseUnauthorized, LeaseInvalidRoute, LeaseInvalidSubscriptionRoute,
       LeaseSubscriptionLimit, LeaseQueueFull, LeaseBackendError, LeaseTimeout,
       LeaseBadRequest, LeaseGenericNotFound, LeaseUnsupported, LeaseHeld,
       LeaseInvalidFence, LeaseExpired, LeaseNotFound, LeaseInvalidToken,
       LeaseAcquireWaitExpired, LeaseWaitersLimit, LeaseInvalidListCursor]),
     (6000, [RpcUnauthorized, RpcInvalidRoute, RpcInvalidSubscription, RpcSubscriptionLimit,
       RpcBackpressure, RpcBackendError, RpcTimeout, RpcBadRequest, RpcNotFound,
       RpcUnsupported, RpcWorkerNotFound, RpcRouteNotRegistered, RpcCorrelationNotFound,
       RpcInvalidSequence, RpcDuplicateCorrelation, RpcWrongWorker]),
     (7000, [ScheduleUnauthorized, ScheduleInvalidRoute, ScheduleInvalidSubscription,
       ScheduleSubscriptionLimit, ScheduleBusy, ScheduleBackendError, ScheduleTimeout,
       ScheduleParseError, ScheduleNotFound, ScheduleInvalidCron, ScheduleLimit,
       ScheduleInvalidTarget, ScheduleInvalidDeliveryMode])]"

definition IsBackpressure :: "u32 \<Rightarrow> bool" where
  "IsBackpressure code \<longleftrightarrow> code = KvBusy \<or> code = StreamBusy \<or> code = NoticeBusy \<or> code = QueueFull \<or> code = LeaseQueueFull \<or> code = RpcBackpressure \<or> code = ScheduleBusy"

text \<open>The cases of the switch of \<open>ErrorCode.String\<close>.\<close>

definition code_names :: "(u32 \<times> string) list" where
  "code_names =
    [(KvTransactionNotFound, ''transaction_not_found''),
     (KvInvalidMode, ''invalid_mode''),
     (KvKeyNotFound, ''key_not_found''),
     (KvIsolationConflict, ''isolation_conflict''),
     (KvWriteInReadonly, ''write_in_readonly''),
     (KvKeyExists, ''key_exists''),
     (KvInvalidRoute, ''invalid_route''),
     (KvRealmMismatch, ''realm_mismatch''),
     (KvBackendError, ''backend_error''),
     (KvTransactionAborted, ''transaction_aborted''),
     (KvUnauthorized, ''kv_unauthorized''),
     (KvInvalidSubscription, ''kv_invalid_subscription''),
     (KvSubscriptionLimit, ''kv_subscription_limit''),
     (KvBusy, ''kv_busy''),
     (StreamConcurrencyConflict, ''concurrency_conflict''),
     (StreamSessionAlreadyActive, ''session_already_active''),
     (StreamSessionNotFound, ''session_not_found''),
     (StreamInvalidReadBound, ''invalid_read_bound''),
     (StreamResourceNotFound, ''stream_resource_not_found''),
     (StreamInvalidSubscription, ''stream_invalid_subscription''),
     (StreamSubscriptionLimit, ''stream_subscription_limit''),
     (StreamBusy, ''stream_busy''),
     (NoticeInvalidRoute, ''notice_invalid_route''),
     (NoticeInvalidPattern, ''notice_invalid_pattern''),
     (NoticeSubscriptionLimit, ''notice_subscription_limit''),
     (NoticeTransportClosed, ''notice_transport_closed''),
     (NoticeBusy, ''notice_busy''),
     (QueueInvalidToken, ''queue_invalid_token''),
     (QueueLeaseExpired, ''queue_lease_expired''),
     (QueueMessageNotFound, ''queue_message_not_found''),
     (QueueNotFound, ''queue_not_found''),
     (QueueFull, ''queue_full''),
     (QueueInvalidSubscription, ''queue_invalid_subscription''),
     (QueueSubscriptionLimit, ''queue_subscription_limit''),
     (LeaseHeld, ''lease_held''),
     (LeaseInvalidFence, ''lease_invalid_fence''),
     (LeaseExpired, ''lease_expired''),
     (LeaseNotFound, ''lease_not_found''),
     (LeaseBadRequest, ''lease_bad_request''),
     (LeaseQueueFull, ''lease_queue_full''),
     (LeaseInvalidSubscriptionRoute, ''lease_invalid_subscription_route''),
     (LeaseInvalidListCursor, ''lease_invalid_list_cursor''),
     (RpcTimeout, ''rpc_timeout''),
     (RpcWorkerNotFound, ''rpc_worker_not_found''),
     (RpcBackpressure, ''rpc_backpressure''),
     (RpcRouteNotRegistered, ''rpc_route_not_registered''),
     (RpcCorrelationNotFound, ''rpc_correlation_not_found''),
     (RpcBackendError, ''rpc_backend_error''),
     (RpcInvalidSubscription, ''rpc_invalid_subscription''),
     (RpcSubscriptionLimit, ''rpc_subscription_limit''),
     (ScheduleNotFound, ''schedule_not_found''),
     (ScheduleInvalidCron, ''schedule_invalid_cron''),
     (ScheduleLimit, ''schedule_limit''),
     (ScheduleParseError, ''schedule_parse_error''),
     (ScheduleInvalidTarget, ''schedule_invalid_target''),
     (ScheduleInvalidSubscription, ''schedule_invalid_subscription''),
     (ScheduleSubscriptionLimit, ''schedule_subscription_limit''),
     (ScheduleInvalidDeliveryMode, ''schedule_invalid_delivery_mode''),
     (ScheduleBackendError, ''schedule_backend_error'')]"

definition ErrorCode_String :: "u32 \<Rightarrow> string" where
  "ErrorCode_String e =
     (case map_of code_names e of Some name \<Rightarrow> name | None \<Rightarrow> ''unknown_error_'' @ dec (unat e))"


section \<open>Texts of errors\<close>

definition ErrAsyncHandlerOverflow :: go_error where
  "ErrAsyncHandlerOverflow = Sentinel ''async handler queue overflow''"

definition Canceled :: go_error where "Canceled = Sentinel ''context canceled''"
definition DeadlineExceeded :: go_error where "DeadlineExceeded = Sentinel ''context deadline exceeded''"

definition DomainError_Error :: "domain_error \<Rightarrow> string" where
  "DomainError_Error e = ErrorCode_String (de_code e) @ '': '' @ de_message e"

text \<open>The \<open>Error\<close> method. An error made by \<open>fmt.Errorf\<close> or \<open>errors.Join\<close> carries its text.\<close>

fun Error :: "go_error \<Rightarrow> string" where
  "Error (Sentinel s) = s"
| "Error (ErrNew s) = s"
| "Error (DomainError e) = DomainError_Error e"
| "Error (TransportError op cause) = ''fitz transport '' @ op @ '': '' @ Error cause"
| "Error (AsyncOverflow domain subID) =
     domain @ '' subscription '' @ dec (unat subID) @ '': '' @ ''async handler queue overflow''"
| "Error (Wrap text errs) = text"

text \<open>\<open>Errorf1 prefix err\<close> is \<open>fmt.Errorf(prefix + ": %w", err)\<close>, \<open>Errorf2 e1 e2\<close> is
  \<open>fmt.Errorf("%w: %w", e1, e2)\<close> and \<open>Errorf_s e text\<close> is \<open>fmt.Errorf("%w: %s", e, text)\<close>.\<close>

definition Errorf1 :: "string \<Rightarrow> go_error \<Rightarrow> go_error" where
  "Errorf1 prefix err = Wrap (prefix @ '': '' @ Error err) [err]"

definition Errorf2 :: "go_error \<Rightarrow> go_error \<Rightarrow> go_error" where
  "Errorf2 e1 e2 = Wrap (Error e1 @ '': '' @ Error e2) [e1, e2]"

definition Errorf_s :: "go_error \<Rightarrow> string \<Rightarrow> go_error" where
  "Errorf_s e text = Wrap (Error e @ '': '' @ text) [e]"

text \<open>\<open>errors.Join\<close> of errors none of which is nil: the texts on lines of their own.\<close>

fun join_lines :: "string list \<Rightarrow> string" where
  "join_lines [] = []"
| "join_lines [s] = s"
| "join_lines (s # ss) = s @ [CHR 0x0A] @ join_lines ss"

definition errors_Join :: "go_error list \<Rightarrow> go_error" where
  "errors_Join errs = Wrap (join_lines (map Error errs)) errs"

definition NewDomainError :: "u32 \<Rightarrow> string \<Rightarrow> go_error" where
  "NewDomainError code message =
     DomainError \<lparr>de_code = code, de_class = 0, de_effect = 0, de_message = message\<rparr>"

definition NewDomainErrorWithDisposition :: "u16 \<Rightarrow> u8 \<Rightarrow> u8 \<Rightarrow> string \<Rightarrow> go_error" where
  "NewDomainErrorWithDisposition code cls effect message =
     DomainError \<lparr>de_code = ucast code, de_class = cls, de_effect = effect,
                  de_message = message\<rparr>"

definition newTransportError :: "string \<Rightarrow> go_error \<Rightarrow> go_error" where
  "newTransportError op err = TransportError op err"

section \<open>Searching the wrapped errors\<close>

text \<open>
  \<open>unwraps\<close> lists an error and everything it wraps in the order in which \<open>errors.Is\<close> and
  \<open>errors.As\<close> visit them: the error, then each wrapped error with what that one wraps.
\<close>

fun unwraps :: "go_error \<Rightarrow> go_error list" where
  "unwraps (TransportError op cause) = TransportError op cause # unwraps cause"
| "unwraps (AsyncOverflow domain subID) = [AsyncOverflow domain subID, ErrAsyncHandlerOverflow]"
| "unwraps (Wrap text errs) = Wrap text errs # concat (map unwraps errs)"
| "unwraps e = [e]"

definition errors_Is :: "go_error \<Rightarrow> go_error \<Rightarrow> bool" where
  "errors_Is err target \<longleftrightarrow> target \<in> set (unwraps err)"

primrec as_domain :: "go_error \<Rightarrow> domain_error option" where
  "as_domain (Sentinel s) = None"
| "as_domain (ErrNew s) = None"
| "as_domain (DomainError e) = Some e"
| "as_domain (TransportError op cause) = None"
| "as_domain (AsyncOverflow d i) = None"
| "as_domain (Wrap s es) = None"

primrec is_transport :: "go_error \<Rightarrow> bool" where
  "is_transport (Sentinel s) = False"
| "is_transport (ErrNew s) = False"
| "is_transport (DomainError e) = False"
| "is_transport (TransportError op cause) = True"
| "is_transport (AsyncOverflow d i) = False"
| "is_transport (Wrap s es) = False"

fun first_some :: "('a \<Rightarrow> 'b option) \<Rightarrow> 'a list \<Rightarrow> 'b option" where
  "first_some f [] = None"
| "first_some f (x # xs) = (case f x of Some y \<Rightarrow> Some y | None \<Rightarrow> first_some f xs)"

definition errors_As_domain :: "go_error \<Rightarrow> domain_error option" where
  "errors_As_domain err = first_some as_domain (unwraps err)"

definition errors_As_transport :: "go_error \<Rightarrow> bool" where
  "errors_As_transport err = list_ex is_transport (unwraps err)"

section \<open>Lemmas\<close>

named_theorems error_simps \<open>texts and searches of concrete errors\<close>

lemma first_some_append:
  "first_some f (xs @ ys) = (case first_some f xs of Some y \<Rightarrow> Some y | None \<Rightarrow> first_some f ys)"
  by (induction xs) (auto split: option.splits)

lemma first_some_Some: "first_some f xs = Some y \<Longrightarrow> \<exists>x\<in>set xs. f x = Some y"
  by (induction xs) (auto split: option.splits)

lemma first_some_None: "first_some f xs = None \<longleftrightarrow> (\<forall>x\<in>set xs. f x = None)"
  by (induction xs) (auto split: option.splits)

lemma errors_Is_self [simp]: "errors_Is e e"
  by (cases e) (auto simp: errors_Is_def)

lemma errors_Is_simps [error_simps]:
  "errors_Is (Sentinel s) t \<longleftrightarrow> t = Sentinel s" "errors_Is (ErrNew s) t \<longleftrightarrow> t = ErrNew s"
  "errors_Is (DomainError d) t \<longleftrightarrow> t = DomainError d"
  "errors_Is (TransportError op e) t \<longleftrightarrow> t = TransportError op e \<or> errors_Is e t"
  "errors_Is (Wrap s es) t \<longleftrightarrow> t = Wrap s es \<or> (\<exists>e\<in>set es. errors_Is e t)"
  by (auto simp: errors_Is_def)

lemma errors_As_domain_simps [error_simps]:
  "errors_As_domain (Sentinel s) = None" "errors_As_domain (ErrNew s) = None"
  "errors_As_domain (DomainError d) = Some d"
  "errors_As_domain (TransportError op e) = errors_As_domain e"
  by (auto simp: errors_As_domain_def)

lemma errors_As_domain_Wrap [error_simps]:
  "errors_As_domain (Wrap s es) = first_some errors_As_domain es"
proof -
  have "first_some as_domain (concat (map unwraps es)) = first_some (\<lambda>e. first_some as_domain (unwraps e)) es"
    by (induction es) (auto simp: first_some_append split: option.split)
  then show ?thesis unfolding errors_As_domain_def [abs_def] by simp
qed

lemma errors_As_transport_simps [error_simps]:
  "errors_As_transport (Sentinel s) \<longleftrightarrow> False" "errors_As_transport (ErrNew s) \<longleftrightarrow> False"
  "errors_As_transport (DomainError d) \<longleftrightarrow> False" "errors_As_transport (TransportError op e) \<longleftrightarrow> True"
  "errors_As_transport (Wrap s es) \<longleftrightarrow> (\<exists>e\<in>set es. errors_As_transport e)"
  by (auto simp: errors_As_transport_def list_ex_iff)

text \<open>What a wrapping constructor adds can be found again, and nothing it wraps is lost.\<close>

lemma wrapping_keeps [error_simps]:
  "errors_Is (Errorf1 p e) t \<longleftrightarrow> t = Errorf1 p e \<or> errors_Is e t"
  "errors_As_domain (Errorf1 p e) = errors_As_domain e"
  "errors_Is (Errorf2 e1 e2) t \<longleftrightarrow> t = Errorf2 e1 e2 \<or> errors_Is e1 t \<or> errors_Is e2 t"
  "errors_As_domain (Errorf2 e1 e2) =
     (case errors_As_domain e1 of Some d \<Rightarrow> Some d | None \<Rightarrow> errors_As_domain e2)"
  "errors_Is (errors_Join es) t \<longleftrightarrow> t = errors_Join es \<or> (\<exists>e\<in>set es. errors_Is e t)"
  "errors_As_domain (errors_Join es) = first_some errors_As_domain es"
  by (auto simp: Errorf1_def Errorf2_def errors_Join_def error_simps split: option.split)

lemma IsBackpressure_iff: "IsBackpressure c \<longleftrightarrow> (\<exists>d\<in>{1..7}. unat c = d * 1000 + 5)"
proof -
  have "{1..7} = {1, 2, 3, 4, 5, 6, 7 :: nat}" by auto
  then show ?thesis by (simp add: IsBackpressure_def word_unat_eq_iff)
qed

lemma code_ranges_ok:
  "(base, cs) \<in> set code_ranges \<Longrightarrow> c \<in> set cs \<Longrightarrow> base < unat c \<and> unat c < base + 100"
  by (auto simp: code_ranges_def)


section \<open>Names of codes\<close>

lemma dec_digit: "n < 10 \<Longrightarrow> dec n = [char_of (48 + n)]"
  by (subst dec.simps) simp

lemma dec_inj: "dec m = dec n \<Longrightarrow> m = n"
proof (induction m arbitrary: n rule: less_induct)
  case (less m)
  have digit: "char_of (48 + a) = char_of (48 + b) \<Longrightarrow> a = b" if "a < 10" "b < 10" for a b :: nat
    using that by (simp add: char_of_eq_iff take_bit_eq_mod)
  have ne: "dec k \<noteq> []" for k by (subst dec.simps) simp
  have big: "dec k = dec (k div 10) @ [char_of (48 + k mod 10)]" if "\<not> k < 10" for k
    using that by (subst dec.simps) simp
  show ?case
  proof (cases "m < 10"; cases "n < 10")
    assume "m < 10" "n < 10"
    then show ?thesis using less.prems digit by (simp add: dec_digit)
  next
    assume b: "m < 10" "\<not> n < 10"
    then have "[char_of (48 + m)] = dec (n div 10) @ [char_of (48 + n mod 10)]"
      using less.prems unfolding dec_digit [OF b(1)] big [OF b(2)] by blast
    then show ?thesis using ne [of "n div 10"] by (simp add: Cons_eq_append_conv)
  next
    assume b: "\<not> m < 10" "n < 10"
    then have "[char_of (48 + n)] = dec (m div 10) @ [char_of (48 + m mod 10)]"
      using less.prems unfolding dec_digit [OF b(2)] big [OF b(1)] by simp
    then show ?thesis using ne [of "m div 10"] by (simp add: Cons_eq_append_conv)
  next
    assume b: "\<not> m < 10" "\<not> n < 10"
    then have "dec (m div 10) = dec (n div 10)" "char_of (48 + m mod 10) = char_of (48 + n mod 10)"
      using less.prems unfolding big [OF b(1)] big [OF b(2)] by simp_all
    then have "m div 10 = n div 10" "m mod 10 = n mod 10"
      using less.IH [of "m div 10" "n div 10"] b digit [of "m mod 10" "n mod 10"] by simp_all
    then show ?thesis by (metis div_mult_mod_eq)
  qed
qed

lemma distinct_snd_key: "distinct (map snd xs) \<Longrightarrow> (a, x) \<in> set xs \<Longrightarrow> (b, x) \<in> set xs \<Longrightarrow> a = b"
  by (induction xs) force+

lemma code_names_distinct: "distinct (map snd code_names)"
  by (simp add: code_names_def)

lemma code_names_known: "(c, name) \<in> set code_names \<Longrightarrow> take 8 name \<noteq> ''unknown_''"
  by (auto simp: code_names_def)

text \<open>Names of error codes. Two different error codes never share a name, known or not, so the name
  printed in front of a domain error's message identifies the broker's numeric code.\<close>

theorem error_code_names_identify: "ErrorCode_String a = ErrorCode_String b \<longleftrightarrow> a = b"
proof
  assume eq: "ErrorCode_String a = ErrorCode_String b"
  have k: "take 8 name \<noteq> ''unknown_''" if "map_of code_names c = Some name" for c name
    using code_names_known [OF map_of_SomeD [OF that]] .
  show "a = b"
  proof (cases "map_of code_names a"; cases "map_of code_names b")
    assume n: "map_of code_names a = None" "map_of code_names b = None"
    then have "unat a = unat b" using eq dec_inj by (simp add: ErrorCode_String_def)
    then show ?thesis by (simp add: word_unat_eq_iff)
  next
    fix y assume "map_of code_names a = None" "map_of code_names b = Some y"
    then show ?thesis using eq k [of b y] by (auto simp: ErrorCode_String_def)
  next
    fix x assume "map_of code_names a = Some x" "map_of code_names b = None"
    then show ?thesis using eq k [of a x] by (auto simp: ErrorCode_String_def)
  next
    fix x y assume n: "map_of code_names a = Some x" "map_of code_names b = Some y"
    then have "(a, x) \<in> set code_names" "(b, x) \<in> set code_names"
      using eq by (auto simp: ErrorCode_String_def dest: map_of_SomeD)
    then show ?thesis by (rule distinct_snd_key [OF code_names_distinct])
  qed
qed simp

end
