(* ===== verification/Payload_Codec.thy ===== *)
theory Payload_Codec
  imports Core_Errors
begin

text \<open>
  Reading and writing request and response payloads: \<open>internal/core/connection/response.go\<close> and
  \<open>internal/core/encoding/encoder.go\<close>. The readers take a payload and an offset and return the
  value with the next offset; the writers append to a buffer. The locale \<open>field_codec\<close> is the
  contract between the two sides that every domain protocol relies on.
\<close>

section \<open>Readers\<close>

definition ErrUnexpectedEOF :: go_error where "ErrUnexpectedEOF = Sentinel ''unexpected EOF''"

definition ReadU8 :: "bytes \<Rightarrow> nat \<Rightarrow> (u8 \<times> nat) res" where
  "ReadU8 payload offset =
     (if offset + 1 > length payload then Err ErrUnexpectedEOF
      else bind_res (index payload offset) (\<lambda>v. Ok (v, offset + 1)))"

definition ReadU16BE :: "bytes \<Rightarrow> nat \<Rightarrow> (u16 \<times> nat) res" where
  "ReadU16BE payload offset =
     (if offset + 2 > length payload then Err ErrUnexpectedEOF
      else bind_res (bind_res (slice_from payload offset) Uint16) (\<lambda>v. Ok (v, offset + 2)))"

definition ReadU32BE :: "bytes \<Rightarrow> nat \<Rightarrow> (u32 \<times> nat) res" where
  "ReadU32BE payload offset =
     (if offset + 4 > length payload then Err ErrUnexpectedEOF
      else bind_res (bind_res (slice_from payload offset) Uint32) (\<lambda>v. Ok (v, offset + 4)))"

definition ReadU64BE :: "bytes \<Rightarrow> nat \<Rightarrow> (u64 \<times> nat) res" where
  "ReadU64BE payload offset =
     (if offset + 8 > length payload then Err ErrUnexpectedEOF
      else bind_res (bind_res (slice_from payload offset) Uint64) (\<lambda>v. Ok (v, offset + 8)))"

definition ReadBytes :: "bytes \<Rightarrow> nat \<Rightarrow> (bytes \<times> nat) res" where
  "ReadBytes payload offset =
     bind_res (ReadU32BE payload offset) (\<lambda>(n, offset).
       if offset + unat n > length payload then Err ErrUnexpectedEOF
       else bind_res (slice payload offset (offset + unat n)) (\<lambda>d. Ok (d, offset + unat n)))"

definition ReadString :: "bytes \<Rightarrow> nat \<Rightarrow> (string \<times> nat) res" where
  "ReadString payload offset =
     bind_res (ReadU32BE payload offset) (\<lambda>(n, offset).
       if offset + unat n > length payload then Err ErrUnexpectedEOF
       else bind_res (slice payload offset (offset + unat n))
              (\<lambda>d. Ok (string_of_bytes d, offset + unat n)))"

text \<open>A \<open>[16]byte\<close> is a byte list of length sixteen.\<close>

definition ReadUUID :: "bytes \<Rightarrow> nat \<Rightarrow> (bytes \<times> nat) res" where
  "ReadUUID payload offset =
     (if offset + 16 > length payload then Err ErrUnexpectedEOF
      else bind_res (slice payload offset (offset + 16)) (\<lambda>d. Ok (d, offset + 16)))"

section \<open>Writers\<close>

definition WriteU8 :: "u8 \<Rightarrow> writer" where "WriteU8 v buf = buf @ [v]"
definition WriteU16BE :: "u16 \<Rightarrow> writer" where "WriteU16BE v buf = buf @ PutUint16 v"
definition WriteU32BE :: "u32 \<Rightarrow> writer" where "WriteU32BE v buf = buf @ PutUint32 v"
definition WriteU64BE :: "u64 \<Rightarrow> writer" where "WriteU64BE v buf = buf @ PutUint64 v"
definition WriteString :: "string \<Rightarrow> writer" where
  "WriteString s buf = WriteU32BE (u32_len s) buf @ bytes_of_string s"
definition WriteBytes :: "bytes \<Rightarrow> writer" where
  "WriteBytes b buf = WriteU32BE (u32_len b) buf @ b"
definition WriteUUID :: "bytes \<Rightarrow> writer" where "WriteUUID uuid buf = buf @ uuid"

text \<open>The helpers of the \<open>encoding\<close> package.\<close>

definition enc_WriteU64 :: "u64 \<Rightarrow> writer" where "enc_WriteU64 v buf = WriteU64BE v buf"
definition enc_WriteU32 :: "u32 \<Rightarrow> writer" where "enc_WriteU32 v buf = WriteU32BE v buf"
definition enc_WriteOptionalU64 :: "u64 option \<Rightarrow> writer" where
  "enc_WriteOptionalU64 v buf =
     (case v of None \<Rightarrow> buf @ [0] | Some x \<Rightarrow> WriteU64BE x (buf @ [1]))"
definition enc_WriteString :: "string \<Rightarrow> writer" where
  "enc_WriteString s buf = WriteU32BE (u32_len s) buf @ bytes_of_string s"
definition enc_WriteBytes :: "bytes \<Rightarrow> writer" where
  "enc_WriteBytes d buf = WriteU32BE (u32_len d) buf @ d"
definition enc_WriteRoute :: "string \<Rightarrow> writer" where
  "enc_WriteRoute route buf = enc_WriteString route buf"
definition enc_WriteBytesRaw :: "bytes \<Rightarrow> writer" where "enc_WriteBytesRaw d buf = buf @ d"

text \<open>
  \<open>EncodeWithBuffer\<close> runs a writer on an empty pooled buffer and copies the result out; pooled
  buffers are reset before use, so the pool does not show.
\<close>

definition EncodeWithBuffer :: "writer \<Rightarrow> bytes" where
  "EncodeWithBuffer fn = fn []"

lemmas writer_defs = WriteU8_def WriteU16BE_def WriteU32BE_def WriteU64BE_def WriteString_def
  WriteBytes_def WriteUUID_def enc_WriteU64_def enc_WriteU32_def enc_WriteOptionalU64_def
  enc_WriteString_def enc_WriteBytes_def enc_WriteRoute_def enc_WriteBytesRaw_def

section \<open>The response envelope\<close>

definition parseTypedDomainError :: "bytes \<Rightarrow> (u16 \<times> u8 \<times> u8 \<times> string) res" where
  "parseTypedDomainError payload =
     (if length payload < 8 then Err ErrUnexpectedEOF
      else bind_res (ReadU16BE payload 0) (\<lambda>(code, offset).
           bind_res (ReadU8 payload offset) (\<lambda>(cls, offset).
           bind_res (ReadU8 payload offset) (\<lambda>(effect, offset).
             if cls > 10 \<or> effect > 2
             then Err (ErrNew ''invalid domain error class or effect'')
             else bind_res (ReadString payload offset) (\<lambda>(message, newOffset).
               if newOffset \<noteq> length payload
               then Err (ErrNew ''trailing bytes after domain error'')
               else Ok (code, cls, effect, message))))))"

definition ParseStandardResponse :: "bytes \<Rightarrow> (bool \<times> bytes) res" where
  "ParseStandardResponse payload =
     (if length payload < 1 then Err (ErrNew ''response too short'')
      else bind_res (index payload 0) (\<lambda>status.
        if status = 1 then
          bind_res (slice_from payload 1) (\<lambda>rest.
            case parseTypedDomainError rest of
              Err e \<Rightarrow> Err (Errorf1 ''decode domain error'' e)
            | Panic \<Rightarrow> Panic
            | Ok (code, cls, effect, message) \<Rightarrow>
                Err (NewDomainErrorWithDisposition code cls effect message))
        else if status \<noteq> 0 then Err (ErrNew (''unknown response status '' @ dec (unat status)))
        else bind_res (slice_from payload 1) (\<lambda>rest. Ok (True, rest))))"

definition ParsePlainResponse :: "bytes \<Rightarrow> (bool \<times> bytes) res" where
  "ParsePlainResponse payload = ParseStandardResponse payload"

section \<open>The codec contract\<close>

text \<open>
  A field codec is an encoding and a reader such that the reader returns exactly the value that is
  encoded at the offset, moves past it, and never leaves the payload or panics. The laws say both
  directions: what is written is read back, and what is read was written.
\<close>

locale field_codec =
  fixes enc :: "'a \<Rightarrow> bytes"
    and rd :: "bytes \<Rightarrow> nat \<Rightarrow> ('a \<times> nat) res"
    and fits :: "'a \<Rightarrow> bool"
  assumes read_write:
    "fits x \<Longrightarrow> off \<le> length p \<Longrightarrow> drop off p = enc x @ rest \<Longrightarrow> rd p off = Ok (x, off + length (enc x))"
    and read_Ok:
    "off \<le> length p \<Longrightarrow> rd p off = Ok (x, off') \<Longrightarrow>
       fits x \<and> off' = off + length (enc x) \<and> off' \<le> length p \<and> drop off p = enc x @ drop off' p"
    and read_total: "off \<le> length p \<Longrightarrow> no_panic (rd p off)"
begin

lemma read_appended:
  "fits x \<Longrightarrow> rd (pre @ enc x @ post) (length pre) = Ok (x, length pre + length (enc x))"
  by (rule read_write) auto

lemma read_first: "fits x \<Longrightarrow> rd (enc x @ post) 0 = Ok (x, length (enc x))"
  using read_appended [of x "[]" post] by simp

lemma read_last:
  "fits x \<Longrightarrow> rd (pre @ enc x) (length pre) = Ok (x, length (pre @ enc x))"
  using read_appended [of x pre "[]"] by simp

lemma prefix_free:
  assumes "fits x" "fits y" "enc x @ a = enc y @ b"
  shows "x = y \<and> a = b"
proof -
  from read_first [OF assms(1), of a] read_first [OF assms(2), of b] assms(3)
  have "x = y" by simp
  with assms(3) show ?thesis by simp
qed

lemma enc_inj: "fits x \<Longrightarrow> fits y \<Longrightarrow> enc x = enc y \<Longrightarrow> x = y"
  using prefix_free [of x y "[]" "[]"] by simp

lemma read_whole_iff: "rd p 0 = Ok (x, length p) \<longleftrightarrow> fits x \<and> p = enc x"
proof
  assume "rd p 0 = Ok (x, length p)"
  from read_Ok [OF _ this] show "fits x \<and> p = enc x" by simp
next
  assume "fits x \<and> p = enc x"
  then show "rd p 0 = Ok (x, length p)" using read_first [of x "[]"] by simp
qed

lemma bind_no_panic:
  assumes "off \<le> length p" "\<And>x o'. rd p off = Ok (x, o') \<Longrightarrow> o' \<le> length p \<Longrightarrow> no_panic (f x o')"
  shows "no_panic (bind_res (rd p off) (\<lambda>(x, o'). f x o'))"
  using assms read_total [OF assms(1)] read_Ok [OF assms(1)] by (cases "rd p off") auto

lemma bind_OkE:
  assumes "bind_res (rd p off) (\<lambda>(x, o'). f x o') = Ok r" "off \<le> length p"
  obtains x o' where "fits x" "drop off p = enc x @ drop o' p" "o' \<le> length p"
    "o' = off + length (enc x)" "f x o' = Ok r"
  using assms read_Ok [OF assms(2)] by (auto simp: bind_res_Ok_iff)

lemma read_bounds: "off \<le> length p \<Longrightarrow> rd p off = Ok (x, off') \<Longrightarrow> off \<le> off' \<and> off' \<le> length p"
  using read_Ok by fastforce

end

text \<open>Reading a counted sequence: \<open>n\<close> times the same reader.\<close>

fun read_seq :: "(bytes \<Rightarrow> nat \<Rightarrow> ('a \<times> nat) res) \<Rightarrow> nat \<Rightarrow> bytes \<Rightarrow> nat \<Rightarrow> ('a list \<times> nat) res" where
  "read_seq rd 0 p off = Ok ([], off)"
| "read_seq rd (Suc n) p off =
     bind_res (rd p off) (\<lambda>(x, off').
     bind_res (read_seq rd n p off') (\<lambda>(xs, off''). Ok (x # xs, off'')))"

context field_codec
begin

lemma read_seq_concat:
  "list_all fits xs \<Longrightarrow> off \<le> length p \<Longrightarrow> drop off p = concat (map enc xs) @ rest \<Longrightarrow>
   read_seq rd (length xs) p off = Ok (xs, off + length (concat (map enc xs)))"
proof (induction xs arbitrary: off)
  case Nil
  then show ?case by simp
next
  case (Cons x xs)
  have d: "drop off p = enc x @ (concat (map enc xs) @ rest)" using Cons.prems by simp
  have r: "rd p off = Ok (x, off + length (enc x))"
    by (rule read_write [OF _ _ d]) (use Cons.prems in simp_all)
  have b: "off + length (enc x) \<le> length p" using read_Ok [OF Cons.prems(2) r] by simp
  have "drop (off + length (enc x)) p = concat (map enc xs) @ rest"
    by (rule drop_shift [OF d]) simp
  from Cons.IH [OF _ b this] Cons.prems(1) r show ?case by (simp add: add.assoc)
qed

end

section \<open>The codecs of the sources\<close>

lemma Uint_drop:
  "n \<le> length p \<Longrightarrow> drop n p = PutUint16 a @ r \<Longrightarrow> n + 2 \<le> length p"
  "n \<le> length p \<Longrightarrow> drop n p = PutUint32 b @ r \<Longrightarrow> n + 4 \<le> length p"
  "n \<le> length p \<Longrightarrow> drop n p = PutUint64 c @ r \<Longrightarrow> n + 8 \<le> length p"
  using drop_pos [of n p "PutUint16 a" r] drop_pos [of n p "PutUint32 b" r]
    drop_pos [of n p "PutUint64 c" r] by simp_all

interpretation u8c: field_codec "\<lambda>v. [v]" ReadU8 "\<lambda>_. True"
proof
  fix x :: u8 and off p rest
  assume "off \<le> length p" "drop off p = [x] @ rest"
  moreover from this have "off < length p" by (metis append_Cons drop_eq_Nil list.distinct(1) not_le)
  ultimately show "ReadU8 p off = Ok (x, off + length [x])"
    by (auto simp: ReadU8_def nth_via_drop)
next
  fix x :: u8 and off off' p
  assume "off \<le> length p" "ReadU8 p off = Ok (x, off')"
  then show "True \<and> off' = off + length [x] \<and> off' \<le> length p \<and> drop off p = [x] @ drop off' p"
    by (auto simp: ReadU8_def bind_res_Ok_iff Cons_nth_drop_Suc split: if_splits)
qed (auto simp: ReadU8_def)

interpretation u16c: field_codec PutUint16 ReadU16BE "\<lambda>_. True"
proof
  fix x off p rest
  assume "off \<le> length p" "drop off p = PutUint16 x @ rest"
  then show "ReadU16BE p off = Ok (x, off + length (PutUint16 x))"
    using Uint_drop(1) [of off p x rest] by (simp add: ReadU16BE_def)
next
  fix x off off' p
  assume a: "off \<le> length p" "ReadU16BE p off = Ok (x, off')"
  then have "off + 2 \<le> length p" "Uint16 (drop off p) = Ok x" "off' = off + 2"
    by (auto simp: ReadU16BE_def bind_res_Ok_iff split: if_splits)
  then show "True \<and> off' = off + length (PutUint16 x) \<and> off' \<le> length p \<and>
    drop off p = PutUint16 x @ drop off' p"
    using Put_Uint(1) [of "drop off p" x] append_take_drop_id [of 2 "drop off p"]
    by (simp add: add.commute)
qed (auto simp: ReadU16BE_def intro!: no_panic_intros)

interpretation u32c: field_codec PutUint32 ReadU32BE "\<lambda>_. True"
proof
  fix x off p rest
  assume "off \<le> length p" "drop off p = PutUint32 x @ rest"
  then show "ReadU32BE p off = Ok (x, off + length (PutUint32 x))"
    using Uint_drop(2) [of off p x rest] by (simp add: ReadU32BE_def)
next
  fix x off off' p
  assume a: "off \<le> length p" "ReadU32BE p off = Ok (x, off')"
  then have "off + 4 \<le> length p" "Uint32 (drop off p) = Ok x" "off' = off + 4"
    by (auto simp: ReadU32BE_def bind_res_Ok_iff split: if_splits)
  then show "True \<and> off' = off + length (PutUint32 x) \<and> off' \<le> length p \<and>
    drop off p = PutUint32 x @ drop off' p"
    using Put_Uint(2) [of "drop off p" x] append_take_drop_id [of 4 "drop off p"]
    by (simp add: add.commute)
qed (auto simp: ReadU32BE_def intro!: no_panic_intros)

interpretation u64c: field_codec PutUint64 ReadU64BE "\<lambda>_. True"
proof
  fix x off p rest
  assume "off \<le> length p" "drop off p = PutUint64 x @ rest"
  then show "ReadU64BE p off = Ok (x, off + length (PutUint64 x))"
    using Uint_drop(3) [of off p x rest] by (simp add: ReadU64BE_def)
next
  fix x off off' p
  assume a: "off \<le> length p" "ReadU64BE p off = Ok (x, off')"
  then have "off + 8 \<le> length p" "Uint64 (drop off p) = Ok x" "off' = off + 8"
    by (auto simp: ReadU64BE_def bind_res_Ok_iff split: if_splits)
  then show "True \<and> off' = off + length (PutUint64 x) \<and> off' \<le> length p \<and>
    drop off p = PutUint64 x @ drop off' p"
    using Put_Uint(3) [of "drop off p" x] append_take_drop_id [of 8 "drop off p"]
    by (simp add: add.commute)
qed (auto simp: ReadU64BE_def intro!: no_panic_intros)

definition len_prefixed :: "bytes \<Rightarrow> bytes" where
  "len_prefixed b = PutUint32 (u32_len b) @ b"

definition len_prefixed_string :: "string \<Rightarrow> bytes" where
  "len_prefixed_string s = len_prefixed (bytes_of_string s)"

definition fits_u32 :: "'a list \<Rightarrow> bool" where
  "fits_u32 b \<longleftrightarrow> length b < 2 ^ 32"

lemma length_len_prefixed [simp]:
  "length (len_prefixed b) = 4 + length b" "length (len_prefixed_string s) = 4 + length s"
  by (simp_all add: len_prefixed_def len_prefixed_string_def)

lemma u32_len_bytes_of_string [simp]: "u32_len (bytes_of_string s) = u32_len s"
  by (simp add: u32_len_def)

interpretation bytesc: field_codec len_prefixed ReadBytes fits_u32
proof
  fix x :: bytes and off p rest
  assume f: "fits_u32 x" and o: "off \<le> length p" and "drop off p = len_prefixed x @ rest"
  then have d: "drop off p = PutUint32 (u32_len x) @ (x @ rest)" by (simp add: len_prefixed_def)
  have d4: "drop (off + 4) p = x @ rest" by (rule drop_shift [OF d]) simp
  have b: "off + 4 + length x \<le> length p"
    using drop_pos [of off p "PutUint32 (u32_len x) @ x" rest] d by simp
  have "ReadU32BE p off = Ok (u32_len x, off + 4)"
    using u32c.read_write [OF _ o d] by simp
  then show "ReadBytes p off = Ok (x, off + length (len_prefixed x))"
    using f b d4 by (simp add: ReadBytes_def fits_u32_def)
next
  fix x off off' p
  assume o: "off \<le> length p" and r: "ReadBytes p off = Ok (x, off')"
  then obtain n o4 where n: "ReadU32BE p off = Ok (n, o4)" "o4 + unat n \<le> length p"
    "x = take (unat n) (drop o4 p)" "off' = o4 + unat n"
    by (auto simp: ReadBytes_def bind_res_Ok_iff split: if_splits)
  from u32c.read_Ok [OF o n(1)] have o4: "o4 = off + 4" "drop off p = PutUint32 n @ drop o4 p"
    by simp_all
  have lx: "length x = unat n" using n(2,3) by simp
  then have "u32_len x = n" using unat_u32_less [of n] by (simp add: word_unat_eq_iff)
  moreover have "drop o4 p = x @ drop off' p"
    using n(3,4) append_take_drop_id [of "unat n" "drop o4 p"] by (simp add: add.commute)
  ultimately show "fits_u32 x \<and> off' = off + length (len_prefixed x) \<and> off' \<le> length p \<and>
    drop off p = len_prefixed x @ drop off' p"
    using o4 n(2,4) lx unat_u32_less [of n] by (simp add: len_prefixed_def fits_u32_def)
next
  fix off :: nat and p :: bytes
  assume "off \<le> length p"
  then show "no_panic (ReadBytes p off)"
    unfolding ReadBytes_def by (auto intro!: u32c.bind_no_panic)
qed

lemma ReadString_ReadBytes:
  "ReadString p off = bind_res (ReadBytes p off) (\<lambda>(d, o'). Ok (string_of_bytes d, o'))"
  by (cases "ReadU32BE p off") (auto simp: ReadString_def ReadBytes_def slice_def)

interpretation stringc: field_codec len_prefixed_string ReadString fits_u32
proof
  fix x :: string and off p rest
  assume "fits_u32 x" "off \<le> length p" "drop off p = len_prefixed_string x @ rest"
  then show "ReadString p off = Ok (x, off + length (len_prefixed_string x))"
    using bytesc.read_write [of "bytes_of_string x" off p rest]
    by (simp add: ReadString_ReadBytes len_prefixed_string_def fits_u32_def)
next
  fix x :: string and off off' p
  assume o: "off \<le> length p" and "ReadString p off = Ok (x, off')"
  then obtain d where d: "ReadBytes p off = Ok (d, off')" "x = string_of_bytes d"
    by (auto simp: ReadString_ReadBytes bind_res_Ok_iff)
  from bytesc.read_Ok [OF o d(1)] d(2)
  show "fits_u32 x \<and> off' = off + length (len_prefixed_string x) \<and> off' \<le> length p \<and>
    drop off p = len_prefixed_string x @ drop off' p"
    by (simp add: len_prefixed_string_def fits_u32_def)
next
  fix off :: nat and p :: bytes
  assume "off \<le> length p"
  then show "no_panic (ReadString p off)"
    unfolding ReadString_def by (auto intro!: u32c.bind_no_panic)
qed

interpretation uuidc: field_codec "\<lambda>u. u" ReadUUID "\<lambda>u. length u = 16"
proof
  fix x :: bytes and off p rest
  assume "length x = 16" "off \<le> length p" and d: "drop off p = x @ rest"
  moreover from this have "off + 16 \<le> length p" using drop_pos [OF d] by simp
  ultimately show "ReadUUID p off = Ok (x, off + length x)" by (simp add: ReadUUID_def)
next
  fix x :: bytes and off off' p
  assume "off \<le> length p" "ReadUUID p off = Ok (x, off')"
  then show "length x = 16 \<and> off' = off + length x \<and> off' \<le> length p \<and> drop off p = x @ drop off' p"
    using append_take_drop_id [of 16 "drop off p"]
    by (auto simp: ReadUUID_def add.commute split: if_splits)
qed (auto simp: ReadUUID_def)

text \<open>What the writers append, and that they only append.\<close>

lemma writers_append:
  "WriteU8 a buf = buf @ [a]" "WriteU16BE b buf = buf @ PutUint16 b"
  "WriteU32BE c buf = buf @ PutUint32 c" "WriteU64BE d buf = buf @ PutUint64 d"
  "WriteString s buf = buf @ len_prefixed_string s" "WriteBytes v buf = buf @ len_prefixed v"
  "WriteUUID u buf = buf @ u" "enc_WriteU64 d buf = buf @ PutUint64 d"
  "enc_WriteU32 c buf = buf @ PutUint32 c" "enc_WriteString s buf = buf @ len_prefixed_string s"
  "enc_WriteBytes v buf = buf @ len_prefixed v" "enc_WriteRoute s buf = buf @ len_prefixed_string s"
  "enc_WriteBytesRaw v buf = buf @ v"
  by (simp_all add: writer_defs len_prefixed_def len_prefixed_string_def)

definition optional_u64 :: "u64 option \<Rightarrow> bytes" where
  "optional_u64 v = (case v of None \<Rightarrow> [0] | Some x \<Rightarrow> 1 # PutUint64 x)"

lemma enc_WriteOptionalU64_append: "enc_WriteOptionalU64 v buf = buf @ optional_u64 v"
  by (simp add: writer_defs optional_u64_def split: option.split)

lemmas [byte_simps] = writers_append enc_WriteOptionalU64_append

section \<open>Lemmas on the response envelope\<close>

definition domain_error_bytes :: "u16 \<Rightarrow> u8 \<Rightarrow> u8 \<Rightarrow> string \<Rightarrow> bytes" where
  "domain_error_bytes code cls effect message =
     PutUint16 code @ [cls] @ [effect] @ len_prefixed_string message"

lemma parseTypedDomainError_Ok_iff:
  "parseTypedDomainError p = Ok (code, cls, effect, message) \<longleftrightarrow>
     p = domain_error_bytes code cls effect message \<and> cls \<le> 10 \<and> effect \<le> 2 \<and> fits_u32 message"
  (is "?L \<longleftrightarrow> ?R")
proof
  assume ?L
  then obtain o1 o2 o3 where
    r: "ReadU16BE p 0 = Ok (code, o1)" "ReadU8 p o1 = Ok (cls, o2)" "ReadU8 p o2 = Ok (effect, o3)"
    "ReadString p o3 = Ok (message, length p)" and b: "\<not> (cls > 10 \<or> effect > 2)"
    by (auto simp: parseTypedDomainError_def bind_res_Ok_iff split: if_splits)
  from u16c.read_Ok [OF le0 r(1)] have 1: "drop 0 p = PutUint16 code @ drop o1 p" "o1 \<le> length p"
    by blast+
  from u8c.read_Ok [OF 1(2) r(2)] have 2: "drop o1 p = [cls] @ drop o2 p" "o2 \<le> length p" by simp_all
  from u8c.read_Ok [OF 2(2) r(3)] have 3: "drop o2 p = [effect] @ drop o3 p" "o3 \<le> length p" by simp_all
  from stringc.read_Ok [OF 3(2) r(4)] have "drop o3 p = len_prefixed_string message" "fits_u32 message"
    by simp_all
  then have "drop 0 p = domain_error_bytes code cls effect message"
    by (simp only: domain_error_bytes_def 1(1) 2(1) 3(1))
  then show ?R using b \<open>fits_u32 message\<close> by (simp add: not_less)
next
  assume R: ?R
  then have fm: "fits_u32 message" by simp
  define q where "q = len_prefixed_string message"
  have p: "p = PutUint16 code @ [cls] @ [effect] @ q" using R by (simp add: domain_error_bytes_def q_def)
  have "ReadU16BE p 0 = Ok (code, 2)" 
    using u16c.read_first [of code "[cls] @ [effect] @ q"] by (simp add: p)
  moreover have "ReadU8 p 2 = Ok (cls, 3)"
    using u8c.read_appended [where x = cls and pre = "PutUint16 code" and post = "[effect] @ q"] by (simp add: p)
  moreover have "ReadU8 p 3 = Ok (effect, 4)"
    using u8c.read_appended [where x = effect and pre = "PutUint16 code @ [cls]" and post = q] by (simp add: p)
  moreover have "ReadString p 4 = Ok (message, length p)"
    using stringc.read_last [OF fm, of "PutUint16 code @ [cls] @ [effect]"]
    by (simp add: p q_def)
  moreover have "8 \<le> length p" by (simp add: p q_def)
  ultimately show ?L using R by (simp add: parseTypedDomainError_def not_less)
qed

lemmas codec_no_panic = u8c.bind_no_panic u16c.bind_no_panic u32c.bind_no_panic u64c.bind_no_panic
  bytesc.bind_no_panic stringc.bind_no_panic uuidc.bind_no_panic

lemma parseTypedDomainError_no_panic [no_panic_intros]: "no_panic (parseTypedDomainError p)"
  by (auto simp: parseTypedDomainError_def intro!: codec_no_panic)

lemma ParseStandardResponse_no_panic [no_panic_intros]: "no_panic (ParseStandardResponse p)"
proof (cases p)
  case Nil
  then show ?thesis by (simp add: ParseStandardResponse_def)
next
  case (Cons s q)
  then show ?thesis
    using parseTypedDomainError_no_panic [of q]
    by (auto simp: ParseStandardResponse_def split: res.split)
qed

section \<open>Properties\<close>

text \<open>C12: Response envelope. A response is a success exactly when its first byte is 0, and then the
  rest of it is returned; it is the domain error with a given code, class, effect and message
  exactly when it is byte 1 followed by the encoding of those fields with class at most 10 and
  effect at most 2. Every other payload is reported as a malformed response, so no server error
  is dropped or invented, and no payload makes the parser panic.\<close>

theorem response_envelope_exact:
  "(ParseStandardResponse p = Ok (success, rest) \<longleftrightarrow> success \<and> p = 0 # rest) \<and>
   (ParseStandardResponse p = Err (DomainError e) \<longleftrightarrow>
      (\<exists>code. p = 1 # domain_error_bytes code (de_class e) (de_effect e) (de_message e) \<and>
         de_code e = ucast code \<and> de_class e \<le> 10 \<and> de_effect e \<le> 2 \<and> fits_u32 (de_message e))) \<and>
   no_panic (ParseStandardResponse p)"
proof (cases p)
  case Nil
  then show ?thesis by (simp add: ParseStandardResponse_def)
next
  case (Cons s q)
  have np: "parseTypedDomainError q \<noteq> Panic"
    using parseTypedDomainError_no_panic [of q] by (simp add: no_panic_def)
  show ?thesis
  proof (cases "parseTypedDomainError q")
    case (Ok r)
    obtain code cls effect message where r: "r = (code, cls, effect, message)" by (cases r)
    from Ok have q: "q = domain_error_bytes code cls effect message" "cls \<le> 10" "effect \<le> 2"
      "fits_u32 message" by (auto simp: r parseTypedDomainError_Ok_iff)
    have "domain_error_bytes code cls effect message = domain_error_bytes c2 cl2 ef2 m2 \<Longrightarrow>
        cl2 \<le> 10 \<Longrightarrow> ef2 \<le> 2 \<Longrightarrow> fits_u32 m2 \<Longrightarrow>
        code = c2 \<and> cls = cl2 \<and> effect = ef2 \<and> message = m2" for c2 cl2 ef2 m2
      using Ok q parseTypedDomainError_Ok_iff [of q c2 cl2 ef2 m2] by (simp add: r)
    then show ?thesis
      using Cons Ok q ParseStandardResponse_no_panic [of p]
      by (auto simp: ParseStandardResponse_def r NewDomainErrorWithDisposition_def Errorf1_def)
  next
    case (Err err)
    then have "\<not> (q = domain_error_bytes c cl ef m \<and> cl \<le> 10 \<and> ef \<le> 2 \<and> fits_u32 m)" for c cl ef m
      using parseTypedDomainError_Ok_iff [of q c cl ef m] by auto
    then show ?thesis
      using Cons Err ParseStandardResponse_no_panic [of p]
      by (auto simp: ParseStandardResponse_def Errorf1_def)
  qed (use np in simp)
qed

end
