(* ===== verification/Multiplexer.thy ===== *)
theory Multiplexer
  imports Request_Queue Payload_Codec
begin

text \<open>
  The request multiplexer (\<^verbatim>\<open>internal/core/connection/mux.go\<close>, type \<open>Multiplexer\<close>): pending requests per message
  type answered in FIFO order, requests answered by correlation id, handlers for asynchronous
  messages, and shutdown. Waiters live in a heap (\<open>m_waiters\<close>), as the code shares them by pointer;
  a waiter's one-slot \<open>ready\<close> channel is a flag. Handlers and cancel functions belong to the clients of
  the multiplexer; they are numbers here and a call of one is recorded in \<open>m_calls\<close>. Each operation
  runs under the mutex (or in the single dispatch loop) and is one step of the model.
\<close>

section \<open>Waiters\<close>

record requestWaiter =
  w_response :: bytes
  w_hasResponse :: bool
  w_closed :: bool
  w_ready :: bool

definition waiter_reset :: "requestWaiter \<Rightarrow> requestWaiter" where
  "waiter_reset w = w\<lparr>w_response := [], w_hasResponse := False, w_closed := False, w_ready := False\<rparr>"

definition waiter_deliver :: "bytes \<Rightarrow> requestWaiter \<Rightarrow> requestWaiter" where
  "waiter_deliver payload w = w\<lparr>w_response := payload, w_hasResponse := True, w_ready := True\<rparr>"

definition waiter_fail :: "requestWaiter \<Rightarrow> requestWaiter" where
  "waiter_fail w = w\<lparr>w_closed := True, w_ready := True\<rparr>"

section \<open>State\<close>

datatype mux_call =
    NotifyCall nat u64 string bytes
  | RawPushCall nat bytes
  | RpcRequestCall nat bytes
  | RpcResponseCall nat bytes bytes
  | CancelCall nat

record multiplexer =
  m_pending :: "u16 \<rightharpoonup> requestQueue"
  m_correlated :: "u64 \<rightharpoonup> pendingRequest"
  m_lanes :: "u16 set"
  m_notify :: "u16 \<rightharpoonup> nat"
  m_rawPush :: "u16 \<rightharpoonup> nat"
  m_rpcReq :: "nat option"
  m_rpcResp :: "nat option"
  m_inFlight :: int
  m_requestsTotal :: u64
  m_responsesTotal :: u64
  m_responsesDropped :: u64
  m_closed :: bool
  m_version :: u32
  m_capabilities :: u32
  m_activeIDs :: u32
  m_nextID :: u64
  m_waiters :: "waiter \<Rightarrow> requestWaiter"
  m_calls :: "mux_call list"

definition NewMultiplexer :: "(waiter \<Rightarrow> requestWaiter) \<Rightarrow> multiplexer" where
  "NewMultiplexer heap =
     \<lparr>m_pending = Map.empty, m_correlated = Map.empty, m_lanes = {}, m_notify = Map.empty,
      m_rawPush = Map.empty, m_rpcReq = None, m_rpcResp = None, m_inFlight = 0, m_requestsTotal = 0,
      m_responsesTotal = 0, m_responsesDropped = 0, m_closed = False, m_version = 0,
      m_capabilities = 0, m_activeIDs = 0, m_nextID = 0, m_waiters = heap, m_calls = []\<rparr>"

definition deliver_to :: "waiter option \<Rightarrow> bytes \<Rightarrow> multiplexer \<Rightarrow> multiplexer" where
  "deliver_to w payload m =
     (case w of None \<Rightarrow> m
      | Some w \<Rightarrow> m\<lparr>m_waiters := (m_waiters m)(w := waiter_deliver payload (m_waiters m w))\<rparr>)"

definition fail_waiter :: "waiter \<Rightarrow> multiplexer \<Rightarrow> multiplexer" where
  "fail_waiter w m = m\<lparr>m_waiters := (m_waiters m)(w := waiter_fail (m_waiters m w))\<rparr>"

definition mux_call :: "mux_call \<Rightarrow> multiplexer \<Rightarrow> multiplexer" where
  "mux_call c m = m\<lparr>m_calls := m_calls m @ [c]\<rparr>"

section \<open>Version, capabilities and correlation ids\<close>

definition SetCapabilities :: "u16 \<Rightarrow> u32 \<Rightarrow> multiplexer \<Rightarrow> multiplexer" where
  "SetCapabilities version caps m = m\<lparr>m_version := ucast version, m_capabilities := caps, m_nextID := 0\<rparr>"

definition CorrelationEnabled :: "multiplexer \<Rightarrow> bool" where
  "CorrelationEnabled m \<longleftrightarrow> m_version m \<ge> 2"

definition Capabilities :: "multiplexer \<Rightarrow> u16 \<times> u32" where
  "Capabilities m = (ucast (m_version m), m_capabilities m)"

text \<open>The compare-and-swap loop, as the atomic step it implements.\<close>

definition NextCorrelationID :: "multiplexer \<Rightarrow> u64 \<times> multiplexer" where
  "NextCorrelationID m =
     (if m_nextID m = NOT 0 then (0, m)
      else (m_nextID m + 1, m\<lparr>m_nextID := m_nextID m + 1\<rparr>))"

text \<open>A lane is the mutex created for its message type, named by that type.\<close>

definition LegacyLane :: "u16 \<Rightarrow> multiplexer \<Rightarrow> u16 \<times> multiplexer" where
  "LegacyLane msgType m = (msgType, m\<lparr>m_lanes := insert msgType (m_lanes m)\<rparr>)"

section \<open>Registration\<close>

definition RegisterRequestWaiter :: "u16 \<Rightarrow> waiter \<Rightarrow> nat option \<Rightarrow> multiplexer \<Rightarrow> multiplexer" where
  "RegisterRequestWaiter msgType w cancelFunc m =
     (if m_closed m then fail_waiter w m
      else
        let queue = (case m_pending m msgType of None \<Rightarrow> newQueue | Some q \<Rightarrow> q);
            req = \<lparr>req_waiter = Some w, req_cancel = cancelFunc, req_discard = False\<rparr>
        in m\<lparr>m_pending := (m_pending m)(msgType \<mapsto> rq_push req queue),
             m_inFlight := m_inFlight m + 1, m_requestsTotal := m_requestsTotal m + 1\<rparr>)"

definition RegisterCorrelatedRequest :: "u64 \<Rightarrow> waiter \<Rightarrow> multiplexer \<Rightarrow> bool \<times> multiplexer" where
  "RegisterCorrelatedRequest corr w m =
     (if m_closed m then (False, fail_waiter w m)
      else if m_correlated m corr \<noteq> None then (False, m)
      else (True,
        m\<lparr>m_correlated := (m_correlated m)
             (corr \<mapsto> \<lparr>req_waiter = Some w, req_cancel = None, req_discard = False\<rparr>),
          m_inFlight := m_inFlight m + 1, m_requestsTotal := m_requestsTotal m + 1\<rparr>))"

definition UnregisterCorrelatedRequest :: "u64 \<Rightarrow> waiter \<Rightarrow> multiplexer \<Rightarrow> bool \<times> multiplexer" where
  "UnregisterCorrelatedRequest corr w m =
     (case m_correlated m corr of
        None \<Rightarrow> (False, m)
      | Some req \<Rightarrow>
          if req_waiter req \<noteq> Some w then (False, m)
          else (True, m\<lparr>m_correlated := (m_correlated m)
                  (corr \<mapsto> req\<lparr>req_waiter := None, req_discard := True\<rparr>)\<rparr>))"

definition remove_request :: "bool \<Rightarrow> u16 \<Rightarrow> waiter \<Rightarrow> multiplexer \<Rightarrow> bool \<times> multiplexer" where
  "remove_request preserve msgType w m =
     (case m_pending m msgType of
        None \<Rightarrow> (False, m)
      | Some queue \<Rightarrow>
          let ((_, ok), queue') = removeWaiter w preserve queue;
              m' = m\<lparr>m_pending := (m_pending m)(msgType \<mapsto> queue')\<rparr>
          in if ok then (True, m'\<lparr>m_inFlight := m_inFlight m' - 1\<rparr>) else (False, m'))"

definition UnregisterRequestWaiter :: "u16 \<Rightarrow> waiter \<Rightarrow> multiplexer \<Rightarrow> bool \<times> multiplexer" where
  "UnregisterRequestWaiter = remove_request False"

definition AbandonRequestWaiter :: "u16 \<Rightarrow> waiter \<Rightarrow> multiplexer \<Rightarrow> bool \<times> multiplexer" where
  "AbandonRequestWaiter = remove_request True"

section \<open>Handlers and asynchronous messages\<close>

definition SetNotifyHandler :: "u16 \<Rightarrow> nat option \<Rightarrow> multiplexer \<Rightarrow> multiplexer" where
  "SetNotifyHandler msgType handler m = m\<lparr>m_notify := (m_notify m)(msgType := handler)\<rparr>"

definition SetRawPushHandler :: "u16 \<Rightarrow> nat option \<Rightarrow> multiplexer \<Rightarrow> multiplexer" where
  "SetRawPushHandler msgType handler m = m\<lparr>m_rawPush := (m_rawPush m)(msgType := handler)\<rparr>"

definition SetRPCRequestHandler :: "nat option \<Rightarrow> multiplexer \<Rightarrow> multiplexer" where
  "SetRPCRequestHandler handler m = m\<lparr>m_rpcReq := handler\<rparr>"

definition SetRPCResponseHandler :: "nat option \<Rightarrow> multiplexer \<Rightarrow> multiplexer" where
  "SetRPCResponseHandler handler m = m\<lparr>m_rpcResp := handler\<rparr>"

definition dropFrame :: "multiplexer \<Rightarrow> multiplexer" where
  "dropFrame m = m\<lparr>m_responsesDropped := m_responsesDropped m + 1\<rparr>"

definition readU32Bytes :: "bytes \<Rightarrow> nat \<Rightarrow> (bytes \<times> nat \<times> bool) res" where
  "readU32Bytes payload off =
     (if off > length payload \<or> length payload - off < 4 then Ok ([], off, False)
      else bind_res (slice payload off (off + 4)) (\<lambda>l. bind_res (Uint32 l) (\<lambda>len.
        let off = off + 4 in
        if unat len > length payload - off then Ok ([], off, False)
        else let e = off + unat len in
          bind_res (slice payload off e) (\<lambda>b. Ok (b, e, True)))))"

definition handleKVNotify :: "bytes \<Rightarrow> nat \<Rightarrow> multiplexer \<Rightarrow> multiplexer res" where
  "handleKVNotify payload handler m =
     (if length payload < 8 + 4 + 8 then Ok (dropFrame m)
      else bind_res (slice payload 0 8) (\<lambda>s. bind_res (Uint64 s) (\<lambda>subID.
        bind_res (readU32Bytes payload 8) (\<lambda>(route, off, ok).
        if \<not> ok \<or> length payload \<noteq> off + 8 then Ok (dropFrame m)
        else bind_res (slice_from payload off) (\<lambda>rest.
          Ok (mux_call (NotifyCall handler subID (string_of_bytes route) rest) m))))))"

definition handleNotify :: "bytes \<Rightarrow> nat \<Rightarrow> multiplexer \<Rightarrow> multiplexer res" where
  "handleNotify payload handler m =
     (if length payload < 8 then Ok (dropFrame m)
      else bind_res (slice payload 0 8) (\<lambda>s. bind_res (Uint64 s) (\<lambda>subID.
        if length payload < 8 + 4 then Ok (dropFrame m)
        else bind_res (readU32Bytes payload 8) (\<lambda>(route, off, ok).
        if \<not> ok then Ok (dropFrame m)
        else if length payload < off + 4 then Ok (dropFrame m)
        else bind_res (readU32Bytes payload off) (\<lambda>(msg, _, ok).
        if \<not> ok then Ok (dropFrame m)
        else Ok (mux_call (NotifyCall handler subID (string_of_bytes route) msg) m))))))"

definition handleQueueNotify :: "bytes \<Rightarrow> nat \<Rightarrow> multiplexer \<Rightarrow> multiplexer res" where
  "handleQueueNotify payload handler m =
     (if length payload < 8 + 4 then Ok (dropFrame m)
      else bind_res (slice payload 0 8) (\<lambda>s. bind_res (Uint64 s) (\<lambda>subID.
        bind_res (readU32Bytes payload 8) (\<lambda>(route, off, ok).
        if \<not> ok then Ok (dropFrame m)
        else if length payload \<noteq> off + 24 then Ok (dropFrame m)
        else bind_res (slice_from payload off) (\<lambda>rest.
          Ok (mux_call (NotifyCall handler subID (string_of_bytes route) rest) m))))))"

definition handleRpcRequest :: "bytes \<Rightarrow> multiplexer \<Rightarrow> multiplexer" where
  "handleRpcRequest payload m =
     (case m_rpcReq m of None \<Rightarrow> m | Some h \<Rightarrow> mux_call (RpcRequestCall h payload) m)"

definition looksLikeRpcWorkerRequest :: "bytes \<Rightarrow> bool res" where
  "looksLikeRpcWorkerRequest payload =
     (if length payload < 24 then Ok False
      else bind_res (slice payload 16 20) (\<lambda>r. bind_res (Uint32 r) (\<lambda>routeLen.
        let bodyLenOffset = 20 + unat routeLen in
        if unat routeLen < 1 \<or> bodyLenOffset > length payload - 4 then Ok False
        else bind_res (slice payload bodyLenOffset (bodyLenOffset + 4)) (\<lambda>b.
          bind_res (Uint32 b) (\<lambda>bodyLen.
          let bodyEnd = bodyLenOffset + 4 + unat bodyLen in
          if bodyEnd > length payload then Ok False
          else bind_res (slice_from payload bodyEnd) (\<lambda>ext.
            if length ext = 1 \<and> ext ! 0 = 0 then Ok True
            else if length ext = 5 \<and> ext ! 0 = 1
              then bind_res (slice_from ext 1) (\<lambda>t. bind_res (Uint32 t) (\<lambda>timeout.
                Ok (timeout \<le> 86400000)))
            else Ok False))))))"

definition handleRpcResponse :: "bytes \<Rightarrow> multiplexer \<Rightarrow> multiplexer res" where
  "handleRpcResponse payload m =
     (if length payload < 16 then Ok (dropFrame m)
      else bind_res (slice payload 0 16) (\<lambda>corr.
        case m_rpcResp m of
          None \<Rightarrow> Ok m
        | Some h \<Rightarrow> bind_res (slice_from payload 16) (\<lambda>rest.
            Ok (mux_call (RpcResponseCall h corr rest) m))))"

section \<open>Dispatch\<close>

definition with_notify ::
    "(bytes \<Rightarrow> nat \<Rightarrow> multiplexer \<Rightarrow> multiplexer res) \<Rightarrow> u16 \<Rightarrow> bytes \<Rightarrow> multiplexer \<Rightarrow> multiplexer res" where
  "with_notify f msgType payload m =
     (case m_notify m msgType of None \<Rightarrow> Ok m | Some h \<Rightarrow> f payload h m)"

definition pending_count :: "u16 \<Rightarrow> multiplexer \<Rightarrow> int" where
  "pending_count msgType m = (case m_pending m msgType of None \<Rightarrow> 0 | Some q \<Rightarrow> rq_len q)"

definition dispatch_sync :: "u16 \<Rightarrow> bytes \<Rightarrow> multiplexer \<Rightarrow> multiplexer" where
  "dispatch_sync msgType payload m =
     (case m_pending m msgType of
        None \<Rightarrow>
          (case m_rawPush m msgType of
             Some h \<Rightarrow> mux_call (RawPushCall h payload) m
           | None \<Rightarrow> m\<lparr>m_responsesDropped := m_responsesDropped m + 1\<rparr>)
      | Some queue \<Rightarrow>
          if rq_len queue = 0 then
            (case m_rawPush m msgType of
               Some h \<Rightarrow> mux_call (RawPushCall h payload) m
             | None \<Rightarrow> m\<lparr>m_responsesDropped := m_responsesDropped m + 1\<rparr>)
          else
            let ((req, _), queue') = rq_pop queue;
                m' = m\<lparr>m_pending := (m_pending m)(msgType \<mapsto> queue')\<rparr>
            in if req_discard req then m'\<lparr>m_responsesDropped := m_responsesDropped m' + 1\<rparr>
               else deliver_to (req_waiter req) payload
                      (m'\<lparr>m_inFlight := m_inFlight m' - 1,
                          m_responsesTotal := m_responsesTotal m' + 1\<rparr>))"

definition Dispatch :: "u16 \<Rightarrow> bytes \<Rightarrow> multiplexer \<Rightarrow> multiplexer res" where
  "Dispatch msgType payload m =
     (if msgType = 111 then with_notify handleKVNotify msgType payload m
      else if msgType = 209 then with_notify handleQueueNotify msgType payload m
      else if msgType = 409 \<or> msgType = 504 \<or> msgType = 609 \<or> msgType = 705
        then with_notify handleNotify msgType payload m
      else if msgType = 302 then
        bind_res (looksLikeRpcWorkerRequest payload) (\<lambda>worker.
          if worker then Ok (handleRpcRequest payload m) else Ok (dispatch_sync msgType payload m))
      else if msgType = 303 \<and> \<not> pending_count 303 m > 0 then handleRpcResponse payload m
      else Ok (dispatch_sync msgType payload m))"

definition DispatchCorrelated :: "u64 \<Rightarrow> bytes \<Rightarrow> bool \<Rightarrow> multiplexer \<Rightarrow> bool \<times> multiplexer" where
  "DispatchCorrelated corr payload final m =
     (case m_correlated m corr of
        None \<Rightarrow> (False, m)
      | Some req \<Rightarrow>
          if final then
            let m' = m\<lparr>m_correlated := (m_correlated m)(corr := None),
                       m_inFlight := m_inFlight m - 1, m_responsesTotal := m_responsesTotal m + 1\<rparr>
            in (True, if \<not> req_discard req \<and> req_waiter req \<noteq> None
                      then deliver_to (req_waiter req) payload m' else m')
          else (True, m))"

section \<open>Shutdown\<close>

definition fail_pending :: "pendingRequest \<Rightarrow> multiplexer \<Rightarrow> multiplexer" where
  "fail_pending req m =
     (case req_waiter req of
        None \<Rightarrow> m
      | Some w \<Rightarrow>
          let m1 = (case req_cancel req of None \<Rightarrow> m | Some c \<Rightarrow> mux_call (CancelCall c) m)
          in fail_waiter w (m1\<lparr>m_inFlight := m_inFlight m1 - 1\<rparr>))"

definition fail_correlated :: "pendingRequest \<Rightarrow> multiplexer \<Rightarrow> multiplexer" where
  "fail_correlated req m = (case req_waiter req of None \<Rightarrow> m | Some w \<Rightarrow> fail_waiter w m)"

text \<open>
  Go ranges over a map in an unspecified order: the orders of the two loops are arguments, lists that
  enumerate the keys.
\<close>

definition mux_Close :: "u16 list \<Rightarrow> u64 list \<Rightarrow> multiplexer \<Rightarrow> multiplexer" where
  "mux_Close types corrs m =
     (if m_closed m then m
      else
        let m1 = m\<lparr>m_closed := True\<rparr>;
            m2 = fold (\<lambda>t. case m_pending m t of
                        None \<Rightarrow> id
                      | Some q \<Rightarrow> fold fail_pending (drop (q_head q) (q_items q))) types m1;
            m3 = fold (\<lambda>i. case m_correlated m i of None \<Rightarrow> id | Some req \<Rightarrow> fail_correlated req) corrs m2
        in m3\<lparr>m_pending := Map.empty, m_correlated := Map.empty, m_capabilities := 0,
              m_activeIDs := 0, m_version := 0\<rparr>)"

section \<open>Pending slots and the accounting invariant\<close>

definition slots_of :: "u16 \<Rightarrow> multiplexer \<Rightarrow> pendingRequest list" where
  "slots_of t m = (case m_pending m t of None \<Rightarrow> [] | Some q \<Rightarrow> slots q)"

text \<open>A slot awaits a response for its waiter or is a tombstone.\<close>

definition slot_ok :: "pendingRequest \<Rightarrow> bool" where
  "slot_ok r \<longleftrightarrow> (req_discard r \<longleftrightarrow> req_waiter r = None)"

definition accounted :: "multiplexer \<Rightarrow> int" where
  "accounted m =
     (\<Sum>t\<in>UNIV. int (length (waiters (slots_of t m)))) + int (card (dom (m_correlated m)))"

definition mux_inv :: "multiplexer \<Rightarrow> bool" where
  "mux_inv m \<longleftrightarrow>
     (\<forall>t q. m_pending m t = Some q \<longrightarrow> rq_inv q) \<and>
     (\<forall>t. list_all slot_ok (slots_of t m)) \<and>
     finite (dom (m_correlated m)) \<and>
     (\<not> m_closed m \<longrightarrow> m_inFlight m = accounted m) \<and>
     (m_closed m \<longrightarrow> m_pending m = Map.empty \<and> m_correlated m = Map.empty)"

lemma slots_of_update:
  "slots_of t (m\<lparr>m_pending := (m_pending m)(t' \<mapsto> q)\<rparr>) = (if t = t' then slots q else slots_of t m)"
  by (simp add: slots_of_def)

lemma slots_of_cong: "m_pending m' = m_pending m \<Longrightarrow> slots_of t m' = slots_of t m"
  by (simp add: slots_of_def)

lemma accounted_change:
  assumes "\<And>t'. t' \<noteq> t \<Longrightarrow> slots_of t' m' = slots_of t' m"
  shows "accounted m' = accounted m
    - int (length (waiters (slots_of t m))) + int (length (waiters (slots_of t m')))
    - int (card (dom (m_correlated m))) + int (card (dom (m_correlated m')))"
proof -
  have "(\<Sum>t'\<in>UNIV - {t}. int (length (waiters (slots_of t' m'))))
    = (\<Sum>t'\<in>UNIV - {t}. int (length (waiters (slots_of t' m))))"
    by (rule sum.cong) (use assms in auto)
  then show ?thesis
    unfolding accounted_def by (simp add: sum.remove [of UNIV t])
qed

lemma mux_inv_queue:
  assumes "mux_inv m"
  shows "rq_inv (case m_pending m t of None \<Rightarrow> newQueue | Some q \<Rightarrow> q)"
    "slots (case m_pending m t of None \<Rightarrow> newQueue | Some q \<Rightarrow> q) = slots_of t m"
  using assms by (auto simp: mux_inv_def slots_of_def split: option.splits)

lemma distinct_waiters_of: "mux_inv m \<Longrightarrow> distinct (waiters (slots_of t m))"
  using rq_inv_distinct(2) by (auto simp: mux_inv_def slots_of_def split: option.splits)

text \<open>One queue replaced: the invariant follows from the new contents and counter.\<close>

lemma mux_inv_replace:
  assumes "mux_inv m" "\<not> m_closed m" "rq_inv q" "list_all slot_ok (slots q)"
    "m_pending m' = (m_pending m)(t \<mapsto> q)" "m_correlated m' = m_correlated m" "\<not> m_closed m'"
    "m_inFlight m' = m_inFlight m - int (length (waiters (slots_of t m))) + int (length (waiters (slots q)))"
  shows "mux_inv m'"
proof -
  have sl: "slots_of t' m' = (if t' = t then slots q else slots_of t' m)" for t'
    by (simp add: slots_of_def assms(5))
  have "accounted m' = accounted m - int (length (waiters (slots_of t m))) + int (length (waiters (slots q)))"
    using accounted_change [of t m' m] sl assms(6) by simp
  then show ?thesis
    using assms sl by (auto simp: mux_inv_def)
qed

lemma mux_inv_cong:
  assumes "mux_inv m" "m_pending m' = m_pending m" "m_correlated m' = m_correlated m"
    "m_closed m' = m_closed m" "m_inFlight m' = m_inFlight m"
  shows "mux_inv m'"
proof -
  have "slots_of t m' = slots_of t m" for t by (simp add: slots_of_def assms(2))
  then show ?thesis using assms by (simp add: mux_inv_def accounted_def)
qed

lemma NewMultiplexer_inv: "mux_inv (NewMultiplexer heap)"
  by (simp add: mux_inv_def NewMultiplexer_def slots_of_def accounted_def)

lemma register_fresh:
  assumes "mux_inv m" "w \<notin> set (waiters (slots_of t m))" "\<not> m_closed m"
  shows "mux_inv (RegisterRequestWaiter t w c m)"
    "slots_of t' (RegisterRequestWaiter t w c m)
     = slots_of t' m @ (if t' = t then [\<lparr>req_waiter = Some w, req_cancel = c, req_discard = False\<rparr>] else [])"
proof -
  let ?q = "case m_pending m t of None \<Rightarrow> newQueue | Some q \<Rightarrow> q"
  let ?r = "\<lparr>req_waiter = Some w, req_cancel = c, req_discard = False\<rparr>"
  note q = mux_inv_queue [OF assms(1), of t]
  have push: "rq_inv (rq_push ?r ?q)" "slots (rq_push ?r ?q) = slots_of t m @ [?r]"
    using rq.push [OF q(1), of ?r] assms(2) unfolding q(2) by (simp_all add: fresh_request_def)
  have reg: "RegisterRequestWaiter t w c m = m\<lparr>m_pending := (m_pending m)(t \<mapsto> rq_push ?r ?q),
    m_inFlight := m_inFlight m + 1, m_requestsTotal := m_requestsTotal m + 1\<rparr>"
    using assms(3) by (simp add: RegisterRequestWaiter_def Let_def)
  show "slots_of t' (RegisterRequestWaiter t w c m) = slots_of t' m @ (if t' = t then [?r] else [])"
    using push(2) unfolding reg by (auto simp: slots_of_def)
  have "list_all slot_ok (slots_of t m)" using assms(1) by (simp add: mux_inv_def)
  then have "list_all slot_ok (slots (rq_push ?r ?q))" unfolding push(2) by (simp add: slot_ok_def)
  then show "mux_inv (RegisterRequestWaiter t w c m)"
    unfolding reg by (rule mux_inv_replace [OF assms(1,3) push(1)]) (use push(2) assms(3) in simp_all)
qed

lemma fail_waiter_inv: "mux_inv m \<Longrightarrow> mux_inv (fail_waiter w m)"
  by (erule mux_inv_cong) (simp_all add: fail_waiter_def)

lemma register_inv:
  assumes "mux_inv m" "w \<notin> set (waiters (slots_of t m))"
  shows "mux_inv (RegisterRequestWaiter t w c m)"
  using register_fresh(1) [OF assms] fail_waiter_inv [OF assms(1)]
  by (cases "m_closed m") (simp_all add: RegisterRequestWaiter_def)

text \<open>Both ways of giving up a request act on the slot list as the abstract queue does.\<close>

lemma slots_remove_waiters:
  assumes "distinct (waiters rs)" "list_all slot_ok rs"
  shows "int (length (waiters (snd (slots_remove w keep rs))))
      = int (length (waiters rs)) - (if snd (fst (slots_remove w keep rs)) then 1 else 0)"
    "list_all slot_ok (snd (slots_remove w keep rs))"
  using assms
  by (induction rs) (auto simp: slot_ok_def tombstone_def split: option.splits)

lemma slots_remove_found:
  "snd (fst (slots_remove w keep rs)) \<longleftrightarrow> w \<in> set (waiters rs)"
  by (induction rs) (auto split: option.splits)

lemma remove_request_slots:
  assumes "mux_inv m"
  shows "fst (remove_request keep t w m) \<longleftrightarrow> w \<in> set (waiters (slots_of t m))"
    "slots_of t' (snd (remove_request keep t w m))
     = (if t' = t then snd (slots_remove w keep (slots_of t m)) else slots_of t' m)"
    "m_waiters (snd (remove_request keep t w m)) = m_waiters m"
    "mux_inv (snd (remove_request keep t w m))"
proof -
  have "(fst (remove_request keep t w m) \<longleftrightarrow> w \<in> set (waiters (slots_of t m))) \<and>
    slots_of t' (snd (remove_request keep t w m))
     = (if t' = t then snd (slots_remove w keep (slots_of t m)) else slots_of t' m) \<and>
    m_waiters (snd (remove_request keep t w m)) = m_waiters m \<and>
    mux_inv (snd (remove_request keep t w m))" (is "?P \<and> ?Q \<and> ?R \<and> ?S")
  proof (cases "m_pending m t")
    case None
    then show ?thesis using assms by (auto simp: remove_request_def slots_of_def)
  next
    case (Some q)
    have iq: "rq_inv q" "slots_of t m = slots q" "list_all slot_ok (slots q)"
      using assms Some by (auto simp: mux_inv_def slots_of_def dest: spec [of _ t])
    have op: "\<not> m_closed m" using assms Some by (auto simp: mux_inv_def)
    obtain r ok q' where e: "removeWaiter w keep q = ((r, ok), q')" by (metis surj_pair)
    note res = rq.remove_result [OF iq(1), of w keep, unfolded e, simplified]
    have ok: "ok \<longleftrightarrow> w \<in> set (waiters (slots q))"
      using res(1) slots_remove_found [of w keep "slots q"] by (metis snd_conv)
    let ?m = "snd (remove_request keep t w m)"
    have m': "m_pending ?m = (m_pending m)(t \<mapsto> q')" "m_correlated ?m = m_correlated m"
      "m_waiters ?m = m_waiters m" "m_closed ?m = m_closed m"
      "m_inFlight ?m = m_inFlight m - (if ok then 1 else 0)"
      by (simp_all add: remove_request_def Some e Let_def)
    have cnt: "int (length (waiters (slots q'))) = int (length (waiters (slots q))) - (if ok then 1 else 0)"
      "list_all slot_ok (slots q')"
      using slots_remove_waiters [OF rq_inv_distinct(2) [OF iq(1)] iq(3), of w keep]
      unfolding res(3) [symmetric] res(1) [symmetric] by simp_all
    have ?P using ok by (simp add: remove_request_def Some e iq(2) Let_def)
    moreover have ?Q unfolding slots_of_def m' using res(3) Some by (simp add: slots_of_def)
    moreover have ?S
      by (rule mux_inv_replace [OF assms op res(2) cnt(2) m'(1,2)])
        (use op m'(4,5) cnt(1) iq(2) in simp_all)
    ultimately show ?thesis using m'(3) by simp
  qed
  then show ?P ?Q ?R ?S by blast+
qed

lemma dispatch_sync_slot:
  assumes "mux_inv m" "slots_of t m = r # rs"
  shows "slots_of t' (dispatch_sync t p m) = (if t' = t then rs else slots_of t' m)"
    "m_waiters (dispatch_sync t p m) = (case req_waiter r of
       None \<Rightarrow> m_waiters m
     | Some w \<Rightarrow> (m_waiters m)(w := waiter_deliver p (m_waiters m w)))"
    "mux_inv (dispatch_sync t p m)"
    "m_responsesDropped (dispatch_sync t p m) = m_responsesDropped m + (if req_waiter r = None then 1 else 0)"
    "m_calls (dispatch_sync t p m) = m_calls m"
proof -
  obtain q where q: "m_pending m t = Some q" "slots q = r # rs"
    using assms(2) by (auto simp: slots_of_def split: option.splits)
  have iq: "rq_inv q" "list_all slot_ok (r # rs)"
    using assms q(1) by (auto simp: mux_inv_def dest: spec [of _ t])
  have op: "\<not> m_closed m" using assms(1) q(1) by (auto simp: mux_inv_def)
  obtain q' where e: "rq_pop q = ((r, True), q')" "rq_inv q'" "slots q' = rs"
    using rq.pop_front [OF iq(1) q(2)] by (cases "rq_pop q") auto
  have ne: "rq_len q \<noteq> 0" using rq.count_pos [OF iq(1)] q(2) by simp
  have disc: "req_discard r \<longleftrightarrow> req_waiter r = None" using iq(2) by (simp add: slot_ok_def)
  let ?m = "dispatch_sync t p m"
  have m': "m_pending ?m = (m_pending m)(t \<mapsto> q')" "m_correlated ?m = m_correlated m"
    "m_closed ?m = m_closed m" "m_calls ?m = m_calls m"
    "m_inFlight ?m = m_inFlight m - (if req_waiter r = None then 0 else 1)"
    "m_responsesDropped ?m = m_responsesDropped m + (if req_waiter r = None then 1 else 0)"
    "m_waiters ?m = (case req_waiter r of None \<Rightarrow> m_waiters m
       | Some w \<Rightarrow> (m_waiters m)(w := waiter_deliver p (m_waiters m w)))"
    using ne disc
    by (auto simp: dispatch_sync_def q(1) e(1) deliver_to_def split: option.splits)
  show "slots_of t' ?m = (if t' = t then rs else slots_of t' m)"
    unfolding slots_of_def m' using e(3) by (simp add: slots_of_def)
  show "mux_inv ?m"
    by (rule mux_inv_replace [OF assms(1) op e(2) _ m'(1,2)])
      (use op m'(3,5) e(3) iq(2) assms(2) in \<open>auto split: option.splits\<close>)
  show "m_waiters ?m = (case req_waiter r of None \<Rightarrow> m_waiters m
       | Some w \<Rightarrow> (m_waiters m)(w := waiter_deliver p (m_waiters m w)))"
    "m_responsesDropped ?m = m_responsesDropped m + (if req_waiter r = None then 1 else 0)"
    "m_calls ?m = m_calls m"
    by (fact m'(7), fact m'(6), fact m'(4))
qed

lemma correlated_inv:
  assumes "mux_inv m" "m_pending m' = m_pending m" "\<not> m_closed m" "\<not> m_closed m'"
    "finite (dom (m_correlated m'))"
    "m_inFlight m' = m_inFlight m - int (card (dom (m_correlated m))) + int (card (dom (m_correlated m')))"
  shows "mux_inv m'"
proof -
  have sl: "slots_of t m' = slots_of t m" for t by (simp add: slots_of_def assms(2))
  show ?thesis using assms accounted_change [of undefined m' m] sl by (simp add: mux_inv_def)
qed

lemma RegisterCorrelatedRequest_inv:
  assumes "mux_inv m" shows "mux_inv (snd (RegisterCorrelatedRequest corr w m))"
proof (cases "m_closed m \<or> m_correlated m corr \<noteq> None")
  case True
  then show ?thesis using assms fail_waiter_inv [OF assms]
    by (auto simp: RegisterCorrelatedRequest_def)
next
  case False
  then have "corr \<notin> dom (m_correlated m)" "finite (dom (m_correlated m))"
    using assms by (auto simp: mux_inv_def)
  then show ?thesis
    using False by (intro correlated_inv [OF assms]) (auto simp: RegisterCorrelatedRequest_def)
qed

lemma UnregisterCorrelatedRequest_inv:
  assumes "mux_inv m" shows "mux_inv (snd (UnregisterCorrelatedRequest corr w m))"
proof (cases "m_correlated m corr")
  case None
  then show ?thesis using assms by (simp add: UnregisterCorrelatedRequest_def)
next
  case (Some req)
  then have "dom ((m_correlated m)(corr \<mapsto> r)) = dom (m_correlated m)"
    "\<not> m_closed m" "finite (dom (m_correlated m))" for r
    using assms by (auto simp: mux_inv_def)
  then show ?thesis
    using Some assms by (auto simp: UnregisterCorrelatedRequest_def simp del: dom_fun_upd
      intro: correlated_inv [OF assms])
qed

lemma DispatchCorrelated_inv:
  assumes "mux_inv m" shows "mux_inv (snd (DispatchCorrelated corr p final m))"
proof (cases "m_correlated m corr")
  case None
  then show ?thesis using assms by (simp add: DispatchCorrelated_def)
next
  case (Some req)
  let ?m = "snd (DispatchCorrelated corr p True m)"
  have "finite (dom (m_correlated m))" "corr \<in> dom (m_correlated m)" and op: "\<not> m_closed m"
    using Some assms by (auto simp: mux_inv_def)
  then have "int (card (dom (m_correlated m) - {corr})) = int (card (dom (m_correlated m))) - 1"
    by (metis card_Suc_Diff1 of_nat_Suc add_diff_cancel_left')
  moreover have "m_pending ?m = m_pending m" "m_closed ?m = m_closed m"
    "m_correlated ?m = (m_correlated m)(corr := None)" "m_inFlight ?m = m_inFlight m - 1"
    using Some by (auto simp: DispatchCorrelated_def deliver_to_def Let_def split: option.splits)
  ultimately have "mux_inv ?m"
    using op \<open>finite (dom (m_correlated m))\<close> by (intro correlated_inv [OF assms]) auto
  then show ?thesis using Some assms by (cases final) (simp_all add: DispatchCorrelated_def)
qed

lemma bookkeeping_inv:
  assumes "mux_inv m"
  shows "mux_inv (dropFrame m)" "mux_inv (mux_call c m)" "mux_inv (handleRpcRequest p m)"
    "mux_inv (SetCapabilities v caps m)" "mux_inv (snd (NextCorrelationID m))"
    "mux_inv (snd (LegacyLane t m))" "mux_inv (SetNotifyHandler t h m)"
    "mux_inv (SetRawPushHandler t h m)" "mux_inv (SetRPCRequestHandler h m)"
    "mux_inv (SetRPCResponseHandler h m)" "mux_inv (m\<lparr>m_activeIDs := ids\<rparr>)"
    "mux_inv (m\<lparr>m_responsesDropped := d\<rparr>)"
  by (rule mux_inv_cong [OF assms];
      simp add: dropFrame_def mux_call_def handleRpcRequest_def SetCapabilities_def
        NextCorrelationID_def LegacyLane_def SetNotifyHandler_def SetRawPushHandler_def
        SetRPCRequestHandler_def SetRPCResponseHandler_def split: option.split)+

lemma dispatch_sync_empty:
  assumes "mux_inv m" "slots_of t m = []"
  shows "dispatch_sync t p m = (case m_rawPush m t of
      Some h \<Rightarrow> mux_call (RawPushCall h p) m
    | None \<Rightarrow> m\<lparr>m_responsesDropped := m_responsesDropped m + 1\<rparr>)"
proof (cases "m_pending m t")
  case (Some q)
  then have "rq_len q = 0"
    using assms rq.count_pos [of q] by (auto simp: mux_inv_def slots_of_def)
  with Some show ?thesis by (simp add: dispatch_sync_def)
qed (simp add: dispatch_sync_def)

lemma dispatch_sync_inv:
  assumes "mux_inv m" shows "mux_inv (dispatch_sync t p m)"
proof (cases "slots_of t m")
  case Nil
  then show ?thesis
    using dispatch_sync_empty [OF assms Nil] bookkeeping_inv [OF assms] by (simp split: option.split)
qed (use dispatch_sync_slot(3) [OF assms] in blast)

section \<open>Notification payloads\<close>

text \<open>The header the notification shapes share, read with the payload readers.\<close>

definition sub_route :: "bytes \<Rightarrow> (u64 \<times> string \<times> nat) res" where
  "sub_route p = bind_res (ReadU64BE p 0) (\<lambda>(s, o1). bind_res (ReadString p o1) (\<lambda>(r, o2). Ok (s, r, o2)))"

definition notify_head :: "u64 \<Rightarrow> string \<Rightarrow> bytes" where
  "notify_head s r = PutUint64 s @ len_prefixed_string r"

lemma length_notify_head [simp]: "length (notify_head s r) = 12 + length r"
  by (simp add: notify_head_def)

lemma sub_route_iff:
  "sub_route p = Ok (s, r, off) \<longleftrightarrow>
     fits_u32 r \<and> off = 12 + length r \<and> off \<le> length p \<and> p = notify_head s r @ drop off p"
proof
  assume "sub_route p = Ok (s, r, off)"
  then obtain o1 where o: "ReadU64BE p 0 = Ok (s, o1)" "ReadString p o1 = Ok (r, off)"
    by (auto simp: sub_route_def bind_res_Ok_iff)
  note 1 = u64c.read_Ok [OF _ o(1), simplified]
  note 2 = stringc.read_Ok [OF _ o(2)]
  have "o1 = 8" and p: "p = PutUint64 s @ drop o1 p" using 1 by blast+
  have d: "drop o1 p = len_prefixed_string r @ drop off p" using 1 2 by simp
  show "fits_u32 r \<and> off = 12 + length r \<and> off \<le> length p \<and> p = notify_head s r @ drop off p"
    using 1 2 p [unfolded d] \<open>o1 = 8\<close> by (simp add: notify_head_def)
next
  assume a: "fits_u32 r \<and> off = 12 + length r \<and> off \<le> length p \<and> p = notify_head s r @ drop off p"
  then have "p = PutUint64 s @ len_prefixed_string r @ drop off p"
    unfolding notify_head_def append_assoc by blast
  then obtain rest where p: "p = PutUint64 s @ len_prefixed_string r @ rest" by blast
  have "ReadU64BE p 0 = Ok (s, 8)"
    unfolding p using u64c.read_first [where x = s] by simp
  moreover have "ReadString p 8 = Ok (r, off)"
    unfolding p using stringc.read_appended [of r "PutUint64 s" rest] a by simp
  ultimately show "sub_route p = Ok (s, r, off)" by (simp add: sub_route_def)
qed

lemma readU32Bytes_total:
  "readU32Bytes p off = (case ReadBytes p off of
      Ok (b, e) \<Rightarrow> Ok (b, e, True)
    | _ \<Rightarrow> Ok ([], if length p - off < 4 then off else off + 4, False))"
proof (cases "off + 4 \<le> length p")
  case True
  then obtain n where n: "Uint32 (drop off p) = Ok n" using Uint_Ok_iff(2) [of "drop off p"] by auto
  then show ?thesis
    using True by (auto simp: readU32Bytes_def ReadBytes_def ReadU32BE_def Let_def)
next
  case False
  then show ?thesis by (auto simp: readU32Bytes_def ReadBytes_def ReadU32BE_def)
qed

lemma handleNotify_fields:
  "handleNotify p h m = (case sub_route p of
      Ok (s, r, off) \<Rightarrow> (case ReadBytes p off of
          Ok (b, _) \<Rightarrow> Ok (mux_call (NotifyCall h s r b) m)
        | _ \<Rightarrow> Ok (dropFrame m))
    | _ \<Rightarrow> Ok (dropFrame m))"
  "handleKVNotify p h m = (case sub_route p of
      Ok (s, r, off) \<Rightarrow> if length p = off + 8 then Ok (mux_call (NotifyCall h s r (drop off p)) m)
                         else Ok (dropFrame m)
    | _ \<Rightarrow> Ok (dropFrame m))"
  "handleQueueNotify p h m = (case sub_route p of
      Ok (s, r, off) \<Rightarrow> if length p = off + 24 then Ok (mux_call (NotifyCall h s r (drop off p)) m)
                         else Ok (dropFrame m)
    | _ \<Rightarrow> Ok (dropFrame m))"
proof -
  have "handleNotify p h m = (case sub_route p of
      Ok (s, r, off) \<Rightarrow> (case ReadBytes p off of
          Ok (b, _) \<Rightarrow> Ok (mux_call (NotifyCall h s r b) m)
        | _ \<Rightarrow> Ok (dropFrame m))
    | _ \<Rightarrow> Ok (dropFrame m)) \<and>
    handleKVNotify p h m = (case sub_route p of
      Ok (s, r, off) \<Rightarrow> if length p = off + 8 then Ok (mux_call (NotifyCall h s r (drop off p)) m)
                         else Ok (dropFrame m)
    | _ \<Rightarrow> Ok (dropFrame m)) \<and>
    handleQueueNotify p h m = (case sub_route p of
      Ok (s, r, off) \<Rightarrow> if length p = off + 24 then Ok (mux_call (NotifyCall h s r (drop off p)) m)
                         else Ok (dropFrame m)
    | _ \<Rightarrow> Ok (dropFrame m))" (is "?N \<and> ?K \<and> ?Q")
  proof (cases "8 \<le> length p")
    case True
    then obtain s where s: "Uint64 p = Ok s" using Uint_Ok_iff(3) [of p] by auto
    have sr: "sub_route p = bind_res (ReadBytes p 8) (\<lambda>(d, e). Ok (s, string_of_bytes d, e))"
      using True s
      by (cases "ReadBytes p 8") (auto simp: sub_route_def ReadU64BE_def ReadString_ReadBytes)
    have b: "ReadBytes p 8 = Ok (d, e) \<Longrightarrow> 12 \<le> e \<and> e \<le> length p" for d e
      using bytesc.read_Ok [of 8 p d e] True by simp
    have b2: "ReadBytes p e = Ok (d', e') \<Longrightarrow> e \<le> length p \<Longrightarrow> e + 4 \<le> length p" for e d' e'
      using bytesc.read_Ok [of e p d' e'] by simp
    show ?thesis
    proof (cases "ReadBytes p 8")
      case (Ok x)
      obtain d e where x: "x = (d, e)" by (cases x)
      note be = b [OF Ok [unfolded x]]
      have ?N using True s be unfolding handleNotify_def sr
        by (cases "ReadBytes p e") (auto simp: Ok x readU32Bytes_total dest: b2)
      moreover have ?K using True s be unfolding handleKVNotify_def sr
        by (auto simp: Ok x readU32Bytes_total)
      moreover have ?Q using True s be unfolding handleQueueNotify_def sr
        by (auto simp: Ok x readU32Bytes_total)
      ultimately show ?thesis by blast
    qed (use True s in \<open>simp_all add: handleNotify_def handleKVNotify_def handleQueueNotify_def sr
      readU32Bytes_total\<close>)
  next
    case False
    then show ?thesis
      by (simp add: handleNotify_def handleKVNotify_def handleQueueNotify_def sub_route_def ReadU64BE_def)
  qed
  then show ?N ?K ?Q by blast+
qed

section \<open>Dispatch: total, and keeps the invariant\<close>

lemma looksLikeRpcWorkerRequest_total: "is_Ok (looksLikeRpcWorkerRequest p)"
proof (cases "length p < 24")
  case False
  then obtain n where n: "Uint32 (drop 16 p) = Ok n" using Uint_Ok_iff(2) [of "drop 16 p"] by auto
  show ?thesis
  proof (cases "unat n < 1 \<or> 20 + unat n > length p - 4")
    case False': False
    then obtain k where k: "Uint32 (drop (20 + unat n) p) = Ok k"
      using Uint_Ok_iff(2) [of "drop (20 + unat n) p"] False by auto
    have "length p - (24 + unat n + unat k) = 5 \<Longrightarrow> \<exists>t. Uint32 (drop 1 (drop (24 + unat n + unat k) p)) = Ok t"
      using Uint_Ok_iff(2) [of "drop 1 (drop (24 + unat n + unat k) p)"] by simp
    then show ?thesis
      using False False' n k by (auto simp: looksLikeRpcWorkerRequest_def Let_def)
  qed (use n False in \<open>auto simp: looksLikeRpcWorkerRequest_def\<close>)
qed (simp add: looksLikeRpcWorkerRequest_def)

lemma notify_handlers_inv:
  assumes "mux_inv m" and "f \<in> {handleNotify, handleKVNotify, handleQueueNotify}"
  shows "\<exists>m'. f p h m = Ok m' \<and> mux_inv m'"
  using assms(2) bookkeeping_inv [OF assms(1)]
  by (auto simp: handleNotify_fields split: res.splits prod.splits)

lemma handleRpcResponse_inv:
  assumes "mux_inv m" shows "\<exists>m'. handleRpcResponse p m = Ok m' \<and> mux_inv m'"
  using bookkeeping_inv [OF assms] assms by (auto simp: handleRpcResponse_def split: option.splits)

lemma Dispatch_inv:
  assumes "mux_inv m" shows "\<exists>m'. Dispatch t p m = Ok m' \<and> mux_inv m'"
proof -
  have nf: "\<exists>m'. with_notify f t p m = Ok m' \<and> mux_inv m'"
    if "f \<in> {handleNotify, handleKVNotify, handleQueueNotify}" for f t
    using notify_handlers_inv [OF assms that] assms by (simp add: with_notify_def split: option.splits)
  obtain b where "looksLikeRpcWorkerRequest p = Ok b"
    using looksLikeRpcWorkerRequest_total [of p] by (cases "looksLikeRpcWorkerRequest p") auto
  then show ?thesis
    using nf [of handleNotify] nf [of handleKVNotify] nf [of handleQueueNotify]
      handleRpcResponse_inv [OF assms] dispatch_sync_inv [OF assms] bookkeeping_inv(3) [OF assms]
    by (simp add: Dispatch_def)
qed

section \<open>Shutdown\<close>

lemma fold_fail_pending:
  "m_waiters (fold fail_pending rs m) = (\<lambda>w. if w \<in> set (waiters rs) then waiter_fail (m_waiters m w) else m_waiters m w)"
  "m_inFlight (fold fail_pending rs m) = m_inFlight m - int (length (waiters rs))"
  "m_closed (fold fail_pending rs m) = m_closed m"
  "m_correlated (fold fail_pending rs m) = m_correlated m"
  "m_pending (fold fail_pending rs m) = m_pending m"
  by (induction rs arbitrary: m)
    (auto simp: fail_pending_def fail_waiter_def waiter_fail_def mux_call_def Let_def fun_eq_iff
      split: option.splits)

lemma waiters_of_items: "m_pending m t = Some q \<Longrightarrow>
  waiters (drop (q_head q) (q_items q)) = waiters (slots_of t m)"
  by (simp add: slots_of_def slots_def)

definition fail_types :: "multiplexer \<Rightarrow> u16 list \<Rightarrow> multiplexer \<Rightarrow> multiplexer" where
  "fail_types m0 types = fold (\<lambda>t. case m_pending m0 t of
      None \<Rightarrow> id | Some q \<Rightarrow> fold fail_pending (drop (q_head q) (q_items q))) types"

lemma fail_types_effect:
  "m_waiters (fail_types m0 types m) = (\<lambda>w. if \<exists>t\<in>set types. w \<in> set (waiters (slots_of t m0))
     then waiter_fail (m_waiters m w) else m_waiters m w)"
  "m_inFlight (fail_types m0 types m) = m_inFlight m - (\<Sum>t\<leftarrow>types. int (length (waiters (slots_of t m0))))"
  "m_closed (fail_types m0 types m) = m_closed m"
proof -
  have step: "(case m_pending m0 t of None \<Rightarrow> id
      | Some q \<Rightarrow> fold fail_pending (drop (q_head q) (q_items q))) m
    = (case m_pending m0 t of None \<Rightarrow> m
      | Some q \<Rightarrow> fold fail_pending (drop (q_head q) (q_items q)) m)" for t m
    by (simp split: option.split)
  show "m_waiters (fail_types m0 types m) = (\<lambda>w. if \<exists>t\<in>set types. w \<in> set (waiters (slots_of t m0))
     then waiter_fail (m_waiters m w) else m_waiters m w)"
    "m_inFlight (fail_types m0 types m) = m_inFlight m - (\<Sum>t\<leftarrow>types. int (length (waiters (slots_of t m0))))"
    "m_closed (fail_types m0 types m) = m_closed m"
    by (induction types arbitrary: m)
      (auto simp: fail_types_def step fold_fail_pending waiters_of_items waiter_fail_def fun_eq_iff
        slots_of_def [of _ m0] split: option.splits)
qed

lemma fold_fail_correlated:
  "m_waiters (fold (\<lambda>i. case c i of None \<Rightarrow> id | Some req \<Rightarrow> fail_correlated req) corrs m) = (\<lambda>w.
     if \<exists>i\<in>set corrs. \<exists>r. c i = Some r \<and> req_waiter r = Some w
     then waiter_fail (m_waiters m w) else m_waiters m w)"
  "m_inFlight (fold (\<lambda>i. case c i of None \<Rightarrow> id | Some req \<Rightarrow> fail_correlated req) corrs m) = m_inFlight m"
  "m_closed (fold (\<lambda>i. case c i of None \<Rightarrow> id | Some req \<Rightarrow> fail_correlated req) corrs m) = m_closed m"
proof -
  have step: "(case c i of None \<Rightarrow> id | Some req \<Rightarrow> fail_correlated req) m
    = (case c i of None \<Rightarrow> m | Some req \<Rightarrow> fail_correlated req m)" for i m
    by (simp split: option.split)
  show "m_waiters (fold (\<lambda>i. case c i of None \<Rightarrow> id | Some req \<Rightarrow> fail_correlated req) corrs m) = (\<lambda>w.
     if \<exists>i\<in>set corrs. \<exists>r. c i = Some r \<and> req_waiter r = Some w
     then waiter_fail (m_waiters m w) else m_waiters m w)"
    "m_inFlight (fold (\<lambda>i. case c i of None \<Rightarrow> id | Some req \<Rightarrow> fail_correlated req) corrs m) = m_inFlight m"
    "m_closed (fold (\<lambda>i. case c i of None \<Rightarrow> id | Some req \<Rightarrow> fail_correlated req) corrs m) = m_closed m"
    by (induction corrs arbitrary: m)
      (auto simp: step fail_correlated_def fail_waiter_def waiter_fail_def fun_eq_iff
        split: option.splits)
qed

definition enumerates :: "'a list \<Rightarrow> ('a \<rightharpoonup> 'b) \<Rightarrow> bool" where
  "enumerates ks d \<longleftrightarrow> distinct ks \<and> set ks = dom d"

lemma mux_Close_effect:
  assumes "mux_inv m" "\<not> m_closed m" "enumerates types (m_pending m)" "enumerates corrs (m_correlated m)"
  shows "m_waiters (mux_Close types corrs m) w =
      (if (\<exists>t. w \<in> set (waiters (slots_of t m))) \<or>
          (\<exists>i r. m_correlated m i = Some r \<and> req_waiter r = Some w)
       then waiter_fail (m_waiters m w) else m_waiters m w)"
    "m_inFlight (mux_Close types corrs m) = int (card (dom (m_correlated m)))"
    "m_closed (mux_Close types corrs m)" "m_pending (mux_Close types corrs m) = Map.empty"
    "m_correlated (mux_Close types corrs m) = Map.empty"
proof -
  have dom: "w \<in> set (waiters (slots_of t m)) \<Longrightarrow> t \<in> set types" for t w
    using assms(3) by (auto simp: enumerates_def slots_of_def dom_def split: option.splits)
  have nil: "waiters (slots_of t m) = []" if "t \<notin> set types" for t
  proof (rule ccontr)
    assume "waiters (slots_of t m) \<noteq> []"
    then have "hd (waiters (slots_of t m)) \<in> set (waiters (slots_of t m))" by simp
    then show False using dom that by blast
  qed
  have "(\<Sum>t\<leftarrow>types. int (length (waiters (slots_of t m))))
    = (\<Sum>t\<in>set types. int (length (waiters (slots_of t m))))"
    using assms(3) by (simp add: enumerates_def sum_list_distinct_conv_sum_set)
  also have "\<dots> = (\<Sum>t\<in>UNIV. int (length (waiters (slots_of t m))))"
  proof (rule sum.mono_neutral_left)
    show "\<forall>t\<in>UNIV - set types. int (length (waiters (slots_of t m))) = 0"
      using nil by simp
  qed simp_all
  finally have sum: "(\<Sum>t\<leftarrow>types. int (length (waiters (slots_of t m))))
    = (\<Sum>t\<in>UNIV. int (length (waiters (slots_of t m))))" .
  have cl: "mux_Close types corrs m
    = (fold (\<lambda>i. case m_correlated m i of None \<Rightarrow> id | Some req \<Rightarrow> fail_correlated req) corrs
        (fail_types m types (m\<lparr>m_closed := True\<rparr>)))
        \<lparr>m_pending := Map.empty, m_correlated := Map.empty, m_capabilities := 0,
         m_activeIDs := 0, m_version := 0\<rparr>"
    using assms(2) by (simp add: mux_Close_def Let_def fail_types_def)
  have corr: "(\<exists>i\<in>set corrs. \<exists>r. m_correlated m i = Some r \<and> req_waiter r = Some w) \<longleftrightarrow>
    (\<exists>i r. m_correlated m i = Some r \<and> req_waiter r = Some w)"
    using assms(4) by (auto simp: enumerates_def)
  have tys: "(\<exists>t\<in>set types. w \<in> set (waiters (slots_of t m))) \<longleftrightarrow> (\<exists>t. w \<in> set (waiters (slots_of t m)))"
    using dom by blast
  show "m_waiters (mux_Close types corrs m) w =
      (if (\<exists>t. w \<in> set (waiters (slots_of t m))) \<or>
          (\<exists>i r. m_correlated m i = Some r \<and> req_waiter r = Some w)
       then waiter_fail (m_waiters m w) else m_waiters m w)"
    by (simp add: cl fold_fail_correlated fail_types_effect corr tys) (auto simp: waiter_fail_def)
  show "m_inFlight (mux_Close types corrs m) = int (card (dom (m_correlated m)))"
    using assms(1,2) by (simp add: cl fold_fail_correlated fail_types_effect sum mux_inv_def accounted_def)
  show "m_closed (mux_Close types corrs m)" "m_pending (mux_Close types corrs m) = Map.empty"
    "m_correlated (mux_Close types corrs m) = Map.empty"
    by (simp_all add: cl fold_fail_correlated fail_types_effect)
qed

lemma mux_Close_inv:
  assumes "mux_inv m" "enumerates types (m_pending m)" "enumerates corrs (m_correlated m)"
  shows "mux_inv (mux_Close types corrs m)"
proof (cases "m_closed m")
  case False
  then show ?thesis using mux_Close_effect(3-5) [OF assms(1) _ assms(2,3)]
    by (simp add: mux_inv_def slots_of_def)
qed (use assms(1) in \<open>simp add: mux_Close_def\<close>)

section \<open>Runs of the multiplexer\<close>

text \<open>
  A step is one operation of the multiplexer. A registered waiter comes from the pool, so it does not
  already wait in the queue of its message type.
\<close>

inductive mux_step :: "multiplexer \<Rightarrow> multiplexer \<Rightarrow> bool" where
  register: "w \<notin> set (waiters (slots_of t m)) \<Longrightarrow> mux_step m (RegisterRequestWaiter t w c m)"
| register_correlated: "mux_step m (snd (RegisterCorrelatedRequest i w m))"
| unregister_correlated: "mux_step m (snd (UnregisterCorrelatedRequest i w m))"
| unregister: "mux_step m (snd (UnregisterRequestWaiter t w m))"
| abandon: "mux_step m (snd (AbandonRequestWaiter t w m))"
| dispatch: "Dispatch t p m = Ok m' \<Longrightarrow> mux_step m m'"
| dispatch_correlated: "mux_step m (snd (DispatchCorrelated i p final m))"
| next_id: "mux_step m (snd (NextCorrelationID m))"
| capabilities: "mux_step m (SetCapabilities v caps m)"
| lane: "mux_step m (snd (LegacyLane t m))"
| notify_handler: "mux_step m (SetNotifyHandler t h m)"
| raw_handler: "mux_step m (SetRawPushHandler t h m)"
| rpc_handler: "mux_step m (SetRPCRequestHandler h m)"
| rpc_response_handler: "mux_step m (SetRPCResponseHandler h m)"
| close: "enumerates types (m_pending m) \<Longrightarrow> enumerates corrs (m_correlated m) \<Longrightarrow>
    mux_step m (mux_Close types corrs m)"

inductive mux_reachable :: "multiplexer \<Rightarrow> bool" where
  init: "mux_reachable (NewMultiplexer heap)"
| step: "mux_reachable m \<Longrightarrow> mux_step m m' \<Longrightarrow> mux_reachable m'"

lemma mux_step_inv: "mux_step m m' \<Longrightarrow> mux_inv m \<Longrightarrow> mux_inv m'"
proof (induction rule: mux_step.induct)
  case (dispatch t p m m')
  then show ?case using Dispatch_inv [of m t p] by auto
qed (simp_all add: register_inv RegisterCorrelatedRequest_inv UnregisterCorrelatedRequest_inv
  UnregisterRequestWaiter_def AbandonRequestWaiter_def remove_request_slots(4)
  DispatchCorrelated_inv bookkeeping_inv mux_Close_inv)

lemma mux_reachable_inv: "mux_reachable m \<Longrightarrow> mux_inv m"
  by (induction rule: mux_reachable.induct) (auto simp: NewMultiplexer_inv mux_step_inv)

text \<open>A closed multiplexer stays closed and empty: the only change to a waiter is that it fails.\<close>

definition closed_empty :: "multiplexer \<Rightarrow> bool" where
  "closed_empty m \<longleftrightarrow> m_closed m \<and> m_pending m = Map.empty \<and> m_correlated m = Map.empty"

definition only_fails :: "multiplexer \<Rightarrow> multiplexer \<Rightarrow> bool" where
  "only_fails m m' \<longleftrightarrow> m_inFlight m' = m_inFlight m \<and>
     (\<forall>w. m_waiters m' w = m_waiters m w \<or> m_waiters m' w = waiter_fail (m_waiters m w))"

lemma waiter_fail_fail: "waiter_fail (waiter_fail w) = waiter_fail w" "w_closed w \<Longrightarrow> w_ready w \<Longrightarrow> waiter_fail w = w"
  by (cases w; simp add: waiter_fail_def)+

lemma only_fails_trans:
  assumes "only_fails m m'" "only_fails m' m''"
  shows "only_fails m m''"
proof -
  have "m_waiters m'' w = m_waiters m w \<or> m_waiters m'' w = waiter_fail (m_waiters m w)" for w
    using assms waiter_fail_fail(1) unfolding only_fails_def by metis
  then show ?thesis using assms by (simp add: only_fails_def)
qed

lemma closed_call:
  "closed_empty (mux_call call m) = closed_empty m" "only_fails m (mux_call call m)" "closed_empty (dropFrame m) = closed_empty m" "only_fails m (dropFrame m)"
  "only_fails m m"
  by (simp_all add: mux_call_def dropFrame_def closed_empty_def only_fails_def)

lemma closed_handlers:
  "handleKVNotify p h m = Ok m' \<Longrightarrow> closed_empty m \<Longrightarrow> closed_empty m' \<and> only_fails m m'"
  "handleNotify p h m = Ok m' \<Longrightarrow> closed_empty m \<Longrightarrow> closed_empty m' \<and> only_fails m m'"
  "handleQueueNotify p h m = Ok m' \<Longrightarrow> closed_empty m \<Longrightarrow> closed_empty m' \<and> only_fails m m'"
  "closed_empty m \<Longrightarrow> closed_empty (handleRpcRequest p m) \<and> only_fails m (handleRpcRequest p m)"
  "handleRpcResponse p m = Ok m' \<Longrightarrow> closed_empty m \<Longrightarrow> closed_empty m' \<and> only_fails m m'"
      apply (auto simp: handleKVNotify_def bind_res_Ok_iff Let_def closed_call split: if_splits res.splits prod.splits)[1]
     apply (auto simp: handleNotify_def bind_res_Ok_iff Let_def closed_call split: if_splits res.splits prod.splits)[1]
    apply (auto simp: handleQueueNotify_def bind_res_Ok_iff Let_def closed_call split: if_splits res.splits prod.splits)[1]
   apply (simp add: handleRpcRequest_def closed_call split: option.split)
  apply (auto simp: handleRpcResponse_def bind_res_Ok_iff closed_call split: if_splits option.splits)
  done

lemma closed_sync:
  assumes "closed_empty m"
  shows "closed_empty (dispatch_sync t p m) \<and> only_fails m (dispatch_sync t p m)"
proof -
  have "m_pending m t = None" using assms by (simp add: closed_empty_def)
  then have "dispatch_sync t p m = (case m_rawPush m t of Some h \<Rightarrow> mux_call (RawPushCall h p) m | None \<Rightarrow> dropFrame m)"
    by (simp add: dispatch_sync_def dropFrame_def split: option.split)
  then show ?thesis using assms by (simp add: closed_call split: option.split)
qed

lemma closed_Dispatch:
  assumes "closed_empty m" "Dispatch t p m = Ok m'"
  shows "closed_empty m' \<and> only_fails m m'"
proof -
  have notify: "closed_empty m' \<and> only_fails m m'"
    if "with_notify f t p m = Ok m'" "\<And>h. f p h m = Ok m' \<Longrightarrow> closed_empty m' \<and> only_fails m m'" for f t
    using that assms(1) by (auto simp: with_notify_def only_fails_def split: option.splits)
  show ?thesis
    using assms(2) notify [OF _ closed_handlers(1) [OF _ assms(1)]] notify [OF _ closed_handlers(2) [OF _ assms(1)]]
      notify [OF _ closed_handlers(3) [OF _ assms(1)]] closed_handlers(4) [OF assms(1)] closed_handlers(5) [OF _ assms(1)] closed_sync [OF assms(1)]
    by (auto simp: Dispatch_def bind_res_Ok_iff split: if_splits)
qed

lemma closed_step: "mux_step m m' \<Longrightarrow> closed_empty m \<Longrightarrow> closed_empty m' \<and> only_fails m m'"
proof (induction rule: mux_step.induct)
  case (dispatch t p m m')
  then show ?case using closed_Dispatch by blast
qed (auto simp: closed_empty_def only_fails_def RegisterRequestWaiter_def RegisterCorrelatedRequest_def UnregisterCorrelatedRequest_def
    UnregisterRequestWaiter_def AbandonRequestWaiter_def remove_request_def DispatchCorrelated_def mux_Close_def fail_waiter_def
    SetCapabilities_def NextCorrelationID_def LegacyLane_def SetNotifyHandler_def SetRawPushHandler_def SetRPCRequestHandler_def SetRPCResponseHandler_def)

lemma closed_steps:
  assumes "mux_step\<^sup>*\<^sup>* m m'" "closed_empty m"
  shows "closed_empty m' \<and> only_fails m m'"
  using assms
proof (induction rule: rtranclp_induct)
  case (step y z)
  then show ?case using closed_step only_fails_trans by blast
qed (simp add: only_fails_def)

fun dispatch_all :: "u16 \<Rightarrow> bytes list \<Rightarrow> multiplexer \<Rightarrow> multiplexer res" where
  "dispatch_all t [] m = Ok m"
| "dispatch_all t (p # ps) m = bind_res (Dispatch t p m) (dispatch_all t ps)"

text \<open>A response: not one of the asynchronous messages, and of type 302 not a worker request.\<close>

definition sync_response :: "u16 \<Rightarrow> bytes \<Rightarrow> bool" where
  "sync_response t p \<longleftrightarrow>
     t \<notin> {111, 209, 409, 504, 609, 705} \<and> (t = 302 \<longrightarrow> looksLikeRpcWorkerRequest p = Ok False)"

lemma Dispatch_sync:
  assumes "mux_inv m" "slots_of t m \<noteq> []" "sync_response t p"
  shows "Dispatch t p m = Ok (dispatch_sync t p m)"
proof -
  have "t = 303 \<Longrightarrow> pending_count 303 m > 0"
    using assms(1,2) rq.count
    by (fastforce simp: pending_count_def slots_of_def mux_inv_def split: option.splits)
  then show ?thesis using assms(3) by (auto simp: Dispatch_def sync_response_def)
qed

lemma dispatch_all_slots:
  assumes "mux_inv m" "length ps \<le> length (slots_of t m)" "\<forall>p\<in>set ps. sync_response t p"
  shows "\<exists>m'. dispatch_all t ps m = Ok m' \<and> mux_inv m' \<and>
    slots_of t m' = drop (length ps) (slots_of t m) \<and> m_calls m' = m_calls m \<and>
    (\<forall>i<length ps. \<forall>w. req_waiter (slots_of t m ! i) = Some w \<longrightarrow>
       m_waiters m' w = waiter_deliver (ps ! i) (m_waiters m w)) \<and>
    (\<forall>w. w \<notin> set (waiters (take (length ps) (slots_of t m))) \<longrightarrow> m_waiters m' w = m_waiters m w)"
  using assms
proof (induction ps arbitrary: m)
  case (Cons p ps)
  obtain r rs where rs: "slots_of t m = r # rs" using Cons.prems(2) by (cases "slots_of t m") auto
  let ?m = "dispatch_sync t p m"
  note d = dispatch_sync_slot [OF Cons.prems(1) rs, where p = p]
  have disp: "Dispatch t p m = Ok ?m" using Dispatch_sync Cons.prems rs by simp
  have dist: "distinct (waiters (r # rs))" using distinct_waiters_of [OF Cons.prems(1)] rs by metis
  obtain m' where m': "dispatch_all t ps ?m = Ok m'" "mux_inv m'"
    "slots_of t m' = drop (length ps) rs" "m_calls m' = m_calls m"
    "\<forall>i<length ps. \<forall>w. req_waiter (rs ! i) = Some w \<longrightarrow> m_waiters m' w = waiter_deliver (ps ! i) (m_waiters ?m w)"
    "\<forall>w. w \<notin> set (waiters (take (length ps) rs)) \<longrightarrow> m_waiters m' w = m_waiters ?m w"
    using Cons.IH [of ?m] Cons.prems rs d by auto
  have tl: "w \<notin> set (waiters rs)" if "req_waiter r = Some w" for w using dist that by simp
  have sub: "set (waiters (take k rs)) \<subseteq> set (waiters rs)" for k
    using set_take_subset [of k rs] by (fastforce simp: set_waiters)
  have "m_waiters m' w = waiter_deliver ((p # ps) ! i) (m_waiters m w)"
    if i: "i < length (p # ps)" "req_waiter ((r # rs) ! i) = Some w" for i w
  proof (cases i)
    case 0
    then have w: "req_waiter r = Some w" using i by simp
    then have "w \<notin> set (waiters (take (length ps) rs))" using tl sub by blast
    then show ?thesis using m'(6) d(2) w 0 by simp
  next
    case (Suc j)
    then have j: "j < length ps" "req_waiter (rs ! j) = Some w" using i by simp_all
    moreover have "rs ! j \<in> set rs" using j Cons.prems(2) rs by simp
    ultimately have "w \<in> set (waiters rs)" by (auto simp: set_waiters)
    then have "req_waiter r \<noteq> Some w" using tl by blast
    then have "m_waiters ?m w = m_waiters m w" using d(2) by (auto split: option.splits)
    then show ?thesis using m'(5) j Suc by simp
  qed
  moreover have "m_waiters m' w = m_waiters m w"
    if "w \<notin> set (waiters (take (length (p # ps)) (r # rs)))" for w
    using that m'(6) d(2) by (auto split: option.splits)
  ultimately show ?case using disp m' rs by simp
qed simp

section \<open>Properties\<close>

text \<open>C1: Responses in request order. While at least as many requests of a type are pending as
  responses arrive, dispatching the responses never fails, consumes that many slots, and gives the
  i-th response to the waiter of the i-th slot, where there is one (an abandoned request's slot
  swallows its response); no other waiter and no handler is touched.\<close>

theorem responses_in_request_order:
  assumes "mux_reachable m" "length ps \<le> length (slots_of t m)" "\<forall>p\<in>set ps. sync_response t p"
  shows "\<exists>m'. dispatch_all t ps m = Ok m' \<and>
    slots_of t m' = drop (length ps) (slots_of t m) \<and> m_calls m' = m_calls m \<and>
    (\<forall>i<length ps. \<forall>w. req_waiter (slots_of t m ! i) = Some w \<longrightarrow>
       m_waiters m' w = waiter_deliver (ps ! i) (m_waiters m w)) \<and>
    (\<forall>w. w \<notin> set (waiters (take (length ps) (slots_of t m))) \<longrightarrow> m_waiters m' w = m_waiters m w)"
  using dispatch_all_slots [OF mux_reachable_inv [OF assms(1)] assms(2,3)] by blast

definition idle_heap :: "waiter \<Rightarrow> requestWaiter" where
  "idle_heap w = \<lparr>w_response = [], w_hasResponse = False, w_closed = False, w_ready = False\<rparr>"

definition two_pending :: multiplexer where
  "two_pending = RegisterRequestWaiter 100 20 None (RegisterRequestWaiter 100 10 None (NewMultiplexer idle_heap))"

lemma slots_new [simp]: "slots_of t (NewMultiplexer h) = []" "\<not> m_closed (NewMultiplexer h)"
  by (simp_all add: slots_of_def NewMultiplexer_def)

lemma two_pending_slots:
  "mux_reachable two_pending"
  "slots_of t two_pending = (if t = 100 then [request_of 10, request_of 20] else [])"
  "m_waiters two_pending = idle_heap" "\<not> m_closed two_pending"
  "m_correlated two_pending = Map.empty"
proof -
  let ?m1 = "RegisterRequestWaiter 100 10 None (NewMultiplexer idle_heap)"
  note s1 = register_fresh(2) [OF NewMultiplexer_inv [of idle_heap], of 10 100 _ None, simplified]
  have c1: "\<not> m_closed ?m1" by (simp add: RegisterRequestWaiter_def NewMultiplexer_def)
  have i1: "mux_inv ?m1" by (simp add: register_inv NewMultiplexer_inv)
  show "slots_of t two_pending = (if t = 100 then [request_of 10, request_of 20] else [])"
    unfolding two_pending_def using register_fresh(2) [OF i1 _ c1, of 20 100 t None] s1
    by (simp add: request_of_def)
  have "mux_reachable ?m1"
    by (rule mux_reachable.step [OF mux_reachable.init]) (rule mux_step.register, simp)
  then show "mux_reachable two_pending"
    unfolding two_pending_def
    by (rule mux_reachable.step) (rule mux_step.register, simp add: s1)
  show "m_waiters two_pending = idle_heap" "\<not> m_closed two_pending"
    "m_correlated two_pending = Map.empty"
    by (simp_all add: two_pending_def RegisterRequestWaiter_def NewMultiplexer_def)
qed

lemma sync_100: "sync_response 100 p"
  by (simp add: sync_response_def)

theorem responses_in_request_order_witness:
  "\<exists>m'. dispatch_all 100 [[7], [8]] two_pending = Ok m' \<and> slots_of 100 m' = [] \<and>
    w_response (m_waiters m' 10) = [7] \<and> w_response (m_waiters m' 20) = [8]"
proof -
  obtain m' where m': "dispatch_all 100 [[7], [8]] two_pending = Ok m'" "slots_of 100 m' = []"
    "\<forall>i<Suc (Suc 0). \<forall>w. req_waiter ([request_of 10, request_of 20] ! i) = Some w \<longrightarrow>
       m_waiters m' w = waiter_deliver ([[7], [8]] ! i) (idle_heap w)"
    using responses_in_request_order [of two_pending "[[7], [8]]" 100]
    by (auto simp: two_pending_slots sync_100)
  have "m_waiters m' 10 = waiter_deliver [7] (idle_heap 10)" "m_waiters m' 20 = waiter_deliver [8] (idle_heap 20)"
    using m'(3) [rule_format, of 0 10] m'(3) [rule_format, of 1 20] by (simp_all add: request_of_def)
  then show ?thesis using m' by (simp add: waiter_deliver_def)
qed

definition bury :: "waiter \<Rightarrow> pendingRequest \<Rightarrow> pendingRequest" where
  "bury w r = (if req_waiter r = Some w then tombstone else r)"

lemma slots_remove_bury:
  "distinct (waiters rs) \<Longrightarrow> snd (slots_remove w True rs) = map (bury w) rs"
proof (induction rs)
  case (Cons r rs)
  have "map (bury w) rs = rs" if "w \<notin> set (waiters rs)"
    using that by (intro map_idI) (auto simp: bury_def set_waiters)
  then show ?case using Cons by (auto simp: bury_def [of w r] split: option.splits)
qed simp

lemma bury_waiter: "req_waiter (bury w r) = Some w' \<longleftrightarrow> w' \<noteq> w \<and> req_waiter r = Some w'"
  by (auto simp: bury_def)

text \<open>C6: Abandoning a request. A canceled request leaves a tombstone in its slot, so a late response
  reaches nobody and the responses after it are not shifted: every other pending request still gets
  the response at its own position, and the abandoned waiter is never written to.\<close>

theorem abandoned_response_is_swallowed:
  assumes "mux_reachable m" "w \<in> set (waiters (slots_of t m))"
    "length ps \<le> length (slots_of t m)" "\<forall>p\<in>set ps. sync_response t p"
  shows "fst (AbandonRequestWaiter t w m) \<and>
    (\<exists>m'. dispatch_all t ps (snd (AbandonRequestWaiter t w m)) = Ok m' \<and>
      m_waiters m' w = m_waiters m w \<and>
      (\<forall>i<length ps. \<forall>w'. w' \<noteq> w \<longrightarrow> req_waiter (slots_of t m ! i) = Some w' \<longrightarrow>
         m_waiters m' w' = waiter_deliver (ps ! i) (m_waiters m w')))"
proof -
  note inv = mux_reachable_inv [OF assms(1)]
  let ?m = "snd (AbandonRequestWaiter t w m)"
  note rem = remove_request_slots [OF inv, where keep = True and t = t and w = w, folded AbandonRequestWaiter_def]
  have sl: "slots_of t ?m = map (bury w) (slots_of t m)"
    using rem(2) [of t] slots_remove_bury [OF distinct_waiters_of [OF inv]] by simp
  obtain m' where m': "dispatch_all t ps ?m = Ok m'"
    "\<forall>i<length ps. \<forall>w'. req_waiter (slots_of t ?m ! i) = Some w' \<longrightarrow>
       m_waiters m' w' = waiter_deliver (ps ! i) (m_waiters m w')"
    "\<forall>w'. w' \<notin> set (waiters (take (length ps) (slots_of t ?m))) \<longrightarrow> m_waiters m' w' = m_waiters m w'"
    using dispatch_all_slots [OF rem(4) _ assms(4)] assms(3) sl rem(3) by auto
  have "w \<notin> set (waiters (take (length ps) (slots_of t ?m)))"
    by (auto simp: sl set_waiters take_map bury_waiter)
  moreover have "req_waiter (slots_of t ?m ! i) = Some w'"
    if "i < length ps" "w' \<noteq> w" "req_waiter (slots_of t m ! i) = Some w'" for i w'
    using that assms(3) by (simp add: sl bury_waiter)
  ultimately show ?thesis using m' rem(1) assms(2) by auto
qed

theorem abandoned_response_is_swallowed_witness:
  "fst (AbandonRequestWaiter 100 10 two_pending) \<and>
   (\<exists>m'. dispatch_all 100 [[7], [8]] (snd (AbandonRequestWaiter 100 10 two_pending)) = Ok m' \<and>
      w_hasResponse (m_waiters m' 10) = False \<and> w_response (m_waiters m' 20) = [8])"
proof -
  have w: "10 \<in> set (waiters (slots_of 100 two_pending))"
    by (simp add: two_pending_slots request_of_def)
  obtain m' where m': "fst (AbandonRequestWaiter 100 10 two_pending)"
    "dispatch_all 100 [[7], [8]] (snd (AbandonRequestWaiter 100 10 two_pending)) = Ok m'"
    "m_waiters m' 10 = idle_heap 10"
    "\<forall>i<length [[7 :: u8], [8]]. \<forall>w'. w' \<noteq> 10 \<longrightarrow>
       req_waiter ([request_of 10, request_of 20] ! i) = Some w' \<longrightarrow>
       m_waiters m' w' = waiter_deliver ([[7], [8]] ! i) (idle_heap w')"
    using abandoned_response_is_swallowed [OF two_pending_slots(1) w, of "[[7], [8]]"]
    by (auto simp: two_pending_slots(2,3) sync_100)
  have "m_waiters m' 20 = waiter_deliver [8] (idle_heap 20)"
    using m'(4) [rule_format, of 1 20] by (simp add: request_of_def)
  then show ?thesis using m'(1-3) by (simp add: waiter_deliver_def idle_heap_def)
qed

text \<open>C9: Request accounting. In every reachable state of an open multiplexer the in-flight counter is
  the number of waiters in the per-type queues plus the number of correlation entries; no waiter holds
  two slots of one type; and a closed multiplexer holds no request.\<close>

theorem in_flight_accounting:
  assumes "mux_reachable m"
  shows "(if m_closed m then m_pending m = Map.empty \<and> m_correlated m = Map.empty
      else m_inFlight m = accounted m) \<and>
    distinct (waiters (slots_of t m)) \<and> pending_count t m = int (length (slots_of t m))"
proof -
  note inv = mux_reachable_inv [OF assms]
  have "pending_count t m = int (length (slots_of t m))"
    using inv rq.count by (auto simp: pending_count_def slots_of_def mux_inv_def split: option.splits)
  then show ?thesis using inv distinct_waiters_of [OF inv] by (simp add: mux_inv_def)
qed

theorem in_flight_accounting_witness:
  "m_inFlight two_pending = accounted two_pending \<and> pending_count 100 two_pending = 2"
  using in_flight_accounting [OF two_pending_slots(1), of 100]
  by (simp add: two_pending_slots(2,4))

text \<open>C10: Shutdown. Closing an open multiplexer wakes every waiter that was pending in a queue or under
  a correlation id with the closed mark, touches no other waiter and forgets all requests. Whatever is called on it
  afterwards, the waiters that were woken stay failed, no request is pending, and a registration of either kind wakes its
  waiter at once with the closed mark: nobody is left waiting.\<close>

theorem close_fails_every_waiter:
  assumes "mux_reachable m" "\<not> m_closed m"
    "enumerates types (m_pending m)" "enumerates corrs (m_correlated m)"
    "m' = mux_Close types corrs m" "mux_step\<^sup>*\<^sup>* m' m''"
  shows "(\<forall>w. m_waiters m' w =
      (if (\<exists>t. w \<in> set (waiters (slots_of t m))) \<or>
          (\<exists>i r. m_correlated m i = Some r \<and> req_waiter r = Some w)
       then waiter_fail (m_waiters m w) else m_waiters m w)) \<and>
    (\<forall>w. w_closed (m_waiters m' w) \<and> w_ready (m_waiters m' w) \<longrightarrow> m_waiters m'' w = m_waiters m' w) \<and>
    (\<forall>t. slots_of t m'' = []) \<and> m_correlated m'' = Map.empty \<and>
    (\<forall>t w c. m_waiters (RegisterRequestWaiter t w c m'') = (m_waiters m'')(w := waiter_fail (m_waiters m'' w))) \<and>
    (\<forall>i w. RegisterCorrelatedRequest i w m'' = (False, m''\<lparr>m_waiters := (m_waiters m'')(w := waiter_fail (m_waiters m'' w))\<rparr>))"
proof -
  note cl = mux_Close_effect [OF mux_reachable_inv [OF assms(1)] assms(2-4), folded assms(5)]
  have c: "closed_empty m''" "only_fails m' m''" using closed_steps [OF assms(6)] cl(3-5) by (simp_all add: closed_empty_def)
  have "m_waiters m'' w = m_waiters m' w" if "w_closed (m_waiters m' w)" "w_ready (m_waiters m' w)" for w
    using c(2) waiter_fail_fail(2) [OF that] unfolding only_fails_def by metis
  moreover have "m_closed m''" "m_pending m'' = Map.empty" "m_correlated m'' = Map.empty" using c(1) by (simp_all add: closed_empty_def)
  ultimately show ?thesis using cl(1)
    by (simp add: slots_of_def RegisterRequestWaiter_def RegisterCorrelatedRequest_def fail_waiter_def)
qed

lemma two_pending_enumerates:
  "enumerates [100] (m_pending two_pending)" "enumerates [] (m_correlated two_pending)"
  by (auto simp: enumerates_def two_pending_def RegisterRequestWaiter_def NewMultiplexer_def)

theorem close_fails_every_waiter_witness:
  "w_closed (m_waiters (mux_Close [100] [] two_pending) 10) \<and>
   \<not> w_closed (m_waiters (mux_Close [100] [] two_pending) 30)"
  using close_fails_every_waiter [OF two_pending_slots(1,4) two_pending_enumerates refl rtranclp.rtrancl_refl]
  by (simp add: two_pending_slots(2,3,5) request_of_def waiter_fail_def idle_heap_def)

text \<open>Correlated requests. A request registered under an id gets the payload of the final response
  with that id, exactly once: partial responses leave it waiting, after the final one the id is unknown,
  and no other waiter is touched. If it was unregistered meanwhile, the final response only settles the
  in-flight counter.\<close>

theorem correlated_exactly_once:
  assumes "RegisterCorrelatedRequest i w m = (True, m1)"
  shows "(\<exists>m2. DispatchCorrelated i p True m1 = (True, m2) \<and>
       m_waiters m2 = (m_waiters m)(w := waiter_deliver p (m_waiters m w)) \<and>
       m_inFlight m2 = m_inFlight m \<and> DispatchCorrelated i p' final m2 = (False, m2)) \<and>
    DispatchCorrelated i p False m1 = (True, m1) \<and>
    (\<exists>m3 m4. UnregisterCorrelatedRequest i w m1 = (True, m3) \<and>
       DispatchCorrelated i p True m3 = (True, m4) \<and>
       m_waiters m4 = m_waiters m \<and> m_inFlight m4 = m_inFlight m)"
  using assms
  by (auto simp: RegisterCorrelatedRequest_def DispatchCorrelated_def UnregisterCorrelatedRequest_def
    deliver_to_def Let_def split: if_splits)

definition one_correlated :: multiplexer where
  "one_correlated = snd (RegisterCorrelatedRequest 1 10 (NewMultiplexer idle_heap))"

lemma one_correlated:
  "RegisterCorrelatedRequest 1 10 (NewMultiplexer idle_heap) = (True, one_correlated)"
  "mux_reachable one_correlated" "\<not> m_closed one_correlated" "enumerates [] (m_pending one_correlated)"
  "enumerates [1] (m_correlated one_correlated)"
  using mux_reachable.step [OF mux_reachable.init mux_step.register_correlated]
  by (auto simp: one_correlated_def RegisterCorrelatedRequest_def NewMultiplexer_def enumerates_def)

theorem correlated_exactly_once_witness:
  "w_response (m_waiters (snd (DispatchCorrelated 1 [7] True one_correlated)) 10) = [7]"
  using correlated_exactly_once [OF one_correlated(1), of "[7]" "[]" True]
  by (auto simp: waiter_deliver_def)

text \<open>C14: The in-flight metric after shutdown. Closing settles the counter for the requests in the
  queues only: afterwards it is the number of requests that were outstanding under a correlation id,
  and no sequence of later calls changes it.\<close>

theorem close_leaks_correlated_in_flight:
  assumes "mux_reachable m" "\<not> m_closed m"
    "enumerates types (m_pending m)" "enumerates corrs (m_correlated m)" "mux_step\<^sup>*\<^sup>* (mux_Close types corrs m) m''"
  shows "m_inFlight m'' = int (length corrs)"
proof -
  note cl = mux_Close_effect [OF mux_reachable_inv [OF assms(1)] assms(2-4)]
  have "only_fails (mux_Close types corrs m) m''" using closed_steps [OF assms(5)] cl(3-5) by (simp add: closed_empty_def)
  then show ?thesis using cl(2) assms(4) by (simp add: only_fails_def enumerates_def distinct_card [symmetric])
qed

theorem close_leaks_correlated_in_flight_witness:
  "m_inFlight (mux_Close [] [1] one_correlated) = 1"
  using close_leaks_correlated_in_flight [OF one_correlated(2-5) rtranclp.rtrancl_refl] by simp

lemma sub_route_head:
  "fits_u32 r \<Longrightarrow> sub_route (notify_head s r @ rest) = Ok (s, r, 12 + length r)"
  by (subst sub_route_iff) simp

lemma sub_route_OkE:
  assumes "sub_route p = Ok (s, r, off)"
  obtains rest where "fits_u32 r" "p = notify_head s r @ rest" "off = 12 + length r" "off \<le> length p"
    "rest = drop off p"
  using assms unfolding sub_route_iff by blast

lemma notify_called:
  "fits_u32 r \<Longrightarrow> fits_u32 b \<Longrightarrow>
   handleNotify (notify_head s r @ len_prefixed b @ rest) h m = Ok (mux_call (NotifyCall h s r b) m)"
  "fits_u32 r \<Longrightarrow> length n = 8 \<Longrightarrow>
   handleKVNotify (notify_head s r @ n) h m = Ok (mux_call (NotifyCall h s r n) m)"
  "fits_u32 r \<Longrightarrow> length n = 24 \<Longrightarrow>
   handleQueueNotify (notify_head s r @ n) h m = Ok (mux_call (NotifyCall h s r n) m)"
  using bytesc.read_appended [of b "notify_head s r" rest]
  by (simp_all add: handleNotify_fields sub_route_head)

lemma notify_dropped:
  "\<nexists>s r b rest. fits_u32 r \<and> fits_u32 b \<and> p = notify_head s r @ len_prefixed b @ rest \<Longrightarrow>
   handleNotify p h m = Ok (dropFrame m)"
  "\<nexists>s r n. fits_u32 r \<and> length n = 8 \<and> p = notify_head s r @ n \<Longrightarrow> handleKVNotify p h m = Ok (dropFrame m)"
  "\<nexists>s r n. fits_u32 r \<and> length n = 24 \<and> p = notify_head s r @ n \<Longrightarrow> handleQueueNotify p h m = Ok (dropFrame m)"
proof -
  assume no: "\<nexists>s r b rest. fits_u32 r \<and> fits_u32 b \<and> p = notify_head s r @ len_prefixed b @ rest"
  have "ReadBytes p off \<noteq> Ok (b, e)" if sr: "sub_route p = Ok (s, r, off)" for s r off b e
  proof
    assume b: "ReadBytes p off = Ok (b, e)"
    obtain rest where r: "fits_u32 r" "p = notify_head s r @ rest" "off \<le> length p" "rest = drop off p"
      using sub_route_OkE [OF sr] by blast
    have "fits_u32 b" "rest = len_prefixed b @ drop e p" using bytesc.read_Ok [OF r(3) b] r(4) by auto
    with no r(1,2) show False by blast
  qed
  then have nb: "\<And>s r off b e. sub_route p = Ok (s, r, off) \<Longrightarrow> ReadBytes p off \<noteq> Ok (b, e)" by blast
  show "handleNotify p h m = Ok (dropFrame m)"
  proof (cases "sub_route p")
    case (Ok x)
    obtain s r off where x: "x = (s, r, off)" by (cases x)
    show ?thesis
      using nb [OF Ok [unfolded x]] by (cases "ReadBytes p off") (auto simp: handleNotify_fields Ok x)
  qed (simp_all add: handleNotify_fields)
next
  assume no: "\<nexists>s r n. fits_u32 r \<and> length n = 8 \<and> p = notify_head s r @ n"
  have "length p \<noteq> off + 8" if sr: "sub_route p = Ok (s, r, off)" for s r off
    using sub_route_OkE [OF sr] no by (metis add_diff_cancel_left' length_drop)
  then show "handleKVNotify p h m = Ok (dropFrame m)"
    by (auto simp: handleNotify_fields split: res.split)
next
  assume no: "\<nexists>s r n. fits_u32 r \<and> length n = 24 \<and> p = notify_head s r @ n"
  have "length p \<noteq> off + 24" if sr: "sub_route p = Ok (s, r, off)" for s r off
    using sub_route_OkE [OF sr] no by (metis add_diff_cancel_left' length_drop)
  then show "handleQueueNotify p h m = Ok (dropFrame m)"
    by (auto simp: handleNotify_fields split: res.split)
qed

lemma exact_shape3:
  assumes "\<And>x y z. P x y z \<Longrightarrow> f = Ok (g x y z)" "\<nexists>x y z. P x y z \<Longrightarrow> f = Ok d"
  shows "f = Ok m' \<longleftrightarrow> (if \<exists>x y z. P x y z then \<exists>x y z. P x y z \<and> m' = g x y z else m' = d)"
  using assms by (cases "\<exists>x y z. P x y z") (auto, blast)

lemma exact_shape4:
  assumes "\<And>x y z u. P x y z u \<Longrightarrow> f = Ok (g x y z)" "\<nexists>x y z u. P x y z u \<Longrightarrow> f = Ok d"
  shows "f = Ok m' \<longleftrightarrow>
    (if \<exists>x y z u. P x y z u then \<exists>x y z u. P x y z u \<and> m' = g x y z else m' = d)"
  using assms by (cases "\<exists>x y z u. P x y z u") (auto, blast)

text \<open>Notifications. The shared-shape handler (lease, notice, stream, schedule) calls the
  subscriber exactly on payloads that carry a subscription id, a route and a length-prefixed body, and
  with those values; the KV and queue handlers exactly on a subscription id, a route and a rest of 8 or
  24 bytes; any other payload is counted as dropped.\<close>

theorem notify_shapes_exact:
  "(handleNotify p h m = Ok m' \<longleftrightarrow>
      (if \<exists>s r b rest. fits_u32 r \<and> fits_u32 b \<and> p = notify_head s r @ len_prefixed b @ rest
       then \<exists>s r b rest. fits_u32 r \<and> fits_u32 b \<and> p = notify_head s r @ len_prefixed b @ rest \<and>
              m' = mux_call (NotifyCall h s r b) m
       else m' = dropFrame m)) \<and>
   (handleKVNotify p h m = Ok m' \<longleftrightarrow>
      (if \<exists>s r n. fits_u32 r \<and> length n = 8 \<and> p = notify_head s r @ n
       then \<exists>s r n. fits_u32 r \<and> length n = 8 \<and> p = notify_head s r @ n \<and>
              m' = mux_call (NotifyCall h s r n) m
       else m' = dropFrame m)) \<and>
   (handleQueueNotify p h m = Ok m' \<longleftrightarrow>
      (if \<exists>s r n. fits_u32 r \<and> length n = 24 \<and> p = notify_head s r @ n
       then \<exists>s r n. fits_u32 r \<and> length n = 24 \<and> p = notify_head s r @ n \<and>
              m' = mux_call (NotifyCall h s r n) m
       else m' = dropFrame m))"
  using
    exact_shape4 [where P = "\<lambda>s r b rest. fits_u32 r \<and> fits_u32 b \<and> p = notify_head s r @ len_prefixed b @ rest"
      and g = "\<lambda>s r b. mux_call (NotifyCall h s r b) m", OF _ notify_dropped(1) [of p h m], where m' = m']
    exact_shape3 [where P = "\<lambda>s r n. fits_u32 r \<and> length n = 8 \<and> p = notify_head s r @ n"
      and g = "\<lambda>s r n. mux_call (NotifyCall h s r n) m", OF _ notify_dropped(2) [of p h m], where m' = m']
    exact_shape3 [where P = "\<lambda>s r n. fits_u32 r \<and> length n = 24 \<and> p = notify_head s r @ n"
      and g = "\<lambda>s r n. mux_call (NotifyCall h s r n) m", OF _ notify_dropped(3) [of p h m], where m' = m']
    notify_called [where h = h and m = m]
  unfolding conj_assoc by blast

fun next_ids :: "nat \<Rightarrow> multiplexer \<Rightarrow> u64 list \<times> multiplexer" where
  "next_ids 0 m = ([], m)"
| "next_ids (Suc n) m = (let (i, m1) = NextCorrelationID m; (is, m2) = next_ids n m1 in (i # is, m2))"

lemma unat_not_zero: "unat (NOT 0 :: u64) = 2 ^ 64 - 1"
  by (simp add: unsigned_minus_1_eq_mask mask_eq_exp_minus_1)

lemma unat_succ:
  assumes "x \<noteq> NOT 0" shows "unat (x + 1 :: u64) = unat x + 1"
proof -
  have "unat x \<noteq> 2 ^ 64 - 1" using assms unat_not_zero by (metis word_unat_eq_iff)
  then have "unat x + 1 < 2 ^ 64" using unsigned_less [of x, where 'a = nat] by simp
  then show ?thesis by (simp add: unat_word_ariths)
qed

text \<open>Correlation ids. Successive calls return consecutive ids from one above the last one, all
  distinct and non-zero, and once the 64-bit space is used up they return zero for ever: an id is never
  handed out twice in a session.\<close>

theorem correlation_ids_never_repeat:
  "map unat (fst (next_ids n m)) =
     map (\<lambda>k. if unat (m_nextID m) + Suc k < 2 ^ 64 then unat (m_nextID m) + Suc k else 0) [0..<n]"
proof (induction n arbitrary: m)
  case (Suc n)
  show ?case
  proof (cases "m_nextID m = NOT 0")
    case True
    then have "unat (m_nextID m) = 2 ^ 64 - 1" using unat_not_zero by metis
    then show ?thesis using True Suc [of m]
      by (simp add: NextCorrelationID_def case_prod_beta map_upt_Suc del: upt_Suc)
  next
    case False
    then have "unat (m_nextID m + 1) = unat (m_nextID m) + 1" by (simp add: unat_succ)
    then show ?thesis using unsigned_less [of "m_nextID m + 1", where 'a = nat] False Suc [of "m\<lparr>m_nextID := m_nextID m + 1\<rparr>"]
      by (simp add: NextCorrelationID_def case_prod_beta map_upt_Suc del: upt_Suc)
  qed
qed simp

end
