(* ===== verification/Go_Strings.thy ===== *)
theory Go_Strings
  imports Core_Errors
begin

text \<open>
  The functions of Go's \<open>strings\<close> and \<open>strconv\<close> packages the sources call. A string is its bytes; a
  byte outside ASCII is the lead or a continuation of a UTF-8 sequence, and no byte sequence of
  one character occurs inside another, so characters are recognised by their byte sequences.
\<close>

section \<open>Searching\<close>

definition strings_HasPrefix :: "string \<Rightarrow> string \<Rightarrow> bool" where
  "strings_HasPrefix s p \<longleftrightarrow> take (length p) s = p"

fun strings_Contains :: "string \<Rightarrow> string \<Rightarrow> bool" where
  "strings_Contains [] sub \<longleftrightarrow> sub = []"
| "strings_Contains (c # cs) sub \<longleftrightarrow> take (length sub) (c # cs) = sub \<or> strings_Contains cs sub"

definition strings_TrimPrefix :: "string \<Rightarrow> string \<Rightarrow> string" where
  "strings_TrimPrefix s p = (if strings_HasPrefix s p then drop (length p) s else s)"

text \<open>\<open>strings.Split(s, sep)\<close> for a separator of one byte; never empty.\<close>

fun strings_Split :: "char \<Rightarrow> string \<Rightarrow> string list" where
  "strings_Split sep [] = [[]]"
| "strings_Split sep (c # cs) =
     (if c = sep then [] # strings_Split sep cs
      else case strings_Split sep cs of [] \<Rightarrow> [[c]] | w # ws \<Rightarrow> (c # w) # ws)"

lemma strings_Contains_iff: "strings_Contains s sub \<longleftrightarrow> (\<exists>a b. s = a @ sub @ b)"
proof (induction s)
  case Nil
  then show ?case by auto
next
  case (Cons c cs)
  have "take (length sub) (c # cs) = sub \<longleftrightarrow> (\<exists>b. c # cs = sub @ b)"
    by (metis append_eq_conv_conj append_take_drop_id)
  moreover have "(\<exists>a b. c # cs = a @ sub @ b) \<longleftrightarrow>
      (\<exists>b. c # cs = sub @ b) \<or> (\<exists>a b. cs = a @ sub @ b)"
    by (metis append_Cons append_Nil list.exhaust list.inject)
  ultimately show ?case using Cons by simp
qed

lemma strings_Split_not_Nil [simp]: "strings_Split sep s \<noteq> []"
  by (cases s) (auto split: list.splits)

section \<open>Case\<close>

definition lower_char :: "char \<Rightarrow> char" where
  "lower_char c = (let n = (of_char c :: nat) in if 65 \<le> n \<and> n \<le> 90 then char_of (n + 32) else c)"

definition upper_char :: "char \<Rightarrow> char" where
  "upper_char c = (let n = (of_char c :: nat) in if 97 \<le> n \<and> n \<le> 122 then char_of (n - 32) else c)"

text \<open>
  \<open>strings.ToLower\<close>. Two characters outside ASCII have an ASCII lower case: the Kelvin sign
  (\<open>E2 84 AA\<close>, lower case \<open>k\<close>) and the dotted capital I (\<open>C4 B0\<close>, lower case \<open>i\<close>). The other
  characters outside ASCII keep their bytes here: their lower case is outside ASCII too, and the
  sources only search the result for ASCII texts.
\<close>

fun strings_ToLower :: "string \<Rightarrow> string" where
  "strings_ToLower [] = []"
| "strings_ToLower (c # cs) =
     (if take 3 (c # cs) = [CHR 0xE2, CHR 0x84, CHR 0xAA] then CHR ''k'' # strings_ToLower (drop 2 cs)
      else if take 2 (c # cs) = [CHR 0xC4, CHR 0xB0] then CHR ''i'' # strings_ToLower (drop 1 cs)
      else lower_char c # strings_ToLower cs)"

text \<open>
  \<open>strings.ToUpper\<close>, with the same reading: the long s (\<open>C5 BF\<close>) and the dotless i (\<open>C4 B1\<close>) are
  the two characters outside ASCII with an ASCII upper case.
\<close>

fun strings_ToUpper :: "string \<Rightarrow> string" where
  "strings_ToUpper [] = []"
| "strings_ToUpper (c # cs) =
     (if take 2 (c # cs) = [CHR 0xC5, CHR 0xBF] then CHR ''S'' # strings_ToUpper (drop 1 cs)
      else if take 2 (c # cs) = [CHR 0xC4, CHR 0xB1] then CHR ''I'' # strings_ToUpper (drop 1 cs)
      else upper_char c # strings_ToUpper cs)"

section \<open>White space\<close>

text \<open>\<open>space_len s\<close> is the number of bytes of the white space character \<open>s\<close> starts with, or 0.\<close>

definition white_spaces :: "string list" where
  "white_spaces =
     [[CHR 0x09], [CHR 0x0A], [CHR 0x0B], [CHR 0x0C], [CHR 0x0D], [CHR 0x20], [CHR 0xC2, CHR 0x85],
      [CHR 0xC2, CHR 0xA0], [CHR 0xE1, CHR 0x9A, CHR 0x80], [CHR 0xE2, CHR 0x80, CHR 0x80],
      [CHR 0xE2, CHR 0x80, CHR 0x81], [CHR 0xE2, CHR 0x80, CHR 0x82], [CHR 0xE2, CHR 0x80, CHR 0x83],
      [CHR 0xE2, CHR 0x80, CHR 0x84], [CHR 0xE2, CHR 0x80, CHR 0x85], [CHR 0xE2, CHR 0x80, CHR 0x86],
      [CHR 0xE2, CHR 0x80, CHR 0x87], [CHR 0xE2, CHR 0x80, CHR 0x88], [CHR 0xE2, CHR 0x80, CHR 0x89],
      [CHR 0xE2, CHR 0x80, CHR 0x8A], [CHR 0xE2, CHR 0x80, CHR 0xA8], [CHR 0xE2, CHR 0x80, CHR 0xA9],
      [CHR 0xE2, CHR 0x80, CHR 0xAF], [CHR 0xE2, CHR 0x81, CHR 0x9F], [CHR 0xE3, CHR 0x80, CHR 0x80]]"

definition space_len :: "string \<Rightarrow> nat" where
  "space_len s = (case find (strings_HasPrefix s) white_spaces of None \<Rightarrow> 0 | Some w \<Rightarrow> length w)"

text \<open>\<open>strings.Fields\<close>: \<open>word\<close> is the field being read.\<close>

function fields_loop :: "string \<Rightarrow> string \<Rightarrow> string list" where
  "fields_loop word [] = (if word = [] then [] else [word])"
| "fields_loop word (c # cs) =
     (if 0 < space_len (c # cs)
      then (if word = [] then [] else [word]) @ fields_loop [] (drop (space_len (c # cs)) (c # cs))
      else fields_loop (word @ [c]) cs)"
  by pat_completeness auto
termination by (relation "measure (\<lambda>(word, s). length s)") auto

definition strings_Fields :: "string \<Rightarrow> string list" where
  "strings_Fields s = fields_loop [] s"

text \<open>\<open>strings.TrimSpace\<close>: white space off the front, then off the back.\<close>

function trim_left :: "string \<Rightarrow> string" where
  "trim_left s = (if 0 < space_len s \<and> s \<noteq> [] then trim_left (drop (space_len s) s) else s)"
  by pat_completeness auto
termination by (relation "measure length") auto

definition space_suffix_len :: "string \<Rightarrow> nat" where
  "space_suffix_len s =
     (case find (\<lambda>w. length w \<le> length s \<and> drop (length s - length w) s = w) white_spaces of
        None \<Rightarrow> 0 | Some w \<Rightarrow> length w)"

function trim_right :: "string \<Rightarrow> string" where
  "trim_right s =
     (if 0 < space_suffix_len s \<and> s \<noteq> [] then trim_right (take (length s - space_suffix_len s) s) else s)"
  by pat_completeness auto
termination by (relation "measure length") (auto simp: Suc_le_eq)

declare trim_left.simps [simp del] trim_right.simps [simp del]

definition strings_TrimSpace :: "string \<Rightarrow> string" where
  "strings_TrimSpace s = trim_right (trim_left s)"

section \<open>Numbers\<close>

definition digit_value :: "char \<Rightarrow> nat option" where
  "digit_value c = (let n = (of_char c :: nat) in if 48 \<le> n \<and> n \<le> 57 then Some (n - 48) else None)"

fun digits_value :: "nat \<Rightarrow> string \<Rightarrow> nat option" where
  "digits_value acc [] = Some acc"
| "digits_value acc (c # cs) =
     (case digit_value c of None \<Rightarrow> None | Some d \<Rightarrow> digits_value (acc * 10 + d) cs)"

text \<open>\<open>strconv.Atoi\<close> on a 64-bit machine: an optional sign and at least one digit, in range.\<close>

definition strconv_Atoi :: "string \<Rightarrow> int option" where
  "strconv_Atoi s =
     (let neg = strings_HasPrefix s ''-''; signed = neg \<or> strings_HasPrefix s ''+'';
          ds = (if signed then drop 1 s else s)
      in if ds = [] then None
         else case digits_value 0 ds of
                None \<Rightarrow> None
              | Some n \<Rightarrow>
                  if neg then (if n \<le> 2 ^ 63 then Some (- int n) else None)
                  else (if n < 2 ^ 63 then Some (int n) else None))"

section \<open>Formatting\<close>

text \<open>
  \<open>%q\<close> and \<open>%d\<close> in the texts of errors. \<open>quoted\<close> escapes what is not printable ASCII the way
  \<open>strconv.Quote\<close> does for ASCII; it leaves other bytes as they are.
\<close>

definition hex_digit :: "nat \<Rightarrow> char" where
  "hex_digit n = char_of (if n < 10 then 48 + n else 87 + n)"

definition quote_char :: "char \<Rightarrow> string" where
  "quote_char ch =
     (let n = (of_char ch :: nat)
      in if n = 34 \<or> n = 92 then [CHR 0x5C, ch]
         else if 7 \<le> n \<and> n \<le> 13 then [CHR 0x5C, ''abtnvfr'' ! (n - 7)]
         else if n < 32 \<or> n = 127 then [CHR 0x5C, CHR ''x'', hex_digit (n div 16), hex_digit (n mod 16)]
         else [ch])"

definition quoted :: "string \<Rightarrow> string" where
  "quoted s = [CHR 0x22] @ concat (map quote_char s) @ [CHR 0x22]"

definition dec_int :: "int \<Rightarrow> string" where
  "dec_int i = (if i < 0 then CHR ''-'' # dec (nat (- i)) else dec (nat i))"

end
