(* ===== verification/Sub_Registry.thy ===== *)
theory Sub_Registry
  imports Go_Strings "HOL-Library.List_Lexorder" "HOL-Library.Char_ord"
begin

text \<open>
  The subscription registry the domain clients share
  (\<^verbatim>\<open>internal/core/subscriptions/registry.go\<close>): wire subscriptions by pattern and by broker id, local
  handlers with completions, and the restoration of all wire subscriptions after a reconnect. Entries
  and completions are shared by pointer in the code, so they live in heaps here. The parts of
  \<open>Subscribe\<close> and \<open>Restore\<close> that run under the lock are one definition each; the calls to the broker
  between them are arguments. A step relation interleaves the parts of concurrent calls. Waiting on the
  condition variable is a guard of the step. The scratch slices only save allocations.
\<close>

section \<open>State\<close>

record registration =
  reg_pattern :: string
  reg_handlerID :: u64
  reg_handler :: nat
  reg_completion :: nat

record entry =
  e_pattern :: string
  e_subID :: u64
  e_handlers :: "u64 \<rightharpoonup> registration"

record registry =
  r_byPattern :: "string \<rightharpoonup> nat"
  r_bySubID :: "u64 \<rightharpoonup> nat"
  r_entry :: "nat \<Rightarrow> entry"
  r_newEntry :: nat
  r_pending :: "string set"
  r_restoring :: bool
  r_nextHandlerID :: u64
  r_completion :: "nat \<Rightarrow> go_error option option"
  r_newCompletion :: nat

definition NewRegistry :: "(nat \<Rightarrow> entry) \<Rightarrow> registry" where
  "NewRegistry heap =
     \<lparr>r_byPattern = Map.empty, r_bySubID = Map.empty, r_entry = heap, r_newEntry = 0, r_pending = {},
      r_restoring = False, r_nextHandlerID = 0, r_completion = (\<lambda>_. None), r_newCompletion = 0\<rparr>"

section \<open>Completions and handler ids\<close>

definition NewCompletion :: "registry \<Rightarrow> nat \<times> registry" where
  "NewCompletion r =
     (r_newCompletion r,
      r\<lparr>r_completion := (r_completion r)(r_newCompletion r := None),
        r_newCompletion := r_newCompletion r + 1\<rparr>)"

text \<open>\<open>sync.Once\<close>: the first result stays.\<close>

definition Complete :: "nat \<Rightarrow> go_error option \<Rightarrow> registry \<Rightarrow> registry" where
  "Complete c err r =
     (case r_completion r c of
        None \<Rightarrow> r\<lparr>r_completion := (r_completion r)(c := Some err)\<rparr>
      | Some _ \<Rightarrow> r)"

definition nextHandler :: "registry \<Rightarrow> u64 \<times> registry" where
  "nextHandler r = (r_nextHandlerID r + 1, r\<lparr>r_nextHandlerID := r_nextHandlerID r + 1\<rparr>)"

definition update_entry :: "nat \<Rightarrow> (entry \<Rightarrow> entry) \<Rightarrow> registry \<Rightarrow> registry" where
  "update_entry e f r = r\<lparr>r_entry := (r_entry r)(e := f (r_entry r e))\<rparr>"

section \<open>Subscribe\<close>

datatype subscribe_outcome =
    SubAttached u64 u64
  | SubMustWait
  | SubMustCall

text \<open>The part before the wire call, entered with \<open>restoring\<close> false.\<close>

definition subscribe_enter :: "string \<Rightarrow> nat \<Rightarrow> registry \<Rightarrow> subscribe_outcome \<times> registry" where
  "subscribe_enter pattern handler r =
     (case r_byPattern r pattern of
        Some e \<Rightarrow>
          let (hid, r1) = nextHandler r;
              (c, r2) = NewCompletion r1;
              reg = \<lparr>reg_pattern = pattern, reg_handlerID = hid, reg_handler = handler, reg_completion = c\<rparr>;
              r3 = update_entry e (\<lambda>en. en\<lparr>e_handlers := (e_handlers en)(hid \<mapsto> reg)\<rparr>) r2
          in (SubAttached (e_subID (r_entry r3 e)) hid, r3)
      | None \<Rightarrow>
          if pattern \<in> r_pending r then (SubMustWait, r)
          else (SubMustCall, r\<lparr>r_pending := insert pattern (r_pending r)\<rparr>))"

text \<open>The part after the wire call, given its result.\<close>

definition subscribe_leave :: "string \<Rightarrow> nat \<Rightarrow> (go_error + u64) \<Rightarrow> registry \<Rightarrow> (u64 \<times> u64) res \<times> registry" where
  "subscribe_leave pattern handler result r0 =
     (let r = r0\<lparr>r_pending := r_pending r0 - {pattern}\<rparr> in
      case result of
        Inl e \<Rightarrow> (Err e, r)
      | Inr subID \<Rightarrow>
          if r_bySubID r subID \<noteq> None then (Err (ErrNew (''duplicate subscription_id '' @ dec (unat subID) @ '' for pattern '' @ quoted pattern)), r)
          else
            let (hid, r1) = nextHandler r;
                (c, r2) = NewCompletion r1;
                reg = \<lparr>reg_pattern = pattern, reg_handlerID = hid, reg_handler = handler, reg_completion = c\<rparr>;
                e = r_newEntry r2
            in (Ok (subID, hid),
                r2\<lparr>r_entry := (r_entry r2)(e := \<lparr>e_pattern = pattern, e_subID = subID, e_handlers = [hid \<mapsto> reg]\<rparr>),
                   r_newEntry := e + 1,
                   r_byPattern := (r_byPattern r2)(pattern \<mapsto> e),
                   r_bySubID := (r_bySubID r2)(subID \<mapsto> e)\<rparr>))"

section \<open>Unsubscribe, Clear and lookups\<close>

definition Unsubscribe :: "string \<Rightarrow> u64 \<Rightarrow> registry \<Rightarrow> bool \<times> registry" where
  "Unsubscribe pattern handlerID r =
     (case r_byPattern r pattern of
        None \<Rightarrow> (False, r)
      | Some e \<Rightarrow>
          (case e_handlers (r_entry r e) handlerID of
            None \<Rightarrow> (False, r)
          | Some handler \<Rightarrow>
              let r1 = Complete (reg_completion handler) None r;
                  r2 = update_entry e (\<lambda>en. en\<lparr>e_handlers := (e_handlers en)(handlerID := None)\<rparr>) r1
              in if e_handlers (r_entry r2 e) \<noteq> Map.empty then (False, r2)
                 else (True, r2\<lparr>r_byPattern := (r_byPattern r2)(pattern := None),
                                r_bySubID := (r_bySubID r2)(e_subID (r_entry r2 e) := None)\<rparr>)))"

text \<open>Go ranges over the maps in any order: completing handlers commutes, so the completed set suffices.\<close>

definition held_completions :: "registry \<Rightarrow> nat set" where
  "held_completions r = {reg_completion reg | p e h reg.
     r_byPattern r p = Some e \<and> e_handlers (r_entry r e) h = Some reg}"

definition Clear :: "registry \<Rightarrow> nat \<times> registry" where
  "Clear r =
     (card (dom (r_byPattern r)),
      r\<lparr>r_completion := (\<lambda>c. if c \<in> held_completions r \<and> r_completion r c = None then Some None
                            else r_completion r c),
        r_byPattern := Map.empty, r_bySubID := Map.empty\<rparr>)"

definition Handlers :: "u64 \<Rightarrow> registry \<Rightarrow> nat set" where
  "Handlers subID r =
     (case r_bySubID r subID of None \<Rightarrow> {} | Some e \<Rightarrow> reg_handler ` ran (e_handlers (r_entry r e)))"

definition Registrations :: "u64 \<Rightarrow> registry \<Rightarrow> registration set" where
  "Registrations subID r =
     (case r_bySubID r subID of None \<Rightarrow> {} | Some e \<Rightarrow> ran (e_handlers (r_entry r e)))"

definition Completion :: "string \<Rightarrow> u64 \<Rightarrow> registry \<Rightarrow> nat option" where
  "Completion pattern handlerID r =
     (case r_byPattern r pattern of
        None \<Rightarrow> None
      | Some e \<Rightarrow> map_option reg_completion (e_handlers (r_entry r e) handlerID))"

section \<open>Restore\<close>

definition join_errors :: "go_error list \<Rightarrow> go_error" where
  "join_errors es = errors_Join es"

text \<open>
  The wire phase: each pattern is subscribed once, so the broker is a function of the pattern. The
  result is the list of new ids, or the error and the subscriptions to undo.
\<close>

datatype restore_wire =
    Restored "(string \<times> u64) list"
  | RestoreFailed "(string \<times> u64) list" go_error

definition duplicate_restored :: "u64 \<Rightarrow> string \<Rightarrow> go_error" where
  "duplicate_restored subID p =
     ErrNew (''duplicate subscription_id '' @ dec (unat subID) @ '' while restoring pattern '' @ quoted p)"

fun restore_loop :: "(string \<Rightarrow> go_error + u64) \<Rightarrow> string list \<Rightarrow> (string \<times> u64) list \<Rightarrow> restore_wire" where
  "restore_loop wireSubscribe [] restored = Restored restored"
| "restore_loop wireSubscribe (p # ps) restored =
     (case wireSubscribe p of
        Inr subID \<Rightarrow>
          if subID \<in> snd ` set restored
          then RestoreFailed (restored @ [(p, subID)]) (duplicate_restored subID p)
          else restore_loop wireSubscribe ps (restored @ [(p, subID)])
      | Inl e \<Rightarrow> RestoreFailed restored e)"

fun rollback_loop ::
    "(string \<Rightarrow> u64 \<Rightarrow> go_error option) \<Rightarrow> (string \<times> u64) list \<Rightarrow> go_error option \<Rightarrow> go_error option" where
  "rollback_loop wireUnsubscribe [] err = err"
| "rollback_loop wireUnsubscribe ((p, s) # es) err =
     rollback_loop wireUnsubscribe es
       (case wireUnsubscribe p s of
          None \<Rightarrow> err
        | Some e \<Rightarrow> Some (join_errors (case err of None \<Rightarrow> [e] | Some e0 \<Rightarrow> [e0, e])))"

definition rollbackRestore ::
    "(string \<times> u64) list \<Rightarrow> (string \<Rightarrow> u64 \<Rightarrow> go_error option) option \<Rightarrow> go_error option \<times> (string \<times> u64) list" where
  "rollbackRestore es wireUnsubscribe =
     (case wireUnsubscribe of
        None \<Rightarrow> (None, [])
      | Some f \<Rightarrow>
          if es = [] then (None, [])
          else (rollback_loop f (rev es) None, rev es))"

definition sorted_patterns :: "registry \<Rightarrow> string list" where
  "sorted_patterns r = sorted_list_of_set (dom (r_byPattern r))"

definition restore_begin :: "registry \<Rightarrow> registry" where
  "restore_begin r = (if r_byPattern r = Map.empty then r else r\<lparr>r_restoring := True\<rparr>)"

text \<open>The commit: new ids into the entries collected at the beginning, and a new id map.\<close>

definition restore_commit :: "(nat \<times> u64) list \<Rightarrow> registry \<Rightarrow> registry" where
  "restore_commit es r =
     (let r' = fold (\<lambda>(e, s). update_entry e (\<lambda>en. en\<lparr>e_subID := s\<rparr>)) es r
      in r'\<lparr>r_bySubID := map_of (map (\<lambda>(e, s). (s, e)) es)\<rparr>)"

definition finishRestore :: "registry \<Rightarrow> registry" where
  "finishRestore r = (if r_restoring r then r\<lparr>r_restoring := False\<rparr> else r)"

text \<open>
  The whole call when nothing interferes, with the unsubscriptions it sent: it runs with \<open>restoring\<close> and \<open>pending\<close> clear.\<close>

definition Restore ::
    "(string \<Rightarrow> go_error + u64) \<Rightarrow> (string \<Rightarrow> u64 \<Rightarrow> go_error option) option \<Rightarrow> registry \<Rightarrow>
     go_error option \<times> (string \<times> u64) list \<times> registry" where
  "Restore wireSubscribe wireUnsubscribe r =
     (if r_byPattern r = Map.empty then (None, [], finishRestore r)
      else
        let r1 = restore_begin r;
            ps = sorted_patterns r1
        in case restore_loop wireSubscribe ps [] of
             Restored ids \<Rightarrow>
               (None, [], finishRestore (restore_commit (map (\<lambda>(p, s). (the (r_byPattern r1 p), s)) ids) r1))
           | RestoreFailed undo e \<Rightarrow>
               let (rollbackErr, calls) = rollbackRestore undo wireUnsubscribe
               in (Some (case rollbackErr of None \<Rightarrow> e | Some e' \<Rightarrow> join_errors [e, e']), calls,
                   finishRestore r1))"

section \<open>Consistency of the two maps\<close>

definition consistent :: "registry \<Rightarrow> bool" where
  "consistent r \<longleftrightarrow>
     finite (dom (r_byPattern r)) \<and>
     (\<forall>p e. r_byPattern r p = Some e \<longrightarrow>
        e < r_newEntry r \<and> e_pattern (r_entry r e) = p \<and> e_handlers (r_entry r e) \<noteq> Map.empty \<and>
        r_bySubID r (e_subID (r_entry r e)) = Some e) \<and>
     (\<forall>s e. r_bySubID r s = Some e \<longrightarrow>
        e_subID (r_entry r e) = s \<and> r_byPattern r (e_pattern (r_entry r e)) = Some e)"

lemma consistentD:
  assumes "consistent r"
  shows "finite (dom (r_byPattern r))"
    "r_byPattern r p = Some e \<Longrightarrow> e < r_newEntry r \<and> e_pattern (r_entry r e) = p \<and>
       e_handlers (r_entry r e) \<noteq> Map.empty \<and> r_bySubID r (e_subID (r_entry r e)) = Some e"
    "r_bySubID r s = Some e \<Longrightarrow> e_subID (r_entry r e) = s \<and> r_byPattern r (e_pattern (r_entry r e)) = Some e"
  using assms by (auto simp: consistent_def)

lemma NewRegistry_consistent: "consistent (NewRegistry heap)"
  by (simp add: consistent_def NewRegistry_def)

lemma consistent_cong:
  assumes "consistent r" "r_byPattern r' = r_byPattern r" "r_bySubID r' = r_bySubID r"
    "r_newEntry r' = r_newEntry r"
    "\<And>e. e_pattern (r_entry r' e) = e_pattern (r_entry r e) \<and> e_subID (r_entry r' e) = e_subID (r_entry r e) \<and>
      (e_handlers (r_entry r' e) = Map.empty \<longrightarrow> e_handlers (r_entry r e) = Map.empty)"
  shows "consistent r'"
  using assms unfolding consistent_def by simp blast

lemma subscribe_enter_consistent:
  assumes "consistent r" shows "consistent (snd (subscribe_enter p h r))"
proof (cases "r_byPattern r p")
  case None
  then show ?thesis using assms by (auto simp: subscribe_enter_def intro: consistent_cong)
next
  case (Some e)
  then show ?thesis
    by (intro consistent_cong [OF assms])
      (auto simp: subscribe_enter_def nextHandler_def NewCompletion_def update_entry_def)
qed

lemma subscribe_leave_consistent:
  assumes "consistent r" "r_byPattern r p = None"
  shows "consistent (snd (subscribe_leave p h result r))"
proof (cases "\<exists>s. result = Inr s \<and> r_bySubID r s = None")
  case False
  then show ?thesis
    by (intro consistent_cong [OF assms(1)]) (auto simp: subscribe_leave_def Let_def split: sum.splits)
next
  case True
  then obtain s where s: "result = Inr s" "r_bySubID r s = None" by blast
  have fresh: "r_newEntry r \<notin> ran (r_byPattern r)" "r_newEntry r \<notin> ran (r_bySubID r)"
    using consistentD(2,3) [OF assms(1)] by (fastforce simp: ran_def)+
  have ne: "e_subID (r_entry r e) \<noteq> s" if "r_byPattern r q = Some e" for q e
    using consistentD(2) [OF assms(1) that] s(2) by auto
  have np: "e_pattern (r_entry r e) \<noteq> p" if "r_bySubID r t = Some e" for t e
    using consistentD(3) [OF assms(1) that] assms(2) by auto
  show ?thesis
    using s fresh ne consistentD [OF assms(1)]
    unfolding consistent_def subscribe_leave_def
    by (auto simp: nextHandler_def NewCompletion_def ran_def less_Suc_eq Let_def dest: np)
qed

lemma Unsubscribe_consistent:
  assumes "consistent r" shows "consistent (snd (Unsubscribe p hid r))"
proof (cases "\<exists>e reg. r_byPattern r p = Some e \<and> e_handlers (r_entry r e) hid = Some reg")
  case False
  then show ?thesis using assms by (auto simp: Unsubscribe_def split: option.splits)
next
  case True
  then obtain e reg where e: "r_byPattern r p = Some e" "e_handlers (r_entry r e) hid = Some reg" by blast
  let ?r1 = "Complete (reg_completion reg) None r"
  have r1: "r_byPattern ?r1 = r_byPattern r" "r_bySubID ?r1 = r_bySubID r" "r_entry ?r1 = r_entry r"
    "r_newEntry ?r1 = r_newEntry r"
    by (simp_all add: Complete_def split: option.split)
  have other: "e' \<noteq> e" if "r_byPattern r q = Some e'" "q \<noteq> p" for q e'
    using consistentD(2) [OF assms] e(1) that by metis
  have other': "e' \<noteq> e" if "r_bySubID r t = Some e'" "t \<noteq> e_subID (r_entry r e)" for t e'
    using consistentD(3) [OF assms that(1)] that(2) by auto
  have pat: "e_pattern (r_entry r e') \<noteq> p" if "r_bySubID r t = Some e'" "e' \<noteq> e" for t e'
    using consistentD(3) [OF assms that(1)] that(2) e(1) by auto
  have sid: "e_subID (r_entry r e') \<noteq> e_subID (r_entry r e)" if "r_byPattern r q = Some e'" "e' \<noteq> e" for q e'
    using consistentD(2) [OF assms that(1)] consistentD(2) [OF assms e(1)] that(2) by auto
  show ?thesis
    using consistentD [OF assms] e other other' pat sid
    unfolding consistent_def Unsubscribe_def
    by (auto simp: e r1 update_entry_def Let_def)
qed

lemma Clear_consistent: "consistent (snd (Clear r))"
  by (simp add: consistent_def Clear_def)

section \<open>The commit of a restore\<close>

lemma fold_update_subID:
  "distinct (map fst es) \<Longrightarrow>
   r_entry (fold (\<lambda>(e, s). update_entry e (\<lambda>en. en\<lparr>e_subID := s\<rparr>)) es r) =
     (\<lambda>e. case map_of es e of None \<Rightarrow> r_entry r e | Some s \<Rightarrow> (r_entry r e)\<lparr>e_subID := s\<rparr>)"
  "r_byPattern (fold (\<lambda>(e, s). update_entry e (\<lambda>en. en\<lparr>e_subID := s\<rparr>)) es r) = r_byPattern r"
  "r_newEntry (fold (\<lambda>(e, s). update_entry e (\<lambda>en. en\<lparr>e_subID := s\<rparr>)) es r) = r_newEntry r"
  "r_pending (fold (\<lambda>(e, s). update_entry e (\<lambda>en. en\<lparr>e_subID := s\<rparr>)) es r) = r_pending r"
  "r_restoring (fold (\<lambda>(e, s). update_entry e (\<lambda>en. en\<lparr>e_subID := s\<rparr>)) es r) = r_restoring r"
proof (induction es arbitrary: r)
  case (Cons x es)
  obtain e s where x: "x = (e, s)" by (cases x)
  { case 1
    then have "map_of es e = None" by (auto simp: x map_of_eq_None_iff)
    with 1 Cons(1) show ?case by (auto simp: x update_entry_def fun_eq_iff split: option.splits) }
qed (simp_all add: update_entry_def case_prod_beta)

text \<open>The entries a restore works on: all of them, by pattern.\<close>

definition snapshot :: "registry \<Rightarrow> (string \<times> nat) list" where
  "snapshot r = map (\<lambda>p. (p, the (r_byPattern r p))) (sorted_patterns r)"

lemma snapshot_set:
  "finite (dom (r_byPattern r)) \<Longrightarrow> (p, e) \<in> set (snapshot r) \<longleftrightarrow> r_byPattern r p = Some e"
  by (auto simp: snapshot_def sorted_patterns_def)

lemma snapshot_distinct:
  assumes "consistent r"
  shows "distinct (map fst (snapshot r))" "distinct (map snd (snapshot r))"
proof -
  have "map fst (snapshot r) = sorted_patterns r" by (simp add: snapshot_def comp_def)
  then show "distinct (map fst (snapshot r))" by (simp add: sorted_patterns_def)
  have "inj_on (\<lambda>p. the (r_byPattern r p)) (dom (r_byPattern r))"
    using consistentD(2) [OF assms] by (intro inj_onI) (metis domD option.sel)
  then show "distinct (map snd (snapshot r))"
    using consistentD(1) [OF assms] by (simp add: snapshot_def comp_def distinct_map sorted_patterns_def)
qed

lemma restore_commit_consistent:
  assumes "consistent r" "length ids = length (snapshot r)" "distinct ids"
  shows "consistent (restore_commit (zip (map snd (snapshot r)) ids) r)"
    "r_byPattern (restore_commit (zip (map snd (snapshot r)) ids) r) = r_byPattern r"
    "\<And>k. k < length ids \<Longrightarrow>
       e_subID (r_entry (restore_commit (zip (map snd (snapshot r)) ids) r) (snd (snapshot r ! k))) = ids ! k"
    "e_handlers (r_entry (restore_commit (zip (map snd (snapshot r)) ids) r) e) = e_handlers (r_entry r e)"
    "dom (r_bySubID (restore_commit (zip (map snd (snapshot r)) ids) r)) = set ids"
proof -
  let ?es = "map snd (snapshot r)"
  let ?z = "zip ?es ids"
  let ?r = "restore_commit ?z r"
  have len: "length ?es = length ids" using assms(2) by simp
  have dz: "distinct (map fst ?z)" using snapshot_distinct(2) [OF assms(1)] len by simp
  have swap: "map (\<lambda>(e, s). (s, e)) ?z = zip ids ?es" using zip_commute [of ids ?es] by simp
  have ent: "r_entry ?r = (\<lambda>e. case map_of ?z e of None \<Rightarrow> r_entry r e | Some s \<Rightarrow> (r_entry r e)\<lparr>e_subID := s\<rparr>)"
    "r_byPattern ?r = r_byPattern r" "r_newEntry ?r = r_newEntry r" "r_bySubID ?r = map_of (zip ids ?es)"
    by (simp_all add: restore_commit_def fold_update_subID(1) [OF dz] fold_update_subID(2-5) swap Let_def)
  have fwd: "\<exists>k<length ids. ?es ! k = e \<and> e_subID (r_entry ?r e) = ids ! k \<and> r_bySubID ?r (ids ! k) = Some e"
    if "r_byPattern r p = Some e" for p e
  proof -
    have "e \<in> set ?es" using that snapshot_set [OF consistentD(1) [OF assms(1)], of p e] by force
    then obtain k where k: "k < length ids" "?es ! k = e" by (auto simp: in_set_conv_nth len [symmetric])
    have "(e, ids ! k) \<in> set ?z" unfolding in_set_zip using k len by (intro exI [of _ k]) simp
    then have "map_of ?z e = Some (ids ! k)" using map_of_is_SomeI [OF dz] by blast
    moreover have "(ids ! k, e) \<in> set (zip ids ?es)"
      unfolding in_set_zip using k len by (intro exI [of _ k]) simp
    then have "r_bySubID ?r (ids ! k) = Some e"
      unfolding ent(4) by (intro map_of_is_SomeI) (use assms(3) len in simp_all)
    ultimately show ?thesis using k by (auto simp: ent(1))
  qed
  have bwd: "\<exists>p. r_byPattern r p = Some e \<and> e_subID (r_entry ?r e) = s" if "r_bySubID ?r s = Some e" for s e
  proof -
    have "(s, e) \<in> set (zip ids ?es)" using that unfolding ent(4) by (rule map_of_SomeD)
    then obtain k where k: "k < length ids" "ids ! k = s" "?es ! k = e" by (auto simp: in_set_zip len)
    then have "e \<in> snd ` set (snapshot r)" using len by (metis length_map list.set_map nth_mem)
    then obtain p where p: "r_byPattern r p = Some e"
      using snapshot_set [OF consistentD(1) [OF assms(1)]] by force
    have "(e, s) \<in> set ?z" unfolding in_set_zip using k len by (intro exI [of _ k]) simp
    then have "map_of ?z e = Some s" using map_of_is_SomeI [OF dz] by blast
    then show ?thesis using p by (auto simp: ent(1))
  qed
  have keep: "e_pattern (r_entry ?r e) = e_pattern (r_entry r e)"
    "e_handlers (r_entry ?r e) = e_handlers (r_entry r e)" for e
    by (simp_all add: ent(1) split: option.split)
  show "consistent ?r"
    unfolding consistent_def ent(2,3) keep
  proof (intro conjI allI impI)
    show "finite (dom (r_byPattern r))" by (rule consistentD(1) [OF assms(1)])
    fix p e assume p: "r_byPattern r p = Some e"
    show "e < r_newEntry r" "e_pattern (r_entry r e) = p" "e_handlers (r_entry r e) \<noteq> Map.empty"
      using consistentD(2) [OF assms(1) p] by simp_all
    show "r_bySubID ?r (e_subID (r_entry ?r e)) = Some e" using fwd [OF p] by auto
  next
    fix s e assume s: "r_bySubID ?r s = Some e"
    show "e_subID (r_entry ?r e) = s" using bwd [OF s] by blast
    show "r_byPattern r (e_pattern (r_entry r e)) = Some e"
      using bwd [OF s] consistentD(2) [OF assms(1)] by blast
  qed
  show "r_byPattern ?r = r_byPattern r" by (rule ent(2))
  show "e_handlers (r_entry ?r e) = e_handlers (r_entry r e)" by (rule keep(2))
  show "e_subID (r_entry ?r (snd (snapshot r ! k))) = ids ! k" if k: "k < length ids" for k
  proof -
    have "(fst (snapshot r ! k), ?es ! k) \<in> set (snapshot r)" using k assms(2) by simp
    then have "r_byPattern r (fst (snapshot r ! k)) = Some (?es ! k)"
      using snapshot_set [OF consistentD(1) [OF assms(1)]] by blast
    from fwd [OF this] obtain j where j: "j < length ids" "?es ! j = ?es ! k"
      "e_subID (r_entry ?r (?es ! k)) = ids ! j" by blast
    then have "j = k" using k len snapshot_distinct(2) [OF assms(1)] by (metis nth_eq_iff_index_eq)
    then show ?thesis using j(3) k assms(2) by simp
  qed
  show "dom (r_bySubID ?r) = set ids" unfolding ent(4) using len by simp
qed

section \<open>Concurrent calls\<close>

text \<open>
  A call that is between two of its locked parts: a \<open>Subscribe\<close> waiting for the broker, a \<open>Restore\<close> in
  its wire phase with the entries it collected, and a \<open>Restore\<close> that has unlocked but not yet run the
  deferred \<open>finishRestore\<close>. The first argument says whether a second \<open>Restore\<close> may start meanwhile.
\<close>

datatype call =
    SubCalling string nat
  | Restoring "(string \<times> nat) list"
  | Finishing

fun in_restore :: "call \<Rightarrow> bool" where
  "in_restore (SubCalling _ _) = False"
| "in_restore (Restoring _) = True"
| "in_restore Finishing = True"

inductive sys_step :: "bool \<Rightarrow> registry \<times> call list \<Rightarrow> registry \<times> call list \<Rightarrow> bool" for overlap where
  subscribe_attach: "\<not> r_restoring r \<Longrightarrow> subscribe_enter p h r = (SubAttached s hid, r') \<Longrightarrow>
    sys_step overlap (r, cs) (r', cs)"
| subscribe_call: "\<not> r_restoring r \<Longrightarrow> subscribe_enter p h r = (SubMustCall, r') \<Longrightarrow>
    sys_step overlap (r, cs) (r', SubCalling p h # cs)"
| subscribe_return: "SubCalling p h \<in> set cs \<Longrightarrow>
    sys_step overlap (r, cs) (snd (subscribe_leave p h result r), remove1 (SubCalling p h) cs)"
| unsubscribe: "\<not> r_restoring r \<Longrightarrow> sys_step overlap (r, cs) (snd (Unsubscribe p hid r), cs)"
| clear: "\<not> r_restoring r \<Longrightarrow> sys_step overlap (r, cs) (snd (Clear r), cs)"
| restore_nothing: "overlap \<or> \<not> (\<exists>c\<in>set cs. in_restore c) \<Longrightarrow> \<not> r_restoring r \<Longrightarrow> r_pending r = {} \<Longrightarrow>
    r_byPattern r = Map.empty \<Longrightarrow> sys_step overlap (r, cs) (r, Finishing # cs)"
| restore_start: "overlap \<or> \<not> (\<exists>c\<in>set cs. in_restore c) \<Longrightarrow> \<not> r_restoring r \<Longrightarrow> r_pending r = {} \<Longrightarrow>
    r_byPattern r \<noteq> Map.empty \<Longrightarrow> sys_step overlap (r, cs) (restore_begin r, Restoring (snapshot r) # cs)"
| restore_fail: "Restoring es \<in> set cs \<Longrightarrow> sys_step overlap (r, cs) (r, Finishing # remove1 (Restoring es) cs)"
| restore_done: "Restoring es \<in> set cs \<Longrightarrow> length ids = length es \<Longrightarrow> distinct ids \<Longrightarrow>
    sys_step overlap (r, cs) (restore_commit (zip (map snd es) ids) r, Finishing # remove1 (Restoring es) cs)"
| finish: "Finishing \<in> set cs \<Longrightarrow> sys_step overlap (r, cs) (finishRestore r, remove1 Finishing cs)"

inductive sys_reach :: "bool \<Rightarrow> registry \<times> call list \<Rightarrow> bool" for overlap where
  start: "sys_reach overlap (NewRegistry heap, [])"
| more: "sys_reach overlap s \<Longrightarrow> sys_step overlap s s' \<Longrightarrow> sys_reach overlap s'"

definition calling :: "call list \<Rightarrow> string list" where
  "calling cs = List.map_filter (\<lambda>c. case c of SubCalling p h \<Rightarrow> Some p | _ \<Rightarrow> None) cs"

lemma calling_simps [simp]:
  "calling [] = []" "calling (SubCalling p h # cs) = p # calling cs"
  "calling (Restoring es # cs) = calling cs" "calling (Finishing # cs) = calling cs"
  by (simp_all add: calling_def List.map_filter_def)

lemma calling_remove:
  "SubCalling p h \<in> set cs \<Longrightarrow> distinct (calling cs) \<Longrightarrow>
     set (calling (remove1 (SubCalling p h) cs)) = set (calling cs) - {p} \<and>
     distinct (calling (remove1 (SubCalling p h) cs)) \<and> p \<in> set (calling cs)"
proof (induction cs)
  case (Cons c cs)
  have "p \<in> set (calling cs)" if "SubCalling p h \<in> set cs" using that
  proof (induction cs)
    case (Cons c cs) then show ?case by (cases c) auto
  qed simp
  then show ?case using Cons by (cases c) auto
qed simp

lemma calling_remove_restore [simp]:
  "calling (remove1 (Restoring es) cs) = calling cs" "calling (remove1 Finishing cs) = calling cs"
proof -
  show "calling (remove1 (Restoring es) cs) = calling cs"
  proof (induction cs)
    case (Cons c cs) then show ?case by (cases c) auto
  qed simp
  show "calling (remove1 Finishing cs) = calling cs"
  proof (induction cs)
    case (Cons c cs) then show ?case by (cases c) auto
  qed simp
qed

definition restores :: "call list \<Rightarrow> nat" where
  "restores cs = length (filter in_restore cs)"

lemma restores_remove:
  "c \<in> set cs \<Longrightarrow> restores (remove1 c cs) = restores cs - (if in_restore c then 1 else 0)"
  "c \<in> set cs \<Longrightarrow> in_restore c \<Longrightarrow> restores cs \<noteq> 0"
  by (induction cs) (auto simp: restores_def)

definition sys_inv :: "registry \<times> call list \<Rightarrow> bool" where
  "sys_inv s \<longleftrightarrow> (case s of (r, cs) \<Rightarrow>
     consistent r \<and> restores cs \<le> 1 \<and> (r_restoring r \<longrightarrow> restores cs = 1) \<and>
     distinct (calling cs) \<and> set (calling cs) \<subseteq> r_pending r \<and>
     (\<forall>p\<in>set (calling cs). r_byPattern r p = None) \<and>
     (\<forall>es. Restoring es \<in> set cs \<longrightarrow> r_restoring r \<and> r_pending r = {} \<and> es = snapshot r))"

lemma subscribe_enter_frame:
  assumes "subscribe_enter p h r = (out, r')"
  shows "r_byPattern r' = r_byPattern r" "r_restoring r' = r_restoring r"
    "r_pending r' = (if out = SubMustCall then insert p (r_pending r) else r_pending r)"
    "out = SubMustCall \<Longrightarrow> r_byPattern r p = None \<and> p \<notin> r_pending r"
  using assms
  by (auto simp: subscribe_enter_def nextHandler_def NewCompletion_def update_entry_def Let_def
    split: option.splits if_splits)

lemma subscribe_leave_frame:
  "r_pending (snd (subscribe_leave p h result r)) = r_pending r - {p}"
  "r_restoring (snd (subscribe_leave p h result r)) = r_restoring r"
  "q \<noteq> p \<Longrightarrow> r_byPattern (snd (subscribe_leave p h result r)) q = r_byPattern r q"
  by (auto simp: subscribe_leave_def nextHandler_def NewCompletion_def Let_def split: sum.splits)

lemma Unsubscribe_frame:
  "r_pending (snd (Unsubscribe p hid r)) = r_pending r"
  "r_restoring (snd (Unsubscribe p hid r)) = r_restoring r"
  "r_byPattern r q = None \<Longrightarrow> r_byPattern (snd (Unsubscribe p hid r)) q = None"
  by (auto simp: Unsubscribe_def Complete_def update_entry_def Let_def split: option.splits)

lemma snapshot_cong: "r_byPattern r' = r_byPattern r \<Longrightarrow> snapshot r' = snapshot r"
  by (simp add: snapshot_def sorted_patterns_def)

lemma consistent_flag:
  "consistent r \<Longrightarrow> consistent (r\<lparr>r_restoring := b\<rparr>)"
  by (erule consistent_cong) simp_all

lemma finishRestore_flag: "finishRestore r = r\<lparr>r_restoring := False\<rparr>"
  by (cases r) (simp add: finishRestore_def)

lemma no_restore: "restores cs = 0 \<longleftrightarrow> \<not> (\<exists>c\<in>set cs. in_restore c)"
  by (auto simp: restores_def filter_empty_conv)

lemma one_restore:
  "restores cs \<le> 1 \<Longrightarrow> c \<in> set cs \<Longrightarrow> in_restore c \<Longrightarrow> c' \<in> set (remove1 c cs) \<Longrightarrow> \<not> in_restore c'"
  using restores_remove(1) [of c cs] no_restore [of "remove1 c cs"] by auto

lemma sys_step_inv:
  assumes "sys_step False s s'" "sys_inv s"
  shows "sys_inv s'"
  using assms
proof (induction rule: sys_step.induct)
  case (subscribe_attach r p h s hid r' cs)
  then have "\<not> (\<exists>es. Restoring es \<in> set cs)" by (auto simp: sys_inv_def)
  moreover have "consistent r'"
    using subscribe_enter_consistent [of r p h] subscribe_attach by (simp add: sys_inv_def)
  ultimately show ?case
    using subscribe_attach subscribe_enter_frame [OF subscribe_attach(2)] by (auto simp: sys_inv_def)
next
  case (subscribe_call r p h r' cs)
  note f = subscribe_enter_frame [OF subscribe_call(2), simplified]
  have "\<not> (\<exists>es. Restoring es \<in> set cs)" using subscribe_call by (auto simp: sys_inv_def)
  moreover have "consistent r'"
    using subscribe_enter_consistent [of r p h] subscribe_call by (simp add: sys_inv_def)
  ultimately show ?case
    using subscribe_call f by (auto simp: sys_inv_def restores_def)
next
  case (subscribe_return p h cs r result)
  note rm = calling_remove [OF subscribe_return(1)]
  have p: "p \<in> r_pending r" "r_byPattern r p = None"
    using subscribe_return rm by (auto simp: sys_inv_def)
  then have "\<not> (\<exists>es. Restoring es \<in> set cs)" using subscribe_return(2) by (auto simp: sys_inv_def)
  moreover have "consistent (snd (subscribe_leave p h result r))"
    using subscribe_leave_consistent [OF _ p(2)] subscribe_return by (simp add: sys_inv_def)
  ultimately show ?case
    using subscribe_return rm subscribe_leave_frame [where p = p and h = h and result = result and r = r] restores_remove(1) [OF subscribe_return(1)]
    by (auto simp: sys_inv_def dest: notin_set_remove1)
next
  case (unsubscribe r cs p hid)
  then show ?case
    using Unsubscribe_consistent [of r p hid] Unsubscribe_frame [where p = p and hid = hid and r = r] by (auto simp: sys_inv_def)
next
  case (clear r cs)
  then show ?case using Clear_consistent [of r] by (auto simp: sys_inv_def Clear_def)
next
  case (restore_nothing cs r)
  then show ?case using no_restore [of cs] by (auto simp: sys_inv_def restores_def)
next
  case (restore_start cs r)
  then show ?case
    using no_restore [of cs] consistent_flag [of r True] snapshot_cong [of "restore_begin r" r]
    by (auto simp: sys_inv_def restores_def restore_begin_def)
next
  case (restore_fail es cs r)
  note one = one_restore [OF _ restore_fail(1)]
  have "\<not> (\<exists>es'. Restoring es' \<in> set (remove1 (Restoring es) cs))"
    using one restore_fail(2) by (fastforce simp: sys_inv_def)
  then show ?case
    using restore_fail restores_remove [OF restore_fail(1)] by (auto simp: sys_inv_def restores_def)
next
  case (restore_done es cs ids r)
  have es: "es = snapshot r" "consistent r" "calling cs = []"
    using restore_done by (auto simp: sys_inv_def)
  have "\<not> (\<exists>es'. Restoring es' \<in> set (remove1 (Restoring es) cs))"
    using one_restore [OF _ restore_done(1)] restore_done(4) by (fastforce simp: sys_inv_def)
  moreover have "r_restoring (restore_commit z r) = r_restoring r" for z
    by (simp add: restore_commit_def fold_update_subID Let_def)
  moreover have "consistent (restore_commit (zip (map snd es) ids) r)"
    using restore_commit_consistent(1) [OF es(2)] restore_done(2,3) es(1) by simp
  ultimately show ?case
    using restore_done restores_remove [OF restore_done(1)] es(3) by (auto simp: sys_inv_def restores_def)
next
  case (finish cs r)
  have "\<not> (\<exists>es'. Restoring es' \<in> set cs)"
  proof
    assume "\<exists>es'. Restoring es' \<in> set cs"
    then obtain es' where "Restoring es' \<in> set cs" by blast
    then have "Restoring es' \<in> set (remove1 Finishing cs)" by simp
    then show False
      using one_restore [OF _ finish(1), of "Restoring es'"] finish(2) by (simp add: sys_inv_def)
  qed
  moreover have "set (remove1 Finishing cs) \<subseteq> set cs" by (rule set_remove1_subset)
  moreover have "consistent (r\<lparr>r_restoring := False\<rparr>)" "restores (remove1 Finishing cs) \<le> 1"
    using finish restores_remove [OF finish(1)] consistent_flag [of r False] by (simp_all add: sys_inv_def)
  ultimately show ?case
    using finish(2) unfolding finishRestore_flag by (auto simp: sys_inv_def)
qed

lemma sys_reach_inv: "sys_reach False s \<Longrightarrow> sys_inv s"
proof (induction rule: sys_reach.induct)
  case (start heap)
  then show ?case by (simp add: sys_inv_def NewRegistry_consistent restores_def) (simp add: NewRegistry_def)
qed (rule sys_step_inv)

section \<open>The wire phase of a restore\<close>

lemma restore_loop_Restored:
  "restore_loop ws ps acc = Restored ids \<Longrightarrow> distinct (map snd acc) \<Longrightarrow>
   ids = acc @ map (\<lambda>p. (p, projr (ws p))) ps \<and> (\<forall>p\<in>set ps. ws p = Inr (projr (ws p))) \<and> distinct (map snd ids)"
proof (induction ps arbitrary: acc)
  case (Cons p ps)
  then obtain s where s: "ws p = Inr s" "s \<notin> snd ` set acc" "restore_loop ws ps (acc @ [(p, s)]) = Restored ids"
    by (auto split: sum.splits if_splits)
  then have "distinct (map snd (acc @ [(p, s)]))" using Cons.prems(2) by simp
  note ih = Cons.IH [OF s(3) this]
  have "ids = acc @ map (\<lambda>p. (p, projr (ws p))) (p # ps)" using ih s(1) by simp
  moreover have "\<forall>q\<in>set (p # ps). ws q = Inr (projr (ws q))" using ih s(1) by simp
  ultimately show ?case using ih by blast
qed simp

text \<open>The subscriptions made for a list of patterns, with the ids the broker gave them.\<close>

abbreviation made :: "(string \<Rightarrow> go_error + u64) \<Rightarrow> string list \<Rightarrow> (string \<times> u64) list" where
  "made ws ps \<equiv> map (\<lambda>p. (p, projr (ws p))) ps"

lemma restore_loop_RestoreFailed:
  "restore_loop ws ps acc = RestoreFailed undo e \<Longrightarrow> distinct (map snd acc) \<Longrightarrow>
   \<exists>k<length ps. (\<forall>p\<in>set (take k ps). ws p = Inr (projr (ws p))) \<and> distinct (map snd (acc @ made ws (take k ps))) \<and>
     (ws (ps ! k) = Inl e \<and> undo = acc @ made ws (take k ps) \<or>
      ws (ps ! k) = Inr (projr (ws (ps ! k))) \<and> projr (ws (ps ! k)) \<in> snd ` set (acc @ made ws (take k ps)) \<and>
        undo = acc @ made ws (take (Suc k) ps))"
proof (induction ps arbitrary: acc)
  case (Cons p ps)
  show ?case
  proof (cases "ws p")
    case (Inl e')
    then show ?thesis using Cons.prems by (intro exI [of _ 0]) simp
  next
    case (Inr s)
    show ?thesis
    proof (cases "s \<in> snd ` set acc")
      case True
      then show ?thesis using Cons.prems Inr by (intro exI [of _ 0]) auto
    next
      case False
      then have "restore_loop ws ps (acc @ [(p, s)]) = RestoreFailed undo e" "distinct (map snd (acc @ [(p, s)]))"
        using Cons.prems Inr by simp_all
      from Cons.IH [OF this] obtain k where "k < length ps" "\<forall>p\<in>set (take k ps). ws p = Inr (projr (ws p))"
        "distinct (map snd ((acc @ [(p, s)]) @ made ws (take k ps)))"
        "ws (ps ! k) = Inl e \<and> undo = (acc @ [(p, s)]) @ made ws (take k ps) \<or>
         ws (ps ! k) = Inr (projr (ws (ps ! k))) \<and> projr (ws (ps ! k)) \<in> snd ` set ((acc @ [(p, s)]) @ made ws (take k ps)) \<and>
           undo = (acc @ [(p, s)]) @ made ws (take (Suc k) ps)"
        by blast
      then show ?thesis using Inr by (intro exI [of _ "Suc k"]) simp
    qed
  qed
qed simp

lemma restore_begin_frame:
  "r_byPattern (restore_begin r) = r_byPattern r" "r_entry (restore_begin r) = r_entry r"
  "\<not> r_restoring r \<Longrightarrow> finishRestore (restore_begin r) = r"
  by (cases r; simp add: restore_begin_def finishRestore_def)+

section \<open>Properties\<close>

text \<open>C5: Consistency. However calls of \<open>Subscribe\<close>, \<open>Unsubscribe\<close>, \<open>Clear\<close> and \<open>Restore\<close> interleave,
  as long as no two restores overlap, the map by pattern and the map by broker id name the same
  entries, every entry has a handler, and a set \<open>restoring\<close> flag is owed to a restore that is still
  running, so no caller waits for ever on it.\<close>

theorem registry_stays_consistent:
  assumes "sys_reach False (r, cs)"
  shows "consistent r \<and> (r_restoring r \<longrightarrow> (\<exists>c\<in>set cs. in_restore c)) \<and>
    (\<forall>p h. SubCalling p h \<in> set cs \<longrightarrow> r_byPattern r p = None)"
proof -
  have inv: "sys_inv (r, cs)" by (rule sys_reach_inv [OF assms])
  have "p \<in> set (calling cs)" if "SubCalling p h \<in> set cs" for p h
    using calling_remove [OF that] inv by (simp add: sys_inv_def)
  then show ?thesis using inv no_restore [of cs] by (auto simp: sys_inv_def)
qed

definition blank_entry :: entry where
  "blank_entry = \<lparr>e_pattern = [], e_subID = 0, e_handlers = Map.empty\<rparr>"

definition one_calling :: registry where
  "one_calling = snd (subscribe_enter ''a'' 5 (NewRegistry (\<lambda>_. blank_entry)))"

definition one_sub :: registry where
  "one_sub = snd (subscribe_leave ''a'' 5 (Inr 7) one_calling)"

lemma one_calling_enter:
  "subscribe_enter ''a'' 5 (NewRegistry (\<lambda>_. blank_entry)) = (SubMustCall, one_calling)"
  by (simp add: one_calling_def subscribe_enter_def NewRegistry_def)

lemma one_sub_eq:
  "one_sub = \<lparr>r_byPattern = [''a'' \<mapsto> 0], r_bySubID = [7 \<mapsto> 0],
     r_entry = (\<lambda>_. blank_entry)(0 := \<lparr>e_pattern = ''a'', e_subID = 7, e_handlers = [1 \<mapsto>
       \<lparr>reg_pattern = ''a'', reg_handlerID = 1, reg_handler = 5, reg_completion = 0\<rparr>]\<rparr>),
     r_newEntry = 1, r_pending = {}, r_restoring = False, r_nextHandlerID = 1,
     r_completion = (\<lambda>_. None), r_newCompletion = 1\<rparr>"
  by (simp add: one_sub_def one_calling_def subscribe_enter_def NewRegistry_def subscribe_leave_def
    nextHandler_def NewCompletion_def fun_eq_iff)

lemma one_sub_reach: "sys_reach ov (one_sub, [])"
proof -
  have "sys_reach ov (one_calling, [SubCalling ''a'' 5])"
    by (rule sys_reach.more [OF sys_reach.start], rule sys_step.subscribe_call [OF _ one_calling_enter])
      (simp add: NewRegistry_def)
  then have "sys_reach ov (one_sub, remove1 (SubCalling ''a'' 5) [SubCalling ''a'' 5])"
    unfolding one_sub_def by (rule sys_reach.more) (rule sys_step.subscribe_return, simp)
  then show ?thesis by simp
qed

theorem registry_stays_consistent_witness: "consistent one_sub \<and> r_bySubID one_sub 7 = Some 0"
  using registry_stays_consistent [OF one_sub_reach] by (simp add: one_sub_eq)

text \<open>C7: Restore. A restore that reports success has subscribed every pattern again: each entry is
  kept with its handlers and carries the id the broker returned for its pattern, and the id map holds
  exactly these. One that reports an error leaves the registry as it was. It stopped at the first pattern, in
  alphabetical order, whose subscription failed or got an id the restore already had, and it undid exactly the
  subscriptions made until then, the repeated one included, in reverse order when an unsubscribe function is
  given.\<close>

theorem restore_all_or_nothing:
  assumes "consistent r" "\<not> r_restoring r" "Restore ws wu r = (err, undone, r')"
  shows "case err of
      None \<Rightarrow> consistent r' \<and> undone = [] \<and> r_byPattern r' = r_byPattern r \<and>
        (\<forall>p e. r_byPattern r p = Some e \<longrightarrow> ws p = Inr (e_subID (r_entry r' e)) \<and>
           e_handlers (r_entry r' e) = e_handlers (r_entry r e))
    | Some _ \<Rightarrow> r' = r \<and>
        (\<exists>k<length (sorted_patterns r).
           (\<forall>p\<in>set (take k (sorted_patterns r)). ws p = Inr (projr (ws p))) \<and>
           distinct (map snd (made ws (take k (sorted_patterns r)))) \<and>
           (isl (ws (sorted_patterns r ! k)) \<and>
              undone = (if wu = None then [] else rev (made ws (take k (sorted_patterns r)))) \<or>
            (\<exists>s. ws (sorted_patterns r ! k) = Inr s \<and> s \<in> snd ` set (made ws (take k (sorted_patterns r))) \<and>
              undone = (if wu = None then [] else rev (made ws (take (Suc k) (sorted_patterns r)))))))"
proof (cases "r_byPattern r = Map.empty")
  case True
  then show ?thesis using assms finishRestore_flag [of r] by (cases r) (auto simp: Restore_def)
next
  case nonempty: False
  let ?r = "restore_begin r" and ?ps = "sorted_patterns r"
  have ps: "sorted_patterns ?r = ?ps" by (simp add: sorted_patterns_def restore_begin_frame)
  show ?thesis
  proof (cases "restore_loop ws ?ps []")
    case (Restored ids)
    note l = restore_loop_Restored [OF Restored, simplified]
    let ?ids = "map (\<lambda>p. projr (ws p)) ?ps"
    have c: "consistent ?r" using consistent_flag [OF assms(1), of True] assms(1) by (simp add: restore_begin_def)
    have snap: "snapshot ?r = snapshot r" by (rule snapshot_cong) (rule restore_begin_frame)
    have z: "map (\<lambda>(p, s). (the (r_byPattern ?r p), s)) ids = zip (map snd (snapshot ?r)) ?ids"
      using l unfolding snap by (simp add: snapshot_def restore_begin_frame zip_map_map comp_def zip_same_conv_map)
    have len: "length ?ids = length (snapshot ?r)" unfolding snap by (simp add: snapshot_def)
    have dist: "distinct ?ids" 
      using l [THEN conjunct2, THEN conjunct2] unfolding l [THEN conjunct1] by (simp add: comp_def)
    note commit = restore_commit_consistent [OF c len dist]
    let ?c = "restore_commit (zip (map snd (snapshot ?r)) ?ids) ?r"
    have out: "err = None" "undone = []" "r' = finishRestore ?c"
      using assms(3) nonempty Restored ps z by (auto simp: Restore_def Let_def)
    have "ws p = Inr (e_subID (r_entry ?c e))" if p: "r_byPattern r p = Some e" for p e
    proof -
      have "p \<in> set ?ps" using p consistentD(1) [OF assms(1)] by (auto simp: sorted_patterns_def)
      then obtain k where k: "k < length ?ps" "?ps ! k = p" by (auto simp: in_set_conv_nth)
      then have "snd (snapshot ?r ! k) = e" using p unfolding snap by (simp add: snapshot_def)
      then have "e_subID (r_entry ?c e) = projr (ws p)" using commit(3) [of k] k by simp
      then show ?thesis using l \<open>p \<in> set ?ps\<close> by simp
    qed
    then show ?thesis
      using out commit(1,2,4) consistent_flag [OF commit(1), of False] restore_begin_frame
      by (simp add: finishRestore_flag)
  next
    case (RestoreFailed undo e)
    have "distinct (map snd ([] :: (string \<times> u64) list))" by simp
    from restore_loop_RestoreFailed [OF RestoreFailed this, unfolded append_Nil]
    obtain k where k: "k < length ?ps" "\<forall>p\<in>set (take k ?ps). ws p = Inr (projr (ws p))" "distinct (map snd (made ws (take k ?ps)))"
      and d: "ws (?ps ! k) = Inl e \<and> undo = made ws (take k ?ps) \<or>
        ws (?ps ! k) = Inr (projr (ws (?ps ! k))) \<and> projr (ws (?ps ! k)) \<in> snd ` set (made ws (take k ?ps)) \<and> undo = made ws (take (Suc k) ?ps)"
      by (elim exE conjE) (rule that)
    have u: "isl (ws (?ps ! k)) \<and> undo = made ws (take k ?ps) \<or>
        (\<exists>s. ws (?ps ! k) = Inr s \<and> s \<in> snd ` set (made ws (take k ?ps)) \<and> undo = made ws (take (Suc k) ?ps))"
      using d
    proof (elim disjE conjE)
      assume "ws (?ps ! k) = Inl e" "undo = made ws (take k ?ps)"
      then show ?thesis by (intro disjI1) simp
    next
      assume "ws (?ps ! k) = Inr (projr (ws (?ps ! k)))" "projr (ws (?ps ! k)) \<in> snd ` set (made ws (take k ?ps))"
        "undo = made ws (take (Suc k) ?ps)"
      then show ?thesis by (intro disjI2 exI conjI)
    qed
    have out: "err \<noteq> None" "r' = r" "undone = (if wu = None then [] else rev undo)"
      using assms(2,3) nonempty RestoreFailed ps restore_begin_frame(3) [of r]
      by (auto simp: Restore_def Let_def rollbackRestore_def split: option.splits prod.splits if_splits)
    then obtain y where y: "err = Some y" by blast
    have "isl (ws (?ps ! k)) \<and> undone = (if wu = None then [] else rev (made ws (take k ?ps))) \<or>
        (\<exists>s. ws (?ps ! k) = Inr s \<and> s \<in> snd ` set (made ws (take k ?ps)) \<and> undone = (if wu = None then [] else rev (made ws (take (Suc k) ?ps))))"
      using u unfolding out(3) by (elim disjE) (auto simp del: map_append take_Suc_conv_app_nth)
    then show ?thesis unfolding y option.case out(2) using k by (intro conjI refl exI [of _ k])
  qed
qed

definition broker_nine :: "string \<Rightarrow> go_error + u64" where "broker_nine p = Inr 9"

theorem restore_all_or_nothing_witness:
  "\<exists>r'. Restore broker_nine None one_sub = (None, [], r') \<and> e_subID (r_entry r' 0) = 9"
proof -
  have c: "consistent one_sub" by (rule sys_reach_inv [OF one_sub_reach, unfolded sys_inv_def, simplified, THEN conjunct1])
  obtain err undone r' where e: "Restore broker_nine None one_sub = (err, undone, r')"
    by (metis surj_pair)
  have "err = None"
  proof (cases "restore_loop broker_nine (sorted_patterns (restore_begin one_sub)) []")
    case (Restored ids)
    then show ?thesis using e by (auto simp: Restore_def one_sub_eq Let_def)
  next
    case (RestoreFailed undo e')
    then show ?thesis by (simp add: one_sub_eq sorted_patterns_def restore_begin_def broker_nine_def)
  qed
  then show ?thesis
    using restore_all_or_nothing [OF c _ e] e by (simp add: one_sub_eq broker_nine_def)
qed

text \<open>C15: Overlapping restores. A restore that finds nothing to restore still runs the deferred
  \<open>finishRestore\<close> after it unlocked; it can clear the \<open>restoring\<close> flag another restore has set
  meanwhile. An unsubscription then slips into the other restore's wire phase, and its commit installs
  a broker id for an entry the registry no longer has.\<close>

theorem overlapping_restores_break_consistency:
  "\<exists>r. sys_reach True (r, [Finishing]) \<and> \<not> consistent r \<and> r_byPattern r = Map.empty \<and> r_bySubID r 9 \<noteq> None"
proof -
  let ?r0 = "NewRegistry (\<lambda>_. blank_entry)"
  have 1: "sys_reach True (?r0, [Finishing])"
    by (rule sys_reach.more [OF sys_reach.start], rule sys_step.restore_nothing) (simp_all add: NewRegistry_def)
  have 2: "sys_reach True (one_calling, [SubCalling ''a'' 5, Finishing])"
    by (rule sys_reach.more [OF 1], rule sys_step.subscribe_call [OF _ one_calling_enter])
      (simp add: NewRegistry_def)
  have "sys_reach True (one_sub, remove1 (SubCalling ''a'' 5) [SubCalling ''a'' 5, Finishing])"
    unfolding one_sub_def by (rule sys_reach.more [OF 2], rule sys_step.subscribe_return) simp
  then have 3: "sys_reach True (one_sub, [Finishing])" by simp
  have snap: "snapshot one_sub = [(''a'', 0)]"
    by (simp add: one_sub_eq snapshot_def sorted_patterns_def)
  let ?r4 = "restore_begin one_sub"
  have 4: "sys_reach True (?r4, [Restoring [(''a'', 0)], Finishing])"
    by (rule sys_reach.more [OF 3], subst snap [symmetric], rule sys_step.restore_start) (simp_all add: one_sub_eq)
  have "sys_reach True (finishRestore ?r4, remove1 Finishing [Restoring [(''a'', 0)], Finishing])"
    by (rule sys_reach.more [OF 4], rule sys_step.finish) simp
  then have 5: "sys_reach True (one_sub, [Restoring [(''a'', 0)]])"
    by (simp add: restore_begin_frame(3) one_sub_eq)
  let ?r6 = "snd (Unsubscribe ''a'' 1 one_sub)"
  have 6: "sys_reach True (?r6, [Restoring [(''a'', 0)]])"
    by (rule sys_reach.more [OF 5], rule sys_step.unsubscribe) (simp add: one_sub_eq)
  let ?r7 = "restore_commit (zip (map snd [(''a'', 0)]) [9]) ?r6"
  have "sys_reach True (?r7, Finishing # remove1 (Restoring [(''a'', 0)]) [Restoring [(''a'', 0)]])"
    by (rule sys_reach.more [OF 6], rule sys_step.restore_done) simp_all
  moreover have "r_byPattern ?r7 = Map.empty" "r_bySubID ?r7 9 = Some 0"
    by (simp_all add: restore_commit_def update_entry_def Unsubscribe_def one_sub_eq Complete_def)
  ultimately show ?thesis by (intro exI [of _ ?r7]) (auto simp: consistent_def)
qed

end
