(* ===== verification/Message_Codec.thy ===== *)
theory Message_Codec
  imports Payload_Codec
begin

text \<open>
  Layouts of whole messages. The wire formats the sources document, such as
  \<open>[u64 tx_id][string route][u8 has_start][bytes? start]\<close>, are readers built from the field readers of
  \<^verbatim>\<open>response.go\<close> by three combinators: a sequence of two layouts, an optional layout behind a flag
  byte, and a counted list. Each combinator takes codecs to codecs, so every documented layout is an
  instance of the contract \<open>field_codec\<close> and a payload determines its fields.
\<close>

section \<open>Slices that may be nil, and sequences of writes\<close>

text \<open>
  Where the sources tell a nil slice from an empty one, a slice is a \<open>bytes option\<close>; \<open>elems\<close> is
  what ranging over it sees. \<open>write_seq\<close> runs the writes of a payload writer in order.
\<close>

definition elems :: "bytes option \<Rightarrow> bytes" where
  "elems b = (case b of None \<Rightarrow> [] | Some xs \<Rightarrow> xs)"

definition write_seq :: "writer list \<Rightarrow> writer" where
  "write_seq ws buf = fold (\<lambda>w b. w b) ws buf"

definition WriteByte :: "u8 \<Rightarrow> writer" where
  "WriteByte b buf = buf @ [b]"

lemma elems_simps [simp]: "elems None = []" "elems (Some xs) = xs"
  by (simp_all add: elems_def)

lemma write_seq_simps [byte_simps]:
  "write_seq [] buf = buf" "write_seq (w # ws) buf = write_seq ws (w buf)" "WriteByte b buf = buf @ [b]"
  by (simp_all add: write_seq_def WriteByte_def)

text \<open>The field readers never panic, wherever the offset is.\<close>

lemma readers_no_panic [simp]:
  "no_panic (ReadU8 p off)" "no_panic (ReadU16BE p off)" "no_panic (ReadU32BE p off)" "no_panic (ReadU64BE p off)"
  "no_panic (ReadUUID p off)"
  by (auto simp: ReadU8_def ReadU16BE_def ReadU32BE_def ReadU64BE_def ReadUUID_def intro!: no_panic_intros)

lemma no_panic_bind2 [no_panic_intros]:
  "no_panic r \<Longrightarrow> (\<And>a b. r = Ok (a, b) \<Longrightarrow> no_panic (f a b)) \<Longrightarrow> no_panic (bind_res r (\<lambda>(a, b). f a b))"
  by (cases r) auto

lemma length_readers_no_panic [simp]: "no_panic (ReadBytes p off)" "no_panic (ReadString p off)"
  unfolding ReadBytes_def ReadString_def
  by (auto simp: ReadU32BE_def bind_res_Ok_iff split: if_splits intro!: no_panic_bind2 no_panic_bind no_panic_intros)

section \<open>Combinators\<close>

definition rd_pair ::
  "(bytes \<Rightarrow> nat \<Rightarrow> ('a \<times> nat) res) \<Rightarrow> (bytes \<Rightarrow> nat \<Rightarrow> ('b \<times> nat) res) \<Rightarrow> bytes \<Rightarrow> nat \<Rightarrow> (('a \<times> 'b) \<times> nat) res" where
  "rd_pair r1 r2 p off =
     bind_res (r1 p off) (\<lambda>(a, off').
     bind_res (r2 p off') (\<lambda>(b, off''). Ok ((a, b), off'')))"

definition enc_pair :: "('a \<Rightarrow> bytes) \<Rightarrow> ('b \<Rightarrow> bytes) \<Rightarrow> 'a \<times> 'b \<Rightarrow> bytes" where
  "enc_pair e1 e2 x = e1 (fst x) @ e2 (snd x)"

definition fits_pair :: "('a \<Rightarrow> bool) \<Rightarrow> ('b \<Rightarrow> bool) \<Rightarrow> 'a \<times> 'b \<Rightarrow> bool" where
  "fits_pair f1 f2 x \<longleftrightarrow> f1 (fst x) \<and> f2 (snd x)"

definition rd_option :: "(bytes \<Rightarrow> nat \<Rightarrow> ('a \<times> nat) res) \<Rightarrow> bytes \<Rightarrow> nat \<Rightarrow> ('a option \<times> nat) res" where
  "rd_option r p off =
     bind_res (ReadU8 p off) (\<lambda>(flag, off').
       if flag = 0 then Ok (None, off')
       else if flag = 1 then bind_res (r p off') (\<lambda>(x, off''). Ok (Some x, off''))
       else Err (ErrNew ''invalid presence flag''))"

definition enc_option :: "('a \<Rightarrow> bytes) \<Rightarrow> 'a option \<Rightarrow> bytes" where
  "enc_option e x = (case x of None \<Rightarrow> [0] | Some y \<Rightarrow> 1 # e y)"

definition rd_list :: "(bytes \<Rightarrow> nat \<Rightarrow> ('a \<times> nat) res) \<Rightarrow> bytes \<Rightarrow> nat \<Rightarrow> ('a list \<times> nat) res" where
  "rd_list r p off = bind_res (ReadU32BE p off) (\<lambda>(n, off'). read_seq r (unat n) p off')"

definition enc_list :: "('a \<Rightarrow> bytes) \<Rightarrow> 'a list \<Rightarrow> bytes" where
  "enc_list e xs = PutUint32 (u32_len xs) @ concat (map e xs)"

definition fits_list :: "('a \<Rightarrow> bool) \<Rightarrow> 'a list \<Rightarrow> bool" where
  "fits_list f xs \<longleftrightarrow> fits_u32 xs \<and> list_all f xs"

section \<open>Combinators of codecs are codecs\<close>

context field_codec
begin

lemma read_OkE:
  assumes "rd p off = Ok (x, off')" "off \<le> length p"
  obtains "fits x" "off' = off + length (enc x)" "off' \<le> length p" "drop off p = enc x @ drop off' p"
  using read_Ok [OF assms(2,1)] by blast

end

lemma codec_pair:
  assumes "field_codec e1 r1 f1" "field_codec e2 r2 f2"
  shows "field_codec (enc_pair e1 e2) (rd_pair r1 r2) (fits_pair f1 f2)"
proof
  fix x :: "'a \<times> 'b" and off p rest
  assume f: "fits_pair f1 f2 x" and o: "off \<le> length p" and "drop off p = enc_pair e1 e2 x @ rest"
  then have d: "drop off p = e1 (fst x) @ (e2 (snd x) @ rest)" by (simp add: enc_pair_def)
  have r1: "r1 p off = Ok (fst x, off + length (e1 (fst x)))"
    using field_codec.read_write [OF assms(1) _ o d] f by (simp add: fits_pair_def)
  have b: "off + length (e1 (fst x)) \<le> length p" using field_codec.read_Ok [OF assms(1) o r1] by simp
  have "r2 p (off + length (e1 (fst x))) = Ok (snd x, off + length (e1 (fst x)) + length (e2 (snd x)))"
    using field_codec.read_write [OF assms(2) _ b drop_shift [OF d refl]] f by (simp add: fits_pair_def)
  with r1 show "rd_pair r1 r2 p off = Ok (x, off + length (enc_pair e1 e2 x))"
    by (simp add: rd_pair_def enc_pair_def)
next
  fix x :: "'a \<times> 'b" and off off' p
  assume o: "off \<le> length p" and "rd_pair r1 r2 p off = Ok (x, off')"
  then obtain m where m: "r1 p off = Ok (fst x, m)" "r2 p m = Ok (snd x, off')"
    by (auto simp: rd_pair_def bind_res_Ok_iff)
  obtain 1: "f1 (fst x)" "m = off + length (e1 (fst x))" "m \<le> length p" "drop off p = e1 (fst x) @ drop m p"
    by (rule field_codec.read_OkE [OF assms(1) m(1) o])
  obtain 2: "f2 (snd x)" "off' = m + length (e2 (snd x))" "off' \<le> length p" "drop m p = e2 (snd x) @ drop off' p"
    by (rule field_codec.read_OkE [OF assms(2) m(2) 1(3)])
  have "drop off p = enc_pair e1 e2 x @ drop off' p"
    by (simp only: 1(4) 2(4) enc_pair_def append_assoc)
  moreover have "off' = off + length (enc_pair e1 e2 x)" using 1(2) 2(2) by (simp add: enc_pair_def)
  ultimately show "fits_pair f1 f2 x \<and> off' = off + length (enc_pair e1 e2 x) \<and> off' \<le> length p \<and>
      drop off p = enc_pair e1 e2 x @ drop off' p"
    using 1(1) 2(1,3) unfolding fits_pair_def by blast
next
  fix off :: nat and p :: bytes
  assume o: "off \<le> length p"
  show "no_panic (rd_pair r1 r2 p off)"
    unfolding rd_pair_def
    by (intro field_codec.bind_no_panic [OF assms(1) o] field_codec.bind_no_panic [OF assms(2)]) auto
qed

lemma codec_option:
  assumes "field_codec e r f"
  shows "field_codec (enc_option e) (rd_option r) (pred_option f)"
proof
  fix x :: "'a option" and off p rest
  assume f: "pred_option f x" and o: "off \<le> length p" and d: "drop off p = enc_option e x @ rest"
  show "rd_option r p off = Ok (x, off + length (enc_option e x))"
  proof (cases x)
    case None
    then have "ReadU8 p off = Ok (0, off + 1)"
      using u8c.read_write [OF _ o, of 0 rest] d by (simp add: enc_option_def)
    then show ?thesis using None by (simp add: rd_option_def enc_option_def)
  next
    case (Some y)
    then have d1: "drop off p = [1] @ (e y @ rest)" using d by (simp add: enc_option_def)
    then have r1: "ReadU8 p off = Ok (1, off + 1)" using u8c.read_write [OF _ o d1] by simp
    then have b: "off + 1 \<le> length p" using u8c.read_bounds [OF o r1] by blast
    have "r p (off + 1) = Ok (y, off + 1 + length (e y))"
      using field_codec.read_write [OF assms _ b drop_shift [OF d1]] f Some by simp
    with r1 Some show ?thesis by (simp add: rd_option_def enc_option_def)
  qed
next
  fix x :: "'a option" and off off' p
  assume o: "off \<le> length p" and h: "rd_option r p off = Ok (x, off')"
  then obtain flag m where m: "ReadU8 p off = Ok (flag, m)"
    by (auto simp: rd_option_def bind_res_Ok_iff)
  obtain 1: "m = off + length [flag]" "m \<le> length p" "drop off p = [flag] @ drop m p"
    by (rule u8c.read_OkE [OF m o])
  show "pred_option f x \<and> off' = off + length (enc_option e x) \<and> off' \<le> length p \<and>
      drop off p = enc_option e x @ drop off' p"
  proof (cases x)
    case None
    then have "flag = 0" "m = off'" using h m by (auto simp: rd_option_def bind_res_Ok_iff split: if_splits)
    then have "off' = off + length (enc_option e x)" "drop off p = enc_option e x @ drop off' p"
      using 1 None by (simp_all add: enc_option_def)
    then show ?thesis using None 1(2) \<open>m = off'\<close> by simp
  next
    case (Some y)
    then have fl: "flag = 1" "r p m = Ok (y, off')"
      using h m by (auto simp: rd_option_def bind_res_Ok_iff split: if_splits)
    obtain 2: "f y" "off' = m + length (e y)" "off' \<le> length p" "drop m p = e y @ drop off' p"
      by (rule field_codec.read_OkE [OF assms fl(2) 1(2)])
    have "drop off p = enc_option e x @ drop off' p"
      by (simp only: 1(3) 2(4) Some fl(1) enc_option_def option.case append_Cons append_Nil)
    moreover have "off' = off + length (enc_option e x)" using 1(1) 2(2) Some by (simp add: enc_option_def)
    ultimately show ?thesis using 2(1,3) Some by simp
  qed
next
  fix off :: nat and p :: bytes
  assume o: "off \<le> length p"
  show "no_panic (rd_option r p off)"
    unfolding rd_option_def
    by (intro u8c.bind_no_panic [OF o]) (auto intro!: field_codec.bind_no_panic [OF assms])
qed

context field_codec
begin

lemma read_seq_Ok:
  "off \<le> length p \<Longrightarrow> read_seq rd n p off = Ok (xs, off') \<Longrightarrow>
   length xs = n \<and> list_all fits xs \<and> off' = off + length (concat (map enc xs)) \<and> off' \<le> length p \<and>
   drop off p = concat (map enc xs) @ drop off' p"
proof (induction n arbitrary: off xs)
  case 0
  then show ?case by simp
next
  case (Suc n)
  then obtain x m ys where h: "rd p off = Ok (x, m)" "read_seq rd n p m = Ok (ys, off')" "xs = x # ys"
    by (auto simp: bind_res_Ok_iff)
  obtain 1: "fits x" "m = off + length (enc x)" "m \<le> length p" "drop off p = enc x @ drop m p"
    by (rule read_OkE [OF h(1) Suc.prems(1)])
  from Suc.IH [OF 1(3) h(2)]
  have 2: "length ys = n" "list_all fits ys" "off' = m + length (concat (map enc ys))" "off' \<le> length p"
    "drop m p = concat (map enc ys) @ drop off' p" by blast+
  have "drop off p = concat (map enc xs) @ drop off' p"
    by (simp only: 1(4) 2(5) h(3) list.map concat.simps append_assoc)
  then show ?case using 1(1,2) 2(1-4) h(3) by simp
qed

lemma read_seq_total: "off \<le> length p \<Longrightarrow> no_panic (read_seq rd n p off)"
proof (induction n arbitrary: off)
  case 0
  then show ?case by simp
next
  case (Suc n)
  have "no_panic (bind_res (read_seq rd n p m) (\<lambda>(xs, o'). Ok (x # xs, o')))" if "m \<le> length p" for x m
    using Suc.IH [OF that] by (cases "read_seq rd n p m") auto
  then show ?case by (auto intro!: bind_no_panic [OF Suc.prems])
qed

end

lemma codec_list:
  assumes "field_codec e r f"
  shows "field_codec (enc_list e) (rd_list r) (fits_list f)"
proof
  fix x :: "'a list" and off p rest
  assume f: "fits_list f x" and o: "off \<le> length p" and "drop off p = enc_list e x @ rest"
  then have d: "drop off p = PutUint32 (u32_len x) @ (concat (map e x) @ rest)" by (simp add: enc_list_def)
  have r1: "ReadU32BE p off = Ok (u32_len x, off + 4)" using u32c.read_write [OF _ o d] by simp
  then have b: "off + 4 \<le> length p" using u32c.read_bounds [OF o r1] by blast
  have "read_seq r (length x) p (off + 4) = Ok (x, off + 4 + length (concat (map e x)))"
    using field_codec.read_seq_concat [OF assms _ b drop_shift [OF d]] f by (simp add: fits_list_def)
  with r1 show "rd_list r p off = Ok (x, off + length (enc_list e x))"
    using f by (simp add: rd_list_def enc_list_def fits_list_def fits_u32_def add.assoc)
next
  fix x :: "'a list" and off off' p
  assume o: "off \<le> length p" and "rd_list r p off = Ok (x, off')"
  then obtain n m where m: "ReadU32BE p off = Ok (n, m)" "read_seq r (unat n) p m = Ok (x, off')"
    by (auto simp: rd_list_def bind_res_Ok_iff)
  obtain 1: "m = off + length (PutUint32 n)" "m \<le> length p" "drop off p = PutUint32 n @ drop m p"
    by (rule u32c.read_OkE [OF m(1) o])
  from field_codec.read_seq_Ok [OF assms 1(2) m(2)]
  have 2: "length x = unat n" "list_all f x" "off' = m + length (concat (map e x))" "off' \<le> length p"
    "drop m p = concat (map e x) @ drop off' p" by blast+
  have n: "u32_len x = n" using 2(1) by (simp add: u32_len_def)
  have "drop off p = enc_list e x @ drop off' p"
    by (simp only: 1(3) 2(5) enc_list_def n append_assoc)
  moreover have "off' = off + length (enc_list e x)" using 1(1) 2(3) by (simp add: enc_list_def)
  moreover have "fits_list f x" using 2(1,2) unat_u32_less [of n] by (simp add: fits_list_def fits_u32_def)
  ultimately show "fits_list f x \<and> off' = off + length (enc_list e x) \<and> off' \<le> length p \<and>
      drop off p = enc_list e x @ drop off' p"
    using 2(4) by blast
next
  fix off :: nat and p :: bytes
  assume o: "off \<le> length p"
  show "no_panic (rd_list r p off)"
    unfolding rd_list_def
    by (intro u32c.bind_no_panic [OF o] field_codec.read_seq_total [OF assms])
qed

text \<open>
  Readers that build a record, that check what they read, or that differ from a codec's reader in
  their errors only.
\<close>

definition rd_map :: "('a \<Rightarrow> 'b) \<Rightarrow> (bytes \<Rightarrow> nat \<Rightarrow> ('a \<times> nat) res) \<Rightarrow> bytes \<Rightarrow> nat \<Rightarrow> ('b \<times> nat) res" where
  "rd_map g r p off = bind_res (r p off) (\<lambda>(x, off'). Ok (g x, off'))"

definition rd_check :: "('a \<Rightarrow> unit res) \<Rightarrow> (bytes \<Rightarrow> nat \<Rightarrow> ('a \<times> nat) res) \<Rightarrow> bytes \<Rightarrow> nat \<Rightarrow> ('a \<times> nat) res" where
  "rd_check check r p off = bind_res (r p off) (\<lambda>(x, off'). bind_res (check x) (\<lambda>_. Ok (x, off')))"

lemma codec_map:
  assumes "field_codec e r f" "\<And>x. f x \<Longrightarrow> h (g x) = x"
  shows "field_codec (\<lambda>y. e (h y)) (rd_map g r) (\<lambda>y. f (h y) \<and> g (h y) = y)"
proof
  fix y off p rest
  assume "f (h y) \<and> g (h y) = y" "off \<le> length p" "drop off p = e (h y) @ rest"
  then show "rd_map g r p off = Ok (y, off + length (e (h y)))"
    using field_codec.read_write [OF assms(1), of "h y" off p rest] by (simp add: rd_map_def)
next
  fix y off off' p
  assume o: "off \<le> length p" and "rd_map g r p off = Ok (y, off')"
  then obtain x where x: "r p off = Ok (x, off')" "y = g x" by (auto simp: rd_map_def bind_res_Ok_iff)
  with field_codec.read_Ok [OF assms(1) o x(1)] assms(2) [of x]
  show "(f (h y) \<and> g (h y) = y) \<and> off' = off + length (e (h y)) \<and> off' \<le> length p \<and>
      drop off p = e (h y) @ drop off' p" by simp
next
  fix off :: nat and p :: bytes
  assume "off \<le> length p"
  then show "no_panic (rd_map g r p off)"
    unfolding rd_map_def by (intro field_codec.bind_no_panic [OF assms(1)]) simp_all
qed

lemma codec_check:
  assumes "field_codec e r f" "\<And>x. no_panic (check x)"
  shows "field_codec e (rd_check check r) (\<lambda>x. f x \<and> check x = Ok ())"
proof
  fix x off p rest
  assume "f x \<and> check x = Ok ()" "off \<le> length p" "drop off p = e x @ rest"
  then show "rd_check check r p off = Ok (x, off + length (e x))"
    using field_codec.read_write [OF assms(1), of x off p rest] by (simp add: rd_check_def)
next
  fix x off off' p
  assume o: "off \<le> length p" and "rd_check check r p off = Ok (x, off')"
  then have x: "r p off = Ok (x, off')" "check x = Ok ()" by (auto simp: rd_check_def bind_res_Ok_iff)
  with field_codec.read_Ok [OF assms(1) o x(1)]
  show "(f x \<and> check x = Ok ()) \<and> off' = off + length (e x) \<and> off' \<le> length p \<and> drop off p = e x @ drop off' p"
    by simp
next
  fix off :: nat and p :: bytes
  assume "off \<le> length p"
  then show "no_panic (rd_check check r p off)"
    unfolding rd_check_def
    by (intro field_codec.bind_no_panic [OF assms(1)] no_panic_bind assms(2)) simp_all
qed

lemma codec_same_Ok:
  assumes "field_codec e r f" "\<And>p off x o'. r' p off = Ok (x, o') \<longleftrightarrow> r p off = Ok (x, o')"
    and "\<And>p off. off \<le> length p \<Longrightarrow> no_panic (r' p off)"
  shows "field_codec e r' f"
  using assms field_codec.read_write [OF assms(1)] field_codec.read_Ok [OF assms(1)]
  by unfold_locales blast+

text \<open>A field that is not on the wire, and fields chosen by a tag byte.\<close>

definition rd_const :: "'a \<Rightarrow> bytes \<Rightarrow> nat \<Rightarrow> ('a \<times> nat) res" where
  "rd_const x p off = Ok (x, off)"

definition rd_case :: "(u8 \<Rightarrow> (bytes \<Rightarrow> nat \<Rightarrow> ('a \<times> nat) res) option) \<Rightarrow> bytes \<Rightarrow> nat \<Rightarrow> ('a \<times> nat) res" where
  "rd_case rs p off =
     bind_res (ReadU8 p off) (\<lambda>(t, off').
       case rs t of None \<Rightarrow> Err (ErrNew ''unknown tag'') | Some r \<Rightarrow> r p off')"

lemma codec_const: "field_codec (\<lambda>_. []) (rd_const x) (\<lambda>y. y = x)"
  by unfold_locales (auto simp: rd_const_def)

lemma codec_case:
  assumes "\<And>t r. rs t = Some r \<Longrightarrow> field_codec e r (\<lambda>x. f x \<and> tag x = t)" "\<And>x. f x \<Longrightarrow> rs (tag x) \<noteq> None"
  shows "field_codec (\<lambda>x. tag x # e x) (rd_case rs) f"
proof
  fix x off p rest
  assume f: "f x" and o: "off \<le> length p" and d: "drop off p = (tag x # e x) @ rest"
  then have d1: "drop off p = [tag x] @ (e x @ rest)" by simp
  have r1: "ReadU8 p off = Ok (tag x, off + 1)" using u8c.read_write [OF _ o d1] by simp
  then have b: "off + 1 \<le> length p" using u8c.read_bounds [OF o r1] by blast
  obtain r where r: "rs (tag x) = Some r" using assms(2) [OF f] by blast
  have "r p (off + 1) = Ok (x, off + 1 + length (e x))"
    using field_codec.read_write [OF assms(1) [OF r] _ b drop_shift [OF d1]] f by simp
  then show "rd_case rs p off = Ok (x, off + length (tag x # e x))" using r1 r by (simp add: rd_case_def)
next
  fix x off off' p
  assume o: "off \<le> length p" and h: "rd_case rs p off = Ok (x, off')"
  then obtain t m r where m: "ReadU8 p off = Ok (t, m)" "rs t = Some r" "r p m = Ok (x, off')"
    by (auto simp: rd_case_def bind_res_Ok_iff split: option.splits)
  obtain 1: "m = off + length [t]" "m \<le> length p" "drop off p = [t] @ drop m p"
    by (rule u8c.read_OkE [OF m(1) o])
  obtain 2: "f x \<and> tag x = t" "off' = m + length (e x)" "off' \<le> length p" "drop m p = e x @ drop off' p"
    by (rule field_codec.read_OkE [OF assms(1) [OF m(2)] m(3) 1(2)])
  have "drop off p = (tag x # e x) @ drop off' p"
    by (simp only: 1(3) 2(4) 2(1) append_Cons append_Nil)
  then show "f x \<and> off' = off + length (tag x # e x) \<and> off' \<le> length p \<and> drop off p = (tag x # e x) @ drop off' p"
    using 1(1) 2(1-3) by simp
next
  fix off :: nat and p :: bytes
  assume o: "off \<le> length p"
  show "no_panic (rd_case rs p off)"
    unfolding rd_case_def
    by (intro u8c.bind_no_panic [OF o]) (auto split: option.split intro: field_codec.read_total [OF assms(1)])
qed

lemmas codec_fields = u8c.field_codec_axioms u16c.field_codec_axioms u32c.field_codec_axioms
  u64c.field_codec_axioms bytesc.field_codec_axioms stringc.field_codec_axioms uuidc.field_codec_axioms

lemmas codec_intros = codec_pair codec_option codec_list codec_fields

lemmas layout_simps = enc_pair_def enc_option_def enc_list_def fits_pair_def fits_list_def

text \<open>Reading a payload as a whole message: the layout, and nothing after it.\<close>

definition decodes :: "(bytes \<Rightarrow> nat \<Rightarrow> ('a \<times> nat) res) \<Rightarrow> bytes \<Rightarrow> 'a \<Rightarrow> bool" where
  "decodes rd p x \<longleftrightarrow> rd p 0 = Ok (x, length p)"

lemma decodes_iff: "field_codec e r f \<Longrightarrow> decodes r p x \<longleftrightarrow> f x \<and> p = e x"
  unfolding decodes_def by (rule field_codec.read_whole_iff)

lemma decodes_unique: "field_codec e r f \<Longrightarrow> decodes r p x \<Longrightarrow> decodes r p y \<Longrightarrow> x = y"
  by (simp add: decodes_def)

end
