(* ===== verification/Wire_Frame.thy ===== *)
theory Wire_Frame
  imports Fitz_Prelude
begin

text \<open>
  The wire-3 message frame of \<open>internal/protocol/frame.go\<close> and the message-type registry of
  \<open>internal/protocol/message_types.go\<close>. A frame is a fifteen-byte header (type, flags,
  correlation, payload length) and its payload. The buffer pools of the source only recycle
  memory: an owned frame buffer is modelled by its contents, and a nil buffer by \<open>None\<close>.
\<close>

section \<open>Constants\<close>

definition HeaderLen :: nat where "HeaderLen = 15"
definition MaxMessageSize :: nat where "MaxMessageSize = 1048576"
definition MaxPayloadSize :: nat where "MaxPayloadSize = MaxMessageSize - HeaderLen"

definition FlagAckRequested :: u8 where "FlagAckRequested = 1"
definition FlagResponseFinal :: u8 where "FlagResponseFinal = 2"
definition FlagExtensionsPresent :: u8 where "FlagExtensionsPresent = 4"
definition validFlags :: u8 where
  "validFlags = FlagAckRequested OR FlagResponseFinal OR FlagExtensionsPresent"

lemmas frame_consts = HeaderLen_def MaxMessageSize_def MaxPayloadSize_def

text \<open>\<open>flags &^ validFlags != 0\<close>\<close>

definition bad_flags :: "u8 \<Rightarrow> bool" where
  "bad_flags flags \<longleftrightarrow> flags AND (NOT validFlags) \<noteq> 0"

record frame =
  MessageType :: u16
  Flags :: u8
  CorrelationID :: u64
  Payload :: bytes

section \<open>Encoding\<close>

definition EncodeFrameOwnedWithHeader :: "u16 \<Rightarrow> u8 \<Rightarrow> u64 \<Rightarrow> bytes \<Rightarrow> bytes option" where
  "EncodeFrameOwnedWithHeader msgType flags correlationID payload =
     (if length payload > MaxPayloadSize \<or> bad_flags flags then None
      else Some (PutUint16 msgType @ [flags] @
                 (PutUint64 correlationID @ PutUint32 (u32_len payload)) @ payload))"

definition EncodeFrameOwned :: "u16 \<Rightarrow> bytes \<Rightarrow> bytes option" where
  "EncodeFrameOwned msgType payload = EncodeFrameOwnedWithHeader msgType 0 0 payload"

definition EncodeFrame :: "u16 \<Rightarrow> bytes \<Rightarrow> bytes option" where
  "EncodeFrame msgType payload =
     (case EncodeFrameOwned msgType payload of None \<Rightarrow> None | Some frame \<Rightarrow> Some frame)"

definition EncodeCorrelatedFrameOwned :: "u64 \<Rightarrow> u16 \<Rightarrow> bytes \<Rightarrow> bytes option" where
  "EncodeCorrelatedFrameOwned correlationID msgType payload =
     (if correlationID = 0 then None
      else EncodeFrameOwnedWithHeader msgType 0 correlationID payload)"

text \<open>
  The writer variant first writes a zero header, lets the writer add the payload and then patches
  correlation and length into the header. A nil writer is \<open>None\<close>.
\<close>

definition EncodeFrameWithHeaderAndPayloadWriter ::
  "u16 \<Rightarrow> u8 \<Rightarrow> u64 \<Rightarrow> writer option \<Rightarrow> bytes res" where
  "EncodeFrameWithHeaderAndPayloadWriter msgType flags correlationID writePayload =
     (case writePayload of
        None \<Rightarrow> Err (ErrNew ''payload writer is nil'')
      | Some w \<Rightarrow>
          if bad_flags flags then Err (ErrNew ''unsupported frame flags'')
          else
            (let buf0 = PutUint16 msgType @ [flags] @ replicate 12 0;
                 payloadStart = length buf0;
                 buf = w buf0;
                 payloadLen = length buf - payloadStart
             in if payloadLen > MaxPayloadSize then Err (ErrNew ''message too large'')
                else Ok (splice 11 (PutUint32 (word_of_nat payloadLen))
                          (splice 3 (PutUint64 correlationID) buf))))"

definition EncodeFrameWithPayloadWriter :: "u16 \<Rightarrow> writer option \<Rightarrow> bytes res" where
  "EncodeFrameWithPayloadWriter msgType writePayload =
     EncodeFrameWithHeaderAndPayloadWriter msgType 0 0 writePayload"

section \<open>Decoding\<close>

definition DecodeMessage :: "bytes \<Rightarrow> frame res" where
  "DecodeMessage data =
     (if length data > MaxMessageSize then Err (ErrNew ''message exceeds maximum size'')
      else if length data < HeaderLen then Err (ErrNew ''message header is truncated'')
      else bind_res (index data 2) (\<lambda>flags.
        if bad_flags flags then Err (ErrNew ''unsupported frame flags'')
        else bind_res (bind_res (slice data 11 15) Uint32) (\<lambda>len32.
          let len = unat len32 in
          if len + HeaderLen \<noteq> length data
          then Err (ErrNew ''message length does not match frame size'')
          else bind_res (bind_res (slice data 0 2) Uint16) (\<lambda>mt.
               bind_res (bind_res (slice data 3 11) Uint64) (\<lambda>cid.
               bind_res (slice_from data HeaderLen) (\<lambda>payload.
                 Ok \<lparr>MessageType = mt, Flags = flags, CorrelationID = cid, Payload = payload\<rparr>))))))"

definition DecodeFrame :: "bytes \<Rightarrow> (u16 \<times> bytes) res" where
  "DecodeFrame data = bind_res (DecodeMessage data) (\<lambda>f. Ok (MessageType f, Payload f))"

definition DecodeFrames :: "bytes \<Rightarrow> frame list res" where
  "DecodeFrames data = bind_res (DecodeMessage data) (\<lambda>f. Ok [f])"

section \<open>TCP framing and message types\<close>

definition EncodeTCPFrameOwned :: "u16 \<Rightarrow> bytes \<Rightarrow> bytes option" where
  "EncodeTCPFrameOwned msgType payload =
     (case EncodeFrameOwned msgType payload of
        None \<Rightarrow> None
      | Some message \<Rightarrow> Some (PutUint32 (u32_len message) @ message))"

definition EncodeTCPFrame :: "u16 \<Rightarrow> bytes \<Rightarrow> bytes option" where
  "EncodeTCPFrame msgType payload =
     (case EncodeTCPFrameOwned msgType payload of None \<Rightarrow> None | Some frame \<Rightarrow> Some frame)"

definition DecodeTCPFrameLength :: "bytes \<Rightarrow> u32 res" where
  "DecodeTCPFrameLength lengthPrefix =
     (if length lengthPrefix < 4 then Err (ErrNew ''insufficient data for TCP frame length'')
      else Uint32 lengthPrefix)"

definition EncodeMessageType :: "u16 \<Rightarrow> bytes" where
  "EncodeMessageType msgType = PutUint16 msgType"

definition DecodeMessageType :: "bytes \<Rightarrow> (u16 \<times> nat) res" where
  "DecodeMessageType data =
     (if length data < 2 then Err (ErrNew ''insufficient data for message type'')
      else bind_res (bind_res (slice data 0 2) Uint16) (\<lambda>v. Ok (v, 2)))"

text \<open>The registry of message types: one range per domain.\<close>

definition RouteDomain :: "u16 \<Rightarrow> string" where
  "RouteDomain msgType =
     (if 100 \<le> msgType \<and> msgType \<le> 199 then ''kv''
      else if 200 \<le> msgType \<and> msgType \<le> 299 then ''queue''
      else if 300 \<le> msgType \<and> msgType \<le> 399 then ''rpc''
      else if 400 \<le> msgType \<and> msgType \<le> 499 then ''lease''
      else if 500 \<le> msgType \<and> msgType \<le> 599 then ''notice''
      else if 600 \<le> msgType \<and> msgType \<le> 699 then ''stream''
      else if 700 \<le> msgType \<and> msgType \<le> 799 then ''schedule''
      else ''unknown'')"

section \<open>Lemmas\<close>

lemma EncodeFrameOwnedWithHeader_length:
  "EncodeFrameOwnedWithHeader mt fl cid p = Some d \<Longrightarrow> length d = HeaderLen + length p"
  by (auto simp: EncodeFrameOwnedWithHeader_def HeaderLen_def split: if_splits)

lemma payload_fits_u32: "length p \<le> MaxPayloadSize \<Longrightarrow> unat (u32_len p) = length p"
  by (rule unat_u32_len) (simp add: frame_consts)

lemma take_drop_append3:
  "length a = n \<Longrightarrow> length b = m \<Longrightarrow> take m (drop n (a @ b @ c)) = b"
  by simp

lemma DecodeMessage_wire:
  assumes "length p \<le> MaxPayloadSize" "\<not> bad_flags fl"
  shows "DecodeMessage (PutUint16 mt @ [fl] @ (PutUint64 cid @ PutUint32 (u32_len p)) @ p)
    = Ok \<lparr>MessageType = mt, Flags = fl, CorrelationID = cid, Payload = p\<rparr>"
proof -
  define d where "d = PutUint16 mt @ [fl] @ (PutUint64 cid @ PutUint32 (u32_len p)) @ p"
  have "length d = 15 + length p" by (simp add: d_def)
  moreover have "index d 2 = Ok fl" by (simp add: d_def nth_append)
  moreover have "slice d 11 15 = Ok (PutUint32 (u32_len p))"
    using take_drop_append3 [of "PutUint16 mt @ [fl] @ PutUint64 cid" 11 "PutUint32 (u32_len p)" 4 p]
    by (simp add: d_def)
  moreover have "slice d 0 2 = Ok (PutUint16 mt)" by (simp add: d_def)
  moreover have "slice d 3 11 = Ok (PutUint64 cid)"
    using take_drop_append3 [of "PutUint16 mt @ [fl]" 3 "PutUint64 cid" 8 "PutUint32 (u32_len p) @ p"]
    by (simp add: d_def)
  moreover have "slice_from d HeaderLen = Ok p" by (simp add: d_def HeaderLen_def)
  ultimately have "DecodeMessage d
    = Ok \<lparr>MessageType = mt, Flags = fl, CorrelationID = cid, Payload = p\<rparr>"
    using assms payload_fits_u32 [OF assms(1)]
    by (simp add: DecodeMessage_def Let_def frame_consts del: slice_Ok slice_from_Ok index_Ok)
  then show ?thesis by (simp add: d_def)
qed

lemma DecodeMessage_Ok_bytes:
  assumes "DecodeMessage d = Ok f"
  shows "d = PutUint16 (MessageType f) @ [Flags f] @
             (PutUint64 (CorrelationID f) @ PutUint32 (u32_len (Payload f))) @ Payload f
    \<and> length (Payload f) \<le> MaxPayloadSize \<and> \<not> bad_flags (Flags f)"
proof -
  from assms have len: "length d \<le> MaxMessageSize" "15 \<le> length d"
    by (auto simp: DecodeMessage_def HeaderLen_def split: if_splits)
  then have idx: "index d 2 = Ok (d ! 2)" "slice d 11 15 = Ok (take 4 (drop 11 d))"
    "slice d 0 2 = Ok (take 2 d)" "slice d 3 11 = Ok (take 8 (drop 3 d))"
    "slice_from d HeaderLen = Ok (drop 15 d)"
    by (simp_all add: HeaderLen_def)
  from assms len obtain l mt cid where
    l: "Uint32 (take 4 (drop 11 d)) = Ok l" "unat l + 15 = length d" and
    mt: "Uint16 (take 2 d) = Ok mt" and cid: "Uint64 (take 8 (drop 3 d)) = Ok cid" and
    fl: "\<not> bad_flags (d ! 2)" and
    f: "f = \<lparr>MessageType = mt, Flags = d ! 2, CorrelationID = cid, Payload = drop 15 d\<rparr>"
    by (auto simp: DecodeMessage_def idx Let_def bind_res_Ok_iff HeaderLen_def split: if_splits)
  have pl: "length (drop 15 d) \<le> MaxPayloadSize" using len by (simp add: frame_consts)
  have "u32_len (drop 15 d) = l"
    using l(2) payload_fits_u32 [OF pl] by (simp add: word_unat_eq_iff)
  then have "PutUint32 (u32_len (drop 15 d)) = take 4 (drop 11 d)"
    using Put_Uint(2) [OF l(1)] by simp
  moreover have "PutUint16 mt = take 2 d" "PutUint64 cid = take 8 (drop 3 d)"
    using Put_Uint(1) [OF mt] Put_Uint(3) [OF cid] by simp_all
  moreover have "d = take 2 d @ [d ! 2] @ (take 8 (drop 3 d) @ take 4 (drop 11 d)) @ drop 15 d"
  proof -
    have "d = take 2 d @ drop 2 d" by simp
    also have "drop 2 d = d ! 2 # drop 3 d" using len(2) Cons_nth_drop_Suc [of 2 d] by simp
    also have "drop 3 d = take 8 (drop 3 d) @ drop 11 d"
      using append_take_drop_id [of 8 "drop 3 d"] by simp
    also have "drop 11 d = take 4 (drop 11 d) @ drop 15 d"
      using append_take_drop_id [of 4 "drop 11 d"] by simp
    finally show ?thesis by simp
  qed
  ultimately show ?thesis using pl fl f by simp
qed

lemma DecodeMessage_no_panic [no_panic_intros]: "no_panic (DecodeMessage d)"
  by (auto simp: DecodeMessage_def Let_def HeaderLen_def intro!: no_panic_intros)

section \<open>Properties\<close>

text \<open>C3: Frame codec. The decoder accepts exactly the byte strings the encoder produces: a message
  decodes to a frame if and only if encoding that frame's fields yields the message. So encoding
  then decoding is the identity on every frame that can be encoded, no two messages decode to the
  same frame, and a message with a wrong length, unknown flags or a size over the limit is
  refused.\<close>

theorem frame_codec_exact:
  "DecodeMessage data = Ok f \<longleftrightarrow>
     EncodeFrameOwnedWithHeader (MessageType f) (Flags f) (CorrelationID f) (Payload f) = Some data"
proof
  assume "DecodeMessage data = Ok f"
  from DecodeMessage_Ok_bytes [OF this]
  show "EncodeFrameOwnedWithHeader (MessageType f) (Flags f) (CorrelationID f) (Payload f) = Some data"
    by (simp add: EncodeFrameOwnedWithHeader_def)
next
  assume "EncodeFrameOwnedWithHeader (MessageType f) (Flags f) (CorrelationID f) (Payload f) = Some data"
  then have "length (Payload f) \<le> MaxPayloadSize" "\<not> bad_flags (Flags f)"
    and "data = PutUint16 (MessageType f) @ [Flags f] @
      (PutUint64 (CorrelationID f) @ PutUint32 (u32_len (Payload f))) @ Payload f"
    by (auto simp: EncodeFrameOwnedWithHeader_def split: if_splits)
  then show "DecodeMessage data = Ok f" using DecodeMessage_wire by simp
qed

text \<open>The zero-copy encoder, which lets a payload writer fill the buffer behind a zero header
  and then patches correlation and length in, produces the same message as the plain encoder on
  the payload the writer writes, and fails on exactly the same inputs.\<close>

theorem frame_writer_agrees:
  assumes "append_only w"
  shows "EncodeFrameWithHeaderAndPayloadWriter msgType flags correlationID (Some w) = Ok data \<longleftrightarrow>
    EncodeFrameOwnedWithHeader msgType flags correlationID (w []) = Some data"
proof -
  define hd where "hd = PutUint16 msgType @ [flags]"
  define B where "B = hd @ replicate 8 0 @ replicate 4 0 @ w []"
  have hd: "length hd = 3" by (simp add: hd_def)
  have zeros: "replicate 12 (0 :: u8) = replicate 8 0 @ replicate 4 0"
    by (simp flip: replicate_add)
  have B: "w (PutUint16 msgType @ [flags] @ replicate 12 0) = B"
    using append_only_apply [OF assms, of "PutUint16 msgType @ [flags] @ replicate 12 0"]
    by (simp only: B_def hd_def zeros append_assoc)
  have lenB: "length B = 15 + length (w [])" by (simp add: B_def hd)
  have "splice 3 (PutUint64 correlationID) B = hd @ PutUint64 correlationID @ replicate 4 0 @ w []"
    unfolding B_def by (rule splice_mid) (simp_all add: hd)
  then have sp: "splice 11 v (splice 3 (PutUint64 correlationID) B)
    = PutUint16 msgType @ [flags] @ (PutUint64 correlationID @ v) @ w []" if "length v = 4" for v
    using splice_mid [of "hd @ PutUint64 correlationID" 11 "replicate 4 0" v "w []"] that
    by (simp add: hd hd_def)
  show ?thesis
    unfolding EncodeFrameWithHeaderAndPayloadWriter_def EncodeFrameOwnedWithHeader_def Let_def
      option.case B sp [OF length_Put(2)] u32_len_def
    by (simp add: lenB)
qed

theorem frame_writer_agrees_witness:
  "append_only (\<lambda>buf. buf @ [7, 9]) \<and>
   EncodeFrameOwnedWithHeader 104 0 5 [7, 9] = Some [0, 104, 0, 0, 0, 0, 0, 0, 0, 0, 5, 0, 0, 0, 2, 7, 9] \<and>
   EncodeFrameWithHeaderAndPayloadWriter 104 0 5 (Some (\<lambda>buf. buf @ [7, 9]))
     = Ok [0, 104, 0, 0, 0, 0, 0, 0, 0, 0, 5, 0, 0, 0, 2, 7, 9]"
proof -
  have ao: "append_only (\<lambda>buf. buf @ [7, 9])" by (rule append_only_append)
  have enc: "EncodeFrameOwnedWithHeader 104 0 5 [7, 9]
    = Some [0, 104, 0, 0, 0, 0, 0, 0, 0, 0, 5, 0, 0, 0, 2, 7, 9]"
    by (simp add: EncodeFrameOwnedWithHeader_def bad_flags_def frame_consts u32_len_def int_eval)
  with ao show ?thesis using frame_writer_agrees [OF ao, of 104 0 5] by simp
qed

end
