(* ===== verification/Wire_Extensions.thy ===== *)
theory Wire_Extensions
  imports Wire_Frame
begin

text \<open>
  The extension envelope of \<open>internal/protocol/extensions.go\<close>: a payload with the extension flag
  holds the length of the core payload, the core payload and a sequence of identified fields.
  The capability list is field 1 of \<open>HELLO\<close>.
\<close>

section \<open>Model\<close>

definition MessageTypeHello :: u16 where "MessageTypeHello = 2"
definition CapabilityQueueMessageTTL :: u32 where "CapabilityQueueMessageTTL = 1"
definition CapabilityQueueNack :: u32 where "CapabilityQueueNack = 2"

record extension =
  ext_id :: u16
  ext_value :: bytes

text \<open>The first loop of \<open>EncodeExtensions\<close>: identifiers must ascend; sizes are summed.\<close>

fun ext_sizes :: "u16 \<Rightarrow> nat \<Rightarrow> extension list \<Rightarrow> nat res" where
  "ext_sizes previous sz [] = Ok sz"
| "ext_sizes previous sz (field # exts) =
     (if ext_id field \<le> previous
      then Err (ErrNew ''extension IDs must be nonzero and ascending'')
      else ext_sizes (ext_id field) (sz + (6 + length (ext_value field))) exts)"

text \<open>The bytes of one field: its header and its value.\<close>

definition enc_ext :: "extension \<Rightarrow> bytes" where
  "enc_ext field =
     (PutUint16 (ext_id field) @ PutUint32 (u32_len (ext_value field))) @ ext_value field"

definition EncodeExtensions :: "bytes \<Rightarrow> extension list \<Rightarrow> bytes res" where
  "EncodeExtensions core exts =
     (if exts = [] then Ok core
      else bind_res (ext_sizes 0 (4 + length core) exts) (\<lambda>sz.
        if sz > MaxPayloadSize then Err (ErrNew ''extension payload exceeds message limit'')
        else Ok (foldl (\<lambda>result field. result @ enc_ext field)
                  (PutUint32 (u32_len core) @ core) exts)))"

definition ClientCapabilityList :: bytes where
  "ClientCapabilityList = [0, 2, 0, 0, 0, 1, 0, 0, 0, 2]"

text \<open>
  The capability loop of \<open>DecodeExtensions\<close>: \<open>pos\<close> is the position of the next value, the third
  argument the number of values left.
\<close>

fun capability_values :: "bytes \<Rightarrow> nat \<Rightarrow> nat \<Rightarrow> u32 \<Rightarrow> u32 list \<Rightarrow> u32 list res" where
  "capability_values payload pos 0 previous capabilities = Ok capabilities"
| "capability_values payload pos (Suc n) previous capabilities =
     bind_res (bind_res (slice_from payload pos) Uint32) (\<lambda>v.
       if v \<le> previous then Err (ErrNew ''capabilities must be nonzero and ascending'')
       else capability_values payload (pos + 4) n v
              (if v = CapabilityQueueMessageTTL \<or> v = CapabilityQueueNack
               then capabilities @ [v] else capabilities))"

text \<open>The body of \<open>if handshake && id == 1\<close>; \<open>cursor\<close> is at the value.\<close>

definition capability_field ::
  "bytes \<Rightarrow> nat \<Rightarrow> nat \<Rightarrow> u32 list \<Rightarrow> bool \<Rightarrow> u32 list res" where
  "capability_field payload cursor sz capabilities capabilitiesSeen =
     (if capabilitiesSeen \<or> sz < 2 then Err (ErrNew ''duplicate or truncated capabilities'')
      else bind_res (bind_res (slice_from payload cursor) Uint16) (\<lambda>count16.
        let count = unat count16 in
        if sz \<noteq> 2 + 4 * count then Err (ErrNew ''capability length mismatch'')
        else capability_values payload (cursor + 2) count 0 capabilities))"

text \<open>The field loop: \<open>for cursor < len(payload)\<close>. Every turn moves the cursor by six or more.\<close>

function ext_loop ::
  "bool \<Rightarrow> bytes \<Rightarrow> nat \<Rightarrow> u32 list \<Rightarrow> bool \<Rightarrow> (u32 list \<times> bool) res" where
  "ext_loop handshake payload cursor capabilities capabilitiesSeen =
     (if cursor < length payload then
        (if length payload - cursor < 6 then Err (ErrNew ''truncated extension header'')
         else bind_res (bind_res (slice_from payload cursor) Uint16) (\<lambda>i.
              bind_res (bind_res (slice_from payload (cursor + 2)) Uint32) (\<lambda>size32.
                let sz = unat size32 in
                if i = 0 \<or> sz > length payload - (cursor + 6)
                then Err (ErrNew ''invalid extension ID or length'')
                else if handshake \<and> i = 1
                then bind_res (capability_field payload (cursor + 6) sz capabilities
                                capabilitiesSeen)
                       (\<lambda>capabilities'. ext_loop handshake payload (cursor + 6 + sz)
                                          capabilities' True)
                else ext_loop handshake payload (cursor + 6 + sz) capabilities
                       capabilitiesSeen)))
      else Ok (capabilities, capabilitiesSeen))"
  by pat_completeness auto
termination
  by (relation "measure (\<lambda>(handshake, payload, cursor, capabilities, seen). length payload - cursor)")
    auto

declare ext_loop.simps [simp del]

definition DecodeExtensions :: "frame \<Rightarrow> (bytes \<times> u32 list) res" where
  "DecodeExtensions f =
     (let handshake = (MessageType f = MessageTypeHello) in
      if Flags f AND FlagExtensionsPresent = 0 then
        (if handshake then Err (ErrNew ''HELLO requires capability extensions'')
         else Ok (Payload f, []))
      else
        (let payload = Payload f in
         if length payload < 4 then Err (ErrNew ''truncated extension core length'')
         else bind_res (bind_res (slice payload 0 4) Uint32) (\<lambda>core32.
           let coreEnd = 4 + unat core32 in
           if coreEnd \<ge> length payload
           then Err (ErrNew ''core exceeds extension bounds or no fields'')
           else bind_res (ext_loop handshake payload coreEnd [] False) (\<lambda>(capabilities, seen).
             if handshake \<and> \<not> seen then Err (ErrNew ''HELLO capability list is missing'')
             else bind_res (slice payload 4 coreEnd) (\<lambda>core. Ok (core, capabilities))))))"

section \<open>Specification\<close>

text \<open>
  The grammar the decoder accepts. A field is well formed when its identifier is not zero and its
  length fits the length field; the capability list is a count and strictly ascending values; a
  field sequence is read left to right, with at most one capability list.
\<close>

definition ext_ok :: "extension \<Rightarrow> bool" where
  "ext_ok e \<longleftrightarrow> ext_id e \<noteq> 0 \<and> length (ext_value e) < 2 ^ 32"

fun ascending :: "'a::order \<Rightarrow> 'a list \<Rightarrow> bool" where
  "ascending p [] = True"
| "ascending p (x # xs) = (p < x \<and> ascending x xs)"

definition known_capability :: "u32 \<Rightarrow> bool" where
  "known_capability v \<longleftrightarrow> v = CapabilityQueueMessageTTL \<or> v = CapabilityQueueNack"

definition cap_list :: "u32 list \<Rightarrow> bytes" where
  "cap_list cs = PutUint16 (word_of_nat (length cs)) @ concat (map PutUint32 cs)"

definition cap_value :: "bytes \<Rightarrow> u32 list \<Rightarrow> bool" where
  "cap_value v cs \<longleftrightarrow> length cs < 2 ^ 16 \<and> ascending 0 cs \<and> v = cap_list cs"

inductive hello_fields :: "bool \<Rightarrow> extension list \<Rightarrow> u32 list \<Rightarrow> bool \<Rightarrow> u32 list \<Rightarrow> bool \<Rightarrow> bool"
  for handshake :: bool where
  hf_Nil: "hello_fields handshake [] caps seen caps seen"
| hf_caps: "\<lbrakk>handshake; ext_id f = 1; \<not> seen; cap_value (ext_value f) cs;
     hello_fields handshake fs (caps @ filter known_capability cs) True caps' seen'\<rbrakk>
     \<Longrightarrow> hello_fields handshake (f # fs) caps seen caps' seen'"
| hf_other: "\<lbrakk>\<not> (handshake \<and> ext_id f = 1); hello_fields handshake fs caps seen caps' seen'\<rbrakk>
     \<Longrightarrow> hello_fields handshake (f # fs) caps seen caps' seen'"

inductive_simps hello_fields_Nil: "hello_fields handshake [] caps seen caps' seen'"
inductive_simps hello_fields_Cons: "hello_fields handshake (f # fs) caps seen caps' seen'"

section \<open>Lemmas\<close>

lemma length_enc_ext [simp]: "length (enc_ext e) = 6 + length (ext_value e)"
  by (simp add: enc_ext_def)

lemma foldl_enc_ext: "foldl (\<lambda>r f. r @ enc_ext f) b fs = b @ concat (map enc_ext fs)"
  by (induction fs arbitrary: b) auto

lemma ext_sizes_Ok_iff:
  "ext_sizes p n fs = Ok s \<longleftrightarrow>
     ascending p (map ext_id fs) \<and> s = n + length (concat (map enc_ext fs))"
proof (induction fs arbitrary: p n)
  case Nil
  show ?case by (simp add: eq_commute)
next
  case (Cons f fs)
  show ?case
  proof (cases "p < ext_id f")
    case True
    then have "\<not> ext_id f \<le> p" by (simp only: not_le)
    with True show ?thesis using Cons.IH [of "ext_id f"] by (simp add: add.assoc)
  next
    case False
    then show ?thesis by (simp add: not_less)
  qed
qed

lemma EncodeExtensions_Ok_iff:
  assumes "exts \<noteq> []"
  shows "EncodeExtensions core exts = Ok p \<longleftrightarrow>
    ascending 0 (map ext_id exts) \<and> length p \<le> MaxPayloadSize \<and>
    p = PutUint32 (u32_len core) @ core @ concat (map enc_ext exts)"
  using assms
  by (auto simp: EncodeExtensions_def bind_res_Ok_iff ext_sizes_Ok_iff foldl_enc_ext)

lemma chunks4:
  "length xs = 4 * n \<Longrightarrow> \<exists>cs. length cs = n \<and> xs = concat (map PutUint32 cs)"
proof (induction n arbitrary: xs)
  case 0
  then show ?case by simp
next
  case (Suc n)
  then have "length (drop 4 xs) = 4 * n" by simp
  with Suc.IH obtain cs where cs: "length cs = n" "drop 4 xs = concat (map PutUint32 cs)" by blast
  have "4 \<le> length xs" using Suc.prems by simp
  then obtain b where "Uint32 xs = Ok b" using Uint_Ok_iff(2) [of xs] by blast
  then have "PutUint32 b = take 4 xs" by (rule Put_Uint)
  then have "xs = concat (map PutUint32 (b # cs))"
    using cs(2) append_take_drop_id [of 4 xs] by simp
  then show ?case using cs(1) by (intro exI [of _ "b # cs"]) simp
qed

lemma capability_values_concat:
  assumes "drop pos payload = concat (map PutUint32 cs) @ rest"
  shows "capability_values payload pos (length cs) p caps
    = (if ascending p cs then Ok (caps @ filter known_capability cs)
       else Err (ErrNew ''capabilities must be nonzero and ascending''))"
  using assms
proof (induction cs arbitrary: pos p caps)
  case Nil
  then show ?case by simp
next
  case (Cons c cs)
  have pos: "pos \<le> length payload"
    using drop_pos [of pos payload "PutUint32 c"] Cons.prems by simp
  have rd: "bind_res (slice_from payload pos) Uint32 = Ok c"
    using pos Cons.prems by simp
  have "drop (pos + 4) payload = concat (map PutUint32 cs) @ rest"
    by (rule drop_shift [of _ _ "PutUint32 c"]) (use Cons.prems in simp_all)
  from Cons.IH [OF this, of c "if known_capability c then caps @ [c] else caps"]
  show ?case by (auto simp: rd simp flip: known_capability_def)
qed

lemma capability_values_no_panic:
  "pos + 4 * n \<le> length payload \<Longrightarrow> no_panic (capability_values payload pos n p caps)"
  by (induction n arbitrary: pos p caps) (auto intro!: no_panic_intros)

lemma capability_field_Ok_iff:
  assumes "drop cursor payload = v @ rest" "cursor \<le> length payload"
  shows "capability_field payload cursor (length v) caps seen = Ok caps' \<longleftrightarrow>
    \<not> seen \<and> (\<exists>cs. cap_value v cs \<and> caps' = caps @ filter known_capability cs)"
  (is "?L \<longleftrightarrow> ?R")
proof
  assume ?L
  then have ns: "\<not> seen" and l2: "2 \<le> length v"
    by (auto simp: capability_field_def split: if_splits)
  then obtain n where n: "Uint16 v = Ok n" using Uint_Ok_iff(1) [of v] by blast
  define w where "w = drop 2 v"
  have v: "v = PutUint16 n @ w"
    using Put_Uint(1) [OF n] by (simp add: w_def)
  have dr: "drop cursor payload = PutUint16 n @ (w @ rest)"
    using assms(1) v by simp
  have rd: "bind_res (slice_from payload cursor) Uint16 = Ok n"
    using assms(2) dr by simp
  from \<open>?L\<close> have len: "length v = 2 + 4 * unat n"
    and cv: "capability_values payload (cursor + 2) (unat n) 0 caps = Ok caps'"
    using ns l2 by (auto simp: capability_field_def rd Let_def split: if_splits)
  from len v have "length w = 4 * unat n" by simp
  then obtain cs where cs: "length cs = unat n" "w = concat (map PutUint32 cs)"
    using chunks4 by blast
  have d2: "drop (cursor + 2) payload = concat (map PutUint32 cs) @ rest"
    using drop_shift [OF dr, of 2] cs(2) by simp
  have "ascending 0 cs" "caps' = caps @ filter known_capability cs"
    using cv capability_values_concat [OF d2, of 0 caps] cs(1) by (auto split: if_splits)
  moreover have "length cs < 2 ^ 16"
    unfolding cs(1) using unsigned_less [of n] by simp
  moreover have "v = cap_list cs"
    using v cs by (simp add: cap_list_def)
  ultimately show ?R using ns by (auto simp: cap_value_def)
next
  assume ?R
  then obtain cs where ns: "\<not> seen" and cs: "length cs < 2 ^ 16" "ascending 0 cs"
    "v = cap_list cs" "caps' = caps @ filter known_capability cs"
    by (auto simp: cap_value_def)
  have un: "unat (word_of_nat (length cs) :: u16) = length cs"
    using cs(1) by (simp add: unat_of_nat)
  have dr: "drop cursor payload
    = PutUint16 (word_of_nat (length cs)) @ (concat (map PutUint32 cs) @ rest)"
    using assms(1) cs(3) by (simp add: cap_list_def)
  have rd: "bind_res (slice_from payload cursor) Uint16 = Ok (word_of_nat (length cs))"
    using assms(2) dr by simp
  have d2: "drop (cursor + 2) payload = concat (map PutUint32 cs) @ rest"
    using drop_shift [OF dr, of 2] by simp
  have "length v = 2 + 4 * length cs"
    using cs(3) by (simp add: cap_list_def length_concat comp_def sum_list_triv)
  then show ?L
    using ns cs(2,4) capability_values_concat [OF d2, of 0 caps]
    by (simp add: capability_field_def rd un Let_def)
qed

lemma capability_field_no_panic [no_panic_intros]:
  "cursor + sz \<le> length payload \<Longrightarrow> no_panic (capability_field payload cursor sz caps seen)"
  by (auto simp: capability_field_def Let_def intro!: no_panic_intros capability_values_no_panic)

text \<open>One turn of the field loop on a well-formed field, and the loop as a whole.\<close>

lemma ext_header_split:
  assumes "6 \<le> length xs"
  obtains i l rest where "xs = PutUint16 i @ PutUint32 l @ rest"
proof -
  from assms obtain i where i: "Uint16 xs = Ok i" using Uint_Ok_iff(1) [of xs] by auto
  from assms have "4 \<le> length (drop 2 xs)" by simp
  then obtain l where l: "Uint32 (drop 2 xs) = Ok l" using Uint_Ok_iff(2) [of "drop 2 xs"] by blast
  have "xs = take 2 xs @ take 4 (drop 2 xs) @ drop 4 (drop 2 xs)"
    by (simp only: append_take_drop_id)
  then have "xs = PutUint16 i @ PutUint32 l @ drop 4 (drop 2 xs)"
    using Put_Uint(1) [OF i] Put_Uint(2) [OF l] by simp
  then show ?thesis by (rule that)
qed

lemma ext_loop_done: "length payload \<le> cursor \<Longrightarrow> ext_loop hs payload cursor caps seen = Ok (caps, seen)"
  by (simp add: ext_loop.simps)

lemma ext_loop_field:
  assumes "drop cursor payload = enc_ext e @ rest" "ext_ok e"
  shows "ext_loop hs payload cursor caps seen =
    (if hs \<and> ext_id e = 1
     then bind_res (capability_field payload (cursor + 6) (length (ext_value e)) caps seen)
            (\<lambda>caps'. ext_loop hs payload (cursor + 6 + length (ext_value e)) caps' True)
     else ext_loop hs payload (cursor + 6 + length (ext_value e)) caps seen)"
proof -
  have pos: "cursor + 6 + length (ext_value e) \<le> length payload"
    using drop_pos [OF assms(1)] by simp
  have d0: "drop cursor payload = PutUint16 (ext_id e) @
    (PutUint32 (u32_len (ext_value e)) @ ext_value e @ rest)"
    using assms(1) by (simp add: enc_ext_def)
  have d2: "drop (cursor + 2) payload = PutUint32 (u32_len (ext_value e)) @ ext_value e @ rest"
    by (rule drop_shift [OF d0]) simp
  have len: "unat (u32_len (ext_value e)) = length (ext_value e)" and nz: "ext_id e \<noteq> 0"
    using assms(2) by (simp_all add: ext_ok_def)
  have r0: "bind_res (slice_from payload cursor) Uint16 = Ok (ext_id e)"
    using pos d0 by simp
  have r2: "bind_res (slice_from payload (cursor + 2)) Uint32 = Ok (u32_len (ext_value e))"
    using pos d2 by simp
  have nb: "\<not> (length payload - (cursor + 6) < length (ext_value e))" using pos by linarith
  have guard: "cursor < length payload" "\<not> length payload - cursor < 6" using pos by linarith+
  show ?thesis
    by (subst ext_loop.simps) (simp only: guard r0 r2 bind_res.simps len Let_def nz nb simp_thms if_True if_False)
qed

lemma ext_loop_Ok_field:
  assumes "ext_loop hs payload cursor caps seen = Ok r" "cursor < length payload"
  obtains e rest where "drop cursor payload = enc_ext e @ rest" "ext_ok e"
proof -
  from assms have l6: "6 \<le> length (drop cursor payload)"
    by (subst (asm) ext_loop.simps) (auto split: if_splits)
  then obtain i l rest where d0: "drop cursor payload = PutUint16 i @ (PutUint32 l @ rest)"
    by (rule ext_header_split)
  have d2: "drop (cursor + 2) payload = PutUint32 l @ rest"
    by (rule drop_shift [OF d0]) simp
  have "drop (cursor + 2 + 4) payload = rest" by (rule drop_shift [OF d2]) simp
  then have lr: "length rest = length payload - (cursor + 6)" by (auto simp: add.assoc)
  have r0: "bind_res (slice_from payload cursor) Uint16 = Ok i"
    using assms(2) d0 by simp
  have r2: "bind_res (slice_from payload (cursor + 2)) Uint32 = Ok l"
    using l6 d2 by simp
  have guard: "\<not> length payload - cursor < 6" using l6 by simp
  have nz: "i \<noteq> 0" and fits: "unat l \<le> length rest"
    using assms(1) unfolding lr
    by (subst (asm) ext_loop.simps, simp only: assms(2) guard r0 r2 bind_res.simps Let_def if_True
        if_False, auto split: if_splits)+
  define e where "e = \<lparr>ext_id = i, ext_value = take (unat l) rest\<rparr>"
  have "u32_len (ext_value e) = l"
    using fits unat_u32_less [of l] by (simp add: e_def word_unat_eq_iff)
  then have "drop cursor payload = enc_ext e @ drop (unat l) rest"
    using d0 by (simp add: enc_ext_def e_def)
  moreover have "ext_ok e"
    using nz fits unat_u32_less [of l] by (simp add: ext_ok_def e_def)
  ultimately show ?thesis by (rule that)
qed

lemma ext_loop_sound:
  assumes "ext_loop hs payload cursor caps seen = Ok (caps', seen')" "cursor \<le> length payload"
  shows "\<exists>exts. drop cursor payload = concat (map enc_ext exts) \<and> list_all ext_ok exts \<and>
    hello_fields hs exts caps seen caps' seen' \<and> (cursor < length payload \<longrightarrow> exts \<noteq> [])"
  using assms
proof (induction "length payload - cursor" arbitrary: cursor caps seen rule: less_induct)
  case less
  show ?case
  proof (cases "cursor < length payload")
    case False
    then have "caps' = caps" "seen' = seen" "drop cursor payload = []"
      using less.prems by (simp_all add: ext_loop_done)
    then show ?thesis using False by (intro exI [of _ "[]"]) (simp add: hello_fields_Nil)
  next
    case True
    obtain e rest where e: "drop cursor payload = enc_ext e @ rest" "ext_ok e"
      using less.prems(1) True by (rule ext_loop_Ok_field)
    let ?n = "cursor + 6 + length (ext_value e)"
    have n: "?n \<le> length payload" using drop_pos [OF e(1)] by simp
    have dn: "drop ?n payload = rest" using drop_shift [OF e(1), of "6 + length (ext_value e)"]
      by (simp add: add.assoc)
    have dv: "drop (cursor + 6) payload = ext_value e @ rest"
      using drop_shift [of cursor payload "PutUint16 (ext_id e) @ PutUint32 (u32_len (ext_value e))"]
        e(1) by (simp add: enc_ext_def)
    have step: "\<exists>c s. ext_loop hs payload ?n c s = Ok (caps', seen') \<and>
      (\<forall>fs. hello_fields hs fs c s caps' seen' \<longrightarrow> hello_fields hs (e # fs) caps seen caps' seen')"
    proof (cases "hs \<and> ext_id e = 1")
      case cap: True
      then obtain c where c: "capability_field payload (cursor + 6) (length (ext_value e)) caps seen = Ok c"
        and lp: "ext_loop hs payload ?n c True = Ok (caps', seen')"
        using less.prems(1) ext_loop_field [OF e] by (auto simp: bind_res_Ok_iff)
      from c n obtain cs where "\<not> seen" "cap_value (ext_value e) cs" "c = caps @ filter known_capability cs"
        using capability_field_Ok_iff [OF dv] by auto
      then show ?thesis using lp cap by (intro exI [of _ c] exI [of _ True]) (auto intro: hf_caps)
    next
      case False
      then show ?thesis using less.prems(1) ext_loop_field [OF e]
        by (intro exI [of _ caps] exI [of _ seen]) (auto intro: hf_other)
    qed
    then obtain c s where lp: "ext_loop hs payload ?n c s = Ok (caps', seen')" and
      add: "\<And>fs. hello_fields hs fs c s caps' seen' \<Longrightarrow> hello_fields hs (e # fs) caps seen caps' seen'"
      by blast
    have "length payload - ?n < length payload - cursor" using True by linarith
    from less.hyps [OF this lp n] obtain exts where "rest = concat (map enc_ext exts)"
      "list_all ext_ok exts" "hello_fields hs exts c s caps' seen'"
      unfolding dn by blast
    then show ?thesis using e add by (intro exI [of _ "e # exts"]) simp
  qed
qed

lemma ext_loop_complete:
  assumes "hello_fields hs exts caps seen caps' seen'" "list_all ext_ok exts"
    "drop cursor payload = concat (map enc_ext exts)" "cursor \<le> length payload"
  shows "ext_loop hs payload cursor caps seen = Ok (caps', seen')"
  using assms
proof (induction arbitrary: cursor rule: hello_fields.induct)
  case (hf_Nil caps seen)
  then show ?case by (simp add: ext_loop_done)
next
  case (hf_caps f seen cs fs caps caps' seen')
  have d: "drop cursor payload = enc_ext f @ concat (map enc_ext fs)" using hf_caps.prems by simp
  have n: "cursor + 6 + length (ext_value f) \<le> length payload" using drop_pos [OF d] by simp
  have dn: "drop (cursor + 6 + length (ext_value f)) payload = concat (map enc_ext fs)"
    using drop_shift [OF d, of "6 + length (ext_value f)"] by (simp add: add.assoc)
  have dv: "drop (cursor + 6) payload = ext_value f @ concat (map enc_ext fs)"
    using drop_shift [of cursor payload "PutUint16 (ext_id f) @ PutUint32 (u32_len (ext_value f))"]
      d by (simp add: enc_ext_def)
  have "capability_field payload (cursor + 6) (length (ext_value f)) caps seen
    = Ok (caps @ filter known_capability cs)"
    using capability_field_Ok_iff [OF dv] n hf_caps.hyps by auto
  then show ?case
    using ext_loop_field [OF d] hf_caps.hyps hf_caps.prems hf_caps.IH [OF _ dn n] by simp
next
  case (hf_other f fs caps seen caps' seen')
  have d: "drop cursor payload = enc_ext f @ concat (map enc_ext fs)" using hf_other.prems by simp
  have n: "cursor + 6 + length (ext_value f) \<le> length payload" using drop_pos [OF d] by simp
  have dn: "drop (cursor + 6 + length (ext_value f)) payload = concat (map enc_ext fs)"
    using drop_shift [OF d, of "6 + length (ext_value f)"] by (simp add: add.assoc)
  show ?case
    using ext_loop_field [OF d] hf_other.hyps hf_other.prems hf_other.IH [OF _ dn n] by auto
qed

lemma ext_loop_no_panic [no_panic_intros]:
  "cursor \<le> length payload \<Longrightarrow> no_panic (ext_loop hs payload cursor caps seen)"
proof (induction hs payload cursor caps seen rule: ext_loop.induct)
  case (1 hs payload cursor caps seen)
  then show ?case
    by (subst ext_loop.simps) (auto simp: Let_def intro!: no_panic_intros)
qed

lemma DecodeExtensions_no_panic [no_panic_intros]: "no_panic (DecodeExtensions f)"
  by (auto simp: DecodeExtensions_def Let_def intro!: no_panic_intros)

lemma ascending_pos: "ascending p xs \<Longrightarrow> x \<in> set xs \<Longrightarrow> (p :: 'a::order) < x"
  by (induction p xs arbitrary: x rule: ascending.induct) (auto dest: less_trans)

lemma length_ext_le_concat:
  "e \<in> set exts \<Longrightarrow> length (ext_value e) \<le> length (concat (map enc_ext exts))"
  by (induction exts) auto

lemma EncodeExtensions_ext_ok:
  assumes "EncodeExtensions core exts = Ok p" "exts \<noteq> []"
  shows "list_all ext_ok exts"
proof -
  from assms(1) have asc: "ascending 0 (map ext_id exts)" and len: "length p \<le> MaxPayloadSize"
    and p: "p = PutUint32 (u32_len core) @ core @ concat (map enc_ext exts)"
    unfolding EncodeExtensions_Ok_iff [OF assms(2)] by blast+
  have "ext_ok e" if "e \<in> set exts" for e
  proof -
    have "length (ext_value e) \<le> length p" using length_ext_le_concat [OF that] p by simp
    then have "length (ext_value e) < 2 ^ 32" using len by (simp add: frame_consts)
    moreover have "ext_id e \<noteq> 0" using ascending_pos [OF asc, of "ext_id e"] that by auto
    ultimately show ?thesis by (simp add: ext_ok_def)
  qed
  then show ?thesis by (simp add: list_all_iff)
qed

lemma hello_fields_plain: "hello_fields False exts caps seen caps seen"
  by (induction exts) (auto intro: hf_Nil hf_other)

lemma DecodeExtensions_flagged:
  assumes "Flags f AND FlagExtensionsPresent \<noteq> 0"
    "Payload f = PutUint32 c @ rest" "unat c < length rest"
  shows "DecodeExtensions f =
    bind_res (ext_loop (MessageType f = MessageTypeHello) (Payload f) (4 + unat c) [] False)
      (\<lambda>(caps, seen). if MessageType f = MessageTypeHello \<and> \<not> seen
         then Err (ErrNew ''HELLO capability list is missing'')
         else Ok (take (unat c) rest, caps))"
  using assms by (auto simp: DecodeExtensions_def Let_def intro!: arg_cong2 [where f = bind_res])

lemma ext_envelope_iff:
  assumes "Flags f AND FlagExtensionsPresent \<noteq> 0" "length (Payload f) \<le> MaxPayloadSize"
  shows "DecodeExtensions f = Ok (core, caps) \<longleftrightarrow>
    (\<exists>exts seen. exts \<noteq> [] \<and> list_all ext_ok exts \<and>
       Payload f = PutUint32 (u32_len core) @ core @ concat (map enc_ext exts) \<and>
       hello_fields (MessageType f = MessageTypeHello) exts [] False caps seen \<and>
       (MessageType f = MessageTypeHello \<longrightarrow> seen))"
  (is "?L \<longleftrightarrow> ?R")
proof
  assume L: ?L
  then have "4 \<le> length (Payload f)"
    using assms(1) by (auto simp: DecodeExtensions_def Let_def split: if_splits)
  then obtain c where "Uint32 (Payload f) = Ok c" using Uint_Ok_iff(2) [of "Payload f"] by blast
  then obtain rest where p: "Payload f = PutUint32 c @ rest"
    using Put_Uint(2) append_take_drop_id [of 4 "Payload f"] by metis
  have lt: "unat c < length rest"
    using L assms(1) by (auto simp: DecodeExtensions_def Let_def p split: if_splits)
  obtain seen where
    lp: "ext_loop (MessageType f = MessageTypeHello) (Payload f) (4 + unat c) [] False = Ok (caps, seen)"
    and s: "MessageType f = MessageTypeHello \<longrightarrow> seen" and core: "core = take (unat c) rest"
    using L DecodeExtensions_flagged [OF assms(1) p lt]
    by (auto simp: bind_res_Ok_iff split: if_splits)
  have b: "4 + unat c < length (Payload f)" using lt by (simp add: p)
  from ext_loop_sound [OF lp] b obtain exts where
    e: "drop (4 + unat c) (Payload f) = concat (map enc_ext exts)" "list_all ext_ok exts" "exts \<noteq> []"
    "hello_fields (MessageType f = MessageTypeHello) exts [] False caps seen"
    by auto
  have "u32_len core = c"
    using lt unat_u32_less [of c] by (simp add: core word_unat_eq_iff)
  moreover have "rest = core @ concat (map enc_ext exts)"
    using e(1) append_take_drop_id [of "unat c" rest] by (simp add: p core)
  ultimately show ?R using e s p by (intro exI [of _ exts] exI [of _ seen]) simp
next
  assume ?R
  then obtain exts seen where ne: "exts \<noteq> []" and ok: "list_all ext_ok exts" and
    p: "Payload f = PutUint32 (u32_len core) @ (core @ concat (map enc_ext exts))" and
    hf: "hello_fields (MessageType f = MessageTypeHello) exts [] False caps seen" and
    s: "MessageType f = MessageTypeHello \<longrightarrow> seen" by blast
  have lc: "unat (u32_len core) = length core"
    using assms(2) p by (intro unat_u32_len) (simp add: frame_consts)
  have "0 < length (concat (map enc_ext exts))" using ne by (cases exts) auto
  then have lt: "unat (u32_len core) < length (core @ concat (map enc_ext exts))"
    unfolding lc by simp
  have "ext_loop (MessageType f = MessageTypeHello) (Payload f) (4 + unat (u32_len core)) [] False
    = Ok (caps, seen)"
    by (rule ext_loop_complete [OF hf ok]) (simp_all only: lc, simp_all add: p)
  then show ?L using DecodeExtensions_flagged [OF assms(1) p lt] s lc by simp
qed

section \<open>Properties\<close>

text \<open>C11: Extension envelope. On a frame with the extension flag the decoder succeeds exactly when
  the payload is a core length, that many core bytes and a non-empty sequence of fields with
  non-zero identifiers; it returns those core bytes. On HELLO the fields hold exactly one
  capability list, whose values ascend strictly from a non-zero one, and the decoder returns the
  values this client knows; on every other message it returns none.\<close>

theorem ext_envelope_exact:
  assumes "Flags f AND FlagExtensionsPresent \<noteq> 0" "length (Payload f) \<le> MaxPayloadSize"
  shows "DecodeExtensions f = Ok (core, caps) \<longleftrightarrow>
    (\<exists>exts seen. exts \<noteq> [] \<and> list_all ext_ok exts \<and>
       Payload f = PutUint32 (u32_len core) @ core @ concat (map enc_ext exts) \<and>
       hello_fields (MessageType f = MessageTypeHello) exts [] False caps seen \<and>
       (MessageType f = MessageTypeHello \<longrightarrow> seen))"
  using assms by (rule ext_envelope_iff)

text \<open>A HELLO with both capabilities of this client.\<close>

definition hello_example :: frame where
  "hello_example = \<lparr>MessageType = 2, Flags = 4, CorrelationID = 0,
     Payload = [0, 0, 0, 1, 9, 0, 1, 0, 0, 0, 10, 0, 2, 0, 0, 0, 1, 0, 0, 0, 2]\<rparr>"

lemma hello_example_fields:
  "hello_fields True [\<lparr>ext_id = 1, ext_value = cap_list [1, 2]\<rparr>] [] False [1, 2] True"
  by (auto simp: hello_fields_Cons hello_fields_Nil cap_value_def known_capability_def
      CapabilityQueueMessageTTL_def CapabilityQueueNack_def intro!: exI [of _ "[1, 2]"])

theorem ext_envelope_exact_witness:
  "Flags hello_example AND FlagExtensionsPresent \<noteq> 0 \<and> length (Payload hello_example) \<le> MaxPayloadSize \<and>
   DecodeExtensions hello_example = Ok ([9], [1, 2])"
proof -
  have 1: "Flags hello_example AND FlagExtensionsPresent \<noteq> 0"
    by (simp add: hello_example_def FlagExtensionsPresent_def)
  have 2: "length (Payload hello_example) \<le> MaxPayloadSize"
    by (simp add: hello_example_def frame_consts)
  have "Payload hello_example = PutUint32 (u32_len [9]) @ [9] @
      concat (map enc_ext [\<lparr>ext_id = 1, ext_value = cap_list [1, 2]\<rparr>])"
    by (simp add: hello_example_def enc_ext_def cap_list_def u32_len_def int_eval)
  moreover have "list_all ext_ok [\<lparr>ext_id = 1, ext_value = cap_list [1, 2]\<rparr>]"
    by (simp add: ext_ok_def cap_list_def)
  moreover have "MessageType hello_example = MessageTypeHello"
    by (simp add: hello_example_def MessageTypeHello_def)
  ultimately have "DecodeExtensions hello_example = Ok ([9], [1, 2])"
    unfolding ext_envelope_exact [OF 1 2] using hello_example_fields
    by (intro exI [of _ "[\<lparr>ext_id = 1, ext_value = cap_list [1, 2]\<rparr>]"] exI [of _ True]) simp
  with 1 2 show ?thesis by simp
qed

text \<open>Extension round trip. Whatever fields the encoder accepts, a receiver that sees them in a
  message other than HELLO gets back exactly the core payload, so extensions a peer does not know
  never disturb the core.\<close>

theorem ext_roundtrip:
  assumes "EncodeExtensions core exts = Ok p" "exts \<noteq> []"
    and "MessageType f \<noteq> MessageTypeHello" "Flags f AND FlagExtensionsPresent \<noteq> 0" "Payload f = p"
  shows "DecodeExtensions f = Ok (core, [])"
proof -
  have "length (Payload f) \<le> MaxPayloadSize"
    and "Payload f = PutUint32 (u32_len core) @ core @ concat (map enc_ext exts)"
    using assms(1) unfolding EncodeExtensions_Ok_iff [OF assms(2)] assms(5) by blast+
  moreover have "list_all ext_ok exts" using assms(1,2) by (rule EncodeExtensions_ext_ok)
  ultimately show ?thesis
    using assms(2,3,4) hello_fields_plain [of exts "[]" False]
    by (subst ext_envelope_iff) auto
qed

theorem ext_roundtrip_witness:
  "EncodeExtensions [5, 6] [\<lparr>ext_id = 1, ext_value = [0, 0, 0, 24]\<rparr>]
     = Ok [0, 0, 0, 2, 5, 6, 0, 1, 0, 0, 0, 4, 0, 0, 0, 24] \<and>
   DecodeExtensions \<lparr>MessageType = 200, Flags = 4, CorrelationID = 3,
     Payload = [0, 0, 0, 2, 5, 6, 0, 1, 0, 0, 0, 4, 0, 0, 0, 24]\<rparr> = Ok ([5, 6], [])"
proof -
  have "EncodeExtensions [5, 6] [\<lparr>ext_id = 1, ext_value = [0, 0, 0, 24]\<rparr>]
    = Ok [0, 0, 0, 2, 5, 6, 0, 1, 0, 0, 0, 4, 0, 0, 0, 24]"
    by (simp add: EncodeExtensions_def enc_ext_def frame_consts u32_len_def int_eval)
  from this ext_roundtrip [OF this] show ?thesis
    by (simp add: MessageTypeHello_def FlagExtensionsPresent_def)
qed

text \<open>Decoding an inbound message never panics, whatever bytes arrive: neither the frame
  decoder nor the extension decoder reads out of range.\<close>

theorem inbound_decoding_no_panic:
  "no_panic (bind_res (DecodeMessage data) DecodeExtensions)"
  by (intro no_panic_intros)

end
