(* ===== verification/Message_Types.thy ===== *)
theory Message_Types
  imports Wire_Extensions
begin

text \<open>
  The message types of the wire protocol (\<^verbatim>\<open>internal/protocol/message_types.go\<close>), by their Go names, and
  their grouping into domains. HELLO is declared with the extension fields it carries.
\<close>

abbreviation (input) MessageTypeConnect :: u16 where "MessageTypeConnect \<equiv> 1"
abbreviation (input) MessageTypeConnectRejected :: u16 where "MessageTypeConnectRejected \<equiv> 3"
abbreviation (input) MessageTypeGoAway :: u16 where "MessageTypeGoAway \<equiv> 4"
abbreviation (input) MessageTypeKvBegin :: u16 where "MessageTypeKvBegin \<equiv> 100"
abbreviation (input) MessageTypeKvCommit :: u16 where "MessageTypeKvCommit \<equiv> 101"
abbreviation (input) MessageTypeKvRollback :: u16 where "MessageTypeKvRollback \<equiv> 102"
abbreviation (input) MessageTypeKvGet :: u16 where "MessageTypeKvGet \<equiv> 103"
abbreviation (input) MessageTypeKvPut :: u16 where "MessageTypeKvPut \<equiv> 104"
abbreviation (input) MessageTypeKvInsert :: u16 where "MessageTypeKvInsert \<equiv> 105"
abbreviation (input) MessageTypeKvDelete :: u16 where "MessageTypeKvDelete \<equiv> 106"
abbreviation (input) MessageTypeKvDeleteRange :: u16 where "MessageTypeKvDeleteRange \<equiv> 107"
abbreviation (input) MessageTypeKvScan :: u16 where "MessageTypeKvScan \<equiv> 108"
abbreviation (input) MessageTypeKvSubscribe :: u16 where "MessageTypeKvSubscribe \<equiv> 109"
abbreviation (input) MessageTypeKvUnsubscribe :: u16 where "MessageTypeKvUnsubscribe \<equiv> 110"
abbreviation (input) MessageTypeKvNotify :: u16 where "MessageTypeKvNotify \<equiv> 111"
abbreviation (input) MessageTypeQueueEnqueue :: u16 where "MessageTypeQueueEnqueue \<equiv> 200"
abbreviation (input) MessageTypeQueueReserve :: u16 where "MessageTypeQueueReserve \<equiv> 202"
abbreviation (input) MessageTypeQueueExtend :: u16 where "MessageTypeQueueExtend \<equiv> 203"
abbreviation (input) MessageTypeQueueComplete :: u16 where "MessageTypeQueueComplete \<equiv> 204"
abbreviation (input) MessageTypeQueueSubscribe :: u16 where "MessageTypeQueueSubscribe \<equiv> 207"
abbreviation (input) MessageTypeQueueUnsubscribe :: u16 where "MessageTypeQueueUnsubscribe \<equiv> 208"
abbreviation (input) MessageTypeQueueNotify :: u16 where "MessageTypeQueueNotify \<equiv> 209"
abbreviation (input) MessageTypeQueueNack :: u16 where "MessageTypeQueueNack \<equiv> 210"
abbreviation (input) MessageTypeRpcSubscribeWorker :: u16 where "MessageTypeRpcSubscribeWorker \<equiv> 300"
abbreviation (input) MessageTypeRpcUnsubscribeWorker :: u16 where "MessageTypeRpcUnsubscribeWorker \<equiv> 301"
abbreviation (input) MessageTypeRpcRequest :: u16 where "MessageTypeRpcRequest \<equiv> 302"
abbreviation (input) MessageTypeRpcResponse :: u16 where "MessageTypeRpcResponse \<equiv> 303"
abbreviation (input) MessageTypeRpcCancellation :: u16 where "MessageTypeRpcCancellation \<equiv> 304"
abbreviation (input) MessageTypeRpcLifecycle :: u16 where "MessageTypeRpcLifecycle \<equiv> 305"
abbreviation (input) MessageTypeLeaseAcquire :: u16 where "MessageTypeLeaseAcquire \<equiv> 400"
abbreviation (input) MessageTypeLeaseRenew :: u16 where "MessageTypeLeaseRenew \<equiv> 401"
abbreviation (input) MessageTypeLeaseRelease :: u16 where "MessageTypeLeaseRelease \<equiv> 402"
abbreviation (input) MessageTypeLeaseQuery :: u16 where "MessageTypeLeaseQuery \<equiv> 403"
abbreviation (input) MessageTypeLeaseSubscribe :: u16 where "MessageTypeLeaseSubscribe \<equiv> 407"
abbreviation (input) MessageTypeLeaseUnsubscribe :: u16 where "MessageTypeLeaseUnsubscribe \<equiv> 408"
abbreviation (input) MessageTypeLeaseNotify :: u16 where "MessageTypeLeaseNotify \<equiv> 409"
abbreviation (input) MessageTypeLeaseList :: u16 where "MessageTypeLeaseList \<equiv> 410"
abbreviation (input) MessageTypeNoticePublish :: u16 where "MessageTypeNoticePublish \<equiv> 500"
abbreviation (input) MessageTypeNoticeSubscribe :: u16 where "MessageTypeNoticeSubscribe \<equiv> 501"
abbreviation (input) MessageTypeNoticeUnsubscribe :: u16 where "MessageTypeNoticeUnsubscribe \<equiv> 502"
abbreviation (input) MessageTypeNoticeUnsubscribeAll :: u16 where "MessageTypeNoticeUnsubscribeAll \<equiv> 503"
abbreviation (input) MessageTypeNoticeNotify :: u16 where "MessageTypeNoticeNotify \<equiv> 504"
abbreviation (input) MessageTypeStreamBegin :: u16 where "MessageTypeStreamBegin \<equiv> 600"
abbreviation (input) MessageTypeStreamAppend :: u16 where "MessageTypeStreamAppend \<equiv> 601"
abbreviation (input) MessageTypeStreamCommit :: u16 where "MessageTypeStreamCommit \<equiv> 602"
abbreviation (input) MessageTypeStreamRollback :: u16 where "MessageTypeStreamRollback \<equiv> 603"
abbreviation (input) MessageTypeStreamRead :: u16 where "MessageTypeStreamRead \<equiv> 604"
abbreviation (input) MessageTypeStreamLast :: u16 where "MessageTypeStreamLast \<equiv> 605"
abbreviation (input) MessageTypeStreamGetMetadata :: u16 where "MessageTypeStreamGetMetadata \<equiv> 606"
abbreviation (input) MessageTypeStreamSubscribe :: u16 where "MessageTypeStreamSubscribe \<equiv> 607"
abbreviation (input) MessageTypeStreamUnsubscribe :: u16 where "MessageTypeStreamUnsubscribe \<equiv> 608"
abbreviation (input) MessageTypeStreamNotify :: u16 where "MessageTypeStreamNotify \<equiv> 609"
abbreviation (input) MessageTypeScheduleCreate :: u16 where "MessageTypeScheduleCreate \<equiv> 700"
abbreviation (input) MessageTypeScheduleCancel :: u16 where "MessageTypeScheduleCancel \<equiv> 701"
abbreviation (input) MessageTypeScheduleListPage :: u16 where "MessageTypeScheduleListPage \<equiv> 702"
abbreviation (input) MessageTypeScheduleSubscribe :: u16 where "MessageTypeScheduleSubscribe \<equiv> 703"
abbreviation (input) MessageTypeScheduleUnsubscribe :: u16 where "MessageTypeScheduleUnsubscribe \<equiv> 704"
abbreviation (input) MessageTypeScheduleNotify :: u16 where "MessageTypeScheduleNotify \<equiv> 705"
abbreviation (input) MessageTypeScheduleCreateBatch :: u16 where "MessageTypeScheduleCreateBatch \<equiv> 706"
abbreviation (input) MessageTypeScheduleListV2 :: u16 where "MessageTypeScheduleListV2 \<equiv> 702"

definition domain_message_types :: "(string \<times> u16 list) list" where
  "domain_message_types =
    [(''kv'', [MessageTypeKvBegin, MessageTypeKvCommit, MessageTypeKvRollback, MessageTypeKvGet,
       MessageTypeKvPut, MessageTypeKvInsert, MessageTypeKvDelete,
       MessageTypeKvDeleteRange, MessageTypeKvScan, MessageTypeKvSubscribe,
       MessageTypeKvUnsubscribe, MessageTypeKvNotify]),
     (''queue'', [MessageTypeQueueEnqueue, MessageTypeQueueReserve, MessageTypeQueueExtend,
       MessageTypeQueueComplete, MessageTypeQueueSubscribe, MessageTypeQueueUnsubscribe,
       MessageTypeQueueNotify, MessageTypeQueueNack]),
     (''rpc'', [MessageTypeRpcSubscribeWorker, MessageTypeRpcUnsubscribeWorker,
       MessageTypeRpcRequest, MessageTypeRpcResponse, MessageTypeRpcCancellation,
       MessageTypeRpcLifecycle]),
     (''lease'', [MessageTypeLeaseAcquire, MessageTypeLeaseRenew, MessageTypeLeaseRelease,
       MessageTypeLeaseQuery, MessageTypeLeaseSubscribe, MessageTypeLeaseUnsubscribe,
       MessageTypeLeaseNotify, MessageTypeLeaseList]),
     (''notice'', [MessageTypeNoticePublish, MessageTypeNoticeSubscribe,
       MessageTypeNoticeUnsubscribe, MessageTypeNoticeUnsubscribeAll,
       MessageTypeNoticeNotify]),
     (''stream'', [MessageTypeStreamBegin, MessageTypeStreamAppend, MessageTypeStreamCommit,
       MessageTypeStreamRollback, MessageTypeStreamRead, MessageTypeStreamLast,
       MessageTypeStreamGetMetadata, MessageTypeStreamSubscribe,
       MessageTypeStreamUnsubscribe, MessageTypeStreamNotify]),
     (''schedule'', [MessageTypeScheduleCreate, MessageTypeScheduleCancel,
       MessageTypeScheduleListPage, MessageTypeScheduleSubscribe,
       MessageTypeScheduleUnsubscribe, MessageTypeScheduleNotify,
       MessageTypeScheduleCreateBatch, MessageTypeScheduleListV2])]"

text \<open>\<open>RouteDomain\<close> sends every message type of a domain to that domain, and no control message to any.\<close>

lemma RouteDomain_message_types:
  "list_all (\<lambda>(d, ts). list_all (\<lambda>t. RouteDomain t = d) ts) domain_message_types"
  by (simp add: domain_message_types_def RouteDomain_def)

lemma RouteDomain_control:
  "list_all (\<lambda>t. RouteDomain t = ''unknown'')
     [MessageTypeConnect, MessageTypeHello, MessageTypeConnectRejected, MessageTypeGoAway]"
  by (simp add: RouteDomain_def MessageTypeHello_def word_le_nat_alt)

end
