(* ===== verification/Conn_Api.thy ===== *)
theory Conn_Api
  imports Message_Codec Message_Types
begin

text \<open>
  What the domain clients use of a connection: sending a request and waiting for the response,
  whether a handle is still live, and the retry policy
  (\<^verbatim>\<open>internal/core/connection/connection.go\<close>, \<^verbatim>\<open>internal/core/retry/retry.go\<close>). A client operation is a
  function of the connection's state \<open>'s\<close> that returns an outcome and the new state; the connection
  itself is a \<open>conn_api\<close>, so that the clients can be run on any connection.
\<close>

section \<open>Operations on a state\<close>

type_synonym ('a, 's) op = "'s \<Rightarrow> 'a res \<times> 's"

definition return_op :: "'a res \<Rightarrow> ('a, 's) op" where
  "return_op r s = (r, s)"

definition bind_op :: "('a, 's) op \<Rightarrow> ('a \<Rightarrow> ('b, 's) op) \<Rightarrow> ('b, 's) op" where
  "bind_op m f s = (case m s of (Ok x, s') \<Rightarrow> f x s' | (Err e, s') \<Rightarrow> (Err e, s') | (Panic, s') \<Rightarrow> (Panic, s'))"

definition map_err :: "(go_error \<Rightarrow> go_error) \<Rightarrow> 'a res \<Rightarrow> 'a res" where
  "map_err f r = (case r of Ok x \<Rightarrow> Ok x | Err e \<Rightarrow> Err (f e) | Panic \<Rightarrow> Panic)"

lemma map_err_simps [simp]:
  "map_err f (Ok x) = Ok x" "map_err f (Err e) = Err (f e)" "map_err f Panic = Panic"
  "map_err f r = Ok x \<longleftrightarrow> r = Ok x" "no_panic (map_err f r) \<longleftrightarrow> no_panic r"
  by (auto simp: map_err_def no_panic_def split: res.splits)

lemma bind_op_simps [simp]:
  "bind_op (return_op (Ok x)) f s = f x s" "bind_op (return_op (Err e)) f s = (Err e, s)"
  "bind_op (return_op Panic) f s = (Panic, s)"
  by (simp_all add: bind_op_def return_op_def)

section \<open>Errors of a connection\<close>

definition ErrNotAuthenticated :: go_error where
  "ErrNotAuthenticated = Sentinel ''not authenticated''"
definition ErrAuthenticationFailed :: go_error where
  "ErrAuthenticationFailed = Sentinel ''authentication failed''"
definition ErrVersionMismatch :: go_error where
  "ErrVersionMismatch = Sentinel ''wire version mismatch''"
definition ErrAuthenticationTimeout :: go_error where
  "ErrAuthenticationTimeout = Sentinel ''authentication timeout''"
definition ErrConnectionClosed :: go_error where
  "ErrConnectionClosed = Sentinel ''connection closed''"
definition ErrConnectionAlreadyStarted :: go_error where
  "ErrConnectionAlreadyStarted = Sentinel ''connection already started''"
definition ErrRequestQueueFull :: go_error where
  "ErrRequestQueueFull = Sentinel ''request queue full''"
definition ErrStaleHandle :: go_error where
  "ErrStaleHandle = Sentinel ''stale handle''"

lemmas conn_errors = ErrNotAuthenticated_def ErrAuthenticationFailed_def ErrVersionMismatch_def
  ErrAuthenticationTimeout_def ErrConnectionClosed_def ErrConnectionAlreadyStarted_def
  ErrRequestQueueFull_def ErrStaleHandle_def

section \<open>The interface of a connection\<close>

text \<open>
  \<open>api_request\<close> is \<open>SendRequestWithWriterAndFlags\<close>, \<open>api_oneway\<close> is \<open>SendFireAndForgetWithWriter\<close>,
  \<open>api_supports\<close> is \<open>SupportsCapability\<close>, \<open>api_live\<close> the error of \<open>CheckLiveHandle\<close>, \<open>api_ctxErr\<close> the context's error, \<open>api_wait\<close> the wait
  between two attempts (the number of attempts made; the error when the context or the connection
  ends first), \<open>api_addSubs\<close> is \<open>AddSubscriptions\<close> and \<open>api_retry\<close> the number of attempts, with
  retries disabled as None.
\<close>

record 's conn_api =
  api_request :: "u16 \<Rightarrow> u8 \<Rightarrow> writer \<Rightarrow> (bytes, 's) op"
  api_oneway :: "u16 \<Rightarrow> writer \<Rightarrow> (unit, 's) op"
  api_supports :: "u32 \<Rightarrow> 's \<Rightarrow> bool"
  api_live :: "'s \<Rightarrow> go_error option"
  api_ctxErr :: "'s \<Rightarrow> go_error option"
  api_wait :: "nat \<Rightarrow> 's \<Rightarrow> go_error option \<times> 's"
  api_addSubs :: "int \<Rightarrow> 's \<Rightarrow> 's"
  api_retry :: "int option"

text \<open>\<open>SendRequestWithWriter\<close>: a request without header flags.\<close>

definition api_send :: "'s conn_api \<Rightarrow> u16 \<Rightarrow> writer \<Rightarrow> (bytes, 's) op" where
  "api_send c msgType w = api_request c msgType 0 w"

section \<open>Retrying\<close>

definition IsTransientRetryable :: "go_error \<Rightarrow> bool" where
  "IsTransientRetryable err =
     (if errors_Is err DeadlineExceeded \<or> errors_Is err ErrConnectionClosed \<or> errors_Is err ErrNotAuthenticated
      then True
      else if errors_As_transport err then True
      else case errors_As_domain err of
             None \<Rightarrow> False
           | Some d \<Rightarrow>
               if de_effect d \<noteq> 0 then False
               else if de_class d = 5 then True
               else de_code d = KvIsolationConflict \<or> de_code d = KvBusy \<or> de_code d = StreamBusy \<or>
                    de_code d = NoticeBusy \<or> de_code d = QueueFull \<or> de_code d = LeaseQueueFull \<or>
                    de_code d = LeaseWaitersLimit \<or> de_code d = RpcRouteNotRegistered \<or>
                    de_code d = ScheduleBusy \<or> de_code d = LeaseHeld)"

text \<open>
  The loop of \<open>RunWithRetry\<close>; \<open>left\<close> is the number of attempts after this one, so \<open>left = 0\<close> is
  \<open>attempt == maxAttempts\<close>.
\<close>

fun retry_attempts ::
  "('s \<Rightarrow> go_error option) \<Rightarrow> (nat \<Rightarrow> 's \<Rightarrow> go_error option \<times> 's) \<Rightarrow> ('a, 's) op \<Rightarrow> (go_error \<Rightarrow> bool) \<Rightarrow>
   nat \<Rightarrow> nat \<Rightarrow> ('a, 's) op" where
  "retry_attempts ctxErr wait fn isRetryable attempt left s =
     (case ctxErr s of
        Some err \<Rightarrow> (Err err, s)
      | None \<Rightarrow>
          (case fn s of
             (Ok v, s') \<Rightarrow> (Ok v, s')
           | (Panic, s') \<Rightarrow> (Panic, s')
           | (Err lastErr, s') \<Rightarrow>
               if \<not> isRetryable lastErr \<or> left = 0 then (Err lastErr, s')
               else (case wait attempt s' of
                       (Some err, s'') \<Rightarrow> (Err err, s'')
                     | (None, s'') \<Rightarrow> retry_attempts ctxErr wait fn isRetryable (attempt + 1) (left - 1) s'')))"

declare retry_attempts.simps [simp del]

definition RunWithRetry :: "'s conn_api \<Rightarrow> ('a, 's) op \<Rightarrow> (go_error \<Rightarrow> bool) \<Rightarrow> ('a, 's) op" where
  "RunWithRetry c fn isRetryable s =
     (case api_retry c of
        None \<Rightarrow> fn s
      | Some n \<Rightarrow>
          let maxAttempts = (if n \<le> 0 then 3 else n)
          in retry_attempts (api_ctxErr c) (api_wait c) fn isRetryable 1 (nat maxAttempts - 1) s)"

text \<open>\<open>retry.Do\<close>: \<open>maxRetries\<close> counts the attempts after the first; a negative one makes none.\<close>

fun do_attempts ::
  "('s \<Rightarrow> go_error option) \<Rightarrow> (nat \<Rightarrow> 's \<Rightarrow> go_error option \<times> 's) \<Rightarrow> ('a, 's) op \<Rightarrow> (go_error \<Rightarrow> bool) \<Rightarrow>
   nat \<Rightarrow> nat \<Rightarrow> ('a, 's) op" where
  "do_attempts ctxErr wait fn isRetryable attempt left s =
     (case ctxErr s of
        Some err \<Rightarrow> (Err err, s)
      | None \<Rightarrow>
          (case fn s of
             (Ok v, s') \<Rightarrow> (Ok v, s')
           | (Panic, s') \<Rightarrow> (Panic, s')
           | (Err err, s') \<Rightarrow>
               if \<not> isRetryable err then (Err err, s')
               else if left = 0 then (Err err, s')
               else (case wait attempt s' of
                       (Some err, s'') \<Rightarrow> (Err err, s'')
                     | (None, s'') \<Rightarrow> do_attempts ctxErr wait fn isRetryable (attempt + 1) (left - 1) s'')))"

declare do_attempts.simps [simp del]

definition Do ::
  "('s \<Rightarrow> go_error option) \<Rightarrow> (nat \<Rightarrow> 's \<Rightarrow> go_error option \<times> 's) \<Rightarrow> int \<Rightarrow> (unit, 's) op \<Rightarrow>
   (go_error \<Rightarrow> bool) \<Rightarrow> (unit, 's) op" where
  "Do ctxErr wait maxRetries fn isRetryable s =
     (if maxRetries < 0 then (Ok (), s)
      else do_attempts ctxErr wait fn isRetryable 0 (nat maxRetries) s)"

section \<open>A request that is acknowledged\<close>

text \<open>
  The shape every domain's mutation has: send, wrap a transport error, parse the envelope, map and
  wrap a broker error, refuse a status that is neither.
\<close>

definition send_parse ::
  "'s conn_api \<Rightarrow> (bytes \<Rightarrow> (bool \<times> bytes) res) \<Rightarrow> (go_error \<Rightarrow> go_error) \<Rightarrow> string \<Rightarrow> string \<Rightarrow> u16 \<Rightarrow> writer \<Rightarrow>
   (bytes, 's) op" where
  "send_parse c parse mapErr opName what msgType w =
     bind_op (\<lambda>s. map_prod (map_err (Errorf1 (opName @ '' request failed''))) id (api_send c msgType w s))
       (\<lambda>resp. return_op (case parse resp of
          Ok (success, remaining) \<Rightarrow>
            if \<not> success then Err (ErrNew (opName @ what)) else Ok remaining
        | Err e \<Rightarrow> Err (Errorf1 (opName @ '' failed'') (mapErr e))
        | Panic \<Rightarrow> Panic))"

section \<open>The retry discipline\<close>

text \<open>
  The loops on a state that also keeps what they did, in order: each call of the operation with the context's error at that
  moment and its outcome, and each wait with its number and the error that ended it, if any.
\<close>

datatype 'a retry_event = Called "go_error option" "'a res" | Waited nat "go_error option"

definition traced :: "('s \<Rightarrow> go_error option) \<Rightarrow> ('a, 's) op \<Rightarrow> ('a, 's \<times> 'a retry_event list) op" where
  "traced ctxErr fn = (\<lambda>(s, h). case fn s of (r, s') \<Rightarrow> (r, (s', h @ [Called (ctxErr s) r])))"

definition wait_traced ::
  "(nat \<Rightarrow> 's \<Rightarrow> go_error option \<times> 's) \<Rightarrow> nat \<Rightarrow> 's \<times> 'a retry_event list \<Rightarrow> go_error option \<times> 's \<times> 'a retry_event list" where
  "wait_traced wait k = (\<lambda>(s, h). case wait k s of (e, s') \<Rightarrow> (e, (s', h @ [Waited k e])))"

lemma traced_apply [simp]: "traced ctxErr fn (s, h) = (case fn s of (r, s') \<Rightarrow> (r, (s', h @ [Called (ctxErr s) r])))"
  by (simp add: traced_def)

lemma wait_traced_apply [simp]: "wait_traced wait k (s, h) = (case wait k s of (e, s') \<Rightarrow> (e, (s', h @ [Waited k e])))"
  by (simp add: wait_traced_def)

definition retryable_failure :: "(go_error \<Rightarrow> bool) \<Rightarrow> 'a res \<Rightarrow> bool" where
  "retryable_failure isRetryable r = (case r of Err e \<Rightarrow> isRetryable e | _ \<Rightarrow> False)"

text \<open>Rounds that failed with the errors \<open>es\<close> and were each followed by a full wait; the waits are numbered from \<open>k\<close>.\<close>

fun rounds :: "nat \<Rightarrow> go_error list \<Rightarrow> 'a retry_event list" where
  "rounds k [] = []"
| "rounds k (e # es) = Called None (Err e) # Waited k None # rounds (k + 1) es"

text \<open>
  What the loop may do when \<open>n\<close> calls are allowed: rounds that failed with retryable errors, and then one of three ends. The
  context has ended, and its error is the outcome; or a last call is made, whose outcome is the loop's, a retryable failure only
  when the calls are used up; or a last call fails with a retryable error and the wait after it is cut short, and its error is
  the outcome. \<open>ctx\<close> is the error of the context at the end.
\<close>

definition retry_trace :: "(go_error \<Rightarrow> bool) \<Rightarrow> nat \<Rightarrow> nat \<Rightarrow> go_error option \<Rightarrow> 'a res \<Rightarrow> 'a retry_event list \<Rightarrow> bool" where
  "retry_trace isRetryable k n ctx r h \<longleftrightarrow> (\<exists>es. list_all isRetryable es \<and> length es < n \<and>
     (h = rounds k es \<and> (\<exists>e. ctx = Some e \<and> r = Err e) \<or>
      h = rounds k es @ [Called None r] \<and> (retryable_failure isRetryable r \<longrightarrow> length es + 1 = n) \<or>
      (\<exists>e err. h = rounds k es @ [Called None (Err e), Waited (k + length es) (Some err)] \<and> isRetryable e \<and> length es + 1 < n \<and> r = Err err)))"

lemma retry_trace_Cons:
  assumes "isRetryable e" "retry_trace isRetryable (k + 1) n ctx r h"
  shows "retry_trace isRetryable k (Suc n) ctx r (Called None (Err e) # Waited k None # h)"
proof -
  obtain es where es: "list_all isRetryable es" "length es < n"
    "h = rounds (k + 1) es \<and> (\<exists>e. ctx = Some e \<and> r = Err e) \<or>
     h = rounds (k + 1) es @ [Called None r] \<and> (retryable_failure isRetryable r \<longrightarrow> length es + 1 = n) \<or>
     (\<exists>e err. h = rounds (k + 1) es @ [Called None (Err e), Waited (k + 1 + length es) (Some err)] \<and> isRetryable e \<and> length es + 1 < n \<and> r = Err err)"
    using assms(2) by (auto simp: retry_trace_def)
  then show ?thesis using assms(1) unfolding retry_trace_def by (intro exI [of _ "e # es"]) auto
qed

lemma retry_trace_end:
  "ctx = Some e \<Longrightarrow> 0 < n \<Longrightarrow> retry_trace isRetryable k n ctx (Err e) []"
  "\<not> retryable_failure isRetryable r \<or> n = 1 \<Longrightarrow> 0 < n \<Longrightarrow> retry_trace isRetryable k n ctx r [Called None r]"
  "isRetryable e \<Longrightarrow> 1 < n \<Longrightarrow> retry_trace isRetryable k n ctx (Err err) [Called None (Err e), Waited k (Some err)]"
  unfolding retry_trace_def by (auto intro!: exI [of _ "[]"])

lemma retry_attempts_trace:
  "retry_attempts (\<lambda>(s, h). ctxErr s) (wait_traced wait) (traced ctxErr fn) isRetryable attempt left (s, h) = (r, (s', h')) \<Longrightarrow>
   \<exists>k. h' = h @ k \<and> retry_trace isRetryable attempt (Suc left) (ctxErr s') r k"
proof (induction left arbitrary: attempt s h)
  case 0
  obtain q s1 where q: "fn s = (q, s1)" by (cases "fn s")
  show ?case
  proof (cases "ctxErr s")
    case None
    then have "retry_attempts (\<lambda>(s, h). ctxErr s) (wait_traced wait) (traced ctxErr fn) isRetryable attempt 0 (s, h) = (q, (s1, h @ [Called None q]))"
      using q by (cases q) (simp_all add: retry_attempts.simps [of _ _ _ _ _ 0])
    then have "r = q" "h' = h @ [Called None q]" using 0 by simp_all
    then show ?thesis using retry_trace_end(2) [of isRetryable q "Suc 0"] by auto
  next
    case (Some e)
    then have "r = Err e" "h' = h" "s' = s" using 0 by (simp_all add: retry_attempts.simps [of _ _ _ _ _ 0])
    then show ?thesis using Some retry_trace_end(1) [of "ctxErr s" e "Suc 0" isRetryable attempt] by simp
  qed
next
  case (Suc left)
  note unfold = retry_attempts.simps [of _ _ _ _ _ "Suc left"]
  obtain q s1 where q: "fn s = (q, s1)" by (cases "fn s")
  show ?case
  proof (cases "ctxErr s")
    case (Some e)
    then have "r = Err e" "h' = h" "s' = s" using Suc.prems by (simp_all add: unfold)
    then show ?thesis using Some retry_trace_end(1) [of "ctxErr s" e "Suc (Suc left)" isRetryable attempt] by simp
  next
    case live: None
    show ?thesis
    proof (cases "retryable_failure isRetryable q")
      case False
      then have "retry_attempts (\<lambda>(s, h). ctxErr s) (wait_traced wait) (traced ctxErr fn) isRetryable attempt (Suc left) (s, h) =
          (q, (s1, h @ [Called None q]))"
        using q live by (cases q) (simp_all add: unfold retryable_failure_def)
      then have "r = q" "h' = h @ [Called None q]" using Suc.prems by simp_all
      then show ?thesis using False retry_trace_end(2) [of isRetryable q "Suc (Suc left)"] by auto
    next
      case True
      then obtain e where e: "q = Err e" "isRetryable e" by (cases q) (auto simp: retryable_failure_def)
      obtain w s2 where w: "wait attempt s1 = (w, s2)" by (cases "wait attempt s1")
      show ?thesis
      proof (cases w)
        case (Some err)
        then have "r = Err err" "h' = h @ [Called None (Err e), Waited attempt (Some err)]" using Suc.prems q live e w by (simp_all add: unfold)
        then show ?thesis using e(2) retry_trace_end(3) [of isRetryable e "Suc (Suc left)" attempt "ctxErr s'" err] by auto
      next
        case None
        then have "retry_attempts (\<lambda>(s, h). ctxErr s) (wait_traced wait) (traced ctxErr fn) isRetryable (attempt + 1) left
            (s2, h @ [Called None (Err e), Waited attempt None]) = (r, (s', h'))"
          using Suc.prems e q w live by (simp add: unfold)
        from Suc.IH [OF this] obtain k where k: "h' = (h @ [Called None (Err e), Waited attempt None]) @ k"
          "retry_trace isRetryable (attempt + 1) (Suc left) (ctxErr s') r k" by blast
        then show ?thesis using e(2) retry_trace_Cons [of isRetryable e attempt "Suc left" "ctxErr s'" r k] by auto
      qed
    qed
  qed
qed

lemma RunWithRetry_first:
  assumes "api_retry c = None \<or> api_ctxErr c s = None" "fn s = (Ok v, s')"
  shows "RunWithRetry c fn isRetryable s = (Ok v, s')"
proof -
  have "retry_attempts (api_ctxErr c) wait fn isRetryable k left s = (Ok v, s')" if "api_ctxErr c s = None" for wait k left
    using that assms(2) by (subst retry_attempts.simps) simp
  then show ?thesis using assms by (cases "api_retry c") (auto simp: RunWithRetry_def Let_def)
qed

lemma do_attempts_eq: "do_attempts ctxErr wait fn isRetryable attempt left s =
    retry_attempts ctxErr wait fn isRetryable attempt left s"
proof (induction left arbitrary: attempt s)
  case 0
  then show ?case
    by (simp add: do_attempts.simps [of _ _ _ _ _ 0] retry_attempts.simps [of _ _ _ _ _ 0]
        split: option.split res.split prod.split)
next
  case (Suc left)
  then show ?case
    by (simp add: do_attempts.simps [of _ _ _ _ _ "Suc left"] retry_attempts.simps [of _ _ _ _ _ "Suc left"]
        split: option.split res.split prod.split)
qed

definition wait_logged :: "(nat \<Rightarrow> 's \<Rightarrow> go_error option \<times> 's) \<Rightarrow> nat \<Rightarrow> 's \<times> 'h \<Rightarrow> go_error option \<times> 's \<times> 'h" where
  "wait_logged wait k = (\<lambda>(s, h). case wait k s of (e, s') \<Rightarrow> (e, (s', h)))"

lemma wait_logged_apply [simp]: "wait_logged wait k (s, h) = (case wait k s of (e, s') \<Rightarrow> (e, (s', h)))"
  by (simp add: wait_logged_def)

definition logged_api :: "'s conn_api \<Rightarrow> ('s \<times> 'h) conn_api" where
  "logged_api c =
     \<lparr>api_request = (\<lambda>t f w (s, h). case api_request c t f w s of (r, s') \<Rightarrow> (r, (s', h))),
      api_oneway = (\<lambda>t w (s, h). case api_oneway c t w s of (r, s') \<Rightarrow> (r, (s', h))),
      api_supports = (\<lambda>i (s, h). api_supports c i s), api_live = (\<lambda>(s, h). api_live c s), api_ctxErr = (\<lambda>(s, h). api_ctxErr c s),
      api_wait = wait_logged (api_wait c), api_addSubs = (\<lambda>n (s, h). (api_addSubs c n s, h)),
      api_retry = api_retry c\<rparr>"

definition traced_api :: "'s conn_api \<Rightarrow> ('s \<times> 'a retry_event list) conn_api" where
  "traced_api c = (logged_api c)\<lparr>api_wait := wait_traced (api_wait c)\<rparr>"

text \<open>C18: Retry policy. With retries enabled, \<open>RunWithRetry\<close> calls the operation at most the configured number of times (three
  when it is not positive), each time with a live context; after a retryable failure it waits and, unless the wait is cut short or
  the context has ended, calls again. The caller gets the outcome of the last call, which is a retryable failure only when the calls
  are used up, or else the error of the context or of the wait that was cut short; an operation that succeeded or failed for good is
  not called again. \<open>retry.Do\<close> does the same with one call more than its retries, and nothing at all when that number is
  negative.\<close>

theorem retry_policy:
  assumes "api_retry c = Some n"
    and "RunWithRetry (traced_api c) (traced (api_ctxErr c) fn) isRetryable (s, []) = (r, (s', h))"
    and "Do (\<lambda>(t, g). ctxErr t) (wait_traced wait) m (traced ctxErr job) isRetryable (t, []) = (q, (t', g))"
  shows "retry_trace isRetryable 1 (nat (if n \<le> 0 then 3 else n)) (api_ctxErr c s') r h \<and>
    (if m < 0 then q = Ok () \<and> t' = t \<and> g = [] else retry_trace isRetryable 0 (nat m + 1) (ctxErr t') q g)"
proof
  let ?m = "nat (if n \<le> 0 then 3 else n)"
  have "Suc (?m - 1) = ?m" by auto
  moreover have "retry_attempts (\<lambda>(s, h). api_ctxErr c s) (wait_traced (api_wait c)) (traced (api_ctxErr c) fn) isRetryable 1
      (?m - 1) (s, []) = (r, (s', h))"
    using assms by (simp add: RunWithRetry_def logged_api_def traced_api_def Let_def split: if_splits)
  ultimately show "retry_trace isRetryable 1 ?m (api_ctxErr c s') r h" using retry_attempts_trace by fastforce
  show "if m < 0 then q = Ok () \<and> t' = t \<and> g = [] else retry_trace isRetryable 0 (nat m + 1) (ctxErr t') q g"
    using assms(3) retry_attempts_trace [of ctxErr wait job isRetryable 0 "nat m" t "[]" q t' g] by (auto simp: Do_def do_attempts_eq)
qed

definition failing_api :: "unit conn_api" where
  "failing_api = \<lparr>api_request = (\<lambda>t f w s. (Err ErrConnectionClosed, s)), api_oneway = (\<lambda>t w s. (Ok (), s)),
     api_supports = (\<lambda>i s. False), api_live = (\<lambda>s. None), api_ctxErr = (\<lambda>s. None), api_wait = (\<lambda>k s. (None, s)), api_addSubs = (\<lambda>n s. s), api_retry = Some 2\<rparr>"

theorem retry_policy_witness:
  "retry_trace IsTransientRetryable 1 2 None (Err ErrConnectionClosed :: unit res)
     [Called None (Err ErrConnectionClosed), Waited 1 None, Called None (Err ErrConnectionClosed)]"
proof -
  have c: "api_retry failing_api = Some 2" by (simp add: failing_api_def)
  have "IsTransientRetryable ErrConnectionClosed" by (simp add: IsTransientRetryable_def)
  then have r: "RunWithRetry (traced_api failing_api) (traced (api_ctxErr failing_api) (\<lambda>s. (Err ErrConnectionClosed, s)))
      IsTransientRetryable ((), []) = (Err ErrConnectionClosed :: unit res,
        ((), [Called None (Err ErrConnectionClosed), Waited 1 None, Called None (Err ErrConnectionClosed)]))"
    by (simp add: RunWithRetry_def logged_api_def traced_api_def failing_api_def retry_attempts.simps)
  have d: "Do (\<lambda>(t, g). None) (wait_traced (\<lambda>k t. (None, t))) (-1) (traced (\<lambda>t. None) (\<lambda>t. (Ok (), t))) IsTransientRetryable ((), []) = (Ok (), ((), []))"
    by (simp add: Do_def)
  from retry_policy [OF c r d] show ?thesis by (simp add: failing_api_def)
qed

section \<open>Requests on the record\<close>

text \<open>
  \<open>recording c\<close> is \<open>c\<close> with every request kept: its message type and its payload, in the order sent.
  \<open>on_conn\<close> runs an operation of the connection beside the state of a handle.
\<close>

type_synonym request_log = "(u16 \<times> bytes) list"

definition recording :: "'s conn_api \<Rightarrow> ('s \<times> request_log) conn_api" where
  "recording c = (logged_api c)
     \<lparr>api_request := (\<lambda>t f w (s, h). case api_request c t f w s of (r, s') \<Rightarrow> (r, (s', h @ [(t, w [])]))),
      api_oneway := (\<lambda>t w (s, h). case api_oneway c t w s of (r, s') \<Rightarrow> (r, (s', h @ [(t, w [])])))\<rparr>"

definition on_conn :: "('a, 's) op \<Rightarrow> ('a, 's \<times> 't) op" where
  "on_conn m = (\<lambda>(s, t). case m s of (r, s') \<Rightarrow> (r, (s', t)))"

text \<open>An operation keeps a property of the state.\<close>

definition keeps :: "('s \<Rightarrow> bool) \<Rightarrow> ('a, 's) op \<Rightarrow> bool" where
  "keeps P m \<longleftrightarrow> (\<forall>s. P s \<longrightarrow> P (snd (m s)))"

lemma keepsD: "keeps P m \<Longrightarrow> P s \<Longrightarrow> P (snd (m s))"
  by (simp add: keeps_def)

lemma keeps_return [intro]: "keeps P (return_op r)"
  by (simp add: keeps_def return_op_def)

lemma keeps_bind [intro]: "keeps P m \<Longrightarrow> (\<And>x. keeps P (f x)) \<Longrightarrow> keeps P (bind_op m f)"
  by (auto simp: keeps_def bind_op_def split: prod.split res.split)

lemma retry_attempts_keeps:
  assumes "keeps P fn" "\<And>k s. P s \<Longrightarrow> P (snd (wait k s))" "P s"
  shows "P (snd (retry_attempts ctxErr wait fn isRetryable attempt left s))"
  using assms(3)
proof (induction left arbitrary: attempt s)
  case 0
  then show ?case using keepsD [OF assms(1), of s]
    by (auto simp: retry_attempts.simps [of _ _ _ _ _ 0] split: option.split prod.split res.split)
next
  case (Suc left)
  obtain r s1 where r: "fn s = (r, s1)" by (cases "fn s")
  have p1: "P s1" using keepsD [OF assms(1) Suc.prems] r by simp
  obtain w s2 where w: "wait attempt s1 = (w, s2)" by (cases "wait attempt s1")
  have "P s2" using assms(2) [OF p1, of attempt] w by simp
  then show ?case using Suc.IH [of s2 "attempt + 1"] Suc.prems p1
    by (auto simp: retry_attempts.simps [of _ _ _ _ _ "Suc left"] r w split: option.split res.split)
qed

lemma RunWithRetry_keeps:
  "keeps P fn \<Longrightarrow> (\<And>k s. P s \<Longrightarrow> P (snd (api_wait c k s))) \<Longrightarrow> keeps P (RunWithRetry c fn isRetryable)"
  using retry_attempts_keeps [of P fn "api_wait c"]
  by (auto simp: keeps_def RunWithRetry_def Let_def split: option.split)

lemma send_parse_keeps:
  assumes "\<And>s. P s \<Longrightarrow> P (snd (api_send c t w s))"
  shows "keeps P (send_parse c parse mapErr opName what t w)"
proof -
  have "keeps P (\<lambda>s. map_prod (map_err f) id (api_send c t w s))" for f
    using assms by (simp add: keeps_def)
  then show ?thesis unfolding send_parse_def by (intro keeps_bind keeps_return)
qed

lemma recording_simps [simp]:
  "api_request (recording c) t f w (s, h) = (case api_request c t f w s of (r, s') \<Rightarrow> (r, (s', h @ [(t, w [])])))"
  "api_supports (recording c) i (s, h) = api_supports c i s"
  "api_send (recording c) t w (s, h) = (case api_send c t w s of (r, s') \<Rightarrow> (r, (s', h @ [(t, w [])])))"
  "api_live (recording c) (s, h) = api_live c s"
  "snd (snd (api_wait (recording c) k (s, h))) = h"
  by (auto simp: recording_def logged_api_def api_send_def split: prod.split)

text \<open>What a successful exchange was, and that an exchange is one request of the log.\<close>

lemma ParseStandardResponse_Ok_iff: "ParseStandardResponse p = Ok (success, rest) \<longleftrightarrow> success \<and> p = 0 # rest"
  by (cases p) (auto simp: ParseStandardResponse_def split: res.split)

lemma send_parse_Ok_iff:
  "send_parse c parse mapErr opName what t w s = (Ok remaining, s') \<longleftrightarrow>
   (\<exists>resp. api_send c t w s = (Ok resp, s') \<and> parse resp = Ok (True, remaining))"
  by (cases "api_send c t w s"; cases "fst (api_send c t w s)")
    (auto simp: send_parse_def bind_op_def return_op_def split: res.splits)

lemma send_parse_log:
  obtains r s' where
    "send_parse (recording c) parse mapErr opName what t w (s, h) = (r, (s', h @ [(t, w [])]))"
    "send_parse c parse mapErr opName what t w s = (r, s')"
  by (cases "api_send c t w s"; cases "fst (api_send c t w s)")
    (auto simp: send_parse_def bind_op_def return_op_def split: res.splits)

lemma list_all_butlast: "list_all P xs \<Longrightarrow> list_all P (butlast xs)"
  by (auto simp: list_all_iff dest: in_set_butlastD)

end
