(* ===== verification/Routes.thy ===== *)
theory Routes
  imports Go_Strings
begin

text \<open>
  Route syntax and matching (\<^verbatim>\<open>internal/core/types/types.go\<close>): the one-pass scanner, the validators
  built on it, the Stream selector classifier and the wildcard matcher with its backtracking loop. The
  scanner's and splitter's index loops are related to a recursive splitter, the matcher to a recursive
  definition of \<open>*\<close> and \<open>**\<close>. Error texts keep their constant part only. A Go string is a list of
  characters here; the slices of the loops are \<open>take\<close> and \<open>drop\<close>, their bounds hold by the loop guards.
\<close>

definition ErrInvalidRouteShape :: go_error where
  "ErrInvalidRouteShape = Sentinel ''invalid route shape''"

definition invalidRoute :: "string \<Rightarrow> go_error" where
  "invalidRoute format = (if format = [] then ErrInvalidRouteShape else Errorf_s ErrInvalidRouteShape format)"

section \<open>Splitting\<close>

function split_loop :: "string \<Rightarrow> nat \<Rightarrow> nat \<Rightarrow> string list \<Rightarrow> string list" where
  "split_loop path i start segments =
     (if i \<le> length path then
        if i = length path \<or> path ! i = CHR ''/''
        then split_loop path (i + 1) (i + 1) (segments @ [take (i - start) (drop start path)])
        else split_loop path (i + 1) start segments
      else segments)"
  by pat_completeness auto
termination by (relation "measure (\<lambda>(path, i, _). length path + 1 - i)") auto

declare split_loop.simps [simp del]

definition splitSegments :: "string \<Rightarrow> string list" where
  "splitSegments path = split_loop path 0 0 []"

function find_scheme :: "string \<Rightarrow> nat \<Rightarrow> nat option" where
  "find_scheme route i =
     (if i + 2 < length route then
        if take 3 (drop i route) = ''://'' then Some i else find_scheme route (i + 1)
      else None)"
  by pat_completeness auto
termination by (relation "measure (\<lambda>(route, i). length route - i)") auto

declare find_scheme.simps [simp del]

definition splitRouteSegments :: "string \<Rightarrow> string list" where
  "splitRouteSegments route =
     (case find_scheme route 0 of None \<Rightarrow> [] | Some i \<Rightarrow> splitSegments (drop (i + 3) route))"

text \<open>\<open>strings.Cut\<close> of the standard library.\<close>

fun strings_Cut :: "string \<Rightarrow> string \<Rightarrow> string \<times> string \<times> bool" where
  "strings_Cut sep [] = (if sep = [] then ([], [], True) else ([], [], False))"
| "strings_Cut sep (c # cs) =
     (if take (length sep) (c # cs) = sep then ([], drop (length sep) (c # cs), True)
      else let (before, after, found) = strings_Cut sep cs
           in if found then (c # before, after, True) else (c # cs, [], False))"

section \<open>Scanning\<close>

record scannedRoute =
  segmentCount :: nat
  wildcardIndex :: int
  hasDoubleWildcard :: bool
  doubleWildcardCount :: nat
  wildcardsAreSuffix :: bool

text \<open>The body of the scanner's loop for the segment that ends at an index.\<close>

definition scan_segment :: "string \<Rightarrow> nat \<Rightarrow> nat \<Rightarrow> scannedRoute \<Rightarrow> scannedRoute res" where
  "scan_segment route segmentStart i shape =
     (if i = segmentStart then Err (invalidRoute ''empty route segment'')
      else
        let segmentLen = i - segmentStart;
            wildcard = (segmentLen = 1 \<and> route ! segmentStart = CHR ''*'');
            doubleWildcard = (segmentLen = 2 \<and> route ! segmentStart = CHR ''*'' \<and>
                              route ! (segmentStart + 1) = CHR ''*'')
        in if \<not> wildcard \<and> \<not> doubleWildcard then
             if \<exists>cursor\<in>set [segmentStart..<i]. route ! cursor = CHR ''*''
             then Err (invalidRoute ''wildcards must occupy a full path segment'')
             else Ok (shape\<lparr>wildcardsAreSuffix :=
                               (if wildcardIndex shape \<ge> 0 then False else wildcardsAreSuffix shape),
                            segmentCount := segmentCount shape + 1\<rparr>)
           else Ok (shape\<lparr>wildcardIndex := (if wildcardIndex shape = -1 then int (segmentCount shape)
                                            else wildcardIndex shape),
                          hasDoubleWildcard := (hasDoubleWildcard shape \<or> doubleWildcard),
                          doubleWildcardCount := (if doubleWildcard then doubleWildcardCount shape + 1
                                                  else doubleWildcardCount shape),
                          segmentCount := segmentCount shape + 1\<rparr>))"

function scan_loop :: "string \<Rightarrow> nat \<Rightarrow> nat \<Rightarrow> scannedRoute \<Rightarrow> scannedRoute res" where
  "scan_loop route i segmentStart shape =
     (if i \<le> length route then
        if i \<noteq> length route \<and> route ! i \<noteq> CHR ''/''
        then scan_loop route (i + 1) segmentStart shape
        else (case scan_segment route segmentStart i shape of
                Ok shape' \<Rightarrow> scan_loop route (i + 1) (i + 1) shape'
              | Err e \<Rightarrow> Err e
              | Panic \<Rightarrow> Panic)
      else Ok shape)"
  by pat_completeness auto
termination by (relation "measure (\<lambda>(route, i, _). length route + 1 - i)") auto

declare scan_loop.simps [simp del]

definition scanRoute :: "string \<Rightarrow> string \<Rightarrow> scannedRoute res" where
  "scanRoute route expectedScheme =
     (let shape = \<lparr>segmentCount = 0, wildcardIndex = -1, hasDoubleWildcard = False,
                   doubleWildcardCount = 0, wildcardsAreSuffix = True\<rparr>;
          prefixLen = length expectedScheme
      in if length route > 65535 then Err (invalidRoute ''route exceeds the 65,535-byte TLV value limit'')
         else if expectedScheme = [] then Err (invalidRoute ''expected scheme is empty'')
         else if length route < prefixLen + 3 \<or> take prefixLen route \<noteq> expectedScheme \<or>
                 take 3 (drop prefixLen route) \<noteq> ''://''
           then Err (invalidRoute ''unexpected scheme'')
         else if prefixLen + 3 = length route then Err (invalidRoute ''missing route path'')
         else scan_loop route (prefixLen + 3) (prefixLen + 3) shape)"

section \<open>Validators\<close>

definition ValidateRoute :: "string \<Rightarrow> string \<Rightarrow> unit res" where
  "ValidateRoute route scheme = bind_res (scanRoute route scheme) (\<lambda>shape.
     if wildcardIndex shape \<ge> 0 then Err (invalidRoute ''wildcard not allowed in concrete route'')
     else Ok ())"

definition ValidateConcreteRoute :: "string \<Rightarrow> string \<Rightarrow> unit res" where
  "ValidateConcreteRoute route scheme = bind_res (scanRoute route scheme) (\<lambda>shape.
     if wildcardIndex shape \<ge> 0 then Err (invalidRoute ''wildcard not allowed in concrete route'')
     else Ok ())"

definition ValidateFixedRoute :: "string \<Rightarrow> string \<Rightarrow> nat \<Rightarrow> unit res" where
  "ValidateFixedRoute route scheme n = bind_res (scanRoute route scheme) (\<lambda>shape.
     if segmentCount shape \<noteq> n then Err (invalidRoute ''unexpected number of route segments'')
     else if wildcardIndex shape \<ge> 0 then Err (invalidRoute ''wildcard not allowed in fixed route'')
     else Ok ())"

definition ValidateSelectorRoute :: "string \<Rightarrow> string \<Rightarrow> nat \<Rightarrow> bool \<Rightarrow> unit res" where
  "ValidateSelectorRoute route scheme n allowRealmWildcard = bind_res (scanRoute route scheme) (\<lambda>shape.
     if segmentCount shape \<noteq> n then Err (invalidRoute ''unexpected number of selector segments'')
     else if n = 0 then Err (invalidRoute ''selector segment count must be positive'')
     else if wildcardIndex shape = 0 then Err (invalidRoute ''realm wildcard is not allowed'')
     else if wildcardIndex shape = -1 then Ok ()
     else if hasDoubleWildcard shape
       then Err (invalidRoute ''only single-segment wildcards are allowed here'')
     else if \<not> wildcardsAreSuffix shape
       then Err (invalidRoute ''wildcards must form a terminal suffix'')
     else if wildcardIndex shape = int n - 1 then Ok ()
     else if allowRealmWildcard \<and> wildcardIndex shape = 1 then Ok ()
     else Err (invalidRoute ''wildcard placement not allowed for this method''))"

definition ValidateNoticeSelector :: "string \<Rightarrow> unit res" where
  "ValidateNoticeSelector route = bind_res (scanRoute route ''notice'') (\<lambda>shape.
     if segmentCount shape = 2 \<and> wildcardIndex shape = 1 \<and> hasDoubleWildcard shape then Ok ()
     else ValidateSelectorRoute route ''notice'' 3 True)"

definition ValidateScheduleRoute :: "string \<Rightarrow> unit res" where
  "ValidateScheduleRoute route = ValidateFixedRoute route ''schedule'' 4"

definition ValidateScheduleSelector :: "string \<Rightarrow> unit res" where
  "ValidateScheduleSelector selector = bind_res (scanRoute selector ''schedule'') (\<lambda>shape.
     if wildcardIndex shape = 0 then Err (invalidRoute ''realm wildcard is not allowed'')
     else if segmentCount shape = 2 \<and> wildcardIndex shape = 1 \<and> hasDoubleWildcard shape then Ok ()
     else if segmentCount shape = 3 \<and> wildcardIndex shape = 2 \<and> \<not> hasDoubleWildcard shape then Ok ()
     else if segmentCount shape = 4 \<and> wildcardIndex shape = -1 then Ok ()
     else if segmentCount shape = 4 \<and> wildcardIndex shape = 3 \<and> \<not> hasDoubleWildcard shape then Ok ()
     else Err (invalidRoute ''schedule selector wildcard placement not allowed''))"

definition ValidateRegistrationPattern :: "string \<Rightarrow> string \<Rightarrow> int \<Rightarrow> unit res" where
  "ValidateRegistrationPattern route scheme requiredSegments = bind_res (scanRoute route scheme) (\<lambda>shape.
     if requiredSegments < 0 then Err (invalidRoute ''required segment count cannot be negative'')
     else if requiredSegments = 0 then Ok ()
     else if doubleWildcardCount shape = 0 then
       (if int (segmentCount shape) \<noteq> requiredSegments
        then Err (invalidRoute ''pattern cannot match a route of the required length'') else Ok ())
     else if int (segmentCount shape) - int (doubleWildcardCount shape) > requiredSegments
       then Err (invalidRoute ''pattern cannot match a route of the required length'')
     else Ok ())"

datatype StreamSelectorScope = StreamScopeResource | StreamScopeArea | StreamScopeRealm | StreamScopeGlobal

definition ClassifyStreamSelector :: "string \<Rightarrow> StreamSelectorScope res" where
  "ClassifyStreamSelector route =
     (if route = ''stream://**'' then Ok StreamScopeGlobal
      else
        let segments = splitRouteSegments route in
        if strings_HasPrefix route ''stream://'' \<and> length segments = 2 \<and> segments ! 1 = ''**'' \<and>
           segments ! 0 \<noteq> [] \<and> CHR ''*'' \<notin> set (segments ! 0)
        then Ok StreamScopeRealm
        else
          case scanRoute route ''stream'' of
            Ok shape \<Rightarrow>
              if segmentCount shape \<noteq> 3 then Err (invalidRoute ''stream selector has the wrong shape'')
              else if length segments \<noteq> 3 then Err (invalidRoute ''stream selector has the wrong shape'')
              else if \<exists>segment\<in>set segments. CHR ''*'' \<in> set segment \<and> segment \<noteq> ''*''
                then Err (invalidRoute ''stream selector must use whole-segment wildcards'')
              else if segments ! 0 = ''*'' then Ok StreamScopeGlobal
              else if segments ! 1 = ''*'' then Ok StreamScopeRealm
              else if segments ! 2 = ''*'' then Ok StreamScopeArea
              else Ok StreamScopeResource
          | _ \<Rightarrow> Err (invalidRoute ''stream selector has the wrong shape''))"

definition ValidateStreamSelector :: "string \<Rightarrow> unit res" where
  "ValidateStreamSelector route = bind_res (ClassifyStreamSelector route) (\<lambda>_. Ok ())"

section \<open>Matching\<close>

text \<open>The matcher's loop: \<open>lastDouble\<close> is the index of the last \<open>**\<close> passed, none at first.\<close>

function match_loop ::
    "string list \<Rightarrow> string list \<Rightarrow> nat \<Rightarrow> nat \<Rightarrow> nat option \<Rightarrow> nat \<Rightarrow> nat option" where
  "match_loop rs ps ri pi lastDouble lastMatch =
     (if ri < length rs then
        if pi < length ps \<and> (ps ! pi = ''*'' \<or> ps ! pi = rs ! ri)
        then match_loop rs ps (ri + 1) (pi + 1) lastDouble lastMatch
        else if pi < length ps \<and> ps ! pi = ''**''
        then match_loop rs ps ri (pi + 1) (Some pi) ri
        else (case lastDouble of
                None \<Rightarrow> None
              | Some d \<Rightarrow> match_loop rs ps (lastMatch + 1) (d + 1) lastDouble (lastMatch + 1))
      else Some pi)"
  by pat_completeness auto
termination
  by (relation "measures [\<lambda>(rs, ps, ri, pi, ld, lm). if ri < length rs then 1 else 0,
      \<lambda>(rs, ps, ri, pi, ld, lm). (case ld of None \<Rightarrow> 0 | Some d \<Rightarrow> if pi \<le> d then 1 else 0),
      \<lambda>(rs, ps, ri, pi, ld, lm). Suc (length ps) - (case ld of None \<Rightarrow> 0 | Some d \<Rightarrow> Suc d),
      \<lambda>(rs, ps, ri, pi, ld, lm). length rs - lm,
      \<lambda>(rs, ps, ri, pi, ld, lm). length rs - ri]")
    (auto split: option.splits)

declare match_loop.simps [simp del]

function skip_doubles :: "string list \<Rightarrow> nat \<Rightarrow> nat" where
  "skip_doubles ps pi =
     (if pi < length ps \<and> ps ! pi = ''**'' then skip_doubles ps (pi + 1) else pi)"
  by pat_completeness auto
termination by (relation "measure (\<lambda>(ps, pi). length ps - pi)") auto

declare skip_doubles.simps [simp del]

definition RouteMatchesPattern :: "string \<Rightarrow> string \<Rightarrow> bool" where
  "RouteMatchesPattern route pattern =
     (let (routeScheme, _, routeOK) = strings_Cut ''://'' route;
          (patternScheme, _, patternOK) = strings_Cut ''://'' pattern
      in if \<not> routeOK \<or> \<not> patternOK \<or> routeScheme \<noteq> patternScheme then False
         else
           let rs = splitRouteSegments route; ps = splitRouteSegments pattern in
           if length rs = 0 \<or> length ps = 0 then False
           else case match_loop rs ps 0 0 None 0 of
                  None \<Rightarrow> False
                | Some pi \<Rightarrow> skip_doubles ps pi = length ps)"

section \<open>The recursive splitter\<close>

fun segs :: "string \<Rightarrow> string list" where
  "segs [] = [[]]"
| "segs (c # cs) = (if c = CHR ''/'' then [] # segs cs else (c # hd (segs cs)) # tl (segs cs))"

lemma segs_not_Nil [simp]: "segs s \<noteq> []"
  by (cases s) auto

lemma segs_hd_tl: "hd (segs s) # tl (segs s) = segs s"
  by simp

lemma segs_no_slash: "seg \<in> set (segs s) \<Longrightarrow> CHR ''/'' \<notin> set seg"
proof (induction s arbitrary: seg)
  case (Cons c cs)
  have "hd (segs cs) \<in> set (segs cs)" by simp
  then show ?case using Cons by (auto split: if_splits dest: list.set_sel(2) [rotated])
qed simp

lemma split_loop_segs:
  assumes "start \<le> i" "i \<le> length path"
  shows "split_loop path i start acc = acc @
    (take (i - start) (drop start path) @ hd (segs (drop i path))) # tl (segs (drop i path))"
  using assms
proof (induction path i start acc rule: split_loop.induct)
  case (1 path i start acc)
  show ?case
  proof (cases "i = length path")
    case True
    then show ?thesis
      by (subst split_loop.simps, subst split_loop.simps) simp
  next
    case False
    then have i: "i < length path" using 1(4) by simp
    then have d: "drop i path = path ! i # drop (Suc i) path" by (simp add: Cons_nth_drop_Suc)
    show ?thesis
    proof (cases "path ! i = CHR ''/''")
      case True
      with i have "split_loop path i start acc
        = split_loop path (i + 1) (i + 1) (acc @ [take (i - start) (drop start path)])"
        by (subst split_loop.simps) simp
      also have "\<dots> = (acc @ [take (i - start) (drop start path)]) @ segs (drop (Suc i) path)"
        using 1(1) i True by simp
      finally show ?thesis unfolding d using True by simp
    next
      case False
      with i have "split_loop path i start acc = split_loop path (i + 1) start acc"
        by (subst split_loop.simps) simp
      moreover have "take (Suc i - start) (drop start path) = take (i - start) (drop start path) @ [path ! i]"
        using 1(3) i by (simp add: Suc_diff_le take_Suc_conv_app_nth)
      ultimately show ?thesis using 1(2) 1(3) i False unfolding d by simp
    qed
  qed
qed

lemma splitSegments_segs: "splitSegments path = segs path"
  by (simp add: splitSegments_def split_loop_segs)

section \<open>The scanner on segments\<close>

definition wild :: "string \<Rightarrow> bool" where
  "wild seg \<longleftrightarrow> seg = ''*'' \<or> seg = ''**''"

definition seg_ok :: "string \<Rightarrow> bool" where
  "seg_ok seg \<longleftrightarrow> seg \<noteq> [] \<and> (CHR ''*'' \<in> set seg \<longrightarrow> wild seg)"

definition add_seg :: "string \<Rightarrow> scannedRoute \<Rightarrow> scannedRoute" where
  "add_seg seg shape =
     (if wild seg
      then shape\<lparr>wildcardIndex := (if wildcardIndex shape = -1 then int (segmentCount shape)
                                  else wildcardIndex shape),
                hasDoubleWildcard := (hasDoubleWildcard shape \<or> seg = ''**''),
                doubleWildcardCount := (if seg = ''**'' then doubleWildcardCount shape + 1
                                        else doubleWildcardCount shape),
                segmentCount := segmentCount shape + 1\<rparr>
      else shape\<lparr>wildcardsAreSuffix := (if wildcardIndex shape \<ge> 0 then False else wildcardsAreSuffix shape),
                segmentCount := segmentCount shape + 1\<rparr>)"

lemma scan_segment_seg:
  assumes "segmentStart \<le> i" "i \<le> length route" "seg = take (i - segmentStart) (drop segmentStart route)"
  shows "seg_ok seg \<Longrightarrow> scan_segment route segmentStart i shape = Ok (add_seg seg shape)"
    "\<not> seg_ok seg \<Longrightarrow> \<exists>e. scan_segment route segmentStart i shape = Err e"
proof -
  have len: "length seg = i - segmentStart" using assms by simp
  have nth: "seg ! k = route ! (segmentStart + k)" if "k < length seg" for k using that assms by simp
  have star: "(\<exists>cursor\<in>set [segmentStart..<i]. route ! cursor = CHR ''*'') \<longleftrightarrow> CHR ''*'' \<in> set seg"
  proof
    assume "\<exists>cursor\<in>set [segmentStart..<i]. route ! cursor = CHR ''*''"
    then obtain c where c: "segmentStart \<le> c" "c < i" "route ! c = CHR ''*''" by auto
    then have "seg ! (c - segmentStart) = CHR ''*''" using nth [of "c - segmentStart"] len by simp
    then show "CHR ''*'' \<in> set seg" using c len by (metis diff_less_mono nth_mem)
  next
    assume "CHR ''*'' \<in> set seg"
    then obtain k where k: "k < length seg" "seg ! k = CHR ''*''" by (auto simp: in_set_conv_nth)
    then show "\<exists>cursor\<in>set [segmentStart..<i]. route ! cursor = CHR ''*''"
      using nth [OF k(1)] len by (intro bexI [of _ "segmentStart + k"]) auto
  qed
  have w: "i - segmentStart = 1 \<and> route ! segmentStart = CHR ''*'' \<longleftrightarrow> seg = ''*''"
    using len nth [of 0] by (cases seg) auto
  have dw: "i - segmentStart = 2 \<and> route ! segmentStart = CHR ''*'' \<and> route ! (segmentStart + 1) = CHR ''*'' \<longleftrightarrow>
    seg = ''**''"
    using len nth [of 0] nth [of 1]
    by (cases seg; cases "tl seg") (auto simp: numeral_2_eq_2)
  have empty: "i = segmentStart \<longleftrightarrow> seg = []" using len assms(1) by auto
  show "seg_ok seg \<Longrightarrow> scan_segment route segmentStart i shape = Ok (add_seg seg shape)"
    "\<not> seg_ok seg \<Longrightarrow> \<exists>e. scan_segment route segmentStart i shape = Err e"
    unfolding scan_segment_def Let_def star w dw empty
    by (auto simp: seg_ok_def add_seg_def wild_def)
qed

lemma scan_loop_segs:
  assumes "segmentStart \<le> i" "i \<le> length route"
    "first = take (i - segmentStart) (drop segmentStart route) @ hd (segs (drop i route))"
    "others = tl (segs (drop i route))"
  shows "(list_all seg_ok (first # others) \<longrightarrow>
      scan_loop route i segmentStart shape = Ok (fold add_seg (first # others) shape)) \<and>
    (\<not> list_all seg_ok (first # others) \<longrightarrow> (\<exists>e. scan_loop route i segmentStart shape = Err e))"
  using assms
proof (induction "length route - i" arbitrary: i segmentStart first others shape)
  case 0
  then have i: "i = length route" by simp
  let ?seg = "take (i - segmentStart) (drop segmentStart route)"
  have f: "first = ?seg" "others = []" using 0 i by simp_all
  have end': "scan_loop route (i + 1) (i + 1) s = Ok s" for s
    using i by (subst scan_loop.simps) simp
  show ?case
    using scan_segment_seg [OF 0(2,3) refl, of shape] i end' unfolding f
    by (subst (1 2) scan_loop.simps) auto
next
  case (Suc n)
  let ?seg = "take (i - segmentStart) (drop segmentStart route)"
  have i: "i < length route" using Suc(2) by simp
  then have d: "drop i route = route ! i # drop (Suc i) route" by (simp add: Cons_nth_drop_Suc)
  show ?case
  proof (cases "route ! i = CHR ''/''")
    case True
    have f: "first = ?seg" "others = segs (drop (Suc i) route)"
      using Suc.prems True by (simp_all add: d)
    have IH: "(list_all seg_ok others \<longrightarrow>
        scan_loop route (i + 1) (i + 1) s = Ok (fold add_seg others s)) \<and>
      (\<not> list_all seg_ok others \<longrightarrow> (\<exists>e. scan_loop route (i + 1) (i + 1) s = Err e))" for s
      using Suc.hyps(1) [of "i + 1" "i + 1" "hd others" "tl others" s] Suc.hyps(2) i f(2) by simp
    have step: "scan_loop route i segmentStart shape = (case scan_segment route segmentStart i shape of
        Ok shape' \<Rightarrow> scan_loop route (i + 1) (i + 1) shape' | Err e \<Rightarrow> Err e | Panic \<Rightarrow> Panic)"
      using i True by (subst scan_loop.simps) simp
    show ?thesis
      using scan_segment_seg [OF Suc.prems(1,2) refl, of shape] IH [of "add_seg ?seg shape"]
      unfolding step f(1) by (cases "seg_ok ?seg") auto
  next
    case False
    have step: "scan_loop route i segmentStart shape = scan_loop route (i + 1) segmentStart shape"
      using i False by (subst scan_loop.simps) simp
    have "take (Suc i - segmentStart) (drop segmentStart route) = ?seg @ [route ! i]"
      using Suc.prems(1) i by (simp add: Suc_diff_le take_Suc_conv_app_nth)
    then have "first = take (i + 1 - segmentStart) (drop segmentStart route) @ hd (segs (drop (i + 1) route))"
      "others = tl (segs (drop (i + 1) route))"
      using Suc.prems(3,4) False by (simp_all add: d)
    then show ?thesis
      unfolding step using Suc.hyps(1) [of "i + 1" segmentStart first others shape] Suc.hyps(2) i
        Suc.prems(1) by simp
  qed
qed

text \<open>What the scanner computes, declaratively.\<close>

definition first_wild :: "string list \<Rightarrow> int" where
  "first_wild ss = (let k = length (takeWhile (\<lambda>s. \<not> wild s) ss) in if k = length ss then -1 else int k)"

definition shape_of :: "string list \<Rightarrow> scannedRoute" where
  "shape_of ss =
     \<lparr>segmentCount = length ss, wildcardIndex = first_wild ss,
      hasDoubleWildcard = (''**'' \<in> set ss), doubleWildcardCount = count_list ss ''**'',
      wildcardsAreSuffix = list_all wild (dropWhile (\<lambda>s. \<not> wild s) ss)\<rparr>"

lemma takeWhile_wild:
  "\<exists>s\<in>set ss. wild s \<Longrightarrow> length (takeWhile (\<lambda>s. \<not> wild s) ss) < length ss"
  "\<forall>s\<in>set ss. \<not> wild s \<Longrightarrow> length (takeWhile (\<lambda>s. \<not> wild s) ss) = length ss"
  by (induction ss) auto

lemma first_wild_cases:
  "first_wild ss = -1 \<longleftrightarrow> (\<forall>s\<in>set ss. \<not> wild s)"
  "first_wild ss \<ge> 0 \<longleftrightarrow> (\<exists>s\<in>set ss. wild s)"
proof -
  have "first_wild ss = -1 \<and> \<not> first_wild ss \<ge> 0" if "\<not> (\<exists>s\<in>set ss. wild s)"
    using that takeWhile_wild(2) [of ss] by (simp add: first_wild_def Let_def)
  moreover have "first_wild ss \<noteq> -1 \<and> first_wild ss \<ge> 0" if "\<exists>s\<in>set ss. wild s"
    using takeWhile_wild(1) [OF that] by (simp add: first_wild_def Let_def)
  ultimately show "first_wild ss = -1 \<longleftrightarrow> (\<forall>s\<in>set ss. \<not> wild s)"
    "first_wild ss \<ge> 0 \<longleftrightarrow> (\<exists>s\<in>set ss. wild s)"
    by blast+
qed

lemma wild_double: "wild ''**''" "\<not> wild s \<Longrightarrow> s \<noteq> ''**''"
  by (auto simp: wild_def)

lemma shape_of_snoc: "shape_of (ss @ [s]) = add_seg s (shape_of ss)"
proof (cases "\<forall>s\<in>set ss. \<not> wild s")
  case True
  then have "takeWhile (\<lambda>s. \<not> wild s) (ss @ [s]) = ss @ (if wild s then [] else [s])"
    "dropWhile (\<lambda>s. \<not> wild s) (ss @ [s]) = (if wild s then [s] else [])"
    "takeWhile (\<lambda>s. \<not> wild s) ss = ss" "dropWhile (\<lambda>s. \<not> wild s) ss = []"
    by (induction ss) auto
  moreover have "''**'' \<notin> set ss" using True wild_double by blast
  moreover from this have "count_list ss ''**'' = 0" by (simp add: count_list_0_iff)
  ultimately show ?thesis
    using wild_double(2) [of s]
    by (cases "wild s") (simp_all add: shape_of_def add_seg_def first_wild_def Let_def
      del: takeWhile_eq_all_conv dropWhile_eq_Nil_conv)
next
  case False
  then obtain x where "x \<in> set ss" "wild x" by blast
  then have "takeWhile (\<lambda>s. \<not> wild s) (ss @ [s]) = takeWhile (\<lambda>s. \<not> wild s) ss"
    "dropWhile (\<lambda>s. \<not> wild s) (ss @ [s]) = dropWhile (\<lambda>s. \<not> wild s) ss @ [s]"
    using takeWhile_append1 [of x ss "\<lambda>s. \<not> wild s"] dropWhile_append1 [of x ss "\<lambda>s. \<not> wild s"]
    by auto
  moreover have "length (takeWhile (\<lambda>s. \<not> wild s) ss) < length ss"
    using takeWhile_wild(1) \<open>x \<in> set ss\<close> \<open>wild x\<close> by blast
  ultimately show ?thesis
    using wild_double(2) [of s]
    by (cases "wild s") (simp_all add: shape_of_def add_seg_def first_wild_def Let_def)
qed

lemma fold_add_seg: "fold add_seg ss (shape_of pre) = shape_of (pre @ ss)"
proof (induction ss arbitrary: pre)
  case (Cons s ss)
  then show ?case using Cons.IH [of "pre @ [s]"] by (simp add: shape_of_snoc)
qed simp

text \<open>The routes the scanner accepts for a scheme, by their segments.\<close>

definition scans :: "string \<Rightarrow> string \<Rightarrow> string list \<Rightarrow> bool" where
  "scans route scheme ss \<longleftrightarrow>
     length route \<le> 65535 \<and> scheme \<noteq> [] \<and>
     (\<exists>path. route = scheme @ ''://'' @ path \<and> path \<noteq> [] \<and> ss = segs path) \<and> list_all seg_ok ss"

lemma scanRoute_cases:
  "(\<exists>ss. scans route scheme ss \<and> scanRoute route scheme = Ok (shape_of ss)) \<or>
   (\<nexists>ss. scans route scheme ss) \<and> (\<exists>e. scanRoute route scheme = Err e)"
proof (cases "length route > 65535 \<or> scheme = [] \<or>
    (\<nexists>path. route = scheme @ ''://'' @ path \<and> path \<noteq> [])")
  case True
  have "route = scheme @ ''://'' @ drop (length scheme + 3) route"
    if "take (length scheme) route = scheme" "take 3 (drop (length scheme) route) = ''://''"
    using append_take_drop_id [of "length scheme" route] append_take_drop_id [of 3 "drop (length scheme) route"]
      that by (simp add: add.commute)
  moreover have "drop (length scheme + 3) route \<noteq> []"
    if "\<not> length route < length scheme + 3" "length scheme + 3 \<noteq> length route" using that by simp
  ultimately have "length route > 65535 \<or> scheme = [] \<or> length route < length scheme + 3 \<or>
    take (length scheme) route \<noteq> scheme \<or> take 3 (drop (length scheme) route) \<noteq> ''://'' \<or>
    length scheme + 3 = length route"
    using True by blast
  then have "\<exists>e. scanRoute route scheme = Err e" unfolding scanRoute_def Let_def by auto
  moreover have "\<nexists>ss. scans route scheme ss" using True by (auto simp: scans_def)
  ultimately show ?thesis by blast
next
  case False
  then obtain path where r: "route = scheme @ ''://'' @ path" "path \<noteq> []" by blast
  let ?n = "length scheme + 3"
  have d: "drop ?n route = path" using r by simp
  have sc: "scanRoute route scheme = scan_loop route ?n ?n (shape_of [])"
    using False r by (simp add: scanRoute_def shape_of_def first_wild_def Let_def)
  have "(list_all seg_ok (segs path) \<longrightarrow> scan_loop route ?n ?n (shape_of []) = Ok (shape_of (segs path))) \<and>
    (\<not> list_all seg_ok (segs path) \<longrightarrow> (\<exists>e. scan_loop route ?n ?n (shape_of []) = Err e))"
    using scan_loop_segs [of ?n ?n route "hd (segs path)" "tl (segs path)" "shape_of []"] r(1) d
    by (simp add: segs_hd_tl fold_add_seg [of _ "[]", simplified])
  moreover have "scans route scheme ss \<longleftrightarrow> ss = segs path \<and> list_all seg_ok (segs path)" for ss
    using False r by (auto simp: scans_def)
  ultimately show ?thesis unfolding sc by blast
qed

lemma scans_unique: "scans route scheme ss \<Longrightarrow> scans route scheme ts \<Longrightarrow> ss = ts"
  by (auto simp: scans_def)

lemma scanRoute_Ok_iff: "scanRoute route scheme = Ok shape \<longleftrightarrow> (\<exists>ss. scans route scheme ss \<and> shape = shape_of ss)"
  using scanRoute_cases [of route scheme] scans_unique by (metis res.distinct(1) res.inject(1))

lemma scans_scanRoute: "scans route scheme ss \<Longrightarrow> scanRoute route scheme = Ok (shape_of ss)"
  by (auto simp: scanRoute_Ok_iff)

section \<open>Cutting off the scheme\<close>

lemma find_scheme_Cut:
  "find_scheme route i = (case strings_Cut ''://'' (drop i route) of
     (before, _, found) \<Rightarrow> if found then Some (i + length before) else None)"
proof (induction "length route - i" arbitrary: i)
  case 0
  then show ?case by (subst find_scheme.simps) simp
next
  case (Suc n)
  then have i: "i < length route" by simp
  then have d: "drop i route = route ! i # drop (Suc i) route" by (simp add: Cons_nth_drop_Suc)
  show ?case
  proof (cases "take 3 (drop i route) = ''://''")
    case True
    have "length (take 3 (drop i route)) = length ''://''" by (simp only: True)
    then have "i + 2 < length route" by (simp add: min_def split: if_splits)
    with True show ?thesis by (subst find_scheme.simps) (simp add: d numeral_3_eq_3)
  next
    case False
    have IH: "find_scheme route (Suc i) = (case strings_Cut ''://'' (drop (Suc i) route) of
      (before, _, found) \<Rightarrow> if found then Some (Suc i + length before) else None)"
      using Suc by simp
    have short: "strings_Cut ''://'' s = (s, [], False)" if "length s < 3" for s
      using that by (induction s) (auto simp: Let_def)
    show ?thesis
    proof (cases "i + 2 < length route")
      case True
      then have "find_scheme route i = find_scheme route (Suc i)"
        using False by (subst find_scheme.simps) simp
      then show ?thesis unfolding IH d using False
        by (auto simp: d numeral_3_eq_3 split: prod.splits)
    next
      case False': False
      then have "find_scheme route i = None" by (subst find_scheme.simps) simp
      moreover have "strings_Cut ''://'' (drop i route) = (drop i route, [], False)"
        using False' by (intro short) simp
      ultimately show ?thesis by simp
    qed
  qed
qed

lemma Cut_found: "strings_Cut sep s = (before, after, True) \<Longrightarrow> s = before @ sep @ after"
proof (induction s arbitrary: before)
  case (Cons c cs)
  obtain b a f where r: "strings_Cut sep cs = (b, a, f)" by (metis surj_pair)
  show ?case
  proof (cases "take (length sep) (c # cs) = sep")
    case True
    then show ?thesis using Cons.prems append_take_drop_id [of "length sep" "c # cs"] by simp
  next
    case False
    then show ?thesis using Cons.prems Cons.IH [of b] r by (cases f) auto
  qed
qed (simp split: if_splits)

lemma splitRouteSegments_Cut:
  "splitRouteSegments route = (case strings_Cut ''://'' route of
     (_, path, found) \<Rightarrow> if found then segs path else [])"
proof -
  obtain b a f where r: "strings_Cut ''://'' route = (b, a, f)" by (metis surj_pair)
  show ?thesis
  proof (cases f)
    case True
    then have "route = b @ ''://'' @ a" using Cut_found [of "''://''" route b a] r by simp
    then have "drop (length b + 3) route = a" by simp
    then show ?thesis using True r find_scheme_Cut [of route 0]
      by (simp add: splitRouteSegments_def splitSegments_segs)
  qed (use r find_scheme_Cut [of route 0] in \<open>simp add: splitRouteSegments_def\<close>)
qed

section \<open>The matching relation\<close>

text \<open>\<open>*\<close> matches one segment, \<open>**\<close> any number of them, anything else itself.\<close>

fun glob :: "string list \<Rightarrow> string list \<Rightarrow> bool" where
  "glob [] [] = True"
| "glob [] (p # ps) = (p = ''**'' \<and> glob [] ps)"
| "glob (r # rs) [] = False"
| "glob (r # rs) (p # ps) =
     (if p = ''**'' then glob (r # rs) ps \<or> glob rs (p # ps) else (p = ''*'' \<or> p = r) \<and> glob rs ps)"

lemma glob_double: "glob rs (''**'' # ps) \<longleftrightarrow> (\<exists>k\<le>length rs. glob (drop k rs) ps)"
proof (induction rs)
  case (Cons r rs)
  have "(\<exists>k\<le>length (r # rs). glob (drop k (r # rs)) ps) \<longleftrightarrow>
    glob (r # rs) ps \<or> (\<exists>k\<le>length rs. glob (drop k rs) ps)"
    (is "?L \<longleftrightarrow> ?R")
  proof
    assume ?L
    then obtain k where "k \<le> length (r # rs)" "glob (drop k (r # rs)) ps" by blast
    then show ?R by (cases k) auto
  next
    assume ?R
    then show ?L
    proof
      assume "glob (r # rs) ps"
      then show ?L by (intro exI [of _ 0]) simp
    next
      assume "\<exists>k\<le>length rs. glob (drop k rs) ps"
      then obtain k where "k \<le> length rs" "glob (drop k rs) ps" by blast
      then show ?L by (intro exI [of _ "Suc k"]) simp
    qed
  qed
  then show ?case using Cons by simp
qed simp

lemma glob_literals:
  "glob rs ps \<Longrightarrow> n \<le> length ps \<Longrightarrow> ''**'' \<notin> set (take n ps) \<Longrightarrow>
   n \<le> length rs \<and> glob (drop n rs) (drop n ps)"
proof (induction rs ps arbitrary: n rule: glob.induct)
  case (2 p ps)
  then show ?case by (cases n) auto
next
  case (4 r rs p ps)
  then show ?case by (cases n) (auto split: if_splits)
qed auto

lemma skip_doubles_glob: "pi \<le> length ps \<Longrightarrow> skip_doubles ps pi = length ps \<longleftrightarrow> glob [] (drop pi ps)"
proof (induction ps pi rule: skip_doubles.induct)
  case (1 ps pi)
  show ?case
  proof (cases "pi < length ps")
    case True
    then have d: "drop pi ps = ps ! pi # drop (Suc pi) ps" by (simp add: Cons_nth_drop_Suc)
    show ?thesis
      using 1 True unfolding d by (cases "ps ! pi = ''**''"; subst skip_doubles.simps) simp_all
  qed (use 1(2) in \<open>subst skip_doubles.simps, simp\<close>)
qed

text \<open>What the loop knows after it passed a \<open>**\<close>: since then it matched segment by segment.\<close>

definition since_double ::
    "string list \<Rightarrow> nat \<Rightarrow> nat \<Rightarrow> nat \<Rightarrow> nat \<Rightarrow> bool" where
  "since_double ps ri pi d lm \<longleftrightarrow>
     d < length ps \<and> ps ! d = ''**'' \<and> lm \<le> ri \<and> pi = Suc d + (ri - lm) \<and>
     ''**'' \<notin> set (take (ri - lm) (drop (Suc d) ps))"

definition retry_matches :: "string list \<Rightarrow> string list \<Rightarrow> nat option \<Rightarrow> nat \<Rightarrow> bool" where
  "retry_matches rs ps ld lm \<longleftrightarrow>
     (case ld of None \<Rightarrow> False
      | Some d \<Rightarrow> \<exists>k. lm < k \<and> k \<le> length rs \<and> glob (drop k rs) (drop (Suc d) ps))"

lemma retry_glob:
  assumes "since_double ps ri pi d lm" "pi \<le> length ps" "k \<le> length rs" "glob (drop k rs) (drop (Suc d) ps)"
  shows "k + (ri - lm) \<le> length rs" "glob (drop (k + (ri - lm)) rs) (drop pi ps)"
proof -
  let ?n = "ri - lm"
  have "?n \<le> length (drop (Suc d) ps)" "''**'' \<notin> set (take ?n (drop (Suc d) ps))"
    using assms(1,2) by (auto simp: since_double_def)
  from glob_literals [OF assms(4) this]
  have r: "?n \<le> length rs - k" "glob (drop ?n (drop k rs)) (drop ?n (drop (Suc d) ps))" by simp_all
  show "k + ?n \<le> length rs" using r(1) assms(3) by simp
  have "pi = ?n + Suc d" using assms(1) by (simp add: since_double_def)
  then show "glob (drop (k + ?n) rs) (drop pi ps)" using r(2) by (simp add: add.commute)
qed

lemma glob_step:
  assumes "ri < length rs" "pi \<le> length ps"
  shows "pi < length ps \<Longrightarrow> ps ! pi \<noteq> ''**'' \<Longrightarrow> glob (drop ri rs) (drop pi ps) \<longleftrightarrow>
      (ps ! pi = ''*'' \<or> ps ! pi = rs ! ri) \<and> glob (drop (Suc ri) rs) (drop (Suc pi) ps)"
    "pi < length ps \<Longrightarrow> ps ! pi = ''**'' \<Longrightarrow> glob (drop ri rs) (drop pi ps) \<longleftrightarrow>
      (\<exists>k. ri \<le> k \<and> k \<le> length rs \<and> glob (drop k rs) (drop (Suc pi) ps))"
    "pi = length ps \<Longrightarrow> \<not> glob (drop ri rs) (drop pi ps)"
proof -
  have dr: "drop ri rs = rs ! ri # drop (Suc ri) rs" using assms(1) by (simp add: Cons_nth_drop_Suc)
  have dp: "pi < length ps \<Longrightarrow> drop pi ps = ps ! pi # drop (Suc pi) ps" by (simp add: Cons_nth_drop_Suc)
  show "pi < length ps \<Longrightarrow> ps ! pi \<noteq> ''**'' \<Longrightarrow> glob (drop ri rs) (drop pi ps) \<longleftrightarrow>
      (ps ! pi = ''*'' \<or> ps ! pi = rs ! ri) \<and> glob (drop (Suc ri) rs) (drop (Suc pi) ps)"
    unfolding dr by (simp add: dp)
  show "pi = length ps \<Longrightarrow> \<not> glob (drop ri rs) (drop pi ps)" unfolding dr by simp
  assume p: "pi < length ps" "ps ! pi = ''**''"
  have "glob (drop ri rs) (drop pi ps) \<longleftrightarrow>
    (\<exists>k\<le>length rs - ri. glob (drop (k + ri) rs) (drop (Suc pi) ps))"
    unfolding dp [OF p(1)] p(2) glob_double by simp
  also have "\<dots> \<longleftrightarrow> (\<exists>k. ri \<le> k \<and> k \<le> length rs \<and> glob (drop k rs) (drop (Suc pi) ps))" (is "?L \<longleftrightarrow> ?R")
  proof
    assume ?L
    then obtain k where "k \<le> length rs - ri" "glob (drop (k + ri) rs) (drop (Suc pi) ps)" by blast
    then show ?R using assms(1) by (intro exI [of _ "k + ri"]) simp
  next
    assume ?R
    then obtain k where "ri \<le> k" "k \<le> length rs" "glob (drop k rs) (drop (Suc pi) ps)" by blast
    then show ?L by (intro exI [of _ "k - ri"]) simp
  qed
  finally show "glob (drop ri rs) (drop pi ps) \<longleftrightarrow>
      (\<exists>k. ri \<le> k \<and> k \<le> length rs \<and> glob (drop k rs) (drop (Suc pi) ps))" .
qed

lemma retry_subsumed:
  assumes "since_double ps ri pi d lm" "pi < length ps" "ps ! pi = ''**''" "ri < length rs"
    "retry_matches rs ps (Some d) lm"
  shows "glob (drop ri rs) (drop pi ps)"
proof -
  obtain k where k: "lm < k" "k \<le> length rs" "glob (drop k rs) (drop (Suc d) ps)"
    using assms(5) by (auto simp: retry_matches_def)
  let ?k = "k + (ri - lm)"
  have le: "pi \<le> length ps" using assms(2) by simp
  note r = retry_glob [OF assms(1) le k(2,3)]
  have ge: "ri \<le> ?k" using k(1) assms(1) by (simp add: since_double_def)
  show ?thesis
  proof (cases "?k < length rs")
    case True
    from glob_step(2) [OF True le assms(2,3)] r(2) obtain j where
      "?k \<le> j" "j \<le> length rs" "glob (drop j rs) (drop (Suc pi) ps)" by blast
    then have "\<exists>k. ri \<le> k \<and> k \<le> length rs \<and> glob (drop k rs) (drop (Suc pi) ps)"
      using ge by (intro exI [of _ j]) simp
    then show ?thesis using glob_step(2) [OF assms(4) le assms(2,3)] by blast
  next
    case False
    then have k': "?k = length rs" using r(1) by simp
    have "drop pi ps = ''**'' # drop (Suc pi) ps" using Cons_nth_drop_Suc [OF assms(2)] assms(3) by simp
    then have "glob [] (drop (Suc pi) ps)" using r(2) unfolding k' by simp
    then have "\<exists>k. ri \<le> k \<and> k \<le> length rs \<and> glob (drop k rs) (drop (Suc pi) ps)"
      using assms(4) by (intro exI [of _ "length rs"]) simp
    then show ?thesis using glob_step(2) [OF assms(4) le assms(2,3)] by blast
  qed
qed

lemma retry_next:
  assumes "Suc lm \<le> length rs"
  shows "retry_matches rs ps (Some d) lm \<longleftrightarrow>
    glob (drop (Suc lm) rs) (drop (Suc d) ps) \<or> retry_matches rs ps (Some d) (Suc lm)"
proof -
  have "lm < k \<longleftrightarrow> k = Suc lm \<or> Suc lm < k" for k by auto
  then show ?thesis unfolding retry_matches_def using assms by auto
qed

lemma retry_start:
  assumes "ri \<le> length rs"
  shows "glob (drop ri rs) (drop (Suc d) ps) \<or> retry_matches rs ps (Some d) ri \<longleftrightarrow>
    (\<exists>k. ri \<le> k \<and> k \<le> length rs \<and> glob (drop k rs) (drop (Suc d) ps))"
proof -
  have "ri \<le> k \<longleftrightarrow> k = ri \<or> ri < k" for k by auto
  then show ?thesis unfolding retry_matches_def using assms by auto
qed

lemma match_loop_glob:
  assumes "''**'' \<notin> set rs" "ri \<le> length rs" "pi \<le> length ps"
    "case ld of None \<Rightarrow> True | Some d \<Rightarrow> since_double ps ri pi d lm"
  shows "(case match_loop rs ps ri pi ld lm of None \<Rightarrow> False | Some j \<Rightarrow> skip_doubles ps j = length ps) \<longleftrightarrow>
    glob (drop ri rs) (drop pi ps) \<or> retry_matches rs ps ld lm"
  using assms
proof (induction rs ps ri pi ld lm rule: match_loop.induct)
  case (1 rs ps ri pi ld lm)
  show ?case
  proof (cases "ri < length rs")
    case False
    then have "match_loop rs ps ri pi ld lm = Some pi" by (subst match_loop.simps) simp
    moreover have "\<not> retry_matches rs ps ld lm"
    proof
      assume "retry_matches rs ps ld lm"
      then obtain d k where k: "ld = Some d" "lm < k" "k \<le> length rs" "glob (drop k rs) (drop (Suc d) ps)"
        by (auto simp: retry_matches_def split: option.splits)
      then have s: "since_double ps ri pi d lm" using 1(7) by simp
      have "k + (ri - lm) \<le> length rs" by (rule retry_glob(1) [OF s 1(6) k(3,4)])
      then show False using k(2) False s by (simp add: since_double_def)
    qed
    ultimately show ?thesis using False skip_doubles_glob [OF 1(6)] by simp
  next
    case ri: True
    show ?thesis
    proof (cases "pi < length ps \<and> (ps ! pi = ''*'' \<or> ps ! pi = rs ! ri)")
      case True
      have lit: "ps ! pi \<noteq> ''**''"
      proof
        assume a: "ps ! pi = ''**''"
        then have "rs ! ri = ''**''" using True by auto
        then show False using 1(4) nth_mem [OF ri] by simp
      qed
      have "case ld of None \<Rightarrow> True | Some d \<Rightarrow> since_double ps (ri + 1) (pi + 1) d lm"
        using 1(7) True lit
        by (auto simp: since_double_def Suc_diff_le take_Suc_conv_app_nth split: option.splits)
      then have "(case match_loop rs ps (ri + 1) (pi + 1) ld lm of
          None \<Rightarrow> False | Some j \<Rightarrow> skip_doubles ps j = length ps) \<longleftrightarrow>
        glob (drop (ri + 1) rs) (drop (pi + 1) ps) \<or> retry_matches rs ps ld lm"
        using 1(1) [OF ri True] 1(4) ri True by simp
      moreover have "match_loop rs ps ri pi ld lm = match_loop rs ps (ri + 1) (pi + 1) ld lm"
        using ri True by (subst match_loop.simps) simp
      ultimately show ?thesis using glob_step(1) [OF ri 1(6) _ lit] True by simp
    next
      case nomatch: False
      show ?thesis
      proof (cases "pi < length ps \<and> ps ! pi = ''**''")
        case True
        have "since_double ps ri (pi + 1) pi ri" using True by (simp add: since_double_def)
        then have "(case match_loop rs ps ri (pi + 1) (Some pi) ri of
            None \<Rightarrow> False | Some j \<Rightarrow> skip_doubles ps j = length ps) \<longleftrightarrow>
          glob (drop ri rs) (drop (pi + 1) ps) \<or> retry_matches rs ps (Some pi) ri"
          using 1(2) [OF ri nomatch True] 1(4) ri True by simp
        moreover have "match_loop rs ps ri pi ld lm = match_loop rs ps ri (pi + 1) (Some pi) ri"
          using ri nomatch True by (subst match_loop.simps) simp
        moreover have "glob (drop ri rs) (drop (pi + 1) ps) \<or> retry_matches rs ps (Some pi) ri \<longleftrightarrow>
          glob (drop ri rs) (drop pi ps)"
          using glob_step(2) [OF ri 1(6)] True retry_start [of ri rs pi ps] ri by simp
        moreover have "retry_matches rs ps ld lm \<Longrightarrow> glob (drop ri rs) (drop pi ps)"
          using retry_subsumed [of ps ri pi _ lm rs] 1(7) True ri
          by (cases ld) (auto simp: retry_matches_def)
        ultimately show ?thesis by auto
      next
        case False
        have no: "\<not> glob (drop ri rs) (drop pi ps)"
          using glob_step(1,3) [OF ri 1(6)] nomatch False 1(6) by (cases "pi = length ps") auto
        show ?thesis
        proof (cases ld)
          case None
          then have "match_loop rs ps ri pi ld lm = None"
            using ri nomatch False by (subst match_loop.simps) auto
          with None no show ?thesis by (simp add: retry_matches_def)
        next
          case (Some d)
          then have s: "since_double ps ri pi d lm" using 1(7) by simp
          have "match_loop rs ps ri pi ld lm = match_loop rs ps (lm + 1) (d + 1) ld (lm + 1)"
            using ri nomatch False Some by (subst match_loop.simps) auto
          moreover have "(case match_loop rs ps (lm + 1) (d + 1) ld (lm + 1) of
              None \<Rightarrow> False | Some j \<Rightarrow> skip_doubles ps j = length ps) \<longleftrightarrow>
            glob (drop (lm + 1) rs) (drop (d + 1) ps) \<or> retry_matches rs ps ld (lm + 1)"
            using 1(3) [OF ri nomatch False Some] 1(4) ri s Some by (auto simp: since_double_def)
          moreover have "glob (drop (lm + 1) rs) (drop (d + 1) ps) \<or> retry_matches rs ps ld (lm + 1) \<longleftrightarrow>
            retry_matches rs ps ld lm"
            using retry_next [of lm rs ps d] Some s ri by (simp add: since_double_def)
          ultimately show ?thesis using no by simp
        qed
      qed
    qed
  qed
qed

lemma RouteMatchesPattern_Cut:
  assumes "''**'' \<notin> set (splitRouteSegments route)"
    "strings_Cut ''://'' route = (s1, rp, f1)" "strings_Cut ''://'' pattern = (s2, pp, f2)"
  shows "RouteMatchesPattern route pattern \<longleftrightarrow> f1 \<and> f2 \<and> s1 = s2 \<and> glob (segs rp) (segs pp)"
proof (cases "f1 \<and> f2")
  case True
  then have "splitRouteSegments route = segs rp" "splitRouteSegments pattern = segs pp"
    using assms(2,3) by (simp_all add: splitRouteSegments_Cut)
  then show ?thesis
    using True assms match_loop_glob [where rs = "segs rp" and ps = "segs pp" and ri = 0 and pi = 0
      and ld = None and lm = 0]
    by (simp add: RouteMatchesPattern_def retry_matches_def)
qed (use assms(2,3) in \<open>auto simp: RouteMatchesPattern_def\<close>)

lemma Cut_scheme: "CHR '':'' \<notin> set scheme \<Longrightarrow> strings_Cut ''://'' (scheme @ ''://'' @ path) = (scheme, path, True)"
  by (induction scheme) (auto simp: Let_def)

lemma scans_Cut:
  assumes "scans route scheme ss" "CHR '':'' \<notin> set scheme"
  shows "\<exists>path. strings_Cut ''://'' route = (scheme, path, True) \<and> segs path = ss"
  using assms Cut_scheme by (fastforce simp: scans_def)

section \<open>Segments that stand for themselves\<close>

definition literal :: "string \<Rightarrow> bool" where
  "literal s \<longleftrightarrow> s \<noteq> [] \<and> CHR ''*'' \<notin> set s \<and> CHR ''/'' \<notin> set s"

lemma seg_ok_literal: "CHR ''/'' \<notin> set s \<Longrightarrow> seg_ok s \<longleftrightarrow> literal s \<or> wild s"
  by (auto simp: seg_ok_def literal_def wild_def)

lemma literal_not_wild: "literal s \<Longrightarrow> \<not> wild s"
  by (auto simp: literal_def wild_def)

lemma scans_segs: "scans route scheme ss \<Longrightarrow> s \<in> set ss \<Longrightarrow> literal s \<or> wild s"
  using segs_no_slash seg_ok_literal by (auto simp: scans_def list_all_iff)

definition matchable :: "string list \<Rightarrow> nat \<Rightarrow> bool" where
  "matchable ps n \<longleftrightarrow> (\<exists>rs. length rs = n \<and> list_all literal rs \<and> glob rs ps)"

lemma matchable_double: "matchable (''**'' # ps) n \<longleftrightarrow> (\<exists>m\<le>n. matchable ps m)"
proof
  assume "matchable (''**'' # ps) n"
  then obtain rs k where r: "length rs = n" "list_all literal rs" "k \<le> length rs" "glob (drop k rs) ps"
    by (auto simp: matchable_def glob_double)
  then have "matchable ps (n - k)"
    by (auto simp: matchable_def list_all_iff dest: in_set_dropD intro!: exI [of _ "drop k rs"])
  then show "\<exists>m\<le>n. matchable ps m" by (intro exI [of _ "n - k"]) simp
next
  assume "\<exists>m\<le>n. matchable ps m"
  then obtain m rs where r: "m \<le> n" "length rs = m" "list_all literal rs" "glob rs ps"
    by (auto simp: matchable_def)
  then have "glob (replicate (n - m) ''a'' @ rs) (''**'' # ps)"
    unfolding glob_double by (intro exI [of _ "n - m"]) simp
  moreover have "list_all literal (replicate (n - m) ''a'' @ rs)"
    using r(3) by (auto simp: literal_def list_all_iff)
  ultimately show "matchable (''**'' # ps) n"
    using r(1,2) unfolding matchable_def by (intro exI [of _ "replicate (n - m) ''a'' @ rs"]) simp
qed

lemma matchable_other:
  assumes "literal p \<or> wild p" "p \<noteq> ''**''"
  shows "matchable (p # ps) n \<longleftrightarrow> (\<exists>m. n = Suc m \<and> matchable ps m)"
proof
  assume "matchable (p # ps) n"
  then obtain rs where r: "length rs = n" "list_all literal rs" "glob rs (p # ps)"
    by (auto simp: matchable_def)
  then show "\<exists>m. n = Suc m \<and> matchable ps m"
    using assms(2) by (cases rs) (auto simp: matchable_def)
next
  assume "\<exists>m. n = Suc m \<and> matchable ps m"
  then obtain m rs where r: "n = Suc m" "length rs = m" "list_all literal rs" "glob rs ps"
    by (auto simp: matchable_def)
  let ?r = "if wild p then ''a'' else p"
  have "literal ?r" "glob (?r # rs) (p # ps)"
    using assms r(4) by (auto simp: literal_def wild_def)
  then show "matchable (p # ps) n"
    using r unfolding matchable_def by (intro exI [of _ "?r # rs"]) simp
qed

lemma matchable_iff:
  assumes "\<forall>p\<in>set ps. literal p \<or> wild p"
  shows "matchable ps n \<longleftrightarrow>
    (if count_list ps ''**'' = 0 then n = length ps else length ps - count_list ps ''**'' \<le> n)"
  using assms
proof (induction ps arbitrary: n)
  case Nil
  have "glob rs [] \<longleftrightarrow> rs = []" for rs by (cases rs) simp_all
  then show ?case by (auto simp: matchable_def)
next
  case (Cons p ps)
  have c: "count_list ps ''**'' \<le> length ps" by (rule count_le_length)
  show ?case
  proof (cases "p = ''**''")
    case True
    have "matchable (p # ps) n \<longleftrightarrow> (\<exists>m\<le>n. if count_list ps ''**'' = 0 then m = length ps
      else length ps - count_list ps ''**'' \<le> m)"
      unfolding True matchable_double using Cons by simp
    also have "\<dots> \<longleftrightarrow> length ps - count_list ps ''**'' \<le> n" by (cases "count_list ps ''**'' = 0") auto
    finally show ?thesis using True by simp
  next
    case False
    have "matchable (p # ps) n \<longleftrightarrow> (\<exists>m. n = Suc m \<and> (if count_list ps ''**'' = 0 then m = length ps
      else length ps - count_list ps ''**'' \<le> m))"
      using matchable_other [OF _ False] Cons by simp
    also have "\<dots> \<longleftrightarrow> (if count_list ps ''**'' = 0 then n = Suc (length ps)
      else Suc (length ps) - count_list ps ''**'' \<le> n)"
      using c by (cases n) (auto simp: Suc_diff_le)
    finally show ?thesis using False by simp
  qed
qed

lemma wild_prefix:
  assumes "\<forall>s\<in>set lits. \<not> wild s" "wilds \<noteq> [] \<Longrightarrow> wild (hd wilds)"
  shows "takeWhile (\<lambda>s. \<not> wild s) (lits @ wilds) = lits \<and> dropWhile (\<lambda>s. \<not> wild s) (lits @ wilds) = wilds"
  using assms(1)
proof (induction lits)
  case Nil
  then show ?case using assms(2) by (cases wilds) simp_all
qed simp

lemma first_wild_prefix:
  assumes "\<forall>s\<in>set lits. \<not> wild s" "wilds \<noteq> [] \<Longrightarrow> wild (hd wilds)"
  shows "first_wild (lits @ wilds) = (if wilds = [] then -1 else int (length lits))"
  using wild_prefix [OF assms] unfolding first_wild_def Let_def by simp

lemma wild_decomp:
  obtains lits wilds where "ss = lits @ wilds" "\<forall>s\<in>set lits. \<not> wild s" "wilds \<noteq> [] \<Longrightarrow> wild (hd wilds)"
proof
  show "ss = takeWhile (\<lambda>s. \<not> wild s) ss @ dropWhile (\<lambda>s. \<not> wild s) ss" by simp
  show "\<forall>s\<in>set (takeWhile (\<lambda>s. \<not> wild s) ss). \<not> wild s" by (auto dest: set_takeWhileD)
  show "dropWhile (\<lambda>s. \<not> wild s) ss \<noteq> [] \<Longrightarrow> wild (hd (dropWhile (\<lambda>s. \<not> wild s) ss))"
    using hd_dropWhile [of "\<lambda>s. \<not> wild s" ss] by blast
qed

section \<open>Properties\<close>

lemma ValidateFixedRoute_no_panic: "no_panic (ValidateFixedRoute route scheme n)"
  using scanRoute_cases [of route scheme] by (auto simp: ValidateFixedRoute_def)

text \<open>Scanner. The one-pass scanner accepts exactly the routes of at most 65,535 bytes that consist
  of the scheme, \<open>://\<close> and a path whose slash-separated segments are all non-empty and contain a star
  only if they are \<open>*\<close> or \<open>**\<close>, and what it reports is what the list of segments says: their number,
  the index of the first wildcard, the number of \<open>**\<close>, and whether the wildcards form a suffix.\<close>

theorem scan_route_exact:
  "scanRoute route scheme = Ok shape \<longleftrightarrow> (\<exists>ss. scans route scheme ss \<and> shape = shape_of ss)"
  by (rule scanRoute_Ok_iff)

text \<open>C4: Matching. For a validated concrete route and a validated registration pattern of one scheme,
  the matcher's loop with its single backtracking point decides exactly the recursive matching
  relation, in which \<open>*\<close> stands for one segment and \<open>**\<close> for any number, wherever they occur.\<close>

theorem route_matches_pattern_exact:
  assumes "ValidateConcreteRoute route scheme = Ok ()" "ValidateRegistrationPattern pattern scheme 0 = Ok ()"
    "CHR '':'' \<notin> set scheme"
  shows "\<exists>rs ps. scans route scheme rs \<and> scans pattern scheme ps \<and>
    RouteMatchesPattern route pattern = glob rs ps"
proof -
  obtain rs where rs: "scans route scheme rs" "\<not> first_wild rs \<ge> 0"
    using assms(1)
    by (auto simp: ValidateConcreteRoute_def bind_res_Ok_iff scanRoute_Ok_iff shape_of_def split: if_splits)
  obtain ps where ps: "scans pattern scheme ps"
    using assms(2) by (auto simp: ValidateRegistrationPattern_def bind_res_Ok_iff scanRoute_Ok_iff)
  obtain rp pp where c: "strings_Cut ''://'' route = (scheme, rp, True)" "segs rp = rs"
    "strings_Cut ''://'' pattern = (scheme, pp, True)" "segs pp = ps"
    using scans_Cut [OF rs(1) assms(3)] scans_Cut [OF ps assms(3)] by blast
  have "''**'' \<notin> set (splitRouteSegments route)"
    using rs(2) c wild_double(1) by (auto simp: splitRouteSegments_Cut first_wild_cases)
  from RouteMatchesPattern_Cut [OF this c(1,3)] show ?thesis using rs(1) ps c(2,4) by auto
qed

lemma example_scans:
  "scans ''kv://a/b/c'' ''kv'' [''a'', ''b'', ''c'']" "scans ''kv://a/**/c'' ''kv'' [''a'', ''**'', ''c'']"
  by (simp_all add: scans_def seg_ok_def wild_def)

theorem route_matches_pattern_exact_witness:
  "RouteMatchesPattern ''kv://a/b/c'' ''kv://a/**/c''"
proof -
  have "ValidateConcreteRoute ''kv://a/b/c'' ''kv'' = Ok ()"
    by (simp add: ValidateConcreteRoute_def scans_scanRoute [OF example_scans(1)] shape_of_def
      first_wild_def wild_def)
  moreover have "ValidateRegistrationPattern ''kv://a/**/c'' ''kv'' 0 = Ok ()"
    by (simp add: ValidateRegistrationPattern_def scans_scanRoute [OF example_scans(2)])
  ultimately obtain rs ps where "scans ''kv://a/b/c'' ''kv'' rs" "scans ''kv://a/**/c'' ''kv'' ps"
    "RouteMatchesPattern ''kv://a/b/c'' ''kv://a/**/c'' = glob rs ps"
    using route_matches_pattern_exact [of "''kv://a/b/c''" "''kv''" "''kv://a/**/c''"] by auto
  moreover from this have "rs = [''a'', ''b'', ''c'']" "ps = [''a'', ''**'', ''c'']"
    using scans_unique example_scans by blast+
  ultimately show ?thesis by simp
qed

text \<open>Registration patterns. For a positive segment count a syntactically valid pattern is accepted
  exactly when some concrete route with that many segments matches it, as the error text says.\<close>

theorem registration_pattern_matchable:
  assumes "scans pattern scheme ps" "0 < n"
  shows "ValidateRegistrationPattern pattern scheme (int n) = Ok () \<longleftrightarrow>
    (\<exists>rs. length rs = n \<and> list_all literal rs \<and> glob rs ps)"
proof -
  have "count_list ps ''**'' \<le> length ps" by (rule count_le_length)
  then have "ValidateRegistrationPattern pattern scheme (int n) = Ok () \<longleftrightarrow>
    (if count_list ps ''**'' = 0 then n = length ps else length ps - count_list ps ''**'' \<le> n)"
    using assms by (auto simp: ValidateRegistrationPattern_def scans_scanRoute shape_of_def)
  then show ?thesis
    using matchable_iff [of ps n] scans_segs [OF assms(1)] unfolding matchable_def by blast
qed

theorem registration_pattern_matchable_witness:
  "ValidateRegistrationPattern ''kv://a/**/c'' ''kv'' 3 = Ok () \<and>
   ValidateRegistrationPattern ''kv://a/**/c'' ''kv'' 1 \<noteq> Ok ()"
proof
  have "\<exists>rs. length rs = 3 \<and> list_all literal rs \<and> glob rs [''a'', ''**'', ''c'']"
    by (rule exI [of _ "[''a'', ''x'', ''c'']"]) (simp add: literal_def)
  then show "ValidateRegistrationPattern ''kv://a/**/c'' ''kv'' 3 = Ok ()"
    using registration_pattern_matchable [OF example_scans(2), of 3] by simp
  have "\<not> (\<exists>rs. length rs = 1 \<and> list_all literal rs \<and> glob rs [''a'', ''**'', ''c''])"
    by (auto simp: length_Suc_conv)
  then show "ValidateRegistrationPattern ''kv://a/**/c'' ''kv'' 1 \<noteq> Ok ()"
    using registration_pattern_matchable [OF example_scans(2), of 1] by simp
qed

text \<open>Selectors. A selector route is accepted exactly when it has the required number of segments,
  begins with a literal realm, and ends in single-segment wildcards only: none, one in the last place,
  or, where the method allows it, all places after the realm.\<close>

theorem selector_route_exact:
  "ValidateSelectorRoute route scheme n allow = Ok () \<longleftrightarrow>
     (\<exists>lits stars. scans route scheme (lits @ stars) \<and> length (lits @ stars) = n \<and>
        (\<forall>s\<in>set lits. \<not> wild s) \<and> (\<forall>s\<in>set stars. s = ''*'') \<and> lits \<noteq> [] \<and>
        (length stars \<le> 1 \<or> allow \<and> length lits = 1))"
proof (cases "\<exists>ss. scans route scheme ss")
  case False
  then show ?thesis
    using scanRoute_cases [of route scheme] by (auto simp: ValidateSelectorRoute_def)
next
  case True
  then obtain ss where ss: "scans route scheme ss" by blast
  obtain lits wilds where d: "ss = lits @ wilds" "\<forall>s\<in>set lits. \<not> wild s" "wilds \<noteq> [] \<Longrightarrow> wild (hd wilds)"
    using wild_decomp [of ss] by blast
  have dw: "''**'' \<in> set ss \<longleftrightarrow> ''**'' \<in> set wilds" using d(1,2) wild_double(1) by auto
  have "ValidateSelectorRoute route scheme n allow = Ok () \<longleftrightarrow>
    length ss = n \<and> lits \<noteq> [] \<and> (\<forall>s\<in>set wilds. s = ''*'') \<and>
    (length wilds \<le> 1 \<or> allow \<and> length lits = 1)"
  proof (cases "wilds = []")
    case True
    then show ?thesis
      using d first_wild_prefix [OF d(2,3)]
      by (auto simp: ValidateSelectorRoute_def scans_scanRoute [OF ss] shape_of_def)
  next
    case False
    have "''**'' \<notin> set wilds \<and> list_all wild wilds \<longleftrightarrow> (\<forall>s\<in>set wilds. s = ''*'')"
      by (auto simp: list_all_iff wild_def)
    moreover have "int (length lits) = int (length ss) - 1 \<longleftrightarrow> length wilds \<le> 1"
      using False d(1) by (cases wilds) auto
    ultimately show ?thesis
      using d(1) first_wild_prefix [OF d(2,3)] wild_prefix [OF d(2,3)] dw False
      by (auto simp: ValidateSelectorRoute_def scans_scanRoute [OF ss] shape_of_def)
  qed
  moreover have "lits' = lits \<and> stars = wilds"
    if "scans route scheme (lits' @ stars)" "\<forall>s\<in>set lits'. \<not> wild s" "\<forall>s\<in>set stars. s = ''*''" for lits' stars
  proof -
    have eq: "lits' @ stars = lits @ wilds" using scans_unique [OF ss that(1)] d(1) by simp
    have "stars \<noteq> [] \<Longrightarrow> wild (hd stars)" using that(3) by (cases stars) (auto simp: wild_def)
    from wild_prefix [OF that(2) this] show ?thesis using wild_prefix [OF d(2,3)] unfolding eq by blast
  qed
  ultimately show ?thesis using ss d(1,2) by blast
qed

theorem selector_route_exact_witness:
  "ValidateSelectorRoute ''kv://a/b/*'' ''kv'' 3 False = Ok ()"
proof -
  have "scans ''kv://a/b/*'' ''kv'' ([''a'', ''b''] @ [''*''])"
    by (simp add: scans_def seg_ok_def wild_def)
  moreover have "\<forall>s\<in>set [''a'', ''b'']. \<not> wild s" by (simp add: wild_def)
  ultimately show ?thesis
    using selector_route_exact [of "''kv://a/b/*''" "''kv''" 3 False]
    by (metis (no_types, lifting) One_nat_def append_Cons append_Nil le_refl length_Cons list.distinct(1)
        list.set(1) list.size(3) numeral_3_eq_3 set_ConsD empty_iff)
qed

lemma segs_literal: "CHR ''/'' \<notin> set x \<Longrightarrow> segs x = [x]"
  by (induction x) auto

lemma segs_append: "CHR ''/'' \<notin> set x \<Longrightarrow> segs (x @ CHR ''/'' # rest) = x # segs rest"
  by (induction x) auto

lemma segs_single: "segs p = [x] \<Longrightarrow> p = x"
proof (induction p arbitrary: x)
  case (Cons c cs)
  obtain h t where e: "segs cs = h # t" by (cases "segs cs") auto
  then show ?case using Cons by (auto split: if_splits)
qed simp

lemma segs_Cons_iff:
  "segs p = x # y # ss \<longleftrightarrow> CHR ''/'' \<notin> set x \<and> (\<exists>rest. p = x @ CHR ''/'' # rest \<and> segs rest = y # ss)"
proof (induction p arbitrary: x)
  case (Cons c cs)
  show ?case
  proof (cases "c = CHR ''/''")
    case True
    then show ?thesis by (cases x) auto
  next
    case False
    have "segs (c # cs) = x # y # ss \<longleftrightarrow> (\<exists>x'. x = c # x' \<and> segs cs = x' # y # ss)"
      using False by (cases "segs cs"; cases x) auto
    also have "\<dots> \<longleftrightarrow> CHR ''/'' \<notin> set x \<and> (\<exists>rest. c # cs = x @ CHR ''/'' # rest \<and> segs rest = y # ss)"
      using Cons False by (cases x) auto
    finally show ?thesis .
  qed
qed simp

lemma stream_realm_form:
  assumes "route = ''stream://'' @ path" "path \<noteq> ''**''"
  shows "length (splitRouteSegments route) = 2 \<and> splitRouteSegments route ! 1 = ''**'' \<and>
      splitRouteSegments route ! 0 \<noteq> [] \<and> CHR ''*'' \<notin> set (splitRouteSegments route ! 0) \<longleftrightarrow>
    (\<exists>realm. literal realm \<and> route = ''stream://'' @ realm @ ''/**'')"
proof -
  have sp: "splitRouteSegments route = segs path"
    using Cut_scheme [of "''stream''" path] assms(1) by (simp add: splitRouteSegments_Cut)
  have one: "segs rest = [''**''] \<longleftrightarrow> rest = ''**''" for rest
    using segs_single [of rest "''**''"] by (auto simp: segs_literal)
  have "length (segs path) = 2 \<and> segs path ! 1 = ''**'' \<and> segs path ! 0 \<noteq> [] \<and>
      CHR ''*'' \<notin> set (segs path ! 0) \<longleftrightarrow>
    (\<exists>realm. segs path = [realm, ''**''] \<and> realm \<noteq> [] \<and> CHR ''*'' \<notin> set realm)"
    by (auto simp: numeral_2_eq_2 length_Suc_conv)
  also have "\<dots> \<longleftrightarrow> (\<exists>realm. literal realm \<and> path = realm @ ''/**'')"
    unfolding segs_Cons_iff one literal_def by auto
  finally show ?thesis using assms(1) unfolding sp by simp
qed

text \<open>The accepted forms by the place of the leftmost wildcard.\<close>

lemma stream_selector_forms:
  "ClassifyStreamSelector route = Ok scope \<longleftrightarrow>
     route = ''stream://**'' \<and> scope = StreamScopeGlobal \<or>
     (\<exists>realm. literal realm \<and> route = ''stream://'' @ realm @ ''/**'' \<and> scope = StreamScopeRealm) \<or>
     (\<exists>a b c. scans route ''stream'' [a, b, c] \<and> ''**'' \<notin> {a, b, c} \<and>
        scope = (if a = ''*'' then StreamScopeGlobal else if b = ''*'' then StreamScopeRealm
                 else if c = ''*'' then StreamScopeArea else StreamScopeResource))"
  (is "_ \<longleftrightarrow> ?G \<or> ?R \<or> ?T")
proof (cases "route = ''stream://**''")
  case True
  have "\<not> scans route ''stream'' [a, b, c]" for a b c by (auto simp: True scans_def)
  moreover have "route \<noteq> ''stream://'' @ realm @ ''/**''" for realm
    by (auto simp: True append_eq_Cons_conv)
  ultimately show ?thesis using True by (auto simp: ClassifyStreamSelector_def)
next
  case ng: False
  show ?thesis
  proof (cases "\<exists>realm. literal realm \<and> route = ''stream://'' @ realm @ ''/**''")
    case True
    then obtain realm where r: "literal realm" "route = ''stream://'' @ realm @ ''/**''" by blast
    then have "ClassifyStreamSelector route = Ok StreamScopeRealm"
      using ng stream_realm_form [of route "realm @ ''/**''"]
      by (auto simp: ClassifyStreamSelector_def strings_HasPrefix_def Let_def)
    moreover have "\<not> scans route ''stream'' [a, b, c]" for a b c
      using r by (auto simp: scans_def literal_def segs_append)
    ultimately show ?thesis using ng True by auto
  next
    case nr: False
    let ?ss = "splitRouteSegments route"
    have nrealm: "\<not> (strings_HasPrefix route ''stream://'' \<and> length ?ss = 2 \<and> ?ss ! 1 = ''**'' \<and>
      ?ss ! 0 \<noteq> [] \<and> CHR ''*'' \<notin> set (?ss ! 0))"
    proof
      assume a: "strings_HasPrefix route ''stream://'' \<and> length ?ss = 2 \<and> ?ss ! 1 = ''**'' \<and>
        ?ss ! 0 \<noteq> [] \<and> CHR ''*'' \<notin> set (?ss ! 0)"
      then obtain path where p: "route = ''stream://'' @ path"
        unfolding strings_HasPrefix_def by (metis append_take_drop_id)
      moreover have "path \<noteq> ''**''" using p ng by auto
      ultimately show False using stream_realm_form [of route path] a nr by blast
    qed
    show ?thesis
    proof (cases "\<exists>a b c. scans route ''stream'' [a, b, c]")
      case True
      then obtain a b c where s: "scans route ''stream'' [a, b, c]" by blast
      have ss: "?ss = [a, b, c]"
        using scans_Cut [OF s] by (auto simp: splitRouteSegments_Cut)
      have lit: "x \<in> {a, b, c} \<Longrightarrow> CHR ''*'' \<in> set x \<and> x \<noteq> ''*'' \<longleftrightarrow> x = ''**''" for x
        using scans_segs [OF s, of x] by (auto simp: literal_def wild_def)
      have T: "?T \<longleftrightarrow> ''**'' \<notin> {a, b, c} \<and>
        scope = (if a = ''*'' then StreamScopeGlobal else if b = ''*'' then StreamScopeRealm
                 else if c = ''*'' then StreamScopeArea else StreamScopeResource)"
        using s scans_unique [OF s] by blast
      have "(\<exists>x\<in>set ?ss. CHR ''*'' \<in> set x \<and> x \<noteq> ''*'') \<longleftrightarrow> ''**'' \<in> {a, b, c}"
        unfolding ss using lit by auto
      then show ?thesis
        unfolding T using ng nr nrealm s
        by (auto simp: ClassifyStreamSelector_def Let_def scans_scanRoute [OF s] ss shape_of_def)
    next
      case False
      have "\<nexists>sc. ClassifyStreamSelector route = Ok sc"
      proof (cases "scanRoute route ''stream''")
        case (Ok shape)
        then obtain ts where ts: "scans route ''stream'' ts" "shape = shape_of ts"
          by (auto simp: scanRoute_Ok_iff)
        then have "length ts \<noteq> 3" using False by (auto simp: numeral_3_eq_3 length_Suc_conv)
        then show ?thesis using ng nrealm Ok ts(2) by (auto simp: ClassifyStreamSelector_def Let_def shape_of_def)
      qed (use ng nrealm in \<open>auto simp: ClassifyStreamSelector_def Let_def\<close>)
      then show ?thesis using ng nr False by auto
    qed
  qed
qed

text \<open>The selectors of the public contract: a concrete resource, \<open>realm/area/*\<close>, \<open>realm/*/*\<close> and \<open>stream://**\<close>.\<close>

definition contract_selector :: "string \<Rightarrow> StreamSelectorScope \<Rightarrow> bool" where
  "contract_selector route scope \<longleftrightarrow> route = ''stream://**'' \<and> scope = StreamScopeGlobal \<or>
     (\<exists>realm area res. scans route ''stream'' [realm, area, res] \<and> literal realm \<and>
        (literal area \<and> literal res \<and> scope = StreamScopeResource \<or> literal area \<and> res = ''*'' \<and> scope = StreamScopeArea \<or>
         area = ''*'' \<and> res = ''*'' \<and> scope = StreamScopeRealm))"


end
