(* ===== verification/Kv_Domain.thy ===== *)
theory Kv_Domain
  imports Conn_Api Routes
begin

text \<open>
  The KV domain (\<^verbatim>\<open>internal/domains/kv\<close>): request payloads, validation, the mapping of broker errors,
  the parsers of GET, SCAN and BEGIN responses, and the transaction handle with its two final flags.
  A slice the code compares with nil is a \<open>bytes option\<close>.
\<close>

section \<open>Limits and modes\<close>

definition MaxKeySize :: nat where "MaxKeySize = 64 * 1024"
definition MaxValueSize :: nat where "MaxValueSize = 16 * 1024 * 1024"
definition TxModeReadOnly :: u8 where "TxModeReadOnly = 0"
definition TxModeReadWrite :: u8 where "TxModeReadWrite = 1"
definition DurabilityBuffered :: u8 where "DurabilityBuffered = 0"
definition DurabilitySync :: u8 where "DurabilitySync = 1"

definition ErrNotFound :: go_error where "ErrNotFound = Sentinel ''key not found''"
definition ErrKeyExists :: go_error where "ErrKeyExists = Sentinel ''key already exists''"
definition ErrConcurrencyConflict :: go_error where "ErrConcurrencyConflict = Sentinel ''concurrency conflict''"
definition ErrInvalidRange :: go_error where "ErrInvalidRange = Sentinel ''invalid key range''"
definition ErrKeyTooLarge :: go_error where "ErrKeyTooLarge = Sentinel ''key too large''"
definition ErrValueTooLarge :: go_error where "ErrValueTooLarge = Sentinel ''value too large''"
definition ErrTransactionAborted :: go_error where "ErrTransactionAborted = Sentinel ''transaction aborted''"
definition ErrReadOnlyTransaction :: go_error where "ErrReadOnlyTransaction = Sentinel ''transaction is read-only''"
definition ErrBackendError :: go_error where "ErrBackendError = Sentinel ''kv backend error''"

lemmas kv_errors = ErrNotFound_def ErrKeyExists_def ErrConcurrencyConflict_def ErrInvalidRange_def
  ErrKeyTooLarge_def ErrValueTooLarge_def ErrTransactionAborted_def ErrReadOnlyTransaction_def
  ErrBackendError_def

definition ValidateKeySize :: "bytes option \<Rightarrow> unit res" where
  "ValidateKeySize key =
     (case key of
        None \<Rightarrow> Err (ErrNew ''key cannot be nil'')
      | Some k \<Rightarrow> if length k = 0 then Err (ErrNew ''key cannot be empty'')
                  else if length k > MaxKeySize then Err ErrKeyTooLarge
                  else Ok ())"

definition ValidateValueSize :: "bytes option \<Rightarrow> unit res" where
  "ValidateValueSize v =
     (case v of
        None \<Rightarrow> Err (ErrNew ''value cannot be nil'')
      | Some x \<Rightarrow> if length x > MaxValueSize then Err ErrValueTooLarge else Ok ())"

section \<open>Request payloads\<close>

definition encodeBegin :: "string \<Rightarrow> u8 \<Rightarrow> bytes" where
  "encodeBegin route mode = EncodeWithBuffer (write_seq [enc_WriteRoute route, WriteByte mode])"

definition beginPayloadWriter :: "string \<Rightarrow> u8 \<Rightarrow> writer" where
  "beginPayloadWriter route mode = write_seq [enc_WriteRoute route, WriteByte mode]"

definition encodePut :: "u64 \<Rightarrow> string \<Rightarrow> bytes option \<Rightarrow> bytes option \<Rightarrow> bytes res" where
  "encodePut txID route key v =
     bind_res (ValidateKeySize key) (\<lambda>_. bind_res (ValidateValueSize v) (\<lambda>_.
       Ok (EncodeWithBuffer (write_seq
         [enc_WriteU64 txID, enc_WriteRoute route, enc_WriteBytes (elems key), enc_WriteBytes (elems v)]))))"

definition putPayloadWriter :: "u64 \<Rightarrow> string \<Rightarrow> bytes option \<Rightarrow> bytes option \<Rightarrow> writer res" where
  "putPayloadWriter txID route key v =
     bind_res (ValidateKeySize key) (\<lambda>_. bind_res (ValidateValueSize v) (\<lambda>_.
       Ok (write_seq
         [enc_WriteU64 txID, enc_WriteRoute route, enc_WriteBytes (elems key), enc_WriteBytes (elems v)])))"

definition encodeGet :: "u64 \<Rightarrow> string \<Rightarrow> bytes option \<Rightarrow> bytes res" where
  "encodeGet txID route key = bind_res (ValidateKeySize key) (\<lambda>_.
     Ok (EncodeWithBuffer (write_seq [enc_WriteU64 txID, enc_WriteRoute route, enc_WriteBytes (elems key)])))"

definition getPayloadWriter :: "u64 \<Rightarrow> string \<Rightarrow> bytes option \<Rightarrow> writer res" where
  "getPayloadWriter txID route key = bind_res (ValidateKeySize key) (\<lambda>_.
     Ok (write_seq [enc_WriteU64 txID, enc_WriteRoute route, enc_WriteBytes (elems key)]))"

definition encodeInsert :: "u64 \<Rightarrow> string \<Rightarrow> bytes option \<Rightarrow> bytes option \<Rightarrow> bytes res" where
  "encodeInsert txID route key v = encodePut txID route key v"

definition insertPayloadWriter :: "u64 \<Rightarrow> string \<Rightarrow> bytes option \<Rightarrow> bytes option \<Rightarrow> writer res" where
  "insertPayloadWriter txID route key v = putPayloadWriter txID route key v"

definition encodeDelete :: "u64 \<Rightarrow> string \<Rightarrow> bytes option \<Rightarrow> bytes res" where
  "encodeDelete txID route key = bind_res (ValidateKeySize key) (\<lambda>_.
     Ok (EncodeWithBuffer (write_seq [enc_WriteU64 txID, enc_WriteRoute route, enc_WriteBytes (elems key)])))"

definition deletePayloadWriter :: "u64 \<Rightarrow> string \<Rightarrow> bytes option \<Rightarrow> writer res" where
  "deletePayloadWriter txID route key = bind_res (ValidateKeySize key) (\<lambda>_.
     Ok (write_seq [enc_WriteU64 txID, enc_WriteRoute route, enc_WriteBytes (elems key)]))"

definition encodeDeleteRange :: "u64 \<Rightarrow> string \<Rightarrow> bytes option \<Rightarrow> bytes option \<Rightarrow> bytes res" where
  "encodeDeleteRange txID route startKey endKey =
     bind_res (ValidateKeySize startKey) (\<lambda>_. bind_res (ValidateKeySize endKey) (\<lambda>_.
       Ok (EncodeWithBuffer (write_seq
         [enc_WriteU64 txID, enc_WriteRoute route, enc_WriteBytes (elems startKey),
          enc_WriteBytes (elems endKey)]))))"

definition deleteRangePayloadWriter :: "u64 \<Rightarrow> string \<Rightarrow> bytes option \<Rightarrow> bytes option \<Rightarrow> writer res" where
  "deleteRangePayloadWriter txID route startKey endKey =
     bind_res (ValidateKeySize startKey) (\<lambda>_. bind_res (ValidateKeySize endKey) (\<lambda>_.
       Ok (write_seq
         [enc_WriteU64 txID, enc_WriteRoute route, enc_WriteBytes (elems startKey),
          enc_WriteBytes (elems endKey)])))"

record ScanQuery =
  StartKey :: "bytes option"
  EndKey :: "bytes option"
  Limit :: u32
  Reverse :: bool
  StartExclusive :: bool

definition scanOptions :: "ScanQuery \<Rightarrow> u8" where
  "scanOptions query =
     (let options = (0 :: u8); options = (if Reverse query then options OR 1 else options)
      in if StartExclusive query then options OR (push_bit 1 1) else options)"

text \<open>An optional field of SCAN: a flag byte, and the field when it is there.\<close>

definition write_optional_key :: "bytes option \<Rightarrow> writer" where
  "write_optional_key k =
     (case k of Some x \<Rightarrow> write_seq [WriteByte 1, enc_WriteBytes x] | None \<Rightarrow> WriteByte 0)"

definition validate_bound :: "bytes option \<Rightarrow> unit res" where
  "validate_bound k = (if k \<noteq> None then ValidateKeySize k else Ok ())"

definition encodeScan :: "u64 \<Rightarrow> string \<Rightarrow> ScanQuery \<Rightarrow> bytes res" where
  "encodeScan txID route query =
     bind_res (validate_bound (StartKey query)) (\<lambda>_. bind_res (validate_bound (EndKey query)) (\<lambda>_.
       Ok (EncodeWithBuffer (write_seq
         [enc_WriteU64 txID, enc_WriteRoute route, write_optional_key (StartKey query),
          write_optional_key (EndKey query),
          (if Limit query > 0 then write_seq [WriteByte 1, enc_WriteU32 (Limit query)] else WriteByte 0),
          WriteByte (scanOptions query)]))))"

definition scanPayloadWriter :: "u64 \<Rightarrow> string \<Rightarrow> ScanQuery \<Rightarrow> writer res" where
  "scanPayloadWriter txID route query =
     bind_res (validate_bound (StartKey query)) (\<lambda>_. bind_res (validate_bound (EndKey query)) (\<lambda>_.
       Ok (write_seq
         [enc_WriteU64 txID, enc_WriteRoute route, write_optional_key (StartKey query),
          write_optional_key (EndKey query),
          (if Limit query > 0 then write_seq [WriteByte 1, enc_WriteU32 (Limit query)] else WriteByte 0),
          WriteByte (scanOptions query)])))"

definition encodeCommit :: "u64 \<Rightarrow> string \<Rightarrow> u8 \<Rightarrow> bytes" where
  "encodeCommit txID route durability =
     EncodeWithBuffer (write_seq [enc_WriteU64 txID, enc_WriteRoute route, WriteByte durability])"

definition commitPayloadWriter :: "u64 \<Rightarrow> string \<Rightarrow> u8 \<Rightarrow> writer" where
  "commitPayloadWriter txID route durability =
     write_seq [enc_WriteU64 txID, enc_WriteRoute route, WriteByte durability]"

definition encodeRollback :: "u64 \<Rightarrow> string \<Rightarrow> bytes" where
  "encodeRollback txID route = EncodeWithBuffer (write_seq [enc_WriteU64 txID, enc_WriteRoute route])"

definition rollbackPayloadWriter :: "u64 \<Rightarrow> string \<Rightarrow> writer" where
  "rollbackPayloadWriter txID route = write_seq [enc_WriteU64 txID, enc_WriteRoute route]"

definition kvPatternPayloadWriter :: "string \<Rightarrow> writer" where
  "kvPatternPayloadWriter pat = enc_WriteRoute pat"

section \<open>Errors of the broker\<close>

definition mapKVError :: "go_error \<Rightarrow> go_error" where
  "mapKVError err =
     (case errors_As_domain err of
        Some d \<Rightarrow>
          (let c = de_code d in
           if c = KvTransactionNotFound \<or> c = KvKeyNotFound then ErrNotFound
           else if c = KvKeyExists then ErrKeyExists
           else if c = KvIsolationConflict then ErrConcurrencyConflict
           else if c = KvBackendError then
             (let message = strings_ToLower (de_message d)
              in if strings_Contains message ''read-only'' \<or> strings_Contains message ''readonly''
                 then ErrReadOnlyTransaction else ErrBackendError)
           else if c = KvWriteInReadonly \<or> c = KvInvalidMode then ErrReadOnlyTransaction
           else if c = KvTransactionAborted then ErrTransactionAborted
           else err)
      | None \<Rightarrow>
          (let l = strings_ToLower (Error err) in
           if strings_Contains l ''not found'' then ErrNotFound
           else if strings_Contains l ''exists'' \<or> strings_Contains l ''already'' then ErrKeyExists
           else if strings_Contains l ''conflict'' \<or> strings_Contains l ''concurrency'' then ErrConcurrencyConflict
           else if strings_Contains l ''range'' then ErrInvalidRange
           else if strings_Contains l ''key too large'' then ErrKeyTooLarge
           else if strings_Contains l ''value too large'' then ErrValueTooLarge
           else if strings_Contains l ''abort'' then ErrTransactionAborted
           else err))"

definition isKVReadRetryable :: "go_error \<Rightarrow> bool" where
  "isKVReadRetryable err \<longleftrightarrow> IsTransientRetryable err \<or> errors_Is err ErrConcurrencyConflict"

section \<open>Routes\<close>

record Route =
  Realm :: string
  Area :: string
  Resource :: string

definition Route_String :: "Route \<Rightarrow> string" where
  "Route_String r = ''kv://'' @ Realm r @ ''/'' @ Area r @ ''/'' @ Resource r"

definition NewRoute :: "string \<Rightarrow> string \<Rightarrow> string \<Rightarrow> Route" where
  "NewRoute realm area resource = \<lparr>Realm = realm, Area = area, Resource = resource\<rparr>"

definition Route_Validate :: "Route \<Rightarrow> unit res" where
  "Route_Validate r =
     (if Realm r = [] then Err (ErrNew ''kv route realm is required'')
      else if Area r = [] then Err (ErrNew ''kv route area is required'')
      else if Resource r = [] then Err (ErrNew ''kv route resource is required'')
      else Ok ())"

section \<open>Responses\<close>

record KVPair =
  Key :: bytes
  Value :: bytes

definition parseGetResponse :: "bytes \<Rightarrow> (bytes option \<times> bool) res" where
  "parseGetResponse remaining =
     (if length remaining < 1 then Err (ErrNew ''invalid get response: expected at least 1 byte for found flag'')
      else bind_res (index remaining 0) (\<lambda>flag.
        if flag \<noteq> 1 then Ok (None, False)
        else if length remaining < 5 then Err (ErrNew ''invalid get response: missing value length'')
        else bind_res (map_err (Errorf1 ''parse value length'') (ReadU32BE remaining 1)) (\<lambda>(valueLen, offset).
          if length remaining < offset + unat valueLen then Err (ErrNew ''invalid get response: truncated value'')
          else bind_res (slice remaining offset (offset + unat valueLen)) (\<lambda>v. Ok (Some v, True)))))"

text \<open>The loop over the items of a page; \<open>i\<close> is the item's number and \<open>left\<close> the items to come.\<close>

fun scan_items :: "nat \<Rightarrow> nat \<Rightarrow> bytes \<Rightarrow> nat \<Rightarrow> (KVPair list \<times> nat) res" where
  "scan_items i 0 remaining offset = Ok ([], offset)"
| "scan_items i (Suc left) remaining offset =
     (if offset + 4 > length remaining then Err (ErrNew (''truncated key length at item '' @ dec i))
      else bind_res (map_err (Errorf1 ''parse key length'') (ReadU32BE remaining offset)) (\<lambda>(keyLen, offset).
        if offset + unat keyLen > length remaining then Err (ErrNew (''truncated key at item '' @ dec i))
        else bind_res (slice remaining offset (offset + unat keyLen)) (\<lambda>key.
        let offset = offset + unat keyLen in
        if offset + 4 > length remaining then Err (ErrNew (''truncated value length at item '' @ dec i))
        else bind_res (map_err (Errorf1 ''parse value length'') (ReadU32BE remaining offset)) (\<lambda>(valueLen, offset).
          if offset + unat valueLen > length remaining then Err (ErrNew (''truncated value at item '' @ dec i))
          else bind_res (slice remaining offset (offset + unat valueLen)) (\<lambda>v.
          bind_res (scan_items (i + 1) left remaining (offset + unat valueLen)) (\<lambda>(pairs, offset).
            Ok (\<lparr>Key = key, Value = v\<rparr> # pairs, offset)))))))"

definition parseScanResponse :: "bytes \<Rightarrow> (KVPair list \<times> bool) res" where
  "parseScanResponse remaining =
     (if length remaining < 4 then Err (ErrNew ''invalid scan response: too short'')
      else bind_res (map_err (Errorf1 ''parse item_count'') (ReadU32BE remaining 0)) (\<lambda>(itemCount, offset).
        let available = length remaining - offset in
        if available < 1 \<or> unat itemCount > (available - 1) div 8
        then Err (ErrNew (''scan item count '' @ dec (unat itemCount) @ '' exceeds the remaining response payload''))
        else bind_res (scan_items 0 (unat itemCount) remaining offset) (\<lambda>(pairs, offset).
          if offset + 1 > length remaining then Err (ErrNew ''missing has_more flag'')
          else bind_res (index remaining offset) (\<lambda>flag.
            if flag \<noteq> 0 \<and> flag \<noteq> 1 then Err (ErrNew (''invalid has_more flag: '' @ dec (unat flag)))
            else if offset + 1 \<noteq> length remaining
            then Err (ErrNew (''unexpected trailing bytes: '' @ dec (length remaining - (offset + 1))))
            else Ok (pairs, flag = 1)))))"

section \<open>Transactions\<close>

text \<open>
  A handle and its two final flags. An operation works on the connection's state beside the handle;
  \<open>checkState\<close> and \<open>checkWritable\<close> are its guards.
\<close>

record transaction =
  tx_route :: string
  tx_readOnly :: bool
  tx_ID :: u64
  tx_committed :: bool
  tx_rolledback :: bool

definition checkState :: "'s conn_api \<Rightarrow> (unit, 's \<times> transaction) op" where
  "checkState c = (\<lambda>(s, t).
     (case api_live c s of
        Some err \<Rightarrow> Err err
      | None \<Rightarrow>
          if tx_committed t then Err (ErrNew ''transaction already committed'')
          else if tx_rolledback t then Err (ErrNew ''transaction already rolled back'')
          else Ok (), (s, t)))"

definition checkWritable :: "(unit, 's \<times> transaction) op" where
  "checkWritable = (\<lambda>(s, t). (if tx_readOnly t then Err ErrReadOnlyTransaction else Ok (), (s, t)))"

text \<open>The tail of a mutation: build the payload for this handle, send it, parse the acknowledgement.\<close>

definition kv_mutate ::
  "'s conn_api \<Rightarrow> string \<Rightarrow> u16 \<Rightarrow> (u64 \<Rightarrow> string \<Rightarrow> writer res) \<Rightarrow> (unit, 's \<times> transaction) op" where
  "kv_mutate c opName msgType mk = (\<lambda>(s, t).
     bind_op (return_op (map_err (Errorf1 (''encode '' @ opName)) (mk (tx_ID t) (tx_route t)))) (\<lambda>w.
     bind_op (on_conn (send_parse c ParseStandardResponse mapKVError opName '' failed: unexpected status'' msgType w))
       (\<lambda>_. return_op (Ok ()))) (s, t))"

definition get_attempt :: "'s conn_api \<Rightarrow> writer \<Rightarrow> (bytes option \<times> bool, 's) op" where
  "get_attempt c w =
     bind_op (send_parse c ParseStandardResponse mapKVError ''get'' '' failed: unexpected status'' MessageTypeKvGet w)
       (\<lambda>remaining. return_op (parseGetResponse remaining))"

definition Tx_Get :: "'s conn_api \<Rightarrow> bytes option \<Rightarrow> (bytes option \<times> bool, 's \<times> transaction) op" where
  "Tx_Get c key =
     bind_op (checkState c) (\<lambda>_.
     bind_op (return_op (ValidateKeySize key)) (\<lambda>_ (s, t).
     bind_op (return_op (map_err (Errorf1 ''encode get'') (getPayloadWriter (tx_ID t) (tx_route t) key))) (\<lambda>w.
       on_conn (RunWithRetry c (get_attempt c w) isKVReadRetryable)) (s, t)))"

definition Tx_Put :: "'s conn_api \<Rightarrow> bytes option \<Rightarrow> bytes option \<Rightarrow> (unit, 's \<times> transaction) op" where
  "Tx_Put c key v =
     bind_op (checkState c) (\<lambda>_.
     bind_op (return_op (ValidateKeySize key)) (\<lambda>_.
     bind_op (return_op (ValidateValueSize v)) (\<lambda>_.
       kv_mutate c ''put'' MessageTypeKvPut (\<lambda>txID route. putPayloadWriter txID route key v))))"

definition Tx_Insert :: "'s conn_api \<Rightarrow> bytes option \<Rightarrow> bytes option \<Rightarrow> (unit, 's \<times> transaction) op" where
  "Tx_Insert c key v =
     bind_op (checkState c) (\<lambda>_.
     bind_op checkWritable (\<lambda>_.
     bind_op (return_op (ValidateKeySize key)) (\<lambda>_.
     bind_op (return_op (ValidateValueSize v)) (\<lambda>_.
       kv_mutate c ''insert'' MessageTypeKvInsert (\<lambda>txID route. insertPayloadWriter txID route key v)))))"

definition Tx_Delete :: "'s conn_api \<Rightarrow> bytes option \<Rightarrow> (unit, 's \<times> transaction) op" where
  "Tx_Delete c key =
     bind_op (checkState c) (\<lambda>_.
     bind_op checkWritable (\<lambda>_.
     bind_op (return_op (ValidateKeySize key)) (\<lambda>_.
       kv_mutate c ''delete'' MessageTypeKvDelete (\<lambda>txID route. deletePayloadWriter txID route key))))"

definition Tx_DeleteRange :: "'s conn_api \<Rightarrow> bytes option \<Rightarrow> bytes option \<Rightarrow> (unit, 's \<times> transaction) op" where
  "Tx_DeleteRange c startKey endKey =
     bind_op (checkState c) (\<lambda>_.
     bind_op checkWritable (\<lambda>_.
     bind_op (return_op (map_err (Errorf1 ''invalid start key'') (ValidateKeySize startKey))) (\<lambda>_.
     bind_op (return_op (map_err (Errorf1 ''invalid end key'') (ValidateKeySize endKey))) (\<lambda>_.
       kv_mutate c ''delete_range'' MessageTypeKvDeleteRange
         (\<lambda>txID route. deleteRangePayloadWriter txID route startKey endKey)))))"

definition scan_attempt :: "'s conn_api \<Rightarrow> writer \<Rightarrow> (KVPair list \<times> bool, 's) op" where
  "scan_attempt c w =
     bind_op (send_parse c ParseStandardResponse mapKVError ''scan'' '' failed: unexpected status'' MessageTypeKvScan w)
       (\<lambda>remaining. return_op (map_err (Errorf1 ''parse scan response'') (parseScanResponse remaining)))"

definition Tx_Scan :: "'s conn_api \<Rightarrow> ScanQuery \<Rightarrow> (KVPair list \<times> bool, 's \<times> transaction) op" where
  "Tx_Scan c query =
     bind_op (checkState c) (\<lambda>_ (s, t).
     bind_op (return_op (map_err (Errorf1 ''encode scan'') (scanPayloadWriter (tx_ID t) (tx_route t) query))) (\<lambda>w.
       on_conn (RunWithRetry c (scan_attempt c w) isKVReadRetryable)) (s, t))"

definition Tx_Commit :: "'s conn_api \<Rightarrow> u8 \<Rightarrow> (unit, 's \<times> transaction) op" where
  "Tx_Commit c durability =
     (if durability > DurabilitySync
      then return_op (Err (ErrNew (''invalid commit persistence: '' @ dec (unat durability))))
      else bind_op (checkState c) (\<lambda>_.
           bind_op checkWritable (\<lambda>_ (s, t).
             kv_mutate c ''commit'' MessageTypeKvCommit (\<lambda>txID route. Ok (commitPayloadWriter txID route durability))
               (s, t\<lparr>tx_committed := True\<rparr>))))"

definition Tx_Rollback :: "'s conn_api \<Rightarrow> (unit, 's \<times> transaction) op" where
  "Tx_Rollback c = (\<lambda>(s, t).
     case api_live c s of
       Some err \<Rightarrow> (Err err, (s, t))
     | None \<Rightarrow>
         if tx_committed t \<or> tx_rolledback t then (Ok (), (s, t))
         else kv_mutate c ''rollback'' MessageTypeKvRollback (\<lambda>txID route. Ok (rollbackPayloadWriter txID route))
                (s, t\<lparr>tx_rolledback := True\<rparr>))"

definition kv_Begin :: "'s conn_api \<Rightarrow> string \<Rightarrow> u8 option \<Rightarrow> (transaction, 's) op" where
  "kv_Begin c route withMode =
     bind_op (return_op (map_err (Errorf1 ''invalid route'') (ValidateFixedRoute route ''kv'' 3))) (\<lambda>_.
       let mode = (case withMode of None \<Rightarrow> TxModeReadWrite | Some m \<Rightarrow> m) in
       bind_op (send_parse c ParseStandardResponse mapKVError ''BEGIN'' '' failed: unexpected status'' MessageTypeKvBegin
                 (beginPayloadWriter route mode)) (\<lambda>remaining.
         return_op
           (if length remaining < 8
            then Err (ErrNew (''invalid BEGIN response: expected at least 8 bytes for tx_id, got '' @ dec (length remaining)))
            else bind_res (map_err (Errorf1 ''parse tx_id'') (ReadU64BE remaining 0)) (\<lambda>(txID, _).
              Ok \<lparr>tx_route = route, tx_readOnly = (mode = TxModeReadOnly), tx_ID = txID,
                  tx_committed = False, tx_rolledback = False\<rparr>))))"

section \<open>Subscriptions\<close>

definition kv_subscribeWire :: "'s conn_api \<Rightarrow> string \<Rightarrow> (u64, 's) op" where
  "kv_subscribeWire c pat =
     bind_op (\<lambda>s. map_prod (map_err (Errorf1 ''KV SUBSCRIBE request failed'')) id
                (api_send c MessageTypeKvSubscribe (kvPatternPayloadWriter pat) s)) (\<lambda>response.
     bind_op (return_op (map_err (Errorf1 ''KV SUBSCRIBE failed'') (ParseStandardResponse response)))
       (\<lambda>(success, remaining) s.
         if \<not> success then (Err (ErrNew ''KV SUBSCRIBE returned unexpected status''), s)
         else if length remaining \<noteq> 8
         then (Err (ErrNew (''KV SUBSCRIBE response must contain one subscription id, got ''
                 @ dec (length remaining) @ '' bytes'')), s)
         else (Uint64 remaining, api_addSubs c 1 s)))"

text \<open>The undo of a restored subscription: UNSUBSCRIBE on the wire.\<close>

definition kv_rollbackWire :: "'s conn_api \<Rightarrow> string \<Rightarrow> (unit, 's) op" where
  "kv_rollbackWire c pat =
     bind_op (api_send c MessageTypeKvUnsubscribe (kvPatternPayloadWriter pat)) (\<lambda>response.
     bind_op (return_op (ParseStandardResponse response)) (\<lambda>_ s. (Ok (), api_addSubs c (-1) s)))"

record ChangeNotification =
  cn_Route :: string
  cn_MutationCount :: u64

text \<open>\<open>handleNotify\<close> up to the hand-over to the handlers: a payload that is not one number is dropped.\<close>

definition kv_notification :: "string \<Rightarrow> bytes \<Rightarrow> ChangeNotification option res" where
  "kv_notification route payload =
     (if length payload \<noteq> 8 then Ok None
      else bind_res (Uint64 payload) (\<lambda>n. Ok (Some \<lparr>cn_Route = route, cn_MutationCount = n\<rparr>)))"

section \<open>Documented layouts\<close>

definition kv_begin_layout :: "bytes \<Rightarrow> nat \<Rightarrow> ((string \<times> u8) \<times> nat) res" where
  "kv_begin_layout = rd_pair ReadString ReadU8"

definition kv_tx_layout :: "bytes \<Rightarrow> nat \<Rightarrow> ((u64 \<times> string) \<times> nat) res" where
  "kv_tx_layout = rd_pair ReadU64BE ReadString"

definition kv_commit_layout :: "bytes \<Rightarrow> nat \<Rightarrow> ((u64 \<times> string \<times> u8) \<times> nat) res" where
  "kv_commit_layout = rd_pair ReadU64BE (rd_pair ReadString ReadU8)"

definition kv_key_layout :: "bytes \<Rightarrow> nat \<Rightarrow> ((u64 \<times> string \<times> bytes) \<times> nat) res" where
  "kv_key_layout = rd_pair ReadU64BE (rd_pair ReadString ReadBytes)"

definition kv_two_layout :: "bytes \<Rightarrow> nat \<Rightarrow> ((u64 \<times> string \<times> bytes \<times> bytes) \<times> nat) res" where
  "kv_two_layout = rd_pair ReadU64BE (rd_pair ReadString (rd_pair ReadBytes ReadBytes))"

definition kv_scan_layout ::
  "bytes \<Rightarrow> nat \<Rightarrow> ((u64 \<times> string \<times> bytes option \<times> bytes option \<times> u32 option \<times> u8) \<times> nat) res" where
  "kv_scan_layout = rd_pair ReadU64BE (rd_pair ReadString (rd_pair (rd_option ReadBytes)
     (rd_pair (rd_option ReadBytes) (rd_pair (rd_option ReadU32BE) ReadU8))))"

interpretation kv_begin: field_codec "enc_pair len_prefixed_string (\<lambda>v. [v])" kv_begin_layout
  "fits_pair fits_u32 (\<lambda>_. True)"
  unfolding kv_begin_layout_def by (intro codec_intros)

interpretation kv_tx: field_codec "enc_pair PutUint64 len_prefixed_string" kv_tx_layout
  "fits_pair (\<lambda>_. True) fits_u32"
  unfolding kv_tx_layout_def by (intro codec_intros)

interpretation kv_commit: field_codec "enc_pair PutUint64 (enc_pair len_prefixed_string (\<lambda>v. [v]))"
  kv_commit_layout "fits_pair (\<lambda>_. True) (fits_pair fits_u32 (\<lambda>_. True))"
  unfolding kv_commit_layout_def by (intro codec_intros)

interpretation kv_key: field_codec "enc_pair PutUint64 (enc_pair len_prefixed_string len_prefixed)"
  kv_key_layout "fits_pair (\<lambda>_. True) (fits_pair fits_u32 fits_u32)"
  unfolding kv_key_layout_def by (intro codec_intros)

interpretation kv_two: field_codec
  "enc_pair PutUint64 (enc_pair len_prefixed_string (enc_pair len_prefixed len_prefixed))"
  kv_two_layout "fits_pair (\<lambda>_. True) (fits_pair fits_u32 (fits_pair fits_u32 fits_u32))"
  unfolding kv_two_layout_def by (intro codec_intros)

interpretation kv_scan: field_codec
  "enc_pair PutUint64 (enc_pair len_prefixed_string (enc_pair (enc_option len_prefixed)
     (enc_pair (enc_option len_prefixed) (enc_pair (enc_option PutUint32) (\<lambda>v. [v])))))"
  kv_scan_layout
  "fits_pair (\<lambda>_. True) (fits_pair fits_u32 (fits_pair (pred_option fits_u32)
     (fits_pair (pred_option fits_u32) (fits_pair (pred_option (\<lambda>_. True)) (\<lambda>_. True)))))"
  unfolding kv_scan_layout_def by (intro codec_intros)

lemmas kv_decodes = decodes_iff [OF kv_begin.field_codec_axioms] decodes_iff [OF kv_tx.field_codec_axioms]
  decodes_iff [OF kv_commit.field_codec_axioms] decodes_iff [OF kv_key.field_codec_axioms]
  decodes_iff [OF kv_two.field_codec_axioms] decodes_iff [OF kv_scan.field_codec_axioms]

definition valid_key :: "bytes \<Rightarrow> bool" where
  "valid_key k \<longleftrightarrow> 0 < length k \<and> length k \<le> 65536"

definition valid_value :: "bytes \<Rightarrow> bool" where
  "valid_value v \<longleftrightarrow> length v \<le> 16777216"

lemma Validate_Ok_iff:
  "ValidateKeySize key = Ok u \<longleftrightarrow> (\<exists>k. key = Some k \<and> valid_key k)"
  "ValidateValueSize v = Ok u \<longleftrightarrow> (\<exists>x. v = Some x \<and> valid_value x)"
  "validate_bound key = Ok u \<longleftrightarrow> pred_option valid_key key"
  by (auto simp: ValidateKeySize_def ValidateValueSize_def validate_bound_def valid_key_def valid_value_def
      MaxKeySize_def MaxValueSize_def split: option.splits)

lemma valid_fits: "valid_key k \<Longrightarrow> fits_u32 k" "valid_value k \<Longrightarrow> fits_u32 k"
  by (simp_all add: valid_key_def valid_value_def fits_u32_def)

lemma write_optional_key_append [byte_simps]: "write_optional_key k buf = buf @ enc_option len_prefixed k"
  by (simp add: write_optional_key_def enc_option_def byte_simps split: option.split)

lemma scanOptions_bits:
  "scanOptions q = (if Reverse q then 1 else 0) + (if StartExclusive q then 2 else 0)"
  by (simp add: scanOptions_def)

text \<open>KV requests. Every request the client builds is read back by its documented layout as exactly the
  transaction, route, keys, value, bounds, limit and options it was built from, with nothing left over,
  and it is built exactly when the keys are present and of legal size and the value is present and not too
  large. So no two different requests of one operation share a payload.\<close>

theorem kv_requests_decode:
  assumes "fits_u32 route"
  shows
  "(encodePut txID route key v = Ok p \<longleftrightarrow> (\<exists>k x. key = Some k \<and> v = Some x \<and> valid_key k \<and> valid_value x \<and>
      decodes kv_two_layout p (txID, route, k, x))) \<and>
   (encodeGet txID route key = Ok p \<longleftrightarrow> (\<exists>k. key = Some k \<and> valid_key k \<and>
      decodes kv_key_layout p (txID, route, k))) \<and>
   (encodeDelete txID route key = Ok p \<longleftrightarrow> (\<exists>k. key = Some k \<and> valid_key k \<and>
      decodes kv_key_layout p (txID, route, k))) \<and>
   (encodeDeleteRange txID route key end_key = Ok p \<longleftrightarrow> (\<exists>k e. key = Some k \<and> end_key = Some e \<and> valid_key k \<and>
      valid_key e \<and> decodes kv_two_layout p (txID, route, k, e))) \<and>
   (encodeScan txID route q = Ok p \<longleftrightarrow> pred_option valid_key (StartKey q) \<and> pred_option valid_key (EndKey q) \<and>
      decodes kv_scan_layout p (txID, route, StartKey q, EndKey q,
        (if Limit q = 0 then None else Some (Limit q)),
        (if Reverse q then 1 else 0) + (if StartExclusive q then 2 else 0))) \<and>
   decodes kv_begin_layout (encodeBegin route mode) (route, mode) \<and>
   decodes kv_commit_layout (encodeCommit txID route durability) (txID, route, durability) \<and>
   decodes kv_tx_layout (encodeRollback txID route) (txID, route)"
proof -
  have o: "pred_option valid_key k \<Longrightarrow> pred_option fits_u32 k" for k by (cases k) (auto dest: valid_fits)
  have put: "encodePut txID route key v = Ok p \<longleftrightarrow> (\<exists>k x. key = Some k \<and> v = Some x \<and> valid_key k \<and>
      valid_value x \<and> decodes kv_two_layout p (txID, route, k, x))"
    using assms by (auto simp: encodePut_def bind_res_Ok_iff Validate_Ok_iff kv_decodes EncodeWithBuffer_def
        byte_simps layout_simps dest: valid_fits)
  have range: "encodeDeleteRange txID route key end_key = Ok p \<longleftrightarrow> (\<exists>k e. key = Some k \<and> end_key = Some e \<and>
      valid_key k \<and> valid_key e \<and> decodes kv_two_layout p (txID, route, k, e))"
    using assms by (auto simp: encodeDeleteRange_def bind_res_Ok_iff Validate_Ok_iff kv_decodes
        EncodeWithBuffer_def byte_simps layout_simps dest: valid_fits)
  have get: "encodeGet txID route key = Ok p \<longleftrightarrow> (\<exists>k. key = Some k \<and> valid_key k \<and>
      decodes kv_key_layout p (txID, route, k))"
    using assms by (auto simp: encodeGet_def bind_res_Ok_iff Validate_Ok_iff kv_decodes EncodeWithBuffer_def
        byte_simps layout_simps dest: valid_fits)
  have del: "encodeDelete txID route key = encodeGet txID route key"
    by (simp add: encodeDelete_def encodeGet_def)
  have lim: "write_seq [(if Limit q > 0 then write_seq [WriteByte 1, enc_WriteU32 (Limit q)] else WriteByte 0)] buf
      = buf @ enc_option PutUint32 (if Limit q = 0 then None else Some (Limit q))" for buf
    by (auto simp: byte_simps enc_option_def word_neq_0_conv)
  have scan: "encodeScan txID route q = Ok p \<longleftrightarrow> pred_option valid_key (StartKey q) \<and>
      pred_option valid_key (EndKey q) \<and> decodes kv_scan_layout p (txID, route, StartKey q, EndKey q,
        (if Limit q = 0 then None else Some (Limit q)),
        (if Reverse q then 1 else 0) + (if StartExclusive q then 2 else 0))"
    using assms o [of "StartKey q"] o [of "EndKey q"] lim
    by (auto simp: encodeScan_def bind_res_Ok_iff Validate_Ok_iff kv_decodes EncodeWithBuffer_def
        byte_simps layout_simps scanOptions_bits)
  show ?thesis
    using put range get scan assms unfolding del
    by (simp add: kv_decodes encodeBegin_def encodeCommit_def encodeRollback_def EncodeWithBuffer_def byte_simps
        layout_simps)
qed

theorem kv_requests_decode_witness:
  "encodePut 7 ''kv://a/b/c'' (Some [1]) (Some []) \<noteq> Err ErrKeyTooLarge \<and>
   decodes kv_two_layout (PutUint64 7 @ len_prefixed_string ''kv://a/b/c'' @ len_prefixed [1] @ len_prefixed [])
     (7, ''kv://a/b/c'', [1], [])"
proof -
  have f: "fits_u32 ''kv://a/b/c''" by (simp add: fits_u32_def)
  have "encodePut 7 ''kv://a/b/c'' (Some [1]) (Some []) =
      Ok (PutUint64 7 @ len_prefixed_string ''kv://a/b/c'' @ len_prefixed [1] @ len_prefixed [])"
    by (simp add: encodePut_def ValidateKeySize_def ValidateValueSize_def MaxKeySize_def MaxValueSize_def
        EncodeWithBuffer_def byte_simps)
  moreover from this have "decodes kv_two_layout
      (PutUint64 7 @ len_prefixed_string ''kv://a/b/c'' @ len_prefixed [1] @ len_prefixed []) (7, ''kv://a/b/c'', [1], [])"
    using kv_requests_decode [OF f, of 7 "Some [1]" "Some []"] by simp
  ultimately show ?thesis by simp
qed

section \<open>Scan pages\<close>

interpretation kv_item: field_codec "enc_pair len_prefixed len_prefixed" "rd_pair ReadBytes ReadBytes"
  "fits_pair fits_u32 fits_u32"
  by (intro codec_intros)

lemma ReadBytes_unfold:
  "ReadBytes p off = Ok (d, off') \<longleftrightarrow> off + 4 \<le> length p \<and> (\<exists>n. Uint32 (drop off p) = Ok n \<and>
     off + 4 + unat n \<le> length p \<and> d = take (unat n) (drop (off + 4) p) \<and> off' = off + 4 + unat n)"
  by (cases "Uint32 (drop off p)"; cases "off + 4 \<le> length p") (auto simp: ReadBytes_def ReadU32BE_def)

lemma scan_items_step:
  "scan_items i (Suc n) p off = Ok (ps, off') \<longleftrightarrow>
     (\<exists>k o1 v o2 qs. ReadBytes p off = Ok (k, o1) \<and> ReadBytes p o1 = Ok (v, o2) \<and>
        scan_items (i + 1) n p o2 = Ok (qs, off') \<and> ps = \<lparr>Key = k, Value = v\<rparr> # qs)"
  (is "?L \<longleftrightarrow> ?R")
proof
  assume ?L
  then show ?R
    by (auto simp: ReadBytes_unfold ReadU32BE_def bind_res_Ok_iff Let_def split: if_splits)
next
  assume ?R
  then obtain k o1 v o2 qs where h: "ReadBytes p off = Ok (k, o1)" "ReadBytes p o1 = Ok (v, o2)"
    "scan_items (i + 1) n p o2 = Ok (qs, off')" "ps = \<lparr>Key = k, Value = v\<rparr> # qs" by blast
  then obtain m m2 where "off + 4 \<le> length p" "Uint32 (drop off p) = Ok m" "off + 4 + unat m \<le> length p"
    "k = take (unat m) (drop (off + 4) p)" "o1 = off + 4 + unat m" "o1 + 4 \<le> length p"
    "Uint32 (drop o1 p) = Ok m2" "o1 + 4 + unat m2 \<le> length p" "v = take (unat m2) (drop (o1 + 4) p)"
    "o2 = o1 + 4 + unat m2"
    by (auto simp: ReadBytes_unfold)
  with h(3,4) show ?L by (simp add: ReadU32BE_def Let_def)
qed

definition kv_pair :: "KVPair \<Rightarrow> bytes \<times> bytes" where
  "kv_pair x = (Key x, Value x)"

lemma scan_items_seq:
  "scan_items i n p off = Ok (ps, off') \<longleftrightarrow> read_seq (rd_pair ReadBytes ReadBytes) n p off = Ok (map kv_pair ps, off')"
proof (induction n arbitrary: i off ps)
  case 0
  then show ?case by auto
next
  case (Suc n)
  have eta: "x = \<lparr>Key = Key x, Value = Value x\<rparr>" for x :: KVPair by simp
  show ?case unfolding scan_items_step Suc.IH
    by (cases ps) (auto simp: rd_pair_def [of _ _ p off] bind_res_Ok_iff kv_pair_def)
qed

lemma scan_items_no_panic: "no_panic (scan_items i n p off)"
proof (induction n arbitrary: i off)
  case 0
  then show ?case by simp
next
  case (Suc n)
  have "scan_items i (Suc n) p off \<noteq> Panic"
    using Suc [of "i + 1"]
    by (auto simp: ReadU32BE_def bind_res_Panic_iff no_panic_def Let_def Uint32_def slice_def slice_from_def
        split: if_splits)
  then show ?case by (simp add: no_panic_def)
qed

lemma kv_items_length: "8 * length xs \<le> length (concat (map (enc_pair len_prefixed len_prefixed) xs))"
  by (induction xs) (auto simp: enc_pair_def)

text \<open>Scan pages. A SCAN response is accepted as a page exactly when it is the count of the pairs, the pairs
  with their lengths, and a byte 0 or 1 for whether more pairs follow, with nothing missing and nothing
  left over; and then the count it announces is at most an eighth of its size, so the memory set
  aside for the pairs is bounded by the response. No response makes the parser panic.\<close>

theorem kv_scan_response_exact:
  "(parseScanResponse p = Ok (pairs, hasMore) \<longleftrightarrow>
     fits_list (fits_pair fits_u32 fits_u32) (map kv_pair pairs) \<and>
     p = enc_list (enc_pair len_prefixed len_prefixed) (map kv_pair pairs) @ [if hasMore then 1 else 0] \<and>
     8 * length pairs < length p) \<and>
   no_panic (parseScanResponse p)"
proof -
  let ?R = "fits_list (fits_pair fits_u32 fits_u32) (map kv_pair pairs) \<and>
     p = enc_list (enc_pair len_prefixed len_prefixed) (map kv_pair pairs) @ [if hasMore then 1 else 0]"
  have enough: "8 * length pairs < length p" if ?R
    using kv_items_length [of "map kv_pair pairs"] that by (simp add: enc_list_def)
  have l: ?R if ok: "parseScanResponse p = Ok (pairs, hasMore)"
  proof -
    obtain n off flag where h: "ReadU32BE p 0 = Ok (n, 4)" "scan_items 0 (unat n) p 4 = Ok (pairs, off)"
      "off + 1 = length p" "p ! off = flag" "flag = 0 \<or> flag = 1" "hasMore = (flag = 1)"
      using ok by (auto simp: parseScanResponse_def bind_res_Ok_iff ReadU32BE_def Let_def split: if_splits)
    then have "rd_list (rd_pair ReadBytes ReadBytes) p 0 = Ok (map kv_pair pairs, off)"
      by (simp add: rd_list_def scan_items_seq)
    then obtain "fits_list (fits_pair fits_u32 fits_u32) (map kv_pair pairs)"
      "p = enc_list (enc_pair len_prefixed len_prefixed) (map kv_pair pairs) @ drop off p"
      by (rule field_codec.read_OkE [OF codec_list [OF kv_item.field_codec_axioms]]) simp_all
    moreover have "drop off p = [if hasMore then 1 else 0]"
      using h(3-6) by (metis Cons_nth_drop_Suc Suc_eq_plus1 drop_all lessI order_refl)
    ultimately show ?thesis by simp
  qed
  have r: "parseScanResponse p = Ok (pairs, hasMore)" if R: ?R
  proof -
    let ?e = "enc_list (enc_pair len_prefixed len_prefixed) (map kv_pair pairs)"
    have len: "length pairs < 2 ^ 32" using R by (simp add: fits_list_def fits_u32_def)
    have p: "p = ?e @ [if hasMore then 1 else 0]" using R by simp
    have "rd_list (rd_pair ReadBytes ReadBytes) p 0 = Ok (map kv_pair pairs, length ?e)"
      using field_codec.read_first [OF codec_list [OF kv_item.field_codec_axioms]] R p by metis
    moreover have c: "ReadU32BE p 0 = Ok (u32_len pairs, 4)"
      using u32c.read_first [of "u32_len pairs"] by (simp add: p enc_list_def u32_len_def)
    ultimately have "scan_items 0 (length pairs) p 4 = Ok (pairs, length ?e)"
      using len by (simp add: rd_list_def scan_items_seq)
    moreover have "\<not> length pairs > (length p - 4 - 1) div 8"
      using kv_items_length [of "map kv_pair pairs"] by (simp add: p enc_list_def)
    moreover have "length p = length ?e + 1" "p ! length ?e = (if hasMore then 1 else 0)"
      by (simp_all add: p)
    moreover have "4 \<le> length ?e" by (simp add: enc_list_def)
    ultimately show ?thesis using c len by (simp add: parseScanResponse_def)
  qed
  have "parseScanResponse p \<noteq> Panic"
    using scan_items_no_panic [unfolded no_panic_def]
    by (auto simp: parseScanResponse_def bind_res_Panic_iff ReadU32BE_def Uint32_def Let_def index_def
        split: if_splits)
  then have np: "no_panic (parseScanResponse p)" by (simp add: no_panic_def)
  have "parseScanResponse p = Ok (pairs, hasMore) \<longleftrightarrow> ?R" using l r by (rule iffI)
  then show ?thesis using enough np by blast
qed

section \<open>The life of a transaction handle\<close>

datatype kv_op =
    DoGet "bytes option"
  | DoPut "bytes option" "bytes option"
  | DoInsert "bytes option" "bytes option"
  | DoDelete "bytes option"
  | DoDeleteRange "bytes option" "bytes option"
  | DoScan ScanQuery
  | DoCommit u8
  | DoRollback

fun run_kv_op :: "'s conn_api \<Rightarrow> kv_op \<Rightarrow> 's \<times> transaction \<Rightarrow> 's \<times> transaction" where
  "run_kv_op c (DoGet k) st = snd (Tx_Get c k st)"
| "run_kv_op c (DoPut k v) st = snd (Tx_Put c k v st)"
| "run_kv_op c (DoInsert k v) st = snd (Tx_Insert c k v st)"
| "run_kv_op c (DoDelete k) st = snd (Tx_Delete c k st)"
| "run_kv_op c (DoDeleteRange a b) st = snd (Tx_DeleteRange c a b st)"
| "run_kv_op c (DoScan q) st = snd (Tx_Scan c q st)"
| "run_kv_op c (DoCommit d) st = snd (Tx_Commit c d st)"
| "run_kv_op c DoRollback st = snd (Tx_Rollback c st)"

definition run_kv_ops :: "'s conn_api \<Rightarrow> kv_op list \<Rightarrow> 's \<times> transaction \<Rightarrow> 's \<times> transaction" where
  "run_kv_ops c ops st = fold (run_kv_op c) ops st"

definition nonfinal :: "u16 \<times> bytes \<Rightarrow> bool" where
  "nonfinal r \<longleftrightarrow> fst r \<noteq> MessageTypeKvCommit \<and> fst r \<noteq> MessageTypeKvRollback"

definition carries :: "u64 \<Rightarrow> u16 \<times> bytes \<Rightarrow> bool" where
  "carries txID r \<longleftrightarrow> take 8 (snd r) = PutUint64 txID"

definition tx_open :: "transaction \<Rightarrow> bool" where
  "tx_open t \<longleftrightarrow> \<not> tx_committed t \<and> \<not> tx_rolledback t"

definition tx_inv :: "u64 \<Rightarrow> ('s \<times> request_log) \<times> transaction \<Rightarrow> bool" where
  "tx_inv txID st = (case st of ((s, h), t) \<Rightarrow>
     tx_ID t = txID \<and> list_all (carries txID) h \<and>
     list_all nonfinal (if tx_open t then h else butlast h))"

definition open_inv :: "u64 \<Rightarrow> ('s \<times> request_log) \<times> transaction \<Rightarrow> bool" where
  "open_inv txID st \<longleftrightarrow> tx_inv txID st \<and> tx_open (snd st)"

lemma keeps_checked:
  assumes "\<And>st. open_inv txID st \<Longrightarrow> tx_inv txID (snd (m st))"
  shows "keeps (tx_inv txID) (bind_op (checkState (recording c)) (\<lambda>_. m))"
  using assms
  by (auto simp: keeps_def bind_op_def checkState_def open_inv_def tx_open_def split: prod.splits option.splits res.splits)

lemma keeps_open: "keeps (open_inv txID) m \<Longrightarrow> open_inv txID st \<Longrightarrow> tx_inv txID (snd (m st))"
  using keepsD by (fastforce simp: open_inv_def)

lemma checkWritable_keeps: "keeps P checkWritable"
  by (auto simp: keeps_def checkWritable_def)

text \<open>A request of this transaction that ends nothing keeps the handle open.\<close>

lemma send_open_keeps:
  assumes "nonfinal (msgType, w [])" "carries txID (msgType, w [])"
  shows "keeps (\<lambda>(s, h). list_all (carries txID) h \<and> list_all nonfinal h)
    (send_parse (recording c) parse mapErr opName what msgType w)"
  using assms by (intro send_parse_keeps) (auto split: prod.splits)

lemma on_conn_keeps: "keeps Q m \<Longrightarrow> keeps (\<lambda>(s, t). Q s \<and> R t) (on_conn m)"
  by (auto simp: keeps_def on_conn_def split: prod.split)

lemma open_inv_split:
  "open_inv txID = (\<lambda>(c, t). (case c of (s, h) \<Rightarrow> list_all (carries txID) h \<and> list_all nonfinal h) \<and>
     (tx_ID t = txID \<and> tx_open t))"
  by (auto simp: open_inv_def tx_inv_def fun_eq_iff)

lemma kv_mutate_keeps:
  assumes "\<And>route w. mk txID route = Ok w \<Longrightarrow> carries txID (msgType, w [])" "nonfinal (msgType, [])"
  shows "keeps (open_inv txID) (kv_mutate (recording c) opName msgType mk)"
proof -
  have "open_inv txID (snd (kv_mutate (recording c) opName msgType mk st))" if st: "open_inv txID st" for st
  proof -
    obtain s h t where d: "st = ((s, h), t)" by (metis surj_pair)
    have id: "tx_ID t = txID" using st by (simp add: d open_inv_def tx_inv_def)
    show ?thesis
    proof (cases "mk txID (tx_route t)")
      case (Ok w)
      have "nonfinal (msgType, w [])" using assms(2) by (simp add: nonfinal_def)
      then have "keeps (open_inv txID) (bind_op (on_conn (send_parse (recording c) ParseStandardResponse mapKVError
          opName '' failed: unexpected status'' msgType w)) (\<lambda>_. return_op (Ok ())))"
        unfolding open_inv_split
        by (intro keeps_bind keeps_return on_conn_keeps send_open_keeps assms(1) [OF Ok])
      then show ?thesis using Ok st by (simp add: kv_mutate_def d id keeps_def)
    qed (use st in \<open>simp_all add: kv_mutate_def d id\<close>)
  qed
  then show ?thesis by (simp add: keeps_def)
qed

lemma kv_mutate_final:
  assumes "open_inv txID ((s, h), t)" "mk txID (tx_route t) = Ok w" "carries txID (msgType, w [])"
    and "tx_ID t' = txID" "tx_route t' = tx_route t" "\<not> tx_open t'"
  shows "tx_inv txID (snd (kv_mutate (recording c) opName msgType mk ((s, h), t')))"
proof -
  obtain r s1 where r: "api_send c msgType w s = (r, s1)" by (cases "api_send c msgType w s")
  have "snd (kv_mutate (recording c) opName msgType mk ((s, h), t')) = ((s1, h @ [(msgType, w [])]), t')"
    using assms(2,4,5)
    by (auto simp: kv_mutate_def send_parse_def on_conn_def bind_op_def return_op_def r split: res.split prod.split)
  moreover have "list_all nonfinal h" using assms(1) by (auto simp: tx_inv_def open_inv_def)
  ultimately show ?thesis using assms(1,3,4,6) by (simp add: tx_inv_def open_inv_def)
qed

lemma kv_writers_carry:
  "putPayloadWriter txID route k v = Ok w \<Longrightarrow> carries txID (m, w [])"
  "insertPayloadWriter txID route k v = Ok w \<Longrightarrow> carries txID (m, w [])"
  "getPayloadWriter txID route k = Ok w \<Longrightarrow> carries txID (m, w [])"
  "deletePayloadWriter txID route k = Ok w \<Longrightarrow> carries txID (m, w [])"
  "deleteRangePayloadWriter txID route k v = Ok w \<Longrightarrow> carries txID (m, w [])"
  "scanPayloadWriter txID route q = Ok w \<Longrightarrow> carries txID (m, w [])"
  "carries txID (m, commitPayloadWriter txID route d [])" "carries txID (m, rollbackPayloadWriter txID route [])"
  by (auto simp: carries_def putPayloadWriter_def insertPayloadWriter_def getPayloadWriter_def
      deletePayloadWriter_def deleteRangePayloadWriter_def scanPayloadWriter_def commitPayloadWriter_def
      rollbackPayloadWriter_def bind_res_Ok_iff byte_simps)

lemma retry_open_keeps:
  fixes c :: "'s conn_api"
  assumes "keeps (\<lambda>(s, h). list_all (carries txID) h \<and> list_all nonfinal h) fn"
  shows "keeps (open_inv txID) (on_conn (RunWithRetry (recording c) fn isRetryable))"
proof -
  have "keeps (\<lambda>(s, h). list_all (carries txID) h \<and> list_all nonfinal h) (RunWithRetry (recording c) fn isRetryable)"
  proof (rule RunWithRetry_keeps [OF assms])
    fix k and st :: "'s \<times> request_log"
    assume "case st of (s, h) \<Rightarrow> list_all (carries txID) h \<and> list_all nonfinal h"
    then show "case snd (api_wait (recording c) k st) of (s, h) \<Rightarrow> list_all (carries txID) h \<and> list_all nonfinal h"
      by (cases st) (metis (mono_tags, lifting) case_prod_beta recording_simps(5) snd_conv)
  qed
  then show ?thesis unfolding open_inv_split by (rule on_conn_keeps)
qed

lemma read_keeps:
  assumes "\<And>txID route w. mk txID route = Ok w \<Longrightarrow> carries txID (msgType, w [])"
    and "\<And>w. carries txID (msgType, w []) \<Longrightarrow>
      keeps (\<lambda>(s, h). list_all (carries txID) h \<and> list_all nonfinal h) (fn w)"
  shows "keeps (open_inv txID) (\<lambda>(s, t). bind_op (return_op (map_err f (mk (tx_ID t) (tx_route t))))
    (\<lambda>w. on_conn (RunWithRetry (recording c) (fn w) isRetryable)) (s, t))"
proof -
  have "open_inv txID (snd (bind_op (return_op (map_err f (mk (tx_ID t) (tx_route t))))
    (\<lambda>w. on_conn (RunWithRetry (recording c) (fn w) isRetryable)) (s, t)))" if st: "open_inv txID (s, t)" for s t
  proof (cases "mk txID (tx_route t)")
    case (Ok w)
    have "tx_ID t = txID" using st by (cases s) (simp add: open_inv_def tx_inv_def)
    then show ?thesis
      using Ok keepsD [OF retry_open_keeps [OF assms(2) [of w, OF assms(1) [OF Ok]]] st] by simp
  next
    case (Err e)
    moreover have "tx_ID t = txID" using st by (cases s) (simp add: open_inv_def tx_inv_def)
    ultimately show ?thesis using st by simp
  next
    case Panic
    moreover have "tx_ID t = txID" using st by (cases s) (simp add: open_inv_def tx_inv_def)
    ultimately show ?thesis using st by simp
  qed
  then show ?thesis by (auto simp: keeps_def)
qed

lemma attempts_keep:
  assumes "carries txID (m, w [])"
  shows "m = MessageTypeKvGet \<Longrightarrow>
      keeps (\<lambda>(s, h). list_all (carries txID) h \<and> list_all nonfinal h) (get_attempt (recording c) w)"
    and "m = MessageTypeKvScan \<Longrightarrow>
      keeps (\<lambda>(s, h). list_all (carries txID) h \<and> list_all nonfinal h) (scan_attempt (recording c) w)"
  unfolding get_attempt_def scan_attempt_def using assms
  by (auto intro!: keeps_bind send_open_keeps simp: nonfinal_def)

lemmas open_rules = keeps_bind keeps_return checkWritable_keeps kv_mutate_keeps kv_writers_carry

lemma run_kv_op_inv:
  assumes "tx_inv txID st"
  shows "tx_inv txID (run_kv_op (recording c) op st)"
proof (cases op)
  case (DoGet k)
  have "keeps (tx_inv txID) (Tx_Get (recording c) k)" unfolding Tx_Get_def
    by (intro keeps_checked keeps_open [OF keeps_bind] keeps_return
        read_keeps [where mk = "\<lambda>txID route. getPayloadWriter txID route k" and msgType = MessageTypeKvGet])
      (auto intro: attempts_keep(1) kv_writers_carry(3))
  from keepsD [OF this assms] show ?thesis using DoGet by simp
next
  case (DoPut k v)
  have "keeps (tx_inv txID) (Tx_Put (recording c) k v)" unfolding Tx_Put_def
    by (intro keeps_checked keeps_open [OF keeps_bind] open_rules) (auto simp: nonfinal_def)
  from keepsD [OF this assms] show ?thesis using DoPut by simp
next
  case (DoInsert k v)
  have "keeps (tx_inv txID) (Tx_Insert (recording c) k v)" unfolding Tx_Insert_def
    by (intro keeps_checked keeps_open [OF keeps_bind] open_rules) (auto simp: nonfinal_def)
  from keepsD [OF this assms] show ?thesis using DoInsert by simp
next
  case (DoDelete k)
  have "keeps (tx_inv txID) (Tx_Delete (recording c) k)" unfolding Tx_Delete_def
    by (intro keeps_checked keeps_open [OF keeps_bind] open_rules) (auto simp: nonfinal_def)
  from keepsD [OF this assms] show ?thesis using DoDelete by simp
next
  case (DoDeleteRange a b)
  have "keeps (tx_inv txID) (Tx_DeleteRange (recording c) a b)" unfolding Tx_DeleteRange_def
    by (intro keeps_checked keeps_open [OF keeps_bind] open_rules) (auto simp: nonfinal_def)
  from keepsD [OF this assms] show ?thesis using DoDeleteRange by simp
next
  case (DoScan q)
  have "keeps (tx_inv txID) (Tx_Scan (recording c) q)" unfolding Tx_Scan_def
    by (intro keeps_checked keeps_open
        [OF read_keeps [where mk = "\<lambda>txID route. scanPayloadWriter txID route q" and msgType = MessageTypeKvScan]])
      (auto intro: attempts_keep(2) kv_writers_carry(6))
  from keepsD [OF this assms] show ?thesis using DoScan by simp
next
  case (DoCommit d)
  have fin: "tx_inv txID (snd (bind_op checkWritable (\<lambda>_ (s, t).
      kv_mutate (recording c) ''commit'' MessageTypeKvCommit (\<lambda>txID route. Ok (commitPayloadWriter txID route d))
        (s, t\<lparr>tx_committed := True\<rparr>)) st))" if "open_inv txID st" for st
  proof -
    obtain s h t where st: "st = ((s, h), t)" by (metis surj_pair)
    have o: "open_inv txID ((s, h), t)" using that by (simp add: st)
    have "tx_inv txID (snd (kv_mutate (recording c) ''commit'' MessageTypeKvCommit
        (\<lambda>txID route. Ok (commitPayloadWriter txID route d)) ((s, h), t\<lparr>tx_committed := True\<rparr>)))"
      using o by (intro kv_mutate_final [OF o refl])
        (auto simp: tx_open_def kv_writers_carry open_inv_def tx_inv_def)
    then show ?thesis using o by (simp add: st checkWritable_def bind_op_def open_inv_def)
  qed
  have "keeps (tx_inv txID) (Tx_Commit (recording c) d)"
    unfolding Tx_Commit_def using keeps_checked [OF fin] by (simp add: keeps_return)
  from keepsD [OF this assms] show ?thesis using DoCommit by simp
next
  case DoRollback
  obtain s h t where st: "st = ((s, h), t)" by (metis surj_pair)
  show ?thesis
  proof (cases "api_live c s = None \<and> tx_open t")
    case True
    then have o: "open_inv txID ((s, h), t)" using assms by (simp add: open_inv_def st)
    have "tx_inv txID (snd (kv_mutate (recording c) ''rollback'' MessageTypeKvRollback
        (\<lambda>txID route. Ok (rollbackPayloadWriter txID route)) ((s, h), t\<lparr>tx_rolledback := True\<rparr>)))"
      using o by (intro kv_mutate_final [OF o refl])
        (auto simp: tx_open_def kv_writers_carry open_inv_def tx_inv_def)
    then show ?thesis using True by (simp add: DoRollback Tx_Rollback_def st tx_open_def)
  next
    case False
    then show ?thesis using assms
      by (auto simp: DoRollback Tx_Rollback_def st tx_open_def split: option.split)
  qed
qed

section \<open>Properties of transactions\<close>

text \<open>C16: Transactions end once. Whatever sequence of operations runs on a fresh handle, and however the
  connection answers, every request sent carries the handle's transaction id, at most one COMMIT or
  ROLLBACK is ever sent, nothing at all is sent after it, and the handle is closed once it is.\<close>

theorem transaction_finalized_once:
  assumes "\<not> tx_committed t" "\<not> tx_rolledback t"
    and "run_kv_ops (recording c) ops ((s, []), t) = ((s', log), t')"
  shows "list_all nonfinal (butlast log) \<and> list_all (carries (tx_ID t)) log \<and>
    (list_all nonfinal log \<or> tx_committed t' \<or> tx_rolledback t')"
proof -
  have "tx_inv (tx_ID t) (run_kv_ops (recording c) ops st)" if "tx_inv (tx_ID t) st" for st
    using that unfolding run_kv_ops_def by (induction ops arbitrary: st) (simp_all add: run_kv_op_inv)
  moreover have "tx_inv (tx_ID t) ((s, []), t)" using assms(1,2) by (simp add: tx_inv_def)
  ultimately have i: "tx_inv (tx_ID t) ((s', log), t')" using assms(3) by metis
  then have "list_all nonfinal (butlast log)"
    by (cases "tx_open t'") (auto simp: tx_inv_def list_all_iff dest: in_set_butlastD)
  then show ?thesis using i by (auto simp: tx_inv_def tx_open_def split: if_splits)
qed

definition ack_api :: "unit conn_api" where
  "ack_api = \<lparr>api_request = (\<lambda>t f w s. (Ok [0], s)), api_oneway = (\<lambda>t w s. (Ok (), s)),
     api_supports = (\<lambda>i s. True), api_live = (\<lambda>s. None),
     api_ctxErr = (\<lambda>s. None), api_wait = (\<lambda>k s. (None, s)), api_addSubs = (\<lambda>n s. s), api_retry = Some 3\<rparr>"

definition example_tx :: "bool \<Rightarrow> transaction" where
  "example_tx ro = \<lparr>tx_route = ''kv://a/b/c'', tx_readOnly = ro, tx_ID = 7, tx_committed = False, tx_rolledback = False\<rparr>"

lemmas example_simps = run_kv_ops_def Tx_Put_def Tx_Commit_def Tx_Rollback_def checkState_def checkWritable_def
  kv_mutate_def send_parse_def on_conn_def bind_op_def return_op_def ack_api_def example_tx_def recording_def
  logged_api_def api_send_def ParseStandardResponse_def putPayloadWriter_def ValidateKeySize_def ValidateValueSize_def
  MaxKeySize_def MaxValueSize_def DurabilitySync_def

theorem transaction_finalized_once_witness:
  "\<exists>p q. run_kv_ops (recording ack_api) [DoPut (Some [1]) (Some []), DoCommit 1, DoRollback, DoPut (Some [1]) (Some [])]
     (((), []), example_tx False) = (((), [(104, p), (101, q)]), (example_tx False)\<lparr>tx_committed := True\<rparr>) \<and>
   list_all nonfinal (butlast [(104, p), (101, q)])"
proof -
  let ?ops = "[DoPut (Some [1]) (Some []), DoCommit 1, DoRollback, DoPut (Some [1]) (Some [])]"
  have r: "\<exists>p q. run_kv_ops (recording ack_api) ?ops (((), []), example_tx False) =
      (((), [(104, p), (101, q)]), (example_tx False)\<lparr>tx_committed := True\<rparr>)"
    by (simp add: example_simps)
  then obtain p q where pq: "run_kv_ops (recording ack_api) ?ops (((), []), example_tx False) =
      (((), [(104, p), (101, q)]), (example_tx False)\<lparr>tx_committed := True\<rparr>)" by blast
  have "list_all nonfinal (butlast [(104, p), (101, q)])"
    using transaction_finalized_once [OF _ _ pq] by (simp add: example_tx_def)
  with pq show ?thesis by blast
qed

text \<open>C19: Writes in a read-only transaction. On a handle opened read-only, INSERT, DELETE, DELETE_RANGE and
  COMMIT are refused with the read-only error and nothing is sent. PUT has no such guard: it is sent to the
  broker.\<close>

theorem read_only_guards:
  assumes "tx_readOnly t" "\<not> tx_committed t" "\<not> tx_rolledback t" "api_live c s = None"
    and "valid_key k" "valid_value v" "durability \<le> 1"
  shows "Tx_Insert (recording c) (Some k) (Some v) ((s, h), t) = (Err ErrReadOnlyTransaction, ((s, h), t)) \<and>
    Tx_Delete (recording c) (Some k) ((s, h), t) = (Err ErrReadOnlyTransaction, ((s, h), t)) \<and>
    Tx_DeleteRange (recording c) (Some k) (Some k) ((s, h), t) = (Err ErrReadOnlyTransaction, ((s, h), t)) \<and>
    Tx_Commit (recording c) durability ((s, h), t) = (Err ErrReadOnlyTransaction, ((s, h), t)) \<and>
    (\<exists>s' p. snd (Tx_Put (recording c) (Some k) (Some v) ((s, h), t)) = ((s', h @ [(MessageTypeKvPut, p)]), t))"
proof -
  have g: "checkState (recording c) ((s, h), t) = (Ok (), ((s, h), t))"
    "checkWritable ((s, h), t) = (Err ErrReadOnlyTransaction, ((s, h), t))"
    using assms(1-4) by (simp_all add: checkState_def checkWritable_def)
  have v: "ValidateKeySize (Some k) = Ok ()" "ValidateValueSize (Some v) = Ok ()"
    using assms(5,6) by (simp_all add: Validate_Ok_iff)
  have d: "\<not> durability > DurabilitySync" using assms(7) by (simp add: DurabilitySync_def not_less)
  obtain w where w: "putPayloadWriter (tx_ID t) (tx_route t) (Some k) (Some v) = Ok w"
    using v by (simp add: putPayloadWriter_def)
  obtain r s1 where r: "api_send c MessageTypeKvPut w s = (r, s1)" by (cases "api_send c MessageTypeKvPut w s")
  have "snd (Tx_Put (recording c) (Some k) (Some v) ((s, h), t)) = ((s1, h @ [(MessageTypeKvPut, w [])]), t)"
    using g(1) v w r
    by (auto simp: Tx_Put_def kv_mutate_def send_parse_def on_conn_def bind_op_def return_op_def
        split: res.split prod.split)
  then show ?thesis using g d
    by (simp add: Tx_Insert_def Tx_Delete_def Tx_DeleteRange_def Tx_Commit_def bind_op_def)
qed

theorem read_only_guards_witness:
  "\<exists>p. snd (Tx_Put (recording ack_api) (Some [1]) (Some []) (((), []), example_tx True)) =
     (((), [(MessageTypeKvPut, p)]), example_tx True)"
  using read_only_guards [of "example_tx True" ack_api "()" "[1]" "[]" 1 "[]"]
  by (simp add: example_tx_def ack_api_def valid_key_def valid_value_def)

end
