(* ===== verification/Queue_Domain.thy ===== *)
theory Queue_Domain
  imports Conn_Api Routes
begin

text \<open>
  The Queue domain (\<^verbatim>\<open>internal/domains/queue\<close>): request payloads, the broker's error codes, ENQUEUE with its
  retry and its message lifetime extension, RESERVE and its response, and the handle of a reserved
  message with its three states.
\<close>

section \<open>Errors\<close>

definition ErrInvalidToken :: go_error where "ErrInvalidToken = Sentinel ''invalid token''"
definition ErrLeaseExpiredQ :: go_error where "ErrLeaseExpiredQ = Sentinel ''lease expired''"
definition ErrMessageNotFound :: go_error where "ErrMessageNotFound = Sentinel ''message not found''"
definition ErrQueueNotFound :: go_error where "ErrQueueNotFound = Sentinel ''queue not found''"
definition ErrQueueFull :: go_error where "ErrQueueFull = Sentinel ''queue full''"

lemmas queue_errors = ErrInvalidToken_def ErrLeaseExpiredQ_def ErrMessageNotFound_def ErrQueueNotFound_def
  ErrQueueFull_def

definition mapQueueErrorCode :: "u32 \<Rightarrow> string \<Rightarrow> go_error" where
  "mapQueueErrorCode code msg =
     (if code = 4050 then ErrInvalidToken
      else if code = 4051 then ErrLeaseExpiredQ
      else if code = 4052 then ErrMessageNotFound
      else if code = 4053 then ErrQueueNotFound
      else if code = 4005 then ErrQueueFull
      else ErrNew (''queue error '' @ dec (unat code) @ '': '' @ msg))"

definition mapQueueDomainError :: "go_error \<Rightarrow> go_error" where
  "mapQueueDomainError err =
     (case errors_As_domain err of
        Some d \<Rightarrow> mapQueueErrorCode (de_code d) (de_message d)
      | None \<Rightarrow> err)"

definition parseQueueResponse :: "bytes \<Rightarrow> (bool \<times> bytes) res" where
  "parseQueueResponse payload =
     (if length payload < 1 then Err (ErrNew ''response too short'')
      else map_err mapQueueDomainError (ParseStandardResponse payload))"

definition parsePlainQueueResponse :: "bytes \<Rightarrow> (bool \<times> bytes) res" where
  "parsePlainQueueResponse payload = parseQueueResponse payload"

definition parseQueueAcknowledgementResponse :: "bytes \<Rightarrow> (bool \<times> bytes) res" where
  "parseQueueAcknowledgementResponse payload =
     bind_res (parsePlainQueueResponse payload) (\<lambda>(success, remaining).
       if success \<and> length remaining \<noteq> 0 then Err (ErrNew ''queue acknowledgement has trailing bytes'')
       else Ok (success, remaining))"

section \<open>Request payloads\<close>

definition encodeEnqueue :: "string \<Rightarrow> bytes \<Rightarrow> u64 \<Rightarrow> bytes" where
  "encodeEnqueue route body delaySeconds =
     (let routeBytes = bytes_of_string route;
          hasDelay = (if delaySeconds > 0 then 1 else (0 :: u8));
          payload = [];
          payload = payload @ PutUint32 (u32_len routeBytes);
          payload = payload @ routeBytes;
          payload = payload @ PutUint32 (u32_len body);
          payload = payload @ body;
          payload = payload @ [hasDelay]
      in if hasDelay = 1 then payload @ PutUint64 delaySeconds else payload)"

definition encodeReserve :: "string \<Rightarrow> u64 \<Rightarrow> u32 \<Rightarrow> u64 \<Rightarrow> bytes" where
  "encodeReserve route leaseSeconds batchSize waitSeconds =
     (let routeBytes = bytes_of_string route;
          hasBatchSize = (if batchSize > 0 then 1 else (0 :: u8));
          payload = [];
          payload = payload @ PutUint32 (u32_len routeBytes);
          payload = payload @ routeBytes;
          payload = payload @ PutUint64 leaseSeconds;
          payload = payload @ [hasBatchSize];
          payload = (if hasBatchSize = 1 then payload @ PutUint32 batchSize else payload)
      in if waitSeconds = 0 then payload @ [0] else (payload @ [1]) @ PutUint64 waitSeconds)"

definition encodeExtend :: "string \<Rightarrow> u64 \<Rightarrow> u64 \<Rightarrow> u64 \<Rightarrow> bytes" where
  "encodeExtend route messageID leaseToken leaseSeconds = EncodeWithBuffer (write_seq
     [enc_WriteRoute route, enc_WriteU64 messageID, enc_WriteU64 leaseToken, enc_WriteU64 leaseSeconds])"

definition encodeComplete :: "string \<Rightarrow> u64 \<Rightarrow> u64 \<Rightarrow> bytes" where
  "encodeComplete route messageID leaseToken = EncodeWithBuffer (write_seq
     [enc_WriteRoute route, enc_WriteU64 messageID, enc_WriteU64 leaseToken])"

definition enqueuePayloadWriter :: "string \<Rightarrow> bytes \<Rightarrow> u64 \<Rightarrow> writer" where
  "enqueuePayloadWriter route body delaySeconds =
     (let routeBytes = bytes_of_string route; hasDelay = (if delaySeconds > 0 then 1 else (0 :: u8))
      in write_seq ([enc_WriteU32 (u32_len routeBytes), enc_WriteBytesRaw routeBytes, enc_WriteU32 (u32_len body),
           enc_WriteBytesRaw body, WriteByte hasDelay] @ (if hasDelay = 1 then [enc_WriteU64 delaySeconds] else [])))"

definition reservePayloadWriter :: "string \<Rightarrow> u64 \<Rightarrow> u32 \<Rightarrow> u64 \<Rightarrow> writer" where
  "reservePayloadWriter route leaseSeconds batchSize waitSeconds =
     (let routeBytes = bytes_of_string route; hasBatchSize = (if batchSize > 0 then 1 else (0 :: u8))
      in write_seq ([enc_WriteU32 (u32_len routeBytes), enc_WriteBytesRaw routeBytes, enc_WriteU64 leaseSeconds,
           WriteByte hasBatchSize] @ (if hasBatchSize = 1 then [enc_WriteU32 batchSize] else []) @
           (if waitSeconds = 0 then [WriteByte 0] else [WriteByte 1, enc_WriteU64 waitSeconds])))"

definition extendPayloadWriter :: "string \<Rightarrow> u64 \<Rightarrow> u64 \<Rightarrow> u64 \<Rightarrow> writer" where
  "extendPayloadWriter route messageID leaseToken leaseSeconds = write_seq
     [enc_WriteRoute route, enc_WriteU64 messageID, enc_WriteU64 leaseToken, enc_WriteU64 leaseSeconds]"

definition completePayloadWriter :: "string \<Rightarrow> u64 \<Rightarrow> u64 \<Rightarrow> writer" where
  "completePayloadWriter route messageID leaseToken = write_seq
     [enc_WriteRoute route, enc_WriteU64 messageID, enc_WriteU64 leaseToken]"

definition queue_subscribePayloadWriter :: "string \<Rightarrow> writer" where
  "queue_subscribePayloadWriter pat = enc_WriteRoute pat"

definition queue_unsubscribePayloadWriter :: "string \<Rightarrow> writer" where
  "queue_unsubscribePayloadWriter pat = enc_WriteRoute pat"

text \<open>
  ENQUEUE with a message lifetime: the core payload behind its length, which is written last over
  four zero bytes, then extension field 1 with the hours.
\<close>

definition enqueueWriterWithTTL :: "string \<Rightarrow> bytes \<Rightarrow> u64 \<Rightarrow> u32 \<Rightarrow> writer" where
  "enqueueWriterWithTTL route body delaySeconds ttlHours buf =
     (let start = length buf;
          buf = buf @ [0, 0, 0, 0];
          buf = enqueuePayloadWriter route body delaySeconds buf;
          buf = splice start (PutUint32 (word_of_nat (length buf - start - 4))) buf;
          buf = buf @ [0, 1, 0, 0, 0, 4]
      in buf @ PutUint32 ttlHours)"

section \<open>Client operations\<close>

record QueueItem =
  qi_ID :: u64
  qi_Token :: u64
  qi_Body :: bytes
  qi_Route :: string
  qi_state :: nat

definition enqueue_attempt ::
  "'s conn_api \<Rightarrow> string \<Rightarrow> bytes \<Rightarrow> u64 \<Rightarrow> u32 option \<Rightarrow> (u64, 's) op" where
  "enqueue_attempt c route body delaySeconds ttlHours = (\<lambda>s.
     let send = (\<lambda>flags w.
       bind_op (\<lambda>s. map_prod (map_err (Errorf1 ''enqueue request failed'')) id
                  (api_request c MessageTypeQueueEnqueue flags w s)) (\<lambda>resp.
       bind_op (return_op (map_err (Errorf1 ''enqueue failed'') (parseQueueResponse resp))) (\<lambda>(success, remaining).
       return_op
         (if \<not> success then Err (ErrNew ''enqueue failed: unexpected status'')
          else if length remaining < 8
          then Err (ErrNew (''enqueue response too short: got '' @ dec (length remaining) @ '' bytes''))
          else bind_res (map_err (Errorf1 ''parse message_id'') (ReadU64BE remaining 0)) (\<lambda>(msgID, _). Ok msgID)))))
     in case ttlHours of
          None \<Rightarrow> send 0 (enqueuePayloadWriter route body delaySeconds) s
        | Some ttl \<Rightarrow>
            if ttl = 0 then (Err (ErrNew ''TTL hours must be positive''), s)
            else if \<not> api_supports c CapabilityQueueMessageTTL s
            then (Err (ErrNew ''queue TTL capability was not negotiated''), s)
            else send FlagExtensionsPresent (enqueueWriterWithTTL route body delaySeconds ttl) s)"

definition EnqueueWithOptions ::
  "'s conn_api \<Rightarrow> string \<Rightarrow> bytes \<Rightarrow> u64 \<Rightarrow> u32 option \<Rightarrow> (u64, 's) op" where
  "EnqueueWithOptions c route body delaySeconds ttlHours =
     bind_op (return_op (map_err (Errorf1 ''invalid route'') (ValidateFixedRoute route ''queue'' 3))) (\<lambda>_.
       RunWithRetry c (enqueue_attempt c route body delaySeconds ttlHours) (\<lambda>err. errors_Is err ErrQueueFull))"

definition Enqueue :: "'s conn_api \<Rightarrow> string \<Rightarrow> bytes \<Rightarrow> (u64, 's) op" where
  "Enqueue c route body = EnqueueWithOptions c route body 0 None"

text \<open>The items of a RESERVE response; \<open>i\<close> is the item's number and \<open>left\<close> the items to come.\<close>

fun reserve_items :: "string \<Rightarrow> nat \<Rightarrow> nat \<Rightarrow> bytes \<Rightarrow> nat \<Rightarrow> (QueueItem list \<times> nat) res" where
  "reserve_items selector i 0 remaining offset = Ok ([], offset)"
| "reserve_items selector i (Suc left) remaining offset =
     bind_res
       (if strings_Contains selector ''*''
        then map_err (Errorf1 (''parse concrete route at item '' @ dec i))
               (bind_res (ReadString remaining offset) (\<lambda>(route, offset).
                bind_res (ValidateFixedRoute route ''queue'' 3) (\<lambda>_. Ok (route, offset))))
        else Ok (selector, offset)) (\<lambda>(route, offset).
     bind_res (map_err (Errorf1 (''parse message_id at item '' @ dec i)) (ReadU64BE remaining offset)) (\<lambda>(ident, offset).
     bind_res (map_err (Errorf1 (''parse lease_token at item '' @ dec i)) (ReadU64BE remaining offset)) (\<lambda>(token, offset).
     bind_res (map_err (Errorf1 (''parse body at item '' @ dec i)) (ReadBytes remaining offset)) (\<lambda>(body, offset).
     bind_res (reserve_items selector (i + 1) left remaining offset) (\<lambda>(items, offset).
       Ok (\<lparr>qi_ID = ident, qi_Token = token, qi_Body = body, qi_Route = route, qi_state = 0\<rparr> # items, offset))))))"

definition parseReserveItems :: "bytes \<Rightarrow> string \<Rightarrow> QueueItem list res" where
  "parseReserveItems remaining selector =
     bind_res (map_err (Errorf1 ''parse lease_count'') (ReadU32BE remaining 0)) (\<lambda>(count, offset).
     bind_res (reserve_items selector 0 (unat count) remaining offset) (\<lambda>(items, offset).
       if offset \<noteq> length remaining then Err (ErrNew ''reserve response has trailing bytes'') else Ok items))"

text \<open>The capacity \<open>parseReserveItems\<close> reserves for its items before it reads the first one.\<close>

definition reserve_capacity :: "bytes \<Rightarrow> nat option" where
  "reserve_capacity remaining = (case ReadU32BE remaining 0 of Ok (count, _) \<Rightarrow> Some (unat count) | _ \<Rightarrow> None)"

definition reserveOnce :: "'s conn_api \<Rightarrow> string \<Rightarrow> u64 \<Rightarrow> u32 \<Rightarrow> u64 \<Rightarrow> (QueueItem list, 's) op" where
  "reserveOnce c route leaseSecs batchSize waitSeconds =
     bind_op (send_parse c parseQueueResponse (\<lambda>e. e) ''reserve'' '' failed: unexpected status''
                MessageTypeQueueReserve (reservePayloadWriter route leaseSecs batchSize waitSeconds)) (\<lambda>remaining.
       return_op (parseReserveItems remaining route))"

definition ReserveWithOptions :: "'s conn_api \<Rightarrow> string \<Rightarrow> u64 \<Rightarrow> u32 option \<Rightarrow> u64 \<Rightarrow> (QueueItem list, 's) op" where
  "ReserveWithOptions c route leaseSecs withBatchSize waitSeconds =
     (let batchSize = (case withBatchSize of None \<Rightarrow> 1 | Some n \<Rightarrow> n)
      in bind_op (return_op (map_err (Errorf1 ''invalid route'') (ValidateRegistrationPattern route ''queue'' 3))) (\<lambda>_.
           reserveOnce c route leaseSecs batchSize waitSeconds))"

definition Reserve :: "'s conn_api \<Rightarrow> string \<Rightarrow> u64 \<Rightarrow> u32 \<Rightarrow> (QueueItem list, 's) op" where
  "Reserve c route leaseSecs batchSize = ReserveWithOptions c route leaseSecs (Some batchSize) 0"

section \<open>A reserved message\<close>

text \<open>
  The handle's state is 0 while the message is held, 1 while a COMPLETE or NACK is under way and 2 once one
  was acknowledged. Calls may overlap, so a settlement is two steps: \<open>settle_begin\<close> up to the request
  and \<open>settle_end\<close> from the response, with the deferred compare-and-swap back to 0.
\<close>

definition CompareAndSwap :: "nat \<Rightarrow> nat \<Rightarrow> QueueItem \<Rightarrow> bool \<times> QueueItem" where
  "CompareAndSwap old new q = (if qi_state q = old then (True, q\<lparr>qi_state := new\<rparr>) else (False, q))"

definition settle_begin :: "go_error option \<Rightarrow> QueueItem \<Rightarrow> unit res \<times> QueueItem" where
  "settle_begin live q =
     (case live of
        Some err \<Rightarrow> (Err err, q)
      | None \<Rightarrow> (case CompareAndSwap 0 1 q of (True, q') \<Rightarrow> (Ok (), q') | (False, q') \<Rightarrow> (Err ErrStaleHandle, q')))"

definition settle_end :: "unit res \<Rightarrow> QueueItem \<Rightarrow> unit res \<times> QueueItem" where
  "settle_end outcome q =
     (outcome, snd (CompareAndSwap 1 0 (case outcome of Ok _ \<Rightarrow> q\<lparr>qi_state := 2\<rparr> | _ \<Rightarrow> q)))"

text \<open>The request and the reading of its acknowledgement, for \<open>CompleteWithToken\<close> and \<open>Nack\<close>.\<close>

definition complete_request :: "'s conn_api \<Rightarrow> QueueItem \<Rightarrow> u64 \<Rightarrow> (unit, 's) op" where
  "complete_request c q token =
     bind_op (send_parse c parseQueueAcknowledgementResponse (\<lambda>e. e) ''complete'' '' failed: unexpected status''
                MessageTypeQueueComplete (completePayloadWriter (qi_Route q) (qi_ID q) token))
       (\<lambda>_. return_op (Ok ()))"

definition nack_request :: "'s conn_api \<Rightarrow> QueueItem \<Rightarrow> u64 \<Rightarrow> (unit, 's) op" where
  "nack_request c q visibilitySeconds =
     bind_op (api_send c MessageTypeQueueNack (extendPayloadWriter (qi_Route q) (qi_ID q) (qi_Token q) visibilitySeconds))
       (\<lambda>resp. return_op (bind_res (parseQueueAcknowledgementResponse resp) (\<lambda>(success, _).
          if \<not> success then Err (ErrNew ''nack failed: unexpected status'') else Ok ())))"

definition settle :: "go_error option \<Rightarrow> (unit, 's) op \<Rightarrow> (unit, 's \<times> QueueItem) op" where
  "settle live request = (\<lambda>(s, q).
     case settle_begin live q of
       (Ok _, q') \<Rightarrow> (case request s of (r, s') \<Rightarrow> (case settle_end r q' of (r', q'') \<Rightarrow> (r', (s', q''))))
     | (Err e, q') \<Rightarrow> (Err e, (s, q'))
     | (Panic, q') \<Rightarrow> (Panic, (s, q')))"

definition CompleteWithToken :: "'s conn_api \<Rightarrow> u64 \<Rightarrow> (unit, 's \<times> QueueItem) op" where
  "CompleteWithToken c token = (\<lambda>(s, q). settle (api_live c s) (complete_request c q token) (s, q))"

definition Complete :: "'s conn_api \<Rightarrow> (unit, 's \<times> QueueItem) op" where
  "Complete c = (\<lambda>(s, q). CompleteWithToken c (qi_Token q) (s, q))"

definition Nack :: "'s conn_api \<Rightarrow> u64 \<Rightarrow> (unit, 's \<times> QueueItem) op" where
  "Nack c visibilitySeconds = (\<lambda>(s, q).
     case api_live c s of
       Some err \<Rightarrow> (Err err, (s, q))
     | None \<Rightarrow>
         if \<not> api_supports c CapabilityQueueNack s
         then (Err (ErrNew ''queue NACK capability was not negotiated''), (s, q))
         else settle None (nack_request c q visibilitySeconds) (s, q))"

definition Extend :: "'s conn_api \<Rightarrow> u64 \<Rightarrow> (unit, 's \<times> QueueItem) op" where
  "Extend c leaseSecs = (\<lambda>(s, q).
     case api_live c s of
       Some err \<Rightarrow> (Err err, (s, q))
     | None \<Rightarrow>
         if qi_state q \<noteq> 0 then (Err ErrStaleHandle, (s, q))
         else on_conn (bind_op (send_parse c parseQueueAcknowledgementResponse (\<lambda>e. e) ''extend''
                '' failed: unexpected status'' MessageTypeQueueExtend
                (extendPayloadWriter (qi_Route q) (qi_ID q) (qi_Token q) leaseSecs)) (\<lambda>_. return_op (Ok ()))) (s, q))"

section \<open>Subscriptions\<close>

definition queue_parseSubscriptionID :: "bytes \<Rightarrow> u64 res" where
  "queue_parseSubscriptionID remaining =
     (if length remaining = 9 \<and> remaining ! 0 = 1
      then bind_res (map_err (Errorf1 ''parse subscription_id'') (ReadU64BE remaining 1)) (\<lambda>(subID, _). Ok subID)
      else Err (ErrNew ''subscribe response missing subscription_id''))"

definition queue_subscribeWire :: "'s conn_api \<Rightarrow> string \<Rightarrow> (u64, 's) op" where
  "queue_subscribeWire c pat =
     bind_op (send_parse c parsePlainQueueResponse (\<lambda>e. e) ''subscribe'' '' failed: unexpected status''
                MessageTypeQueueSubscribe (queue_subscribePayloadWriter pat)) (\<lambda>remaining s.
       case queue_parseSubscriptionID remaining of
         Ok subID \<Rightarrow> (Ok subID, api_addSubs c 1 s) | Err e \<Rightarrow> (Err e, s) | Panic \<Rightarrow> (Panic, s))"

definition queue_rollbackWire :: "'s conn_api \<Rightarrow> string \<Rightarrow> (unit, 's) op" where
  "queue_rollbackWire c pat =
     bind_op (api_send c MessageTypeQueueUnsubscribe (queue_unsubscribePayloadWriter pat)) (\<lambda>resp.
     bind_op (return_op (parsePlainQueueResponse resp)) (\<lambda>_ s. (Ok (), api_addSubs c (-1) s)))"

record AvailabilityNotification =
  an_Route :: string
  an_ReadyMessages :: u64
  an_DelayedMessages :: u64
  an_InflightMessages :: u64

definition queue_notification :: "string \<Rightarrow> bytes \<Rightarrow> AvailabilityNotification option res" where
  "queue_notification route payload =
     (if length payload \<noteq> 24 then Ok None
      else bind_res (bind_res (slice payload 0 8) Uint64) (\<lambda>ready.
           bind_res (bind_res (slice payload 8 16) Uint64) (\<lambda>delayed.
           bind_res (bind_res (slice payload 16 24) Uint64) (\<lambda>inflight.
             Ok (Some \<lparr>an_Route = route, an_ReadyMessages = ready, an_DelayedMessages = delayed,
                       an_InflightMessages = inflight\<rparr>)))))"

section \<open>Documented layouts\<close>

definition queue_enqueue_layout :: "bytes \<Rightarrow> nat \<Rightarrow> ((string \<times> bytes \<times> u64 option) \<times> nat) res" where
  "queue_enqueue_layout = rd_pair ReadString (rd_pair ReadBytes (rd_option ReadU64BE))"

definition queue_reserve_layout :: "bytes \<Rightarrow> nat \<Rightarrow> ((string \<times> u64 \<times> u32 option \<times> u64 option) \<times> nat) res" where
  "queue_reserve_layout = rd_pair ReadString (rd_pair ReadU64BE (rd_pair (rd_option ReadU32BE) (rd_option ReadU64BE)))"

definition queue_extend_layout :: "bytes \<Rightarrow> nat \<Rightarrow> ((string \<times> u64 \<times> u64 \<times> u64) \<times> nat) res" where
  "queue_extend_layout = rd_pair ReadString (rd_pair ReadU64BE (rd_pair ReadU64BE ReadU64BE))"

definition queue_complete_layout :: "bytes \<Rightarrow> nat \<Rightarrow> ((string \<times> u64 \<times> u64) \<times> nat) res" where
  "queue_complete_layout = rd_pair ReadString (rd_pair ReadU64BE ReadU64BE)"

interpretation q_enqueue: field_codec "enc_pair len_prefixed_string (enc_pair len_prefixed (enc_option PutUint64))"
  queue_enqueue_layout "fits_pair fits_u32 (fits_pair fits_u32 (pred_option (\<lambda>_. True)))"
  unfolding queue_enqueue_layout_def by (intro codec_intros)

interpretation q_reserve: field_codec
  "enc_pair len_prefixed_string (enc_pair PutUint64 (enc_pair (enc_option PutUint32) (enc_option PutUint64)))"
  queue_reserve_layout
  "fits_pair fits_u32 (fits_pair (\<lambda>_. True) (fits_pair (pred_option (\<lambda>_. True)) (pred_option (\<lambda>_. True))))"
  unfolding queue_reserve_layout_def by (intro codec_intros)

interpretation q_extend: field_codec
  "enc_pair len_prefixed_string (enc_pair PutUint64 (enc_pair PutUint64 PutUint64))" queue_extend_layout
  "fits_pair fits_u32 (fits_pair (\<lambda>_. True) (fits_pair (\<lambda>_. True) (\<lambda>_. True)))"
  unfolding queue_extend_layout_def by (intro codec_intros)

interpretation q_complete: field_codec "enc_pair len_prefixed_string (enc_pair PutUint64 PutUint64)"
  queue_complete_layout "fits_pair fits_u32 (fits_pair (\<lambda>_. True) (\<lambda>_. True))"
  unfolding queue_complete_layout_def by (intro codec_intros)

lemmas queue_decodes = decodes_iff [OF q_enqueue.field_codec_axioms] decodes_iff [OF q_reserve.field_codec_axioms]
  decodes_iff [OF q_extend.field_codec_axioms] decodes_iff [OF q_complete.field_codec_axioms]

definition given64 :: "u64 \<Rightarrow> u64 option" where
  "given64 x = (if x = 0 then None else Some x)"

definition given32 :: "u32 \<Rightarrow> u32 option" where
  "given32 x = (if x = 0 then None else Some x)"

lemma len_prefixed_string_unfold: "len_prefixed_string s = PutUint32 (u32_len s) @ bytes_of_string s"
  by (simp add: len_prefixed_string_def len_prefixed_def)

lemma encodeEnqueue_eq:
  "encodeEnqueue route body delay = len_prefixed_string route @ len_prefixed body @ enc_option PutUint64 (given64 delay)"
  by (simp add: encodeEnqueue_def len_prefixed_string_unfold len_prefixed_def enc_option_def given64_def
      word_neq_0_conv [symmetric] Let_def)

lemma enqueuePayloadWriter_eq: "enqueuePayloadWriter route body delay buf = buf @ encodeEnqueue route body delay"
  by (simp add: enqueuePayloadWriter_def encodeEnqueue_def Let_def byte_simps)

lemma encodeReserve_eq:
  "encodeReserve route lease batch wait = len_prefixed_string route @ PutUint64 lease @
     enc_option PutUint32 (given32 batch) @ enc_option PutUint64 (given64 wait)"
  by (simp add: encodeReserve_def len_prefixed_string_unfold enc_option_def given64_def given32_def
      word_neq_0_conv [symmetric] Let_def)

lemma reservePayloadWriter_eq: "reservePayloadWriter route lease batch wait buf = buf @ encodeReserve route lease batch wait"
  by (simp add: reservePayloadWriter_def encodeReserve_def Let_def byte_simps)

text \<open>Queue requests. ENQUEUE, RESERVE, EXTEND and COMPLETE payloads are read back by their documented layouts as
  exactly what they were built from, a zero delay, batch size or wait being absent; the two forms the
  client has of each, a payload and a payload writer, give the same bytes.\<close>

theorem queue_requests_decode:
  assumes "fits_u32 route" "fits_u32 body"
  shows
  "decodes queue_enqueue_layout (encodeEnqueue route body delay) (route, body, given64 delay) \<and>
   decodes queue_reserve_layout (encodeReserve route lease batch wait) (route, lease, given32 batch, given64 wait) \<and>
   decodes queue_extend_layout (encodeExtend route ident token lease) (route, ident, token, lease) \<and>
   decodes queue_complete_layout (encodeComplete route ident token) (route, ident, token) \<and>
   enqueuePayloadWriter route body delay buf = buf @ encodeEnqueue route body delay \<and>
   reservePayloadWriter route lease batch wait buf = buf @ encodeReserve route lease batch wait \<and>
   extendPayloadWriter route ident token lease buf = buf @ encodeExtend route ident token lease \<and>
   completePayloadWriter route ident token buf = buf @ encodeComplete route ident token"
  using assms
  by (simp add: queue_decodes encodeEnqueue_eq encodeReserve_eq encodeExtend_def encodeComplete_def
      extendPayloadWriter_def completePayloadWriter_def EncodeWithBuffer_def layout_simps byte_simps
      enqueuePayloadWriter_eq [unfolded encodeEnqueue_eq] reservePayloadWriter_eq [unfolded encodeReserve_eq]
      given64_def given32_def)

theorem queue_requests_decode_witness:
  "decodes queue_enqueue_layout (encodeEnqueue ''queue://a/b/c'' [1, 2] 30) (''queue://a/b/c'', [1, 2], Some 30)"
  using queue_requests_decode [of "''queue://a/b/c''" "[1, 2]" 30] by (simp add: fits_u32_def given64_def)

text \<open>Message lifetime. An ENQUEUE with a lifetime writes exactly what the extension encoder makes of the plain
  ENQUEUE payload and extension field 1 holding the hours, so a broker that decodes the extensions gets the
  plain payload back.\<close>

theorem enqueue_ttl_is_extension:
  assumes "EncodeExtensions (encodeEnqueue route body delay) [\<lparr>ext_id = 1, ext_value = PutUint32 ttl\<rparr>] = Ok p"
  shows "enqueueWriterWithTTL route body delay ttl buf = buf @ p"
proof -
  let ?core = "encodeEnqueue route body delay"
  have p: "p = PutUint32 (u32_len ?core) @ ?core @ enc_ext \<lparr>ext_id = 1, ext_value = PutUint32 ttl\<rparr>"
    using assms by (auto simp: EncodeExtensions_def bind_res_Ok_iff split: if_splits)
  have four: "u32_len (PutUint32 ttl) = 4" by (simp add: u32_len_def)
  have f: "enc_ext \<lparr>ext_id = 1, ext_value = PutUint32 ttl\<rparr> = [0, 1, 0, 0, 0, 4] @ PutUint32 ttl"
    unfolding enc_ext_def extension.simps four by (simp add: int_eval)
  have n: "word_of_nat (length (buf @ [0, 0, 0, 0] @ ?core) - length buf - 4) = u32_len ?core"
    by (simp add: u32_len_def)
  have "enqueuePayloadWriter route body delay (buf @ [0, 0, 0, 0]) = buf @ [0, 0, 0, 0] @ ?core"
    by (simp add: enqueuePayloadWriter_eq)
  moreover have "splice (length buf) (PutUint32 (u32_len ?core)) (buf @ [0, 0, 0, 0] @ ?core) =
      buf @ PutUint32 (u32_len ?core) @ ?core"
    by (rule splice_mid) simp_all
  ultimately show ?thesis
    unfolding enqueueWriterWithTTL_def Let_def by (simp only: n p f append_assoc)
qed

theorem enqueue_ttl_is_extension_witness:
  "enqueueWriterWithTTL ''q'' [5] 0 24 [9] = [9, 0, 0, 0, 11, 0, 0, 0, 1, 113, 0, 0, 0, 1, 5, 0, 0, 1, 0, 0, 0, 4, 0, 0, 0, 24]"
proof -
  have "encodeEnqueue ''q'' [5] 0 = [0, 0, 0, 1, 113, 0, 0, 0, 1, 5, 0]"
    by (simp add: encodeEnqueue_def bytes_of_string_def u32_len_def int_eval)
  then have "EncodeExtensions (encodeEnqueue ''q'' [5] 0) [\<lparr>ext_id = 1, ext_value = PutUint32 24\<rparr>] =
      Ok [0, 0, 0, 11, 0, 0, 0, 1, 113, 0, 0, 0, 1, 5, 0, 0, 1, 0, 0, 0, 4, 0, 0, 0, 24]"
    by (simp add: EncodeExtensions_def enc_ext_def frame_consts u32_len_def int_eval)
  from enqueue_ttl_is_extension [OF this, of "[9]"] show ?thesis by simp
qed

section \<open>Reserve responses\<close>

text \<open>One item as the response has it: with its concrete route when the selector has a wildcard.\<close>

definition reserve_item_bytes :: "string \<Rightarrow> QueueItem \<Rightarrow> bytes" where
  "reserve_item_bytes selector q =
     (if strings_Contains selector ''*'' then len_prefixed_string (qi_Route q) else []) @
     PutUint64 (qi_ID q) @ PutUint64 (qi_Token q) @ len_prefixed (qi_Body q)"

definition reserve_item_ok :: "string \<Rightarrow> QueueItem \<Rightarrow> bool" where
  "reserve_item_ok selector q \<longleftrightarrow>
     (if strings_Contains selector ''*'' then fits_u32 (qi_Route q) \<and> ValidateFixedRoute (qi_Route q) ''queue'' 3 = Ok ()
      else qi_Route q = selector) \<and> fits_u32 (qi_Body q) \<and> qi_state q = 0"

definition rd_reserve_item :: "string \<Rightarrow> bytes \<Rightarrow> nat \<Rightarrow> (QueueItem \<times> nat) res" where
  "rd_reserve_item selector p off =
     bind_res (if strings_Contains selector ''*''
               then bind_res (ReadString p off) (\<lambda>(route, off).
                    bind_res (ValidateFixedRoute route ''queue'' 3) (\<lambda>_. Ok (route, off)))
               else Ok (selector, off)) (\<lambda>(route, off).
     bind_res (ReadU64BE p off) (\<lambda>(ident, off). bind_res (ReadU64BE p off) (\<lambda>(token, off).
     bind_res (ReadBytes p off) (\<lambda>(body, off).
       Ok (\<lparr>qi_ID = ident, qi_Token = token, qi_Body = body, qi_Route = route, qi_state = 0\<rparr>, off)))))"

lemma reserve_items_Suc:
  "reserve_items selector i (Suc n) p off = Ok (qs, off') \<longleftrightarrow>
     (\<exists>route o0 ident o1 token o2 body o3 rest.
        (if strings_Contains selector ''*'' then ReadString p off = Ok (route, o0) \<and> ValidateFixedRoute route ''queue'' 3 = Ok ()
         else route = selector \<and> o0 = off) \<and>
        ReadU64BE p o0 = Ok (ident, o1) \<and> ReadU64BE p o1 = Ok (token, o2) \<and> ReadBytes p o2 = Ok (body, o3) \<and>
        reserve_items selector (i + 1) n p o3 = Ok (rest, off') \<and>
        qs = \<lparr>qi_ID = ident, qi_Token = token, qi_Body = body, qi_Route = route, qi_state = 0\<rparr> # rest)"
  by (cases "strings_Contains selector ''*''") (auto simp: bind_res_Ok_iff; fastforce)+

lemma rd_reserve_item_Ok_iff:
  "rd_reserve_item selector p off = Ok (q, off') \<longleftrightarrow>
     (\<exists>route o0 ident o1 token o2 body.
        (if strings_Contains selector ''*'' then ReadString p off = Ok (route, o0) \<and> ValidateFixedRoute route ''queue'' 3 = Ok ()
         else route = selector \<and> o0 = off) \<and>
        ReadU64BE p o0 = Ok (ident, o1) \<and> ReadU64BE p o1 = Ok (token, o2) \<and> ReadBytes p o2 = Ok (body, off') \<and>
        q = \<lparr>qi_ID = ident, qi_Token = token, qi_Body = body, qi_Route = route, qi_state = 0\<rparr>)"
  unfolding rd_reserve_item_def
  by (cases "strings_Contains selector ''*''") (auto simp: bind_res_Ok_iff; fastforce)+

lemma reserve_items_seq:
  "reserve_items selector i n p off = Ok (qs, off') \<longleftrightarrow> read_seq (rd_reserve_item selector) n p off = Ok (qs, off')"
proof (induction n arbitrary: i off qs)
  case 0
  then show ?case by simp
next
  case (Suc n)
  show ?case unfolding reserve_items_Suc Suc.IH read_seq.simps bind_res_Ok_iff
    by (auto simp: rd_reserve_item_Ok_iff bind_res_Ok_iff) (metis)+
qed

text \<open>The reader of an item is a codec: over four fields with a wildcard selector, over three otherwise.\<close>

definition item_of :: "string \<times> u64 \<times> u64 \<times> bytes \<Rightarrow> QueueItem" where
  "item_of x = (case x of (route, ident, token, body) \<Rightarrow>
     \<lparr>qi_ID = ident, qi_Token = token, qi_Body = body, qi_Route = route, qi_state = 0\<rparr>)"

definition item_fields :: "QueueItem \<Rightarrow> string \<times> u64 \<times> u64 \<times> bytes" where
  "item_fields q = (qi_Route q, qi_ID q, qi_Token q, qi_Body q)"

lemma item_of_fields [simp]:
  "item_fields (item_of x) = x" "item_of (item_fields q) = q \<longleftrightarrow> qi_state q = 0"
  "item_of (selector, snd (item_fields q)) = q \<longleftrightarrow> qi_state q = 0 \<and> qi_Route q = selector"
  by (cases x; cases q; auto simp: item_of_def item_fields_def)+

lemma rd_reserve_item_codec:
  "field_codec (reserve_item_bytes selector) (rd_reserve_item selector) (reserve_item_ok selector)"
proof -
  let ?check = "\<lambda>route. ValidateFixedRoute route ''queue'' 3"
  have np: "no_panic (rd_reserve_item selector p off)" for p off
    unfolding rd_reserve_item_def
    by (auto intro!: no_panic_bind2 no_panic_bind simp: ValidateFixedRoute_no_panic)
  show ?thesis
  proof (cases "strings_Contains selector ''*''")
    case True
    have c: "field_codec (enc_pair len_prefixed_string (enc_pair PutUint64 (enc_pair PutUint64 len_prefixed)))
        (rd_pair (rd_check ?check ReadString) (rd_pair ReadU64BE (rd_pair ReadU64BE ReadBytes)))
        (fits_pair (\<lambda>x. fits_u32 x \<and> ?check x = Ok ()) (fits_pair (\<lambda>_. True) (fits_pair (\<lambda>_. True) fits_u32)))"
      by (intro codec_intros codec_check ValidateFixedRoute_no_panic)
    have "field_codec (reserve_item_bytes selector)
        (rd_map item_of (rd_pair (rd_check ?check ReadString) (rd_pair ReadU64BE (rd_pair ReadU64BE ReadBytes))))
        (reserve_item_ok selector)"
      using codec_map [OF c, of item_fields item_of] True
      by (simp add: reserve_item_bytes_def [abs_def] reserve_item_ok_def [abs_def] layout_simps conj_ac)
        (simp add: item_fields_def conj_ac)
    then show ?thesis
      by (rule codec_same_Ok [OF _ _ np])
        (auto simp: rd_reserve_item_Ok_iff rd_map_def rd_pair_def rd_check_def bind_res_Ok_iff item_of_def True)
  next
    case False
    have c: "field_codec (enc_pair PutUint64 (enc_pair PutUint64 len_prefixed))
        (rd_pair ReadU64BE (rd_pair ReadU64BE ReadBytes)) (fits_pair (\<lambda>_. True) (fits_pair (\<lambda>_. True) fits_u32))"
      by (intro codec_intros)
    have "field_codec (reserve_item_bytes selector)
        (rd_map (\<lambda>x. item_of (selector, x)) (rd_pair ReadU64BE (rd_pair ReadU64BE ReadBytes)))
        (reserve_item_ok selector)"
      using codec_map [OF c, of "\<lambda>q. snd (item_fields q)" "\<lambda>x. item_of (selector, x)"] False
      by (simp add: reserve_item_bytes_def [abs_def] reserve_item_ok_def [abs_def] layout_simps conj_ac)
        (simp add: item_fields_def conj_ac)
    then show ?thesis
      by (rule codec_same_Ok [OF _ _ np])
        (auto simp: rd_reserve_item_Ok_iff rd_map_def rd_pair_def bind_res_Ok_iff item_of_def False)
  qed
qed

lemma reserve_items_no_panic: "no_panic (reserve_items selector i n p off)"
  by (induction n arbitrary: i off)
    (auto intro!: no_panic_bind2 no_panic_bind simp: ValidateFixedRoute_no_panic)

lemma reserve_response_iff:
  "(parseReserveItems p selector = Ok items \<longleftrightarrow>
      fits_list (reserve_item_ok selector) items \<and> p = enc_list (reserve_item_bytes selector) items) \<and>
   no_panic (parseReserveItems p selector)"
proof -
  have c: "field_codec (enc_list (reserve_item_bytes selector)) (rd_list (rd_reserve_item selector))
      (fits_list (reserve_item_ok selector))"
    by (rule codec_list [OF rd_reserve_item_codec])
  have "parseReserveItems p selector = Ok items \<longleftrightarrow> rd_list (rd_reserve_item selector) p 0 = Ok (items, length p)"
    by (auto simp: parseReserveItems_def rd_list_def bind_res_Ok_iff reserve_items_seq split: if_splits)
  moreover have "no_panic (parseReserveItems p selector)"
    unfolding parseReserveItems_def by (auto intro!: no_panic_bind2 reserve_items_no_panic)
  ultimately show ?thesis using field_codec.read_whole_iff [OF c, of p items] by simp
qed

text \<open>Reserved messages. A RESERVE response is accepted exactly when it is the count of the messages followed by
  the messages and nothing else: with a wildcard selector each message carries its concrete route, which
  must be a valid three-segment queue route, otherwise each gets the selector as its route. Ids, tokens and
  bodies are those of the response, every handle starts unsettled, and no response makes the parser
  panic.\<close>

theorem reserve_response_exact:
  "(parseReserveItems p selector = Ok items \<longleftrightarrow>
      fits_list (reserve_item_ok selector) items \<and> p = enc_list (reserve_item_bytes selector) items) \<and>
   no_panic (parseReserveItems p selector)"
  by (rule reserve_response_iff)

section \<open>Settling a message\<close>

text \<open>
  Calls on one handle that overlap: \<open>pending\<close> is the number of settlements between their two steps,
  \<open>acked\<close> the number that were acknowledged. A settlement that is refused is over at once.
\<close>

inductive settle_step :: "QueueItem \<times> nat \<times> nat \<Rightarrow> QueueItem \<times> nat \<times> nat \<Rightarrow> bool" where
  begin_ok: "settle_begin None q = (Ok (), q') \<Longrightarrow> settle_step (q, pending, acked) (q', pending + 1, acked)"
| begin_refused: "settle_begin live q = (Err e, q') \<Longrightarrow> settle_step (q, pending, acked) (q', pending, acked)"
| end_acked: "0 < pending \<Longrightarrow> settle_end (Ok ()) q = (r, q') \<Longrightarrow>
    settle_step (q, pending, acked) (q', pending - 1, acked + 1)"
| end_failed: "0 < pending \<Longrightarrow> settle_end (Err e) q = (r, q') \<Longrightarrow>
    settle_step (q, pending, acked) (q', pending - 1, acked)"

inductive_cases settle_stepE: "settle_step a b"

lemmas settle_defs = settle_begin_def settle_end_def CompareAndSwap_def

definition settle_inv :: "QueueItem \<times> nat \<times> nat \<Rightarrow> bool" where
  "settle_inv st = (case st of (q, pending, acked) \<Rightarrow>
     (qi_state q, pending, acked) = (0, 0, 0) \<or> (qi_state q, pending, acked) = (1, 1, 0) \<or>
     (qi_state q, pending, acked) = (2, 0, 1))"

lemma settle_inv_step: "settle_step a b \<Longrightarrow> settle_inv a \<Longrightarrow> settle_inv b"
  by (elim settle_stepE) (auto simp: settle_inv_def settle_defs split: if_splits option.splits)

lemma settle_inv_reach: "settle_step\<^sup>*\<^sup>* a b \<Longrightarrow> settle_inv a \<Longrightarrow> settle_inv b"
  by (induction rule: rtranclp_induct) (auto intro: settle_inv_step)

lemma settle_busy:
  assumes "qi_state q \<noteq> 0"
  shows "settle None request (s, q) = (Err ErrStaleHandle, (s, q))"
  using assms by (simp add: settle_def settle_defs)

lemma settle_free:
  assumes "qi_state q = 0" "request s = (r, s')"
  shows "settle None request (s, q) = (r, (s', q\<lparr>qi_state := if r = Ok () then 2 else 0\<rparr>))"
  using assms by (cases r; cases q) (simp_all add: settle_def settle_defs)

text \<open>The settlement requests send one message.\<close>

lemma settle_requests_sent:
  "\<exists>r s'. complete_request (recording c) q token (s, h) =
     (r, (s', h @ [(MessageTypeQueueComplete, completePayloadWriter (qi_Route q) (qi_ID q) token [])]))"
  "\<exists>r s'. nack_request (recording c) q secs (s, h) =
     (r, (s', h @ [(MessageTypeQueueNack, extendPayloadWriter (qi_Route q) (qi_ID q) (qi_Token q) secs [])]))"
  by (auto simp: complete_request_def nack_request_def send_parse_def bind_op_def return_op_def api_send_def recording_def
      split: prod.split res.split)

text \<open>C17: A message is settled once. However calls to COMPLETE and NACK on one handle overlap, at most one of them is
  under way or was acknowledged at any time. While one is under way and after one was acknowledged, a further COMPLETE, NACK or
  EXTEND is refused as a stale handle without sending anything. A COMPLETE or NACK on a handle that is neither sends its one
  request and settles the handle exactly when it succeeds; when it fails the handle can be used again.\<close>

theorem message_settled_once:
  assumes "qi_state q0 = 0" "settle_step\<^sup>*\<^sup>* (q0, 0, 0) (q, pending, acked)"
    and "api_live c s = None" "api_supports c CapabilityQueueNack s"
  shows "pending + acked \<le> 1 \<and> (qi_state q = 0 \<longleftrightarrow> pending = 0 \<and> acked = 0) \<and>
    (pending + acked = 1 \<longrightarrow>
       CompleteWithToken (recording c) token ((s, h), q) = (Err ErrStaleHandle, ((s, h), q)) \<and>
       Nack (recording c) secs ((s, h), q) = (Err ErrStaleHandle, ((s, h), q)) \<and>
       Extend (recording c) lease ((s, h), q) = (Err ErrStaleHandle, ((s, h), q))) \<and>
    (pending + acked = 0 \<longrightarrow>
       (\<exists>r s'. CompleteWithToken (recording c) token ((s, h), q) =
          (r, ((s', h @ [(MessageTypeQueueComplete, completePayloadWriter (qi_Route q) (qi_ID q) token [])]),
               q\<lparr>qi_state := if r = Ok () then 2 else 0\<rparr>))) \<and>
       (\<exists>r s'. Nack (recording c) secs ((s, h), q) =
          (r, ((s', h @ [(MessageTypeQueueNack, extendPayloadWriter (qi_Route q) (qi_ID q) (qi_Token q) secs [])]),
               q\<lparr>qi_state := if r = Ok () then 2 else 0\<rparr>))))"
proof -
  have inv: "settle_inv (q, pending, acked)"
    using settle_inv_reach [OF assms(2)] assms(1) by (simp add: settle_inv_def)
  have c: "api_live (recording c) (s, h) = None" "api_supports (recording c) CapabilityQueueNack (s, h)"
    using assms(3,4) by (simp_all add: recording_def logged_api_def)
  obtain rc sc rn sn
    where r: "complete_request (recording c) q token (s, h) =
        (rc, (sc, h @ [(MessageTypeQueueComplete, completePayloadWriter (qi_Route q) (qi_ID q) token [])]))"
      "nack_request (recording c) q secs (s, h) =
        (rn, (sn, h @ [(MessageTypeQueueNack, extendPayloadWriter (qi_Route q) (qi_ID q) (qi_Token q) secs [])]))"
    using settle_requests_sent by metis
  have free: "qi_state q = 0" if "pending + acked = 0" using inv that by (auto simp: settle_inv_def)
  have busy: "qi_state q \<noteq> 0" if "pending + acked = 1" using inv that by (auto simp: settle_inv_def)
  have once: "pending + acked \<le> 1 \<and> (qi_state q = 0 \<longleftrightarrow> pending = 0 \<and> acked = 0)" using inv by (auto simp: settle_inv_def)
  have ops: "CompleteWithToken (recording c) token ((s, h), q) = settle None (complete_request (recording c) q token) ((s, h), q)"
    "Nack (recording c) secs ((s, h), q) = settle None (nack_request (recording c) q secs) ((s, h), q)"
    using c by (simp_all add: CompleteWithToken_def Nack_def)
  have sent: "settle None (complete_request (recording c) q token) ((s, h), q) =
      (rc, ((sc, h @ [(MessageTypeQueueComplete, completePayloadWriter (qi_Route q) (qi_ID q) token [])]), q\<lparr>qi_state := if rc = Ok () then 2 else 0\<rparr>))"
    "settle None (nack_request (recording c) q secs) ((s, h), q) =
      (rn, ((sn, h @ [(MessageTypeQueueNack, extendPayloadWriter (qi_Route q) (qi_ID q) (qi_Token q) secs [])]), q\<lparr>qi_state := if rn = Ok () then 2 else 0\<rparr>))"
    if "pending + acked = 0" by (rule settle_free [OF free [OF that]], rule r)+
  have ext: "Extend (recording c) lease ((s, h), q) = (Err ErrStaleHandle, ((s, h), q))" if "pending + acked = 1"
    using busy [OF that] c by (simp add: Extend_def)
  show ?thesis
  proof (cases "pending + acked = 0")
    case True
    then have "pending + acked \<noteq> 1" by simp
    then show ?thesis unfolding ops sent [OF True] using once by blast
  next
    case False
    then have one: "pending + acked = 1" using once by linarith
    show ?thesis unfolding ops settle_busy [OF busy [OF one]] ext [OF one] using once one False by blast
  qed
qed

definition nack_api :: "unit conn_api" where
  "nack_api = failing_api\<lparr>api_supports := (\<lambda>i s. True)\<rparr>"

theorem message_settled_once_witness:
  "Nack (recording nack_api) 5 (((), []), \<lparr>qi_ID = 1, qi_Token = 2, qi_Body = [], qi_Route = [], qi_state = 2\<rparr>) =
     (Err ErrStaleHandle, (((), []), \<lparr>qi_ID = 1, qi_Token = 2, qi_Body = [], qi_Route = [], qi_state = 2\<rparr>))"
proof -
  let ?q = "\<lambda>n. \<lparr>qi_ID = 1, qi_Token = 2, qi_Body = [], qi_Route = [], qi_state = n\<rparr>"
  have a: "settle_step (?q 0, 0, 0) (?q 1, 0 + 1, 0)" by (rule begin_ok) (simp add: settle_defs)
  have b: "settle_step (?q 1, 1, 0) (?q 2, 1 - 1, 0 + 1)" by (rule end_acked) (simp_all add: settle_defs)
  have "settle_step\<^sup>*\<^sup>* (?q 0, 0, 0) (?q 2, 0, 1)" using a b by (simp add: rtranclp.rtrancl_into_rtrancl)
  from message_settled_once [OF _ this, where c = nack_api and s = "()"] show ?thesis
    by (simp add: nack_api_def failing_api_def)
qed

text \<open>Allocation for reserved messages. The memory \<open>parseReserveItems\<close> sets aside is the count the response announces,
  whatever the size of the response: four bytes make it set aside over four billion entries before the
  response is found to be truncated.\<close>

theorem reserve_capacity_unchecked:
  "reserve_capacity [255, 255, 255, 255] = Some (2 ^ 32 - 1) \<and>
   \<not> is_Ok (parseReserveItems [255, 255, 255, 255] ''queue://a/b/c'')"
proof -
  have r: "ReadU32BE [255, 255, 255, 255] 0 = Ok (4294967295, 4)"
    by (simp add: ReadU32BE_def int_eval)
  have "parseReserveItems [255, 255, 255, 255] ''queue://a/b/c'' \<noteq> Ok items" for items
    using reserve_response_iff [of "[255, 255, 255, 255]" "''queue://a/b/c''" items]
    by (cases items) (auto simp: enc_list_def u32_len_def int_eval reserve_item_bytes_def)
  then show ?thesis using r by (simp add: reserve_capacity_def is_Ok_iff)
qed

end
