(* ===== verification/Iterators.thy ===== *)
theory Iterators
  imports Conn_Api
begin

text \<open>
  Pull iterators (\<^verbatim>\<open>internal/core/iter/iter.go\<close>, \<^verbatim>\<open>internal/core/iter/slice.go\<close>). An iterator is a state with
  the four operations of the interface \<open>Iterator\<close>; its state may contain a connection. \<open>ForEach\<close> drives
  any iterator, and since \<open>Next\<close> may be true for ever it is an optional result, None standing for a
  loop that does not end. The contract \<open>pull_iterator\<close> says what sequence an iterator stands for.
\<close>

section \<open>ForEach\<close>

partial_function (option) for_each_loop ::
  "(bool, 'i) op \<Rightarrow> ('i \<Rightarrow> 'a) \<Rightarrow> ('i \<Rightarrow> go_error option) \<Rightarrow> ('a \<Rightarrow> (unit, 'u) op) \<Rightarrow> 'i \<Rightarrow> 'u \<Rightarrow>
   (unit res \<times> 'i \<times> 'u) option" where
  "for_each_loop Next Val Err_of fn it u =
     (case Next it of
        (Ok more_items, it') \<Rightarrow>
          if more_items
          then (case fn (Val it') u of
                  (Ok _, u') \<Rightarrow> for_each_loop Next Val Err_of fn it' u'
                | (Err e, u') \<Rightarrow> Some (Err e, it', u')
                | (Panic, u') \<Rightarrow> Some (Panic, it', u'))
          else Some (case Err_of it' of None \<Rightarrow> Ok () | Some e \<Rightarrow> Err e, it', u)
      | (Err e, it') \<Rightarrow> Some (Err e, it', u)
      | (Panic, it') \<Rightarrow> Some (Panic, it', u))"

text \<open>The deferred \<open>Close\<close>: its error is reported when the loop ended without one.\<close>

definition ForEach ::
  "(bool, 'i) op \<Rightarrow> ('i \<Rightarrow> 'a) \<Rightarrow> ('i \<Rightarrow> go_error option) \<Rightarrow> (unit, 'i) op \<Rightarrow> ('a \<Rightarrow> (unit, 'u) op) \<Rightarrow> 'i \<Rightarrow> 'u \<Rightarrow>
   (unit res \<times> 'i \<times> 'u) option" where
  "ForEach Next Val Err_of Close fn it u =
     map_option (\<lambda>(retErr, it', u').
       case Close it' of
         (Ok _, it'') \<Rightarrow> (retErr, it'', u')
       | (Err closeErr, it'') \<Rightarrow> (case retErr of Ok _ \<Rightarrow> Err closeErr | r \<Rightarrow> r, it'', u')
       | (Panic, it'') \<Rightarrow> (Panic, it'', u'))
     (for_each_loop Next Val Err_of fn it u)"

text \<open>What the callback sees of a list of items, up to its first error.\<close>

fun feed :: "('a \<Rightarrow> (unit, 'u) op) \<Rightarrow> 'a list \<Rightarrow> (unit, 'u) op" where
  "feed fn [] u = (Ok (), u)"
| "feed fn (x # xs) u =
     (case fn x u of (Ok _, u') \<Rightarrow> feed fn xs u' | (Err e, u') \<Rightarrow> (Err e, u') | (Panic, u') \<Rightarrow> (Panic, u'))"

text \<open>How the loop ends: with the callback's error, else with the error the sequence ends with.\<close>

definition loop_end :: "go_error option \<Rightarrow> unit res \<Rightarrow> unit res" where
  "loop_end f r = (case r of Ok _ \<Rightarrow> (case f of None \<Rightarrow> Ok () | Some e \<Rightarrow> Err e) | _ \<Rightarrow> r)"

section \<open>The contract of an iterator\<close>

text \<open>\<open>yields it xs e\<close>: from the state \<open>it\<close> the iterator gives the items \<open>xs\<close> and ends with the error \<open>e\<close>, if any.\<close>

locale pull_iterator =
  fixes nxt :: "(bool, 'i) op" and val :: "'i \<Rightarrow> 'a" and err :: "'i \<Rightarrow> go_error option"
    and yields :: "'i \<Rightarrow> 'a list \<Rightarrow> go_error option \<Rightarrow> bool"
  assumes next_item: "yields it (x # xs) e \<Longrightarrow> \<exists>it'. nxt it = (Ok True, it') \<and> val it' = x \<and> yields it' xs e"
    and next_end: "yields it [] e \<Longrightarrow> \<exists>it'. nxt it = (Ok False, it') \<and> err it' = e"
begin

lemma loop_feeds:
  "yields it xs e \<Longrightarrow> \<exists>it'. for_each_loop nxt val err fn it u =
     Some (loop_end e (fst (feed fn xs u)), it', snd (feed fn xs u))"
proof (induction xs arbitrary: it u)
  case Nil
  then obtain it' where "nxt it = (Ok False, it')" "err it' = e" using next_end by metis
  then show ?case by (auto simp: for_each_loop.simps [of nxt] loop_end_def)
next
  case (Cons x xs)
  then obtain it' where n: "nxt it = (Ok True, it')" "val it' = x" "yields it' xs e" using next_item by metis
  obtain r u' where f: "fn x u = (r, u')" by (cases "fn x u")
  show ?case
  proof (cases r)
    case (Ok y)
    then have "for_each_loop nxt val err fn it u = for_each_loop nxt val err fn it' u'"
      "feed fn (x # xs) u = feed fn xs u'"
      using n f by (simp_all add: for_each_loop.simps [of nxt val err fn it u])
    then show ?thesis using Cons.IH [OF n(3), of u'] by simp
  qed (use n f in \<open>auto simp: for_each_loop.simps [of nxt val err fn it u] loop_end_def\<close>)
qed

lemma for_each_feeds:
  assumes "yields it xs e" "\<And>it. \<exists>it'. close it = (Ok (), it')"
  shows "\<exists>it'. ForEach nxt val err close fn it u = Some (loop_end e (fst (feed fn xs u)), it', snd (feed fn xs u))"
proof -
  obtain it' where l: "for_each_loop nxt val err fn it u = Some (loop_end e (fst (feed fn xs u)), it', snd (feed fn xs u))"
    using loop_feeds [OF assms(1), of fn u] by auto
  obtain it'' where "close it' = (Ok (), it'')" using assms(2) [of it'] by auto
  then show ?thesis by (simp add: ForEach_def l)
qed

end

section \<open>Slice iterators\<close>

record 'a SliceIterator =
  si_items :: "'a list"
  si_index :: int

definition NewSliceIterator :: "'a list \<Rightarrow> 'a SliceIterator" where
  "NewSliceIterator items = \<lparr>si_items = items, si_index = -1\<rparr>"

definition Slice_Next :: "(bool, 'a SliceIterator) op" where
  "Slice_Next it =
     (let it = it\<lparr>si_index := si_index it + 1\<rparr> in (Ok (si_index it < int (length (si_items it))), it))"

definition Slice_Value :: "'a \<Rightarrow> 'a SliceIterator \<Rightarrow> 'a" where
  "Slice_Value zero it =
     (if si_index it < 0 \<or> si_index it \<ge> int (length (si_items it)) then zero else si_items it ! nat (si_index it))"

definition Slice_Err :: "'a SliceIterator \<Rightarrow> go_error option" where
  "Slice_Err it = None"

definition Slice_Close :: "(unit, 'a SliceIterator) op" where
  "Slice_Close it = (Ok (), it)"

definition slice_yields :: "'a SliceIterator \<Rightarrow> 'a list \<Rightarrow> go_error option \<Rightarrow> bool" where
  "slice_yields it xs e \<longleftrightarrow> -1 \<le> si_index it \<and> xs = drop (nat (si_index it + 1)) (si_items it) \<and> e = None"

interpretation slice_it: pull_iterator Slice_Next "Slice_Value zero" Slice_Err slice_yields
proof unfold_locales
  fix it :: "'a SliceIterator" and x xs e
  assume h: "slice_yields it (x # xs) e"
  let ?n = "nat (si_index it + 1)"
  have i: "- 1 \<le> si_index it" and d: "drop ?n (si_items it) = x # xs" and e: "e = None"
    using h by (auto simp: slice_yields_def)
  have l: "?n < length (si_items it)" using d by (metis drop_eq_Nil list.distinct(1) not_le)
  then have "si_items it ! ?n = x" "drop (Suc ?n) (si_items it) = xs"
    using d by (metis Cons_nth_drop_Suc list.inject)+
  moreover have "nat (2 + si_index it) = Suc ?n" using i by simp
  ultimately show "\<exists>it'. Slice_Next it = (Ok True, it') \<and> Slice_Value zero it' = x \<and> slice_yields it' xs e"
    using i l e by (simp add: Slice_Next_def Slice_Value_def slice_yields_def Let_def add.commute)
next
  fix it :: "'a SliceIterator" and e
  assume "slice_yields it [] e"
  then show "\<exists>it'. Slice_Next it = (Ok False, it') \<and> Slice_Err it' = e"
    by (auto simp: slice_yields_def Slice_Next_def Slice_Err_def Let_def)
qed

text \<open>\<open>ForEach\<close> over a slice hands every item to the callback, in order, up to its first error.\<close>

lemma for_each_slice:
  "\<exists>it'. ForEach Slice_Next (Slice_Value zero) Slice_Err Slice_Close fn (NewSliceIterator xs) u =
     Some (fst (feed fn xs u), it', snd (feed fn xs u))"
proof -
  have "slice_yields (NewSliceIterator xs) xs None" by (simp add: slice_yields_def NewSliceIterator_def)
  moreover have "loop_end None r = r" for r by (simp add: loop_end_def split: res.split)
  ultimately show ?thesis
    using slice_it.for_each_feeds [of "NewSliceIterator xs" xs None Slice_Close zero fn u] by (simp add: Slice_Close_def)
qed

end
