(* ===== verification/Lease_Domain.thy ===== *)
theory Lease_Domain
  imports Iterators Routes
begin

text \<open>
  The lease domain (\<^verbatim>\<open>internal/domains/lease/protocol.go\<close>, \<^verbatim>\<open>internal/domains/lease/lease.go\<close>): its requests and
  their layouts, the parsers of QUERY and LIST responses, the handle of a lease, change subscriptions, and the iterator that pages through LIST.
\<close>

section \<open>Errors\<close>

definition ErrLeaseHeld :: go_error where "ErrLeaseHeld = Sentinel ''lease held''"
definition ErrLeaseQueued :: go_error where "ErrLeaseQueued = Sentinel ''lease queued''"
definition ErrLeaseAlreadyQueued :: go_error where
  "ErrLeaseAlreadyQueued = Sentinel ''lease acquisition already queued''"
definition ErrInvalidFence :: go_error where "ErrInvalidFence = Sentinel ''invalid fencing token''"
definition ErrLeaseExpired :: go_error where "ErrLeaseExpired = Sentinel ''lease expired''"
definition ErrLeaseNotFound :: go_error where "ErrLeaseNotFound = Sentinel ''lease not found''"
definition ErrInvalidListCursor :: go_error where "ErrInvalidListCursor = Sentinel ''invalid list cursor''"
definition ErrInvalidListPattern :: go_error where "ErrInvalidListPattern = Sentinel ''invalid list pattern''"

lemmas lease_errors = ErrLeaseHeld_def ErrLeaseQueued_def ErrLeaseAlreadyQueued_def ErrInvalidFence_def
  ErrLeaseExpired_def ErrLeaseNotFound_def ErrInvalidListCursor_def ErrInvalidListPattern_def

definition mapLeaseError :: "go_error \<Rightarrow> go_error" where
  "mapLeaseError err =
     (case errors_As_domain err of
        Some d \<Rightarrow>
          (let c = de_code d in
           if c = LeaseHeld then ErrLeaseHeld
           else if c = LeaseInvalidFence then ErrInvalidFence
           else if c = LeaseExpired then ErrLeaseExpired
           else if c = LeaseNotFound then ErrLeaseNotFound
           else if c = LeaseInvalidListCursor then ErrInvalidListCursor
           else if c = LeaseInvalidListPattern then ErrInvalidListPattern
           else err)
      | None \<Rightarrow>
          (let l = strings_ToLower (Error err) in
           if strings_Contains l ''held'' then ErrLeaseHeld
           else if strings_Contains l ''invalid'' \<and> (strings_Contains l ''fence'' \<or> strings_Contains l ''token'')
           then ErrInvalidFence
           else if strings_Contains l ''expired'' then ErrLeaseExpired
           else if strings_Contains l ''not found'' then ErrLeaseNotFound
           else err))"

definition isLeaseHeldError :: "go_error \<Rightarrow> bool" where
  "isLeaseHeldError err =
     (case errors_As_domain err of
        Some d \<Rightarrow> de_code d = LeaseHeld
      | None \<Rightarrow> strings_Contains (Error err) ''held'' \<or> strings_Contains (Error err) ''already'')"

section \<open>Requests\<close>

definition leaseAcquirePayloadWriter :: "string \<Rightarrow> string \<Rightarrow> u64 \<Rightarrow> u32 \<Rightarrow> writer" where
  "leaseAcquirePayloadWriter route ownerID ttlSeconds waitSeconds =
     write_seq [enc_WriteRoute route, enc_WriteRoute ownerID, enc_WriteU64 ttlSeconds, enc_WriteU32 waitSeconds]"

definition encodeLeaseAcquire :: "string \<Rightarrow> string \<Rightarrow> u64 \<Rightarrow> u32 \<Rightarrow> bytes" where
  "encodeLeaseAcquire route ownerID ttlSeconds waitSeconds = EncodeWithBuffer
     (write_seq [enc_WriteRoute route, enc_WriteRoute ownerID, enc_WriteU64 ttlSeconds, enc_WriteU32 waitSeconds])"

definition leaseRenewPayloadWriter :: "string \<Rightarrow> string \<Rightarrow> u64 \<Rightarrow> u64 \<Rightarrow> writer" where
  "leaseRenewPayloadWriter resource ownerID fenceToken ttlSeconds =
     write_seq [enc_WriteRoute resource, enc_WriteRoute ownerID, enc_WriteU64 fenceToken, enc_WriteU64 ttlSeconds]"

definition encodeLeaseRenew :: "string \<Rightarrow> string \<Rightarrow> u64 \<Rightarrow> u64 \<Rightarrow> bytes" where
  "encodeLeaseRenew resource ownerID fenceToken ttlSeconds = EncodeWithBuffer
     (write_seq [enc_WriteRoute resource, enc_WriteRoute ownerID, enc_WriteU64 fenceToken, enc_WriteU64 ttlSeconds])"

definition leaseReleasePayloadWriter :: "string \<Rightarrow> string \<Rightarrow> u64 \<Rightarrow> writer" where
  "leaseReleasePayloadWriter resource ownerID fenceToken =
     write_seq [enc_WriteRoute resource, enc_WriteRoute ownerID, enc_WriteU64 fenceToken]"

definition encodeLeaseRelease :: "string \<Rightarrow> string \<Rightarrow> u64 \<Rightarrow> bytes" where
  "encodeLeaseRelease resource ownerID fenceToken = EncodeWithBuffer
     (write_seq [enc_WriteRoute resource, enc_WriteRoute ownerID, enc_WriteU64 fenceToken])"

definition leaseQueryPayloadWriter :: "string \<Rightarrow> writer" where
  "leaseQueryPayloadWriter route = enc_WriteRoute route"

definition encodeLeaseQuery :: "string \<Rightarrow> bytes" where
  "encodeLeaseQuery route = EncodeWithBuffer (enc_WriteRoute route)"

definition lease_subscribePayloadWriter :: "string \<Rightarrow> writer" where
  "lease_subscribePayloadWriter route = enc_WriteRoute route"

definition lease_unsubscribePayloadWriter :: "string \<Rightarrow> writer" where
  "lease_unsubscribePayloadWriter route = enc_WriteRoute route"

fun adjacent_doubles :: "string list \<Rightarrow> bool" where
  "adjacent_doubles (a # b # segments) \<longleftrightarrow> (a = ''**'' \<and> b = ''**'') \<or> adjacent_doubles (b # segments)"
| "adjacent_doubles _ \<longleftrightarrow> False"

definition validateLeaseSubscribeSelector :: "string \<Rightarrow> unit res" where
  "validateLeaseSubscribeSelector route =
     bind_res (ValidateRegistrationPattern route ''lease'' 3) (\<lambda>_.
       if adjacent_doubles (strings_Split (CHR ''/'') (strings_TrimPrefix route ''lease://''))
       then Err (Errorf_s ErrInvalidRouteShape ''adjacent ** segments are not allowed'') else Ok ())"

record leaseListCursor =
  lc_snapshotID :: u64
  lc_offset :: u32

definition leaseListPayloadWriter :: "string \<Rightarrow> leaseListCursor option \<Rightarrow> u32 \<Rightarrow> writer" where
  "leaseListPayloadWriter pat cursor limit = write_seq
     [enc_WriteRoute pat,
      (case cursor of
         None \<Rightarrow> WriteByte 0
       | Some cur \<Rightarrow> write_seq [WriteByte 1, enc_WriteU64 (lc_snapshotID cur), enc_WriteU32 (lc_offset cur)]),
      enc_WriteU32 limit]"

definition encodeLeaseList :: "string \<Rightarrow> leaseListCursor option \<Rightarrow> u32 \<Rightarrow> bytes" where
  "encodeLeaseList pat cursor limit = EncodeWithBuffer (leaseListPayloadWriter pat cursor limit)"

section \<open>Responses\<close>

record LeaseInfo =
  li_Held :: bool
  li_OwnerID :: string
  li_TTLRemainingSecs :: u64
  li_PendingWaiters :: u32

definition parseLeaseQueryResponse :: "bytes \<Rightarrow> LeaseInfo res" where
  "parseLeaseQueryResponse remaining =
     (let n = length remaining in
      if n < 1 then Err (ErrNew (''QUERY response too short: got '' @ dec n @ '' bytes''))
      else bind_res (index remaining 0) (\<lambda>hasHolder.
        if hasHolder = 0 then
          if n \<noteq> 5 then Err (ErrNew (''QUERY free response malformed: expected 5 bytes, got '' @ dec n))
          else bind_res (bind_res (slice remaining 1 5) Uint32) (\<lambda>waiters.
            Ok \<lparr>li_Held = False, li_OwnerID = [], li_TTLRemainingSecs = 0, li_PendingWaiters = waiters\<rparr>)
        else if hasHolder \<noteq> 1
        then Err (ErrNew (''QUERY response invalid has_holder flag: '' @ dec (unat hasHolder)))
        else let offset = 1 in
          if offset + 4 > n then Err (ErrNew ''QUERY held response missing owner_id length'')
          else bind_res (bind_res (slice remaining offset (offset + 4)) Uint32) (\<lambda>ownerIDLen.
          let offset = offset + 4 in
          if offset + unat ownerIDLen > n then Err (ErrNew ''QUERY held response truncated owner_id'')
          else bind_res (slice remaining offset (offset + unat ownerIDLen)) (\<lambda>owner.
          let offset = offset + unat ownerIDLen in
          if offset + 8 > n then Err (ErrNew ''QUERY held response missing ttl_remaining_secs'')
          else bind_res (bind_res (slice remaining offset (offset + 8)) Uint64) (\<lambda>ttl.
          let offset = offset + 8 in
          if offset + 4 > n then Err (ErrNew ''QUERY held response missing pending_waiters'')
          else bind_res (bind_res (slice remaining offset (offset + 4)) Uint32) (\<lambda>waiters.
          let offset = offset + 4 in
          if offset \<noteq> n then Err (ErrNew (''QUERY held response has trailing bytes: '' @ dec (n - offset)))
          else Ok \<lparr>li_Held = True, li_OwnerID = string_of_bytes owner, li_TTLRemainingSecs = ttl,
                   li_PendingWaiters = waiters\<rparr>))))))"

record LeaseEntry =
  Le_Route :: string
  Le_OwnerID :: string
  Le_HolderIncarnation :: u64
  Le_AcquiredAt :: string
  Le_ExpiresInSecs :: u64
  Le_Renewals :: u32

definition minLeaseListEntryWireSize :: nat where
  "minLeaseListEntryWireSize = 4 + 4 + 8 + 4 + 8 + 4"

definition leaseListPreallocCapacity :: "u32 \<Rightarrow> int \<Rightarrow> nat" where
  "leaseListPreallocCapacity itemCount remainingBytes =
     (if remainingBytes \<le> 0 then 0
      else let maxPlausible = nat remainingBytes div minLeaseListEntryWireSize
           in if unat itemCount < maxPlausible then unat itemCount else maxPlausible)"

fun list_items :: "nat \<Rightarrow> nat \<Rightarrow> bytes \<Rightarrow> nat \<Rightarrow> (LeaseEntry list \<times> nat) res" where
  "list_items i 0 remaining offset = Ok ([], offset)"
| "list_items i (Suc left) remaining offset =
     bind_res (map_err (Errorf1 (''LIST response invalid route at item '' @ dec i)) (ReadString remaining offset))
       (\<lambda>(route, offset).
     bind_res (map_err (Errorf1 (''LIST response invalid owner_id at item '' @ dec i)) (ReadString remaining offset))
       (\<lambda>(ownerID, offset).
     bind_res (map_err (Errorf1 (''LIST response invalid holder_incarnation at item '' @ dec i)) (ReadU64BE remaining offset))
       (\<lambda>(holderIncarnation, offset).
     bind_res (map_err (Errorf1 (''LIST response invalid acquired_at at item '' @ dec i)) (ReadString remaining offset))
       (\<lambda>(acquiredAt, offset).
     bind_res (map_err (Errorf1 (''LIST response invalid expires_in_secs at item '' @ dec i)) (ReadU64BE remaining offset))
       (\<lambda>(expiresInSecs, offset).
     bind_res (map_err (Errorf1 (''LIST response invalid renewals at item '' @ dec i)) (ReadU32BE remaining offset))
       (\<lambda>(renewals, offset).
     bind_res (list_items (i + 1) left remaining offset) (\<lambda>(items, offset).
       Ok (\<lparr>Le_Route = route, Le_OwnerID = ownerID, Le_HolderIncarnation = holderIncarnation,
            Le_AcquiredAt = acquiredAt, Le_ExpiresInSecs = expiresInSecs, Le_Renewals = renewals\<rparr> # items, offset))))))))"

definition parse_next :: "bytes \<Rightarrow> LeaseEntry list \<Rightarrow> nat \<Rightarrow> (LeaseEntry list \<times> leaseListCursor option) res" where
  "parse_next remaining items offset =
     bind_res (map_err (Errorf1 ''LIST response missing has_next'') (ReadU8 remaining offset)) (\<lambda>(hasNext, offset).
       if hasNext = 0 then
         if offset \<noteq> length remaining
         then Err (ErrNew (''LIST response has trailing bytes: '' @ dec (length remaining - offset)))
         else Ok (items, None)
       else if hasNext = 1 then
         bind_res (map_err (Errorf1 ''LIST response missing cursor snapshot_id'') (ReadU64BE remaining offset))
           (\<lambda>(snapshotID, offset).
         bind_res (map_err (Errorf1 ''LIST response missing cursor offset'') (ReadU32BE remaining offset))
           (\<lambda>(cursorOffset, offset).
           if offset \<noteq> length remaining
           then Err (ErrNew (''LIST response has trailing bytes: '' @ dec (length remaining - offset)))
           else Ok (items, Some \<lparr>lc_snapshotID = snapshotID, lc_offset = cursorOffset\<rparr>)))
       else Err (ErrNew (''LIST response invalid has_next flag: '' @ dec (unat hasNext))))"

definition parseLeaseListResponse :: "bytes \<Rightarrow> (LeaseEntry list \<times> leaseListCursor option) res" where
  "parseLeaseListResponse remaining =
     bind_res (map_err (Errorf1 ''LIST response missing item_count'') (ReadU32BE remaining 0)) (\<lambda>(itemCount, offset).
     bind_res (list_items 0 (unat itemCount) remaining offset) (\<lambda>(items, offset). parse_next remaining items offset))"

text \<open>The capacity \<open>parseLeaseListResponse\<close> sets aside for the items before it reads them.\<close>

definition list_capacity :: "bytes \<Rightarrow> nat option" where
  "list_capacity remaining =
     (case ReadU32BE remaining 0 of
        Ok (itemCount, offset) \<Rightarrow>
          Some (leaseListPreallocCapacity itemCount (int (length remaining) - int offset))
      | _ \<Rightarrow> None)"

definition tokenToU64 :: "bytes \<Rightarrow> u64 res" where
  "tokenToU64 token =
     (if length token \<ge> 8 then bind_res (slice token 0 8) Uint64
      else Uint64 (replicate (8 - length token) 0 @ token))"

section \<open>The handle of a lease\<close>

text \<open>\<open>now\<close> is the clock reading in seconds; \<open>opMu\<close> makes the operations of a handle exclusive.\<close>

record Lease =
  l_Token :: bytes
  l_ExpiresAt :: u64
  l_route :: string
  l_ownerID :: string
  l_closed :: bool

definition extendWithToken :: "'s conn_api \<Rightarrow> u64 \<Rightarrow> bytes \<Rightarrow> u64 \<Rightarrow> (u64, 's \<times> Lease) op" where
  "extendWithToken c now token ttlSecs = (\<lambda>(s, l).
     let shut = l\<lparr>l_closed := True\<rparr> in
     if l_closed l then (Err ErrStaleHandle, (s, l))
     else case api_live c s of
       Some err \<Rightarrow> (Err err, (s, shut))
     | None \<Rightarrow>
         (case tokenToU64 token of
            Ok fence \<Rightarrow>
              (case send_parse c ParseStandardResponse mapLeaseError ''EXTEND'' '' failed: unexpected status''
                      MessageTypeLeaseRenew (leaseRenewPayloadWriter (l_route l) (l_ownerID l) fence ttlSecs) s of
                 (Ok remaining, s') \<Rightarrow>
                   if length remaining < 8
                   then (Err (ErrNew ''EXTEND failed: response missing fencing token''), (s', shut))
                   else (case bind_res (slice remaining 0 8) Uint64 of
                           Ok newToken \<Rightarrow>
                             (Ok (now + ttlSecs), (s', l\<lparr>l_Token := PutUint64 newToken, l_ExpiresAt := now + ttlSecs\<rparr>))
                         | Err e \<Rightarrow> (Err e, (s', l)) | Panic \<Rightarrow> (Panic, (s', l)))
               | (Err e, s') \<Rightarrow> (Err e, (s', shut))
               | (Panic, s') \<Rightarrow> (Panic, (s', l)))
          | Err e \<Rightarrow> (Err e, (s, l)) | Panic \<Rightarrow> (Panic, (s, l))))"

definition releaseWithToken :: "'s conn_api \<Rightarrow> bytes \<Rightarrow> (unit, 's \<times> Lease) op" where
  "releaseWithToken c token = (\<lambda>(s, l).
     if l_closed l then (Err ErrStaleHandle, (s, l))
     else let l = l\<lparr>l_closed := True\<rparr> in
       case api_live c s of
         Some err \<Rightarrow> (Err err, (s, l))
       | None \<Rightarrow>
           on_conn
             (bind_op (return_op (tokenToU64 token)) (\<lambda>fence.
              bind_op (send_parse c ParseStandardResponse mapLeaseError ''RELEASE'' '' failed: unexpected status''
                         MessageTypeLeaseRelease (leaseReleasePayloadWriter (l_route l) (l_ownerID l) fence))
                (\<lambda>_. return_op (Ok ())))) (s, l))"

definition Lease_Extend :: "'s conn_api \<Rightarrow> u64 \<Rightarrow> u64 \<Rightarrow> (u64, 's \<times> Lease) op" where
  "Lease_Extend c now ttlSecs = (\<lambda>(s, l). extendWithToken c now (l_Token l) ttlSecs (s, l))"

definition Lease_ExtendWithToken :: "'s conn_api \<Rightarrow> u64 \<Rightarrow> bytes \<Rightarrow> u64 \<Rightarrow> (u64, 's \<times> Lease) op" where
  "Lease_ExtendWithToken c now token ttlSecs = extendWithToken c now token ttlSecs"

definition Lease_Release :: "'s conn_api \<Rightarrow> (unit, 's \<times> Lease) op" where
  "Lease_Release c = (\<lambda>(s, l). releaseWithToken c (l_Token l) (s, l))"

definition Lease_ReleaseWithToken :: "'s conn_api \<Rightarrow> bytes \<Rightarrow> (unit, 's \<times> Lease) op" where
  "Lease_ReleaseWithToken c token = releaseWithToken c token"

section \<open>Query\<close>

definition query_attempt :: "'s conn_api \<Rightarrow> string \<Rightarrow> (LeaseInfo, 's) op" where
  "query_attempt c route =
     bind_op (send_parse c ParseStandardResponse mapLeaseError ''QUERY'' '' failed: unexpected status''
                MessageTypeLeaseQuery (leaseQueryPayloadWriter route))
       (\<lambda>remaining. return_op (map_err (Errorf1 ''QUERY failed'') (parseLeaseQueryResponse remaining)))"

definition Query :: "'s conn_api \<Rightarrow> string \<Rightarrow> (LeaseInfo, 's) op" where
  "Query c route =
     bind_op (return_op (map_err (Errorf1 ''invalid route'') (ValidateFixedRoute route ''lease'' 3))) (\<lambda>_.
       RunWithRetry c (query_attempt c route) (\<lambda>err. IsTransientRetryable err \<or> errors_Is err ErrLeaseHeld))"

section \<open>Listing\<close>

record leaseListIterator =
  lli_pattern :: string
  lli_limit :: u32
  lli_items :: "LeaseEntry list"
  lli_index :: int
  lli_cursor :: "leaseListCursor option"
  lli_started :: bool
  lli_done :: bool
  lli_err :: "go_error option"

definition Lease_List :: "string \<Rightarrow> u32 \<Rightarrow> leaseListIterator res" where
  "Lease_List pat limit =
     bind_res (map_err (Errorf1 ''invalid pattern'') (validateLeaseSubscribeSelector pat)) (\<lambda>_.
       Ok \<lparr>lli_pattern = pat, lli_limit = limit, lli_items = [], lli_index = -1, lli_cursor = None,
           lli_started = False, lli_done = False, lli_err = None\<rparr>)"

definition list_page ::
  "'s conn_api \<Rightarrow> string \<Rightarrow> u32 \<Rightarrow> leaseListCursor option \<Rightarrow> (LeaseEntry list \<times> leaseListCursor option, 's) op" where
  "list_page c pat limit cursor =
     bind_op (send_parse c ParseStandardResponse mapLeaseError ''LIST'' '' failed: unexpected status''
                MessageTypeLeaseList (leaseListPayloadWriter pat cursor limit)) (\<lambda>remaining.
     return_op (bind_res (map_err (Errorf1 ''LIST failed'') (parseLeaseListResponse remaining)) (\<lambda>(items, nxt).
       if items = [] \<and> nxt \<noteq> None then Err (ErrNew ''LIST returned an empty page with more results pending'')
       else Ok (items, nxt))))"

definition fetchPage :: "'s conn_api \<Rightarrow> (unit, 's \<times> leaseListIterator) op" where
  "fetchPage c = (\<lambda>(s, it).
     case list_page c (lli_pattern it) (lli_limit it) (lli_cursor it) s of
       (Ok (items, nxt), s') \<Rightarrow>
         (Ok (), (s', it\<lparr>lli_items := items, lli_index := -1, lli_cursor := nxt, lli_started := True,
                       lli_done := (nxt = None)\<rparr>))
     | (Err e, s') \<Rightarrow> (Err e, (s', it))
     | (Panic, s') \<Rightarrow> (Panic, (s', it)))"

lemma list_page_nonempty: "list_page c pat limit cursor s = (Ok (items, nxt), s') \<Longrightarrow> items \<noteq> [] \<or> nxt = None"
  by (auto simp: list_page_def bind_op_def return_op_def bind_res_Ok_iff split: prod.splits res.splits if_splits)

lemma fetchPage_Ok:
  "fetchPage c st = (Ok u, (s', it')) \<Longrightarrow>
   lli_index it' = -1 \<and> lli_started it' \<and> lli_done it' = (lli_cursor it' = None) \<and> (lli_items it' \<noteq> [] \<or> lli_done it')"
  using list_page_nonempty by (fastforce simp: fetchPage_def split: prod.splits res.splits)

text \<open>The loop of \<open>Next\<close>: a fetched page either has an item or is the last.\<close>

function next_loop :: "'s conn_api \<Rightarrow> (bool, 's \<times> leaseListIterator) op" where
  "next_loop c (s, it) =
     (if lli_index it + 1 < int (length (lli_items it)) then (Ok True, (s, it\<lparr>lli_index := lli_index it + 1\<rparr>))
      else if lli_started it \<and> lli_done it then (Ok False, (s, it))
      else case fetchPage c (s, it) of
             (Ok _, st') \<Rightarrow> next_loop c st'
           | (Err e, (s', it')) \<Rightarrow> (Ok False, (s', it'\<lparr>lli_err := Some e\<rparr>))
           | (Panic, st') \<Rightarrow> (Panic, st'))"
  by pat_completeness auto

termination next_loop
  by (relation "measure (\<lambda>(c, s, it).
        if lli_index it + 1 < int (length (lli_items it)) \<or> lli_started it \<and> lli_done it then 0 else 1 :: nat)")
    (auto dest!: fetchPage_Ok [OF sym])

declare next_loop.simps [simp del]

definition lli_Next :: "'s conn_api \<Rightarrow> (bool, 's \<times> leaseListIterator) op" where
  "lli_Next c = (\<lambda>(s, it). if lli_err it \<noteq> None then (Ok False, (s, it)) else next_loop c (s, it))"

definition zero_entry :: LeaseEntry where
  "zero_entry = \<lparr>Le_Route = [], Le_OwnerID = [], Le_HolderIncarnation = 0, Le_AcquiredAt = [], Le_ExpiresInSecs = 0,
     Le_Renewals = 0\<rparr>"

definition lli_Value :: "'s \<times> leaseListIterator \<Rightarrow> LeaseEntry" where
  "lli_Value = (\<lambda>(s, it).
     if lli_index it < 0 \<or> lli_index it \<ge> int (length (lli_items it)) then zero_entry
     else lli_items it ! nat (lli_index it))"

definition lli_Err :: "'s \<times> leaseListIterator \<Rightarrow> go_error option" where
  "lli_Err = (\<lambda>(s, it). lli_err it)"

definition lli_Close :: "(unit, 's \<times> leaseListIterator) op" where
  "lli_Close st = (Ok (), st)"

section \<open>Change subscriptions\<close>

text \<open>
  Subscriptions are objects, numbered; \<open>ls_objs\<close> is their store, \<open>ls_map\<close> the client's map from broker
  identifiers to them, and \<open>ls_completed\<close> the objects whose completion was closed. Restoring changes an
  object's identifier in place. The map's values are visited in an order Go does not fix, so a restore
  takes the order as an argument.
\<close>

record lease_subscription =
  sub_subID :: u64
  sub_route :: string

record lease_subs =
  ls_objs :: "nat \<rightharpoonup> lease_subscription"
  ls_map :: "u64 \<rightharpoonup> nat"
  ls_completed :: "nat list"
  ls_hooks :: "u64 list"
  ls_nextHookID :: u64

definition restoreSubscribe :: "'s conn_api \<Rightarrow> string \<Rightarrow> (u64, 's) op" where
  "restoreSubscribe c route =
     bind_op (send_parse c ParseStandardResponse mapLeaseError ''SUBSCRIBE'' '' failed: unexpected status''
                MessageTypeLeaseSubscribe (lease_subscribePayloadWriter route)) (\<lambda>remaining s.
       if length remaining < 8
       then (Err (ErrNew (''SUBSCRIBE response too short for subscription_id: got '' @ dec (length remaining) @ '' bytes'')), s)
       else case map_err (Errorf1 ''parse subscription_id'') (ReadU64BE remaining 0) of
              Ok (subID, _) \<Rightarrow> (Ok subID, api_addSubs c 1 s) | Err e \<Rightarrow> (Err e, s) | Panic \<Rightarrow> (Panic, s))"

text \<open>\<open>n\<close> is the number of the object the call allocates.\<close>

definition lease_subscribe :: "'s conn_api \<Rightarrow> nat \<Rightarrow> string \<Rightarrow> (nat, 's \<times> lease_subs) op" where
  "lease_subscribe c n route =
     bind_op (on_conn (restoreSubscribe c route)) (\<lambda>subID (s, ls).
       (Ok n, (s, ls\<lparr>ls_objs := (ls_objs ls)(n \<mapsto> \<lparr>sub_subID = subID, sub_route = route\<rparr>),
                     ls_map := (ls_map ls)(subID \<mapsto> n)\<rparr>)))"

definition Lease_Subscribe :: "'s conn_api \<Rightarrow> nat \<Rightarrow> string \<Rightarrow> (nat, 's \<times> lease_subs) op" where
  "Lease_Subscribe c n route =
     bind_op (return_op (map_err (Errorf1 ''invalid route'') (validateLeaseSubscribeSelector route))) (\<lambda>_.
       lease_subscribe c n route)"

text \<open>A best-effort UNSUBSCRIBE: what the broker answers is ignored.\<close>

definition drop_wire :: "'s conn_api \<Rightarrow> string \<Rightarrow> 's \<Rightarrow> 's" where
  "drop_wire c route s =
     snd (api_send c MessageTypeLeaseUnsubscribe (lease_unsubscribePayloadWriter route) (api_addSubs c (-1) s))"

definition lease_unsubscribe :: "'s conn_api \<Rightarrow> nat \<Rightarrow> 's \<times> lease_subs \<Rightarrow> 's \<times> lease_subs" where
  "lease_unsubscribe c n = (\<lambda>(s, ls).
     case ls_objs ls n of
       None \<Rightarrow> (s, ls)
     | Some sub \<Rightarrow>
         if ls_map ls (sub_subID sub) = None then (s, ls)
         else (drop_wire c (sub_route sub) s,
               ls\<lparr>ls_map := (ls_map ls)(sub_subID sub := None),
                  ls_completed := (if n \<in> set (ls_completed ls) then ls_completed ls else ls_completed ls @ [n])\<rparr>))"

fun lease_restore_loop ::
  "'s conn_api \<Rightarrow> (nat \<times> string) list \<Rightarrow> (nat \<times> string \<times> u64) list \<Rightarrow> ((nat \<times> string \<times> u64) list, 's) op" where
  "lease_restore_loop c [] restored s = (Ok restored, s)"
| "lease_restore_loop c ((n, route) # snapshot) restored s =
     (case restoreSubscribe c route s of
        (Ok newSubID, s') \<Rightarrow> lease_restore_loop c snapshot (restored @ [(n, route, newSubID)]) s'
      | (Err e, s') \<Rightarrow> (Err e, fold (\<lambda>(_, r, _) s. drop_wire c r s) restored s')
      | (Panic, s') \<Rightarrow> (Panic, s'))"

definition lease_restore_commit :: "(nat \<times> string \<times> u64) list \<Rightarrow> lease_subs \<Rightarrow> lease_subs" where
  "lease_restore_commit restored ls =
     ls\<lparr>ls_objs := fold (\<lambda>(n, _, subID) objs. objs(n := map_option (\<lambda>sub. sub\<lparr>sub_subID := subID\<rparr>) (objs n))) restored (ls_objs ls),
        ls_map := fold (\<lambda>(n, _, subID) m. m(subID \<mapsto> n)) restored Map.empty\<rparr>"

text \<open>The restore with nothing else running; the hooks it calls are those registered when it commits.\<close>

definition lease_snapshot :: "nat list \<Rightarrow> lease_subs \<Rightarrow> (nat \<times> string) list" where
  "lease_snapshot order ls = map (\<lambda>n. (n, sub_route (the (ls_objs ls n)))) order"

definition Lease_RestoreSubscriptions ::
  "'s conn_api \<Rightarrow> nat list \<Rightarrow> (u64 list, 's \<times> lease_subs) op" where
  "Lease_RestoreSubscriptions c order = (\<lambda>(s, ls).
     case lease_restore_loop c (lease_snapshot order ls) [] s of
       (Ok restored, s') \<Rightarrow> (Ok (ls_hooks ls), (s', lease_restore_commit restored ls))
     | (Err e, s') \<Rightarrow> (Err e, (s', ls))
     | (Panic, s') \<Rightarrow> (Panic, (s', ls)))"

definition registerReconnectHook :: "lease_subs \<Rightarrow> u64 \<times> lease_subs" where
  "registerReconnectHook ls =
     (let hook = ls_nextHookID ls
      in (hook, ls\<lparr>ls_nextHookID := hook + 1,
                   ls_hooks := (if hook \<in> set (ls_hooks ls) then ls_hooks ls else ls_hooks ls @ [hook])\<rparr>))"

definition unregisterReconnectHook :: "u64 \<Rightarrow> lease_subs \<Rightarrow> lease_subs" where
  "unregisterReconnectHook hook ls = ls\<lparr>ls_hooks := removeAll hook (ls_hooks ls)\<rparr>"

section \<open>Documented layouts\<close>

definition lease_acquire_layout :: "bytes \<Rightarrow> nat \<Rightarrow> ((string \<times> string \<times> u64 \<times> u32) \<times> nat) res" where
  "lease_acquire_layout = rd_pair ReadString (rd_pair ReadString (rd_pair ReadU64BE ReadU32BE))"

definition lease_renew_layout :: "bytes \<Rightarrow> nat \<Rightarrow> ((string \<times> string \<times> u64 \<times> u64) \<times> nat) res" where
  "lease_renew_layout = rd_pair ReadString (rd_pair ReadString (rd_pair ReadU64BE ReadU64BE))"

definition lease_release_layout :: "bytes \<Rightarrow> nat \<Rightarrow> ((string \<times> string \<times> u64) \<times> nat) res" where
  "lease_release_layout = rd_pair ReadString (rd_pair ReadString ReadU64BE)"

definition lease_list_layout :: "bytes \<Rightarrow> nat \<Rightarrow> ((string \<times> (u64 \<times> u32) option \<times> u32) \<times> nat) res" where
  "lease_list_layout = rd_pair ReadString (rd_pair (rd_option (rd_pair ReadU64BE ReadU32BE)) ReadU32BE)"

interpretation lease_acquire: field_codec
  "enc_pair len_prefixed_string (enc_pair len_prefixed_string (enc_pair PutUint64 PutUint32))" lease_acquire_layout
  "fits_pair fits_u32 (fits_pair fits_u32 (fits_pair (\<lambda>_. True) (\<lambda>_. True)))"
  unfolding lease_acquire_layout_def by (intro codec_intros)

interpretation lease_renew: field_codec
  "enc_pair len_prefixed_string (enc_pair len_prefixed_string (enc_pair PutUint64 PutUint64))" lease_renew_layout
  "fits_pair fits_u32 (fits_pair fits_u32 (fits_pair (\<lambda>_. True) (\<lambda>_. True)))"
  unfolding lease_renew_layout_def by (intro codec_intros)

interpretation lease_release: field_codec
  "enc_pair len_prefixed_string (enc_pair len_prefixed_string PutUint64)" lease_release_layout
  "fits_pair fits_u32 (fits_pair fits_u32 (\<lambda>_. True))"
  unfolding lease_release_layout_def by (intro codec_intros)

interpretation lease_list: field_codec
  "enc_pair len_prefixed_string (enc_pair (enc_option (enc_pair PutUint64 PutUint32)) PutUint32)" lease_list_layout
  "fits_pair fits_u32 (fits_pair (pred_option (fits_pair (\<lambda>_. True) (\<lambda>_. True))) (\<lambda>_. True))"
  unfolding lease_list_layout_def by (intro codec_intros)

lemmas lease_decodes = decodes_iff [OF lease_acquire.field_codec_axioms] decodes_iff [OF lease_renew.field_codec_axioms]
  decodes_iff [OF lease_release.field_codec_axioms] decodes_iff [OF lease_list.field_codec_axioms]

definition cursor_fields :: "leaseListCursor \<Rightarrow> u64 \<times> u32" where
  "cursor_fields cur = (lc_snapshotID cur, lc_offset cur)"

text \<open>Lease requests. ACQUIRE, RENEW, RELEASE and LIST payloads are read back by their documented layouts as exactly
  what they were built from.\<close>

theorem lease_requests_decode:
  assumes "fits_u32 route" "fits_u32 owner"
  shows
  "decodes lease_acquire_layout (encodeLeaseAcquire route owner ttl wait) (route, owner, ttl, wait) \<and>
   decodes lease_renew_layout (encodeLeaseRenew route owner fence ttl) (route, owner, fence, ttl) \<and>
   decodes lease_release_layout (encodeLeaseRelease route owner fence) (route, owner, fence) \<and>
   decodes lease_list_layout (encodeLeaseList route cursor limit) (route, map_option cursor_fields cursor, limit) \<and>
   leaseAcquirePayloadWriter route owner ttl wait buf = buf @ encodeLeaseAcquire route owner ttl wait \<and>
   leaseRenewPayloadWriter route owner fence ttl buf = buf @ encodeLeaseRenew route owner fence ttl \<and>
   leaseReleasePayloadWriter route owner fence buf = buf @ encodeLeaseRelease route owner fence \<and>
   leaseListPayloadWriter route cursor limit buf = buf @ encodeLeaseList route cursor limit"
  using assms
  by (simp add: lease_decodes encodeLeaseAcquire_def encodeLeaseRenew_def encodeLeaseRelease_def encodeLeaseList_def
      leaseAcquirePayloadWriter_def leaseRenewPayloadWriter_def leaseReleasePayloadWriter_def
      leaseListPayloadWriter_def EncodeWithBuffer_def layout_simps byte_simps cursor_fields_def split: option.split)

theorem lease_requests_decode_witness:
  "decodes lease_list_layout (encodeLeaseList ''lease://a/*/c'' (Some \<lparr>lc_snapshotID = 7, lc_offset = 100\<rparr>) 50)
     (''lease://a/*/c'', Some (7, 100), 50)"
  using lease_requests_decode [where route = "''lease://a/*/c''" and owner = "[]" and limit = 50
      and cursor = "Some \<lparr>lc_snapshotID = 7, lc_offset = 100\<rparr>"]
  by (simp add: fits_u32_def cursor_fields_def)

section \<open>List responses\<close>

text \<open>The fields of an entry in the order of the wire.\<close>

definition entry_fields :: "LeaseEntry \<Rightarrow> string \<times> string \<times> u64 \<times> string \<times> u64 \<times> u32" where
  "entry_fields e = (Le_Route e, Le_OwnerID e, Le_HolderIncarnation e, Le_AcquiredAt e, Le_ExpiresInSecs e, Le_Renewals e)"

definition entry_of :: "string \<times> string \<times> u64 \<times> string \<times> u64 \<times> u32 \<Rightarrow> LeaseEntry" where
  "entry_of = (\<lambda>(r, ow, h, a, x, n). \<lparr>Le_Route = r, Le_OwnerID = ow, Le_HolderIncarnation = h, Le_AcquiredAt = a,
     Le_ExpiresInSecs = x, Le_Renewals = n\<rparr>)"

lemma entry_of_fields [simp]: "entry_of (entry_fields e) = e" "entry_fields (entry_of f) = f"
  by (auto simp: entry_of_def entry_fields_def split: prod.split)

definition rd_entry :: "bytes \<Rightarrow> nat \<Rightarrow> ((string \<times> string \<times> u64 \<times> string \<times> u64 \<times> u32) \<times> nat) res" where
  "rd_entry = rd_pair ReadString (rd_pair ReadString (rd_pair ReadU64BE (rd_pair ReadString (rd_pair ReadU64BE ReadU32BE))))"

definition enc_entry :: "string \<times> string \<times> u64 \<times> string \<times> u64 \<times> u32 \<Rightarrow> bytes" where
  "enc_entry = enc_pair len_prefixed_string (enc_pair len_prefixed_string (enc_pair PutUint64
     (enc_pair len_prefixed_string (enc_pair PutUint64 PutUint32))))"

definition fits_entry :: "string \<times> string \<times> u64 \<times> string \<times> u64 \<times> u32 \<Rightarrow> bool" where
  "fits_entry = fits_pair fits_u32 (fits_pair fits_u32 (fits_pair (\<lambda>_. True)
     (fits_pair fits_u32 (fits_pair (\<lambda>_. True) (\<lambda>_. True)))))"

interpretation lease_entry: field_codec enc_entry rd_entry fits_entry
  unfolding enc_entry_def rd_entry_def fits_entry_def by (intro codec_intros)

definition rd_list_response ::
  "bytes \<Rightarrow> nat \<Rightarrow> (((string \<times> string \<times> u64 \<times> string \<times> u64 \<times> u32) list \<times> (u64 \<times> u32) option) \<times> nat) res" where
  "rd_list_response = rd_pair (rd_list rd_entry) (rd_option (rd_pair ReadU64BE ReadU32BE))"

interpretation list_response: field_codec
  "enc_pair (enc_list enc_entry) (enc_option (enc_pair PutUint64 PutUint32))" rd_list_response
  "fits_pair (fits_list fits_entry) (pred_option (fits_pair (\<lambda>_. True) (\<lambda>_. True)))"
  unfolding rd_list_response_def by (intro codec_intros lease_entry.field_codec_axioms)

lemma list_items_seq:
  "list_items i n p off = Ok (es, off') \<longleftrightarrow> read_seq rd_entry n p off = Ok (map entry_fields es, off')"
proof (induction n arbitrary: i off es)
  case 0
  then show ?case by auto
next
  case (Suc n)
  show ?case
  proof (cases es)
    case Nil
    then show ?thesis by (auto simp: bind_res_Ok_iff)
  next
    case (Cons e es')
    have "list_items i (Suc n) p off = Ok (e # es', off') \<longleftrightarrow>
        (\<exists>m. rd_entry p off = Ok (entry_fields e, m) \<and> list_items (i + 1) n p m = Ok (es', off'))"
      by (cases e) (auto simp: rd_entry_def rd_pair_def entry_fields_def bind_res_Ok_iff)
    moreover have "read_seq rd_entry (Suc n) p off = Ok (map entry_fields (e # es'), off') \<longleftrightarrow>
        (\<exists>m. rd_entry p off = Ok (entry_fields e, m) \<and> read_seq rd_entry n p m = Ok (map entry_fields es', off'))"
      by (cases e) (auto simp: bind_res_Ok_iff entry_fields_def)
    ultimately show ?thesis by (simp only: Cons Suc.IH)
  qed
qed

lemma list_items_no_panic: "no_panic (list_items i n p off)"
  by (induction n arbitrary: i off) (auto intro!: no_panic_bind2)

lemma parse_next_rd:
  "parse_next p items off = Ok (es, cursor) \<longleftrightarrow>
   items = es \<and> rd_option (rd_pair ReadU64BE ReadU32BE) p off = Ok (map_option cursor_fields cursor, length p)"
proof (cases "ReadU8 p off")
  case (Ok x)
  then obtain flag m where x: "ReadU8 p off = Ok (flag, m)" by (cases x) auto
  consider "flag = 0" | "flag = 1" | "flag \<noteq> 0" "flag \<noteq> 1" by blast
  then show ?thesis
  proof cases
    case 2
    then show ?thesis using x
      by (cases cursor) (auto simp: parse_next_def rd_option_def rd_pair_def bind_res_Ok_iff cursor_fields_def split: if_splits)
  qed (use x in \<open>auto simp: parse_next_def rd_option_def\<close>)
qed (auto simp: parse_next_def rd_option_def)

lemma parseLeaseListResponse_rd:
  "parseLeaseListResponse p = Ok (es, cursor) \<longleftrightarrow>
   rd_list_response p 0 = Ok ((map entry_fields es, map_option cursor_fields cursor), length p)"
  by (auto simp: parseLeaseListResponse_def rd_list_response_def rd_pair_def rd_list_def
      bind_res_Ok_iff list_items_seq parse_next_rd)

lemma parseLeaseListResponse_no_panic: "no_panic (parseLeaseListResponse p)"
proof -
  have "no_panic (parse_next p items off)" for items off
    unfolding parse_next_def by (intro no_panic_bind2) (auto intro!: no_panic_bind2)
  then show ?thesis unfolding parseLeaseListResponse_def
    by (intro no_panic_bind2) (auto simp: list_items_no_panic)
qed

lemma list_capacity_bound: "case list_capacity p of None \<Rightarrow> True | Some n \<Rightarrow> 32 * n \<le> length p"
  by (auto simp: list_capacity_def leaseListPreallocCapacity_def minLeaseListEntryWireSize_def ReadU32BE_def Let_def
      bind_res_Ok_iff split: option.split res.split)

text \<open>List pages. A LIST response is accepted exactly when it is the count of the entries, the entries field by field,
  and the optional cursor of the next page, with nothing missing and nothing left over. No response makes
  the parser panic, and the room it sets aside for entries is bounded by the size of the response whatever
  count the response announces.\<close>

theorem lease_list_response_exact:
  "(parseLeaseListResponse p = Ok (es, cursor) \<longleftrightarrow>
     fits_list fits_entry (map entry_fields es) \<and>
     p = enc_list enc_entry (map entry_fields es) @
         enc_option (enc_pair PutUint64 PutUint32) (map_option cursor_fields cursor)) \<and>
   no_panic (parseLeaseListResponse p) \<and>
   (case list_capacity p of None \<Rightarrow> True | Some n \<Rightarrow> 32 * n \<le> length p)"
proof -
  have "pred_option (fits_pair (\<lambda>_. True) (\<lambda>_. True)) x" for x :: "(u64 \<times> u32) option"
    by (cases x) (simp_all add: fits_pair_def)
  then show ?thesis
    by (simp add: parseLeaseListResponse_rd list_response.read_whole_iff parseLeaseListResponse_no_panic
        list_capacity_bound fits_pair_def [of "fits_list fits_entry"] enc_pair_def [of "enc_list enc_entry"])
qed

section \<open>Paging\<close>

text \<open>
  \<open>listing c pat limit cursor s xs e\<close>: from the state \<open>s\<close> of the connection, the pages from \<open>cursor\<close> on hold the
  entries \<open>xs\<close>; they end with the last page, or with the error \<open>e\<close> of a page that could not be had.
\<close>

inductive listing ::
  "'s conn_api \<Rightarrow> string \<Rightarrow> u32 \<Rightarrow> leaseListCursor option \<Rightarrow> 's \<Rightarrow> LeaseEntry list \<Rightarrow> go_error option \<Rightarrow> bool"
  for c pat limit where
  listing_last: "list_page c pat limit cursor s = (Ok (items, None), s') \<Longrightarrow> listing c pat limit cursor s items None"
| listing_fail: "list_page c pat limit cursor s = (Err e, s') \<Longrightarrow> listing c pat limit cursor s [] (Some e)"
| listing_more: "list_page c pat limit cursor s = (Ok (items, Some cur), s') \<Longrightarrow>
    listing c pat limit (Some cur) s' xs e \<Longrightarrow> listing c pat limit cursor s (items @ xs) e"

definition lease_yields :: "'s conn_api \<Rightarrow> 's \<times> leaseListIterator \<Rightarrow> LeaseEntry list \<Rightarrow> go_error option \<Rightarrow> bool" where
  "lease_yields c = (\<lambda>(s, it) xs e.
     -1 \<le> lli_index it \<and>
     (if lli_err it \<noteq> None then xs = [] \<and> e = lli_err it
      else (\<exists>ys. xs = drop (nat (lli_index it + 1)) (lli_items it) @ ys \<and>
             (if lli_started it \<and> lli_done it then ys = [] \<and> e = None
              else listing c (lli_pattern it) (lli_limit it) (lli_cursor it) s ys e))))"

text \<open>One round of \<open>Next\<close> on a page that is used up.\<close>

lemma fetchPage_yields:
  assumes "listing c (lli_pattern it) (lli_limit it) (lli_cursor it) s xs e" "lli_err it = None"
  shows "(\<exists>st'. fetchPage c (s, it) = (Ok (), st') \<and> lease_yields c st' xs e \<and> lli_err (snd st') = None \<and> lli_index (snd st') = -1) \<or>
         (\<exists>err s'. fetchPage c (s, it) = (Err err, (s', it)) \<and> xs = [] \<and> e = Some err)"
  using assms(1)
proof (cases rule: listing.cases)
  case (listing_last s')
  then show ?thesis using assms(2) by (auto simp: fetchPage_def lease_yields_def)
next
  case (listing_fail err s')
  then show ?thesis using assms(2) by (auto simp: fetchPage_def)
next
  case (listing_more items cur s' ys)
  then show ?thesis using assms(2) by (auto simp: fetchPage_def lease_yields_def)
qed

lemma next_loop_item:
  assumes "lli_index it + 1 < int (length (lli_items it))" "lease_yields c (s, it) (x # xs) e" "lli_err it = None"
  shows "\<exists>st'. next_loop c (s, it) = (Ok True, st') \<and> lli_Value st' = x \<and> lease_yields c st' xs e"
proof -
  let ?n = "nat (lli_index it + 1)"
  obtain ys where y: "x # xs = drop ?n (lli_items it) @ ys" "-1 \<le> lli_index it"
    "if lli_started it \<and> lli_done it then ys = [] \<and> e = None
     else listing c (lli_pattern it) (lli_limit it) (lli_cursor it) s ys e"
    using assms(2,3) by (auto simp: lease_yields_def)
  have n: "?n < length (lli_items it)" using assms(1) y(2) by linarith
  have "x = lli_items it ! ?n" "xs = drop (Suc ?n) (lli_items it) @ ys"
    using y(1) Cons_nth_drop_Suc [OF n] by (metis append_Cons list.inject)+
  moreover have "nat (2 + lli_index it) = Suc ?n" using y(2) by simp
  ultimately show ?thesis
    using assms(1,3) y(2,3) by (simp add: next_loop.simps lli_Value_def lease_yields_def add.commute)
qed

lemma next_loop_end:
  assumes "\<not> lli_index it + 1 < int (length (lli_items it))" "lease_yields c (s, it) [] e" "lli_err it = None"
    "lli_started it \<and> lli_done it"
  shows "\<exists>st'. next_loop c (s, it) = (Ok False, st') \<and> lli_Err st' = e"
  using assms by (auto simp: next_loop.simps lease_yields_def lli_Err_def)

lemma next_loop_refill:
  assumes "\<not> lli_index it + 1 < int (length (lli_items it))" "\<not> (lli_started it \<and> lli_done it)"
  shows "next_loop c (s, it) = (case fetchPage c (s, it) of
             (Ok _, st') \<Rightarrow> next_loop c st'
           | (Err e, (s', it')) \<Rightarrow> (Ok False, (s', it'\<lparr>lli_err := Some e\<rparr>))
           | (Panic, st') \<Rightarrow> (Panic, st'))"
  by (subst next_loop.simps) (simp only: assms if_False)

lemma lease_yields_pending:
  assumes "lease_yields c (s, it) xs e" "lli_err it = None"
    "\<not> lli_index it + 1 < int (length (lli_items it))" "\<not> (lli_started it \<and> lli_done it)"
  shows "listing c (lli_pattern it) (lli_limit it) (lli_cursor it) s xs e"
  using assms by (auto simp: lease_yields_def)

interpretation lease_it: pull_iterator "lli_Next c" lli_Value lli_Err "lease_yields c" for c
proof unfold_locales
  fix st :: "'a \<times> leaseListIterator" and x xs e
  assume y: "lease_yields c st (x # xs) e"
  obtain s it where st: "st = (s, it)" by (cases st)
  have err: "lli_err it = None" using y st by (auto simp: lease_yields_def split: if_splits)
  have "\<exists>st'. next_loop c (s, it) = (Ok True, st') \<and> lli_Value st' = x \<and> lease_yields c st' xs e"
  proof (cases "lli_index it + 1 < int (length (lli_items it))")
    case True
    then show ?thesis by (rule next_loop_item [OF _ y [unfolded st] err])
  next
    case False
    then have d: "\<not> (lli_started it \<and> lli_done it)" using y st err by (auto simp: lease_yields_def)
    obtain s' it' where f: "fetchPage c (s, it) = (Ok (), (s', it'))" "lease_yields c (s', it') (x # xs) e"
      "lli_err it' = None" "lli_index it' = -1"
      using fetchPage_yields [OF lease_yields_pending [OF y [unfolded st] err False d] err] by force
    have "lli_index it' + 1 < int (length (lli_items it'))"
      using fetchPage_Ok [OF f(1)] f(2,3) by (auto simp: lease_yields_def split: if_splits)
    then show ?thesis using next_loop_item [OF _ f(2,3)] next_loop_refill [OF False d, of c s] f(1) by simp
  qed
  then show "\<exists>it'. lli_Next c st = (Ok True, it') \<and> lli_Value it' = x \<and> lease_yields c it' xs e"
    by (simp add: lli_Next_def st err)
next
  fix st :: "'a \<times> leaseListIterator" and e
  assume y: "lease_yields c st [] e"
  obtain s it where st: "st = (s, it)" by (cases st)
  show "\<exists>it'. lli_Next c st = (Ok False, it') \<and> lli_Err it' = e"
  proof (cases "lli_err it")
    case (Some err)
    then show ?thesis using y by (auto simp: st lli_Next_def lli_Err_def lease_yields_def)
  next
    case None
    have i: "\<not> lli_index it + 1 < int (length (lli_items it))" using y None by (auto simp: st lease_yields_def)
    have "\<exists>st'. next_loop c (s, it) = (Ok False, st') \<and> lli_Err st' = e"
    proof (cases "lli_started it \<and> lli_done it")
      case True
      then show ?thesis by (rule next_loop_end [OF i y [unfolded st] None])
    next
      case False
      consider (page) s' it' where "fetchPage c (s, it) = (Ok (), (s', it'))" "lease_yields c (s', it') [] e"
          "lli_err it' = None" "lli_index it' = -1"
        | (fail) err s' where "fetchPage c (s, it) = (Err err, (s', it))" "e = Some err"
        using fetchPage_yields [OF lease_yields_pending [OF y [unfolded st] None i False] None] by force
      then show ?thesis
      proof cases
        case page
        then have "\<not> lli_index it' + 1 < int (length (lli_items it'))" "lli_started it' \<and> lli_done it'"
          using fetchPage_Ok [OF page(1)] by (auto simp: lease_yields_def)
        then show ?thesis using next_loop_end [OF _ page(2,3)] next_loop_refill [OF i False, of c s] page(1) by simp
      next
        case fail
        then show ?thesis using next_loop_refill [OF i False, of c s] by (simp add: lli_Err_def)
      qed
    qed
    then show ?thesis by (simp add: lli_Next_def st None)
  qed
qed

text \<open>C22: Paging. When the broker's pages end, listing a pattern with \<open>ForEach\<close> returns; the callback is given the
  entries of all pages, each once and in order, up to its own first error, and the result is that error, or the
  error of the page that failed, or success.\<close>

theorem lease_list_complete:
  assumes "Lease_List pat limit = Ok it" "listing c pat limit None s xs e"
  shows "\<exists>st'. ForEach (lli_Next c) lli_Value lli_Err lli_Close fn (s, it) u =
    Some (loop_end e (fst (feed fn xs u)), st', snd (feed fn xs u))"
proof -
  have "lease_yields c (s, it) xs e" using assms by (auto simp: Lease_List_def lease_yields_def bind_res_Ok_iff)
  then show ?thesis by (rule lease_it.for_each_feeds) (simp add: lli_Close_def)
qed

text \<open>A broker that answers every request with one lease and no further page.\<close>

definition one_lease :: LeaseEntry where
  "one_lease = \<lparr>Le_Route = ''lease://a/b/c'', Le_OwnerID = ''me'', Le_HolderIncarnation = 1, Le_AcquiredAt = ''t'',
     Le_ExpiresInSecs = 2, Le_Renewals = 3\<rparr>"

definition one_lease_api :: "unit conn_api" where
  "one_lease_api = failing_api\<lparr>api_request := (\<lambda>_ _ _ s.
     (Ok ([0, 0, 0, 0, 1] @ enc_entry (entry_fields one_lease) @ [0]), s))\<rparr>"

theorem lease_list_complete_witness:
  "\<exists>it st'. Lease_List ''lease://a/b/*'' 0 = Ok it \<and>
     ForEach (lli_Next one_lease_api) lli_Value lli_Err lli_Close (\<lambda>e u. (Ok (), u @ [Le_Route e])) ((), it) [] =
     Some (Ok (), st', [''lease://a/b/c''])"
proof -
  have scans: "scans ''lease://a/b/*'' ''lease'' [''a'', ''b'', ''*'']"
    by (simp add: scans_def seg_ok_def wild_def)
  have "validateLeaseSubscribeSelector ''lease://a/b/*'' = Ok ()"
    by (simp add: validateLeaseSubscribeSelector_def ValidateRegistrationPattern_def scans_scanRoute [OF scans]
        shape_of_def strings_TrimPrefix_def strings_HasPrefix_def)
  then obtain it where it: "Lease_List ''lease://a/b/*'' 0 = Ok it" by (simp add: Lease_List_def)
  have "parseLeaseListResponse ([0, 0, 0, 1] @ enc_entry (entry_fields one_lease) @ [0]) = Ok ([one_lease], None)"
    unfolding parseLeaseListResponse_rd list_response.read_whole_iff
    by (simp add: layout_simps u32_len_def int_eval fits_entry_def one_lease_def entry_fields_def fits_u32_def)
  then have "list_page one_lease_api ''lease://a/b/*'' 0 None () = (Ok ([one_lease], None), ())"
    by (simp add: list_page_def send_parse_def one_lease_api_def api_send_def ParseStandardResponse_def bind_op_def
        return_op_def)
  then have "listing one_lease_api ''lease://a/b/*'' 0 None () [one_lease] None" by (rule listing_last)
  from lease_list_complete [OF it this, of "\<lambda>e u. (Ok (), u @ [Le_Route e])" "[]"] it
  show ?thesis by (auto simp: loop_end_def one_lease_def)
qed

section \<open>The life of a lease handle\<close>

lemma tokenToU64_PutUint64 [simp]: "tokenToU64 (PutUint64 tok) = Ok tok"
  by (simp add: tokenToU64_def)

lemma tokenToU64_Ok: "\<exists>tok. tokenToU64 token = Ok tok"
  by (auto simp: tokenToU64_def Uint64_def)

datatype lease_op =
    DoExtend u64 u64
  | DoExtendWith u64 bytes u64
  | DoRelease
  | DoReleaseWith bytes

fun run_lease_op :: "'s conn_api \<Rightarrow> lease_op \<Rightarrow> 's \<times> Lease \<Rightarrow> 's \<times> Lease" where
  "run_lease_op c (DoExtend now ttl) st = snd (Lease_Extend c now ttl st)"
| "run_lease_op c (DoExtendWith now token ttl) st = snd (Lease_ExtendWithToken c now token ttl st)"
| "run_lease_op c DoRelease st = snd (Lease_Release c st)"
| "run_lease_op c (DoReleaseWith token) st = snd (Lease_ReleaseWithToken c token st)"

definition keeps_lease :: "u16 \<times> bytes \<Rightarrow> bool" where
  "keeps_lease r \<longleftrightarrow> fst r = MessageTypeLeaseRenew"

definition lease_inv :: "('s \<times> request_log) \<times> Lease \<Rightarrow> bool" where
  "lease_inv st = (case st of ((s, h), l) \<Rightarrow> list_all keeps_lease (if l_closed l then butlast h else h))"

lemma lease_inv_open: "lease_inv ((s, h), l) \<Longrightarrow> \<not> l_closed l \<Longrightarrow> list_all keeps_lease h"
  by (simp add: lease_inv_def)

lemma lease_inv_any: "list_all keeps_lease h \<Longrightarrow> lease_inv ((s, h), l)"
  by (simp add: lease_inv_def list_all_butlast)

lemma extend_inv:
  assumes i: "lease_inv ((s, h), l)"
  shows "lease_inv (snd (extendWithToken (recording c) now token ttl ((s, h), l)))"
proof (cases "l_closed l")
  case True
  then show ?thesis using i by (simp add: extendWithToken_def Let_def)
next
  case False
  note h = lease_inv_open [OF i False]
  obtain tok where tok: "tokenToU64 token = Ok tok" using tokenToU64_Ok by blast
  let ?w = "leaseRenewPayloadWriter (l_route l) (l_ownerID l) tok ttl"
  obtain r s' where r: "send_parse (recording c) ParseStandardResponse mapLeaseError ''EXTEND''
      '' failed: unexpected status'' MessageTypeLeaseRenew ?w (s, h) = (r, (s', h @ [(MessageTypeLeaseRenew, ?w [])]))"
    by (rule send_parse_log)
  have "list_all keeps_lease (h @ [(MessageTypeLeaseRenew, ?w [])])" using h by (simp add: keeps_lease_def)
  then show ?thesis using False tok r h
    by (auto simp: extendWithToken_def Let_def lease_inv_any split: res.split option.split)
qed

lemma release_inv:
  assumes i: "lease_inv ((s, h), l)"
  shows "lease_inv (snd (releaseWithToken (recording c) token ((s, h), l)))"
proof (cases "l_closed l")
  case True
  then show ?thesis using i by (simp add: releaseWithToken_def)
next
  case False
  note h = lease_inv_open [OF i False]
  obtain tok where tok: "tokenToU64 token = Ok tok" using tokenToU64_Ok by blast
  let ?w = "leaseReleasePayloadWriter (l_route l) (l_ownerID l) tok"
  obtain r s' where r: "send_parse (recording c) ParseStandardResponse mapLeaseError ''RELEASE''
      '' failed: unexpected status'' MessageTypeLeaseRelease ?w (s, h) = (r, (s', h @ [(MessageTypeLeaseRelease, ?w [])]))"
    by (rule send_parse_log)
  show ?thesis using False tok r h
    by (cases r) (auto simp: releaseWithToken_def Let_def on_conn_def bind_op_def return_op_def lease_inv_def
        list_all_butlast split: option.split)
qed

lemma run_lease_op_inv: "lease_inv st \<Longrightarrow> lease_inv (run_lease_op (recording c) op st)"
  by (cases st; cases op)
    (auto simp: Lease_Extend_def Lease_ExtendWithToken_def Lease_Release_def Lease_ReleaseWithToken_def
      extend_inv release_inv)

lemma run_lease_ops_inv:
  fixes st :: "('s \<times> request_log) \<times> Lease"
  shows "lease_inv st \<Longrightarrow> lease_inv (fold (run_lease_op (recording c)) ops st)"
proof (induction ops arbitrary: st)
  case (Cons op ops)
  then show ?case using run_lease_op_inv [OF Cons.prems, of c op] by simp
qed simp

text \<open>C23: Lease handles. Whatever operations are called on a fresh handle, and whatever the broker answers, the requests
  sent for it are renewals, but for the last one, which alone can be a RELEASE; and once a RELEASE was sent the
  handle is closed and sends nothing more.\<close>

theorem lease_released_once:
  assumes "\<not> l_closed l" "fold (run_lease_op (recording c)) ops ((s, []), l) = ((s', h), l')"
  shows "list_all keeps_lease (butlast h) \<and> (l_closed l' \<or> list_all keeps_lease h) \<and>
    (l_closed l' \<longrightarrow> run_lease_op (recording c) op ((s', h), l') = ((s', h), l'))"
proof -
  have "lease_inv ((s, [] :: request_log), l)" by (simp add: lease_inv_def)
  from run_lease_ops_inv [OF this, of c ops] have "lease_inv ((s', h), l')" using assms(2) by simp
  then show ?thesis
    by (cases op) (auto simp: lease_inv_def list_all_butlast Lease_Extend_def Lease_ExtendWithToken_def Lease_Release_def
        Lease_ReleaseWithToken_def extendWithToken_def releaseWithToken_def split: if_splits)
qed

text \<open>A successful EXTEND makes the token of the broker's answer the one the next operation presents.\<close>

lemma extend_takes_token:
  assumes "extendWithToken c now token ttl (s, l) = (Ok expiry, (s', l'))"
  shows "\<exists>fence tok rest. tokenToU64 token = Ok fence \<and>
    api_send c MessageTypeLeaseRenew (leaseRenewPayloadWriter (l_route l) (l_ownerID l) fence ttl) s =
      (Ok (0 # PutUint64 tok @ rest), s') \<and>
    tokenToU64 (l_Token l') = Ok tok \<and> expiry = now + ttl \<and> \<not> l_closed l'"
proof -
  obtain fence where f: "tokenToU64 token = Ok fence" using tokenToU64_Ok by blast
  have o: "\<not> l_closed l" "api_live c s = None"
    using assms by (auto simp: extendWithToken_def Let_def split: if_splits option.splits)
  obtain r s1 where sent: "send_parse c ParseStandardResponse mapLeaseError ''EXTEND'' '' failed: unexpected status''
      MessageTypeLeaseRenew (leaseRenewPayloadWriter (l_route l) (l_ownerID l) fence ttl) s = (r, s1)"
    by (cases "send_parse c ParseStandardResponse mapLeaseError ''EXTEND'' '' failed: unexpected status''
      MessageTypeLeaseRenew (leaseRenewPayloadWriter (l_route l) (l_ownerID l) fence ttl) s")
  have e: "(case r of
      Ok remaining \<Rightarrow>
        if length remaining < 8
        then (Err (ErrNew ''EXTEND failed: response missing fencing token''), (s1, l\<lparr>l_closed := True\<rparr>))
        else (case bind_res (slice remaining 0 8) Uint64 of
                Ok newToken \<Rightarrow> (Ok (now + ttl), (s1, l\<lparr>l_Token := PutUint64 newToken, l_ExpiresAt := now + ttl\<rparr>))
              | Err e \<Rightarrow> (Err e, (s1, l)) | Panic \<Rightarrow> (Panic, (s1, l)))
    | Err e \<Rightarrow> (Err e, (s1, l\<lparr>l_closed := True\<rparr>))
    | Panic \<Rightarrow> (Panic, (s1, l))) = (Ok expiry, (s', l'))"
    using assms o sent by (simp add: extendWithToken_def Let_def f cong: res.case_cong)
  then obtain remaining where r: "r = Ok remaining" "8 \<le> length remaining"
    by (cases r) (auto split: if_splits)
  then obtain tok where tok: "Uint64 (take 8 remaining) = Ok tok"
    using Uint_Ok_iff(3) [of "take 8 remaining"] by auto
  have l: "s' = s1" "l' = l\<lparr>l_Token := PutUint64 tok, l_ExpiresAt := now + ttl\<rparr>" "expiry = now + ttl"
    using e r tok by auto
  have "remaining = PutUint64 tok @ drop 8 remaining" using Put_Uint(3) [OF tok] by simp
  moreover have "api_send c MessageTypeLeaseRenew (leaseRenewPayloadWriter (l_route l) (l_ownerID l) fence ttl) s =
      (Ok (0 # remaining), s')"
    using sent r(1) l(1) by (simp add: send_parse_Ok_iff ParseStandardResponse_Ok_iff)
  ultimately have "api_send c MessageTypeLeaseRenew (leaseRenewPayloadWriter (l_route l) (l_ownerID l) fence ttl) s =
      (Ok (0 # PutUint64 tok @ drop 8 remaining), s')" by simp
  then show ?thesis using f l o by (intro exI [of _ fence] exI [of _ tok] exI [of _ "drop 8 remaining"]) simp
qed

theorem lease_released_once_witness:
  "list_all keeps_lease (butlast (snd (fst (fold (run_lease_op (recording failing_api)) [DoRelease, DoRelease]
     (((), []), \<lparr>l_Token = PutUint64 7, l_ExpiresAt = 0, l_route = ''lease://a/b/c'', l_ownerID = ''me'', l_closed = False\<rparr>)))))"
proof -
  let ?l = "\<lparr>l_Token = PutUint64 7, l_ExpiresAt = 0, l_route = ''lease://a/b/c'', l_ownerID = ''me'', l_closed = False\<rparr>"
  obtain s' h l' where r: "fold (run_lease_op (recording failing_api)) [DoRelease, DoRelease] (((), []), ?l) = ((s', h), l')"
    by (metis surj_pair)
  have "\<not> l_closed ?l" by simp
  from lease_released_once [OF this r, of DoRelease] show ?thesis by (simp only: r) simp
qed

section \<open>Restoring subscriptions\<close>

lemma restored_map_other:
  "subID \<notin> (\<lambda>(_, _, i). i) ` set restored \<Longrightarrow> fold (\<lambda>(n, _, i) m. m(i \<mapsto> n)) restored m subID = m subID"
  by (induction restored arbitrary: m) auto

text \<open>
  A subscription made while a restore is on the wire is not in its snapshot: committing the restore drops it
  from the map, and its handle can no longer unsubscribe.
\<close>

lemma lease_restore_forgets_new:
  assumes "ls_objs ls n = Some \<lparr>sub_subID = subID, sub_route = route\<rparr>" "ls_map ls subID = Some n"
    "subID \<notin> (\<lambda>(_, _, i). i) ` set restored" "n \<notin> fst ` set restored"
  shows "ls_map (lease_restore_commit restored ls) subID = None \<and>
    lease_unsubscribe c n (s, lease_restore_commit restored ls) = (s, lease_restore_commit restored ls)"
proof -
  let ?f = "\<lambda>(n, _, subID) objs. objs(n := map_option (\<lambda>sub. sub\<lparr>sub_subID := subID\<rparr>) (objs n))"
  have "fold ?f rs objs n = objs n" if "n \<notin> fst ` set rs" for rs :: "(nat \<times> string \<times> u64) list" and objs :: "nat \<rightharpoonup> lease_subscription"
    using that by (induction rs arbitrary: objs) auto
  then have "ls_objs (lease_restore_commit restored ls) n = Some \<lparr>sub_subID = subID, sub_route = route\<rparr>"
    using assms(1,4) by (simp add: lease_restore_commit_def)
  moreover have "ls_map (lease_restore_commit restored ls) subID = None"
    using restored_map_other [OF assms(3)] by (simp add: lease_restore_commit_def)
  ultimately show ?thesis by (simp add: lease_unsubscribe_def)
qed

end
