(* ===== verification/Lease_Acquire.thy ===== *)
theory Lease_Acquire
  imports Lease_Domain
begin

text \<open>
  Acquiring a lease (\<open>Acquire\<close>, \<open>markAcquireWaiterDone\<close> and \<open>handleDeferredAcquire\<close> of
  \<^verbatim>\<open>internal/domains/lease/lease.go\<close>): concurrent calls, the gate that admits one at a time, and the waiters that
  deferred responses are handed to.
\<close>

section \<open>Acquisition\<close>

text \<open>
  Calls of \<open>Acquire\<close> are numbered. A call holds the gate from its entry to its return. A call that is
  willing to wait registers a waiter, known by the number of its call; the handler of pushed ACQUIRE frames
  hands a frame to the first waiter. \<open>ac_response\<close> is the waiter's channel of capacity one.
\<close>

datatype acquire_phase =
    Requesting
  | Waiting
  | Returned "Lease res"

record acquire_call =
  cl_route :: string
  cl_ownerID :: string
  cl_ttlSecs :: u64
  cl_waitSeconds :: u32
  cl_phase :: acquire_phase

record acquire_state =
  ac_gate :: "nat option"
  ac_waiters :: "nat list"
  ac_done :: "nat \<Rightarrow> bool"
  ac_response :: "nat \<Rightarrow> bytes option"
  ac_calls :: "nat \<rightharpoonup> acquire_call"

definition acquire_init :: acquire_state where
  "acquire_init = \<lparr>ac_gate = None, ac_waiters = [], ac_done = (\<lambda>_. False), ac_response = (\<lambda>_. None), ac_calls = Map.empty\<rparr>"

definition markAcquireWaiterDone :: "nat \<Rightarrow> acquire_state \<Rightarrow> acquire_state" where
  "markAcquireWaiterDone w st =
     (if w \<in> set (ac_waiters st)
      then st\<lparr>ac_done := (ac_done st)(w := True), ac_waiters := remove1 w (ac_waiters st)\<rparr> else st)"

fun deferred_loop :: "bytes \<Rightarrow> nat list \<Rightarrow> acquire_state \<Rightarrow> acquire_state" where
  "deferred_loop payload [] st = st\<lparr>ac_waiters := []\<rparr>"
| "deferred_loop payload (w # ws) st =
     (if ac_done st w then deferred_loop payload ws st
      else st\<lparr>ac_waiters := ws, ac_done := (ac_done st)(w := True), ac_response := (ac_response st)(w \<mapsto> payload)\<rparr>)"

definition handleDeferredAcquire :: "bytes \<Rightarrow> acquire_state \<Rightarrow> acquire_state" where
  "handleDeferredAcquire payload st = deferred_loop payload (ac_waiters st) st"

text \<open>What \<open>Acquire\<close> makes of the response to its request, and of a deferred response.\<close>

datatype acquire_outcome = Granted u64 | AwaitDeferred

definition acquire_reply :: "bool \<Rightarrow> bytes res \<Rightarrow> acquire_outcome res" where
  "acquire_reply hasWaiter sent =
     bind_res (map_err (Errorf1 ''ACQUIRE request failed'') sent) (\<lambda>resp.
     case ParseStandardResponse resp of
       Err err \<Rightarrow>
         if isLeaseHeldError err then Err ErrLeaseHeld else Err (Errorf1 ''ACQUIRE failed'' (mapLeaseError err))
     | Panic \<Rightarrow> Panic
     | Ok (success, remaining) \<Rightarrow>
         if \<not> success then Err ErrLeaseHeld
         else if length remaining < 9
         then Err (ErrNew (''ACQUIRE response too short: got '' @ dec (length remaining) @ '' bytes''))
         else bind_res (index remaining 0) (\<lambda>responseType.
              bind_res (bind_res (slice remaining 1 9) Uint64) (\<lambda>fencingToken.
                if responseType = 0 \<or> responseType = 1 then Ok (Granted fencingToken)
                else if responseType = 2 then if hasWaiter then Ok AwaitDeferred else Err ErrLeaseQueued
                else if responseType = 3 then Err ErrLeaseAlreadyQueued
                else Err (ErrNew (''unknown ACQUIRE response type '' @ dec (unat responseType))))))"

definition deferred_reply :: "bytes \<Rightarrow> u64 res" where
  "deferred_reply deferred =
     bind_res (map_err (\<lambda>err. Errorf1 ''ACQUIRE deferred failed'' (mapLeaseError err)) (ParseStandardResponse deferred))
       (\<lambda>(success, remaining).
       if \<not> success \<or> length remaining < 9 \<or> (remaining ! 0 \<noteq> 0 \<and> remaining ! 0 \<noteq> 1)
       then Err (ErrNew ''invalid deferred ACQUIRE response'')
       else bind_res (slice remaining 1 9) Uint64)"

definition granted_lease :: "u64 \<Rightarrow> acquire_call \<Rightarrow> u64 \<Rightarrow> Lease" where
  "granted_lease now cl fencingToken =
     \<lparr>l_Token = PutUint64 fencingToken, l_ExpiresAt = now + cl_ttlSecs cl, l_route = cl_route cl,
      l_ownerID = cl_ownerID cl, l_closed = False\<rparr>"

text \<open>The return of a call: the deferred removal of its waiter, then of the gate.\<close>

definition acquire_return :: "nat \<Rightarrow> acquire_call \<Rightarrow> Lease res \<Rightarrow> acquire_state \<Rightarrow> acquire_state" where
  "acquire_return k cl r st =
     (let st = (if cl_waitSeconds cl > 0 then markAcquireWaiterDone k st else st)
      in st\<lparr>ac_gate := None, ac_calls := (ac_calls st)(k \<mapsto> cl\<lparr>cl_phase := Returned r\<rparr>)\<rparr>)"

definition acquire_check :: "string \<Rightarrow> string \<Rightarrow> unit res" where
  "acquire_check route ownerID =
     bind_res (map_err (Errorf1 ''invalid route'') (ValidateFixedRoute route ''lease'' 3)) (\<lambda>_.
       if ownerID = [] then Err (ErrNew ''lease owner ID must not be empty'') else Ok ())"

text \<open>
  The steps of concurrent calls: a call checks its arguments and takes the gate, gets the outcome of its
  request, and, when it was queued, takes a deferred response or gives up with its context; a pushed
  ACQUIRE frame may arrive at any time. A step that cannot happen now is None.
\<close>

datatype acquire_event =
    Enter nat string string u64 u32
  | Refuse nat string string u64 u32 go_error
  | Reply nat u64 "bytes res"
  | Deferred bytes
  | Resume nat u64
  | GiveUp nat go_error

fun acquire_step :: "acquire_event \<Rightarrow> acquire_state \<Rightarrow> acquire_state option" where
  "acquire_step (Enter k route ownerID ttlSecs waitSeconds) st =
     (if ac_calls st k \<noteq> None then None
      else let cl = \<lparr>cl_route = route, cl_ownerID = ownerID, cl_ttlSecs = ttlSecs, cl_waitSeconds = waitSeconds,
                     cl_phase = Requesting\<rparr>
           in case acquire_check route ownerID of
                Ok _ \<Rightarrow>
                  if ac_gate st \<noteq> None then None
                  else Some (st\<lparr>ac_gate := Some k,
                                ac_waiters := (if waitSeconds > 0 then ac_waiters st @ [k] else ac_waiters st),
                                ac_calls := (ac_calls st)(k \<mapsto> cl)\<rparr>)
              | Err e \<Rightarrow> Some (st\<lparr>ac_calls := (ac_calls st)(k \<mapsto> cl\<lparr>cl_phase := Returned (Err e)\<rparr>)\<rparr>)
              | Panic \<Rightarrow> Some (st\<lparr>ac_calls := (ac_calls st)(k \<mapsto> cl\<lparr>cl_phase := Returned Panic\<rparr>)\<rparr>))"
| "acquire_step (Refuse k route ownerID ttlSecs waitSeconds cause) st =
     (if ac_calls st k \<noteq> None \<or> acquire_check route ownerID \<noteq> Ok () then None
      else Some (st\<lparr>ac_calls := (ac_calls st)(k \<mapsto>
             \<lparr>cl_route = route, cl_ownerID = ownerID, cl_ttlSecs = ttlSecs, cl_waitSeconds = waitSeconds,
              cl_phase = Returned (Err cause)\<rparr>)\<rparr>))"
| "acquire_step (Reply k now sent) st =
     (case ac_calls st k of
        Some cl \<Rightarrow>
          if cl_phase cl \<noteq> Requesting then None
          else Some (case acquire_reply (cl_waitSeconds cl > 0) sent of
                       Ok (Granted fencingToken) \<Rightarrow> acquire_return k cl (Ok (granted_lease now cl fencingToken)) st
                     | Ok AwaitDeferred \<Rightarrow> st\<lparr>ac_calls := (ac_calls st)(k \<mapsto> cl\<lparr>cl_phase := Waiting\<rparr>)\<rparr>
                     | Err e \<Rightarrow> acquire_return k cl (Err e) st
                     | Panic \<Rightarrow> acquire_return k cl Panic st)
      | None \<Rightarrow> None)"
| "acquire_step (Deferred payload) st = Some (handleDeferredAcquire payload st)"
| "acquire_step (Resume k now) st =
     (case (ac_calls st k, ac_response st k) of
        (Some cl, Some deferred) \<Rightarrow>
          if cl_phase cl \<noteq> Waiting then None
          else Some (acquire_return k cl
                 (bind_res (deferred_reply deferred) (\<lambda>fencingToken. Ok (granted_lease now cl fencingToken))) st)
      | _ \<Rightarrow> None)"
| "acquire_step (GiveUp k cause) st =
     (case ac_calls st k of
        Some cl \<Rightarrow> if cl_phase cl \<noteq> Waiting then None else Some (acquire_return k cl (Err cause) st)
      | None \<Rightarrow> None)"

fun acquire_run :: "acquire_event list \<Rightarrow> acquire_state \<Rightarrow> acquire_state option" where
  "acquire_run [] st = Some st"
| "acquire_run (e # es) st = (case acquire_step e st of None \<Rightarrow> None | Some st' \<Rightarrow> acquire_run es st')"

section \<open>Concurrent acquisitions\<close>

text \<open>A message that grants a lease under a fencing token.\<close>

definition grant_message :: "bytes \<Rightarrow> u64 \<Rightarrow> bool" where
  "grant_message m tok \<longleftrightarrow> (\<exists>t rest. (t = 0 \<or> t = 1) \<and> m = [0, t] @ PutUint64 tok @ rest)"

lemma grant_fields:
  assumes "9 \<le> length remaining" "remaining ! 0 = t" "Uint64 (slice_bytes) = Ok tok" "slice remaining 1 9 = Ok slice_bytes"
  shows "\<exists>rest. remaining = t # PutUint64 tok @ rest"
proof -
  obtain q where q: "remaining = t # q" "8 \<le> length q" using assms(1,2) by (cases remaining) auto
  then have "slice_bytes = take 8 q" using assms(4) by (simp add: slice_def split: if_splits)
  then have "PutUint64 tok = take 8 q" using Put_Uint(3) [OF assms(3)] by simp
  then have "remaining = t # PutUint64 tok @ drop 8 q" using q by simp
  then show ?thesis by blast
qed

lemma acquire_reply_Granted:
  assumes "acquire_reply w sent = Ok (Granted tok)"
  shows "\<exists>resp. sent = Ok resp \<and> grant_message resp tok"
proof -
  obtain resp where sent: "sent = Ok resp" using assms by (cases sent) (auto simp: acquire_reply_def)
  obtain remaining where p: "ParseStandardResponse resp = Ok (True, remaining)"
    using assms sent by (cases "ParseStandardResponse resp") (auto simp: acquire_reply_def split: if_splits)
  have n: "9 \<le> length remaining" using assms sent p by (auto simp: acquire_reply_def split: if_splits)
  have i: "index remaining 0 = Ok (remaining ! 0)" using n by (intro index_Ok) linarith
  obtain b where b: "slice remaining 1 9 = Ok b" "Uint64 b = Ok tok" "remaining ! 0 = 0 \<or> remaining ! 0 = 1"
    using assms sent p n i by (auto simp: acquire_reply_def bind_res_Ok_iff split: if_splits)
  obtain rest where "remaining = remaining ! 0 # PutUint64 tok @ rest" using grant_fields [OF n refl b(2,1)] by blast
  moreover have "resp = 0 # remaining" using p by (simp add: ParseStandardResponse_Ok_iff)
  ultimately have "resp = [0, remaining ! 0] @ PutUint64 tok @ rest" by simp
  then show ?thesis using sent b(3) unfolding grant_message_def by blast
qed

lemma deferred_reply_Ok:
  assumes "deferred_reply d = Ok tok"
  shows "grant_message d tok"
proof -
  obtain remaining b where p: "ParseStandardResponse d = Ok (True, remaining)" "9 \<le> length remaining"
    "remaining ! 0 = 0 \<or> remaining ! 0 = 1" "slice remaining 1 9 = Ok b" "Uint64 b = Ok tok"
    using assms by (auto simp: deferred_reply_def bind_res_Ok_iff split: if_splits)
  obtain rest where "remaining = remaining ! 0 # PutUint64 tok @ rest" using grant_fields [OF p(2) refl p(5,4)] by blast
  moreover have "d = 0 # remaining" using p by (simp add: ParseStandardResponse_Ok_iff)
  ultimately have "d = [0, remaining ! 0] @ PutUint64 tok @ rest" by simp
  then show ?thesis using p(3) unfolding grant_message_def by blast
qed

definition pending :: "acquire_call \<Rightarrow> bool" where
  "pending cl \<longleftrightarrow> cl_phase cl = Requesting \<or> cl_phase cl = Waiting"

definition pending_in :: "(nat \<rightharpoonup> acquire_call) \<Rightarrow> nat \<Rightarrow> bool" where
  "pending_in calls k = (case calls k of None \<Rightarrow> False | Some cl \<Rightarrow> pending cl)"

lemma pending_in_upd [simp]: "pending_in (calls(k \<mapsto> cl)) j \<longleftrightarrow> (if j = k then pending cl else pending_in calls j)"
  by (simp add: pending_in_def)

lemma pending_in_None [simp]: "calls k = None \<Longrightarrow> \<not> pending_in calls k"
  by (simp add: pending_in_def)

text \<open>The gate is held by the one call under way, and only that call can have a registered, unserved waiter.\<close>

definition gate_inv :: "acquire_state \<Rightarrow> bool" where
  "gate_inv st \<longleftrightarrow>
     (\<forall>k. pending_in (ac_calls st) k \<longleftrightarrow> ac_gate st = Some k) \<and>
     (ac_waiters st = [] \<or>
       (\<exists>k cl. ac_gate st = Some k \<and> ac_waiters st = [k] \<and> \<not> ac_done st k \<and> ac_calls st k = Some cl \<and>
          cl_waitSeconds cl > 0)) \<and>
     (\<forall>k. ac_response st k \<noteq> None \<longrightarrow> ac_done st k) \<and>
     (\<forall>k. ac_calls st k = None \<longrightarrow> \<not> ac_done st k)"

definition granted_inv :: "acquire_event list \<Rightarrow> acquire_state \<Rightarrow> bool" where
  "granted_inv evs st \<longleftrightarrow>
     (\<forall>k d. ac_response st k = Some d \<longrightarrow> Deferred d \<in> set evs) \<and>
     (\<forall>k cl l. ac_calls st k = Some cl \<longrightarrow> cl_phase cl = Returned (Ok l) \<longrightarrow>
        l_route l = cl_route cl \<and> l_ownerID l = cl_ownerID cl \<and>
        (\<exists>tok m. l_Token l = PutUint64 tok \<and> grant_message m tok \<and>
           ((\<exists>now. Reply k now (Ok m) \<in> set evs) \<or> Deferred m \<in> set evs)))"

lemma acquire_run_snoc:
  "acquire_run (es @ [e]) st = (case acquire_run es st of None \<Rightarrow> None | Some st' \<Rightarrow> acquire_step e st')"
  by (induction es arbitrary: st) (auto split: option.split)

lemmas acquire_defs = markAcquireWaiterDone_def handleDeferredAcquire_def acquire_return_def Let_def

lemma gate_inv_return:
  assumes i: "gate_inv st" and cl: "ac_calls st k = Some cl" "pending cl"
  shows "gate_inv (acquire_return k cl r st)"
proof -
  let ?st = "acquire_return k cl r st"
  have gate: "ac_gate st = Some k" using i cl by (auto simp: gate_inv_def pending_in_def)
  have calls: "ac_calls ?st = (ac_calls st)(k \<mapsto> cl\<lparr>cl_phase := Returned r\<rparr>)" "ac_gate ?st = None"
    by (simp_all add: acquire_defs)
  have "ac_waiters ?st = []" using i gate cl(1) by (auto simp: acquire_defs gate_inv_def)
  moreover have "ac_response ?st = ac_response st" "\<And>j. ac_done st j \<Longrightarrow> ac_done ?st j"
    "\<And>j. j \<noteq> k \<Longrightarrow> ac_done ?st j = ac_done st j"
    by (simp_all add: acquire_defs)
  moreover have "\<not> pending_in (ac_calls ?st) j" for j
    using i gate by (auto simp: calls gate_inv_def pending_def)
  ultimately show ?thesis unfolding gate_inv_def using i by (simp add: calls gate_inv_def)
qed

lemma gate_inv_deferred:
  assumes i: "gate_inv st"
  shows "gate_inv (handleDeferredAcquire payload st)"
proof -
  consider "ac_waiters st = []" | k where "ac_waiters st = [k]" "\<not> ac_done st k" "ac_calls st k \<noteq> None"
    using i by (auto simp: gate_inv_def)
  then show ?thesis using i by cases (simp_all add: handleDeferredAcquire_def gate_inv_def)
qed

lemma gate_inv_returned:
  assumes "gate_inv st" "ac_calls st k = None" "\<not> pending cl"
  shows "gate_inv (st\<lparr>ac_calls := (ac_calls st)(k \<mapsto> cl)\<rparr>)"
proof -
  have "ac_gate st \<noteq> Some k" using assms(1) pending_in_None [of "ac_calls st" k] assms(2) unfolding gate_inv_def by metis
  then show ?thesis using assms by (auto simp: gate_inv_def)
qed

lemma gate_inv_enter:
  assumes "gate_inv st" "ac_calls st k = None" "ac_gate st = None" "pending cl" "ws = (if cl_waitSeconds cl > 0 then [k] else [])"
  shows "ac_waiters st = [] \<and> gate_inv (st\<lparr>ac_gate := Some k, ac_waiters := ws, ac_calls := (ac_calls st)(k \<mapsto> cl)\<rparr>)"
  using assms by (auto simp: gate_inv_def)

lemma gate_inv_step:
  assumes i: "gate_inv st" and s: "acquire_step e st = Some st'"
  shows "gate_inv st'"
proof (cases e)
  case (Enter k route ownerID ttl wait)
  let ?cl = "\<lparr>cl_route = route, cl_ownerID = ownerID, cl_ttlSecs = ttl, cl_waitSeconds = wait, cl_phase = Requesting\<rparr>"
  have k: "ac_calls st k = None" using s Enter by (auto split: if_splits)
  have p: "pending ?cl" "\<And>r. \<not> pending (?cl\<lparr>cl_phase := Returned r\<rparr>)" by (simp_all add: pending_def)
  have "gate_inv (st\<lparr>ac_calls := (ac_calls st)(k \<mapsto> ?cl\<lparr>cl_phase := Returned r\<rparr>)\<rparr>)" for r
    using gate_inv_returned [OF i k p(2)] .
  moreover have "gate_inv (st\<lparr>ac_gate := Some k, ac_waiters := (if wait > 0 then ac_waiters st @ [k] else ac_waiters st),
      ac_calls := (ac_calls st)(k \<mapsto> ?cl)\<rparr>)" if "ac_gate st = None"
    using gate_inv_enter [OF i k that p(1) refl] by (auto split: if_splits)
  ultimately show ?thesis using s Enter k by (auto simp: Let_def split: res.splits if_splits)
next
  case (Refuse k route ownerID ttl wait cause)
  then show ?thesis using s gate_inv_returned [OF i, of k] by (auto simp: pending_def split: if_splits)
next
  case (Reply k now sent)
  then obtain cl where cl: "ac_calls st k = Some cl" "cl_phase cl = Requesting"
    using s by (auto split: option.splits if_splits)
  have p: "pending cl" "pending (cl\<lparr>cl_phase := Waiting\<rparr>)" using cl(2) by (simp_all add: pending_def)
  then have "gate_inv (st\<lparr>ac_calls := (ac_calls st)(k \<mapsto> cl\<lparr>cl_phase := Waiting\<rparr>)\<rparr>)"
    using i cl(1) by (auto simp: gate_inv_def pending_in_def)
  then show ?thesis
    using s Reply cl gate_inv_return [OF i cl(1) p(1)] by (auto split: res.splits acquire_outcome.splits)
next
  case (Deferred payload)
  then show ?thesis using s gate_inv_deferred [OF i, of payload] by simp
next
  case (Resume k now)
  then show ?thesis using s gate_inv_return [OF i] by (auto simp: pending_def split: option.splits if_splits)
next
  case (GiveUp k cause)
  then show ?thesis using s gate_inv_return [OF i] by (auto simp: pending_def split: option.splits if_splits)
qed

lemma granted_inv_return:
  assumes "granted_inv evs st" "ac_calls st k = Some cl"
    "\<And>l. r = Ok l \<Longrightarrow> l_route l = cl_route cl \<and> l_ownerID l = cl_ownerID cl \<and>
       (\<exists>tok m. l_Token l = PutUint64 tok \<and> grant_message m tok \<and> ((\<exists>now. Reply k now (Ok m) \<in> set (evs @ [e])) \<or> Deferred m \<in> set (evs @ [e])))"
  shows "granted_inv (evs @ [e]) (acquire_return k cl r st)"
proof -
  have "ac_response (acquire_return k cl r st) = ac_response st"
    "ac_calls (acquire_return k cl r st) = (ac_calls st)(k \<mapsto> cl\<lparr>cl_phase := Returned r\<rparr>)"
    by (simp_all add: acquire_defs)
  then show ?thesis using assms unfolding granted_inv_def by (auto; blast)
qed

lemma deferred_loop_calls [simp]: "ac_calls (deferred_loop p ws st) = ac_calls st"
  by (induction ws) auto

lemma deferred_loop_response: "ac_response (deferred_loop p ws st) k = Some d \<Longrightarrow> ac_response st k = Some d \<or> d = p"
  by (induction ws) (auto split: if_splits)

lemma granted_inv_mono: "granted_inv evs st \<Longrightarrow> granted_inv (evs @ [e]) st"
  unfolding granted_inv_def by (simp; blast)

lemma granted_inv_call:
  assumes "granted_inv evs st" "\<And>l. cl_phase cl \<noteq> Returned (Ok l)"
  shows "granted_inv evs (st\<lparr>ac_gate := g, ac_waiters := ws, ac_calls := (ac_calls st)(k \<mapsto> cl)\<rparr>)"
  using assms unfolding granted_inv_def by simp

lemma granted_inv_step:
  assumes i: "granted_inv evs st" and s: "acquire_step e st = Some st'"
  shows "granted_inv (evs @ [e]) st'"
proof (cases e)
  case (Enter k route ownerID ttl wait)
  then show ?thesis using s granted_inv_mono [OF i, of e] 
    by (auto simp: granted_inv_def Let_def split: if_splits res.splits)
next
  case (Refuse k route ownerID ttl wait cause)
  then show ?thesis using s granted_inv_mono [OF i, of e] by (auto simp: granted_inv_def split: if_splits)
next
  case (Reply k now sent)
  then obtain cl where cl: "ac_calls st k = Some cl" using s by (auto split: option.splits)
  let ?r = "acquire_reply (cl_waitSeconds cl > 0) sent"
  have "granted_inv (evs @ [e]) (acquire_return k cl (Ok (granted_lease now cl tok)) st)" if "?r = Ok (Granted tok)" for tok
    using acquire_reply_Granted [OF that] Reply
    by (intro granted_inv_return [OF i cl]) (fastforce simp: granted_lease_def)
  moreover have "granted_inv (evs @ [e]) (acquire_return k cl r st)" if "\<not> is_Ok r" for r
    using that by (intro granted_inv_return [OF i cl]) (simp add: is_Ok_iff)
  moreover have "granted_inv (evs @ [e]) (st\<lparr>ac_calls := (ac_calls st)(k \<mapsto> cl\<lparr>cl_phase := Waiting\<rparr>)\<rparr>)"
    using granted_inv_call [OF granted_inv_mono [OF i, of e],
        where cl = "cl\<lparr>cl_phase := Waiting\<rparr>" and g = "ac_gate st" and ws = "ac_waiters st" and k = k] by simp
  ultimately show ?thesis using s Reply cl by (auto simp: is_Ok_iff split: res.splits acquire_outcome.splits if_splits)
next
  case (Deferred payload)
  then show ?thesis using i s deferred_loop_response
    by (fastforce simp: granted_inv_def handleDeferredAcquire_def)
next
  case (Resume k now)
  then obtain cl d where cl: "ac_calls st k = Some cl" "ac_response st k = Some d"
    "st' = acquire_return k cl (bind_res (deferred_reply d) (\<lambda>tok. Ok (granted_lease now cl tok))) st"
    using s by (auto split: option.splits if_splits)
  have "Deferred d \<in> set evs" using i cl(2) by (simp add: granted_inv_def)
  then show ?thesis unfolding cl(3) using deferred_reply_Ok
    by (intro granted_inv_return [OF i cl(1)]) (fastforce simp: granted_lease_def bind_res_Ok_iff)
next
  case (GiveUp k cause)
  then obtain cl where cl: "ac_calls st k = Some cl" "st' = acquire_return k cl (Err cause) st"
    using s by (auto split: option.splits if_splits)
  show ?thesis unfolding cl(2) by (intro granted_inv_return [OF i cl(1)]) simp
qed

lemma acquire_run_invs: "acquire_run evs acquire_init = Some st \<Longrightarrow> gate_inv st \<and> granted_inv evs st"
proof (induction evs arbitrary: st rule: rev_induct)
  case Nil
  then show ?case by (auto simp: acquire_init_def gate_inv_def granted_inv_def pending_in_def)
next
  case (snoc e evs)
  then obtain st0 where "acquire_run evs acquire_init = Some st0" "acquire_step e st0 = Some st"
    by (auto simp: acquire_run_snoc split: option.splits)
  then show ?case using snoc.IH gate_inv_step granted_inv_step by blast
qed

text \<open>C21: Acquiring a lease. In every interleaving of acquisitions, at most one is between its entry and its return, a
  registered waiter is that one's and has not been served yet, so handing it a deferred response never
  blocks the dispatcher; and a call that returns a lease holds its own route and owner, with a token that some
  response to it or some deferred response granted.\<close>

theorem acquire_token_was_granted:
  assumes "acquire_run evs acquire_init = Some st"
  shows "(pending_in (ac_calls st) j \<longrightarrow> pending_in (ac_calls st) k \<longrightarrow> j = k) \<and>
    (w \<in> set (ac_waiters st) \<longrightarrow> pending_in (ac_calls st) w \<and> ac_response st w = None) \<and>
    (ac_calls st k = Some cl \<longrightarrow> cl_phase cl = Returned (Ok l) \<longrightarrow>
       l_route l = cl_route cl \<and> l_ownerID l = cl_ownerID cl \<and>
       (\<exists>tok m. l_Token l = PutUint64 tok \<and> grant_message m tok \<and>
          ((\<exists>now. Reply k now (Ok m) \<in> set evs) \<or> Deferred m \<in> set evs)))"
proof -
  have g: "gate_inv st" and gr: "granted_inv evs st" using acquire_run_invs [OF assms] by auto
  have "j = k" if "pending_in (ac_calls st) j" "pending_in (ac_calls st) k"
  proof -
    have "ac_gate st = Some j" "ac_gate st = Some k" using g that unfolding gate_inv_def by metis+
    then show ?thesis by simp
  qed
  moreover have "pending_in (ac_calls st) w \<and> ac_response st w = None" if w: "w \<in> set (ac_waiters st)"
  proof -
    have "ac_gate st = Some w" "\<not> ac_done st w" using g w by (auto simp: gate_inv_def)
    then show ?thesis using g unfolding gate_inv_def by metis
  qed
  moreover have "l_route l = cl_route cl \<and> l_ownerID l = cl_ownerID cl \<and>
      (\<exists>tok m. l_Token l = PutUint64 tok \<and> grant_message m tok \<and>
          ((\<exists>now. Reply k now (Ok m) \<in> set evs) \<or> Deferred m \<in> set evs))"
    if "ac_calls st k = Some cl" "cl_phase cl = Returned (Ok l)"
    using gr that unfolding granted_inv_def by blast
  ultimately show ?thesis by blast
qed

text \<open>
  A run of two acquisitions of different leases: the first is queued and gives up, the second is queued, and a
  grant arrives.
\<close>

definition queued_reply :: bytes where
  "queued_reply = [0, 2, 0, 0, 0, 0, 0, 0, 0, 0]"

definition late_grant :: "acquire_event list" where
  "late_grant =
     [Enter 0 ''lease://a/b/c'' ''me'' 30 10, Reply 0 100 (Ok queued_reply), GiveUp 0 Canceled,
      Enter 1 ''lease://x/y/z'' ''me'' 30 10, Reply 1 101 (Ok queued_reply),
      Deferred [0, 0, 0, 0, 0, 0, 0, 0, 0, 7], Resume 1 102]"

lemma lease_route_ok:
  "ValidateFixedRoute ''lease://a/b/c'' ''lease'' 3 = Ok ()" "ValidateFixedRoute ''lease://x/y/z'' ''lease'' 3 = Ok ()"
proof -
  have "scans ''lease://a/b/c'' ''lease'' [''a'', ''b'', ''c'']" "scans ''lease://x/y/z'' ''lease'' [''x'', ''y'', ''z'']"
    by (simp_all add: scans_def seg_ok_def wild_def)
  from this [THEN scans_scanRoute] show "ValidateFixedRoute ''lease://a/b/c'' ''lease'' 3 = Ok ()"
    "ValidateFixedRoute ''lease://x/y/z'' ''lease'' 3 = Ok ()"
    by (simp_all add: ValidateFixedRoute_def ValidateConcreteRoute_def shape_of_def first_wild_def wild_def)
qed

lemma late_grant_replies:
  "acquire_reply True (Ok queued_reply) = Ok AwaitDeferred" "deferred_reply [0, 0, 0, 0, 0, 0, 0, 0, 0, 7] = Ok 7"
  by (simp_all add: acquire_reply_def deferred_reply_def queued_reply_def ParseStandardResponse_def index_def slice_def
      slice_from_def int_eval)

definition late_grant_lease :: Lease where
  "late_grant_lease = \<lparr>l_Token = PutUint64 7, l_ExpiresAt = 132, l_route = ''lease://x/y/z'', l_ownerID = ''me'', l_closed = False\<rparr>"

lemma late_grant_run:
  "\<exists>st cl. acquire_run late_grant acquire_init = Some st \<and> ac_calls st 1 = Some cl \<and> cl_phase cl = Returned (Ok late_grant_lease)"
  by (simp add: late_grant_def acquire_init_def acquire_check_def lease_route_ok late_grant_replies acquire_defs
      granted_lease_def late_grant_lease_def Let_def)

lemma deferred_reply_grant:
  assumes "grant_message m tok"
  shows "deferred_reply m = Ok tok"
proof -
  obtain t rest where m: "t = 0 \<or> t = 1" "m = 0 # (t # PutUint64 tok @ rest)" using assms by (auto simp: grant_message_def)
  have "ParseStandardResponse m = Ok (True, t # PutUint64 tok @ rest)" by (simp add: m(2) ParseStandardResponse_Ok_iff)
  moreover have "slice (t # PutUint64 tok @ rest) 1 9 = Ok (PutUint64 tok)" by (simp add: slice_def)
  ultimately show ?thesis using m(1) by (auto simp: deferred_reply_def)
qed

text \<open>After the call that holds the gate has given up, another call enters, is queued, and is handed the next deferred response.\<close>

lemma next_waiter_served:
  fixes cause ttl now m
  assumes "gate_inv st" "ac_calls st j = Some cl" "cl_phase cl = Waiting" "ac_calls st k = None" "acquire_check route owner = Ok ()" "0 < wait"
  defines "given_up \<equiv> acquire_return j cl (Err cause) st"
  defines "queued \<equiv> \<lparr>cl_route = route, cl_ownerID = owner, cl_ttlSecs = ttl, cl_waitSeconds = wait, cl_phase = Waiting\<rparr>"
  shows "acquire_run [GiveUp j cause, Enter k route owner ttl wait, Reply k now (Ok queued_reply), Deferred m] st =
    Some (given_up\<lparr>ac_gate := Some k, ac_waiters := [], ac_calls := (ac_calls given_up)(k \<mapsto> queued),
      ac_done := (ac_done given_up)(k := True), ac_response := (ac_response given_up)(k \<mapsto> m)\<rparr>)"
proof -
  have "pending cl" using assms(3) by (simp add: pending_def)
  then have g: "gate_inv given_up" using gate_inv_return [OF assms(1,2)] by (simp add: given_up_def)
  have gate: "ac_gate given_up = None" "ac_calls given_up = (ac_calls st)(j \<mapsto> cl\<lparr>cl_phase := Returned (Err cause)\<rparr>)"
    by (simp_all add: given_up_def acquire_defs)
  have k: "ac_calls given_up k = None" using assms(2,4) by (auto simp: gate)
  have w: "ac_waiters given_up = []" "\<not> ac_done given_up k" using g gate(1) k by (auto simp: gate_inv_def)
  have "acquire_step (GiveUp j cause) st = Some given_up" using assms(2,3) by (simp add: given_up_def)
  then show ?thesis using assms(5,6) gate(1) k w by (simp add: late_grant_replies queued_def handleDeferredAcquire_def Let_def)
qed

text \<open>C28: Late grants. A deferred response names no lease and goes to whichever call waits now. In every interleaving of
  acquisitions, when a queued one gives up and any other acquisition, of whatever route, is queued after it, a grant that arrives then
  (the broker's grant to the first, sent before it learnt of the withdrawal, has no other form) is returned by the second as a lease on
  its own route under the token of that grant.\<close>

theorem late_grant_goes_to_next_waiter:
  assumes "acquire_run evs acquire_init = Some st" "ac_calls st j = Some cl" "cl_phase cl = Waiting"
    and "ac_calls st k = None" "acquire_check route owner = Ok ()" "0 < wait" "grant_message m tok"
  shows "\<exists>st' cl'. acquire_run (evs @ [GiveUp j cause, Enter k route owner ttl wait, Reply k now (Ok queued_reply), Deferred m, Resume k now'])
      acquire_init = Some st' \<and>
    ac_calls st' j = Some (cl\<lparr>cl_phase := Returned (Err cause)\<rparr>) \<and> ac_calls st' k = Some cl' \<and>
    cl_phase cl' = Returned (Ok \<lparr>l_Token = PutUint64 tok, l_ExpiresAt = now' + ttl, l_route = route, l_ownerID = owner, l_closed = False\<rparr>)"
proof -
  have app: "acquire_run (es @ fs) st0 = (case acquire_run es st0 of None \<Rightarrow> None | Some st1 \<Rightarrow> acquire_run fs st1)" for es fs st0
    by (induction es arbitrary: st0) (auto split: option.split)
  have g: "gate_inv st" using acquire_run_invs [OF assms(1)] by simp
  have jk: "j \<noteq> k" using assms(2,4) by auto
  let ?s = "acquire_return j cl (Err cause) st"
  let ?q = "\<lparr>cl_route = route, cl_ownerID = owner, cl_ttlSecs = ttl, cl_waitSeconds = wait, cl_phase = Waiting\<rparr>"
  define st1 where "st1 = ?s\<lparr>ac_gate := Some k, ac_waiters := [], ac_calls := (ac_calls ?s)(k \<mapsto> ?q),
      ac_done := (ac_done ?s)(k := True), ac_response := (ac_response ?s)(k \<mapsto> m)\<rparr>"
  have 1: "acquire_run [GiveUp j cause, Enter k route owner ttl wait, Reply k now (Ok queued_reply), Deferred m] st = Some st1"
    unfolding st1_def by (rule next_waiter_served [OF g assms(2-6)])
  have 2: "acquire_step (Resume k now') st1 = Some (acquire_return k ?q (Ok (granted_lease now' ?q tok)) st1)"
    by (simp add: st1_def deferred_reply_grant [OF assms(7)])
  have "acquire_run ((evs @ [GiveUp j cause, Enter k route owner ttl wait, Reply k now (Ok queued_reply), Deferred m]) @ [Resume k now']) acquire_init =
      Some (acquire_return k ?q (Ok (granted_lease now' ?q tok)) st1)"
    unfolding acquire_run_snoc unfolding app using assms(1) 1 2 by (simp only: option.case)
  moreover have "ac_calls st1 j = Some (cl\<lparr>cl_phase := Returned (Err cause)\<rparr>)" using jk by (simp add: st1_def acquire_defs)
  ultimately show ?thesis using jk by (simp add: acquire_defs granted_lease_def)
qed

theorem late_grant_goes_to_next_waiter_witness:
  "\<exists>st cl. acquire_run [Enter 4 ''lease://a/b/c'' ''me'' 30 10, Reply 4 100 (Ok queued_reply), GiveUp 4 Canceled,
      Enter 9 ''lease://x/y/z'' ''you'' 60 5, Reply 9 101 (Ok queued_reply), Deferred [0, 1, 0, 0, 0, 0, 0, 0, 0, 8], Resume 9 102] acquire_init = Some st \<and>
     ac_calls st 9 = Some cl \<and> cl_phase cl =
       Returned (Ok \<lparr>l_Token = PutUint64 8, l_ExpiresAt = 162, l_route = ''lease://x/y/z'', l_ownerID = ''you'', l_closed = False\<rparr>)"
proof -
  let ?cl = "\<lparr>cl_route = ''lease://a/b/c'', cl_ownerID = ''me'', cl_ttlSecs = 30, cl_waitSeconds = 10, cl_phase = Waiting\<rparr>"
  let ?st = "acquire_init\<lparr>ac_gate := Some 4, ac_waiters := [4], ac_calls := [4 \<mapsto> ?cl]\<rparr>"
  have r: "acquire_run [Enter 4 ''lease://a/b/c'' ''me'' 30 10, Reply 4 100 (Ok queued_reply)] acquire_init = Some ?st"
    by (simp add: acquire_init_def acquire_check_def lease_route_ok late_grant_replies)
  have g: "grant_message [0, 1, 0, 0, 0, 0, 0, 0, 0, 8] 8"
    unfolding grant_message_def by (intro exI [of _ 1] exI [of _ "[]"]) (simp add: int_eval)
  have c: "acquire_check ''lease://x/y/z'' ''you'' = Ok ()" by (simp add: acquire_check_def lease_route_ok)
  have p: "ac_calls ?st 4 = Some ?cl" "cl_phase ?cl = Waiting" "ac_calls ?st 9 = None" "(0 :: u32) < 5" by (simp_all add: acquire_init_def)
  from late_grant_goes_to_next_waiter [OF r p(1-3) c p(4) g, where cause = Canceled and ttl = 60 and now = 101 and now' = 102]
  show ?thesis by (fastforce simp del: acquire_run.simps acquire_step.simps)
qed

theorem acquire_token_was_granted_witness:
  "\<exists>tok. l_Token late_grant_lease = PutUint64 tok \<and>
     (\<exists>m. grant_message m tok \<and> ((\<exists>now. Reply 1 now (Ok m) \<in> set late_grant) \<or> Deferred m \<in> set late_grant))"
proof -
  obtain st cl where r: "acquire_run late_grant acquire_init = Some st" "ac_calls st 1 = Some cl"
    "cl_phase cl = Returned (Ok late_grant_lease)"
    using late_grant_run by blast
  from acquire_token_was_granted [OF r(1), where k = 1 and cl = cl and l = late_grant_lease and j = 0 and w = 0] r(2,3)
  show ?thesis by blast
qed

end
