(* ===== verification/Lease_Observer.thy ===== *)
theory Lease_Observer
  imports Lease_Domain
begin

text \<open>
  The inventory observer of leases (\<^verbatim>\<open>internal/domains/lease/observer.go\<close>): a local view of the leases a pattern
  selects, kept current by full listings. Its state is guarded by four mutexes; each definition of the first
  sections is one section the code runs under a mutex, and the last part interleaves these sections
  with the broker's changes and notifications. \<open>refreshMu\<close> admits one refresh at a time.
\<close>

section \<open>State\<close>

text \<open>
  \<open>ob_changed\<close> is the channel of capacity one, full or not. The subscription generation is a counter of
  64 bits in the code; it is a number here, as no pass spans \<open>2\<^sup>6\<^sup>4\<close> reconnects.
\<close>

record observer =
  ob_view :: "string \<rightharpoonup> LeaseEntry"
  ob_ready :: bool
  ob_sub :: "nat option"
  ob_bootstrapping :: bool
  ob_pendingInvalidation :: bool
  ob_reconcileRequested :: bool
  ob_subscriptionGeneration :: nat
  ob_changed :: bool
  ob_closing :: bool
  ob_recoveryRunning :: bool
  ob_recoveryRequested :: bool
  ob_recoveryNeedsSubscribe :: bool

definition observer_init :: observer where
  "observer_init = \<lparr>ob_view = Map.empty, ob_ready = False, ob_sub = None, ob_bootstrapping = False,
     ob_pendingInvalidation = False, ob_reconcileRequested = False, ob_subscriptionGeneration = 0, ob_changed = False,
     ob_closing = False, ob_recoveryRunning = False, ob_recoveryRequested = False, ob_recoveryNeedsSubscribe = False\<rparr>"

definition signalChanged :: "observer \<Rightarrow> observer" where
  "signalChanged ob = ob\<lparr>ob_changed := True\<rparr>"

text \<open>\<open>checkObserve\<close> are the checks of \<open>Observe\<close>; the jitter is a fraction, given in parts of a thousand.\<close>

definition checkObserve :: "string \<Rightarrow> int \<Rightarrow> int \<Rightarrow> unit res" where
  "checkObserve pat interval jitter =
     bind_res (validateLeaseSubscribeSelector pat) (\<lambda>_.
       if interval \<le> 0 then Err (ErrNew ''lease observer reconciliation interval must be positive'')
       else if jitter < 0 \<or> jitter \<ge> 1000 then Err (ErrNew ''lease observer reconciliation jitter must be in [0, 1)'')
       else Ok ())"

section \<open>Listing everything\<close>

definition listAll :: "'s conn_api \<Rightarrow> string \<Rightarrow> 's \<Rightarrow> ((string \<rightharpoonup> LeaseEntry) res \<times> 's) option" where
  "listAll c pat s =
     (case Lease_List pat 0 of
        Ok it \<Rightarrow>
          map_option (\<lambda>(r, (s', _), view). (bind_res r (\<lambda>_. Ok view), s'))
            (ForEach (lli_Next c) lli_Value lli_Err lli_Close (\<lambda>entry view. (Ok (), view(Le_Route entry \<mapsto> entry)))
              (s, it) Map.empty)
      | Err e \<Rightarrow> Some (Err e, s)
      | Panic \<Rightarrow> Some (Panic, s))"

section \<open>Sections of a bootstrap\<close>

definition bootstrap_begin :: "observer \<Rightarrow> observer" where
  "bootstrap_begin ob =
     (if \<not> ob_bootstrapping ob then ob\<lparr>ob_bootstrapping := True, ob_pendingInvalidation := False\<rparr> else ob)"

text \<open>After SUBSCRIBE: the subscription is kept and the generation moves on; a failure ends the bootstrap.\<close>

definition bootstrap_subscribed :: "nat \<Rightarrow> observer \<Rightarrow> observer" where
  "bootstrap_subscribed sub ob =
     ob\<lparr>ob_sub := Some sub, ob_subscriptionGeneration := ob_subscriptionGeneration ob + 1\<rparr>"

definition bootstrap_abort :: "observer \<Rightarrow> observer" where
  "bootstrap_abort ob = ob\<lparr>ob_bootstrapping := False\<rparr>"

datatype pass_outcome = SubscriptionChanged | Repeat | Installed

text \<open>After a complete listing, begun under the generation \<open>gen\<close>.\<close>

definition bootstrap_pass_end :: "nat \<Rightarrow> (string \<rightharpoonup> LeaseEntry) \<Rightarrow> observer \<Rightarrow> pass_outcome \<times> observer" where
  "bootstrap_pass_end gen view ob =
     (if ob_subscriptionGeneration ob \<noteq> gen then (SubscriptionChanged, ob)
      else if ob_pendingInvalidation ob then (Repeat, ob\<lparr>ob_pendingInvalidation := False\<rparr>)
      else (Installed, signalChanged (ob\<lparr>ob_view := view, ob_ready := True, ob_bootstrapping := False\<rparr>)))"

section \<open>Notifications and reconciliation\<close>

definition obs_invalidate :: "observer \<Rightarrow> observer" where
  "obs_invalidate ob =
     (if ob_bootstrapping ob then ob\<lparr>ob_pendingInvalidation := True\<rparr> else ob\<lparr>ob_reconcileRequested := True\<rparr>)"

text \<open>Whether a reconciliation lists; \<open>handleNotify\<close> and the loop of \<open>reconcileView\<close> ask it.\<close>

definition reconcile_begin :: "observer \<Rightarrow> bool \<times> observer" where
  "reconcile_begin ob =
     (if ob_bootstrapping ob \<or> \<not> ob_reconcileRequested ob then (False, ob)
      else (True, ob\<lparr>ob_reconcileRequested := False\<rparr>))"

definition reconcile_pass_end :: "(string \<rightharpoonup> LeaseEntry) \<Rightarrow> observer \<Rightarrow> pass_outcome \<times> observer" where
  "reconcile_pass_end view ob =
     (if ob_bootstrapping ob then (SubscriptionChanged, ob)
      else if ob_reconcileRequested ob then (Repeat, ob)
      else (Installed, signalChanged (ob\<lparr>ob_view := view, ob_ready := True\<rparr>)))"

text \<open>A tick of the periodic reconciliation of \<open>run\<close>.\<close>

definition run_tick :: "observer \<Rightarrow> observer" where
  "run_tick ob = ob\<lparr>ob_reconcileRequested := True\<rparr>"

section \<open>Recovery\<close>

text \<open>\<open>triggerBackgroundBootstrap\<close>, in the three sections it runs under \<open>mu\<close>, \<open>bootstrapMu\<close> and \<open>lifecycleMu\<close>.\<close>

definition trigger_unready :: "observer \<Rightarrow> observer" where
  "trigger_unready ob = ob\<lparr>ob_ready := False\<rparr>"

definition trigger_restart :: "observer \<Rightarrow> observer" where
  "trigger_restart ob = signalChanged (ob\<lparr>ob_bootstrapping := True, ob_pendingInvalidation := False,
     ob_reconcileRequested := False, ob_subscriptionGeneration := ob_subscriptionGeneration ob + 1\<rparr>)"

text \<open>The result says whether a recovery goroutine is started.\<close>

definition trigger_request :: "bool \<Rightarrow> observer \<Rightarrow> bool \<times> observer" where
  "trigger_request subscribe ob =
     (if ob_closing ob then (False, ob)
      else let ob' = ob\<lparr>ob_recoveryRequested := True,
                         ob_recoveryNeedsSubscribe := ob_recoveryNeedsSubscribe ob \<or> subscribe\<rparr>
           in if ob_recoveryRunning ob' then (False, ob') else (True, ob'\<lparr>ob_recoveryRunning := True\<rparr>))"

text \<open>The sections of the recovery loop: the request it takes, and what follows the bootstrap it ran.\<close>

definition recovery_stop :: "observer \<Rightarrow> observer" where
  "recovery_stop ob = ob\<lparr>ob_recoveryRunning := False\<rparr>"

definition recovery_take :: "observer \<Rightarrow> bool \<times> observer" where
  "recovery_take ob =
     (ob_recoveryNeedsSubscribe ob, ob\<lparr>ob_recoveryNeedsSubscribe := False, ob_recoveryRequested := False\<rparr>)"

definition recovery_after :: "bool \<Rightarrow> bool \<Rightarrow> observer \<Rightarrow> bool \<times> observer" where
  "recovery_after failed needsSubscribe ob =
     (if failed
      then (True, ob\<lparr>ob_recoveryRequested := True, ob_recoveryNeedsSubscribe := ob_recoveryNeedsSubscribe ob \<or> needsSubscribe\<rparr>)
      else if \<not> ob_recoveryRequested ob then (False, recovery_stop ob)
      else (True, ob))"

text \<open>\<open>Close\<close>, up to its wait for the goroutines.\<close>

definition obs_close :: "observer \<Rightarrow> observer" where
  "obs_close ob = ob\<lparr>ob_closing := True\<rparr>"

section \<open>Interleavings\<close>

text \<open>
  The broker's leases change, which \<open>w_version\<close> counts; a notification tells the observer of a change at some
  later time, and \<open>w_seen\<close> is the newest change it was told of. A listing shows at least the changes made before it
  began; \<open>w_viewVersion\<close> is that point for the view in place. \<open>w_refresh\<close> is where the holder of
  \<open>refreshMu\<close> is, and \<open>w_failed\<close> that a refresh failed since the last view was installed. A bootstrap is run by the call of \<open>Observe\<close>,
  whose progress is \<open>w_observe\<close>, or by the recovery goroutine, whose place in its loop is \<open>w_recovery\<close>, with the request it serves.
  \<open>w_unready\<close> and \<open>w_restarted\<close> are the triggers that have run their first and their second section, with their argument: a reconnect
  triggers with False once \<open>Observe\<close> has returned, an overflow of the subscription with True.
\<close>

datatype observe_phase = ObserveCalled | ObserveBootstraps | ObserveReturned | ObserveFailed

datatype recovery_phase = RecoveryIdle | RecoveryTaken bool | RecoveryBootstraps bool | RecoveryBootstrapped bool bool

datatype refresh =
    NoRefresh
  | Subscribing
  | BootstrapLoop
  | BootstrapListing nat nat
  | ReconcileLoop
  | ReconcileListing nat

record obs_world =
  w_obs :: observer
  w_refresh :: refresh
  w_version :: nat
  w_seen :: nat
  w_viewVersion :: nat
  w_failed :: bool
  w_observe :: observe_phase
  w_recovery :: recovery_phase
  w_unready :: "bool list"
  w_restarted :: "bool list"

definition obs_world_init :: obs_world where
  "obs_world_init = \<lparr>w_obs = observer_init, w_refresh = NoRefresh, w_version = 0, w_seen = 0, w_viewVersion = 0,
     w_failed = False, w_observe = ObserveCalled, w_recovery = RecoveryIdle, w_unready = [], w_restarted = []\<rparr>"

text \<open>The end of a bootstrap, for the one who runs it.\<close>

definition bootstrap_returns :: "bool \<Rightarrow> obs_world \<Rightarrow> obs_world" where
  "bootstrap_returns failed w =
     (case w_recovery w of
        RecoveryBootstraps needs \<Rightarrow> w\<lparr>w_recovery := RecoveryBootstrapped failed needs\<rparr>
      | _ \<Rightarrow> w\<lparr>w_observe := if failed then ObserveFailed else ObserveReturned\<rparr>)"

text \<open>Notifications and overflows come from the subscription, which exists from the SUBSCRIBE request on.\<close>

definition subscribed :: "obs_world \<Rightarrow> bool" where
  "subscribed w \<longleftrightarrow> w_refresh w = Subscribing \<or> ob_sub (w_obs w) \<noteq> None"

inductive obs_step :: "obs_world \<Rightarrow> obs_world \<Rightarrow> bool" where
  change: "obs_step w (w\<lparr>w_version := w_version w + 1\<rparr>)"
| notify: "v \<le> w_version w \<Longrightarrow> subscribed w \<Longrightarrow>
    obs_step w (w\<lparr>w_seen := max (w_seen w) v, w_obs := obs_invalidate (w_obs w)\<rparr>)"
| observe: "w_refresh w = NoRefresh \<Longrightarrow> w_observe w = ObserveCalled \<Longrightarrow>
    obs_step w (w\<lparr>w_obs := bootstrap_begin (w_obs w), w_refresh := Subscribing, w_observe := ObserveBootstraps\<rparr>)"
| recover: "w_refresh w = NoRefresh \<Longrightarrow> w_recovery w = RecoveryTaken needs \<Longrightarrow>
    obs_step w (w\<lparr>w_obs := bootstrap_begin (w_obs w), w_refresh := (if needs then Subscribing else BootstrapLoop),
      w_recovery := RecoveryBootstraps needs\<rparr>)"
| boot_subscribed: "w_refresh w = Subscribing \<Longrightarrow>
    obs_step w (w\<lparr>w_obs := bootstrap_subscribed sub (w_obs w), w_refresh := BootstrapLoop\<rparr>)"
| boot_list: "w_refresh w = BootstrapLoop \<Longrightarrow>
    obs_step w (w\<lparr>w_refresh := BootstrapListing (ob_subscriptionGeneration (w_obs w)) (w_version w)\<rparr>)"
| boot_fail: "w_refresh w = Subscribing \<or> w_refresh w = BootstrapListing gen v \<Longrightarrow>
    obs_step w (bootstrap_returns True (w\<lparr>w_obs := bootstrap_abort (w_obs w), w_refresh := NoRefresh, w_failed := True\<rparr>))"
| boot_changed: "w_refresh w = BootstrapListing gen v \<Longrightarrow> bootstrap_pass_end gen view (w_obs w) = (SubscriptionChanged, ob) \<Longrightarrow>
    obs_step w (bootstrap_returns True (w\<lparr>w_obs := ob, w_refresh := NoRefresh\<rparr>))"
| boot_repeat: "w_refresh w = BootstrapListing gen v \<Longrightarrow> bootstrap_pass_end gen view (w_obs w) = (Repeat, ob) \<Longrightarrow>
    obs_step w (w\<lparr>w_obs := ob, w_refresh := BootstrapLoop\<rparr>)"
| boot_install: "w_refresh w = BootstrapListing gen v \<Longrightarrow> bootstrap_pass_end gen view (w_obs w) = (Installed, ob) \<Longrightarrow>
    obs_step w (bootstrap_returns False (w\<lparr>w_obs := ob, w_refresh := NoRefresh, w_viewVersion := v, w_failed := False\<rparr>))"
| rec_stop: "w_refresh w = NoRefresh \<or> w_refresh w = ReconcileLoop \<Longrightarrow> reconcile_begin (w_obs w) = (False, ob) \<Longrightarrow>
    obs_step w (w\<lparr>w_obs := ob, w_refresh := NoRefresh\<rparr>)"
| rec_list: "w_refresh w = NoRefresh \<or> w_refresh w = ReconcileLoop \<Longrightarrow> reconcile_begin (w_obs w) = (True, ob) \<Longrightarrow>
    obs_step w (w\<lparr>w_obs := ob, w_refresh := ReconcileListing (w_version w)\<rparr>)"
| rec_fail: "w_refresh w = ReconcileListing v \<Longrightarrow> obs_step w (w\<lparr>w_refresh := NoRefresh, w_failed := True\<rparr>)"
| rec_changed: "w_refresh w = ReconcileListing v \<Longrightarrow> reconcile_pass_end view (w_obs w) = (SubscriptionChanged, ob) \<Longrightarrow>
    obs_step w (w\<lparr>w_obs := ob, w_refresh := NoRefresh\<rparr>)"
| rec_repeat: "w_refresh w = ReconcileListing v \<Longrightarrow> reconcile_pass_end view (w_obs w) = (Repeat, ob) \<Longrightarrow>
    obs_step w (w\<lparr>w_obs := ob, w_refresh := ReconcileLoop\<rparr>)"
| rec_install: "w_refresh w = ReconcileListing v \<Longrightarrow> reconcile_pass_end view (w_obs w) = (Installed, ob) \<Longrightarrow>
    obs_step w (w\<lparr>w_obs := ob, w_refresh := NoRefresh, w_viewVersion := v, w_failed := False\<rparr>)"
| tick: "w_observe w = ObserveReturned \<Longrightarrow> obs_step w (w\<lparr>w_obs := run_tick (w_obs w)\<rparr>)"
| unready: "(if sub then subscribed w else w_observe w = ObserveReturned) \<Longrightarrow>
    obs_step w (w\<lparr>w_obs := trigger_unready (w_obs w), w_unready := sub # w_unready w\<rparr>)"
| restart: "sub \<in> set (w_unready w) \<Longrightarrow>
    obs_step w (w\<lparr>w_obs := trigger_restart (w_obs w), w_unready := remove1 sub (w_unready w), w_restarted := sub # w_restarted w\<rparr>)"
| request: "sub \<in> set (w_restarted w) \<Longrightarrow>
    obs_step w (w\<lparr>w_obs := snd (trigger_request sub (w_obs w)), w_restarted := remove1 sub (w_restarted w)\<rparr>)"
| take_request: "ob_recoveryRunning (w_obs w) \<Longrightarrow> w_recovery w = RecoveryIdle \<Longrightarrow>
    obs_step w (w\<lparr>w_obs := snd (recovery_take (w_obs w)), w_recovery := RecoveryTaken (fst (recovery_take (w_obs w)))\<rparr>)"
| after_bootstrap: "w_recovery w = RecoveryBootstrapped failed needs \<Longrightarrow>
    obs_step w (w\<lparr>w_obs := snd (recovery_after failed needs (w_obs w)), w_recovery := RecoveryIdle\<rparr>)"
| recovery_ends: "ob_closing (w_obs w) \<Longrightarrow> w_recovery w = RecoveryIdle \<or> w_recovery w = RecoveryBootstrapped failed needs \<Longrightarrow>
    obs_step w (w\<lparr>w_obs := recovery_stop (w_obs w), w_recovery := RecoveryIdle\<rparr>)"
| shut: "obs_step w (w\<lparr>w_obs := obs_close (w_obs w)\<rparr>)"

definition obs_reachable :: "obs_world \<Rightarrow> bool" where
  "obs_reachable w \<longleftrightarrow> obs_step\<^sup>*\<^sup>* obs_world_init w"

text \<open>The listing in progress will show the change the observer was last told of, or the pass will be discarded.\<close>

definition refresh_ok :: "obs_world \<Rightarrow> bool" where
  "refresh_ok w =
     (case w_refresh w of
        NoRefresh \<Rightarrow> True
      | ReconcileLoop \<Rightarrow> True
      | ReconcileListing v \<Rightarrow>
          w_viewVersion w \<le> v \<and> v \<le> w_version w \<and>
          (w_seen w \<le> v \<or> ob_reconcileRequested (w_obs w) \<or> ob_bootstrapping (w_obs w))
      | BootstrapListing gen v \<Rightarrow>
          w_viewVersion w \<le> v \<and> v \<le> w_version w \<and> ob_bootstrapping (w_obs w) \<and>
          (w_seen w \<le> v \<or> ob_pendingInvalidation (w_obs w) \<or> ob_subscriptionGeneration (w_obs w) \<noteq> gen) \<and>
          gen \<le> ob_subscriptionGeneration (w_obs w)
      | _ \<Rightarrow> ob_bootstrapping (w_obs w))"

definition refreshing :: "refresh \<Rightarrow> bool" where
  "refreshing r \<longleftrightarrow> (\<exists>v. r = ReconcileListing v)"

definition obs_inv :: "obs_world \<Rightarrow> bool" where
  "obs_inv w \<longleftrightarrow> refresh_ok w \<and> w_seen w \<le> w_version w \<and> w_viewVersion w \<le> w_version w \<and>
     (w_seen w \<le> w_viewVersion w \<or> ob_bootstrapping (w_obs w) \<or> ob_reconcileRequested (w_obs w) \<or>
      refreshing (w_refresh w) \<or> w_failed w) \<and>
     (ob_recoveryRequested (w_obs w) \<longrightarrow> ob_recoveryRunning (w_obs w) \<or> ob_closing (w_obs w)) \<and>
     (w_recovery w \<noteq> RecoveryIdle \<longrightarrow> ob_recoveryRunning (w_obs w) \<or> ob_closing (w_obs w))"

lemmas obs_defs = signalChanged_def bootstrap_begin_def bootstrap_subscribed_def bootstrap_abort_def
  bootstrap_pass_end_def obs_invalidate_def reconcile_begin_def reconcile_pass_end_def run_tick_def trigger_unready_def
  trigger_restart_def trigger_request_def recovery_stop_def recovery_take_def recovery_after_def obs_close_def

lemma obs_inv_step:
  assumes "obs_step w w'" "obs_inv w"
  shows "obs_inv w'"
  using assms
  by cases (auto simp: obs_inv_def refresh_ok_def refreshing_def obs_defs bootstrap_returns_def Let_def
      split: refresh.splits if_splits recovery_phase.splits)

lemma obs_reachable_inv: "obs_reachable w \<Longrightarrow> obs_inv w"
  unfolding obs_reachable_def
proof (induction rule: rtranclp_induct)
  case base
  then show ?case by (simp add: obs_world_init_def observer_init_def obs_inv_def refresh_ok_def)
next
  case (step w w')
  then show ?case using obs_inv_step by blast
qed

lemma obs_step_view:
  assumes "obs_step w w'" "obs_inv w"
  shows "w_viewVersion w \<le> w_viewVersion w' \<and>
    (ob_view (w_obs w') \<noteq> ob_view (w_obs w) \<longrightarrow> w_seen w' \<le> w_viewVersion w')"
  using assms
  by cases (auto simp: obs_inv_def refresh_ok_def obs_defs bootstrap_returns_def Let_def split: refresh.splits if_splits recovery_phase.splits)

text \<open>\<open>listAll\<close> returns when the pages end, with the entries by route, a later entry of a route replacing an earlier.\<close>

lemma listAll_complete:
  assumes "validateLeaseSubscribeSelector pat = Ok ()" "listing c pat 0 None s xs e"
  shows "\<exists>s'. listAll c pat s =
    Some (case e of None \<Rightarrow> Ok (fold (\<lambda>entry view. view(Le_Route entry \<mapsto> entry)) xs Map.empty) | Some err \<Rightarrow> Err err, s')"
proof -
  let ?fn = "\<lambda>entry view. (Ok (), view(Le_Route entry \<mapsto> entry)) :: unit res \<times> (string \<rightharpoonup> LeaseEntry)"
  obtain it where it: "Lease_List pat 0 = Ok it" using assms(1) by (simp add: Lease_List_def)
  have "feed ?fn xs view = (Ok (), fold (\<lambda>entry view. view(Le_Route entry \<mapsto> entry)) xs view)" for view
    by (induction xs arbitrary: view) auto
  moreover have "lease_yields c (s, it) xs e"
    using assms(2) it by (auto simp: Lease_List_def lease_yields_def bind_res_Ok_iff)
  ultimately obtain st' where "ForEach (lli_Next c) lli_Value lli_Err lli_Close ?fn (s, it) Map.empty =
      Some (loop_end e (Ok ()), st', fold (\<lambda>entry view. view(Le_Route entry \<mapsto> entry)) xs Map.empty)"
    using lease_it.for_each_feeds [of c "(s, it)" xs e lli_Close ?fn Map.empty] by (auto simp: lli_Close_def)
  then show ?thesis using it by (cases st') (auto simp: listAll_def loop_end_def split: option.split)
qed

text \<open>C20: The lease view stays current. In every interleaving of notifications, ticks, reconnects, overflows and refreshes,
  the view in place was listed after the newest change the observer was told of, unless a bootstrap is due, a
  reconciliation is requested or listing, or the last refresh failed; a request for recovery is never left
  without a goroutine serving it; and a step that replaces the view installs one listed after every change
  announced so far, never an older one.\<close>

theorem observer_view_current:
  assumes "obs_reachable w"
  shows "(w_seen w \<le> w_viewVersion w \<or> ob_bootstrapping (w_obs w) \<or> ob_reconcileRequested (w_obs w) \<or>
      (\<exists>v. w_refresh w = ReconcileListing v) \<or> w_failed w) \<and>
    (ob_recoveryRequested (w_obs w) \<longrightarrow> ob_recoveryRunning (w_obs w) \<or> ob_closing (w_obs w)) \<and>
    (obs_step w w' \<longrightarrow> w_viewVersion w \<le> w_viewVersion w' \<and>
       (ob_view (w_obs w') \<noteq> ob_view (w_obs w) \<longrightarrow> w_seen w' \<le> w_viewVersion w'))"
  using obs_reachable_inv [OF assms] obs_step_view [of w w'] by (auto simp: obs_inv_def refreshing_def)

text \<open>The first part of an observer's life: its bootstrap.\<close>

definition bootstrapped :: obs_world where
  "bootstrapped = obs_world_init\<lparr>w_obs := observer_init\<lparr>ob_ready := True, ob_changed := True, ob_sub := Some 0, ob_subscriptionGeneration := 1\<rparr>,
     w_observe := ObserveReturned\<rparr>"

lemma reach_step: "obs_reachable w \<Longrightarrow> obs_step w w' \<Longrightarrow> w' = w'' \<Longrightarrow> obs_reachable w''"
  unfolding obs_reachable_def by auto

lemmas world_defs = bootstrapped_def obs_world_init_def observer_init_def

lemma bootstrapped_reachable: "obs_reachable bootstrapped"
proof -
  have "obs_reachable obs_world_init" by (simp add: obs_reachable_def)
  then have "obs_reachable (obs_world_init\<lparr>w_obs := observer_init\<lparr>ob_bootstrapping := True\<rparr>, w_refresh := Subscribing, w_observe := ObserveBootstraps\<rparr>)"
    by (rule reach_step [OF _ observe]) (simp_all add: world_defs bootstrap_begin_def)
  then have "obs_reachable (obs_world_init\<lparr>w_obs := bootstrap_subscribed 0 (observer_init\<lparr>ob_bootstrapping := True\<rparr>), w_refresh := BootstrapLoop,
      w_observe := ObserveBootstraps\<rparr>)"
    by (rule reach_step [OF _ boot_subscribed [where sub = 0]]) (simp_all add: world_defs)
  then have "obs_reachable (obs_world_init\<lparr>w_obs := bootstrap_subscribed 0 (observer_init\<lparr>ob_bootstrapping := True\<rparr>), w_refresh := BootstrapListing 1 0,
      w_observe := ObserveBootstraps\<rparr>)"
    by (rule reach_step [OF _ boot_list]) (simp_all add: world_defs bootstrap_subscribed_def)
  then show ?thesis
    by (rule reach_step [OF _ boot_install [where view = Map.empty and gen = 1 and v = 0]])
      (simp_all add: world_defs bootstrap_pass_end_def bootstrap_subscribed_def signalChanged_def bootstrap_returns_def)
qed

theorem observer_view_current_witness:
  "w_seen bootstrapped \<le> w_viewVersion bootstrapped \<or> ob_bootstrapping (w_obs bootstrapped) \<or>
   ob_reconcileRequested (w_obs bootstrapped) \<or> (\<exists>v. w_refresh bootstrapped = ReconcileListing v) \<or> w_failed bootstrapped"
  using observer_view_current [OF bootstrapped_reachable, of bootstrapped] by blast

text \<open>Steps that do not begin a recovery; they keep a view ready.\<close>

definition untriggered :: "obs_world \<Rightarrow> obs_world \<Rightarrow> bool" where
  "untriggered w w' \<longleftrightarrow> obs_step w w' \<and> length (w_unready w') \<le> length (w_unready w)"

lemma ready_stays:
  assumes "untriggered\<^sup>*\<^sup>* w w'" "ob_ready (w_obs w)"
  shows "ob_ready (w_obs w')"
  using assms
proof (induction rule: rtranclp_induct)
  case (step y z)
  then have "obs_step y z" "length (w_unready z) \<le> length (w_unready y)" "ob_ready (w_obs y)" by (simp_all add: untriggered_def)
  then show ?case by cases (auto simp: obs_defs bootstrap_returns_def Let_def split: if_splits recovery_phase.splits)
qed

text \<open>C29: A stale view can be called ready. \<open>Ready\<close> is documented to hold when the bootstrap is complete and the view current. In every state
  in which a reconciliation lists, with no other requested: if the listing fails, a ready view stays ready although the change the listing was
  to pick up is announced, nothing is under way, and a handler that asks for a reconciliation finds none requested; and if the
  listing ends between the two sections in which a reconnect marks the view not ready and restarts the bootstrap, the view is ready when the
  bootstrap is due, and stays so, whatever happens, until another recovery begins.\<close>

theorem observer_ready_while_stale:
  assumes "obs_reachable w" "w_observe w = ObserveReturned" "w_refresh w = ReconcileListing v"
    and "\<not> ob_bootstrapping (w_obs w)" "\<not> ob_reconcileRequested (w_obs w)"
  shows "(ob_ready (w_obs w) \<and> w_viewVersion w < w_seen w \<longrightarrow>
      (\<exists>w1. obs_step w w1 \<and> w_obs w1 = w_obs w \<and> w_viewVersion w1 < w_seen w1 \<and> w_refresh w1 = NoRefresh \<and>
         reconcile_begin (w_obs w1) = (False, w_obs w1))) \<and>
    (\<exists>w1 w2 w3. obs_step w w1 \<and> w_obs w1 = trigger_unready (w_obs w) \<and>
       obs_step w1 w2 \<and> w_obs w2 = snd (reconcile_pass_end view (w_obs w1)) \<and> w_refresh w2 = NoRefresh \<and>
       obs_step w2 w3 \<and> w_obs w3 = trigger_restart (w_obs w2) \<and>
       \<not> ob_ready (w_obs w1) \<and> ob_bootstrapping (w_obs w3) \<and> (\<forall>w'. untriggered\<^sup>*\<^sup>* w3 w' \<longrightarrow> ob_ready (w_obs w')))"
proof
  have "obs_step w (w\<lparr>w_refresh := NoRefresh, w_failed := True\<rparr>)" using assms(3) by (rule rec_fail)
  then show "ob_ready (w_obs w) \<and> w_viewVersion w < w_seen w \<longrightarrow>
      (\<exists>w1. obs_step w w1 \<and> w_obs w1 = w_obs w \<and> w_viewVersion w1 < w_seen w1 \<and> w_refresh w1 = NoRefresh \<and>
         reconcile_begin (w_obs w1) = (False, w_obs w1))"
    using assms(5) by (intro impI exI [of _ "w\<lparr>w_refresh := NoRefresh, w_failed := True\<rparr>"]) (simp add: reconcile_begin_def)
next
  define w1 where "w1 = w\<lparr>w_obs := trigger_unready (w_obs w), w_unready := False # w_unready w\<rparr>"
  define ob where "ob = signalChanged ((trigger_unready (w_obs w))\<lparr>ob_view := view, ob_ready := True\<rparr>)"
  define w2 where "w2 = w1\<lparr>w_obs := ob, w_refresh := NoRefresh, w_viewVersion := v, w_failed := False\<rparr>"
  define w3 where "w3 = w2\<lparr>w_obs := trigger_restart (w_obs w2), w_unready := remove1 False (w_unready w2), w_restarted := False # w_restarted w2\<rparr>"
  have 1: "obs_step w w1" unfolding w1_def by (rule unready) (simp add: assms(2))
  have pass: "reconcile_pass_end view (w_obs w1) = (Installed, ob)"
    using assms(4,5) by (simp add: w1_def ob_def reconcile_pass_end_def trigger_unready_def)
  have 2: "obs_step w1 w2" unfolding w2_def by (rule rec_install [where v = v, OF _ pass]) (simp add: w1_def assms(3))
  have 3: "obs_step w2 w3" unfolding w3_def by (rule restart) (simp add: w2_def w1_def)
  have "ob_ready (w_obs w3)" by (simp add: w3_def w2_def ob_def trigger_restart_def signalChanged_def)
  then show "\<exists>w1 w2 w3. obs_step w w1 \<and> w_obs w1 = trigger_unready (w_obs w) \<and>
       obs_step w1 w2 \<and> w_obs w2 = snd (reconcile_pass_end view (w_obs w1)) \<and> w_refresh w2 = NoRefresh \<and>
       obs_step w2 w3 \<and> w_obs w3 = trigger_restart (w_obs w2) \<and>
       \<not> ob_ready (w_obs w1) \<and> ob_bootstrapping (w_obs w3) \<and> (\<forall>w'. untriggered\<^sup>*\<^sup>* w3 w' \<longrightarrow> ob_ready (w_obs w'))"
    using 1 2 3 pass ready_stays
    by (intro exI [of _ w1] exI [of _ w2] exI [of _ w3]) (simp add: w3_def w2_def w1_def trigger_unready_def trigger_restart_def signalChanged_def)
qed

theorem observer_ready_while_stale_witness:
  "\<exists>w w1. obs_reachable w \<and> obs_step w w1 \<and> ob_ready (w_obs w1) \<and> w_viewVersion w1 < w_seen w1 \<and> w_refresh w1 = NoRefresh \<and>
     \<not> ob_bootstrapping (w_obs w1) \<and> \<not> ob_reconcileRequested (w_obs w1)"
proof -
  let ?ob = "w_obs bootstrapped" and ?w = "bootstrapped\<lparr>w_version := 1, w_seen := 1, w_refresh := ReconcileListing 1\<rparr>"
  have "obs_reachable (bootstrapped\<lparr>w_version := 1\<rparr>)"
    by (rule reach_step [OF bootstrapped_reachable change]) (simp add: world_defs)
  then have "obs_reachable (bootstrapped\<lparr>w_version := 1, w_seen := 1, w_obs := ?ob\<lparr>ob_reconcileRequested := True\<rparr>\<rparr>)"
    by (rule reach_step [OF _ notify [where v = 1]]) (simp_all add: world_defs obs_invalidate_def subscribed_def)
  then have w: "obs_reachable ?w" by (rule reach_step [OF _ rec_list]) (auto simp: world_defs reconcile_begin_def)
  have h: "w_observe ?w = ObserveReturned" "w_refresh ?w = ReconcileListing 1" "\<not> ob_bootstrapping (w_obs ?w)" "\<not> ob_reconcileRequested (w_obs ?w)"
    "ob_ready (w_obs ?w)" "w_viewVersion ?w < w_seen ?w" by (simp_all add: world_defs)
  from observer_ready_while_stale [OF w h(1-4)] h(5,6) obtain w1 where "obs_step ?w w1" "w_obs w1 = w_obs ?w" "w_viewVersion w1 < w_seen w1" "w_refresh w1 = NoRefresh"
    by blast
  then show ?thesis using w h(3-5) by (intro exI [of _ ?w] exI [of _ w1]) simp
qed

end
