(* ===== verification/Layout_Tools.thy ===== *)
theory Layout_Tools
  imports Conn_Api
begin

text \<open>
  Comparing the hand-written parsers of the clients with layouts. A parser adds its own error to
  every read and builds a record field by field; up to the errors it is the reader of a layout, and
  \<open>same_Ok\<close> says so. With the codec laws of the layout this makes a parser exact: it accepts what an
  encoder can produce and nothing else.
\<close>

section \<open>Equal up to the errors\<close>

definition same_Ok :: "'a res \<Rightarrow> 'a res \<Rightarrow> bool" where
  "same_Ok r r' \<longleftrightarrow> (\<forall>z. r = Ok z \<longleftrightarrow> r' = Ok z) \<and> (no_panic r \<longleftrightarrow> no_panic r')"

named_theorems same_Ok_intros

lemma same_Ok_refl [same_Ok_intros]: "same_Ok r r"
  by (simp add: same_Ok_def)

lemma same_Ok_Err [same_Ok_intros]: "same_Ok (Err e) (Err e')"
  by (simp add: same_Ok_def)

lemma same_Ok_map_err [same_Ok_intros]: "same_Ok r r' \<Longrightarrow> same_Ok (map_err f r) r'"
  by (simp add: same_Ok_def)

lemma same_Ok_bind [same_Ok_intros]:
  assumes "same_Ok r r'" "\<And>x. same_Ok (f x) (f' x)"
  shows "same_Ok (bind_res r f) (bind_res r' f')"
proof (cases "\<exists>x. r = Ok x")
  case True
  then obtain x where "r = Ok x" "r' = Ok x" using assms(1) by (auto simp: same_Ok_def)
  then show ?thesis using assms(2) [of x] by simp
next
  case False
  then show ?thesis using assms(1) by (cases r; cases r') (auto simp: same_Ok_def)
qed

lemma same_Ok_if [same_Ok_intros]:
  "same_Ok a a' \<Longrightarrow> same_Ok b b' \<Longrightarrow> same_Ok (if c then a else b) (if c then a' else b')"
  by simp

lemma same_OkD: "same_Ok r r' \<Longrightarrow> r = Ok z \<longleftrightarrow> r' = Ok z"
  by (simp add: same_Ok_def)

lemmas layout_binds = rd_pair_def rd_map_def rd_check_def rd_const_def case_prod_unfold bind_res_assoc

lemma codec_same:
  assumes "field_codec e r f" "\<And>p off. same_Ok (r' p off) (r p off)"
  shows "field_codec e r' f"
  by (rule codec_same_Ok [OF assms(1)]) (use assms(2) field_codec.read_total [OF assms(1)] in \<open>auto simp: same_Ok_def\<close>)

lemma codec_cong:
  assumes "field_codec e r f" "\<And>x. f' x \<longleftrightarrow> f x" "\<And>x. f x \<Longrightarrow> e' x = e x"
  shows "field_codec e' r f'"
proof
  fix x off p rest
  assume h: "f' x" "off \<le> length p" "drop off p = e' x @ rest"
  then have x: "f x" "e' x = e x" using assms(2,3) by blast+
  show "r p off = Ok (x, off + length (e' x))"
    using field_codec.read_write [OF assms(1) x(1) h(2), of rest] h(3) by (simp only: x(2))
next
  fix x off off' p
  assume h: "off \<le> length p" "r p off = Ok (x, off')"
  have x: "f x" using field_codec.read_Ok [OF assms(1) h] by (rule conjunct1)
  show "f' x \<and> off' = off + length (e' x) \<and> off' \<le> length p \<and> drop off p = e' x @ drop off' p"
    unfolding assms(2) assms(3) [OF x] by (rule field_codec.read_Ok [OF assms(1) h])
next
  fix off :: nat and p :: bytes
  assume "off \<le> length p"
  then show "no_panic (r p off)" by (rule field_codec.read_total [OF assms(1)])
qed

text \<open>A reader that builds a record \<open>g x\<close> from the fields \<open>x\<close> of a layout; \<open>h\<close> takes the fields back.\<close>

lemma codec_build:
  assumes "field_codec e r f" "\<And>x. f x \<Longrightarrow> h (g x) = x" "\<And>y. f' y \<longleftrightarrow> f (h y) \<and> g (h y) = y" "\<And>x. f x \<Longrightarrow> e' (g x) = e x"
  shows "field_codec e' (rd_map g r) f'"
proof (rule codec_cong [OF codec_map [OF assms(1), of h g, OF assms(2)]])
  show "e' y = e (h y)" if "f (h y) \<and> g (h y) = y" for y
    using assms(4) [of "h y"] that by simp
qed (use assms(3) in auto)

section \<open>Fields of some messages only, and flags\<close>

definition rd_when :: "bool \<Rightarrow> (bytes \<Rightarrow> nat \<Rightarrow> ('a option \<times> nat) res) \<Rightarrow> bytes \<Rightarrow> nat \<Rightarrow> ('a option \<times> nat) res" where
  "rd_when present r p off = (if present then r p off else Ok (None, off))"

lemma codec_when:
  assumes "field_codec e r f"
  shows "field_codec (\<lambda>x. if present then e x else []) (rd_when present r) (\<lambda>x. if present then f x else x = None)"
proof (cases present)
  case True
  then have "rd_when present r = r" by (simp add: rd_when_def fun_eq_iff)
  then show ?thesis using assms True by simp
next
  case False
  then have "rd_when present r = rd_const None" by (simp add: rd_when_def rd_const_def fun_eq_iff)
  then show ?thesis using codec_const [of None] False by simp
qed

definition rd_flag :: "bytes \<Rightarrow> nat \<Rightarrow> (bool \<times> nat) res" where
  "rd_flag = rd_case (\<lambda>t. if t = 0 then Some (rd_const False) else if t = 1 then Some (rd_const True) else None)"

lemma codec_flag: "field_codec (\<lambda>b. [if b then 1 else 0]) rd_flag (\<lambda>_. True)"
proof -
  have "field_codec (\<lambda>b. (if b then 1 else 0) # []) rd_flag (\<lambda>_. True)"
    unfolding rd_flag_def
  proof (rule codec_case)
    fix t :: u8 and r
    assume "(if t = 0 then Some (rd_const False) else if t = 1 then Some (rd_const True) else None) = Some r"
    then consider "t = 0" "r = rd_const False" | "t = 1" "r = rd_const True" by (auto split: if_splits)
    then show "field_codec (\<lambda>_. []) r (\<lambda>x. True \<and> (if x then 1 else 0) = t)"
      by cases (auto intro: codec_cong [OF codec_const])
  qed (simp add: split: if_splits)
  then show ?thesis .
qed

section \<open>Counted loops\<close>

text \<open>A loop over a counted sequence whose errors name the item's number.\<close>

fun read_items :: "(nat \<Rightarrow> bytes \<Rightarrow> nat \<Rightarrow> ('a \<times> nat) res) \<Rightarrow> nat \<Rightarrow> nat \<Rightarrow> bytes \<Rightarrow> nat \<Rightarrow> ('a list \<times> nat) res" where
  "read_items r i 0 p off = Ok ([], off)"
| "read_items r i (Suc n) p off =
     bind_res (r i p off) (\<lambda>(x, off). bind_res (read_items r (i + 1) n p off) (\<lambda>(xs, off). Ok (x # xs, off)))"

lemma read_items_same:
  assumes "\<And>i p off. same_Ok (r i p off) (rd p off)"
  shows "same_Ok (read_items r i n p off) (read_seq rd n p off)"
proof (induction n arbitrary: i off)
  case 0
  then show ?case by (simp add: same_Ok_intros)
next
  case (Suc n)
  show ?case unfolding read_items.simps read_seq.simps case_prod_unfold
    by (intro same_Ok_intros assms Suc.IH)
qed

text \<open>A parser that refuses what follows its layout.\<close>

lemma whole_message_iff:
  assumes "field_codec e r f" "same_Ok m (r p 0)"
  shows "bind_res m (\<lambda>(x, off). if off \<noteq> length p then Err err else Ok x) = Ok y \<longleftrightarrow> f y \<and> p = e y"
  using field_codec.read_whole_iff [OF assms(1), of p y] same_OkD [OF assms(2)]
  by (auto simp: bind_res_Ok_iff split: if_splits)

end
