(* ===== verification/Stream_Domain.thy ===== *)
theory Stream_Domain
  imports Layout_Tools Iterators Routes
begin

text \<open>
  The stream client (\<^verbatim>\<open>internal/domains/stream/protocol.go\<close> and \<^verbatim>\<open>stream.go\<close>): the requests with their
  filter sets, write sessions, the parsers of read pages, records and metadata, and the reading operations.
  A body is copied out of the response, so a record's body is a value; metadata is nil when absent.
\<close>

section \<open>Errors\<close>

definition ErrStreamNotFound :: go_error where "ErrStreamNotFound = Sentinel ''stream not found''"
definition ErrStreamConflict :: go_error where "ErrStreamConflict = Sentinel ''stream conflict''"
definition ErrStreamReadError :: go_error where "ErrStreamReadError = Sentinel ''stream read error''"

definition mapStreamError :: "go_error \<Rightarrow> go_error" where
  "mapStreamError err =
     (case errors_As_domain err of
        Some domainErr \<Rightarrow>
          if de_code domainErr = StreamConcurrencyConflict then errors_Join [ErrStreamConflict, err]
          else if de_code domainErr = StreamResourceNotFound then errors_Join [ErrStreamNotFound, err]
          else if de_code domainErr = StreamSessionAlreadyActive \<or> de_code domainErr = StreamSessionNotFound \<or>
                  de_code domainErr = StreamInvalidReadBound then errors_Join [ErrStreamReadError, err]
          else err
      | None \<Rightarrow> err)"

section \<open>Requests\<close>

abbreviation (input) CommitModeBuffered :: u8 where "CommitModeBuffered \<equiv> 0"
abbreviation (input) CommitModeSync :: u8 where "CommitModeSync \<equiv> 1"

definition StreamFilterEquals :: string where "StreamFilterEquals = ''Equals''"
definition StreamFilterNotEquals :: string where "StreamFilterNotEquals = ''NotEquals''"
definition StreamFilterStartsWith :: string where "StreamFilterStartsWith = ''StartsWith''"
definition StreamFilterAnyOf :: string where "StreamFilterAnyOf = ''AnyOf''"

lemmas filter_kinds = StreamFilterEquals_def StreamFilterNotEquals_def StreamFilterStartsWith_def StreamFilterAnyOf_def

record StreamFilterClause =
  fc_Kind :: string
  fc_Value :: string
  fc_Values :: "string list"

record StreamFilterSet =
  fs_Clauses :: "StreamFilterClause list"

record StreamAppendOptions =
  ao_Discriminator :: "string option"
  ao_Metadata :: "bytes option"

record StreamReadOptions =
  ro_MaxBytes :: "u64 option"
  ro_Filter :: "StreamFilterSet option"
  ro_CursorFingerprint :: "u64 option"
  ro_CapturedWatermark :: "u64 option"

text \<open>An optional field behind a flag byte, as the writers spell it out.\<close>

definition write_optional :: "writer option \<Rightarrow> writer" where
  "write_optional w = (case w of Some w \<Rightarrow> write_seq [WriteByte 1, w] | None \<Rightarrow> WriteByte 0)"

definition streamBeginPayloadWriter :: "string \<Rightarrow> bytes option \<Rightarrow> writer" where
  "streamBeginPayloadWriter route ingestMetadata = write_seq
     [enc_WriteRoute route, write_optional (map_option enc_WriteBytes ingestMetadata)]"

definition encodeStreamBegin :: "string \<Rightarrow> bytes option \<Rightarrow> bytes" where
  "encodeStreamBegin route ingestMetadata = EncodeWithBuffer (write_seq
     [enc_WriteRoute route, write_optional (map_option enc_WriteBytes ingestMetadata)])"

text \<open>\<open>opts\<close> is the variadic argument: a list of pointers of which the first counts.\<close>

definition discriminator_of :: "StreamAppendOptions option list \<Rightarrow> string option" where
  "discriminator_of opts =
     (case opts of Some opt # _ \<Rightarrow>
        (case ao_Discriminator opt of Some d \<Rightarrow> if d \<noteq> [] then Some d else None | None \<Rightarrow> None)
      | _ \<Rightarrow> None)"

definition streamAppendPayloadWriter ::
  "u64 \<Rightarrow> u64 \<Rightarrow> bytes \<Rightarrow> bytes option \<Rightarrow> StreamAppendOptions option list \<Rightarrow> writer" where
  "streamAppendPayloadWriter sessionID expectedOffset body metadata opts = write_seq
     [enc_WriteU64 sessionID, enc_WriteU64 expectedOffset, enc_WriteBytes body,
      write_optional (map_option enc_WriteBytes metadata), write_optional (map_option enc_WriteString (discriminator_of opts))]"

definition encodeStreamAppend ::
  "u64 \<Rightarrow> u64 \<Rightarrow> bytes \<Rightarrow> bytes option \<Rightarrow> StreamAppendOptions option list \<Rightarrow> bytes" where
  "encodeStreamAppend sessionID expectedOffset body metadata opts = EncodeWithBuffer (write_seq
     [enc_WriteU64 sessionID, enc_WriteU64 expectedOffset, enc_WriteBytes body,
      write_optional (map_option enc_WriteBytes metadata), write_optional (map_option enc_WriteString (discriminator_of opts))])"

definition streamCommitPayloadWriter :: "u64 \<Rightarrow> u8 \<Rightarrow> writer" where
  "streamCommitPayloadWriter sessionID mode = write_seq [enc_WriteU64 sessionID, WriteByte mode]"

definition encodeStreamCommit :: "u64 \<Rightarrow> u8 \<Rightarrow> bytes" where
  "encodeStreamCommit sessionID mode = EncodeWithBuffer (write_seq [enc_WriteU64 sessionID, WriteByte mode])"

definition streamRollbackPayloadWriter :: "u64 \<Rightarrow> writer" where
  "streamRollbackPayloadWriter sessionID = enc_WriteU64 sessionID"

definition encodeStreamRollback :: "u64 \<Rightarrow> bytes" where
  "encodeStreamRollback sessionID = EncodeWithBuffer (enc_WriteU64 sessionID)"

definition encodeStreamFilterClause :: "StreamFilterClause \<Rightarrow> writer" where
  "encodeStreamFilterClause clause =
     (if fc_Kind clause = StreamFilterEquals then write_seq [WriteByte 0, enc_WriteString (fc_Value clause)]
      else if fc_Kind clause = StreamFilterNotEquals then write_seq [WriteByte 1, enc_WriteString (fc_Value clause)]
      else if fc_Kind clause = StreamFilterStartsWith then write_seq [WriteByte 2, enc_WriteString (fc_Value clause)]
      else if fc_Kind clause = StreamFilterAnyOf
      then write_seq ([WriteByte 3, enc_WriteU32 (u32_len (fc_Values clause))] @ map enc_WriteString (fc_Values clause))
      else write_seq [])"

definition encodeStreamFilterSet :: "StreamFilterSet option \<Rightarrow> bytes option" where
  "encodeStreamFilterSet flt =
     (case flt of
        None \<Rightarrow> None
      | Some fs \<Rightarrow>
          if fs_Clauses fs = [] then None
          else Some (write_seq ([WriteByte 0, WriteByte 0xf1, enc_WriteU32 (u32_len (fs_Clauses fs))] @
                                map encodeStreamFilterClause (fs_Clauses fs)) []))"

definition filter_bytes :: "StreamReadOptions option \<Rightarrow> bytes option" where
  "filter_bytes opts =
     (case opts of
        Some opt \<Rightarrow>
          (case ro_Filter opt of
             Some fs \<Rightarrow> if fs_Clauses fs \<noteq> [] then encodeStreamFilterSet (Some fs) else None
           | None \<Rightarrow> None)
      | None \<Rightarrow> None)"

definition streamReadPayloadWriter :: "string \<Rightarrow> u64 \<Rightarrow> u64 \<Rightarrow> StreamReadOptions option \<Rightarrow> writer" where
  "streamReadPayloadWriter route fromOffset limit opts = write_seq
     [enc_WriteRoute route, enc_WriteU64 fromOffset, enc_WriteU64 limit,
      write_optional (map_option enc_WriteU64 (Option.bind opts ro_MaxBytes)),
      write_optional (map_option (\<lambda>fb. write_seq [enc_WriteU32 (u32_len fb), enc_WriteBytesRaw fb]) (filter_bytes opts)),
      enc_WriteOptionalU64 (Option.bind opts ro_CursorFingerprint),
      enc_WriteOptionalU64 (Option.bind opts ro_CapturedWatermark)]"

definition encodeStreamRead :: "string \<Rightarrow> u64 \<Rightarrow> u64 \<Rightarrow> StreamReadOptions option \<Rightarrow> bytes" where
  "encodeStreamRead route fromOffset limit opts = EncodeWithBuffer (write_seq
     [enc_WriteRoute route, enc_WriteU64 fromOffset, enc_WriteU64 limit,
      write_optional (map_option enc_WriteU64 (Option.bind opts ro_MaxBytes)),
      write_optional (map_option (\<lambda>fb. write_seq [enc_WriteU32 (u32_len fb), enc_WriteBytesRaw fb]) (filter_bytes opts)),
      enc_WriteOptionalU64 (Option.bind opts ro_CursorFingerprint),
      enc_WriteOptionalU64 (Option.bind opts ro_CapturedWatermark)])"

definition streamLastPayloadWriter :: "string \<Rightarrow> writer" where
  "streamLastPayloadWriter route = enc_WriteRoute route"

definition encodeStreamLast :: "string \<Rightarrow> bytes" where
  "encodeStreamLast route = EncodeWithBuffer (enc_WriteRoute route)"

definition streamGetMetadataPayloadWriter :: "string \<Rightarrow> writer" where
  "streamGetMetadataPayloadWriter route = enc_WriteRoute route"

definition encodeStreamGetMetadata :: "string \<Rightarrow> bytes" where
  "encodeStreamGetMetadata route = EncodeWithBuffer (enc_WriteRoute route)"

definition stream_subscribePayloadWriter :: "string \<Rightarrow> writer" where
  "stream_subscribePayloadWriter pat = enc_WriteRoute pat"

definition stream_unsubscribePayloadWriter :: "string \<Rightarrow> writer" where
  "stream_unsubscribePayloadWriter pat = enc_WriteRoute pat"

definition encodeStreamSubscribe :: "string \<Rightarrow> u64 \<Rightarrow> bytes" where
  "encodeStreamSubscribe route fromOffset = EncodeWithBuffer (write_seq [enc_WriteRoute route, enc_WriteU64 fromOffset])"

definition encodeStreamUnsubscribe :: "string \<Rightarrow> bytes" where
  "encodeStreamUnsubscribe route = EncodeWithBuffer (enc_WriteRoute route)"

section \<open>Responses\<close>

record Record =
  rec_Route :: string
  rec_Offset :: u64
  rec_AreaOffset :: "u64 option"
  rec_RealmOffset :: "u64 option"
  rec_GlobalOffset :: "u64 option"
  rec_Body :: bytes
  rec_Metadata :: "bytes option"
  rec_Timestamp :: u64

datatype FilteredReason = FilteredReasonServerFilter | FilteredReasonPermission | FilteredReasonProjection

datatype ReadItemKind = ReadItemEvent | ReadItemFiltered | ReadItemFilteredRange

record ReadItem =
  ri_Route :: string
  ri_Kind :: ReadItemKind
  ri_Record :: "Record option"
  ri_Offset :: u64
  ri_FromOffset :: u64
  ri_ToOffset :: u64
  ri_Reason :: "FilteredReason option"

record ReadCursor =
  cur_LastResourceOffset :: u64
  cur_LastAreaOffset :: "u64 option"
  cur_LastRealmOffset :: "u64 option"
  cur_LastGlobalOffset :: "u64 option"
  cur_CursorFingerprint :: "u64 option"
  cur_CapturedWatermark :: "u64 option"
  cur_HasMore :: bool

record ReadPage =
  page_Items :: "ReadItem list"
  page_Cursor :: ReadCursor

record Metadata =
  md_FirstOffset :: u64
  md_LastOffset :: u64
  md_RecordCount :: u64
  md_MaxBatchEvents :: u64
  md_MaxBatchBytes :: u64
  md_TTLSeconds :: "u64 option"
  md_AreaWatermark :: u64
  md_RealmWatermark :: u64

definition readOptionalU64 :: "bytes \<Rightarrow> nat \<Rightarrow> (u64 option \<times> nat) res" where
  "readOptionalU64 dat offset =
     (if offset \<ge> length dat then Err (ErrNew ''optional u64 flag missing'')
      else let flag = dat ! offset; offset = offset + 1
           in if flag = 0 then Ok (None, offset)
              else if flag = 1 then bind_res (ReadU64BE dat offset) (\<lambda>(value, newOffset). Ok (Some value, newOffset))
              else Err (ErrNew (''invalid optional u64 flag: '' @ dec (unat flag))))"

definition readOptionalBytes :: "bytes \<Rightarrow> nat \<Rightarrow> (bytes option \<times> nat) res" where
  "readOptionalBytes dat offset =
     (if offset \<ge> length dat then Err (ErrNew ''optional bytes flag missing'')
      else let flag = dat ! offset; offset = offset + 1
           in if flag = 0 then Ok (None, offset)
              else if flag = 1 then bind_res (ReadBytes dat offset) (\<lambda>(value, newOffset). Ok (Some value, newOffset))
              else Err (ErrNew (''invalid optional bytes flag: '' @ dec (unat flag))))"

definition skipOptionalSessionIDAndGetData :: "bytes \<Rightarrow> bytes res" where
  "skipOptionalSessionIDAndGetData remaining =
     (if length remaining = 0 then Err (ErrNew ''stream response missing payload'')
      else bind_res (map_err (Errorf1 ''parse optional session_id'') (readOptionalU64 remaining 0)) (\<lambda>(_, offset).
           bind_res (map_err (Errorf1 ''parse response data'') (ReadBytes remaining offset)) (\<lambda>(dat, newOffset).
             if newOffset \<noteq> length remaining then Err (ErrNew ''stream response has trailing bytes'') else Ok dat)))"

definition decodeStreamRecordAt :: "bytes \<Rightarrow> nat \<Rightarrow> bool \<Rightarrow> (Record \<times> nat) res" where
  "decodeStreamRecordAt dat offset global =
     bind_res (map_err (Errorf1 ''parse record offset'') (ReadU64BE dat offset)) (\<lambda>(off, offset).
     bind_res (map_err (Errorf1 ''parse record area_offset'') (readOptionalU64 dat offset)) (\<lambda>(area, offset).
     bind_res (map_err (Errorf1 ''parse record realm_offset'') (readOptionalU64 dat offset)) (\<lambda>(realm, offset).
     bind_res (if global then map_err (Errorf1 ''parse record global_offset'') (readOptionalU64 dat offset)
               else Ok (None, offset)) (\<lambda>(gl, offset).
     bind_res (map_err (Errorf1 ''parse record body'') (ReadBytes dat offset)) (\<lambda>(body, offset).
     bind_res (map_err (Errorf1 ''parse record metadata'') (readOptionalBytes dat offset)) (\<lambda>(metadata, offset).
     bind_res (map_err (Errorf1 ''parse record timestamp'') (ReadU64BE dat offset)) (\<lambda>(timestamp, offset).
       Ok (\<lparr>rec_Route = [], rec_Offset = off, rec_AreaOffset = area, rec_RealmOffset = realm, rec_GlobalOffset = gl,
            rec_Body = body, rec_Metadata = metadata, rec_Timestamp = timestamp\<rparr>, offset))))))))"

definition decodeFilteredReasonAt :: "bytes \<Rightarrow> nat \<Rightarrow> (FilteredReason option \<times> nat) res" where
  "decodeFilteredReasonAt dat offset =
     (if offset \<ge> length dat then Err (Errorf1 ''parse filtered reason'' ErrUnexpectedEOF)
      else if dat ! offset = 0 then Ok (None, offset + 1)
      else if dat ! offset = 1 then Ok (Some FilteredReasonServerFilter, offset + 1)
      else if dat ! offset = 2 then Ok (Some FilteredReasonPermission, offset + 1)
      else if dat ! offset = 3 then Ok (Some FilteredReasonProjection, offset + 1)
      else Err (ErrNew (''parse filtered reason: invalid tag '' @ dec (unat (dat ! offset)))))"

definition zero_item :: "ReadItemKind \<Rightarrow> ReadItem" where
  "zero_item kind = \<lparr>ri_Route = [], ri_Kind = kind, ri_Record = None, ri_Offset = 0, ri_FromOffset = 0, ri_ToOffset = 0,
     ri_Reason = None\<rparr>"

definition decodeStreamReadItemAt :: "bytes \<Rightarrow> nat \<Rightarrow> bool \<Rightarrow> (ReadItem \<times> nat) res" where
  "decodeStreamReadItemAt dat offset global =
     (if offset \<ge> length dat then Err (Errorf1 ''parse read item tag'' ErrUnexpectedEOF)
      else let tag = dat ! offset; offset = offset + 1
           in if tag = 0
              then bind_res (decodeStreamRecordAt dat offset global) (\<lambda>(r, offset).
                     Ok ((zero_item ReadItemEvent)\<lparr>ri_Record := Some r\<rparr>, offset))
              else if tag = 1
              then bind_res (map_err (Errorf1 ''parse filtered offset'') (ReadU64BE dat offset)) (\<lambda>(off, offset).
                   bind_res (decodeFilteredReasonAt dat offset) (\<lambda>(reason, offset).
                     Ok ((zero_item ReadItemFiltered)\<lparr>ri_Offset := off, ri_Reason := reason\<rparr>, offset)))
              else if tag = 2
              then bind_res (map_err (Errorf1 ''parse filtered range from_offset'') (ReadU64BE dat offset)) (\<lambda>(from, offset).
                   bind_res (map_err (Errorf1 ''parse filtered range to_offset'') (ReadU64BE dat offset)) (\<lambda>(to, offset).
                   bind_res (decodeFilteredReasonAt dat offset) (\<lambda>(reason, offset).
                     Ok ((zero_item ReadItemFilteredRange)\<lparr>ri_FromOffset := from, ri_ToOffset := to, ri_Reason := reason\<rparr>,
                         offset))))
              else Err (ErrNew (''unknown stream read item tag: '' @ dec (unat tag))))"

text \<open>One round of the loop of \<open>parseReadPageResponse\<close>.\<close>

definition set_route :: "string \<Rightarrow> ReadItem \<Rightarrow> ReadItem" where
  "set_route route item = item\<lparr>ri_Route := route, ri_Record := map_option (\<lambda>r. r\<lparr>rec_Route := route\<rparr>) (ri_Record item)\<rparr>"

definition read_page_item :: "bool \<Rightarrow> nat \<Rightarrow> bytes \<Rightarrow> nat \<Rightarrow> (ReadItem \<times> nat) res" where
  "read_page_item global i dat offset =
     bind_res (map_err (Errorf1 (''parse concrete route at item '' @ dec i)) (ReadString dat offset)) (\<lambda>(concreteRoute, offset).
     bind_res (map_err (Errorf1 (''parse concrete route at item '' @ dec i)) (ValidateFixedRoute concreteRoute ''stream'' 3)) (\<lambda>_.
     bind_res (map_err (Errorf1 (''parse read item '' @ dec i)) (decodeStreamReadItemAt dat offset global)) (\<lambda>(item, offset).
       Ok (set_route concreteRoute item, offset))))"

definition read_cursor :: "bool \<Rightarrow> bytes \<Rightarrow> nat \<Rightarrow> (ReadCursor \<times> nat) res" where
  "read_cursor global dat offset =
     bind_res (map_err (Errorf1 ''parse last_resource_offset'') (ReadU64BE dat offset)) (\<lambda>(resource, offset).
     bind_res (map_err (Errorf1 ''parse last_area_offset'') (readOptionalU64 dat offset)) (\<lambda>(area, offset).
     bind_res (map_err (Errorf1 ''parse last_realm_offset'') (readOptionalU64 dat offset)) (\<lambda>(realm, offset).
     bind_res (if global then map_err (Errorf1 ''parse last_global_offset'') (readOptionalU64 dat offset)
               else Ok (None, offset)) (\<lambda>(gl, offset).
       if offset \<ge> length dat \<or> (dat ! offset \<noteq> 0 \<and> dat ! offset \<noteq> 1) then Err (ErrNew ''invalid has_more flag'')
       else let hasMore = (dat ! offset = 1); offset = offset + 1
            in bind_res (if global then map_err (Errorf1 ''parse cursor_fingerprint'') (readOptionalU64 dat offset)
                         else Ok (None, offset)) (\<lambda>(fingerprint, offset).
               bind_res (if global then map_err (Errorf1 ''parse captured_watermark'') (readOptionalU64 dat offset)
                         else Ok (None, offset)) (\<lambda>(watermark, offset).
                 Ok (\<lparr>cur_LastResourceOffset = resource, cur_LastAreaOffset = area, cur_LastRealmOffset = realm,
                      cur_LastGlobalOffset = gl, cur_CursorFingerprint = fingerprint, cur_CapturedWatermark = watermark,
                      cur_HasMore = hasMore\<rparr>, offset)))))))"

definition zero_cursor :: ReadCursor where
  "zero_cursor = \<lparr>cur_LastResourceOffset = 0, cur_LastAreaOffset = None, cur_LastRealmOffset = None,
     cur_LastGlobalOffset = None, cur_CursorFingerprint = None, cur_CapturedWatermark = None, cur_HasMore = False\<rparr>"

definition parseReadPageResponse :: "bytes \<Rightarrow> string \<Rightarrow> ReadPage res" where
  "parseReadPageResponse dat selector =
     bind_res (map_err (Errorf1 ''invalid stream selector for READ response'') (ClassifyStreamSelector selector)) (\<lambda>scope.
       if length dat = 0 then Ok \<lparr>page_Items = [], page_Cursor = zero_cursor\<rparr>
       else let global = (scope = StreamScopeGlobal)
            in bind_res (map_err (Errorf1 ''parse record count'') (ReadU32BE dat 0)) (\<lambda>(count, offset).
               bind_res (read_items (read_page_item global) 0 (unat count) dat offset) (\<lambda>(items, offset).
               bind_res (read_cursor global dat offset) (\<lambda>(cursor, offset).
                 if offset \<noteq> length dat then Err (ErrNew ''read response has trailing bytes'')
                 else Ok \<lparr>page_Items = items, page_Cursor = cursor\<rparr>))))"

text \<open>The capacity \<open>parseReadPageResponse\<close> reserves before it reads the first item.\<close>

definition page_capacity :: "bytes \<Rightarrow> nat option" where
  "page_capacity dat = (case ReadU32BE dat 0 of Ok (count, _) \<Rightarrow> Some (unat count) | _ \<Rightarrow> None)"

definition parseRecord :: "bytes \<Rightarrow> nat \<Rightarrow> Record res" where
  "parseRecord dat offset =
     bind_res (decodeStreamRecordAt dat offset False) (\<lambda>(r, newOffset).
       if newOffset \<noteq> length dat then Err (ErrNew ''parse record has trailing bytes'') else Ok r)"

definition parseLastResponse :: "bytes \<Rightarrow> string \<Rightarrow> Record res" where
  "parseLastResponse dat route =
     bind_res (map_err (Errorf1 ''invalid concrete route in response'') (ValidateFixedRoute route ''stream'' 3)) (\<lambda>_.
     bind_res (decodeStreamRecordAt dat 0 False) (\<lambda>(r, newOffset).
       if newOffset \<noteq> length dat then Err (ErrNew ''parse last response has trailing bytes'')
       else Ok (r\<lparr>rec_Route := route\<rparr>)))"

definition flattenReadItems :: "ReadItem list \<Rightarrow> Record list" where
  "flattenReadItems items =
     fold (\<lambda>item records. case (ri_Kind item, ri_Record item) of
             (ReadItemEvent, Some r) \<Rightarrow> records @ [r] | _ \<Rightarrow> records) items []"

definition parseMetadataPayload :: "bytes \<Rightarrow> Metadata res" where
  "parseMetadataPayload dat =
     bind_res (map_err (Errorf1 ''parse first_offset'') (readOptionalU64 dat 0)) (\<lambda>(firstOffset, offset).
     bind_res (map_err (Errorf1 ''parse last_offset'') (readOptionalU64 dat offset)) (\<lambda>(lastOffset, offset).
     bind_res (map_err (Errorf1 ''parse record_count'') (ReadU64BE dat offset)) (\<lambda>(count, offset).
     bind_res (map_err (Errorf1 ''parse max_batch_events'') (ReadU64BE dat offset)) (\<lambda>(events, offset).
     bind_res (map_err (Errorf1 ''parse max_batch_bytes'') (ReadU64BE dat offset)) (\<lambda>(byts, offset).
     bind_res (map_err (Errorf1 ''parse ttl_seconds'') (readOptionalU64 dat offset)) (\<lambda>(ttl, offset).
     bind_res (map_err (Errorf1 ''parse area_watermark'') (ReadU64BE dat offset)) (\<lambda>(area, offset).
     bind_res (map_err (Errorf1 ''parse realm_watermark'') (ReadU64BE dat offset)) (\<lambda>(realm, offset).
       if offset \<noteq> length dat then Err (ErrNew ''get_metadata response has trailing bytes'')
       else Ok \<lparr>md_FirstOffset = (case firstOffset of Some x \<Rightarrow> x | None \<Rightarrow> 0),
                md_LastOffset = (case lastOffset of Some x \<Rightarrow> x | None \<Rightarrow> 0), md_RecordCount = count,
                md_MaxBatchEvents = events, md_MaxBatchBytes = byts, md_TTLSeconds = ttl, md_AreaWatermark = area,
                md_RealmWatermark = realm\<rparr>))))))))"

section \<open>Client operations\<close>

record session =
  ss_route :: string
  ss_sessionID :: u64

definition stream_Begin :: "'s conn_api \<Rightarrow> string \<Rightarrow> (session, 's) op" where
  "stream_Begin c route =
     bind_op (return_op (map_err (Errorf1 ''invalid route'') (ValidateFixedRoute route ''stream'' 3))) (\<lambda>_.
     bind_op (send_parse c ParseStandardResponse mapStreamError ''begin'' '' failed: unexpected status''
                MessageTypeStreamBegin (streamBeginPayloadWriter route None)) (\<lambda>remaining.
     return_op
       (if length remaining < 12 then Err (ErrNew ''begin response too short'')
        else bind_res (map_err (Errorf1 ''parse session_id'') (ReadU64BE remaining 0)) (\<lambda>(sessionID, dataOffset).
             case ReadBytes remaining dataOffset of
               Ok (_, end) \<Rightarrow>
                 if end \<noteq> length remaining then Err (ErrNew ''begin response contains invalid data payload'')
                 else Ok \<lparr>ss_route = route, ss_sessionID = sessionID\<rparr>
             | Err _ \<Rightarrow> Err (ErrNew ''begin response contains invalid data payload'')
             | Panic \<Rightarrow> Panic))))"

text \<open>The operations of a session first ask whether its handle is still live.\<close>

definition when_live :: "'s conn_api \<Rightarrow> ('a, 's) op \<Rightarrow> ('a, 's) op" where
  "when_live c m s = (case api_live c s of Some err \<Rightarrow> (Err err, s) | None \<Rightarrow> m s)"

definition append_metadata :: "StreamAppendOptions option list \<Rightarrow> bytes option" where
  "append_metadata opts = (case opts of Some opt # _ \<Rightarrow> ao_Metadata opt | _ \<Rightarrow> None)"

definition session_Append ::
  "'s conn_api \<Rightarrow> session \<Rightarrow> u64 \<Rightarrow> bytes \<Rightarrow> StreamAppendOptions option list \<Rightarrow> (u64, 's) op" where
  "session_Append c ss expectedOffset body opts = when_live c
     (bind_op (send_parse c ParseStandardResponse mapStreamError ''send'' '' failed: unexpected status''
                 MessageTypeStreamAppend
                 (streamAppendPayloadWriter (ss_sessionID ss) expectedOffset body (append_metadata opts) opts)) (\<lambda>remaining.
      return_op
        (case ReadBytes remaining 0 of
           Ok (dat, end) \<Rightarrow>
             if end = length remaining \<and> length dat \<ge> 8
             then bind_res (ReadU64BE dat 0) (\<lambda>(assignedOffset, _). Ok assignedOffset)
             else Ok 0
         | Err _ \<Rightarrow> Ok 0
         | Panic \<Rightarrow> Panic)))"

definition session_Commit :: "'s conn_api \<Rightarrow> session \<Rightarrow> u8 \<Rightarrow> (unit, 's) op" where
  "session_Commit c ss mode = when_live c
     (bind_op (send_parse c ParseStandardResponse mapStreamError ''commit'' '' failed: unexpected status''
                 MessageTypeStreamCommit (streamCommitPayloadWriter (ss_sessionID ss) mode)) (\<lambda>_. return_op (Ok ())))"

definition session_Rollback :: "'s conn_api \<Rightarrow> session \<Rightarrow> (unit, 's) op" where
  "session_Rollback c ss = when_live c
     (bind_op (send_parse c ParseStandardResponse mapStreamError ''rollback'' '' failed: unexpected status''
                 MessageTypeStreamRollback (streamRollbackPayloadWriter (ss_sessionID ss))) (\<lambda>_. return_op (Ok ())))"

definition isStreamReadRetryable :: "go_error \<Rightarrow> bool" where
  "isStreamReadRetryable err = IsTransientRetryable err"

definition first_option :: "'a option list \<Rightarrow> 'a option" where
  "first_option opts = (case opts of Some opt # _ \<Rightarrow> Some opt | _ \<Rightarrow> None)"

definition read_attempt ::
  "'s conn_api \<Rightarrow> string \<Rightarrow> u64 \<Rightarrow> u64 \<Rightarrow> StreamReadOptions option \<Rightarrow> (ReadPage, 's) op" where
  "read_attempt c route fromOffset limit readOptions =
     bind_op (send_parse c ParseStandardResponse mapStreamError ''read'' '' failed: unexpected status''
                MessageTypeStreamRead (streamReadPayloadWriter route fromOffset limit readOptions)) (\<lambda>remaining.
     return_op
       (bind_res (map_err (Errorf1 ''parse read response envelope'') (skipOptionalSessionIDAndGetData remaining)) (\<lambda>dat.
          map_err (Errorf1 ''parse read response'') (parseReadPageResponse dat route))))"

definition ReadPage_op ::
  "'s conn_api \<Rightarrow> string \<Rightarrow> u64 \<Rightarrow> u64 \<Rightarrow> StreamReadOptions option list \<Rightarrow> (ReadPage, 's) op" where
  "ReadPage_op c route fromOffset limit opts =
     bind_op (return_op (map_err (Errorf1 ''invalid route'') (ValidateStreamSelector route))) (\<lambda>_.
       RunWithRetry c (read_attempt c route fromOffset limit (first_option opts)) isStreamReadRetryable)"

definition stream_Read ::
  "'s conn_api \<Rightarrow> string \<Rightarrow> u64 \<Rightarrow> u64 \<Rightarrow> StreamReadOptions option list \<Rightarrow> (Record SliceIterator, 's) op" where
  "stream_Read c route fromOffset limit opts =
     bind_op (ReadPage_op c route fromOffset limit opts) (\<lambda>page.
       return_op (Ok (NewSliceIterator (flattenReadItems (page_Items page)))))"

definition peek_attempt :: "'s conn_api \<Rightarrow> string \<Rightarrow> (Record option, 's) op" where
  "peek_attempt c route =
     bind_op (send_parse c ParseStandardResponse mapStreamError ''peek'' '' failed: unexpected status''
                MessageTypeStreamLast (streamLastPayloadWriter route)) (\<lambda>remaining.
     return_op
       (if length remaining = 0 then Ok None
        else bind_res (map_err (Errorf1 ''parse peek response'') (parseLastResponse remaining route)) (\<lambda>r. Ok (Some r))))"

definition Peek :: "'s conn_api \<Rightarrow> string \<Rightarrow> (Record option, 's) op" where
  "Peek c route =
     bind_op (return_op (map_err (Errorf1 ''invalid route'') (ValidateFixedRoute route ''stream'' 3))) (\<lambda>_.
       RunWithRetry c (peek_attempt c route) isStreamReadRetryable)"

definition metadata_attempt :: "'s conn_api \<Rightarrow> string \<Rightarrow> (Metadata, 's) op" where
  "metadata_attempt c route =
     bind_op (send_parse c ParseStandardResponse mapStreamError ''get_metadata'' '' failed: unexpected status''
                MessageTypeStreamGetMetadata (streamGetMetadataPayloadWriter route)) (\<lambda>remaining.
       return_op (map_err (Errorf1 ''parse GET_METADATA response'') (parseMetadataPayload remaining)))"

definition stream_Metadata :: "'s conn_api \<Rightarrow> string \<Rightarrow> (Metadata, 's) op" where
  "stream_Metadata c route =
     bind_op (return_op (map_err (Errorf1 ''invalid route'') (ValidateFixedRoute route ''stream'' 3))) (\<lambda>_.
       RunWithRetry c (metadata_attempt c route) isStreamReadRetryable)"

section \<open>Subscriptions\<close>

definition stream_subscribeWire :: "'s conn_api \<Rightarrow> string \<Rightarrow> (u64, 's) op" where
  "stream_subscribeWire c pat =
     bind_op (send_parse c ParseStandardResponse mapStreamError ''subscribe'' '' failed: unexpected status''
                MessageTypeStreamSubscribe (stream_subscribePayloadWriter pat)) (\<lambda>remaining s.
       if length remaining < 1
       then (Err (ErrNew (''subscribe response too short: got '' @ dec (length remaining) @ '' bytes'')), s)
       else if remaining ! 0 \<noteq> 1 then (Err (ErrNew ''subscribe response missing subscription_id''), s)
       else if length remaining < 9
       then (Err (ErrNew (''subscribe response too short for subscription_id: got '' @ dec (length remaining) @ '' bytes'')), s)
       else case map_err (Errorf1 ''parse subscription_id'') (ReadU64BE remaining 1) of
              Ok (subID, _) \<Rightarrow> (Ok subID, api_addSubs c 1 s) | Err e \<Rightarrow> (Err e, s) | Panic \<Rightarrow> (Panic, s))"

definition stream_rollbackWire :: "'s conn_api \<Rightarrow> string \<Rightarrow> (unit, 's) op" where
  "stream_rollbackWire c pat =
     bind_op (api_send c MessageTypeStreamUnsubscribe (stream_unsubscribePayloadWriter pat)) (\<lambda>resp.
     bind_op (return_op (ParseStandardResponse resp)) (\<lambda>_ s. (Ok (), api_addSubs c (-1) s)))"

text \<open>
  The notification a commit gives: the payload is JSON, whose decoding belongs to the standard library; it is
  the parameter \<open>unmarshal\<close>, which yields the decoded fields or nothing. A payload that cannot be decoded
  leaves them zero.
\<close>

record CommitNotification =
  cn_Route :: string
  cn_Event :: string
  cn_FirstResourceOffset :: u64
  cn_LastResourceOffset :: u64
  cn_FirstAreaOffset :: u64
  cn_LastAreaOffset :: u64
  cn_FirstRealmOffset :: u64
  cn_LastRealmOffset :: u64
  cn_BatchSize :: u64

definition zero_commit :: "string \<Rightarrow> CommitNotification" where
  "zero_commit route = \<lparr>cn_Route = route, cn_Event = [], cn_FirstResourceOffset = 0, cn_LastResourceOffset = 0,
     cn_FirstAreaOffset = 0, cn_LastAreaOffset = 0, cn_FirstRealmOffset = 0, cn_LastRealmOffset = 0, cn_BatchSize = 0\<rparr>"

definition stream_notification :: "(bytes \<Rightarrow> CommitNotification option) \<Rightarrow> string \<Rightarrow> bytes \<Rightarrow> CommitNotification" where
  "stream_notification unmarshal route payload =
     (if length payload > 0
      then case unmarshal payload of Some decoded \<Rightarrow> decoded\<lparr>cn_Route := route\<rparr> | None \<Rightarrow> zero_commit route
      else zero_commit route)"

section \<open>Request layouts\<close>

definition stream_begin_layout :: "bytes \<Rightarrow> nat \<Rightarrow> ((string \<times> bytes option) \<times> nat) res" where
  "stream_begin_layout = rd_pair ReadString (rd_option ReadBytes)"

definition stream_append_layout ::
  "bytes \<Rightarrow> nat \<Rightarrow> ((u64 \<times> u64 \<times> bytes \<times> bytes option \<times> string option) \<times> nat) res" where
  "stream_append_layout =
     rd_pair ReadU64BE (rd_pair ReadU64BE (rd_pair ReadBytes (rd_pair (rd_option ReadBytes) (rd_option ReadString))))"

definition stream_commit_layout :: "bytes \<Rightarrow> nat \<Rightarrow> ((u64 \<times> u8) \<times> nat) res" where
  "stream_commit_layout = rd_pair ReadU64BE ReadU8"

definition stream_read_layout ::
  "bytes \<Rightarrow> nat \<Rightarrow> ((string \<times> u64 \<times> u64 \<times> u64 option \<times> bytes option \<times> u64 option \<times> u64 option) \<times> nat) res" where
  "stream_read_layout =
     rd_pair ReadString (rd_pair ReadU64BE (rd_pair ReadU64BE (rd_pair (rd_option ReadU64BE) (rd_pair (rd_option ReadBytes)
       (rd_pair (rd_option ReadU64BE) (rd_option ReadU64BE))))))"

interpretation st_begin: field_codec "enc_pair len_prefixed_string (enc_option len_prefixed)" stream_begin_layout
  "fits_pair fits_u32 (pred_option fits_u32)"
  unfolding stream_begin_layout_def by (intro codec_intros)

interpretation st_append: field_codec
  "enc_pair PutUint64 (enc_pair PutUint64 (enc_pair len_prefixed (enc_pair (enc_option len_prefixed) (enc_option len_prefixed_string))))"
  stream_append_layout
  "fits_pair (\<lambda>_. True) (fits_pair (\<lambda>_. True) (fits_pair fits_u32 (fits_pair (pred_option fits_u32) (pred_option fits_u32))))"
  unfolding stream_append_layout_def by (intro codec_intros)

interpretation st_commit: field_codec "enc_pair PutUint64 (\<lambda>b. [b])" stream_commit_layout "fits_pair (\<lambda>_. True) (\<lambda>_. True)"
  unfolding stream_commit_layout_def by (intro codec_intros)

interpretation st_read: field_codec
  "enc_pair len_prefixed_string (enc_pair PutUint64 (enc_pair PutUint64 (enc_pair (enc_option PutUint64)
     (enc_pair (enc_option len_prefixed) (enc_pair (enc_option PutUint64) (enc_option PutUint64))))))"
  stream_read_layout
  "fits_pair fits_u32 (fits_pair (\<lambda>_. True) (fits_pair (\<lambda>_. True) (fits_pair (pred_option (\<lambda>_. True))
     (fits_pair (pred_option fits_u32) (fits_pair (pred_option (\<lambda>_. True)) (pred_option (\<lambda>_. True)))))))"
  unfolding stream_read_layout_def by (intro codec_intros)

lemmas stream_decodes = decodes_iff [OF st_begin.field_codec_axioms] decodes_iff [OF st_append.field_codec_axioms]
  decodes_iff [OF st_commit.field_codec_axioms] decodes_iff [OF st_read.field_codec_axioms]

text \<open>
  A filter set: two bytes of a version mark, then the counted clauses, each behind a tag. What a clause
  does not use of its two operands is not on the wire; \<open>plain_clause\<close> is the clause without it.
\<close>

definition plain_clause :: "StreamFilterClause \<Rightarrow> StreamFilterClause" where
  "plain_clause cl = (if fc_Kind cl = StreamFilterAnyOf then cl\<lparr>fc_Value := []\<rparr> else cl\<lparr>fc_Values := []\<rparr>)"

definition clause_tag :: "StreamFilterClause \<Rightarrow> u8" where
  "clause_tag cl = (if fc_Kind cl = StreamFilterEquals then 0 else if fc_Kind cl = StreamFilterNotEquals then 1
     else if fc_Kind cl = StreamFilterStartsWith then 2 else 3)"

definition clause_operand :: "StreamFilterClause \<Rightarrow> bytes" where
  "clause_operand cl = (if fc_Kind cl = StreamFilterAnyOf then enc_list len_prefixed_string (fc_Values cl)
     else len_prefixed_string (fc_Value cl))"

definition known_clause :: "StreamFilterClause \<Rightarrow> bool" where
  "known_clause cl \<longleftrightarrow>
     fc_Kind cl \<in> {StreamFilterEquals, StreamFilterNotEquals, StreamFilterStartsWith} \<and> fits_u32 (fc_Value cl) \<or>
     fc_Kind cl = StreamFilterAnyOf \<and> fits_list fits_u32 (fc_Values cl)"

definition value_clause :: "string \<Rightarrow> string \<Rightarrow> StreamFilterClause" where
  "value_clause kind v = \<lparr>fc_Kind = kind, fc_Value = v, fc_Values = []\<rparr>"

definition anyof_clause :: "string list \<Rightarrow> StreamFilterClause" where
  "anyof_clause vs = \<lparr>fc_Kind = StreamFilterAnyOf, fc_Value = [], fc_Values = vs\<rparr>"

definition clause_reader :: "u8 \<Rightarrow> (bytes \<Rightarrow> nat \<Rightarrow> (StreamFilterClause \<times> nat) res) option" where
  "clause_reader t =
     (if t = 0 then Some (rd_map (value_clause StreamFilterEquals) ReadString)
      else if t = 1 then Some (rd_map (value_clause StreamFilterNotEquals) ReadString)
      else if t = 2 then Some (rd_map (value_clause StreamFilterStartsWith) ReadString)
      else if t = 3 then Some (rd_map anyof_clause (rd_list ReadString))
      else None)"

definition rd_clause :: "bytes \<Rightarrow> nat \<Rightarrow> (StreamFilterClause \<times> nat) res" where
  "rd_clause = rd_case clause_reader"

definition stream_filter_layout :: "bytes \<Rightarrow> nat \<Rightarrow> ((u8 \<times> u8 \<times> StreamFilterClause list) \<times> nat) res" where
  "stream_filter_layout = rd_pair ReadU8 (rd_pair ReadU8 (rd_list rd_clause))"

lemma kinds_distinct [simp]:
  "StreamFilterEquals \<noteq> StreamFilterNotEquals" "StreamFilterEquals \<noteq> StreamFilterStartsWith"
  "StreamFilterEquals \<noteq> StreamFilterAnyOf" "StreamFilterNotEquals \<noteq> StreamFilterStartsWith"
  "StreamFilterNotEquals \<noteq> StreamFilterAnyOf" "StreamFilterStartsWith \<noteq> StreamFilterAnyOf"
  "StreamFilterNotEquals \<noteq> StreamFilterEquals" "StreamFilterStartsWith \<noteq> StreamFilterEquals"
  "StreamFilterAnyOf \<noteq> StreamFilterEquals" "StreamFilterStartsWith \<noteq> StreamFilterNotEquals"
  "StreamFilterAnyOf \<noteq> StreamFilterNotEquals" "StreamFilterAnyOf \<noteq> StreamFilterStartsWith"
  by (simp_all add: filter_kinds)

lemma value_clause_iff:
  assumes "(kind, t) \<in> {(StreamFilterEquals, 0), (StreamFilterNotEquals, 1), (StreamFilterStartsWith, 2)}"
  shows "(known_clause x \<and> plain_clause x = x) \<and> clause_tag x = t \<longleftrightarrow>
    fits_u32 (fc_Value x) \<and> value_clause kind (fc_Value x) = x"
  using assms by (cases x) (auto simp: value_clause_def known_clause_def plain_clause_def clause_tag_def split: if_splits)

lemma anyof_clause_iff:
  "(known_clause x \<and> plain_clause x = x) \<and> clause_tag x = 3 \<longleftrightarrow>
    fits_list fits_u32 (fc_Values x) \<and> anyof_clause (fc_Values x) = x"
  by (cases x) (auto simp: anyof_clause_def known_clause_def plain_clause_def clause_tag_def split: if_splits)

lemma clause_operand_simps:
  "kind \<noteq> StreamFilterAnyOf \<Longrightarrow> clause_operand (value_clause kind v) = len_prefixed_string v"
  "clause_operand (anyof_clause vs) = enc_list len_prefixed_string vs"
  by (simp_all add: clause_operand_def value_clause_def anyof_clause_def)

lemma rd_value_codec:
  assumes "(kind, t) \<in> {(StreamFilterEquals, 0), (StreamFilterNotEquals, 1), (StreamFilterStartsWith, 2)}"
  shows "field_codec clause_operand (rd_map (value_clause kind) ReadString)
     (\<lambda>cl. (known_clause cl \<and> plain_clause cl = cl) \<and> clause_tag cl = t)"
proof -
  have "kind \<noteq> StreamFilterAnyOf" using assms by auto
  then show ?thesis
    by (intro codec_cong [OF codec_map [OF stringc.field_codec_axioms, where h = fc_Value] value_clause_iff [OF assms]])
      (simp add: value_clause_def, metis clause_operand_simps(1) value_clause_def)
qed

lemma rd_anyof_codec:
  "field_codec clause_operand (rd_map anyof_clause (rd_list ReadString))
     (\<lambda>cl. (known_clause cl \<and> plain_clause cl = cl) \<and> clause_tag cl = 3)"
  by (rule codec_cong [OF codec_map [OF codec_list [OF stringc.field_codec_axioms], where h = fc_Values] anyof_clause_iff])
    (simp add: anyof_clause_def, metis clause_operand_simps(2))

lemma rd_clause_codec:
  "field_codec (\<lambda>cl. clause_tag cl # clause_operand cl) rd_clause (\<lambda>cl. known_clause cl \<and> plain_clause cl = cl)"
  unfolding rd_clause_def
proof (rule codec_case)
  fix t :: u8 and r
  assume "clause_reader t = Some r"
  then consider "t = 0" "r = rd_map (value_clause StreamFilterEquals) ReadString"
    | "t = 1" "r = rd_map (value_clause StreamFilterNotEquals) ReadString"
    | "t = 2" "r = rd_map (value_clause StreamFilterStartsWith) ReadString"
    | "t = 3" "r = rd_map anyof_clause (rd_list ReadString)"
    by (auto simp: clause_reader_def split: if_splits)
  then show "field_codec clause_operand r (\<lambda>x. (known_clause x \<and> plain_clause x = x) \<and> clause_tag x = t)"
    by cases (simp_all only: rd_anyof_codec rd_value_codec insert_iff simp_thms)
qed (simp add: clause_reader_def clause_tag_def)

interpretation st_filter: field_codec
  "enc_pair (\<lambda>b. [b]) (enc_pair (\<lambda>b. [b]) (enc_list (\<lambda>cl. clause_tag cl # clause_operand cl)))" stream_filter_layout
  "fits_pair (\<lambda>_. True) (fits_pair (\<lambda>_. True) (fits_list (\<lambda>cl. known_clause cl \<and> plain_clause cl = cl)))"
  unfolding stream_filter_layout_def by (intro codec_intros rd_clause_codec)

lemma write_seq_append: "write_seq (xs @ ys) buf = write_seq ys (write_seq xs buf)"
  by (simp add: write_seq_def)

lemma write_seq_map:
  "(\<And>x buf. x \<in> set xs \<Longrightarrow> w x buf = buf @ e x) \<Longrightarrow> write_seq (map w xs) buf = buf @ concat (map e xs)"
  by (induction xs arbitrary: buf) (simp_all add: write_seq_def)

lemma write_optional_append: "(\<And>x buf. w x buf = buf @ e x) \<Longrightarrow> write_optional (map_option w x) buf = buf @ enc_option e x"
  by (cases x) (simp_all add: write_optional_def enc_option_def byte_simps)

lemma optional_u64_enc: "optional_u64 v = enc_option PutUint64 v"
  by (simp add: optional_u64_def enc_option_def)

lemma encodeStreamFilterClause_eq:
  assumes "known_clause cl"
  shows "encodeStreamFilterClause cl buf = buf @ clause_tag (plain_clause cl) # clause_operand (plain_clause cl)"
proof -
  have "write_seq (map enc_WriteString vs) b = b @ concat (map len_prefixed_string vs)" for vs b
    by (rule write_seq_map) (simp add: byte_simps)
  then show ?thesis
    using assms by (auto simp: encodeStreamFilterClause_def known_clause_def plain_clause_def clause_tag_def
        clause_operand_def enc_list_def byte_simps)
qed

text \<open>Stream requests. BEGIN, APPEND, COMMIT and READ payloads are read back by their documented layouts as exactly
  what they were built from, an empty discriminator being absent; a READ carries its filter set as a
  byte string that its own layout reads back as the clauses, in order, each with the operand its kind uses. The two
  forms the client has of each request give the same bytes.\<close>

theorem stream_requests_decode:
  assumes "fits_u32 route" "fits_u32 body" "pred_option fits_u32 meta" "pred_option fits_u32 (discriminator_of opts)"
    and "pred_option fits_u32 (filter_bytes ropts)" "fits_u32 (fs_Clauses fs)" "list_all known_clause (fs_Clauses fs)"
    and "fs_Clauses fs \<noteq> []"
  shows
  "decodes stream_begin_layout (encodeStreamBegin route meta) (route, meta) \<and>
   decodes stream_append_layout (encodeStreamAppend sid expected body meta opts) (sid, expected, body, meta, discriminator_of opts) \<and>
   decodes stream_commit_layout (encodeStreamCommit sid mode) (sid, mode) \<and>
   decodes stream_read_layout (encodeStreamRead route from limit ropts)
     (route, from, limit, Option.bind ropts ro_MaxBytes, filter_bytes ropts, Option.bind ropts ro_CursorFingerprint,
      Option.bind ropts ro_CapturedWatermark) \<and>
   (\<exists>fb. encodeStreamFilterSet (Some fs) = Some fb \<and>
      decodes stream_filter_layout fb (0, 0xf1, map plain_clause (fs_Clauses fs))) \<and>
   streamBeginPayloadWriter route meta buf = buf @ encodeStreamBegin route meta \<and>
   streamAppendPayloadWriter sid expected body meta opts buf = buf @ encodeStreamAppend sid expected body meta opts \<and>
   streamCommitPayloadWriter sid mode buf = buf @ encodeStreamCommit sid mode \<and>
   streamReadPayloadWriter route from limit ropts buf = buf @ encodeStreamRead route from limit ropts"
proof -
  have opt: "write_optional (map_option enc_WriteBytes x) b = b @ enc_option len_prefixed x"
    "write_optional (map_option enc_WriteString y) b = b @ enc_option len_prefixed_string y"
    "write_optional (map_option enc_WriteU64 z) b = b @ enc_option PutUint64 z"
    "write_optional (map_option (\<lambda>fb. write_seq [enc_WriteU32 (u32_len fb), enc_WriteBytesRaw fb]) x) b =
       b @ enc_option len_prefixed x" for x y z b
    by (rule write_optional_append; simp add: byte_simps len_prefixed_def)+
  note writers = encodeStreamBegin_def encodeStreamAppend_def encodeStreamCommit_def encodeStreamRead_def
    streamBeginPayloadWriter_def streamAppendPayloadWriter_def streamCommitPayloadWriter_def streamReadPayloadWriter_def
    EncodeWithBuffer_def opt optional_u64_enc
  have "write_seq (map encodeStreamFilterClause (fs_Clauses fs)) b =
      b @ concat (map (\<lambda>cl. clause_tag (plain_clause cl) # clause_operand (plain_clause cl)) (fs_Clauses fs))" for b
    using assms(7) by (intro write_seq_map) (auto simp: encodeStreamFilterClause_eq list_all_iff)
  then have f: "encodeStreamFilterSet (Some fs) =
      Some (enc_pair (\<lambda>b. [b]) (enc_pair (\<lambda>b. [b]) (enc_list (\<lambda>cl. clause_tag cl # clause_operand cl)))
        (0, 0xf1, map plain_clause (fs_Clauses fs)))"
    using assms(8) by (simp add: encodeStreamFilterSet_def layout_simps byte_simps write_seq_append o_def u32_len_def)
  have known: "known_clause (plain_clause cl) \<and> plain_clause (plain_clause cl) = plain_clause cl" if "known_clause cl" for cl
    using that by (cases cl) (auto simp: known_clause_def plain_clause_def)
  have d: "decodes stream_filter_layout (enc_pair (\<lambda>b. [b]) (enc_pair (\<lambda>b. [b]) (enc_list (\<lambda>cl. clause_tag cl # clause_operand cl)))
        (0, 0xf1, map plain_clause (fs_Clauses fs))) (0, 0xf1, map plain_clause (fs_Clauses fs))"
    using assms(6,7) known
    by (simp add: decodes_iff [OF st_filter.field_codec_axioms] fits_pair_def fits_list_def list_all_iff fits_u32_def)
  have e: "\<exists>fb. encodeStreamFilterSet (Some fs) = Some fb \<and>
      decodes stream_filter_layout fb (0, 0xf1, map plain_clause (fs_Clauses fs))"
    using f d by blast
  show ?thesis
    by (intro conjI e) (use assms(1-5) in \<open>simp_all add: stream_decodes writers layout_simps byte_simps option.pred_True\<close>)
qed

theorem stream_requests_decode_witness:
  "decodes stream_read_layout
     (encodeStreamRead ''stream://a/b/c'' 7 10
        (Some \<lparr>ro_MaxBytes = None,
               ro_Filter = Some \<lparr>fs_Clauses = [\<lparr>fc_Kind = ''Equals'', fc_Value = ''x'', fc_Values = []\<rparr>]\<rparr>,
               ro_CursorFingerprint = None, ro_CapturedWatermark = Some 3\<rparr>))
     (''stream://a/b/c'', 7, 10, None, Some [0, 0xf1, 0, 0, 0, 1, 0, 0, 0, 0, 1, 120], None, Some 3)"
proof -
  let ?fs = "\<lparr>fs_Clauses = [\<lparr>fc_Kind = ''Equals'', fc_Value = ''x'', fc_Values = []\<rparr>]\<rparr>"
  let ?ro = "Some \<lparr>ro_MaxBytes = None, ro_Filter = Some ?fs, ro_CursorFingerprint = None, ro_CapturedWatermark = Some 3\<rparr>"
  have fb: "filter_bytes ?ro = Some [0, 0xf1, 0, 0, 0, 1, 0, 0, 0, 0, 1, 120]"
    by (simp add: filter_bytes_def encodeStreamFilterSet_def encodeStreamFilterClause_def filter_kinds byte_simps
        u32_len_def len_prefixed_string_def len_prefixed_def bytes_of_string_def int_eval)
  have k: "list_all known_clause (fs_Clauses ?fs)" by (simp add: known_clause_def filter_kinds fits_u32_def)
  show ?thesis
    using stream_requests_decode [of "''stream://a/b/c''" "[]" None "[]" ?ro ?fs 1 0 0 7 10 "[]"] k
    by (simp add: fb fits_u32_def discriminator_of_def)
qed

end
