(* ===== verification/Stream_Pages.thy ===== *)
theory Stream_Pages
  imports Stream_Domain
begin

text \<open>
  The pages a stream READ returns. The parsers of \<^verbatim>\<open>stream.go\<close> accept exactly the bytes of the layout of a
  page, and reading a stream hands the caller the events of the page, in order.
\<close>

section \<open>Page layouts\<close>

definition record_bytes :: "bool \<Rightarrow> Record \<Rightarrow> bytes" where
  "record_bytes global r = PutUint64 (rec_Offset r) @ optional_u64 (rec_AreaOffset r) @ optional_u64 (rec_RealmOffset r) @
     (if global then optional_u64 (rec_GlobalOffset r) else []) @ len_prefixed (rec_Body r) @
     enc_option len_prefixed (rec_Metadata r) @ PutUint64 (rec_Timestamp r)"

definition record_ok :: "bool \<Rightarrow> Record \<Rightarrow> bool" where
  "record_ok global r \<longleftrightarrow> (if global then True else rec_GlobalOffset r = None) \<and> fits_u32 (rec_Body r) \<and>
     pred_option fits_u32 (rec_Metadata r)"

definition reason_byte :: "FilteredReason option \<Rightarrow> u8" where
  "reason_byte reason = (case reason of None \<Rightarrow> 0 | Some FilteredReasonServerFilter \<Rightarrow> 1
     | Some FilteredReasonPermission \<Rightarrow> 2 | Some FilteredReasonProjection \<Rightarrow> 3)"

definition item_tag :: "ReadItem \<Rightarrow> u8" where
  "item_tag it = (case ri_Kind it of ReadItemEvent \<Rightarrow> 0 | ReadItemFiltered \<Rightarrow> 1 | ReadItemFilteredRange \<Rightarrow> 2)"

definition item_body :: "bool \<Rightarrow> ReadItem \<Rightarrow> bytes" where
  "item_body global it =
     (case ri_Kind it of
        ReadItemEvent \<Rightarrow> record_bytes global (the (ri_Record it))
      | ReadItemFiltered \<Rightarrow> PutUint64 (ri_Offset it) @ [reason_byte (ri_Reason it)]
      | ReadItemFilteredRange \<Rightarrow> PutUint64 (ri_FromOffset it) @ PutUint64 (ri_ToOffset it) @ [reason_byte (ri_Reason it)])"

text \<open>What an item of a kind may hold: the fields of the other kinds are zero.\<close>

definition item_ok :: "bool \<Rightarrow> ReadItem \<Rightarrow> bool" where
  "item_ok global it \<longleftrightarrow>
     fits_u32 (ri_Route it) \<and> ValidateFixedRoute (ri_Route it) ''stream'' 3 = Ok () \<and>
     (case ri_Kind it of
        ReadItemEvent \<Rightarrow>
          (case ri_Record it of None \<Rightarrow> False | Some r \<Rightarrow> rec_Route r = ri_Route it \<and> record_ok global r) \<and>
          ri_Offset it = 0 \<and> ri_FromOffset it = 0 \<and> ri_ToOffset it = 0 \<and> ri_Reason it = None
      | ReadItemFiltered \<Rightarrow> ri_Record it = None \<and> ri_FromOffset it = 0 \<and> ri_ToOffset it = 0
      | ReadItemFilteredRange \<Rightarrow> ri_Record it = None \<and> ri_Offset it = 0)"

definition item_bytes :: "bool \<Rightarrow> ReadItem \<Rightarrow> bytes" where
  "item_bytes global it = len_prefixed_string (ri_Route it) @ item_tag it # item_body global it"

definition cursor_bytes :: "bool \<Rightarrow> ReadCursor \<Rightarrow> bytes" where
  "cursor_bytes global c = PutUint64 (cur_LastResourceOffset c) @ optional_u64 (cur_LastAreaOffset c) @
     optional_u64 (cur_LastRealmOffset c) @ (if global then optional_u64 (cur_LastGlobalOffset c) else []) @
     [if cur_HasMore c then 1 else 0] @
     (if global then optional_u64 (cur_CursorFingerprint c) @ optional_u64 (cur_CapturedWatermark c) else [])"

definition cursor_ok :: "bool \<Rightarrow> ReadCursor \<Rightarrow> bool" where
  "cursor_ok global c \<longleftrightarrow>
     (if global then True
      else cur_LastGlobalOffset c = None \<and> cur_CursorFingerprint c = None \<and> cur_CapturedWatermark c = None)"

definition page_bytes :: "bool \<Rightarrow> ReadPage \<Rightarrow> bytes" where
  "page_bytes global pg = enc_list (item_bytes global) (page_Items pg) @ cursor_bytes global (page_Cursor pg)"

definition page_ok :: "bool \<Rightarrow> ReadPage \<Rightarrow> bool" where
  "page_ok global pg \<longleftrightarrow> fits_list (item_ok global) (page_Items pg) \<and> cursor_ok global (page_Cursor pg)"

section \<open>The parsers read the layouts\<close>

lemma readOptionalU64_same [same_Ok_intros]: "same_Ok (readOptionalU64 p off) (rd_option ReadU64BE p off)"
  by (auto simp: readOptionalU64_def rd_option_def ReadU8_def Let_def same_Ok_intros)

lemma readOptionalBytes_same [same_Ok_intros]: "same_Ok (readOptionalBytes p off) (rd_option ReadBytes p off)"
  by (auto simp: readOptionalBytes_def rd_option_def ReadU8_def Let_def same_Ok_intros)

definition record_of :: "u64 \<times> u64 option \<times> u64 option \<times> u64 option \<times> bytes \<times> bytes option \<times> u64 \<Rightarrow> Record" where
  "record_of x = (case x of (off, area, realm, gl, body, metadata, timestamp) \<Rightarrow>
     \<lparr>rec_Route = [], rec_Offset = off, rec_AreaOffset = area, rec_RealmOffset = realm, rec_GlobalOffset = gl,
      rec_Body = body, rec_Metadata = metadata, rec_Timestamp = timestamp\<rparr>)"

definition record_fields :: "Record \<Rightarrow> u64 \<times> u64 option \<times> u64 option \<times> u64 option \<times> bytes \<times> bytes option \<times> u64" where
  "record_fields r = (rec_Offset r, rec_AreaOffset r, rec_RealmOffset r, rec_GlobalOffset r, rec_Body r, rec_Metadata r,
     rec_Timestamp r)"

lemma record_of_fields: "record_fields (record_of x) = x" "record_of (record_fields r) = r \<longleftrightarrow> rec_Route r = []"
  by (cases x; cases r; auto simp: record_of_def record_fields_def)+

definition rd_record :: "bool \<Rightarrow> bytes \<Rightarrow> nat \<Rightarrow> (Record \<times> nat) res" where
  "rd_record global = rd_map record_of (rd_pair ReadU64BE (rd_pair (rd_option ReadU64BE) (rd_pair (rd_option ReadU64BE)
     (rd_pair (rd_when global (rd_option ReadU64BE)) (rd_pair ReadBytes (rd_pair (rd_option ReadBytes) ReadU64BE))))))"

lemma when_same [same_Ok_intros]:
  "same_Ok (r p off) (r' p off) \<Longrightarrow> same_Ok (if present then map_err f (r p off) else Ok (None, off)) (rd_when present r' p off)"
  by (simp add: rd_when_def same_Ok_intros)

lemma decodeStreamRecordAt_same [same_Ok_intros]: "same_Ok (decodeStreamRecordAt p off global) (rd_record global p off)"
  unfolding decodeStreamRecordAt_def rd_record_def layout_binds
  by (simp only: prod.collapse fst_conv snd_conv bind_res.simps record_of_def prod.case)
    (intro same_Ok_intros when_same readOptionalU64_same)

lemma rd_record_codec: "field_codec (record_bytes global) (rd_record global) (\<lambda>r. record_ok global r \<and> rec_Route r = [])"
proof -
  have c: "field_codec
      (enc_pair PutUint64 (enc_pair (enc_option PutUint64) (enc_pair (enc_option PutUint64)
        (enc_pair (\<lambda>x. if global then enc_option PutUint64 x else []) (enc_pair len_prefixed (enc_pair (enc_option len_prefixed) PutUint64))))))
      (rd_pair ReadU64BE (rd_pair (rd_option ReadU64BE) (rd_pair (rd_option ReadU64BE)
        (rd_pair (rd_when global (rd_option ReadU64BE)) (rd_pair ReadBytes (rd_pair (rd_option ReadBytes) ReadU64BE))))))
      (fits_pair (\<lambda>_. True) (fits_pair (pred_option (\<lambda>_. True)) (fits_pair (pred_option (\<lambda>_. True))
        (fits_pair (\<lambda>x. if global then pred_option (\<lambda>_. True) x else x = None)
          (fits_pair fits_u32 (fits_pair (pred_option fits_u32) (\<lambda>_. True)))))))"
    by (intro codec_intros codec_when)
  show ?thesis unfolding rd_record_def
  proof (rule codec_build [OF c, of record_fields])
    show "(record_ok global y \<and> rec_Route y = []) \<longleftrightarrow>
        fits_pair (\<lambda>_. True) (fits_pair (pred_option (\<lambda>_. True)) (fits_pair (pred_option (\<lambda>_. True))
          (fits_pair (\<lambda>x. if global then pred_option (\<lambda>_. True) x else x = None)
            (fits_pair fits_u32 (fits_pair (pred_option fits_u32) (\<lambda>_. True)))))) (record_fields y) \<and>
        record_of (record_fields y) = y" for y
      unfolding record_of_fields(2) by (auto simp: record_fields_def record_ok_def fits_pair_def option.pred_True)
  qed (auto simp: record_of_def record_fields_def record_bytes_def enc_pair_def optional_u64_enc split: prod.split)
qed

definition reason_reader :: "u8 \<Rightarrow> (bytes \<Rightarrow> nat \<Rightarrow> (FilteredReason option \<times> nat) res) option" where
  "reason_reader t =
     (if t = 0 then Some (rd_const None) else if t = 1 then Some (rd_const (Some FilteredReasonServerFilter))
      else if t = 2 then Some (rd_const (Some FilteredReasonPermission))
      else if t = 3 then Some (rd_const (Some FilteredReasonProjection)) else None)"

lemma decodeFilteredReasonAt_same [same_Ok_intros]: "same_Ok (decodeFilteredReasonAt p off) (rd_case reason_reader p off)"
  by (auto simp: decodeFilteredReasonAt_def rd_case_def reason_reader_def rd_const_def ReadU8_def index_def same_Ok_intros)

lemma reason_codec: "field_codec (\<lambda>x. [reason_byte x]) (rd_case reason_reader) (\<lambda>_. True)"
proof -
  have "field_codec (\<lambda>x. reason_byte x # []) (rd_case reason_reader) (\<lambda>_. True)"
  proof (rule codec_case)
    fix t :: u8 and r
    assume "reason_reader t = Some r"
    then obtain y where y: "r = rd_const y" "\<And>x. reason_byte x = t \<longleftrightarrow> x = y"
      by (auto simp: reason_reader_def reason_byte_def split: if_splits option.splits FilteredReason.splits)
    show "field_codec (\<lambda>_. []) r (\<lambda>x. True \<and> reason_byte x = t)"
      unfolding y(1) by (rule codec_cong [OF codec_const]) (simp_all add: y(2))
  qed (simp add: reason_reader_def reason_byte_def split: option.split FilteredReason.split)
  then show ?thesis .
qed

definition item_reader :: "bool \<Rightarrow> u8 \<Rightarrow> (bytes \<Rightarrow> nat \<Rightarrow> (ReadItem \<times> nat) res) option" where
  "item_reader global t =
     (if t = 0 then Some (rd_map (\<lambda>r. (zero_item ReadItemEvent)\<lparr>ri_Record := Some r\<rparr>) (rd_record global))
      else if t = 1
      then Some (rd_map (\<lambda>(off, reason). (zero_item ReadItemFiltered)\<lparr>ri_Offset := off, ri_Reason := reason\<rparr>)
                   (rd_pair ReadU64BE (rd_case reason_reader)))
      else if t = 2
      then Some (rd_map (\<lambda>(from, to, reason). (zero_item ReadItemFilteredRange)\<lparr>ri_FromOffset := from, ri_ToOffset := to, ri_Reason := reason\<rparr>)
                   (rd_pair ReadU64BE (rd_pair ReadU64BE (rd_case reason_reader))))
      else None)"

definition bare_item_ok :: "bool \<Rightarrow> ReadItem \<Rightarrow> bool" where
  "bare_item_ok global it \<longleftrightarrow>
     ri_Route it = [] \<and>
     (case ri_Kind it of
        ReadItemEvent \<Rightarrow>
          (case ri_Record it of None \<Rightarrow> False | Some r \<Rightarrow> rec_Route r = [] \<and> record_ok global r) \<and>
          ri_Offset it = 0 \<and> ri_FromOffset it = 0 \<and> ri_ToOffset it = 0 \<and> ri_Reason it = None
      | ReadItemFiltered \<Rightarrow> ri_Record it = None \<and> ri_FromOffset it = 0 \<and> ri_ToOffset it = 0
      | ReadItemFilteredRange \<Rightarrow> ri_Record it = None \<and> ri_Offset it = 0)"

lemma decodeStreamReadItemAt_same [same_Ok_intros]:
  "same_Ok (decodeStreamReadItemAt p off global) (rd_case (item_reader global) p off)"
proof (cases "off \<ge> length p")
  case False
  let ?t = "p ! off"
  have r: "rd_case (item_reader global) p off =
      (case item_reader global ?t of None \<Rightarrow> Err (ErrNew ''unknown tag'') | Some r \<Rightarrow> r p (off + 1))"
    using False by (simp add: rd_case_def ReadU8_def index_def split: option.split)
  consider "?t = 0" | "?t = 1" | "?t = 2" | "?t \<noteq> 0" "?t \<noteq> 1" "?t \<noteq> 2" by blast
  then show ?thesis
    unfolding r decodeStreamReadItemAt_def Let_def
    by cases (use False in \<open>simp_all add: item_reader_def layout_binds\<close>, (intro same_Ok_intros)+)
qed (simp add: decodeStreamReadItemAt_def rd_case_def ReadU8_def same_Ok_intros)

lemma event_codec:
  "field_codec (item_body global) (rd_map (\<lambda>r. (zero_item ReadItemEvent)\<lparr>ri_Record := Some r\<rparr>) (rd_record global))
     (\<lambda>x. bare_item_ok global x \<and> item_tag x = 0)"
proof (rule codec_build [OF rd_record_codec, of global "\<lambda>it. the (ri_Record it)"])
  show "(bare_item_ok global x \<and> item_tag x = 0) \<longleftrightarrow>
      (record_ok global (the (ri_Record x)) \<and> rec_Route (the (ri_Record x)) = []) \<and>
      (zero_item ReadItemEvent)\<lparr>ri_Record := Some (the (ri_Record x))\<rparr> = x" for x
    by (cases x; cases "ri_Kind x"; cases "ri_Record x") (auto simp: bare_item_ok_def item_tag_def zero_item_def)
qed (simp_all add: item_body_def zero_item_def)

lemma filtered_codec:
  "field_codec (item_body global)
     (rd_map (\<lambda>(off, reason). (zero_item ReadItemFiltered)\<lparr>ri_Offset := off, ri_Reason := reason\<rparr>)
        (rd_pair ReadU64BE (rd_case reason_reader)))
     (\<lambda>x. bare_item_ok global x \<and> item_tag x = 1)"
proof (rule codec_build [OF codec_pair [OF u64c.field_codec_axioms reason_codec], of "\<lambda>it. (ri_Offset it, ri_Reason it)"])
  show "(bare_item_ok global x \<and> item_tag x = 1) \<longleftrightarrow>
      fits_pair (\<lambda>_. True) (\<lambda>_. True) (ri_Offset x, ri_Reason x) \<and>
      (case (ri_Offset x, ri_Reason x) of (off, reason) \<Rightarrow>
         (zero_item ReadItemFiltered)\<lparr>ri_Offset := off, ri_Reason := reason\<rparr>) = x" for x
    by (cases x; cases "ri_Kind x") (auto simp: bare_item_ok_def item_tag_def zero_item_def fits_pair_def)
qed (auto simp: item_body_def zero_item_def enc_pair_def)

lemma filtered_range_codec:
  "field_codec (item_body global)
     (rd_map (\<lambda>(from, to, reason). (zero_item ReadItemFilteredRange)\<lparr>ri_FromOffset := from, ri_ToOffset := to, ri_Reason := reason\<rparr>)
        (rd_pair ReadU64BE (rd_pair ReadU64BE (rd_case reason_reader))))
     (\<lambda>x. bare_item_ok global x \<and> item_tag x = 2)"
proof (rule codec_build [OF codec_pair [OF u64c.field_codec_axioms codec_pair [OF u64c.field_codec_axioms reason_codec]],
      of "\<lambda>it. (ri_FromOffset it, ri_ToOffset it, ri_Reason it)"])
  show "(bare_item_ok global x \<and> item_tag x = 2) \<longleftrightarrow>
      fits_pair (\<lambda>_. True) (fits_pair (\<lambda>_. True) (\<lambda>_. True)) (ri_FromOffset x, ri_ToOffset x, ri_Reason x) \<and>
      (case (ri_FromOffset x, ri_ToOffset x, ri_Reason x) of (from, to, reason) \<Rightarrow>
         (zero_item ReadItemFilteredRange)\<lparr>ri_FromOffset := from, ri_ToOffset := to, ri_Reason := reason\<rparr>) = x" for x
    by (cases x; cases "ri_Kind x") (auto simp: bare_item_ok_def item_tag_def zero_item_def fits_pair_def)
qed (auto simp: item_body_def zero_item_def enc_pair_def)

lemma bare_item_codec: "field_codec (\<lambda>x. item_tag x # item_body global x) (rd_case (item_reader global)) (bare_item_ok global)"
proof (rule codec_case)
  fix t :: u8 and r
  assume "item_reader global t = Some r"
  then show "field_codec (item_body global) r (\<lambda>x. bare_item_ok global x \<and> item_tag x = t)"
    unfolding item_reader_def
    by (auto split: if_splits simp: event_codec filtered_codec filtered_range_codec)
qed (simp add: item_reader_def item_tag_def split: ReadItemKind.split)

text \<open>An item with its route, the cursor, and the whole page.\<close>

definition rd_item :: "bool \<Rightarrow> bytes \<Rightarrow> nat \<Rightarrow> (ReadItem \<times> nat) res" where
  "rd_item global = rd_map (\<lambda>(route, item). set_route route item)
     (rd_pair (rd_check (\<lambda>route. ValidateFixedRoute route ''stream'' 3) ReadString) (rd_case (item_reader global)))"

lemma read_page_item_same: "same_Ok (read_page_item global i p off) (rd_item global p off)"
  unfolding read_page_item_def rd_item_def layout_binds
  by (simp only: fst_conv snd_conv bind_res.simps) (intro same_Ok_intros)

definition bare_item :: "ReadItem \<Rightarrow> string \<times> ReadItem" where
  "bare_item it = (ri_Route it, set_route [] it)"

lemma set_route_simps [simp]:
  "set_route r (set_route r' it) = set_route r it" "ri_Route (set_route r it) = r" "item_tag (set_route r it) = item_tag it"
  "ri_Kind (set_route r it) = ri_Kind it"
  by (simp_all add: set_route_def item_tag_def option.map_comp o_def)

lemma record_bytes_route [simp]: "record_bytes global (r\<lparr>rec_Route := x\<rparr>) = record_bytes global r"
  by (simp add: record_bytes_def)

lemma item_body_route:
  "bare_item_ok global it \<Longrightarrow> item_body global (set_route r it) = item_body global it"
  by (auto simp: item_body_def set_route_def bare_item_ok_def split: ReadItemKind.split option.splits)

lemma set_route_bare: "bare_item_ok global it \<Longrightarrow> set_route [] it = it"
  by (cases it; cases "ri_Record it"; cases "ri_Kind it") (auto simp: bare_item_ok_def set_route_def)

lemma item_ok_iff:
  "item_ok global it \<longleftrightarrow> fits_u32 (ri_Route it) \<and> ValidateFixedRoute (ri_Route it) ''stream'' 3 = Ok () \<and>
     bare_item_ok global (set_route [] it) \<and> set_route (ri_Route it) it = it"
proof -
  have "r\<lparr>rec_Route := x\<rparr> = r \<longleftrightarrow> rec_Route r = x" for r :: Record and x by (cases r) auto
  then show ?thesis
    by (cases it; cases "ri_Record it"; cases "ri_Kind it")
      (auto simp: item_ok_def bare_item_ok_def set_route_def record_ok_def)
qed

lemma rd_item_codec: "field_codec (item_bytes global) (rd_item global) (item_ok global)"
proof -
  have c: "field_codec (enc_pair len_prefixed_string (\<lambda>x. item_tag x # item_body global x))
      (rd_pair (rd_check (\<lambda>route. ValidateFixedRoute route ''stream'' 3) ReadString) (rd_case (item_reader global)))
      (fits_pair (\<lambda>x. fits_u32 x \<and> ValidateFixedRoute x ''stream'' 3 = Ok ()) (bare_item_ok global))"
    by (intro codec_pair codec_check codec_fields bare_item_codec ValidateFixedRoute_no_panic)
  show ?thesis unfolding rd_item_def
  proof (rule codec_build [OF c, of bare_item])
    show "item_ok global y \<longleftrightarrow>
        fits_pair (\<lambda>x. fits_u32 x \<and> ValidateFixedRoute x ''stream'' 3 = Ok ()) (bare_item_ok global) (bare_item y) \<and>
        (case bare_item y of (route, item) \<Rightarrow> set_route route item) = y" for y
      by (simp add: item_ok_iff bare_item_def fits_pair_def)
    show "bare_item (case x of (route, item) \<Rightarrow> set_route route item) = x"
      if "fits_pair (\<lambda>x. fits_u32 x \<and> ValidateFixedRoute x ''stream'' 3 = Ok ()) (bare_item_ok global) x" for x
      using that by (cases x) (auto simp: bare_item_def fits_pair_def intro: set_route_bare)
    show "item_bytes global (case x of (route, item) \<Rightarrow> set_route route item) =
        enc_pair len_prefixed_string (\<lambda>x. item_tag x # item_body global x) x"
      if "fits_pair (\<lambda>x. fits_u32 x \<and> ValidateFixedRoute x ''stream'' 3 = Ok ()) (bare_item_ok global) x" for x
      using that item_body_route by (cases x) (simp add: item_bytes_def enc_pair_def fits_pair_def)
  qed
qed

definition cursor_of :: "u64 \<times> u64 option \<times> u64 option \<times> u64 option \<times> bool \<times> u64 option \<times> u64 option \<Rightarrow> ReadCursor" where
  "cursor_of x = (case x of (resource, area, realm, gl, hasMore, fingerprint, watermark) \<Rightarrow>
     \<lparr>cur_LastResourceOffset = resource, cur_LastAreaOffset = area, cur_LastRealmOffset = realm, cur_LastGlobalOffset = gl,
      cur_CursorFingerprint = fingerprint, cur_CapturedWatermark = watermark, cur_HasMore = hasMore\<rparr>)"

definition cursor_values :: "ReadCursor \<Rightarrow> u64 \<times> u64 option \<times> u64 option \<times> u64 option \<times> bool \<times> u64 option \<times> u64 option" where
  "cursor_values c = (cur_LastResourceOffset c, cur_LastAreaOffset c, cur_LastRealmOffset c, cur_LastGlobalOffset c,
     cur_HasMore c, cur_CursorFingerprint c, cur_CapturedWatermark c)"

definition rd_cursor :: "bool \<Rightarrow> bytes \<Rightarrow> nat \<Rightarrow> (ReadCursor \<times> nat) res" where
  "rd_cursor global = rd_map cursor_of (rd_pair ReadU64BE (rd_pair (rd_option ReadU64BE) (rd_pair (rd_option ReadU64BE)
     (rd_pair (rd_when global (rd_option ReadU64BE)) (rd_pair rd_flag
       (rd_pair (rd_when global (rd_option ReadU64BE)) (rd_when global (rd_option ReadU64BE))))))))"

lemma rd_flag_bind:
  "same_Ok (if off \<ge> length p \<or> (p ! off \<noteq> 0 \<and> p ! off \<noteq> 1) then Err e else f (p ! off = 1) (off + 1))
     (bind_res (rd_flag p off) (\<lambda>x. g (fst x) (snd x)))"
  if "\<And>b o'. same_Ok (f b o') (g b o')"
  using that by (auto simp: rd_flag_def rd_case_def ReadU8_def index_def rd_const_def same_Ok_intros)

lemma read_cursor_same: "same_Ok (read_cursor global p off) (rd_cursor global p off)"
  unfolding read_cursor_def rd_cursor_def layout_binds Let_def
  by (simp only: fst_conv snd_conv bind_res.simps cursor_of_def prod.case)
    (intro same_Ok_bind same_Ok_map_err same_Ok_refl when_same readOptionalU64_same
      rd_flag_bind [where g = "\<lambda>b o'. bind_res (rd_when global (rd_option ReadU64BE) p o') (G b)" for G])

lemma rd_cursor_codec: "field_codec (cursor_bytes global) (rd_cursor global) (cursor_ok global)"
proof -
  have c: "field_codec
      (enc_pair PutUint64 (enc_pair (enc_option PutUint64) (enc_pair (enc_option PutUint64)
        (enc_pair (\<lambda>x. if global then enc_option PutUint64 x else []) (enc_pair (\<lambda>b. [if b then 1 else 0])
          (enc_pair (\<lambda>x. if global then enc_option PutUint64 x else []) (\<lambda>x. if global then enc_option PutUint64 x else [])))))))
      (rd_pair ReadU64BE (rd_pair (rd_option ReadU64BE) (rd_pair (rd_option ReadU64BE)
        (rd_pair (rd_when global (rd_option ReadU64BE)) (rd_pair rd_flag
          (rd_pair (rd_when global (rd_option ReadU64BE)) (rd_when global (rd_option ReadU64BE))))))))
      (fits_pair (\<lambda>_. True) (fits_pair (pred_option (\<lambda>_. True)) (fits_pair (pred_option (\<lambda>_. True))
        (fits_pair (\<lambda>x. if global then pred_option (\<lambda>_. True) x else x = None) (fits_pair (\<lambda>_. True)
          (fits_pair (\<lambda>x. if global then pred_option (\<lambda>_. True) x else x = None)
            (\<lambda>x. if global then pred_option (\<lambda>_. True) x else x = None)))))))"
    by (intro codec_intros codec_when codec_flag)
  show ?thesis unfolding rd_cursor_def
    by (rule codec_build [OF c, of cursor_values])
      (auto simp: cursor_of_def cursor_values_def cursor_bytes_def cursor_ok_def layout_simps optional_u64_enc
        option.pred_True split: prod.split)
qed

definition page_of :: "ReadItem list \<times> ReadCursor \<Rightarrow> ReadPage" where
  "page_of x = \<lparr>page_Items = fst x, page_Cursor = snd x\<rparr>"

definition rd_page :: "bool \<Rightarrow> bytes \<Rightarrow> nat \<Rightarrow> (ReadPage \<times> nat) res" where
  "rd_page global = rd_map page_of (rd_pair (rd_list (rd_item global)) (rd_cursor global))"

lemma rd_page_codec: "field_codec (page_bytes global) (rd_page global) (page_ok global)"
  unfolding rd_page_def
  by (rule codec_build [OF codec_pair [OF codec_list [OF rd_item_codec] rd_cursor_codec], where h = "\<lambda>pg. (page_Items pg, page_Cursor pg)"])
    (auto simp: page_of_def page_bytes_def page_ok_def enc_pair_def fits_pair_def)

lemma page_same:
  "same_Ok
     (bind_res (map_err f (ReadU32BE p 0)) (\<lambda>(count, offset).
      bind_res (read_items (read_page_item global) 0 (unat count) p offset) (\<lambda>(items, offset).
      bind_res (read_cursor global p offset) (\<lambda>(cursor, offset).
        Ok (\<lparr>page_Items = items, page_Cursor = cursor\<rparr>, offset)))))
     (rd_page global p 0)"
  unfolding rd_page_def rd_list_def layout_binds page_of_def
  by (simp only: fst_conv snd_conv bind_res.simps)
    (intro same_Ok_bind same_Ok_map_err same_Ok_refl read_items_same read_page_item_same read_cursor_same)

lemma parse_page_iff:
  assumes "ClassifyStreamSelector selector = Ok scope" "dat \<noteq> []"
  shows "parseReadPageResponse dat selector = Ok pg \<longleftrightarrow>
    page_ok (scope = StreamScopeGlobal) pg \<and> dat = page_bytes (scope = StreamScopeGlobal) pg"
proof -
  let ?g = "scope = StreamScopeGlobal"
  have "parseReadPageResponse dat selector =
      bind_res (bind_res (map_err (Errorf1 ''parse record count'') (ReadU32BE dat 0)) (\<lambda>(count, offset).
        bind_res (read_items (read_page_item ?g) 0 (unat count) dat offset) (\<lambda>(items, offset).
        bind_res (read_cursor ?g dat offset) (\<lambda>(cursor, offset).
          Ok (\<lparr>page_Items = items, page_Cursor = cursor\<rparr>, offset)))))
        (\<lambda>(x, off). if off \<noteq> length dat then Err (ErrNew ''read response has trailing bytes'') else Ok x)"
    using assms unfolding parseReadPageResponse_def Let_def bind_res_assoc case_prod_unfold by (simp cong: if_cong)
  then show ?thesis by (simp only: whole_message_iff [OF rd_page_codec page_same])
qed

text \<open>Read pages. A READ response's data parses to a page exactly when the selector is a stream selector and either
  the data is empty, which is the empty page, or the data is the layout of the page: counted items, each with a
  concrete route and the fields of its kind, and the cursor, with the global offsets present for a global selector
  only. Any other byte string is an error.\<close>

theorem read_page_exact:
  "parseReadPageResponse dat selector = Ok pg \<longleftrightarrow>
     (\<exists>scope. ClassifyStreamSelector selector = Ok scope \<and>
        (if dat = [] then pg = \<lparr>page_Items = [], page_Cursor = zero_cursor\<rparr>
         else page_ok (scope = StreamScopeGlobal) pg \<and> dat = page_bytes (scope = StreamScopeGlobal) pg))"
  by (cases "ClassifyStreamSelector selector"; cases "dat = []")
    (auto simp: parse_page_iff, auto simp: parseReadPageResponse_def)

section \<open>Reading a stream\<close>

definition events :: "ReadPage \<Rightarrow> Record list" where
  "events pg = List.map_filter ri_Record (page_Items pg)"

lemma flattenReadItems_events:
  assumes "list_all (item_ok global) items"
  shows "flattenReadItems items = List.map_filter ri_Record items"
proof -
  have "fold (\<lambda>item records. case (ri_Kind item, ri_Record item) of
      (ReadItemEvent, Some r) \<Rightarrow> records @ [r] | _ \<Rightarrow> records) items acc = acc @ List.map_filter ri_Record items" for acc
    using assms
  proof (induction items arbitrary: acc)
    case Nil
    then show ?case by (simp add: List.map_filter_def)
  next
    case (Cons it items)
    have "ri_Record it = None \<longleftrightarrow> ri_Kind it \<noteq> ReadItemEvent"
      using Cons.prems by (auto simp: item_ok_def split: ReadItemKind.splits option.splits)
    then show ?case using Cons
      by (cases "ri_Record it"; cases "ri_Kind it") (auto simp: List.map_filter_def)
  qed
  then show ?thesis by (simp add: flattenReadItems_def)
qed

lemma skipOptionalSessionID_Ok:
  assumes "fits_u32 dat"
  shows "skipOptionalSessionIDAndGetData (enc_option PutUint64 sess @ len_prefixed dat) = Ok dat"
proof -
  let ?p = "enc_option PutUint64 sess @ len_prefixed dat"
  have c: "field_codec (enc_pair (enc_option PutUint64) len_prefixed) (rd_pair (rd_option ReadU64BE) ReadBytes)
      (fits_pair (pred_option (\<lambda>_. True)) fits_u32)"
    by (intro codec_intros)
  have "rd_pair (rd_option ReadU64BE) ReadBytes ?p 0 = Ok ((sess, dat), length ?p)"
    using field_codec.read_whole_iff [OF c, of ?p "(sess, dat)"] assms by (simp add: layout_simps option.pred_True)
  then obtain m where m: "rd_option ReadU64BE ?p 0 = Ok (sess, m)" "ReadBytes ?p m = Ok (dat, length ?p)"
    by (auto simp: rd_pair_def bind_res_Ok_iff)
  then have m': "readOptionalU64 ?p 0 = Ok (sess, m)" using same_OkD [OF readOptionalU64_same] by blast
  have "?p \<noteq> []" by (cases sess) (simp_all add: enc_option_def)
  then show ?thesis unfolding skipOptionalSessionIDAndGetData_def m' using m(2) by simp
qed

text \<open>C24: Reading a stream. With automatic retries on or off, as long as the context of the call is live when they are on: when the broker
  answers a READ with a page, behind an optional session id, \<open>Read\<close> returns an
  iterator, and ranging over it hands the records of the page's events to the callback, in the order of the page,
  each with the route of its item, up to the callback's first error; filtered markers are left out.\<close>

theorem stream_read_delivers:
  assumes "ClassifyStreamSelector route = Ok scope" "page_ok (scope = StreamScopeGlobal) pg"
    and "fits_u32 (page_bytes (scope = StreamScopeGlobal) pg)" "api_retry c = None \<or> api_ctxErr c s = None"
    and "api_send c MessageTypeStreamRead (streamReadPayloadWriter route from limit (first_option opts)) s =
      (Ok (0 # enc_option PutUint64 sess @ len_prefixed (page_bytes (scope = StreamScopeGlobal) pg)), s')"
  shows "\<exists>it it'. stream_Read c route from limit opts s = (Ok it, s') \<and>
    ForEach Slice_Next (Slice_Value zero) Slice_Err Slice_Close fn it u =
      Some (fst (feed fn (events pg) u), it', snd (feed fn (events pg) u)) \<and>
    list_all (\<lambda>r. \<exists>item \<in> set (page_Items pg). ri_Record item = Some r \<and> rec_Route r = ri_Route item) (events pg)"
proof -
  let ?g = "scope = StreamScopeGlobal"
  have "length (page_bytes ?g pg) \<ge> 4" by (simp add: page_bytes_def enc_list_def)
  then have ne: "page_bytes ?g pg \<noteq> []" by auto
  have "parseReadPageResponse (page_bytes ?g pg) route = Ok pg"
    using assms(2) by (simp add: parse_page_iff [OF assms(1) ne])
  then have r: "read_attempt c route from limit (first_option opts) s = (Ok pg, s')"
    using assms(5) skipOptionalSessionID_Ok [OF assms(3)]
    by (simp add: read_attempt_def send_parse_def bind_op_def return_op_def ParseStandardResponse_def)
  have ev: "flattenReadItems (page_Items pg) = events pg"
    using assms(2) flattenReadItems_events by (auto simp: page_ok_def fits_list_def events_def)
  have "stream_Read c route from limit opts s = (Ok (NewSliceIterator (events pg)), s')"
    using assms(1) RunWithRetry_first [OF assms(4), where fn = "read_attempt c route from limit (first_option opts)", OF r]
    by (simp add: stream_Read_def ReadPage_op_def ValidateStreamSelector_def ev bind_op_def return_op_def)
  moreover have "list_all (\<lambda>r. \<exists>item \<in> set (page_Items pg). ri_Record item = Some r \<and> rec_Route r = ri_Route item) (events pg)"
  proof -
    have "rec_Route r = ri_Route it" if "it \<in> set (page_Items pg)" "ri_Record it = Some r" for it r
    proof -
      have "item_ok ?g it" using assms(2) that(1) by (simp add: page_ok_def fits_list_def list_all_iff)
      then show ?thesis using that(2) by (cases "ri_Kind it") (simp_all add: item_ok_def)
    qed
    then show ?thesis by (fastforce simp: events_def list_all_iff List.map_filter_def)
  qed
  ultimately show ?thesis using for_each_slice [of zero fn "events pg" u] by blast
qed

definition one_event :: ReadPage where
  "one_event = \<lparr>page_Items =
      [(zero_item ReadItemFiltered)\<lparr>ri_Route := ''stream://a/b/c'', ri_Offset := 4\<rparr>,
       (zero_item ReadItemEvent)\<lparr>ri_Route := ''stream://a/b/c'', ri_Record := Some
          \<lparr>rec_Route = ''stream://a/b/c'', rec_Offset = 5, rec_AreaOffset = None, rec_RealmOffset = None, rec_GlobalOffset = Some 9,
           rec_Body = [7], rec_Metadata = None, rec_Timestamp = 1\<rparr>\<rparr>],
     page_Cursor = zero_cursor\<rparr>"

definition one_event_api :: "unit conn_api" where
  "one_event_api = failing_api\<lparr>api_request := (\<lambda>t f w s. (Ok (0 # enc_option PutUint64 None @ len_prefixed (page_bytes True one_event)), s))\<rparr>"

definition zero_record :: Record where
  "zero_record = \<lparr>rec_Route = [], rec_Offset = 0, rec_AreaOffset = None, rec_RealmOffset = None, rec_GlobalOffset = None,
     rec_Body = [], rec_Metadata = None, rec_Timestamp = 0\<rparr>"

theorem stream_read_delivers_witness:
  "\<exists>it it'. stream_Read one_event_api ''stream://**'' 0 10 [] () = (Ok it, ()) \<and>
     ForEach Slice_Next (Slice_Value zero_record) Slice_Err Slice_Close (\<lambda>r u. (Ok (), u @ [rec_Body r])) it [] =
       Some (Ok (), it', [[7]])"
proof -
  have scans: "scans ''stream://a/b/c'' ''stream'' [''a'', ''b'', ''c'']"
    by (simp add: scans_def seg_ok_def wild_def)
  have v: "ValidateFixedRoute ''stream://a/b/c'' ''stream'' 3 = Ok ()"
    by (simp add: ValidateFixedRoute_def scans_scanRoute [OF scans] shape_of_def first_wild_def wild_def)
  have cl: "ClassifyStreamSelector ''stream://**'' = Ok StreamScopeGlobal" by (simp add: ClassifyStreamSelector_def)
  have ok: "page_ok (StreamScopeGlobal = StreamScopeGlobal) one_event"
    by (simp add: page_ok_def one_event_def fits_list_def item_ok_def zero_item_def v fits_u32_def record_ok_def cursor_ok_def)
  have "length (page_bytes True one_event) < 200"
    by (simp add: page_bytes_def one_event_def enc_list_def item_bytes_def item_body_def zero_item_def record_bytes_def
        cursor_bytes_def zero_cursor_def optional_u64_def enc_option_def)
  then have f: "fits_u32 (page_bytes (StreamScopeGlobal = StreamScopeGlobal) one_event)" by (simp add: fits_u32_def)
  have ev: "events one_event = [\<lparr>rec_Route = ''stream://a/b/c'', rec_Offset = 5, rec_AreaOffset = None, rec_RealmOffset = None,
      rec_GlobalOffset = Some 9, rec_Body = [7], rec_Metadata = None, rec_Timestamp = 1\<rparr>]"
    by (simp add: events_def one_event_def zero_item_def List.map_filter_def)
  have a: "api_retry one_event_api = None \<or> api_ctxErr one_event_api () = None" by (simp add: one_event_api_def failing_api_def)
  have "api_send one_event_api MessageTypeStreamRead (streamReadPayloadWriter ''stream://**'' 0 10 (first_option [])) () =
      (Ok (0 # enc_option PutUint64 None @ len_prefixed (page_bytes (StreamScopeGlobal = StreamScopeGlobal) one_event)), ())"
    by (simp add: one_event_api_def api_send_def)
  from stream_read_delivers [OF cl ok f a this, of zero_record "\<lambda>r u. (Ok (), u @ [rec_Body r])" "[]"]
  show ?thesis by (auto simp: ev)
qed

end
