(* ===== verification/Notice_Domain.thy ===== *)
theory Notice_Domain
  imports Layout_Tools Routes
begin

text \<open>
  The notice client (\<^verbatim>\<open>internal/domains/notice/protocol.go\<close> and \<^verbatim>\<open>notice.go\<close>): the publish and
  subscription requests, the decoding of notifications and of acknowledgements, the route checks and the pattern
  matcher of the package, and publishing. A decoder that returns an \<open>ok\<close> flag returns an option here.
\<close>

section \<open>Errors\<close>

definition ErrNoticeRouteInvalid :: go_error where "ErrNoticeRouteInvalid = Sentinel ''invalid notice route''"
definition ErrNoticeTimeout :: go_error where "ErrNoticeTimeout = Sentinel ''notice operation timed out''"
definition ErrNoticeSendFailed :: go_error where "ErrNoticeSendFailed = Sentinel ''notice send failed''"

definition mapNoticeError :: "go_error \<Rightarrow> go_error" where
  "mapNoticeError err =
     (case errors_As_domain err of
        Some domainErr \<Rightarrow>
          if de_code domainErr = NoticeInvalidRoute \<or> de_code domainErr = NoticeInvalidPattern
          then ErrNoticeRouteInvalid else err
      | None \<Rightarrow>
          let l = strings_ToLower (Error err)
          in if strings_Contains l ''route'' \<and> (strings_Contains l ''invalid'' \<or> strings_Contains l ''bad'')
             then ErrNoticeRouteInvalid
             else if strings_Contains l ''timeout'' \<or> strings_Contains l ''timed out'' then ErrNoticeTimeout
             else if strings_Contains l ''send'' \<or> strings_Contains l ''failed'' then ErrNoticeSendFailed
             else err)"

section \<open>Requests\<close>

unbundle bit_operations_syntax

definition appendU32 :: "bytes \<Rightarrow> u32 \<Rightarrow> bytes" where
  "appendU32 buf v = buf @ [ucast (drop_bit 24 v), ucast (drop_bit 16 v), ucast (drop_bit 8 v), ucast v]"

definition readU32 :: "bytes \<Rightarrow> u32 res" where
  "readU32 b =
     bind_res (index b 0) (\<lambda>b0. bind_res (index b 1) (\<lambda>b1. bind_res (index b 2) (\<lambda>b2. bind_res (index b 3) (\<lambda>b3.
       Ok (push_bit 24 (ucast b0) OR push_bit 16 (ucast b1) OR push_bit 8 (ucast b2) OR ucast b3)))))"

definition encodePublish :: "string \<Rightarrow> bytes \<Rightarrow> bytes" where
  "encodePublish route body =
     (let routeBytes = bytes_of_string route;
          buf = [];
          buf = appendU32 buf (u32_len routeBytes);
          buf = buf @ routeBytes;
          buf = appendU32 buf (u32_len body)
      in buf @ body)"

definition publishPayloadWriter :: "string \<Rightarrow> bytes \<Rightarrow> writer" where
  "publishPayloadWriter route body = write_seq [enc_WriteRoute route, enc_WriteBytes body]"

definition encodeSubscribe :: "string \<Rightarrow> bytes" where
  "encodeSubscribe route = EncodeWithBuffer (enc_WriteRoute route)"

definition notice_subscribePayloadWriter :: "string \<Rightarrow> writer" where
  "notice_subscribePayloadWriter route = enc_WriteRoute route"

definition encodeUnsubscribe :: "u64 \<Rightarrow> bytes" where
  "encodeUnsubscribe subID = EncodeWithBuffer (enc_WriteU64 subID)"

definition notice_unsubscribePayloadWriter :: "u64 \<Rightarrow> writer" where
  "notice_unsubscribePayloadWriter subID = enc_WriteU64 subID"

section \<open>Notifications and acknowledgements\<close>

definition decodeFirstRoute :: "bytes \<Rightarrow> (nat \<times> string) option res" where
  "decodeFirstRoute body =
     (if length body < 4 then Ok None
      else bind_res (bind_res (slice_from body 0) readU32) (\<lambda>routeLen.
           if 4 + unat routeLen > length body then Ok None
           else bind_res (slice body 4 (4 + unat routeLen)) (\<lambda>route.
                  Ok (Some (4 + unat routeLen, string_of_bytes route)))))"

definition decodePayload :: "bytes \<Rightarrow> bytes option res" where
  "decodePayload body =
     bind_res (decodeFirstRoute body) (\<lambda>first.
       case first of
         None \<Rightarrow> Ok None
       | Some (idx, _) \<Rightarrow>
           if idx + 4 > length body then Ok None
           else bind_res (bind_res (slice_from body idx) readU32) (\<lambda>plen.
                let idx = idx + 4
                in if idx + unat plen > length body then Ok None
                   else if idx + unat plen \<noteq> length body then Ok None
                   else bind_res (slice body idx (idx + unat plen)) (\<lambda>payload. Ok (Some payload))))"

definition DecodeNotify :: "bytes \<Rightarrow> (string \<times> bytes) option res" where
  "DecodeNotify body =
     bind_res (decodeFirstRoute body) (\<lambda>first.
       case first of
         None \<Rightarrow> Ok None
       | Some (_, route) \<Rightarrow>
           bind_res (decodePayload body) (\<lambda>payload.
             case payload of None \<Rightarrow> Ok None | Some p \<Rightarrow> Ok (Some (route, p))))"

definition decodeStatus :: "bytes \<Rightarrow> (u8 \<times> u32 \<times> string) option res" where
  "decodeStatus body =
     (case ParseStandardResponse body of
        Ok (success, remaining) \<Rightarrow> if success \<and> length remaining = 0 then Ok (Some (0, 0, [])) else Ok None
      | Err err \<Rightarrow>
          (case errors_As_domain err of
             Some domainErr \<Rightarrow> Ok (Some (1, de_code domainErr, de_message domainErr))
           | None \<Rightarrow> Ok None)
      | Panic \<Rightarrow> Panic)"

definition IsNoticeResponseType :: "u16 \<Rightarrow> bool" where
  "IsNoticeResponseType t \<longleftrightarrow> t = MessageTypeNoticePublish \<or> t = MessageTypeNoticeSubscribe \<or>
     t = MessageTypeNoticeUnsubscribe \<or> t = MessageTypeNoticeUnsubscribeAll"

definition NoticeWaitKey :: "u16 \<Rightarrow> string" where
  "NoticeWaitKey opc = dec (unat opc)"

definition DecodeNoticeResponseKey :: "u16 \<Rightarrow> bytes \<Rightarrow> string res" where
  "DecodeNoticeResponseKey opc body =
     bind_res (ParseStandardResponse body) (\<lambda>(success, _).
       if \<not> success then Err (ErrNew ''notice response has an unknown status'') else Ok (NoticeWaitKey opc))"

section \<open>Routes\<close>

definition stripNoticeScheme :: "string \<Rightarrow> string" where
  "stripNoticeScheme route =
     (let prefix = ''notice://''
      in if length route \<ge> length prefix \<and> take (length prefix) route = prefix then drop (length prefix) route else route)"

text \<open>The loop of \<open>splitSlash\<close>: \<open>cur\<close> is \<open>s[start:i]\<close>.\<close>

fun splitSlash_loop :: "string list \<Rightarrow> string \<Rightarrow> string \<Rightarrow> string list" where
  "splitSlash_loop parts cur [] = parts @ [cur]"
| "splitSlash_loop parts cur (ch # s) = (if ch = CHR ''/'' then splitSlash_loop (parts @ [cur]) [] s else splitSlash_loop parts (cur @ [ch]) s)"

definition splitSlash :: "string \<Rightarrow> string list" where
  "splitSlash s = splitSlash_loop [] [] s"

definition containsWildcard :: "string \<Rightarrow> bool" where
  "containsWildcard s \<longleftrightarrow> CHR ''*'' \<in> set s"

definition ValidateNoticeRoute :: "string \<Rightarrow> bool \<Rightarrow> unit res" where
  "ValidateNoticeRoute route allowWildcards =
     (if length route < 9 \<or> take 9 route \<noteq> ''notice://'' then Err (ErrNew ''notice route must start with notice://'')
      else let path = stripNoticeScheme route; segs = splitSlash path
           in if length segs \<noteq> 3
              then if allowWildcards \<and> length segs = 2 \<and> segs ! 1 = ''**'' then Ok ()
                   else Err (ErrNew ''notice route must have realm/area/resource'')
              else if segs ! 0 = [] \<or> segs ! 1 = [] \<or> segs ! 2 = []
              then Err (ErrNew ''notice route segments must be non-empty'')
              else if \<not> allowWildcards
              then if containsWildcard (segs ! 1) \<or> containsWildcard (segs ! 2)
                   then Err (ErrNew ''notice publish route cannot contain wildcards'') else Ok ()
              else if segs ! 0 = ''*'' \<or> segs ! 0 = ''**'' then Err (ErrNew ''notice realm cannot be wildcard'')
              else Ok ())"

text \<open>The loops of \<open>NoticeMatchRoute\<close>, on the segments from \<open>pi\<close> and from \<open>ri\<close> on.\<close>

fun notice_match :: "string list \<Rightarrow> string list \<Rightarrow> bool" where
  "notice_match [] rs \<longleftrightarrow> rs = []"
| "notice_match ps [] \<longleftrightarrow> dropWhile (\<lambda>p. p = ''**'') ps = []"
| "notice_match (p # ps) (r # rs) \<longleftrightarrow>
     (if p = ''**''
      then ps = [] \<or> notice_match ps (dropWhile (\<lambda>s. s \<noteq> hd ps) (r # rs))
      else if p = ''*'' then notice_match ps rs
      else if p \<noteq> r then False
      else notice_match ps rs)"

definition NoticeMatchRoute :: "string \<Rightarrow> string \<Rightarrow> bool" where
  "NoticeMatchRoute pat route \<longleftrightarrow>
     (let pat = stripNoticeScheme pat; rt = stripNoticeScheme route
      in pat = rt \<or> notice_match (splitSlash pat) (splitSlash rt))"

section \<open>Client operations\<close>

definition notice_Publish :: "'s conn_api \<Rightarrow> string \<Rightarrow> bytes \<Rightarrow> (unit, 's) op" where
  "notice_Publish c route body =
     bind_op (return_op (map_err (Errorf1 ''invalid route'') (ValidateFixedRoute route ''notice'' 3))) (\<lambda>_ s.
       map_prod (map_err (Errorf1 ''publish failed'')) id
         (api_oneway c MessageTypeNoticePublish (publishPayloadWriter route body) s))"

definition notice_PublishWithAck :: "'s conn_api \<Rightarrow> string \<Rightarrow> bytes \<Rightarrow> (unit, 's) op" where
  "notice_PublishWithAck c route body =
     bind_op (return_op (map_err (Errorf1 ''invalid route'') (ValidateFixedRoute route ''notice'' 3))) (\<lambda>_.
     bind_op (\<lambda>s. map_prod (map_err (Errorf1 ''publish failed'')) id
                (api_request c MessageTypeNoticePublish FlagAckRequested (publishPayloadWriter route body) s)) (\<lambda>response.
     bind_op (return_op (map_err mapNoticeError (ParseStandardResponse response))) (\<lambda>(success, remaining).
       return_op (if \<not> success \<or> length remaining \<noteq> 0
                  then Err (ErrNew ''publish acknowledgement response is malformed'') else Ok ()))))"

definition notice_subscribeWire :: "'s conn_api \<Rightarrow> string \<Rightarrow> (u64, 's) op" where
  "notice_subscribeWire c pat =
     bind_op (send_parse c ParseStandardResponse mapNoticeError ''subscribe'' '' failed: unexpected status''
                MessageTypeNoticeSubscribe (notice_subscribePayloadWriter pat)) (\<lambda>remaining s.
       if length remaining < 1
       then (Err (ErrNew (''subscribe response too short: got '' @ dec (length remaining) @ '' bytes'')), s)
       else if remaining ! 0 \<noteq> 1 then (Err (ErrNew ''subscribe response missing subscription_id''), s)
       else if length remaining < 9
       then (Err (ErrNew (''subscribe response too short for subscription_id: got '' @ dec (length remaining) @ '' bytes'')), s)
       else case map_err (Errorf1 ''parse subscription_id'') (ReadU64BE remaining 1) of
              Ok (subID, _) \<Rightarrow> (Ok subID, api_addSubs c 1 s) | Err e \<Rightarrow> (Err e, s) | Panic \<Rightarrow> (Panic, s))"

definition notice_rollbackWire :: "'s conn_api \<Rightarrow> u64 \<Rightarrow> (unit, 's) op" where
  "notice_rollbackWire c subID =
     bind_op (api_send c MessageTypeNoticeUnsubscribe (notice_unsubscribePayloadWriter subID)) (\<lambda>resp.
     bind_op (return_op (ParseStandardResponse resp)) (\<lambda>_ s. (Ok (), api_addSubs c (-1) s)))"

section \<open>Encoding and decoding agree\<close>

lemma readU32_Uint32: "4 \<le> length b \<Longrightarrow> readU32 b = Uint32 b"
proof -
  assume n: "4 \<le> length b"
  then obtain b0 b1 b2 b3 r where b: "b = b0 # b1 # b2 # b3 # r"
    by (cases b; cases "tl b"; cases "tl (tl b)"; cases "tl (tl (tl b))") auto
  let ?a = "push_bit 24 (ucast b0) :: u32" and ?b = "push_bit 16 (ucast b1) :: u32"
    and ?c = "push_bit 8 (ucast b2) :: u32" and ?d = "ucast b3 :: u32"
  have d: "?c OR ?d = ?c + ?d"
    by (rule disjunctive_add [symmetric]) (auto simp: bit_push_bit_iff bit_ucast_iff dest: bit_imp_le_length)
  have c: "?b OR (?c OR ?d) = ?b + (?c OR ?d)"
    by (rule disjunctive_add [symmetric]) (auto simp: bit_push_bit_iff bit_ucast_iff bit_or_iff dest: bit_imp_le_length)
  have a: "?a OR (?b OR (?c OR ?d)) = ?a + (?b OR (?c OR ?d))"
    by (rule disjunctive_add [symmetric]) (auto simp: bit_push_bit_iff bit_ucast_iff bit_or_iff dest: bit_imp_le_length)
  have "be_get [b0, b1, b2, b3] = unat b0 * 16777216 + (unat b1 * 65536 + (unat b2 * 256 + unat b3))" by simp
  then have "word_of_nat (be_get (take 4 b)) = ?a + (?b + (?c + ?d))" by (simp add: b push_bit_eq_mult)
  moreover have "?a OR (?b OR (?c OR ?d)) = ?a + (?b + (?c + ?d))" unfolding a unfolding c unfolding d by (rule refl)
  ultimately have "Uint32 b = Ok (?a OR (?b OR (?c OR ?d)))" using n by (simp add: Uint32_def)
  then show ?thesis using n by (simp add: readU32_def b)
qed

lemma appendU32_Put: "appendU32 buf v = buf @ PutUint32 v"
proof -
  have e: "(word_of_nat (unat v div 2 ^ n) :: u8) = ucast (drop_bit n v)" for n
  proof -
    have "(word_of_nat (unat v div 2 ^ n) :: u8) = word_of_nat (unat (drop_bit n v))"
      by (simp only: unat_drop_bit_eq) (simp only: drop_bit_eq_div)
    also have "\<dots> = ucast (drop_bit n v)" by (rule of_nat_unat)
    finally show ?thesis .
  qed
  have two: "be_put 2 x = [word_of_nat (x div 256), word_of_nat x]" for x by (simp add: numeral_2_eq_2)
  have four: "be_put 4 x = [word_of_nat (x div 2 ^ 24), word_of_nat (x div 2 ^ 16), word_of_nat (x div 2 ^ 8), word_of_nat x]" for x
    using be_put.simps(2) [of 3 x] be_put.simps(2) [of 2 x] by (simp add: two)
  have "PutUint32 v = [word_of_nat (unat v div 2 ^ 24), word_of_nat (unat v div 2 ^ 16), word_of_nat (unat v div 2 ^ 8),
      word_of_nat (unat v div 2 ^ 0)]"
    by (simp add: PutUint32_def four)
  then show ?thesis unfolding e by (simp add: appendU32_def)
qed

lemma encodePublish_eq: "encodePublish route body = len_prefixed_string route @ len_prefixed body"
  by (simp add: encodePublish_def appendU32_Put len_prefixed_string_def len_prefixed_def Let_def u32_len_def)

definition notice_layout :: "bytes \<Rightarrow> nat \<Rightarrow> ((string \<times> bytes) \<times> nat) res" where
  "notice_layout = rd_pair ReadString ReadBytes"

interpretation nt: field_codec "enc_pair len_prefixed_string len_prefixed" notice_layout "fits_pair fits_u32 fits_u32"
  unfolding notice_layout_def by (intro codec_intros)

text \<open>The decoders take the same steps as the field readers, with \<open>ok\<close> for the absence of an error.\<close>

lemma decodeFirstRoute_eq:
  "decodeFirstRoute body = Ok (case ReadString body 0 of Ok (route, idx) \<Rightarrow> Some (idx, route) | _ \<Rightarrow> None)"
proof (cases "length body < 4")
  case False
  obtain n where n: "Uint32 body = Ok n" using Uint_Ok_iff(2) [of body] False by auto
  have "readU32 body = Ok n" using readU32_Uint32 [of body] False n by simp
  then show ?thesis using False n
    by (simp add: decodeFirstRoute_def ReadString_def ReadU32BE_def)
qed (simp add: decodeFirstRoute_def ReadString_def ReadU32BE_def)

lemma decodePayload_eq:
  "decodePayload body = Ok (case ReadString body 0 of
     Ok (_, idx) \<Rightarrow> (case ReadBytes body idx of Ok (p, end) \<Rightarrow> if end = length body then Some p else None | _ \<Rightarrow> None)
   | _ \<Rightarrow> None)"
proof (cases "ReadString body 0")
  case (Ok x)
  then obtain route idx where x: "ReadString body 0 = Ok (route, idx)" by (cases x) auto
  show ?thesis
  proof (cases "idx + 4 > length body")
    case False
    then obtain n where n: "Uint32 (drop idx body) = Ok n" using Uint_Ok_iff(2) [of "drop idx body"] by auto
    have "readU32 (drop idx body) = Ok n" using readU32_Uint32 [of "drop idx body"] False n by simp
    then show ?thesis using False n x
      by (auto simp: decodePayload_def decodeFirstRoute_eq ReadBytes_def ReadU32BE_def Let_def)
  qed (simp add: decodePayload_def decodeFirstRoute_eq x ReadBytes_def ReadU32BE_def)
qed (simp_all add: decodePayload_def decodeFirstRoute_eq)

text \<open>Notices on the wire. \<open>DecodeNotify\<close> is total and accepts exactly the byte strings \<open>encodePublish\<close> produces, giving back
  the route and the body; the payload writer a publish uses appends the same bytes.\<close>

theorem notice_codec_exact:
  "(DecodeNotify b = Ok (Some (route, body)) \<longleftrightarrow> fits_u32 route \<and> fits_u32 body \<and> b = encodePublish route body) \<and>
   no_panic (DecodeNotify b) \<and> publishPayloadWriter route body buf = buf @ encodePublish route body"
proof -
  have "DecodeNotify b = Ok (case ReadString b 0 of
      Ok (r, idx) \<Rightarrow> (case ReadBytes b idx of Ok (p, end) \<Rightarrow> if end = length b then Some (r, p) else None | _ \<Rightarrow> None)
    | _ \<Rightarrow> None)"
    by (auto simp: DecodeNotify_def decodeFirstRoute_eq decodePayload_eq split: res.split option.split)
  moreover from this have "DecodeNotify b = Ok (Some (route, body)) \<longleftrightarrow> decodes notice_layout b (route, body)"
    by (auto simp: decodes_def notice_layout_def rd_pair_def bind_res_Ok_iff split: res.splits if_splits)
  ultimately show ?thesis
    by (simp add: decodes_iff [OF nt.field_codec_axioms] fits_pair_def enc_pair_def encodePublish_eq publishPayloadWriter_def byte_simps)
qed

section \<open>The pattern matcher of the package\<close>

lemma split_loop_eq: "splitSlash_loop parts cur s = parts @ (case strings_Split (CHR ''/'') s of [] \<Rightarrow> [cur] | w # ws \<Rightarrow> (cur @ w) # ws)"
proof (induction s arbitrary: parts cur)
  case (Cons ch s)
  then show ?case by (cases "strings_Split (CHR ''/'') s") (auto split: list.splits)
qed simp

lemma splitSlash_Split: "splitSlash s = strings_Split (CHR ''/'') s"
  by (cases "strings_Split (CHR ''/'') s") (simp_all add: splitSlash_def split_loop_eq)

lemma glob_refl: "glob xs xs"
proof (induction xs)
  case (Cons x xs)
  then have "glob xs (''**'' # xs)" using glob_double [of xs xs] by (intro iffD2 [OF glob_double] exI [of _ 0]) simp
  then show ?case using Cons by auto
qed simp

lemma glob_doubles: "glob [] ps \<longleftrightarrow> dropWhile (\<lambda>p. p = ''**'') ps = []"
  by (induction ps) auto

lemma notice_match_glob:
  "''**'' \<notin> set (butlast ps) \<Longrightarrow> notice_match ps rs \<longleftrightarrow> glob rs ps"
proof (induction ps rs rule: notice_match.induct)
  case (1 rs)
  then show ?case by (cases rs) auto
next
  case (2 p ps)
  then show ?case by (simp only: notice_match.simps glob_doubles)
next
  case (3 p ps r rs)
  show ?case
  proof (cases "p = ''**''")
    case True
    then have ps: "ps = []" using "3.prems" by (auto split: if_splits)
    have "glob (r # rs) [''**'']" using glob_double [of "r # rs" "[]"] by (intro iffD2 [OF glob_double] exI [of _ "length (r # rs)"]) simp
    then show ?thesis using True ps by simp
  next
    case False
    then show ?thesis using 3 by (auto split: if_splits)
  qed
qed

text \<open>C26: Matching notices. For a pattern whose \<open>**\<close>, if any, is its last segment, \<open>NoticeMatchRoute\<close> is exactly
  wildcard matching of the segments. With a \<open>**\<close> before other segments it is not: it commits to the first segment
  that equals the next one of the pattern and never tries a later one.\<close>

theorem notice_match_exact:
  "(''**'' \<notin> set (butlast (splitSlash (stripNoticeScheme pat))) \<longrightarrow>
      (NoticeMatchRoute pat route \<longleftrightarrow> glob (splitSlash (stripNoticeScheme route)) (splitSlash (stripNoticeScheme pat)))) \<and>
   \<not> NoticeMatchRoute ''notice://**/b/c'' ''notice://b/x/b/c'' \<and> glob [''b'', ''x'', ''b'', ''c''] [''**'', ''b'', ''c'']"
proof -
  have "\<not> NoticeMatchRoute ''notice://**/b/c'' ''notice://b/x/b/c''"
    by (simp add: NoticeMatchRoute_def stripNoticeScheme_def splitSlash_def)
  then show ?thesis using notice_match_glob glob_refl by (auto simp: NoticeMatchRoute_def Let_def)
qed

theorem notice_match_exact_witness:
  "NoticeMatchRoute ''notice://a/*/**'' ''notice://a/b/c'' \<longleftrightarrow> glob [''a'', ''b'', ''c''] [''a'', ''*'', ''**'']"
  using notice_match_exact [of "''notice://a/*/**''" "''notice://a/b/c''"]
  by (simp add: stripNoticeScheme_def splitSlash_def)

end
