(* ===== verification/Schedule_Domain.thy ===== *)
theory Schedule_Domain
  imports Layout_Tools Routes
begin

text \<open>
  The schedule client (\<^verbatim>\<open>internal/domains/schedule/protocol.go\<close>, \<^verbatim>\<open>validation.go\<close> and \<^verbatim>\<open>schedule.go\<close>): the
  requests, the checks of a cron expression, creation and cancellation, the cursor pages of LIST and the
  selection of schedules by a selector. A delivery mode is the byte it is on the wire.
\<close>

section \<open>Errors\<close>

definition ErrScheduleNotFound :: go_error where "ErrScheduleNotFound = Sentinel ''schedule not found''"
definition ErrScheduleInvalidDeliveryMode :: go_error where
  "ErrScheduleInvalidDeliveryMode = Sentinel ''invalid schedule delivery mode''"

definition mapScheduleError :: "go_error \<Rightarrow> go_error" where
  "mapScheduleError err =
     (case errors_As_domain err of
        Some domainErr \<Rightarrow>
          if de_code domainErr = ScheduleNotFound then ErrScheduleNotFound
          else if de_code domainErr = ScheduleInvalidDeliveryMode
          then Errorf_s ErrScheduleInvalidDeliveryMode (de_message domainErr)
          else err
      | None \<Rightarrow>
          if strings_Contains (strings_ToLower (Error err)) ''not found'' then ErrScheduleNotFound else err)"

section \<open>Cron expressions\<close>

record cronFieldSpec =
  cf_name :: string
  cf_min :: int
  cf_max :: int
  cf_names :: "(string \<times> int) list"

definition scheduleCronFields :: "cronFieldSpec list" where
  "scheduleCronFields =
     [\<lparr>cf_name = ''minute'', cf_min = 0, cf_max = 59, cf_names = []\<rparr>,
      \<lparr>cf_name = ''hour'', cf_min = 0, cf_max = 23, cf_names = []\<rparr>,
      \<lparr>cf_name = ''day of month'', cf_min = 1, cf_max = 31, cf_names = []\<rparr>,
      \<lparr>cf_name = ''month'', cf_min = 1, cf_max = 12, cf_names =
         [(''JAN'', 1), (''FEB'', 2), (''MAR'', 3), (''APR'', 4), (''MAY'', 5), (''JUN'', 6), (''JUL'', 7), (''AUG'', 8),
          (''SEP'', 9), (''OCT'', 10), (''NOV'', 11), (''DEC'', 12)]\<rparr>,
      \<lparr>cf_name = ''day of week'', cf_min = 0, cf_max = 6, cf_names =
         [(''SUN'', 0), (''MON'', 1), (''TUE'', 2), (''WED'', 3), (''THU'', 4), (''FRI'', 5), (''SAT'', 6)]\<rparr>]"

definition parseValue :: "cronFieldSpec \<Rightarrow> string \<Rightarrow> int res" where
  "parseValue spec token =
     (case map_of (cf_names spec) (strings_ToUpper (strings_TrimSpace token)) of
        Some value \<Rightarrow> Ok value
      | None \<Rightarrow>
          (case strconv_Atoi token of
             None \<Rightarrow> Err (ErrNew (''invalid value '' @ quoted token))
           | Some value \<Rightarrow>
               if value < cf_min spec \<or> value > cf_max spec
               then Err (ErrNew (''value '' @ dec_int value @ '' out of range '' @ dec_int (cf_min spec) @ ''-'' @ dec_int (cf_max spec)))
               else Ok value))"

definition validateRangeOrValue :: "cronFieldSpec \<Rightarrow> string \<Rightarrow> unit res" where
  "validateRangeOrValue spec token =
     (case strings_Cut ''-'' token of (startText, endText, hasRange) \<Rightarrow>
        if hasRange
        then if startText = [] \<or> endText = [] then Err (ErrNew (''invalid range '' @ quoted token))
             else bind_res (parseValue spec startText) (\<lambda>start.
                  bind_res (parseValue spec endText) (\<lambda>end.
                    if start > end
                    then Err (ErrNew (''range start '' @ dec_int start @ '' greater than end '' @ dec_int end))
                    else Ok ()))
        else bind_res (parseValue spec token) (\<lambda>_. Ok ()))"

definition validatePart :: "cronFieldSpec \<Rightarrow> string \<Rightarrow> unit res" where
  "validatePart spec part =
     (if part = ''*'' \<or> part = ''?'' then Ok ()
      else case strings_Cut ''/'' part of (before, after, hasStep) \<Rightarrow>
        if hasStep
        then if before = [] then Err (ErrNew ''missing range before step'')
             else if after = [] then Err (ErrNew ''missing step'')
             else (case strconv_Atoi after of
                     None \<Rightarrow> Err (ErrNew (''invalid step '' @ quoted after))
                   | Some step \<Rightarrow>
                       if step \<le> 0 then Err (ErrNew (''invalid step '' @ quoted after))
                       else if before = ''*'' \<or> before = ''?'' then Ok ()
                       else validateRangeOrValue spec before)
        else validateRangeOrValue spec part)"

fun validate_parts :: "cronFieldSpec \<Rightarrow> string list \<Rightarrow> unit res" where
  "validate_parts spec [] = Ok ()"
| "validate_parts spec (part # parts) =
     (let part = strings_TrimSpace part
      in if part = [] then Err (ErrNew ''empty list item'')
         else bind_res (validatePart spec part) (\<lambda>_. validate_parts spec parts))"

definition cron_validate :: "cronFieldSpec \<Rightarrow> string \<Rightarrow> unit res" where
  "cron_validate spec field = validate_parts spec (strings_Split (CHR '','') field)"

fun validate_fields :: "cronFieldSpec list \<Rightarrow> string list \<Rightarrow> unit res" where
  "validate_fields (spec # specs) (field # rest) =
     bind_res (map_err (Errorf1 (cf_name spec @ '' field '' @ quoted field)) (cron_validate spec field)) (\<lambda>_.
       validate_fields specs rest)"
| "validate_fields _ [] = Ok ()"
| "validate_fields [] (field # rest) = Panic"

definition parseCronExpression :: "string \<Rightarrow> unit res" where
  "parseCronExpression expr =
     (let fields = strings_Fields expr
      in if length fields \<noteq> length scheduleCronFields
         then Err (ErrNew (''expected exactly '' @ dec (length scheduleCronFields) @ '' fields, found '' @ dec (length fields) @
                '': '' @ quoted expr))
         else validate_fields scheduleCronFields fields)"

definition validateCronExpression :: "string \<Rightarrow> unit res" where
  "validateCronExpression expr =
     (case parseCronExpression expr of
        Err err \<Rightarrow> Err (NewDomainError ScheduleInvalidCron (''invalid cron expression: '' @ Error err))
      | Ok _ \<Rightarrow> Ok ()
      | Panic \<Rightarrow> Panic)"

section \<open>Requests\<close>

abbreviation (input) ScheduleDeliveryBroadcast :: u8 where "ScheduleDeliveryBroadcast \<equiv> 0"
abbreviation (input) ScheduleDeliverySingle :: u8 where "ScheduleDeliverySingle \<equiv> 1"

record ScheduleEntry =
  se_ID :: string
  se_Route :: string
  se_Cron :: string
  se_DeliveryMode :: u8
  se_Payload :: bytes

definition scheduleCreatePayloadWriter :: "string \<Rightarrow> string \<Rightarrow> u8 \<Rightarrow> bytes \<Rightarrow> writer" where
  "scheduleCreatePayloadWriter route cronExpr deliveryMode payload = write_seq
     [enc_WriteRoute route, enc_WriteString cronExpr, WriteByte deliveryMode, enc_WriteBytes payload]"

definition scheduleCreateBatchPayloadWriter :: "ScheduleEntry list \<Rightarrow> writer" where
  "scheduleCreateBatchPayloadWriter entries = write_seq (enc_WriteU32 (u32_len entries) #
     map (\<lambda>entry. write_seq [enc_WriteRoute (se_Route entry), enc_WriteString (se_Cron entry),
                            WriteByte (se_DeliveryMode entry), enc_WriteBytes (se_Payload entry)]) entries)"

definition scheduleListV2PayloadWriter :: "string option \<Rightarrow> u64 option \<Rightarrow> writer" where
  "scheduleListV2PayloadWriter cursor limit = write_seq
     ((case cursor of None \<Rightarrow> [WriteByte 0] | Some cu \<Rightarrow> [WriteByte 1, enc_WriteString cu]) @ [enc_WriteOptionalU64 limit])"

definition scheduleCancelPayloadWriter :: "string \<Rightarrow> writer" where
  "scheduleCancelPayloadWriter route = enc_WriteRoute route"

definition scheduleListPayloadWriter :: "u64 option \<Rightarrow> u64 option \<Rightarrow> writer" where
  "scheduleListPayloadWriter offset limit = write_seq [enc_WriteOptionalU64 offset, enc_WriteOptionalU64 limit]"

definition scheduleSubscribePayloadWriter :: "string \<Rightarrow> writer" where
  "scheduleSubscribePayloadWriter pat = enc_WriteString pat"

definition scheduleUnsubscribePayloadWriter :: "string \<Rightarrow> writer" where
  "scheduleUnsubscribePayloadWriter pat = enc_WriteString pat"

section \<open>Client operations\<close>

definition check_schedule :: "string \<Rightarrow> string \<Rightarrow> u8 \<Rightarrow> unit res" where
  "check_schedule route cronExpr deliveryMode =
     bind_res (map_err (Errorf1 ''invalid schedule route'') (ValidateScheduleRoute route)) (\<lambda>_.
     bind_res (validateCronExpression cronExpr) (\<lambda>_.
       if deliveryMode \<noteq> ScheduleDeliveryBroadcast \<and> deliveryMode \<noteq> ScheduleDeliverySingle
       then Err ErrScheduleInvalidDeliveryMode else Ok ()))"

definition schedule_Create :: "'s conn_api \<Rightarrow> string \<Rightarrow> string \<Rightarrow> u8 \<Rightarrow> bytes \<Rightarrow> (string, 's) op" where
  "schedule_Create c route cronExpr deliveryMode payload =
     bind_op (return_op (check_schedule route cronExpr deliveryMode)) (\<lambda>_.
     bind_op (send_parse c ParsePlainResponse mapScheduleError ''create'' '' failed: unexpected status''
                MessageTypeScheduleCreate (scheduleCreatePayloadWriter route cronExpr deliveryMode payload)) (\<lambda>remaining.
     return_op
       (if length remaining = 0 then Ok route
        else if remaining ! 0 \<noteq> 1 then Err (ErrNew ''create response has invalid schedule_id flag'')
        else bind_res (map_err (Errorf1 ''parse schedule_id'') (ReadString remaining 1)) (\<lambda>(ident, offset).
               if offset \<noteq> length remaining then Err (ErrNew ''create response has trailing bytes'') else Ok ident))))"

fun check_entries :: "ScheduleEntry list \<Rightarrow> unit res" where
  "check_entries [] = Ok ()"
| "check_entries (entry # entries) =
     bind_res (check_schedule (se_Route entry) (se_Cron entry) (se_DeliveryMode entry)) (\<lambda>_. check_entries entries)"

definition CreateBatch :: "'s conn_api \<Rightarrow> ScheduleEntry list \<Rightarrow> (unit, 's) op" where
  "CreateBatch c entries =
     (if length entries > 2 ^ 32 - 1 then return_op (Err (ErrNew ''schedule batch has too many entries''))
      else bind_op (return_op (check_entries entries)) (\<lambda>_.
           bind_op (\<lambda>s. map_prod (map_err (Errorf1 ''create batch request failed'')) id
                      (api_send c MessageTypeScheduleCreateBatch (scheduleCreateBatchPayloadWriter entries) s)) (\<lambda>resp.
           return_op
             (case ParseStandardResponse resp of
                Err err \<Rightarrow> Err (Errorf1 ''create batch failed'' (mapScheduleError err))
              | Ok (success, remaining) \<Rightarrow>
                  if \<not> success \<or> length remaining \<noteq> 0 then Err (ErrNew ''create batch response is malformed'') else Ok ()
              | Panic \<Rightarrow> Panic))))"

definition schedule_Cancel :: "'s conn_api \<Rightarrow> string \<Rightarrow> (unit, 's) op" where
  "schedule_Cancel c route =
     bind_op (return_op (map_err (Errorf1 ''invalid schedule route'') (ValidateScheduleRoute route))) (\<lambda>_.
     bind_op (send_parse c ParsePlainResponse mapScheduleError ''cancel'' '' failed: unexpected status''
                MessageTypeScheduleCancel (scheduleCancelPayloadWriter route)) (\<lambda>remaining.
     return_op (if length remaining \<noteq> 0 then Err (ErrNew ''cancel response has trailing bytes'') else Ok ())))"

section \<open>Listing\<close>

record ScheduleListPage =
  lp_Entries :: "ScheduleEntry list"
  lp_TotalCount :: u64
  lp_HasMore :: bool
  lp_Continuation :: "string option"

record ScheduleCursorPage =
  cp_Entries :: "ScheduleEntry list"
  cp_HasMore :: bool
  cp_Continuation :: "string option"

lemma bind_res_fundef_cong [fundef_cong]:
  "m = m' \<Longrightarrow> (\<And>x. m' = Ok x \<Longrightarrow> f x = f' x) \<Longrightarrow> bind_res m f = bind_res m' f'"
  by (cases m') auto

text \<open>The fields of an entry after its flag.\<close>

definition read_entry :: "bytes \<Rightarrow> nat \<Rightarrow> (ScheduleEntry \<times> nat) res" where
  "read_entry remaining pos =
     bind_res (map_err (Errorf1 ''list response invalid route'') (ReadString remaining pos)) (\<lambda>(routeStr, pos).
     bind_res (map_err (Errorf1 ''list response invalid cron'') (ReadString remaining pos)) (\<lambda>(cronStr, pos).
       if pos \<ge> length remaining then Err (ErrNew ''list response missing delivery mode'')
       else let deliveryMode = remaining ! pos; pos = pos + 1
            in if deliveryMode \<noteq> ScheduleDeliveryBroadcast \<and> deliveryMode \<noteq> ScheduleDeliverySingle
               then Err (ErrNew (''list response invalid delivery mode: '' @ dec (unat deliveryMode)))
               else bind_res (map_err (Errorf1 ''list response invalid payload'') (ReadBytes remaining pos)) (\<lambda>(payloadBytes, pos).
                      Ok (\<lparr>se_ID = routeStr, se_Route = routeStr, se_Cron = cronStr, se_DeliveryMode = deliveryMode,
                           se_Payload = payloadBytes\<rparr>, pos))))"

lemma read_entry_advances: "read_entry p pos = Ok (e, pos') \<Longrightarrow> pos < pos'"
  by (auto simp: read_entry_def ReadString_def ReadBytes_def ReadU32BE_def bind_res_Ok_iff Let_def split: if_splits)

function list_entries_loop :: "bytes \<Rightarrow> nat \<Rightarrow> ScheduleEntry list \<Rightarrow> ScheduleEntry list res" where
  "list_entries_loop remaining pos entries =
     (if pos \<ge> length remaining then Err (ErrNew ''list response missing entry terminator'')
      else let hasEntry = remaining ! pos; pos = pos + 1
           in if hasEntry = 0
              then if pos \<noteq> length remaining
                   then Err (ErrNew (''list response has trailing bytes: '' @ dec (length remaining - pos)))
                   else Ok entries
              else if hasEntry \<noteq> 1
              then Err (ErrNew (''list response invalid has_entry flag: '' @ dec (unat hasEntry)))
              else bind_res (read_entry remaining pos) (\<lambda>(entry, newPos).
                     list_entries_loop remaining newPos (entries @ [entry])))"
  by pat_completeness auto
termination
  by (relation "measure (\<lambda>(remaining, pos, _). length remaining - pos)") (auto dest: read_entry_advances)

declare list_entries_loop.simps [simp del]

definition parseScheduleListEntries :: "bytes \<Rightarrow> ScheduleEntry list res" where
  "parseScheduleListEntries remaining = list_entries_loop remaining 0 []"

text \<open>The reading of a LIST response, after the envelope.\<close>

definition parse_cursor_page :: "bytes \<Rightarrow> ScheduleCursorPage res" where
  "parse_cursor_page remaining =
     (if length remaining < 4 \<or> remaining ! 0 \<noteq> 1 \<or> remaining ! 1 > 1
      then Err (ErrNew ''invalid schedule LIST_V2 response header'')
      else let hasMore = (remaining ! 1 = 1)
           in bind_res
                (if remaining ! 2 = 0 then Ok (None, 3)
                 else if remaining ! 2 = 1 then bind_res (ReadString remaining 3) (\<lambda>(value, next). Ok (Some value, next))
                 else Err (ErrNew ''invalid schedule LIST_V2 cursor flag'')) (\<lambda>(continuation, pos).
              if hasMore \<and> continuation = None then Err (ErrNew ''schedule LIST_V2 page is missing continuation'')
              else bind_res (bind_res (slice_from remaining pos) parseScheduleListEntries) (\<lambda>entries.
                     Ok \<lparr>cp_Entries = entries, cp_HasMore = hasMore, cp_Continuation = continuation\<rparr>)))"

definition ListV2 :: "'s conn_api \<Rightarrow> string option \<Rightarrow> u64 option \<Rightarrow> (ScheduleCursorPage, 's) op" where
  "ListV2 c cursor limit =
     (if (case limit of Some l \<Rightarrow> l > 1000 | None \<Rightarrow> False)
      then return_op (Err (ErrNew ''schedule LIST_V2 limit must be at most 1000''))
      else bind_op (api_send c MessageTypeScheduleListPage (scheduleListV2PayloadWriter cursor limit)) (\<lambda>resp.
           return_op (bind_res (ParseStandardResponse resp) (\<lambda>(success, remaining).
             if \<not> success then Err (ErrNew ''invalid schedule LIST_V2 response header'') else parse_cursor_page remaining))))"

definition schedule_List :: "'s conn_api \<Rightarrow> u64 option \<Rightarrow> u64 option \<Rightarrow> (ScheduleListPage, 's) op" where
  "schedule_List c offset limit =
     (if (case offset of Some off \<Rightarrow> off \<noteq> 0 | None \<Rightarrow> False)
      then return_op (Err (ErrNew ''Schedule.List offset pagination was retired; use ListV2 cursor pagination''))
      else bind_op (ListV2 c None limit) (\<lambda>page.
           return_op (Ok \<lparr>lp_Entries = cp_Entries page, lp_TotalCount = 0, lp_HasMore = cp_HasMore page,
                         lp_Continuation = cp_Continuation page\<rparr>)))"

section \<open>Selecting schedules\<close>

definition scheduleSegments :: "string \<Rightarrow> string list option" where
  "scheduleSegments route =
     (if \<not> strings_HasPrefix route ''schedule://'' then None
      else let segments = strings_Split (CHR ''/'') (strings_TrimPrefix route ''schedule://'')
           in if length segments = 0 then None else if [] \<in> set segments then None else Some segments)"

definition scheduleSelectorMatches :: "string \<Rightarrow> string \<Rightarrow> bool" where
  "scheduleSelectorMatches selector route =
     (case (scheduleSegments selector, scheduleSegments route) of
        (Some ss, Some rs) \<Rightarrow>
          if length rs \<noteq> 4 then False
          else if length ss = 2 then ss ! 1 = ''**'' \<and> ss ! 0 = rs ! 0
          else if length ss = 3 then ss ! 2 = ''*'' \<and> ss ! 0 = rs ! 0 \<and> ss ! 1 = rs ! 1
          else if length ss = 4
          then if ss ! 3 = ''*'' then ss ! 0 = rs ! 0 \<and> ss ! 1 = rs ! 1 \<and> ss ! 2 = rs ! 2
               else ss ! 0 = rs ! 0 \<and> ss ! 1 = rs ! 1 \<and> ss ! 2 = rs ! 2 \<and> ss ! 3 = rs ! 3
          else False
      | _ \<Rightarrow> False)"

fun filterScheduleEntries :: "ScheduleEntry list \<Rightarrow> string \<Rightarrow> ScheduleEntry list" where
  "filterScheduleEntries [] selector = []"
| "filterScheduleEntries (entry # entries) selector =
     (if scheduleSelectorMatches selector (se_Route entry) then entry # filterScheduleEntries entries selector
      else filterScheduleEntries entries selector)"

text \<open>The loop of \<open>ListBySelector\<close>, which a broker that never ends its listing keeps running.\<close>

partial_function (option) select_loop ::
  "'s conn_api \<Rightarrow> string \<Rightarrow> string option \<Rightarrow> ScheduleEntry list \<Rightarrow> 's \<Rightarrow> (ScheduleEntry list res \<times> 's) option" where
  "select_loop c selector cursor matches s =
     (case ListV2 c cursor (Some 1000) s of
        (Err e, s') \<Rightarrow> Some (Err e, s')
      | (Panic, s') \<Rightarrow> Some (Panic, s')
      | (Ok page, s') \<Rightarrow>
          let matches = matches @ filter (\<lambda>entry. scheduleSelectorMatches selector (se_Route entry)) (cp_Entries page)
          in if \<not> cp_HasMore page then Some (Ok matches, s')
             else case cp_Continuation page of
                    None \<Rightarrow> Some (Err (ErrNew ''schedule LIST marked has_more without a continuation''), s')
                  | Some cont \<Rightarrow>
                      if length (cp_Entries page) = 0
                      then Some (Err (ErrNew ''schedule LIST returned an empty page before its continuation''), s')
                      else select_loop c selector (Some cont) matches s')"

definition ListBySelector :: "'s conn_api \<Rightarrow> string \<Rightarrow> 's \<Rightarrow> (ScheduleEntry list res \<times> 's) option" where
  "ListBySelector c selector s =
     (case ValidateScheduleSelector selector of
        Ok _ \<Rightarrow> select_loop c selector None [] s
      | Err e \<Rightarrow> Some (Err (Errorf1 ''invalid selector'' e), s)
      | Panic \<Rightarrow> Some (Panic, s))"

section \<open>Subscriptions\<close>

definition schedule_subscribeWire :: "'s conn_api \<Rightarrow> string \<Rightarrow> (u64, 's) op" where
  "schedule_subscribeWire c pat =
     bind_op (send_parse c ParsePlainResponse mapScheduleError ''subscribe'' '' failed: unexpected status''
                MessageTypeScheduleSubscribe (scheduleSubscribePayloadWriter pat)) (\<lambda>remaining s.
       if length remaining < 1
       then (Err (ErrNew (''subscribe response too short: got '' @ dec (length remaining) @ '' bytes'')), s)
       else if remaining ! 0 \<noteq> 1 then (Err (ErrNew ''subscribe response missing subscription_id''), s)
       else if length remaining \<noteq> 9
       then (Err (ErrNew (''subscribe response too short for subscription_id: got '' @ dec (length remaining) @ '' bytes'')), s)
       else case map_err (Errorf1 ''parse subscription_id'') (ReadU64BE remaining 1) of
              Ok (subID, _) \<Rightarrow> (Ok subID, api_addSubs c 1 s) | Err e \<Rightarrow> (Err e, s) | Panic \<Rightarrow> (Panic, s))"

definition schedule_rollbackWire :: "'s conn_api \<Rightarrow> string \<Rightarrow> (unit, 's) op" where
  "schedule_rollbackWire c pat =
     bind_op (api_send c MessageTypeScheduleUnsubscribe (scheduleUnsubscribePayloadWriter pat)) (\<lambda>resp.
     bind_op (return_op (ParsePlainResponse resp)) (\<lambda>_ s. (Ok (), api_addSubs c (-1) s)))"

section \<open>Request layouts\<close>

definition schedule_create_layout :: "bytes \<Rightarrow> nat \<Rightarrow> ((string \<times> string \<times> u8 \<times> bytes) \<times> nat) res" where
  "schedule_create_layout = rd_pair ReadString (rd_pair ReadString (rd_pair ReadU8 ReadBytes))"

definition schedule_batch_layout :: "bytes \<Rightarrow> nat \<Rightarrow> ((string \<times> string \<times> u8 \<times> bytes) list \<times> nat) res" where
  "schedule_batch_layout = rd_list schedule_create_layout"

definition schedule_list_layout :: "bytes \<Rightarrow> nat \<Rightarrow> ((string option \<times> u64 option) \<times> nat) res" where
  "schedule_list_layout = rd_pair (rd_option ReadString) (rd_option ReadU64BE)"

abbreviation enc_schedule :: "string \<times> string \<times> u8 \<times> bytes \<Rightarrow> bytes" where
  "enc_schedule \<equiv> enc_pair len_prefixed_string (enc_pair len_prefixed_string (enc_pair (\<lambda>b. [b]) len_prefixed))"

abbreviation fits_schedule :: "string \<times> string \<times> u8 \<times> bytes \<Rightarrow> bool" where
  "fits_schedule \<equiv> fits_pair fits_u32 (fits_pair fits_u32 (fits_pair (\<lambda>_. True) fits_u32))"

interpretation sc_create: field_codec enc_schedule schedule_create_layout fits_schedule
  unfolding schedule_create_layout_def by (intro codec_intros)

interpretation sc_batch: field_codec "enc_list enc_schedule" schedule_batch_layout "fits_list fits_schedule"
  unfolding schedule_batch_layout_def by (intro codec_list sc_create.field_codec_axioms)

interpretation sc_list: field_codec "enc_pair (enc_option len_prefixed_string) (enc_option PutUint64)" schedule_list_layout
  "fits_pair (pred_option fits_u32) (pred_option (\<lambda>_. True))"
  unfolding schedule_list_layout_def by (intro codec_intros)

lemmas schedule_decodes = decodes_iff [OF sc_create.field_codec_axioms] decodes_iff [OF sc_batch.field_codec_axioms]
  decodes_iff [OF sc_list.field_codec_axioms]

definition schedule_fields :: "ScheduleEntry \<Rightarrow> string \<times> string \<times> u8 \<times> bytes" where
  "schedule_fields e = (se_Route e, se_Cron e, se_DeliveryMode e, se_Payload e)"

lemma write_entries:
  "write_seq (map (\<lambda>entry. write_seq [enc_WriteRoute (se_Route entry), enc_WriteString (se_Cron entry),
      WriteByte (se_DeliveryMode entry), enc_WriteBytes (se_Payload entry)]) es) buf =
    buf @ concat (map (\<lambda>e. enc_schedule (schedule_fields e)) es)"
  by (induction es arbitrary: buf) (simp_all add: byte_simps enc_pair_def schedule_fields_def)

text \<open>Schedule requests. CREATE, CREATE_BATCH and LIST payloads are read back by their layouts as exactly what they were
  built from, a batch as its entries in order and a missing cursor or limit as absent.\<close>

theorem schedule_requests_decode:
  assumes "fits_u32 route" "fits_u32 cron" "fits_u32 payload" "pred_option fits_u32 cursor"
    and "fits_u32 entries" "list_all (\<lambda>e. fits_u32 (se_Route e) \<and> fits_u32 (se_Cron e) \<and> fits_u32 (se_Payload e)) entries"
  shows "decodes schedule_create_layout (scheduleCreatePayloadWriter route cron mode payload []) (route, cron, mode, payload) \<and>
    decodes schedule_batch_layout (scheduleCreateBatchPayloadWriter entries []) (map schedule_fields entries) \<and>
    decodes schedule_list_layout (scheduleListV2PayloadWriter cursor limit []) (cursor, limit)"
proof (intro conjI)
  show "decodes schedule_create_layout (scheduleCreatePayloadWriter route cron mode payload []) (route, cron, mode, payload)"
    using assms(1-3) by (simp add: schedule_decodes scheduleCreatePayloadWriter_def layout_simps byte_simps)
  show "decodes schedule_batch_layout (scheduleCreateBatchPayloadWriter entries []) (map schedule_fields entries)"
    using assms(5,6)
    by (simp add: schedule_decodes scheduleCreateBatchPayloadWriter_def enc_list_def fits_list_def fits_pair_def byte_simps
        write_entries [unfolded o_def] o_def u32_len_def list_all_iff fits_u32_def schedule_fields_def)
  show "decodes schedule_list_layout (scheduleListV2PayloadWriter cursor limit []) (cursor, limit)"
    using assms(4)
    by (cases cursor; cases limit)
      (simp_all add: schedule_decodes scheduleListV2PayloadWriter_def layout_simps byte_simps optional_u64_def)
qed

theorem schedule_requests_decode_witness:
  "decodes schedule_batch_layout
     (scheduleCreateBatchPayloadWriter [\<lparr>se_ID = [], se_Route = ''schedule://a/b/c/d'', se_Cron = ''* * * * *'', se_DeliveryMode = 1,
        se_Payload = [4]\<rparr>] []) [(''schedule://a/b/c/d'', ''* * * * *'', 1, [4])]"
proof -
  let ?e = "\<lparr>se_ID = [], se_Route = ''schedule://a/b/c/d'', se_Cron = ''* * * * *'', se_DeliveryMode = 1, se_Payload = [4]\<rparr>"
  show ?thesis
    using schedule_requests_decode [of "[]" "[]" "[]" None "[?e]" 0 None] by (simp add: fits_u32_def schedule_fields_def)
qed

section \<open>List responses\<close>

definition entry_ok :: "ScheduleEntry \<Rightarrow> bool" where
  "entry_ok e \<longleftrightarrow> se_ID e = se_Route e \<and> fits_u32 (se_Route e) \<and> fits_u32 (se_Cron e) \<and> fits_u32 (se_Payload e) \<and>
     se_DeliveryMode e \<in> {0, 1}"

definition entry_bytes :: "ScheduleEntry \<Rightarrow> bytes" where
  "entry_bytes e = enc_schedule (schedule_fields e)"

definition entries_bytes :: "ScheduleEntry list \<Rightarrow> bytes" where
  "entries_bytes es = concat (map (\<lambda>e. 1 # entry_bytes e) es) @ [0]"

definition schedule_of :: "string \<times> string \<times> u8 \<times> bytes \<Rightarrow> ScheduleEntry" where
  "schedule_of x = (case x of (route, cron, mode, payload) \<Rightarrow>
     \<lparr>se_ID = route, se_Route = route, se_Cron = cron, se_DeliveryMode = mode, se_Payload = payload\<rparr>)"

definition rd_mode :: "bytes \<Rightarrow> nat \<Rightarrow> (u8 \<times> nat) res" where
  "rd_mode = rd_check (\<lambda>m. if m \<noteq> 0 \<and> m \<noteq> 1 then Err (ErrNew ''invalid delivery mode'') else Ok ()) ReadU8"

definition rd_schedule :: "bytes \<Rightarrow> nat \<Rightarrow> (ScheduleEntry \<times> nat) res" where
  "rd_schedule = rd_map schedule_of (rd_pair ReadString (rd_pair ReadString (rd_pair rd_mode ReadBytes)))"

lemma rd_mode_bind:
  "same_Ok (if pos \<ge> length p then Err e
            else if p ! pos \<noteq> 0 \<and> p ! pos \<noteq> 1 then Err e' else f (p ! pos) (pos + 1))
     (bind_res (rd_mode p pos) (\<lambda>x. g (fst x) (snd x)))"
  if "\<And>m o'. same_Ok (f m o') (g m o')"
  using that by (auto simp: rd_mode_def rd_check_def ReadU8_def index_def same_Ok_intros)

lemma read_entry_same: "same_Ok (read_entry p pos) (rd_schedule p pos)"
  unfolding read_entry_def rd_schedule_def layout_binds Let_def
  by (simp only: fst_conv snd_conv bind_res.simps schedule_of_def prod.case)
    (intro same_Ok_bind same_Ok_map_err same_Ok_refl
      rd_mode_bind [where g = "\<lambda>b o'. bind_res (ReadBytes p o') (G b)" for G])

lemma schedule_of_fields: "schedule_of (schedule_fields y) = y \<longleftrightarrow> se_ID y = se_Route y"
  by (cases y) (auto simp: schedule_of_def schedule_fields_def)

lemma rd_schedule_codec: "field_codec entry_bytes rd_schedule entry_ok"
proof -
  have m: "field_codec (\<lambda>b. [b]) rd_mode
      (\<lambda>x. True \<and> (if x \<noteq> 0 \<and> x \<noteq> 1 then Err (ErrNew ''invalid delivery mode'') else Ok ()) = Ok ())"
    unfolding rd_mode_def by (rule codec_check [OF u8c.field_codec_axioms]) simp
  show ?thesis unfolding rd_schedule_def
  proof (rule codec_build [OF codec_pair [OF stringc.field_codec_axioms codec_pair [OF stringc.field_codec_axioms
          codec_pair [OF m bytesc.field_codec_axioms]]], where h = schedule_fields])
    show "entry_ok y \<longleftrightarrow> fits_pair fits_u32 (fits_pair fits_u32 (fits_pair
        (\<lambda>x. True \<and> (if x \<noteq> 0 \<and> x \<noteq> 1 then Err (ErrNew ''invalid delivery mode'') else Ok ()) = Ok ()) fits_u32))
        (schedule_fields y) \<and> schedule_of (schedule_fields y) = y" for y
      unfolding schedule_of_fields by (auto simp: schedule_fields_def entry_ok_def fits_pair_def)
  qed (auto simp: schedule_of_def schedule_fields_def entry_bytes_def enc_pair_def split: prod.splits)
qed

interpretation sched: field_codec entry_bytes read_entry entry_ok
  by (rule codec_same [OF rd_schedule_codec read_entry_same])

lemma list_entries_loop_exact:
  assumes "pos \<le> length p"
  shows "list_entries_loop p pos acc = Ok es \<longleftrightarrow>
    (\<exists>new. es = acc @ new \<and> list_all entry_ok new \<and> drop pos p = entries_bytes new)"
  using assms
proof (induction p pos acc rule: list_entries_loop.induct)
  case (1 p pos acc)
  show ?case
  proof (cases "pos = length p")
    case True
    then show ?thesis by (simp add: list_entries_loop.simps entries_bytes_def)
  next
    case False
    then have pos: "pos < length p" using "1.prems" by simp
    then have d: "drop pos p = p ! pos # drop (Suc pos) p" by (rule Cons_nth_drop_Suc [symmetric])
    have nil: "0 # xs = entries_bytes new \<longleftrightarrow> new = [] \<and> xs = []" for new xs
      by (cases new) (auto simp: entries_bytes_def)
    have cons: "1 # xs = entries_bytes new \<longleftrightarrow> (\<exists>e new'. new = e # new' \<and> xs = entry_bytes e @ entries_bytes new')" for new xs
      by (cases new) (auto simp: entries_bytes_def)
    have other: "b # xs = entries_bytes new \<Longrightarrow> b = 0 \<or> b = 1" for new b xs
      by (cases new) (auto simp: entries_bytes_def)
    consider (stop) "p ! pos = 0" | (entry) "p ! pos = 1" | (bad) "p ! pos \<noteq> 0" "p ! pos \<noteq> 1" by blast
    then show ?thesis
    proof cases
      case stop
      have "list_entries_loop p pos acc = Ok es \<longleftrightarrow> drop (Suc pos) p = [] \<and> es = acc"
        using pos stop by (subst list_entries_loop.simps) auto
      then show ?thesis unfolding d stop nil by auto
    next
      case entry
      have step: "list_entries_loop p pos acc = Ok es \<longleftrightarrow>
          (\<exists>e o'. read_entry p (Suc pos) = Ok (e, o') \<and> list_entries_loop p o' (acc @ [e]) = Ok es)"
        using pos entry by (subst list_entries_loop.simps) (auto simp: bind_res_Ok_iff)
      have IH: "list_entries_loop p o' (acc @ [e]) = Ok es \<longleftrightarrow>
          (\<exists>new. es = (acc @ [e]) @ new \<and> list_all entry_ok new \<and> drop o' p = entries_bytes new)"
        if "read_entry p (Suc pos) = Ok (e, o')" for e o'
      proof -
        have "o' \<le> length p" using sched.read_bounds [OF _ that] pos by simp
        then show ?thesis using "1.IH" [of "p ! pos" "Suc pos" "(e, o')" e o'] pos entry that by simp
      qed
      show ?thesis
      proof
        assume "list_entries_loop p pos acc = Ok es"
        then obtain e o' new where h: "read_entry p (Suc pos) = Ok (e, o')" "es = (acc @ [e]) @ new" "list_all entry_ok new"
          "drop o' p = entries_bytes new" using step IH by blast
        from sched.read_Ok [OF _ h(1)] pos
        have "entry_ok e" "drop (Suc pos) p = entry_bytes e @ drop o' p" by auto
        then show "\<exists>new. es = acc @ new \<and> list_all entry_ok new \<and> drop pos p = entries_bytes new"
          unfolding d entry using h(2-4) by (intro exI [of _ "e # new"]) (simp add: entries_bytes_def)
      next
        assume "\<exists>new. es = acc @ new \<and> list_all entry_ok new \<and> drop pos p = entries_bytes new"
        then obtain e new where n: "es = acc @ e # new" "entry_ok e" "list_all entry_ok new"
          "drop (Suc pos) p = entry_bytes e @ entries_bytes new" unfolding d entry cons by auto
        have r: "read_entry p (Suc pos) = Ok (e, Suc pos + length (entry_bytes e))"
          using sched.read_write [OF n(2) _ n(4)] pos by simp
        have "drop (Suc pos + length (entry_bytes e)) p = entries_bytes new" using drop_shift [OF n(4) refl] .
        then show "list_entries_loop p pos acc = Ok es" unfolding step using r IH [OF r] n(1,3) by auto
      qed
    next
      case bad
      have "\<not> (list_entries_loop p pos acc = Ok es)" using pos bad by (subst list_entries_loop.simps) simp
      moreover have "p ! pos # drop (Suc pos) p \<noteq> entries_bytes new" for new using other bad by blast
      ultimately show ?thesis unfolding d by blast
    qed
  qed
qed

definition cursor_page_ok :: "ScheduleCursorPage \<Rightarrow> bool" where
  "cursor_page_ok page \<longleftrightarrow> list_all entry_ok (cp_Entries page) \<and> pred_option fits_u32 (cp_Continuation page) \<and>
     (cp_HasMore page = False \<or> cp_Continuation page \<noteq> None)"

definition cursor_page_bytes :: "ScheduleCursorPage \<Rightarrow> bytes" where
  "cursor_page_bytes page = [1, if cp_HasMore page then 1 else 0] @ enc_option len_prefixed_string (cp_Continuation page) @
     entries_bytes (cp_Entries page)"

lemma parse_entries_exact: "parseScheduleListEntries p = Ok es \<longleftrightarrow> list_all entry_ok es \<and> p = entries_bytes es"
  using list_entries_loop_exact [of 0 p "[]" es] by (auto simp: parseScheduleListEntries_def)

lemma le_one_u8: "(b :: u8) \<le> 1 \<longleftrightarrow> b = 0 \<or> b = 1"
  by (auto simp: word_le_nat_alt unat_arith_simps le_Suc_eq)

lemma cursor_layout: "field_codec (enc_option len_prefixed_string) (rd_option ReadString) (pred_option fits_u32)"
  by (intro codec_intros)

lemma cursor_page_parses:
  "parse_cursor_page p = Ok page \<longleftrightarrow> cursor_page_ok page \<and> p = cursor_page_bytes page"
proof -
  have parse: "parse_cursor_page p = Ok page \<longleftrightarrow>
      4 \<le> length p \<and> p ! 0 = 1 \<and> (p ! 1 = 0 \<or> p ! 1 = 1) \<and> cp_HasMore page = (p ! 1 = 1) \<and>
      (cp_HasMore page = False \<or> cp_Continuation page \<noteq> None) \<and>
      (\<exists>pos. rd_option ReadString p 2 = Ok (cp_Continuation page, pos) \<and> pos \<le> length p \<and>
        list_all entry_ok (cp_Entries page) \<and> drop pos p = entries_bytes (cp_Entries page))"
  proof (cases "4 \<le> length p")
    case True
    have opt: "(if p ! 2 = 0 then Ok (None, 3) else if p ! 2 = 1 then bind_res (ReadString p 3) (\<lambda>(value, next). Ok (Some value, next))
        else Err (ErrNew ''invalid schedule LIST_V2 cursor flag'')) = Ok z \<longleftrightarrow> rd_option ReadString p 2 = Ok z" for z
      using True by (auto simp: rd_option_def ReadU8_def index_def)
    have "slice_from p pos = Ok q \<longleftrightarrow> pos \<le> length p \<and> q = drop pos p" for pos q
      by (auto simp: slice_from_def slice_def)
    then show ?thesis using True
      by (cases page) (auto simp: parse_cursor_page_def Let_def bind_res_Ok_iff opt parse_entries_exact le_one_u8 not_less split: if_splits)
  qed (auto simp: parse_cursor_page_def)
  have lay: "4 \<le> length p \<and> (\<exists>pos. rd_option ReadString p 2 = Ok (co, pos) \<and> pos \<le> length p \<and> drop pos p = entries_bytes es) \<longleftrightarrow>
      2 \<le> length p \<and> pred_option fits_u32 co \<and> drop 2 p = enc_option len_prefixed_string co @ entries_bytes es" for co es
  proof
    assume "4 \<le> length p \<and> (\<exists>pos. rd_option ReadString p 2 = Ok (co, pos) \<and> pos \<le> length p \<and> drop pos p = entries_bytes es)"
    then obtain pos where h: "4 \<le> length p" "rd_option ReadString p 2 = Ok (co, pos)" "drop pos p = entries_bytes es" by blast
    have "2 \<le> length p" using h(1) by simp
    from field_codec.read_Ok [OF cursor_layout this h(2)] h
    show "2 \<le> length p \<and> pred_option fits_u32 co \<and> drop 2 p = enc_option len_prefixed_string co @ entries_bytes es" by simp
  next
    assume h: "2 \<le> length p \<and> pred_option fits_u32 co \<and> drop 2 p = enc_option len_prefixed_string co @ entries_bytes es"
    then have r: "rd_option ReadString p 2 = Ok (co, 2 + length (enc_option len_prefixed_string co))"
      using field_codec.read_write [OF cursor_layout, of co 2 p] by blast
    have "length (entries_bytes es) \<ge> 1" "length (enc_option len_prefixed_string co) \<ge> 1"
      by (cases co; simp add: entries_bytes_def enc_option_def)+
    moreover have "length p - 2 = length (enc_option len_prefixed_string co) + length (entries_bytes es)"
      using h by (metis length_append length_drop)
    ultimately have "4 \<le> length p" "2 + length (enc_option len_prefixed_string co) \<le> length p" by linarith+
    then show "4 \<le> length p \<and> (\<exists>pos. rd_option ReadString p 2 = Ok (co, pos) \<and> pos \<le> length p \<and> drop pos p = entries_bytes es)"
      using r h drop_shift [of 2 p "enc_option len_prefixed_string co" "entries_bytes es"] by auto
  qed
  have two: "2 \<le> length p \<and> p ! 0 = a \<and> p ! 1 = b \<and> drop 2 p = r \<longleftrightarrow> p = [a, b] @ r" for a b r
    by (cases p; cases "tl p") auto
  have hm: "(p ! 1 = 0 \<or> p ! 1 = 1) \<and> cp_HasMore page = (p ! 1 = 1) \<longleftrightarrow> p ! 1 = (if cp_HasMore page then 1 else 0)" by auto
  have "parse_cursor_page p = Ok page \<longleftrightarrow> cursor_page_ok page \<and>
      (2 \<le> length p \<and> p ! 0 = 1 \<and> p ! 1 = (if cp_HasMore page then 1 else 0) \<and>
       drop 2 p = enc_option len_prefixed_string (cp_Continuation page) @ entries_bytes (cp_Entries page))"
    unfolding parse cursor_page_ok_def hm [symmetric] using lay [of "cp_Continuation page" "cp_Entries page"] by blast
  then show ?thesis by (simp only: two cursor_page_bytes_def)
qed

text \<open>LIST pages. The response of a schedule LIST parses to a page exactly when it is the layout of that page: version 1, the
  flag for more, the optional continuation, which a page with more must have, and the entries, each behind a 1
  with a known delivery mode, up to a final 0.\<close>

theorem cursor_page_exact:
  "parse_cursor_page p = Ok page \<longleftrightarrow> cursor_page_ok page \<and> p = cursor_page_bytes page"
  by (rule cursor_page_parses)

section \<open>Listing by selector\<close>

text \<open>A listing that ends: the pages from a cursor on, with all their entries.\<close>

inductive schedule_listing :: "'s conn_api \<Rightarrow> string option \<Rightarrow> 's \<Rightarrow> ScheduleEntry list \<Rightarrow> 's \<Rightarrow> bool" for c where
  last_page: "ListV2 c cursor (Some 1000) s = (Ok page, s') \<Longrightarrow> \<not> cp_HasMore page \<Longrightarrow>
    schedule_listing c cursor s (cp_Entries page) s'"
| more_pages: "ListV2 c cursor (Some 1000) s = (Ok page, s') \<Longrightarrow> cp_HasMore page \<Longrightarrow> cp_Continuation page = Some cont \<Longrightarrow>
    cp_Entries page \<noteq> [] \<Longrightarrow> schedule_listing c (Some cont) s' es s'' \<Longrightarrow>
    schedule_listing c cursor s (cp_Entries page @ es) s''"

lemma select_loop_complete:
  "schedule_listing c cursor s es s' \<Longrightarrow>
   select_loop c selector cursor matches s =
     Some (Ok (matches @ filter (\<lambda>e. scheduleSelectorMatches selector (se_Route e)) es), s')"
proof (induction arbitrary: matches rule: schedule_listing.induct)
  case (last_page cursor s page s')
  then show ?case by (subst select_loop.simps) simp
next
  case (more_pages cursor s page s' cont es s'')
  then show ?case by (subst select_loop.simps) simp
qed

text \<open>C25: Listing by selector. When the broker's pages come to an end, \<open>ListBySelector\<close> returns, and it returns the entries of
  all pages that the selector matches, in the order of the pages, each as often as it is listed.\<close>

theorem list_by_selector_complete:
  assumes "ValidateScheduleSelector selector = Ok ()" "schedule_listing c None s es s'"
  shows "ListBySelector c selector s = Some (Ok (filterScheduleEntries es selector), s')"
proof -
  have "filterScheduleEntries es selector = filter (\<lambda>e. scheduleSelectorMatches selector (se_Route e)) es"
    by (induction es) simp_all
  then show ?thesis using assms(1) select_loop_complete [OF assms(2), of selector "[]"] by (simp add: ListBySelector_def)
qed

definition two_schedules :: "ScheduleEntry list" where
  "two_schedules = [\<lparr>se_ID = ''schedule://a/b/c/d'', se_Route = ''schedule://a/b/c/d'', se_Cron = ''* * * * *'', se_DeliveryMode = 0,
     se_Payload = []\<rparr>, \<lparr>se_ID = ''schedule://z/b/c/d'', se_Route = ''schedule://z/b/c/d'', se_Cron = ''* * * * *'',
     se_DeliveryMode = 1, se_Payload = [7]\<rparr>]"

definition two_schedules_api :: "unit conn_api" where
  "two_schedules_api = failing_api\<lparr>api_request := (\<lambda>t f w s.
     (Ok (0 # cursor_page_bytes \<lparr>cp_Entries = two_schedules, cp_HasMore = False, cp_Continuation = None\<rparr>), s))\<rparr>"

theorem list_by_selector_complete_witness:
  "ListBySelector two_schedules_api ''schedule://a/**'' () = Some (Ok (take 1 two_schedules), ())"
proof -
  let ?page = "\<lparr>cp_Entries = two_schedules, cp_HasMore = False, cp_Continuation = None\<rparr>"
  have scans: "scans ''schedule://a/**'' ''schedule'' [''a'', ''**'']" by (simp add: scans_def seg_ok_def wild_def)
  have v: "ValidateScheduleSelector ''schedule://a/**'' = Ok ()"
    by (simp add: ValidateScheduleSelector_def scans_scanRoute [OF scans] shape_of_def first_wild_def wild_def)
  have "cursor_page_ok ?page" by (simp add: cursor_page_ok_def two_schedules_def entry_ok_def fits_u32_def)
  then have "parse_cursor_page (cursor_page_bytes ?page) = Ok ?page"
    using cursor_page_parses by blast
  then have "ListV2 two_schedules_api None (Some 1000) () = (Ok ?page, ())"
    by (simp add: ListV2_def two_schedules_api_def api_send_def bind_op_def return_op_def ParseStandardResponse_def)
  from schedule_listing.last_page [OF this] have l: "schedule_listing two_schedules_api None () two_schedules ()" by simp
  have f: "filterScheduleEntries two_schedules ''schedule://a/**'' = take 1 two_schedules"
    by (simp add: two_schedules_def scheduleSelectorMatches_def scheduleSegments_def strings_HasPrefix_def strings_TrimPrefix_def)
  show ?thesis using list_by_selector_complete [OF v l] by (simp only: f)
qed

section \<open>What a selector matches\<close>

lemma segs_Split: "segs s = strings_Split (CHR ''/'') s"
proof (induction s)
  case (Cons ch s)
  then show ?case by (cases "strings_Split (CHR ''/'') s") auto
qed simp

lemma scheduleSegments_scans: "scans route ''schedule'' ss \<Longrightarrow> scheduleSegments route = Some ss"
  by (auto simp: scans_def scheduleSegments_def strings_HasPrefix_def strings_TrimPrefix_def segs_Split seg_ok_def list_all_iff Let_def)

definition full_selector :: "string list \<Rightarrow> string list" where
  "full_selector ss = (if length ss = 3 then ss @ [''*''] else ss)"

lemma first_wild_Cons:
  "first_wild (s # ss) = (if wild s then 0 else if first_wild ss = -1 then -1 else first_wild ss + 1)"
  by (auto simp: first_wild_def Let_def)

lemma first_wild_Nil [simp]: "first_wild [] = -1"
  by (simp add: first_wild_def)

lemma first_wild_ge: "first_wild ss \<ge> -1"
  by (simp add: first_wild_def Let_def)

lemma length_Suc4: "length xs = 4 \<Longrightarrow> \<exists>a b c d. xs = [a, b, c, d]" "length xs = 3 \<Longrightarrow> \<exists>a b c. xs = [a, b, c]"
  "length xs = 2 \<Longrightarrow> \<exists>a b. xs = [a, b]"
  by (auto simp: numeral_eq_Suc length_Suc_conv)

text \<open>Selectors. For a validated selector and the route of a schedule, the client's matching is wildcard matching of
  the segments, where a three-segment selector \<open>realm/area/*\<close> stands for every resource and operation of the
  area.\<close>

theorem schedule_selector_exact:
  assumes "ValidateScheduleSelector selector = Ok ()" "ValidateScheduleRoute route = Ok ()"
    and "scans selector ''schedule'' ss" "scans route ''schedule'' rs"
  shows "scheduleSelectorMatches selector route \<longleftrightarrow> glob rs (full_selector ss)"
proof -
  have r4: "length rs = 4"
    using assms(2) by (auto simp: ValidateScheduleRoute_def ValidateFixedRoute_def scans_scanRoute [OF assms(4)] shape_of_def split: if_splits)
  then obtain a b c d where rs: "rs = [a, b, c, d]" using length_Suc4(1) by blast
  from assms(1) consider "length ss = 2" "first_wild ss = 1" "''**'' \<in> set ss" | "length ss = 3" "first_wild ss = 2" "''**'' \<notin> set ss"
    | "length ss = 4" "first_wild ss = -1" | "length ss = 4" "first_wild ss = 3" "''**'' \<notin> set ss"
    by (auto simp: ValidateScheduleSelector_def scans_scanRoute [OF assms(3)] shape_of_def split: if_splits)
  then show ?thesis
  proof cases
    case 1
    then obtain x y where ss: "ss = [x, y]" using length_Suc4(3) by blast
    have "\<not> wild x" "y = ''**''" using 1 by (auto simp: ss first_wild_Cons wild_def split: if_splits)
    then show ?thesis
      by (auto simp: scheduleSelectorMatches_def scheduleSegments_scans [OF assms(3)] scheduleSegments_scans [OF assms(4)] rs ss
          full_selector_def wild_def)
  next
    case 2
    then obtain x y z where ss: "ss = [x, y, z]" using length_Suc4(2) by blast
    have "\<not> wild x" "\<not> wild y" "z = ''*''" using 2 by (auto simp: ss first_wild_Cons wild_def split: if_splits)
    then show ?thesis
      by (auto simp: scheduleSelectorMatches_def scheduleSegments_scans [OF assms(3)] scheduleSegments_scans [OF assms(4)] rs ss
          full_selector_def wild_def)
  next
    case 3
    then obtain x y z v where ss: "ss = [x, y, z, v]" using length_Suc4(1) by blast
    have "\<not> wild x" "\<not> wild y" "\<not> wild z" "\<not> wild v" using 3 by (auto simp: ss first_wild_Cons wild_def split: if_splits)
    then show ?thesis
      by (auto simp: scheduleSelectorMatches_def scheduleSegments_scans [OF assms(3)] scheduleSegments_scans [OF assms(4)] rs ss
          full_selector_def wild_def)
  next
    case 4
    then obtain x y z v where ss: "ss = [x, y, z, v]" using length_Suc4(1) by blast
    have "\<not> wild x" "\<not> wild y" "\<not> wild z" "v = ''*''" using 4 by (auto simp: ss first_wild_Cons wild_def split: if_splits)
    then show ?thesis
      by (auto simp: scheduleSelectorMatches_def scheduleSegments_scans [OF assms(3)] scheduleSegments_scans [OF assms(4)] rs ss
          full_selector_def wild_def)
  qed
qed

theorem schedule_selector_exact_witness:
  "scheduleSelectorMatches ''schedule://a/b/*'' ''schedule://a/b/c/d'' \<longleftrightarrow> glob [''a'', ''b'', ''c'', ''d''] [''a'', ''b'', ''*'', ''*'']"
proof -
  have s: "scans ''schedule://a/b/*'' ''schedule'' [''a'', ''b'', ''*'']" by (simp add: scans_def seg_ok_def wild_def)
  have r: "scans ''schedule://a/b/c/d'' ''schedule'' [''a'', ''b'', ''c'', ''d'']" by (simp add: scans_def seg_ok_def wild_def)
  have "ValidateScheduleSelector ''schedule://a/b/*'' = Ok ()"
    by (simp add: ValidateScheduleSelector_def scans_scanRoute [OF s] shape_of_def first_wild_def wild_def)
  moreover have "ValidateScheduleRoute ''schedule://a/b/c/d'' = Ok ()"
    by (simp add: ValidateScheduleRoute_def ValidateFixedRoute_def scans_scanRoute [OF r] shape_of_def first_wild_def wild_def)
  ultimately show ?thesis using schedule_selector_exact [OF _ _ s r] by (simp add: full_selector_def)
qed

end
