(* ===== verification/Watch_Client.thy ===== *)
theory Watch_Client
  imports Sub_Registry Kv_Domain Queue_Domain Stream_Domain Notice_Domain Schedule_Domain
begin

text \<open>
  The subscription half of the domain clients: \<open>Subscribe\<close>, \<open>unsubscribe\<close>, \<open>handleNotify\<close>, \<open>ReplaceConnection\<close> and
  \<open>RestoreSubscriptions\<close> of the key-value, queue, stream, notice and schedule clients, each on the shared registry and on
  its own wire requests. The state is the connection's \<open>'s\<close> beside the client's registry; a call that waits on the
  registry's condition variable or on a pending call has no result (None). The agreement of the client's registry
  with what the broker holds is proved for a broker that answers SUBSCRIBE and UNSUBSCRIBE as documented.
\<close>

section \<open>The registry with its wire calls\<close>

text \<open>\<open>Registry.Subscribe\<close> around the wire call; a call that would wait for another one is not resumed here.\<close>

definition registry_Subscribe ::
  "(string \<Rightarrow> (u64, 's) op) \<Rightarrow> string \<Rightarrow> nat \<Rightarrow> 's \<times> registry \<Rightarrow> ((u64 \<times> u64) res \<times> 's \<times> registry) option" where
  "registry_Subscribe wireSubscribe pat handler = (\<lambda>(s, r).
     if r_restoring r then None
     else case subscribe_enter pat handler r of
            (SubAttached subID hid, r1) \<Rightarrow> Some (Ok (subID, hid), s, r1)
          | (SubMustWait, r1) \<Rightarrow> None
          | (SubMustCall, r1) \<Rightarrow>
              (case wireSubscribe pat s of
                 (Ok subID, s') \<Rightarrow> (case subscribe_leave pat handler (Inr subID) r1 of (res, r2) \<Rightarrow> Some (res, s', r2))
               | (Err e, s') \<Rightarrow> (case subscribe_leave pat handler (Inl e) r1 of (res, r2) \<Rightarrow> Some (res, s', r2))
               | (Panic, s') \<Rightarrow> Some (Panic, s', r1)))"

fun wire_loop ::
  "(string \<Rightarrow> (u64, 's) op) \<Rightarrow> string list \<Rightarrow> (string \<times> u64) list \<Rightarrow> 's \<Rightarrow> restore_wire res \<times> 's" where
  "wire_loop wireSubscribe [] restored s = (Ok (Restored restored), s)"
| "wire_loop wireSubscribe (p # ps) restored s =
     (case wireSubscribe p s of
        (Ok subID, s') \<Rightarrow>
          if subID \<in> snd ` set restored
          then (Ok (RestoreFailed (restored @ [(p, subID)]) (duplicate_restored subID p)), s')
          else wire_loop wireSubscribe ps (restored @ [(p, subID)]) s'
      | (Err e, s') \<Rightarrow> (Ok (RestoreFailed restored e), s')
      | (Panic, s') \<Rightarrow> (Panic, s'))"

fun undo_loop ::
  "(string \<Rightarrow> u64 \<Rightarrow> (unit, 's) op) \<Rightarrow> (string \<times> u64) list \<Rightarrow> go_error option \<Rightarrow> 's \<Rightarrow> go_error option res \<times> 's" where
  "undo_loop wireUnsubscribe [] err s = (Ok err, s)"
| "undo_loop wireUnsubscribe ((p, i) # es) err s =
     (case wireUnsubscribe p i s of
        (Ok _, s') \<Rightarrow> undo_loop wireUnsubscribe es err s'
      | (Err e, s') \<Rightarrow>
          undo_loop wireUnsubscribe es (Some (join_errors (case err of None \<Rightarrow> [e] | Some e0 \<Rightarrow> [e0, e]))) s'
      | (Panic, s') \<Rightarrow> (Panic, s'))"

text \<open>\<open>Registry.Restore\<close>; it waits for a running restore and for the pending calls.\<close>

definition registry_Restore ::
  "(string \<Rightarrow> (u64, 's) op) \<Rightarrow> (string \<Rightarrow> u64 \<Rightarrow> (unit, 's) op) \<Rightarrow> 's \<times> registry \<Rightarrow> (unit res \<times> 's \<times> registry) option" where
  "registry_Restore wireSubscribe wireUnsubscribe = (\<lambda>(s, r).
     if r_restoring r \<or> r_pending r \<noteq> {} then None
     else if r_byPattern r = Map.empty then Some (Ok (), s, finishRestore r)
     else
       let r1 = restore_begin r in
       case wire_loop wireSubscribe (sorted_patterns r1) [] s of
         (Ok (Restored ids), s') \<Rightarrow>
           Some (Ok (), s', finishRestore (restore_commit (map (\<lambda>(p, i). (the (r_byPattern r1 p), i)) ids) r1))
       | (Ok (RestoreFailed undo e), s') \<Rightarrow>
           (case undo_loop wireUnsubscribe (rev undo) None s' of
              (Ok None, s'') \<Rightarrow> Some (Err e, s'', finishRestore r1)
            | (Ok (Some e'), s'') \<Rightarrow> Some (Err (join_errors [e, e']), s'', finishRestore r1)
            | (Err e', s'') \<Rightarrow> Some (Err e', s'', finishRestore r1)
            | (Panic, s'') \<Rightarrow> Some (Panic, s'', finishRestore r1))
       | (Err e, s') \<Rightarrow> Some (Err e, s', finishRestore r1)
       | (Panic, s') \<Rightarrow> Some (Panic, s', finishRestore r1))"

section \<open>The parts the clients share\<close>

record Subscription =
  sub_subID :: u64
  sub_handlerID :: u64
  sub_pattern :: string
  sub_completion :: "nat option"

text \<open>The client's registry, and whether its notification handler was registered with a connection.\<close>

record watch =
  wt_registry :: registry
  wt_notify :: bool

definition initNotifyHandler :: "('s \<Rightarrow> 's) \<Rightarrow> 's \<times> watch \<Rightarrow> 's \<times> watch" where
  "initNotifyHandler register = (\<lambda>(s, w). if wt_notify w then (s, w) else (register s, w\<lparr>wt_notify := True\<rparr>))"

definition ReplaceConnection :: "('s \<Rightarrow> 's) \<Rightarrow> 's \<Rightarrow> watch \<Rightarrow> 's \<times> watch" where
  "ReplaceConnection register conn w = (if wt_notify w then register conn else conn, w)"

definition subscribe_handle ::
  "(string \<Rightarrow> (u64, 's) op) \<Rightarrow> string \<Rightarrow> nat \<Rightarrow> 's \<times> watch \<Rightarrow> (Subscription res \<times> 's \<times> watch) option" where
  "subscribe_handle wireSubscribe pat handler = (\<lambda>(s, w).
     map_option (\<lambda>(res, s', r). (bind_res res (\<lambda>(subID, handlerID).
         Ok \<lparr>sub_subID = subID, sub_handlerID = handlerID, sub_pattern = pat, sub_completion = Completion pat handlerID r\<rparr>),
       s', w\<lparr>wt_registry := r\<rparr>))
     (registry_Subscribe wireSubscribe pat handler (s, wt_registry w)))"

text \<open>Removing a handle: the wire request only for the last handler of its pattern, its outcome ignored.\<close>

definition release_handle ::
  "'s conn_api \<Rightarrow> (unit, 's) op \<Rightarrow> Subscription \<Rightarrow> 's \<times> watch \<Rightarrow> (unit res \<times> 's \<times> watch) option" where
  "release_handle c wireUnsubscribe sub = (\<lambda>(s, w).
     if r_restoring (wt_registry w) then None
     else case Unsubscribe (sub_pattern sub) (sub_handlerID sub) (wt_registry w) of
            (False, r) \<Rightarrow> Some (Ok (), s, w\<lparr>wt_registry := r\<rparr>)
          | (True, r) \<Rightarrow>
              (case wireUnsubscribe (api_addSubs c (-1) s) of
                 (Panic, s') \<Rightarrow> Some (Panic, s', w\<lparr>wt_registry := r\<rparr>)
               | (_, s') \<Rightarrow> Some (Ok (), s', w\<lparr>wt_registry := r\<rparr>)))"

definition send_checked :: "'s conn_api \<Rightarrow> (bytes \<Rightarrow> (bool \<times> bytes) res) \<Rightarrow> u16 \<Rightarrow> writer \<Rightarrow> (unit, 's) op" where
  "send_checked c parse t w = bind_op (api_send c t w) (\<lambda>resp. return_op (bind_res (parse resp) (\<lambda>_. Ok ())))"

definition restore_watch ::
  "(string \<Rightarrow> (u64, 's) op) \<Rightarrow> (string \<Rightarrow> u64 \<Rightarrow> (unit, 's) op) \<Rightarrow> 's \<times> watch \<Rightarrow> (unit res \<times> 's \<times> watch) option" where
  "restore_watch wireSubscribe wireUnsubscribe = (\<lambda>(s, w).
     map_option (\<lambda>(res, s', r). (res, s', w\<lparr>wt_registry := r\<rparr>))
       (registry_Restore wireSubscribe wireUnsubscribe (s, wt_registry w)))"

definition when_valid ::
  "unit res \<Rightarrow> ('s \<times> watch \<Rightarrow> ('x res \<times> 's \<times> watch) option) \<Rightarrow> 's \<times> watch \<Rightarrow> ('x res \<times> 's \<times> watch) option" where
  "when_valid check k st =
     (case check of Ok _ \<Rightarrow> k st | Err e \<Rightarrow> Some (Err e, st) | Panic \<Rightarrow> Some (Panic, st))"

text \<open>
  The loop over the registrations of a notification, in the order \<open>regs\<close> in which the map is ranged over. \<open>launch\<close> is
  \<open>LaunchAsyncHandler\<close>: whether the connection took the handler call. A refused handler completes with the overflow
  error; the loop spawns its \<open>unsubscribe\<close>, returned in the second list.
\<close>

fun notify_loop ::
  "(registration \<Rightarrow> 'n \<Rightarrow> 's \<Rightarrow> bool \<times> 's) \<Rightarrow> string \<Rightarrow> u64 \<Rightarrow> 'n \<Rightarrow> registration list \<Rightarrow> 's \<times> watch \<Rightarrow>
   registration list \<times> Subscription list \<times> 's \<times> watch" where
  "notify_loop launch domain subID notif [] (s, w) = ([], [], s, w)"
| "notify_loop launch domain subID notif (reg # regs) (s, w) =
     (case launch reg notif s of
        (True, s') \<Rightarrow>
          (case notify_loop launch domain subID notif regs (s', w) of (started, spawned, st) \<Rightarrow> (reg # started, spawned, st))
      | (False, s') \<Rightarrow>
          (case notify_loop launch domain subID notif regs
                  (s', w\<lparr>wt_registry := Sub_Registry.Complete (reg_completion reg) (Some (AsyncOverflow domain subID)) (wt_registry w)\<rparr>) of
             (started, spawned, st) \<Rightarrow>
               (started, \<lparr>sub_subID = subID, sub_handlerID = reg_handlerID reg, sub_pattern = reg_pattern reg,
                      sub_completion = Some (reg_completion reg)\<rparr> # spawned, st)))"

section \<open>The clients\<close>

text \<open>
  \<open>register\<close> registers the client's notification handler with the connection, \<open>launch\<close> starts a handler call; both are
  services of the connection. The clients differ in the check of a pattern, in the requests, and in what a
  notification carries. The schedule client registers its handler before it checks the pattern.
\<close>

definition kv_Subscribe ::
  "'s conn_api \<Rightarrow> ('s \<Rightarrow> 's) \<Rightarrow> string \<Rightarrow> nat \<Rightarrow> 's \<times> watch \<Rightarrow> (Subscription res \<times> 's \<times> watch) option" where
  "kv_Subscribe c register pat handler =
     when_valid (map_err (Errorf1 ''invalid KV subscription pattern'') (ValidateRegistrationPattern pat ''kv'' 3))
       (\<lambda>st. subscribe_handle (kv_subscribeWire c) pat handler (initNotifyHandler register st))"

definition kv_unsubscribe :: "'s conn_api \<Rightarrow> Subscription \<Rightarrow> 's \<times> watch \<Rightarrow> (unit res \<times> 's \<times> watch) option" where
  "kv_unsubscribe c sub =
     release_handle c (send_checked c ParseStandardResponse MessageTypeKvUnsubscribe (kvPatternPayloadWriter (sub_pattern sub))) sub"

definition kv_RestoreSubscriptions :: "'s conn_api \<Rightarrow> 's \<times> watch \<Rightarrow> (unit res \<times> 's \<times> watch) option" where
  "kv_RestoreSubscriptions c = restore_watch (kv_subscribeWire c) (\<lambda>p _. kv_rollbackWire c p)"

definition kv_handleNotify ::
  "(registration \<Rightarrow> ChangeNotification \<Rightarrow> 's \<Rightarrow> bool \<times> 's) \<Rightarrow> u64 \<Rightarrow> string \<Rightarrow> bytes \<Rightarrow> registration list \<Rightarrow> 's \<times> watch \<Rightarrow>
   (registration list \<times> Subscription list \<times> 's \<times> watch) res" where
  "kv_handleNotify launch subID route payload regs st =
     bind_res (kv_notification route payload) (\<lambda>n. case n of
        None \<Rightarrow> Ok ([], [], st)
      | Some notification \<Rightarrow> Ok (notify_loop launch ''kv'' subID notification regs st))"

definition queue_Subscribe ::
  "'s conn_api \<Rightarrow> ('s \<Rightarrow> 's) \<Rightarrow> string \<Rightarrow> nat \<Rightarrow> 's \<times> watch \<Rightarrow> (Subscription res \<times> 's \<times> watch) option" where
  "queue_Subscribe c register pat handler =
     when_valid (map_err (Errorf1 ''invalid route'') (ValidateRegistrationPattern pat ''queue'' 3))
       (\<lambda>st. subscribe_handle (queue_subscribeWire c) pat handler (initNotifyHandler register st))"

definition queue_unsubscribe :: "'s conn_api \<Rightarrow> Subscription \<Rightarrow> 's \<times> watch \<Rightarrow> (unit res \<times> 's \<times> watch) option" where
  "queue_unsubscribe c sub =
     release_handle c (send_checked c parsePlainQueueResponse MessageTypeQueueUnsubscribe
       (queue_unsubscribePayloadWriter (sub_pattern sub))) sub"

definition queue_RestoreSubscriptions :: "'s conn_api \<Rightarrow> 's \<times> watch \<Rightarrow> (unit res \<times> 's \<times> watch) option" where
  "queue_RestoreSubscriptions c = restore_watch (queue_subscribeWire c) (\<lambda>p _. queue_rollbackWire c p)"

definition queue_handleNotify ::
  "(registration \<Rightarrow> AvailabilityNotification \<Rightarrow> 's \<Rightarrow> bool \<times> 's) \<Rightarrow> u64 \<Rightarrow> string \<Rightarrow> bytes \<Rightarrow> registration list \<Rightarrow> 's \<times> watch \<Rightarrow>
   (registration list \<times> Subscription list \<times> 's \<times> watch) res" where
  "queue_handleNotify launch subID route payload regs st =
     bind_res (queue_notification route payload) (\<lambda>n. case n of
        None \<Rightarrow> Ok ([], [], st)
      | Some notif \<Rightarrow> Ok (notify_loop launch ''queue'' subID notif regs st))"

definition stream_Subscribe ::
  "'s conn_api \<Rightarrow> ('s \<Rightarrow> 's) \<Rightarrow> string \<Rightarrow> nat \<Rightarrow> 's \<times> watch \<Rightarrow> (Subscription res \<times> 's \<times> watch) option" where
  "stream_Subscribe c register pat handler =
     when_valid (map_err (Errorf1 ''invalid route'') (ValidateStreamSelector pat))
       (\<lambda>st. subscribe_handle (stream_subscribeWire c) pat handler (initNotifyHandler register st))"

definition stream_unsubscribe :: "'s conn_api \<Rightarrow> Subscription \<Rightarrow> 's \<times> watch \<Rightarrow> (unit res \<times> 's \<times> watch) option" where
  "stream_unsubscribe c sub =
     release_handle c (send_checked c ParseStandardResponse MessageTypeStreamUnsubscribe
       (stream_unsubscribePayloadWriter (sub_pattern sub))) sub"

definition stream_RestoreSubscriptions :: "'s conn_api \<Rightarrow> 's \<times> watch \<Rightarrow> (unit res \<times> 's \<times> watch) option" where
  "stream_RestoreSubscriptions c = restore_watch (stream_subscribeWire c) (\<lambda>p _. stream_rollbackWire c p)"

definition stream_handleNotify ::
  "(bytes \<Rightarrow> CommitNotification option) \<Rightarrow> (registration \<Rightarrow> CommitNotification \<Rightarrow> 's \<Rightarrow> bool \<times> 's) \<Rightarrow> u64 \<Rightarrow> string \<Rightarrow> bytes \<Rightarrow>
   registration list \<Rightarrow> 's \<times> watch \<Rightarrow> registration list \<times> Subscription list \<times> 's \<times> watch" where
  "stream_handleNotify unmarshal launch subID route payload regs st =
     notify_loop launch ''stream'' subID (stream_notification unmarshal route payload) regs st"

definition notice_Subscribe ::
  "'s conn_api \<Rightarrow> ('s \<Rightarrow> 's) \<Rightarrow> string \<Rightarrow> nat \<Rightarrow> 's \<times> watch \<Rightarrow> (Subscription res \<times> 's \<times> watch) option" where
  "notice_Subscribe c register pat handler =
     when_valid (map_err (Errorf1 ''invalid route'') (ValidateRegistrationPattern pat ''notice'' 0))
       (\<lambda>st. subscribe_handle (notice_subscribeWire c) pat handler (initNotifyHandler register st))"

definition notice_unsubscribe :: "'s conn_api \<Rightarrow> Subscription \<Rightarrow> 's \<times> watch \<Rightarrow> (unit res \<times> 's \<times> watch) option" where
  "notice_unsubscribe c sub =
     release_handle c (send_checked c ParseStandardResponse MessageTypeNoticeUnsubscribe
       (notice_unsubscribePayloadWriter (sub_subID sub))) sub"

definition notice_RestoreSubscriptions :: "'s conn_api \<Rightarrow> 's \<times> watch \<Rightarrow> (unit res \<times> 's \<times> watch) option" where
  "notice_RestoreSubscriptions c = restore_watch (notice_subscribeWire c) (\<lambda>_ subID. notice_rollbackWire c subID)"

definition UnsubscribeAll :: "'s conn_api \<Rightarrow> 's \<times> watch \<Rightarrow> (unit res \<times> 's \<times> watch) option" where
  "UnsubscribeAll c = (\<lambda>(s, w).
     case bind_op (\<lambda>s. map_prod (map_err (Errorf1 ''unsubscribe all request failed'')) id
                          (api_send c MessageTypeNoticeUnsubscribeAll (\<lambda>buf. buf) s)) (\<lambda>resp.
          return_op (bind_res (map_err (\<lambda>e. Errorf1 ''unsubscribe all failed'' (mapNoticeError e)) (ParseStandardResponse resp))
            (\<lambda>(success, remaining).
               if \<not> success \<or> length remaining \<noteq> 0 then Err (ErrNew ''unsubscribe all response is malformed'') else Ok ()))) s of
       (Ok _, s') \<Rightarrow>
         if r_restoring (wt_registry w) then None
         else (case Clear (wt_registry w) of (removed, r) \<Rightarrow>
                 Some (Ok (), api_addSubs c (- int removed) s', w\<lparr>wt_registry := r\<rparr>))
     | (Err e, s') \<Rightarrow> Some (Err e, s', w)
     | (Panic, s') \<Rightarrow> Some (Panic, s', w))"

record NoticeMsg =
  nm_Route :: string
  nm_Body :: bytes

definition notice_handleNotify ::
  "(registration \<Rightarrow> NoticeMsg \<Rightarrow> 's \<Rightarrow> bool \<times> 's) \<Rightarrow> u64 \<Rightarrow> string \<Rightarrow> bytes \<Rightarrow> registration list \<Rightarrow> 's \<times> watch \<Rightarrow>
   registration list \<times> Subscription list \<times> 's \<times> watch" where
  "notice_handleNotify launch subID route payload regs st =
     notify_loop launch ''notice'' subID \<lparr>nm_Route = route, nm_Body = payload\<rparr> regs st"

definition schedule_Subscribe ::
  "'s conn_api \<Rightarrow> ('s \<Rightarrow> 's) \<Rightarrow> string \<Rightarrow> nat \<Rightarrow> 's \<times> watch \<Rightarrow> (Subscription res \<times> 's \<times> watch) option" where
  "schedule_Subscribe c register pat handler st =
     when_valid (map_err (Errorf1 ''invalid schedule route'') (ValidateRegistrationPattern pat ''schedule'' 4))
       (subscribe_handle (schedule_subscribeWire c) pat handler) (initNotifyHandler register st)"

definition schedule_unsubscribe :: "'s conn_api \<Rightarrow> Subscription \<Rightarrow> 's \<times> watch \<Rightarrow> (unit res \<times> 's \<times> watch) option" where
  "schedule_unsubscribe c sub =
     release_handle c (send_checked c ParsePlainResponse MessageTypeScheduleUnsubscribe
       (scheduleUnsubscribePayloadWriter (sub_pattern sub))) sub"

definition schedule_RestoreSubscriptions :: "'s conn_api \<Rightarrow> 's \<times> watch \<Rightarrow> (unit res \<times> 's \<times> watch) option" where
  "schedule_RestoreSubscriptions c = restore_watch (schedule_subscribeWire c) (\<lambda>p _. schedule_rollbackWire c p)"

record Notification =
  n_Route :: string
  n_Payload :: bytes

definition handleScheduleNotify ::
  "(registration \<Rightarrow> Notification \<Rightarrow> 's \<Rightarrow> bool \<times> 's) \<Rightarrow> u64 \<Rightarrow> string \<Rightarrow> bytes \<Rightarrow> registration list \<Rightarrow> 's \<times> watch \<Rightarrow>
   registration list \<times> Subscription list \<times> 's \<times> watch" where
  "handleScheduleNotify launch subID route payload regs st =
     notify_loop launch ''schedule'' subID \<lparr>n_Route = route, n_Payload = payload\<rparr> regs st"

section \<open>Notifications reach every handler\<close>

lemma notify_loop_split:
  "notify_loop launch domain subID notif regs (s, w) = (started, spawned, s', w') \<Longrightarrow>
   set regs = set started \<union> {reg \<in> set regs. \<exists>sub\<in>set spawned. sub_completion sub = Some (reg_completion reg) \<and>
     sub_pattern sub = reg_pattern reg \<and> sub_handlerID sub = reg_handlerID reg} \<and>
   length regs = length started + length spawned \<and>
   (\<forall>sub\<in>set spawned. \<exists>k. sub_completion sub = Some k \<and> r_completion (wt_registry w') k \<noteq> None) \<and>
   (\<forall>k. r_completion (wt_registry w) k \<noteq> None \<longrightarrow> r_completion (wt_registry w') k = r_completion (wt_registry w) k)"
proof (induction regs arbitrary: s w started spawned)
  case (Cons reg regs)
  obtain b s1 where l: "launch reg notif s = (b, s1)" by (cases "launch reg notif s")
  let ?c = "Sub_Registry.Complete (reg_completion reg) (Some (AsyncOverflow domain subID)) (wt_registry w)"
  let ?w = "if b then w else w\<lparr>wt_registry := ?c\<rparr>"
  have compl: "r_completion ?c (reg_completion reg) \<noteq> None"
    "r_completion (wt_registry w) k \<noteq> None \<Longrightarrow> r_completion ?c k = r_completion (wt_registry w) k" for k
    by (auto simp: Sub_Registry.Complete_def split: option.splits)
  obtain st1 sp1 where n: "notify_loop launch domain subID notif regs (s1, ?w) = (st1, sp1, s', w')"
    and eq: "started = (if b then reg # st1 else st1)"
      "spawned = (if b then sp1 else \<lparr>sub_subID = subID, sub_handlerID = reg_handlerID reg, sub_pattern = reg_pattern reg,
          sub_completion = Some (reg_completion reg)\<rparr> # sp1)"
    using Cons.prems l by (cases b) (auto split: prod.splits)
  note ih = Cons.IH [OF n]
  show ?case
  proof (cases b)
    case True
    then show ?thesis using ih eq by auto
  next
    case False
    have keep: "r_completion (wt_registry w) k \<noteq> None \<Longrightarrow> r_completion (wt_registry w') k = r_completion (wt_registry w) k" for k
      using ih compl(2) [of k] False by auto
    have "r_completion (wt_registry w') (reg_completion reg) \<noteq> None" using ih compl(1) False by auto
    moreover have "set (reg # regs) = set st1 \<union> {r \<in> set (reg # regs). \<exists>sub\<in>set spawned. sub_completion sub = Some (reg_completion r) \<and>
       sub_pattern sub = reg_pattern r \<and> sub_handlerID sub = reg_handlerID r}"
      using ih eq False by auto
    moreover have "started = st1" using eq False by simp
    moreover have "\<forall>sub\<in>set spawned. \<exists>k. sub_completion sub = Some k \<and> r_completion (wt_registry w') k \<noteq> None"
      using ih eq False calculation(1) by auto
    ultimately show ?thesis using ih eq False keep by auto
  qed
qed auto

section \<open>The broker's side\<close>

text \<open>
  What a domain's broker does with the two requests of a pattern: \<open>subs s\<close> are the wire subscriptions of the session with
  their ids, \<open>cnt s\<close> the client's count of them. A SUBSCRIBE is answered with an id no other subscription of the
  session has, or fails and subscribes nothing; an UNSUBSCRIBE removes the pattern.
\<close>

definition broker_serves ::
  "'s conn_api \<Rightarrow> ('s \<Rightarrow> 's) \<Rightarrow> u16 \<times> (string \<Rightarrow> writer) \<Rightarrow> u16 \<times> (string \<Rightarrow> writer) \<Rightarrow> (u64 \<Rightarrow> bytes) \<Rightarrow> ('s \<Rightarrow> string \<rightharpoonup> u64) \<Rightarrow>
   ('s \<Rightarrow> int) \<Rightarrow> bool" where
  "broker_serves c register sub unsub reply subs cnt \<longleftrightarrow>
     (\<forall>p s. \<exists>r s'. api_send c (fst sub) (snd sub p) s = (r, s') \<and> cnt s' = cnt s \<and>
        ((\<exists>i. r = Ok (0 # reply i) \<and> i \<notin> ran (subs s) \<and> subs s' = (subs s)(p \<mapsto> i)) \<or> (\<exists>e. r = Err e \<and> subs s' = subs s))) \<and>
     (\<forall>p s. \<exists>rest s'. api_send c (fst unsub) (snd unsub p) s = (Ok (0 # rest), s') \<and> cnt s' = cnt s \<and>
        subs s' = (subs s)(p := None)) \<and>
     (\<forall>n s. cnt (api_addSubs c n s) = cnt s + n \<and> subs (api_addSubs c n s) = subs s) \<and>
     (\<forall>s. cnt (register s) = cnt s \<and> subs (register s) = subs s)"

text \<open>The same for the client's calls: what \<open>subscribeWire\<close> and the request of \<open>unsubscribe\<close> do.\<close>

definition wires_ok ::
  "(string \<Rightarrow> (u64, 's) op) \<Rightarrow> (string \<Rightarrow> (unit, 's) op) \<Rightarrow> ('s \<Rightarrow> string \<rightharpoonup> u64) \<Rightarrow> ('s \<Rightarrow> int) \<Rightarrow> bool" where
  "wires_ok sub unsub subs cnt \<longleftrightarrow>
     (\<forall>p s. (\<exists>i s'. sub p s = (Ok i, s') \<and> i \<notin> ran (subs s) \<and> subs s' = (subs s)(p \<mapsto> i) \<and> cnt s' = cnt s + 1) \<or>
            (\<exists>e s'. sub p s = (Err e, s') \<and> subs s' = subs s \<and> cnt s' = cnt s)) \<and>
     (\<forall>p s. \<exists>r s'. unsub p s = (r, s') \<and> r \<noteq> Panic \<and> subs s' = (subs s)(p := None) \<and> cnt s' = cnt s)"

definition agrees :: "('s \<Rightarrow> string \<rightharpoonup> u64) \<Rightarrow> ('s \<Rightarrow> int) \<Rightarrow> 's \<Rightarrow> registry \<Rightarrow> bool" where
  "agrees subs cnt s r \<longleftrightarrow>
     subs s = (\<lambda>p. map_option (\<lambda>e. e_subID (r_entry r e)) (r_byPattern r p)) \<and> cnt s = int (card (dom (r_byPattern r)))"

definition quiet :: "registry \<Rightarrow> bool" where
  "quiet r \<longleftrightarrow> consistent r \<and> \<not> r_restoring r \<and> r_pending r = {}"

definition ids_of :: "registry \<Rightarrow> string \<rightharpoonup> u64" where
  "ids_of r p = map_option (\<lambda>e. e_subID (r_entry r e)) (r_byPattern r p)"

lemma agrees_ids: "agrees subs cnt s r \<longleftrightarrow> subs s = ids_of r \<and> cnt s = int (card (dom (r_byPattern r)))"
  by (simp add: agrees_def ids_of_def fun_eq_iff)

lemma fresh_id:
  assumes "consistent r" "i \<notin> ran (ids_of r)" shows "r_bySubID r i = None"
proof (rule ccontr)
  assume "r_bySubID r i \<noteq> None"
  then obtain e where "r_bySubID r i = Some e" by blast
  from consistentD(3) [OF assms(1) this] have "ids_of r (e_pattern (r_entry r e)) = Some i" by (simp add: ids_of_def)
  then show False using assms(2) by (auto simp: ran_def)
qed

lemma subscribe_enter_ids:
  assumes "subscribe_enter p h r = (out, r')"
  shows "r_byPattern r' = r_byPattern r \<and> ids_of r' = ids_of r \<and> r_restoring r' = r_restoring r \<and>
    (case out of SubMustCall \<Rightarrow> r_byPattern r p = None \<and> r' = r\<lparr>r_pending := insert p (r_pending r)\<rparr>
     | _ \<Rightarrow> r_pending r' = r_pending r)"
  using assms by (auto simp: subscribe_enter_def ids_of_def fun_eq_iff map_option_case nextHandler_def NewCompletion_def update_entry_def Let_def
      split: option.splits if_splits)

lemma subscribe_leave_Err:
  "subscribe_leave p h (Inl e) r = (Err e, r\<lparr>r_pending := r_pending r - {p}\<rparr>)"
  by (simp add: subscribe_leave_def Let_def)

lemma subscribe_leave_ids:
  assumes "consistent r" "r_byPattern r p = None" "r_bySubID r i = None" "subscribe_leave p h (Inr i) r = (out, r')"
  shows "r_byPattern r' = (r_byPattern r)(p \<mapsto> r_newEntry r)" "ids_of r' = (ids_of r)(p \<mapsto> i)"
    "r_pending r' = r_pending r - {p}" "r_restoring r' = r_restoring r" "\<exists>hid. out = Ok (i, hid)"
proof -
  show 1: "r_byPattern r' = (r_byPattern r)(p \<mapsto> r_newEntry r)" and "r_pending r' = r_pending r - {p}"
    and "r_restoring r' = r_restoring r" and "\<exists>hid. out = Ok (i, hid)"
    using assms(3,4) by (auto simp: subscribe_leave_def Let_def nextHandler_def NewCompletion_def)
  have e: "r_entry r' = (r_entry r)(r_newEntry r := r_entry r' (r_newEntry r))" "e_subID (r_entry r' (r_newEntry r)) = i"
    using assms(3,4) by (auto simp: subscribe_leave_def Let_def nextHandler_def NewCompletion_def)
  have "r_byPattern r q = Some e \<Longrightarrow> e \<noteq> r_newEntry r" for q e using consistentD(2) [OF assms(1)] by blast
  then have "e_subID (r_entry r' e) = e_subID (r_entry r e)" if "r_byPattern r q = Some e" for q e
    using that e(1) by (metis fun_upd_apply)
  then show "ids_of r' = (ids_of r)(p \<mapsto> i)" unfolding ids_of_def 1 using e(2)
    by (auto simp: fun_eq_iff map_option_case split: option.splits)
qed

lemma registry_Subscribe_agrees:
  assumes w: "wires_ok sub unsub subs cnt" and q: "quiet r" and a: "agrees subs cnt s r"
    and call: "registry_Subscribe sub p h (s, r) = Some (res, s', r')"
  shows "quiet r' \<and> agrees subs cnt s' r'"
proof -
  have r: "consistent r" "\<not> r_restoring r" "r_pending r = {}" using q by (auto simp: quiet_def)
  obtain out r1 where e: "subscribe_enter p h r = (out, r1)" by (cases "subscribe_enter p h r")
  note ids = subscribe_enter_ids [OF e]
  have c1: "consistent r1" using subscribe_enter_consistent [OF r(1), of p h] e by simp
  show ?thesis
  proof (cases out)
    case (SubAttached i hid)
    then show ?thesis using call e r c1 ids a by (auto simp: registry_Subscribe_def quiet_def agrees_ids)
  next
    case SubMustWait
    then show ?thesis using call e r by (simp add: registry_Subscribe_def)
  next
    case SubMustCall
    have r1: "r_byPattern r1 p = None" "r_pending r1 = {p}" "r_bySubID r1 = r_bySubID r" using ids r(3) SubMustCall by auto
    from w have "(\<exists>i s'. sub p s = (Ok i, s') \<and> i \<notin> ran (subs s) \<and> subs s' = (subs s)(p \<mapsto> i) \<and> cnt s' = cnt s + 1) \<or>
        (\<exists>e s'. sub p s = (Err e, s') \<and> subs s' = subs s \<and> cnt s' = cnt s)" by (simp add: wires_ok_def)
    then show ?thesis
    proof (elim disjE exE conjE)
      fix i s1 assume i: "sub p s = (Ok i, s1)" "i \<notin> ran (subs s)" "subs s1 = (subs s)(p \<mapsto> i)" "cnt s1 = cnt s + 1"
      obtain out2 r2 where l: "subscribe_leave p h (Inr i) r1 = (out2, r2)" by (cases "subscribe_leave p h (Inr i) r1")
      have res: "s' = s1" "r' = r2" using call e r i(1) l SubMustCall by (auto simp: registry_Subscribe_def)
      have "r_bySubID r1 i = None" using fresh_id [OF r(1)] i(2) a r1(3) by (simp add: agrees_ids)
      note l' = subscribe_leave_ids [OF c1 r1(1) this l]
      have "consistent r2" using subscribe_leave_consistent [OF c1 r1(1), of h "Inr i"] l by simp
      moreover have "finite (dom (r_byPattern r))" "p \<notin> dom (r_byPattern r)" using consistentD(1) [OF r(1)] ids r1(1) by auto
      then have "card (dom (r_byPattern r2)) = card (dom (r_byPattern r)) + 1" using l'(1) ids by simp
      ultimately show ?thesis using l' r1 ids r a i unfolding res by (auto simp: quiet_def agrees_ids)
    next
      fix e' s1 assume i: "sub p s = (Err e', s1)" "subs s1 = subs s" "cnt s1 = cnt s"
      have res: "s' = s1" "r' = r1\<lparr>r_pending := {}\<rparr>" using call e r i(1) SubMustCall r1
        by (auto simp: registry_Subscribe_def subscribe_leave_Err)
      have "consistent r'" unfolding res by (rule consistent_cong [OF c1]) auto
      moreover have "ids_of r' = ids_of r1" by (simp add: res ids_of_def fun_eq_iff)
      ultimately show ?thesis using i r ids a res by (auto simp: quiet_def agrees_ids)
    qed
  qed
qed

lemma Complete_frame [simp]:
  "r_byPattern (Sub_Registry.Complete c e r) = r_byPattern r" "r_entry (Sub_Registry.Complete c e r) = r_entry r"
  "r_pending (Sub_Registry.Complete c e r) = r_pending r" "r_restoring (Sub_Registry.Complete c e r) = r_restoring r"
  "r_bySubID (Sub_Registry.Complete c e r) = r_bySubID r" "r_newEntry (Sub_Registry.Complete c e r) = r_newEntry r"
  by (simp_all add: Sub_Registry.Complete_def split: option.split)

lemma Unsubscribe_ids:
  assumes "Unsubscribe p hid r = (lst, r')"
  shows "r_pending r' = r_pending r" "r_restoring r' = r_restoring r"
    "r_byPattern r' = (if lst then (r_byPattern r)(p := None) else r_byPattern r)"
    "ids_of r' = (if lst then (ids_of r)(p := None) else ids_of r)"
    "lst \<Longrightarrow> p \<in> dom (r_byPattern r)"
  using assms by (auto simp: Unsubscribe_def ids_of_def fun_eq_iff map_option_case update_entry_def Let_def
      split: option.splits if_splits)

lemma release_handle_agrees:
  assumes w: "wires_ok sub unsub subs cnt" and q: "quiet (wt_registry w)" and a: "agrees subs cnt s (wt_registry w)"
    and add: "\<And>n s. cnt (api_addSubs c n s) = cnt s + n \<and> subs (api_addSubs c n s) = subs s"
    and call: "release_handle c (unsub (sub_pattern handle)) handle (s, w) = Some (res, s', w')"
  shows "quiet (wt_registry w') \<and> agrees subs cnt s' (wt_registry w')"
proof -
  have r: "consistent (wt_registry w)" "\<not> r_restoring (wt_registry w)" "r_pending (wt_registry w) = {}"
    using q by (auto simp: quiet_def)
  let ?p = "sub_pattern handle"
  obtain lst r1 where u: "Unsubscribe ?p (sub_handlerID handle) (wt_registry w) = (lst, r1)"
    by (cases "Unsubscribe ?p (sub_handlerID handle) (wt_registry w)")
  note ids = Unsubscribe_ids [OF u]
  have c1: "consistent r1" using Unsubscribe_consistent [OF r(1), of ?p "sub_handlerID handle"] u by simp
  then have q1: "quiet r1" using ids r by (simp add: quiet_def)
  show ?thesis
  proof (cases lst)
    case False
    then show ?thesis using call r u q1 ids a by (auto simp: release_handle_def agrees_ids)
  next
    case True
    obtain v s1 where v: "unsub ?p (api_addSubs c (-1) s) = (v, s1)" "v \<noteq> Panic"
        "subs s1 = (subs (api_addSubs c (-1) s))(?p := None)" "cnt s1 = cnt (api_addSubs c (-1) s)"
      using w unfolding wires_ok_def by metis
    have res: "s' = s1" "wt_registry w' = r1" using call r u v True by (auto simp: release_handle_def split: res.splits)
    have "finite (dom (r_byPattern (wt_registry w)))" using consistentD(1) [OF r(1)] .
    then have "card (dom (r_byPattern (wt_registry w))) = card (dom (r_byPattern r1)) + 1"
      using card.remove [OF _ ids(5) [OF True]] ids(3) True by (simp only: dom_fun_upd if_True refl Suc_eq_plus1)
    then show ?thesis using q1 ids(4) True a v(3,4) add unfolding res by (auto simp: agrees_ids)
  qed
qed

lemma wire_loop_Restored:
  assumes w: "wires_ok sub unsub subs cnt"
  shows "wire_loop sub ps acc s = (Ok (Restored ids), s') \<Longrightarrow> distinct ps \<Longrightarrow> distinct (map snd acc) \<Longrightarrow>
    \<exists>js. ids = acc @ zip ps js \<and> length js = length ps \<and> distinct (map snd ids) \<and> subs s' = subs s ++ map_of (zip ps js) \<and>
      cnt s' = cnt s + int (length ps)"
proof (induction ps arbitrary: acc s)
  case Nil
  then show ?case by simp
next
  case (Cons p ps)
  from w have "(\<exists>i s1. sub p s = (Ok i, s1) \<and> i \<notin> ran (subs s) \<and> subs s1 = (subs s)(p \<mapsto> i) \<and> cnt s1 = cnt s + 1) \<or>
      (\<exists>e s1. sub p s = (Err e, s1) \<and> subs s1 = subs s \<and> cnt s1 = cnt s)" by (simp add: wires_ok_def)
  then obtain i s1 where i: "sub p s = (Ok i, s1)" "subs s1 = (subs s)(p \<mapsto> i)" "cnt s1 = cnt s + 1"
    using Cons.prems(1) by auto
  then have step: "i \<notin> snd ` set acc" "wire_loop sub ps (acc @ [(p, i)]) s1 = (Ok (Restored ids), s')"
    using Cons.prems(1) by (auto split: if_splits)
  obtain js where js: "ids = (acc @ [(p, i)]) @ zip ps js" "length js = length ps" "distinct (map snd ids)"
      "subs s' = subs s1 ++ map_of (zip ps js)" "cnt s' = cnt s1 + int (length ps)"
    using Cons.IH [OF step(2)] Cons.prems(2,3) step(1) by (auto simp: image_iff)
  have "p \<notin> dom (map_of (zip ps js))" using Cons.prems(2) js(2) by simp
  then have "subs s' = subs s ++ map_of (zip (p # ps) (i # js))"
    using js(4) i(2) by (auto simp: fun_eq_iff map_add_def split: option.splits)
  moreover have "ids = acc @ zip (p # ps) (i # js)" "length (i # js) = length (p # ps)" using js(1,2) by simp_all
  moreover have "cnt s' = cnt s + int (length (p # ps))" using js(5) i(3) by simp
  ultimately show ?case using js(3) by blast
qed

lemma restore_begin_flag: "\<not> r_restoring r \<Longrightarrow> finishRestore (restore_begin r) = r"
  by (auto simp: restore_begin_def finishRestore_def)

lemma registry_Restore_agrees:
  assumes w: "wires_ok sub unsub subs cnt" and q: "quiet r" and fresh: "subs s = Map.empty" "cnt s = 0"
    and call: "registry_Restore sub undo (s, r) = Some (Ok (), s', r')"
  shows "quiet r' \<and> agrees subs cnt s' r'"
proof -
  have r: "consistent r" "\<not> r_restoring r" "r_pending r = {}" using q by (auto simp: quiet_def)
  show ?thesis
  proof (cases "r_byPattern r = Map.empty")
    case True
    then have "s' = s" "r' = finishRestore r" using call r by (auto simp: registry_Restore_def)
    moreover have "ids_of r = Map.empty" using True by (simp add: ids_of_def fun_eq_iff)
    ultimately show ?thesis using q fresh True r(2) by (simp add: finishRestore_def agrees_ids)
  next
    case False
    let ?r1 = "restore_begin r" and ?ps = "sorted_patterns r"
    have r1: "?r1 = r\<lparr>r_restoring := True\<rparr>" using False by (simp add: restore_begin_def)
    have ps: "sorted_patterns ?r1 = ?ps" "snapshot ?r1 = snapshot r" "r_byPattern ?r1 = r_byPattern r"
      by (simp_all add: r1 sorted_patterns_def snapshot_def)
    have c1: "consistent ?r1" using consistent_flag r(1) r1 by simp
    obtain ids where loop: "wire_loop sub ?ps [] s = (Ok (Restored ids), s')"
      and r': "r' = finishRestore (restore_commit (map (\<lambda>(p, i). (the (r_byPattern ?r1 p), i)) ids) ?r1)"
      using call r False ps(1) by (auto simp: registry_Restore_def Let_def split: prod.splits res.splits restore_wire.splits option.splits)
    have d: "distinct ?ps" "set ?ps = dom (r_byPattern r)" "length ?ps = card (dom (r_byPattern r))"
      using consistentD(1) [OF r(1)] by (simp_all add: sorted_patterns_def)
    obtain js where js: "ids = zip ?ps js" "length js = length ?ps" "distinct js" "subs s' = map_of (zip ?ps js)"
        "cnt s' = int (length ?ps)"
      using wire_loop_Restored [OF w loop d(1)] fresh by auto
    have sn: "map snd (snapshot r) = map (\<lambda>p. the (r_byPattern r p)) ?ps" "map fst (snapshot r) = ?ps"
      "length js = length (snapshot ?r1)" by (simp_all add: snapshot_def comp_def js(2) ps)
    have "map (\<lambda>(p, i). (the (r_byPattern ?r1 p), i)) ids = zip (map snd (snapshot ?r1)) js"
      unfolding js(1) ps(2) sn(1) by (simp add: r1 zip_map1)
    then have r'': "r' = finishRestore (restore_commit (zip (map snd (snapshot ?r1)) js) ?r1)" using r' by simp
    note commit = restore_commit_consistent [OF c1 sn(3) js(3)]
    let ?c = "restore_commit (zip (map snd (snapshot ?r1)) js) ?r1"
    have flag: "r' = ?c\<lparr>r_restoring := False\<rparr>" using r'' by (simp add: finishRestore_flag)
    have "r_pending ?c = {}" by (simp add: restore_commit_def fold_update_subID(4) r1 r(3) Let_def)
    then have "quiet r'" using consistent_flag [of ?c] commit(1) by (simp add: quiet_def flag)
    moreover have byp: "r_byPattern r' = r_byPattern r" using commit(2) by (simp add: flag r1)
    moreover have "ids_of r' p = map_of (zip ?ps js) p" for p
    proof (cases "p \<in> dom (r_byPattern r)")
      case False
      moreover have "map_of (zip ?ps js) p = None" using False d(2) js(2) by (auto simp: map_of_eq_None_iff dest: set_zip_leftD)
      ultimately show ?thesis by (simp add: ids_of_def byp domIff)
    next
      case True
      then obtain k where k: "k < length ?ps" "?ps ! k = p" using d(2) by (metis in_set_conv_nth)
      have "snd (snapshot ?r1 ! k) = the (r_byPattern r p)" using k by (simp add: snapshot_def ps(1,3))
      moreover have "k < length js" using k js(2) by simp
      ultimately have "ids_of r' p = Some (js ! k)" using commit(3) [of k] True
        by (auto simp: ids_of_def byp) (simp add: flag)
      moreover have "map_of (zip ?ps js) p = Some (js ! k)" using k js(2) d(1) by (metis map_of_zip_nth)
      ultimately show ?thesis by simp
    qed
    ultimately show ?thesis using js(4,5) d(3) by (auto simp: agrees_ids byp intro!: ext)
  qed
qed

section \<open>The four clients that name subscriptions by pattern\<close>

datatype watch_domain = KvWatch | QueueWatch | StreamWatch | ScheduleWatch

fun subscribeWire_of :: "watch_domain \<Rightarrow> 's conn_api \<Rightarrow> string \<Rightarrow> (u64, 's) op" where
  "subscribeWire_of KvWatch = kv_subscribeWire"
| "subscribeWire_of QueueWatch = queue_subscribeWire"
| "subscribeWire_of StreamWatch = stream_subscribeWire"
| "subscribeWire_of ScheduleWatch = schedule_subscribeWire"

fun sub_request :: "watch_domain \<Rightarrow> u16 \<times> (string \<Rightarrow> writer)" where
  "sub_request KvWatch = (MessageTypeKvSubscribe, kvPatternPayloadWriter)"
| "sub_request QueueWatch = (MessageTypeQueueSubscribe, queue_subscribePayloadWriter)"
| "sub_request StreamWatch = (MessageTypeStreamSubscribe, stream_subscribePayloadWriter)"
| "sub_request ScheduleWatch = (MessageTypeScheduleSubscribe, scheduleSubscribePayloadWriter)"

fun unsub_request :: "watch_domain \<Rightarrow> u16 \<times> (string \<Rightarrow> writer)" where
  "unsub_request KvWatch = (MessageTypeKvUnsubscribe, kvPatternPayloadWriter)"
| "unsub_request QueueWatch = (MessageTypeQueueUnsubscribe, queue_unsubscribePayloadWriter)"
| "unsub_request StreamWatch = (MessageTypeStreamUnsubscribe, stream_unsubscribePayloadWriter)"
| "unsub_request ScheduleWatch = (MessageTypeScheduleUnsubscribe, scheduleUnsubscribePayloadWriter)"

fun unsub_parser :: "watch_domain \<Rightarrow> bytes \<Rightarrow> (bool \<times> bytes) res" where
  "unsub_parser QueueWatch = parsePlainQueueResponse"
| "unsub_parser ScheduleWatch = ParsePlainResponse"
| "unsub_parser _ = ParseStandardResponse"

fun id_reply :: "watch_domain \<Rightarrow> u64 \<Rightarrow> bytes" where
  "id_reply KvWatch i = PutUint64 i"
| "id_reply _ i = 1 # PutUint64 i"

fun Subscribe_of :: "watch_domain \<Rightarrow> 's conn_api \<Rightarrow> ('s \<Rightarrow> 's) \<Rightarrow> string \<Rightarrow> nat \<Rightarrow> 's \<times> watch \<Rightarrow> (Subscription res \<times> 's \<times> watch) option"
where
  "Subscribe_of KvWatch = kv_Subscribe"
| "Subscribe_of QueueWatch = queue_Subscribe"
| "Subscribe_of StreamWatch = stream_Subscribe"
| "Subscribe_of ScheduleWatch = schedule_Subscribe"

fun unsubscribe_of :: "watch_domain \<Rightarrow> 's conn_api \<Rightarrow> Subscription \<Rightarrow> 's \<times> watch \<Rightarrow> (unit res \<times> 's \<times> watch) option" where
  "unsubscribe_of KvWatch = kv_unsubscribe"
| "unsubscribe_of QueueWatch = queue_unsubscribe"
| "unsubscribe_of StreamWatch = stream_unsubscribe"
| "unsubscribe_of ScheduleWatch = schedule_unsubscribe"

fun RestoreSubscriptions_of :: "watch_domain \<Rightarrow> 's conn_api \<Rightarrow> 's \<times> watch \<Rightarrow> (unit res \<times> 's \<times> watch) option" where
  "RestoreSubscriptions_of KvWatch = kv_RestoreSubscriptions"
| "RestoreSubscriptions_of QueueWatch = queue_RestoreSubscriptions"
| "RestoreSubscriptions_of StreamWatch = stream_RestoreSubscriptions"
| "RestoreSubscriptions_of ScheduleWatch = schedule_RestoreSubscriptions"

text \<open>
  Runs of a client: it starts on a session without subscriptions, and subscribes, releases any handle, hands
  notifications to handlers the connection may refuse, and reconnects to a new session whose subscriptions the restore
  makes anew. A failed restore leaves the registry as it was, for the restore on the next connection.
\<close>

inductive watch_run :: "watch_domain \<Rightarrow> 's conn_api \<Rightarrow> ('s \<Rightarrow> 's) \<Rightarrow> ('s \<Rightarrow> bool) \<Rightarrow> 's \<times> watch \<Rightarrow> bool" for d c register fresh where
  start: "fresh s \<Longrightarrow> watch_run d c register fresh (s, \<lparr>wt_registry = NewRegistry heap, wt_notify = False\<rparr>)"
| subscribe: "watch_run d c register fresh st \<Longrightarrow> Subscribe_of d c register p h st = Some (res, st') \<Longrightarrow>
    watch_run d c register fresh st'"
| unsubscribe: "watch_run d c register fresh st \<Longrightarrow> unsubscribe_of d c handle st = Some (res, st') \<Longrightarrow>
    watch_run d c register fresh st'"
| notified: "watch_run d c register fresh (s, w) \<Longrightarrow>
    notify_loop (\<lambda>reg n u. (accepted reg, u)) domain subID () regs ((), w) = (started, spawned, (), w') \<Longrightarrow>
    watch_run d c register fresh (s, w')"
| reconnected: "watch_run d c register fresh (s, w) \<Longrightarrow> fresh s0 \<Longrightarrow>
    RestoreSubscriptions_of d c (ReplaceConnection register s0 w) = Some (Ok (), st') \<Longrightarrow> watch_run d c register fresh st'"

lemma parse_zero: "ParseStandardResponse (0 # rest) = Ok (True, rest)"
  by (simp add: ParseStandardResponse_def)

lemma parse_zero_plain: "unsub_parser d (0 # rest) = Ok (True, rest)"
  by (cases d) (simp_all add: parse_zero parsePlainQueueResponse_def parseQueueResponse_def ParsePlainResponse_def)

lemma read_reply: "ReadU64BE (1 # PutUint64 i) (Suc 0) = Ok (i, 9)"
  using u64c.read_write [of "Suc 0" "1 # PutUint64 i" i "[]"] by simp

lemma subscribeWire_reply:
  assumes "api_send c (fst (sub_request d)) (snd (sub_request d) p) s = (Ok (0 # id_reply d i), s')"
  shows "subscribeWire_of d c p s = (Ok i, api_addSubs c 1 s')"
  using assms by (cases d) (simp_all add: kv_subscribeWire_def queue_subscribeWire_def stream_subscribeWire_def schedule_subscribeWire_def
      send_parse_def bind_op_def return_op_def parse_zero parsePlainQueueResponse_def parseQueueResponse_def ParsePlainResponse_def
      queue_parseSubscriptionID_def read_reply)

lemma subscribeWire_fails:
  assumes "api_send c (fst (sub_request d)) (snd (sub_request d) p) s = (Err e, s')"
  shows "\<exists>e'. subscribeWire_of d c p s = (Err e', s')"
  using assms by (cases d) (simp_all add: kv_subscribeWire_def queue_subscribeWire_def stream_subscribeWire_def schedule_subscribeWire_def
      send_parse_def bind_op_def)

definition unsubWire_of :: "watch_domain \<Rightarrow> 's conn_api \<Rightarrow> string \<Rightarrow> (unit, 's) op" where
  "unsubWire_of d c p = send_checked c (unsub_parser d) (fst (unsub_request d)) (snd (unsub_request d) p)"

lemma broker_wires:
  assumes "broker_serves c register (sub_request d) (unsub_request d) (id_reply d) subs cnt"
  shows "wires_ok (subscribeWire_of d c) (unsubWire_of d c) subs cnt"
proof -
  have add: "cnt (api_addSubs c n s) = cnt s + n \<and> subs (api_addSubs c n s) = subs s" for n s
    using assms by (simp add: broker_serves_def)
  show ?thesis
    unfolding wires_ok_def
  proof (intro conjI allI)
    fix p s
    obtain r s' where r: "api_send c (fst (sub_request d)) (snd (sub_request d) p) s = (r, s')" "cnt s' = cnt s"
      "(\<exists>i. r = Ok (0 # id_reply d i) \<and> i \<notin> ran (subs s) \<and> subs s' = (subs s)(p \<mapsto> i)) \<or> (\<exists>e. r = Err e \<and> subs s' = subs s)"
      using assms unfolding broker_serves_def by metis
    then show "(\<exists>i s'. subscribeWire_of d c p s = (Ok i, s') \<and> i \<notin> ran (subs s) \<and> subs s' = (subs s)(p \<mapsto> i) \<and> cnt s' = cnt s + 1) \<or>
       (\<exists>e s'. subscribeWire_of d c p s = (Err e, s') \<and> subs s' = subs s \<and> cnt s' = cnt s)"
      using subscribeWire_reply [of c d p s] subscribeWire_fails [of c d p s] add by fastforce
  next
    fix p s
    obtain rest s' where "api_send c (fst (unsub_request d)) (snd (unsub_request d) p) s = (Ok (0 # rest), s')" "cnt s' = cnt s"
      "subs s' = (subs s)(p := None)" using assms unfolding broker_serves_def by metis
    then show "\<exists>r s'. unsubWire_of d c p s = (r, s') \<and> r \<noteq> Panic \<and> subs s' = (subs s)(p := None) \<and> cnt s' = cnt s"
      by (simp add: unsubWire_of_def send_checked_def bind_op_def return_op_def parse_zero_plain)
  qed
qed

lemma Subscribe_of_cases:
  assumes "Subscribe_of d c register p h st = Some (res, st')"
  shows "st' = st \<or> st' = initNotifyHandler register st \<or>
    (\<exists>res'. subscribe_handle (subscribeWire_of d c) p h (initNotifyHandler register st) = Some (res', st'))"
  using assms by (cases d) (auto simp: kv_Subscribe_def queue_Subscribe_def stream_Subscribe_def schedule_Subscribe_def when_valid_def
      split: res.splits)

lemma unsubscribe_of_release: "unsubscribe_of d c handle = release_handle c (unsubWire_of d c (sub_pattern handle)) handle"
  by (cases d) (simp_all add: fun_eq_iff unsubWire_of_def kv_unsubscribe_def queue_unsubscribe_def stream_unsubscribe_def schedule_unsubscribe_def)

lemma RestoreSubscriptions_of_watch: "\<exists>undo. RestoreSubscriptions_of d c = restore_watch (subscribeWire_of d c) undo"
  by (cases d) (auto simp: kv_RestoreSubscriptions_def queue_RestoreSubscriptions_def stream_RestoreSubscriptions_def
      schedule_RestoreSubscriptions_def)

lemma notify_loop_registry:
  "notify_loop launch domain subID notif regs (s, w) = (started, spawned, s', w') \<Longrightarrow> quiet (wt_registry w) \<Longrightarrow>
   quiet (wt_registry w') \<and> ids_of (wt_registry w') = ids_of (wt_registry w) \<and>
   r_byPattern (wt_registry w') = r_byPattern (wt_registry w)"
proof (induction regs arbitrary: s w started spawned)
  case (Cons reg regs)
  obtain b s1 where l: "launch reg notif s = (b, s1)" by (cases "launch reg notif s")
  let ?r = "if b then wt_registry w
    else Sub_Registry.Complete (reg_completion reg) (Some (AsyncOverflow domain subID)) (wt_registry w)"
  have "quiet ?r" using Cons.prems(2) by (auto simp: quiet_def intro: consistent_cong)
  moreover have "ids_of ?r = ids_of (wt_registry w)" by (simp add: ids_of_def fun_eq_iff)
  moreover obtain st1 sp1 where "notify_loop launch domain subID notif regs (s1, w\<lparr>wt_registry := ?r\<rparr>) = (st1, sp1, s', w')"
    using Cons.prems(1) l by (cases b) (auto split: prod.splits)
  ultimately show ?case using Cons.IH [of s1 "w\<lparr>wt_registry := ?r\<rparr>"] by (auto split: if_splits)
qed auto

lemma initNotifyHandler_keeps:
  assumes "\<And>s. cnt (register s) = cnt s \<and> subs (register s) = subs s"
  shows "cnt (fst (initNotifyHandler register st)) = cnt (fst st) \<and> subs (fst (initNotifyHandler register st)) = subs (fst st) \<and>
    wt_registry (snd (initNotifyHandler register st)) = wt_registry (snd st)"
  using assms by (simp add: initNotifyHandler_def split: prod.split)

lemma watch_run_agrees:
  assumes b: "broker_serves c register (sub_request d) (unsub_request d) (id_reply d) subs cnt"
    and run: "watch_run d c register (\<lambda>s. subs s = Map.empty \<and> cnt s = 0) st"
  shows "quiet (wt_registry (snd st)) \<and> agrees subs cnt (fst st) (wt_registry (snd st))"
  using run
proof induction
  case (start s heap)
  have "ids_of (NewRegistry heap) = Map.empty" by (simp add: ids_of_def NewRegistry_def fun_eq_iff)
  then show ?case using start NewRegistry_consistent by (simp add: quiet_def agrees_ids) (simp add: NewRegistry_def)
next
  case (subscribe st p h res st')
  have reg: "\<And>s. cnt (register s) = cnt s \<and> subs (register s) = subs s" using b by (simp add: broker_serves_def)
  let ?st = "initNotifyHandler register st"
  have st: "quiet (wt_registry (snd ?st))" "agrees subs cnt (fst ?st) (wt_registry (snd ?st))"
    using subscribe.IH initNotifyHandler_keeps [of cnt register subs, OF reg, of st] by (simp_all add: agrees_ids)
  from Subscribe_of_cases [OF subscribe.hyps(2)] show ?case
  proof (elim disjE exE)
    fix res' assume "subscribe_handle (subscribeWire_of d c) p h ?st = Some (res', st')"
    then obtain out where "registry_Subscribe (subscribeWire_of d c) p h (fst ?st, wt_registry (snd ?st)) =
        Some (out, fst st', wt_registry (snd st'))"
      by (auto simp: subscribe_handle_def split: prod.splits)
    from registry_Subscribe_agrees [OF broker_wires [OF b] st this] show ?case .
  qed (use subscribe.IH st in simp_all)
next
  case (unsubscribe st handle res st')
  have add: "\<And>n s. cnt (api_addSubs c n s) = cnt s + n \<and> subs (api_addSubs c n s) = subs s"
    using b by (simp add: broker_serves_def)
  have "release_handle c (unsubWire_of d c (sub_pattern handle)) handle (fst st, snd st) = Some (res, fst st', snd st')"
    using unsubscribe.hyps(2) by (simp add: unsubscribe_of_release)
  from release_handle_agrees [OF broker_wires [OF b] _ _ add this] show ?case using unsubscribe.IH by blast
next
  case (notified s w accepted domain subID regs started spawned w')
  from notify_loop_registry [OF notified.hyps(2)] show ?case using notified.IH by (simp add: agrees_ids)
next
  case (reconnected s w s0 st')
  have reg: "\<And>s. cnt (register s) = cnt s \<and> subs (register s) = subs s" using b by (simp add: broker_serves_def)
  obtain undo where u: "RestoreSubscriptions_of d c = restore_watch (subscribeWire_of d c) undo"
    using RestoreSubscriptions_of_watch by blast
  let ?s = "if wt_notify w then register s0 else s0"
  have "registry_Restore (subscribeWire_of d c) undo (?s, wt_registry w) = Some (Ok (), fst st', wt_registry (snd st'))"
    using reconnected.hyps(3) by (auto simp: u restore_watch_def ReplaceConnection_def split: prod.splits)
  moreover have "subs ?s = Map.empty" "cnt ?s = 0" using reconnected.hyps(2) reg by simp_all
  ultimately show ?case using registry_Restore_agrees [OF broker_wires [OF b]] reconnected.IH by auto
qed

text \<open>C8: Client and broker agree on subscriptions. Whatever sequence of subscriptions, releases, overflowing
  notifications and reconnects a key-value, queue, stream or schedule client goes through, with a broker that answers
  SUBSCRIBE and UNSUBSCRIBE as documented, the broker holds exactly the patterns of the client's registry, each under the id
  the registry dispatches its notifications by, and the connection counts as many subscriptions.\<close>

theorem subscriptions_agree:
  assumes "broker_serves c register (sub_request d) (unsub_request d) (id_reply d) subs cnt"
    and "watch_run d c register (\<lambda>s. subs s = Map.empty \<and> cnt s = 0) (s, w)"
  shows "consistent (wt_registry w) \<and>
    (\<forall>p. subs s p = map_option (\<lambda>e. e_subID (r_entry (wt_registry w) e)) (r_byPattern (wt_registry w) p)) \<and>
    cnt s = int (card (dom (r_byPattern (wt_registry w))))"
  using watch_run_agrees [OF assms] by (simp add: quiet_def agrees_def)

section \<open>A broker in memory\<close>

text \<open>Sessions of a broker that numbers subscriptions; it knows a pattern by the payload of its request.\<close>

record broker_session =
  b_held :: "(bytes \<times> u64) list"
  b_next :: u64
  b_count :: int

definition memory_broker :: "u16 \<Rightarrow> u16 \<Rightarrow> (u64 \<Rightarrow> bytes) \<Rightarrow> broker_session conn_api" where
  "memory_broker tsub tunsub reply = \<lparr>
     api_request = (\<lambda>t f w s.
       if t = tsub then
         if b_next s \<in> snd ` set (b_held s) then (Err ErrConnectionClosed, s)
         else (Ok (0 # reply (b_next s)), s\<lparr>b_held := (w [], b_next s) # b_held s, b_next := b_next s + 1\<rparr>)
       else if t = tunsub then (Ok [0], s\<lparr>b_held := [x \<leftarrow> b_held s. fst x \<noteq> w []]\<rparr>)
       else (Err ErrConnectionClosed, s)),
     api_oneway = (\<lambda>t w s. (Ok (), s)), api_supports = (\<lambda>i s. False), api_live = (\<lambda>s. None), api_ctxErr = (\<lambda>s. None),
     api_wait = (\<lambda>k s. (None, s)), api_addSubs = (\<lambda>n s. s\<lparr>b_count := b_count s + n\<rparr>), api_retry = None\<rparr>"

definition held_patterns :: "(string \<Rightarrow> writer) \<Rightarrow> broker_session \<Rightarrow> string \<rightharpoonup> u64" where
  "held_patterns w s p = map_of (b_held s) (w p [])"

lemma map_of_filter_key: "map_of [x \<leftarrow> xs. fst x \<noteq> k] q = (if q = k then None else map_of xs q)"
  by (induction xs) auto

lemma memory_broker_serves:
  assumes "tsub \<noteq> tunsub" and inj: "\<And>p q. w p [] = w q [] \<Longrightarrow> p = q"
  shows "broker_serves (memory_broker tsub tunsub reply) (\<lambda>s. s) (tsub, w) (tunsub, w) reply (held_patterns w) b_count"
proof -
  have "ran (held_patterns w s) \<subseteq> snd ` set (b_held s)" for s
    by (auto simp: held_patterns_def ran_def dest!: map_of_SomeD) force
  then show ?thesis
    using assms(1) by (auto simp: broker_serves_def memory_broker_def api_send_def held_patterns_def fun_eq_iff map_of_filter_key dest: inj)
qed

lemma route_payload_inj: "enc_WriteRoute p [] = enc_WriteRoute q [] \<Longrightarrow> p = q"
  by (drule arg_cong [where f = "drop 4"], drule arg_cong [where f = string_of_bytes])
    (simp add: enc_WriteRoute_def enc_WriteString_def WriteU32BE_def)

definition new_watch :: watch where
  "new_watch = \<lparr>wt_registry = NewRegistry (\<lambda>_. blank_entry), wt_notify = False\<rparr>"

definition new_session :: "u64 \<Rightarrow> broker_session" where
  "new_session n = \<lparr>b_held = [], b_next = n, b_count = 0\<rparr>"

theorem subscriptions_agree_witness:
  "\<exists>s w. watch_run KvWatch (memory_broker MessageTypeKvSubscribe MessageTypeKvUnsubscribe PutUint64) (\<lambda>s. s)
       (\<lambda>s. held_patterns kvPatternPayloadWriter s = Map.empty \<and> b_count s = 0) (s, w) \<and>
     r_byPattern (wt_registry w) ''kv://a/b/c'' = Some 0 \<and> b_count s = int (card (dom (r_byPattern (wt_registry w)))) \<and>
     held_patterns kvPatternPayloadWriter s ''kv://a/b/c'' = Some (e_subID (r_entry (wt_registry w) 0))"
proof -
  let ?c = "memory_broker MessageTypeKvSubscribe MessageTypeKvUnsubscribe PutUint64"
  let ?fresh = "\<lambda>s. held_patterns kvPatternPayloadWriter s = Map.empty \<and> b_count s = 0"
  have reply: "id_reply KvWatch = PutUint64" by (rule ext) simp
  have serves: "broker_serves ?c (\<lambda>s. s) (sub_request KvWatch) (unsub_request KvWatch) (id_reply KvWatch)
      (held_patterns kvPatternPayloadWriter) b_count"
    using memory_broker_serves [of MessageTypeKvSubscribe MessageTypeKvUnsubscribe kvPatternPayloadWriter PutUint64] route_payload_inj
    by (simp add: kvPatternPayloadWriter_def reply)
  have "scans ''kv://a/b/c'' ''kv'' [''a'', ''b'', ''c'']" by (simp add: scans_def seg_ok_def wild_def)
  from scans_scanRoute [OF this] have v: "ValidateRegistrationPattern ''kv://a/b/c'' ''kv'' 3 = Ok ()"
    by (simp add: ValidateRegistrationPattern_def shape_of_def first_wild_def wild_def)
  have "watch_run KvWatch ?c (\<lambda>s. s) ?fresh (new_session 5, new_watch)"
    unfolding new_watch_def by (rule watch_run.start) (simp add: held_patterns_def fun_eq_iff new_session_def)
  moreover have "\<exists>sub s w. kv_Subscribe ?c (\<lambda>s. s) ''kv://a/b/c'' 3 (new_session 5, new_watch) = Some (Ok sub, s, w) \<and>
      r_byPattern (wt_registry w) ''kv://a/b/c'' = Some 0"
    by (simp add: kv_Subscribe_def when_valid_def v subscribe_handle_def registry_Subscribe_def initNotifyHandler_def new_watch_def
        NewRegistry_def subscribe_enter_def kv_subscribeWire_def api_send_def memory_broker_def new_session_def bind_op_def
        return_op_def parse_zero subscribe_leave_def nextHandler_def NewCompletion_def)
  then obtain sub s w where "Subscribe_of KvWatch ?c (\<lambda>s. s) ''kv://a/b/c'' 3 (new_session 5, new_watch) = Some (Ok sub, (s, w))"
    and p: "r_byPattern (wt_registry w) ''kv://a/b/c'' = Some 0" by auto
  ultimately have run: "watch_run KvWatch ?c (\<lambda>s. s) ?fresh (s, w)" using watch_run.subscribe by blast
  from subscriptions_agree [OF serves this] p show ?thesis using run by (intro exI [of _ s] exI [of _ w]) simp
qed

section \<open>Notice subscriptions after a reconnect\<close>

text \<open>The Notice broker removes a subscription by its id.\<close>

definition notice_broker :: "broker_session conn_api" where
  "notice_broker = (memory_broker MessageTypeNoticeSubscribe MessageTypeNoticeUnsubscribe (\<lambda>i. 1 # PutUint64 i))
     \<lparr>api_request := (\<lambda>t f w s.
       if t = MessageTypeNoticeSubscribe
       then (Ok (0 # 1 # PutUint64 (b_next s)), s\<lparr>b_held := (w [], b_next s) # b_held s, b_next := b_next s + 1\<rparr>)
       else if t = MessageTypeNoticeUnsubscribe then (Ok [0], s\<lparr>b_held := [x \<leftarrow> b_held s. PutUint64 (snd x) \<noteq> w []]\<rparr>)
       else (Err ErrConnectionClosed, s))\<rparr>"

lemma notice_subscribeWire_broker:
  "notice_subscribeWire notice_broker p s =
     (Ok (b_next s), s\<lparr>b_held := (enc_WriteRoute p [], b_next s) # b_held s, b_next := b_next s + 1, b_count := b_count s + 1\<rparr>)"
  by (simp add: notice_subscribeWire_def notice_broker_def memory_broker_def send_parse_def api_send_def bind_op_def return_op_def
      parse_zero read_reply notice_subscribePayloadWriter_def)

lemma notice_valid:
  "ValidateRegistrationPattern ''notice://a'' ''notice'' 0 = Ok ()" "ValidateRegistrationPattern ''notice://b'' ''notice'' 0 = Ok ()"
proof -
  have "scans ''notice://a'' ''notice'' [''a'']" "scans ''notice://b'' ''notice'' [''b'']" by (simp_all add: scans_def seg_ok_def wild_def)
  from this [THEN scans_scanRoute]
  show "ValidateRegistrationPattern ''notice://a'' ''notice'' 0 = Ok ()" "ValidateRegistrationPattern ''notice://b'' ''notice'' 0 = Ok ()"
    by (simp_all add: ValidateRegistrationPattern_def shape_of_def first_wild_def wild_def)
qed

definition notice_entry :: "string \<Rightarrow> u64 \<Rightarrow> u64 \<Rightarrow> nat \<Rightarrow> nat \<Rightarrow> entry" where
  "notice_entry p i hid h c = \<lparr>e_pattern = p, e_subID = i, e_handlers = [hid \<mapsto>
     \<lparr>reg_pattern = p, reg_handlerID = hid, reg_handler = h, reg_completion = c\<rparr>]\<rparr>"

definition b_then_a :: "u64 \<Rightarrow> u64 \<Rightarrow> watch" where
  "b_then_a i j = \<lparr>wt_registry = \<lparr>r_byPattern = [''notice://b'' \<mapsto> 0, ''notice://a'' \<mapsto> 1], r_bySubID = [i \<mapsto> 0, j \<mapsto> 1],
     r_entry = (\<lambda>_. blank_entry)(0 := notice_entry ''notice://b'' i 1 0 0, 1 := notice_entry ''notice://a'' j 2 1 1), r_newEntry = 2,
     r_pending = {}, r_restoring = False, r_nextHandlerID = 2, r_completion = (\<lambda>_. None), r_newCompletion = 2\<rparr>, wt_notify = True\<rparr>"

definition handle_b :: Subscription where
  "handle_b = \<lparr>sub_subID = 1, sub_handlerID = 1, sub_pattern = ''notice://b'', sub_completion = Some 0\<rparr>"

lemma b_then_a_run:
  "\<exists>st1 s2 h. notice_Subscribe notice_broker (\<lambda>s. s) ''notice://b'' 0 (new_session 1, new_watch) = Some (Ok handle_b, st1) \<and>
     notice_Subscribe notice_broker (\<lambda>s. s) ''notice://a'' 1 st1 = Some (Ok h, s2, b_then_a 1 2)"
  by (simp add: notice_Subscribe_def when_valid_def notice_valid subscribe_handle_def registry_Subscribe_def initNotifyHandler_def
      new_watch_def NewRegistry_def subscribe_enter_def notice_subscribeWire_broker new_session_def subscribe_leave_def nextHandler_def
      NewCompletion_def handle_b_def Completion_def b_then_a_def notice_entry_def fun_eq_iff)

lemma b_then_a_sorted: "sorted_patterns (restore_begin (wt_registry (b_then_a i j))) = [''notice://a'', ''notice://b'']"
proof -
  have "dom (r_byPattern (restore_begin (wt_registry (b_then_a i j)))) = {''notice://a'', ''notice://b''}"
    by (auto simp: restore_begin_def b_then_a_def split: if_splits)
  moreover have "''notice://a'' < ''notice://b''" by (simp add: less_char_def)
  ultimately show ?thesis by (simp add: sorted_patterns_def)
qed

definition restored_session :: broker_session where
  "restored_session = \<lparr>b_held = [(enc_WriteRoute ''notice://b'' [], 2), (enc_WriteRoute ''notice://a'' [], 1)], b_next = 3, b_count = 2\<rparr>"

lemma b_then_a_restored:
  "notice_RestoreSubscriptions notice_broker (ReplaceConnection (\<lambda>s. s) (new_session 1) (b_then_a 1 2)) =
     Some (Ok (), restored_session, b_then_a 2 1)"
proof -
  let ?r1 = "restore_begin (wt_registry (b_then_a 1 2))"
  have flags: "\<not> r_restoring (wt_registry (b_then_a 1 2))" "r_pending (wt_registry (b_then_a 1 2)) = {}"
    "r_byPattern (wt_registry (b_then_a 1 2)) \<noteq> Map.empty" by (simp_all add: b_then_a_def fun_eq_iff) auto
  have loop: "wire_loop (notice_subscribeWire notice_broker) [''notice://a'', ''notice://b''] [] (new_session 1) =
      (Ok (Restored [(''notice://a'', 1), (''notice://b'', 2)]), restored_session)"
    by (simp add: notice_subscribeWire_broker new_session_def restored_session_def)
  have commit: "finishRestore (restore_commit (map (\<lambda>(p, i). (the (r_byPattern ?r1 p), i)) [(''notice://a'', 1), (''notice://b'', 2)]) ?r1) =
      wt_registry (b_then_a 2 1)"
    using flags(3) by (simp add: restore_begin_def finishRestore_def restore_commit_def update_entry_def)
      (auto simp: b_then_a_def notice_entry_def fun_eq_iff)
  have w: "(b_then_a 1 2)\<lparr>wt_registry := wt_registry (b_then_a 2 1)\<rparr> = b_then_a 2 1" by (simp add: b_then_a_def)
  have "registry_Restore (notice_subscribeWire notice_broker) (\<lambda>_ subID. notice_rollbackWire notice_broker subID)
      (new_session 1, wt_registry (b_then_a 1 2)) = Some (Ok (), restored_session, wt_registry (b_then_a 2 1))"
    using flags commit by (simp add: registry_Restore_def b_then_a_sorted loop Let_def del: wire_loop.simps)
  then show ?thesis by (simp add: notice_RestoreSubscriptions_def restore_watch_def ReplaceConnection_def w)
qed

lemma PutUint64_inj: "PutUint64 i = PutUint64 j \<longleftrightarrow> i = j"
  by (metis Uint_Put_Nil(3) res.inject(1))

lemma stale_unsubscribe:
  "\<exists>w. notice_unsubscribe notice_broker handle_b (restored_session, b_then_a 2 1) =
       Some (Ok (), restored_session\<lparr>b_held := [(enc_WriteRoute ''notice://b'' [], 2)], b_count := 1\<rparr>, w) \<and>
     r_byPattern (wt_registry w) = [''notice://a'' \<mapsto> 1]"
  by (simp add: notice_unsubscribe_def release_handle_def handle_b_def b_then_a_def Unsubscribe_def notice_entry_def
      Sub_Registry.Complete_def update_entry_def send_checked_def notice_broker_def memory_broker_def api_send_def
      notice_unsubscribePayloadWriter_def bind_op_def return_op_def parse_zero restored_session_def enc_WriteU64_def WriteU64BE_def PutUint64_inj
      fun_eq_iff)

text \<open>C27: A Notice handle outlives its id. A client subscribes to two patterns, reconnects, and its subscriptions are restored, in
  the order of the patterns and so under other ids than before. Releasing the handle of the first subscription then
  sends the id it was created with, which now names the other pattern: the broker drops the pattern the client still
  has a handler for and keeps the one it released.\<close>

theorem notice_handle_goes_stale:
  "\<exists>st1 s2 w2 h st3 s w. notice_Subscribe notice_broker (\<lambda>s. s) ''notice://b'' 0 (new_session 1, new_watch) = Some (Ok handle_b, st1) \<and>
     notice_Subscribe notice_broker (\<lambda>s. s) ''notice://a'' 1 st1 = Some (Ok h, s2, w2) \<and>
     notice_RestoreSubscriptions notice_broker (ReplaceConnection (\<lambda>s. s) (new_session 1) w2) = Some (Ok (), st3) \<and>
     notice_unsubscribe notice_broker handle_b st3 = Some (Ok (), s, w) \<and>
     dom (r_byPattern (wt_registry w)) = {''notice://a''} \<and>
     held_patterns enc_WriteRoute s ''notice://a'' = None \<and> held_patterns enc_WriteRoute s ''notice://b'' \<noteq> None"
proof -
  obtain st1 s2 h where 1: "notice_Subscribe notice_broker (\<lambda>s. s) ''notice://b'' 0 (new_session 1, new_watch) = Some (Ok handle_b, st1)"
    "notice_Subscribe notice_broker (\<lambda>s. s) ''notice://a'' 1 st1 = Some (Ok h, s2, b_then_a 1 2)" using b_then_a_run by blast
  obtain w where w: "notice_unsubscribe notice_broker handle_b (restored_session, b_then_a 2 1) =
       Some (Ok (), restored_session\<lparr>b_held := [(enc_WriteRoute ''notice://b'' [], 2)], b_count := 1\<rparr>, w)"
     "r_byPattern (wt_registry w) = [''notice://a'' \<mapsto> 1]" using stale_unsubscribe by blast
  have "enc_WriteRoute ''notice://a'' [] \<noteq> enc_WriteRoute ''notice://b'' []" using route_payload_inj by blast
  then have h: "held_patterns enc_WriteRoute (restored_session\<lparr>b_held := [(enc_WriteRoute ''notice://b'' [], 2)], b_count := 1\<rparr>) ''notice://a'' = None"
    "held_patterns enc_WriteRoute (restored_session\<lparr>b_held := [(enc_WriteRoute ''notice://b'' [], 2)], b_count := 1\<rparr>) ''notice://b'' \<noteq> None"
    by (simp_all add: held_patterns_def)
  have d: "dom (r_byPattern (wt_registry w)) = {''notice://a''}" using w(2) by simp
  show ?thesis using 1 b_then_a_restored w(1) d h by blast
qed

end
