(* ===== verification/Rpc_Domain.thy ===== *)
theory Rpc_Domain
  imports Layout_Tools Routes Go_Strings "HOL-Library.Product_Lexorder" "HOL-Library.List_Lexorder" "HOL-Library.Char_ord"
begin

text \<open>
  The RPC client: request and response payloads (\<^verbatim>\<open>internal/domains/rpc/protocol.go\<close>), the queue of response frames of a
  call, the choice of a worker for an inbound request, the frames a worker sends, and worker registration
  (\<^verbatim>\<open>internal/domains/rpc/rpc.go\<close>). A correlation id is its 16 bytes.
\<close>

unbundle bit_operations_syntax

section \<open>Errors\<close>

definition ErrNoWorkers :: go_error where "ErrNoWorkers = Sentinel ''no workers available''"
definition ErrRPCTimeout :: go_error where "ErrRPCTimeout = Sentinel ''rpc timeout''"
definition ErrRPCBackpressure :: go_error where "ErrRPCBackpressure = Sentinel ''rpc backpressure''"

definition mapRPCError :: "go_error \<Rightarrow> go_error" where
  "mapRPCError err =
     (case errors_As_domain err of
        Some domainErr \<Rightarrow>
          if de_code domainErr = RpcTimeout then Errorf2 ErrRPCTimeout err
          else if de_code domainErr = RpcWorkerNotFound \<or> de_code domainErr = RpcRouteNotRegistered then Errorf2 ErrNoWorkers err
          else if de_code domainErr = RpcBackpressure then Errorf2 ErrRPCBackpressure err
          else err
      | None \<Rightarrow> err)"

section \<open>Payloads\<close>

type_synonym corr_id = bytes

definition encodeRPCSubscribeWorker :: "string \<Rightarrow> u32 \<Rightarrow> bytes" where
  "encodeRPCSubscribeWorker workerRoute maxConcurrent =
     EncodeWithBuffer (write_seq [enc_WriteRoute workerRoute, enc_WriteU32 maxConcurrent])"

definition encodeRPCUnsubscribeWorker :: "string \<Rightarrow> bytes" where
  "encodeRPCUnsubscribeWorker workerRoute = EncodeWithBuffer (enc_WriteRoute workerRoute)"

definition encodeRPCRequest :: "corr_id \<Rightarrow> string \<Rightarrow> string \<Rightarrow> bytes \<Rightarrow> bytes" where
  "encodeRPCRequest correlationID route replyRoute body =
     EncodeWithBuffer (write_seq [enc_WriteBytesRaw correlationID, enc_WriteRoute route, enc_WriteBytes body])"

definition rpcSubscribeWorkerPayloadWriterWithCancellation :: "string \<Rightarrow> u32 \<Rightarrow> bool \<Rightarrow> writer" where
  "rpcSubscribeWorkerPayloadWriterWithCancellation workerRoute maxConcurrent supportsCancellation = write_seq
     [enc_WriteRoute workerRoute, enc_WriteU32 maxConcurrent, WriteByte (if supportsCancellation then 1 else 0)]"

definition rpcSubscribeWorkerPayloadWriter :: "string \<Rightarrow> u32 \<Rightarrow> writer" where
  "rpcSubscribeWorkerPayloadWriter workerRoute maxConcurrent =
     rpcSubscribeWorkerPayloadWriterWithCancellation workerRoute maxConcurrent False"

definition rpcUnsubscribeWorkerPayloadWriter :: "string \<Rightarrow> writer" where
  "rpcUnsubscribeWorkerPayloadWriter workerRoute = enc_WriteRoute workerRoute"

definition rpcRequestPayloadWriterWithBudget :: "corr_id \<Rightarrow> string \<Rightarrow> string \<Rightarrow> bytes \<Rightarrow> u32 option \<Rightarrow> writer" where
  "rpcRequestPayloadWriterWithBudget correlationID route replyRoute body remainingBudgetMS = write_seq
     ([enc_WriteBytesRaw correlationID, enc_WriteRoute route, enc_WriteBytes body] @
      (case remainingBudgetMS of Some ms \<Rightarrow> [WriteByte 1, enc_WriteU32 ms] | None \<Rightarrow> [WriteByte 0]))"

definition rpcCallerCancellationPayloadWriter :: "corr_id \<Rightarrow> u8 \<Rightarrow> writer" where
  "rpcCallerCancellationPayloadWriter correlationID reason = write_seq [WriteByte 1, enc_WriteBytesRaw correlationID, WriteByte reason]"

definition rpcWorkerCleanupAckPayloadWriter :: "corr_id \<Rightarrow> writer" where
  "rpcWorkerCleanupAckPayloadWriter correlationID = write_seq [WriteByte 3, enc_WriteBytesRaw correlationID]"

definition rpcResponsePayloadWriter :: "corr_id \<Rightarrow> u64 \<Rightarrow> bytes \<Rightarrow> bool \<Rightarrow> writer" where
  "rpcResponsePayloadWriter correlationID sq body streamEnd = write_seq
     [enc_WriteBytesRaw correlationID, enc_WriteU64 sq, WriteByte (if streamEnd then 1 else 0), enc_WriteBytes body]"

definition encodeRPCResponse :: "corr_id \<Rightarrow> u64 \<Rightarrow> bytes \<Rightarrow> bool \<Rightarrow> bytes" where
  "encodeRPCResponse correlationID sq body streamEnd = EncodeWithBuffer (rpcResponsePayloadWriter correlationID sq body streamEnd)"

record decodedRPCResponse =
  dr_sequence :: u64
  dr_streamEnd :: bool
  dr_body :: bytes

text \<open>\<open>%#x\<close> of a byte.\<close>

definition hex_flags :: "u8 \<Rightarrow> string" where
  "hex_flags b = ''0x'' @ (if b < 16 then [hex_digit (unat b)] else [hex_digit (unat b div 16), hex_digit (unat b mod 16)])"

definition decodeRPCResponsePayload :: "bytes \<Rightarrow> decodedRPCResponse res" where
  "decodeRPCResponsePayload payload =
     (if length payload < 13 then Err (ErrNew (''response is too short: '' @ dec (length payload) @ '' bytes''))
      else bind_res (bind_res (slice payload 0 8) Uint64) (\<lambda>sq.
           bind_res (index payload 8) (\<lambda>flags.
             if flags AND NOT 1 \<noteq> 0 then Err (ErrNew (''unsupported response flags: '' @ hex_flags flags))
             else bind_res (bind_res (slice payload 9 13) Uint32) (\<lambda>bodyLen.
               if unat bodyLen \<noteq> length payload - 13
               then Err (ErrNew (''response body length '' @ dec (unat bodyLen) @ '' does not match remaining bytes '' @
                      dec (length payload - 13)))
               else bind_res (slice_from payload 13) (\<lambda>body.
                 Ok \<lparr>dr_sequence = sq, dr_streamEnd = (flags AND 1 \<noteq> 0), dr_body = body\<rparr>)))))"

definition decodeRPCRequestBudget :: "bytes \<Rightarrow> u32 option res" where
  "decodeRPCRequestBudget extension =
     (if length extension = 1 \<and> extension ! 0 = 0 then Ok None
      else if length extension \<noteq> 5 \<or> extension ! 0 \<noteq> 1 then Err (ErrNew ''invalid RPC request budget extension'')
      else bind_res (bind_res (slice_from extension 1) Uint32) (\<lambda>remaining.
             if remaining > 86400000 then Err (ErrNew ''RPC request budget exceeds one day'')
             else Ok (Some remaining)))"

section \<open>The response frames of a call\<close>

record ResponseFrame =
  rf_Body :: bytes
  rf_Sequence :: u64

record responseStream =
  st_frames :: "ResponseFrame list"
  st_head :: nat
  st_closed :: bool
  st_err :: "go_error option"

definition zero_frame :: ResponseFrame where
  "zero_frame = \<lparr>rf_Body = [], rf_Sequence = 0\<rparr>"

definition newResponseStream :: responseStream where
  "newResponseStream = \<lparr>st_frames = [], st_head = 0, st_closed = False, st_err = None\<rparr>"

definition stream_enqueue :: "ResponseFrame \<Rightarrow> responseStream \<Rightarrow> bool \<times> responseStream" where
  "stream_enqueue frame s = (if st_closed s then (False, s) else (True, s\<lparr>st_frames := st_frames s @ [frame]\<rparr>))"

definition closeWithError :: "go_error option \<Rightarrow> responseStream \<Rightarrow> responseStream" where
  "closeWithError err s = (if st_closed s then s else s\<lparr>st_closed := True, st_err := err\<rparr>)"

definition stream_close :: "responseStream \<Rightarrow> responseStream" where
  "stream_close s = closeWithError None s"

definition stream_fail :: "go_error \<Rightarrow> responseStream \<Rightarrow> responseStream" where
  "stream_fail err s = closeWithError (Some err) s"

text \<open>Copying the unread frames to the front, clearing the rest and cutting the slice leaves the unread frames.\<close>

definition compactLocked :: "responseStream \<Rightarrow> responseStream" where
  "compactLocked s =
     (if st_head s = 0 then s
      else if st_head s \<ge> length (st_frames s) then s\<lparr>st_frames := [], st_head := 0\<rparr>
      else if st_head s < 32 \<or> st_head s * 2 < length (st_frames s) then s
      else s\<lparr>st_frames := drop (st_head s) (st_frames s), st_head := 0\<rparr>)"

text \<open>One round of the loop of \<open>next\<close>; None is the wait for a notification.\<close>

definition stream_next :: "responseStream \<Rightarrow> (ResponseFrame \<times> bool) res option \<times> responseStream" where
  "stream_next s =
     (if st_head s < length (st_frames s) then
        let frame = st_frames s ! st_head s;
            s1 = s\<lparr>st_frames := (st_frames s)[st_head s := zero_frame], st_head := st_head s + 1\<rparr>
        in (Some (Ok (frame, True)), compactLocked s1)
      else if st_closed s
      then (Some (case st_err s of None \<Rightarrow> Ok (zero_frame, False) | Some e \<Rightarrow> Err e), s)
      else (None, s))"

section \<open>Choosing a worker\<close>

record workerPatternSpecificity =
  ws_literals :: nat
  ws_singleStar :: nat
  ws_doubleStar :: nat
  ws_depth :: nat

definition score_segment :: "string \<Rightarrow> workerPatternSpecificity \<Rightarrow> workerPatternSpecificity" where
  "score_segment segment score =
     (if segment = ''*'' then score\<lparr>ws_singleStar := ws_singleStar score + 1\<rparr>
      else if segment = ''**'' then score\<lparr>ws_doubleStar := ws_doubleStar score + 1\<rparr>
      else score\<lparr>ws_literals := ws_literals score + 1\<rparr>)"

definition scoreWorkerPattern :: "string \<Rightarrow> workerPatternSpecificity" where
  "scoreWorkerPattern pat =
     (let (_, path, _) = strings_Cut ''://'' pat;
          segments = strings_Split (CHR ''/'') path
      in fold score_segment segments \<lparr>ws_literals = 0, ws_singleStar = 0, ws_doubleStar = 0, ws_depth = length segments\<rparr>)"

definition worker_less :: "string \<Rightarrow> string \<Rightarrow> bool" where
  "worker_less p q =
     (let left = scoreWorkerPattern p; right = scoreWorkerPattern q
      in if ws_literals left \<noteq> ws_literals right then ws_literals left > ws_literals right
         else if ws_singleStar left \<noteq> ws_singleStar right then ws_singleStar left > ws_singleStar right
         else if ws_doubleStar left \<noteq> ws_doubleStar right then ws_doubleStar left < ws_doubleStar right
         else if ws_depth left \<noteq> ws_depth right then ws_depth left > ws_depth right
         else p < q)"

text \<open>\<open>sort.Slice\<close> on a total order: the order of elements that are not comparable does not arise.\<close>

fun insert_by :: "('a \<Rightarrow> 'a \<Rightarrow> bool) \<Rightarrow> 'a \<Rightarrow> 'a list \<Rightarrow> 'a list" where
  "insert_by lt x [] = [x]"
| "insert_by lt x (y # ys) = (if lt y x then y # insert_by lt x ys else x # y # ys)"

definition sort_Slice :: "('a \<Rightarrow> 'a \<Rightarrow> bool) \<Rightarrow> 'a list \<Rightarrow> 'a list" where
  "sort_Slice lt xs = foldr (insert_by lt) xs []"

text \<open>The registered patterns are given in the order in which the map is ranged over.\<close>

definition matchingWorkerPatterns :: "string \<Rightarrow> string list \<Rightarrow> string list" where
  "matchingWorkerPatterns route workers = sort_Slice worker_less [p \<leftarrow> workers. RouteMatchesPattern route p]"

definition find_worker :: "string \<Rightarrow> string list \<Rightarrow> string option" where
  "find_worker route workers =
     (if route \<in> set workers then Some route
      else case matchingWorkerPatterns route workers of [] \<Rightarrow> None | p # _ \<Rightarrow> Some p)"

section \<open>Inbound requests\<close>

record InboundRequest =
  ir_CorrelationID :: corr_id
  ir_Route :: string
  ir_Body :: bytes

text \<open>The parse of \<open>handleRPCRequest\<close> and \<open>handleWorkerRequest\<close>; None is the silent return on a malformed request.\<close>

definition decode_worker_request :: "bytes \<Rightarrow> (InboundRequest \<times> u32 option) option res" where
  "decode_worker_request full =
     (if length full < 16 then Ok None
      else bind_res (slice full 0 16) (\<lambda>correlationID.
           bind_res (slice_from full 16) (\<lambda>payload.
             if 4 > length payload then Ok None
             else bind_res (bind_res (slice payload 0 4) Uint32) (\<lambda>routeLen.
               let offset = 4 in
               if offset + unat routeLen > length payload then Ok None
               else bind_res (slice payload offset (offset + unat routeLen)) (\<lambda>route.
                 let offset = offset + unat routeLen in
                 if offset + 4 > length payload then Ok None
                 else bind_res (bind_res (slice payload offset (offset + 4)) Uint32) (\<lambda>bodyLen.
                   let offset = offset + 4 in
                   if offset + unat bodyLen > length payload then Ok None
                   else bind_res (slice payload offset (offset + unat bodyLen)) (\<lambda>body.
                        bind_res (slice_from payload (offset + unat bodyLen)) (\<lambda>extension.
                          case decodeRPCRequestBudget extension of
                            Ok budget \<Rightarrow> Ok (Some (\<lparr>ir_CorrelationID = correlationID, ir_Route = string_of_bytes route,
                              ir_Body = body\<rparr>, budget))
                          | Err e \<Rightarrow> Ok None
                          | Panic \<Rightarrow> Panic))))))))"

section \<open>The frames a worker sends\<close>

record responseWriter =
  rw_correlationID :: corr_id
  rw_seq :: u64

definition rw_Send :: "'s conn_api \<Rightarrow> bytes \<Rightarrow> 's \<times> responseWriter \<Rightarrow> unit res \<times> 's \<times> responseWriter" where
  "rw_Send c body = (\<lambda>(s, w).
     case api_oneway c MessageTypeRpcResponse (rpcResponsePayloadWriter (rw_correlationID w) (rw_seq w) body False) s of
       (r, s') \<Rightarrow> (r, s', w\<lparr>rw_seq := rw_seq w + 1\<rparr>))"

definition sendEnd :: "'s conn_api \<Rightarrow> responseWriter \<Rightarrow> 's \<Rightarrow> 's" where
  "sendEnd c w s = snd (api_oneway c MessageTypeRpcResponse (rpcResponsePayloadWriter (rw_correlationID w) (rw_seq w) [] True) s)"

text \<open>\<open>utf8_len\<close> is the length of the UTF-8 sequence at the front, 0 when there is none.\<close>

definition continuation :: "u8 \<Rightarrow> bool" where
  "continuation b \<longleftrightarrow> 0x80 \<le> b \<and> b \<le> 0xBF"

fun utf8_len :: "bytes \<Rightarrow> nat" where
  "utf8_len (a # b # c # d # _) =
     (if a < 0x80 then 1
      else if 0xC2 \<le> a \<and> a \<le> 0xDF \<and> continuation b then 2
      else if continuation c \<and> ((a = 0xE0 \<and> 0xA0 \<le> b \<and> b \<le> 0xBF) \<or> (a = 0xED \<and> 0x80 \<le> b \<and> b \<le> 0x9F) \<or>
              (0xE1 \<le> a \<and> a \<le> 0xEF \<and> a \<noteq> 0xED \<and> continuation b)) then 3
      else if continuation c \<and> continuation d \<and> ((a = 0xF0 \<and> 0x90 \<le> b \<and> b \<le> 0xBF) \<or> (a = 0xF4 \<and> 0x80 \<le> b \<and> b \<le> 0x8F) \<or>
              (0xF1 \<le> a \<and> a \<le> 0xF3 \<and> continuation b)) then 4
      else 0)"
| "utf8_len [a, b, c] =
     (if a < 0x80 then 1
      else if 0xC2 \<le> a \<and> a \<le> 0xDF \<and> continuation b then 2
      else if continuation c \<and> ((a = 0xE0 \<and> 0xA0 \<le> b \<and> b \<le> 0xBF) \<or> (a = 0xED \<and> 0x80 \<le> b \<and> b \<le> 0x9F) \<or>
              (0xE1 \<le> a \<and> a \<le> 0xEF \<and> a \<noteq> 0xED \<and> continuation b)) then 3
      else 0)"
| "utf8_len [a, b] = (if a < 0x80 then 1 else if 0xC2 \<le> a \<and> a \<le> 0xDF \<and> continuation b then 2 else 0)"
| "utf8_len [a] = (if a < 0x80 then 1 else 0)"
| "utf8_len [] = 0"

text \<open>\<open>strings.ToValidUTF8(s, "")\<close>: bytes that belong to no sequence are dropped.\<close>

fun valid_utf8_loop :: "nat \<Rightarrow> bytes \<Rightarrow> bytes" where
  "valid_utf8_loop 0 bs = []"
| "valid_utf8_loop (Suc n) bs =
     (if bs = [] then []
      else let k = utf8_len bs
           in if k = 0 then valid_utf8_loop n (drop 1 bs) else take k bs @ valid_utf8_loop n (drop k bs))"

definition strings_ToValidUTF8 :: "string \<Rightarrow> string" where
  "strings_ToValidUTF8 s = string_of_bytes (valid_utf8_loop (length s) (bytes_of_string s))"

definition error_body :: "go_error \<Rightarrow> bytes" where
  "error_body err =
     (let message = (if length (Error err) > 1024 then strings_ToValidUTF8 (take 1024 (Error err)) else Error err);
          timeout = errors_Is err DeadlineExceeded \<or> errors_Is err ErrRPCTimeout
      in [1] @ PutUint16 (ucast (if timeout then RpcTimeout else RpcBackendError)) @ [if timeout then 7 else 6] @ [1] @
         PutUint32 (u32_len message) @ bytes_of_string message)"

definition sendError :: "'s conn_api \<Rightarrow> go_error \<Rightarrow> responseWriter \<Rightarrow> 's \<Rightarrow> 's" where
  "sendError c err w s =
     snd (api_oneway c MessageTypeRpcResponse (rpcResponsePayloadWriter (rw_correlationID w) (rw_seq w) (error_body err) True) s)"

section \<open>The response stream is a queue\<close>

text \<open>The queue a stream stands for: its unread frames, and the end once it is closed.\<close>

definition unread :: "responseStream \<Rightarrow> ResponseFrame list \<times> go_error option option" where
  "unread s = (drop (st_head s) (st_frames s), if st_closed s then Some (st_err s) else None)"

definition queue_enqueue :: "'a \<Rightarrow> 'a list \<times> 'e option \<Rightarrow> bool \<times> 'a list \<times> 'e option" where
  "queue_enqueue x q = (if snd q = None then (True, fst q @ [x], None) else (False, q))"

definition queue_close :: "'e \<Rightarrow> 'a list \<times> 'e option \<Rightarrow> 'a list \<times> 'e option" where
  "queue_close e q = (fst q, Some (case snd q of None \<Rightarrow> e | Some e0 \<Rightarrow> e0))"

definition queue_next :: "'a list \<times> go_error option option \<Rightarrow> ('a option res option) \<times> 'a list \<times> go_error option option" where
  "queue_next q =
     (case fst q of
        x # xs \<Rightarrow> (Some (Ok (Some x)), xs, snd q)
      | [] \<Rightarrow> (case snd q of None \<Rightarrow> (None, q) | Some None \<Rightarrow> (Some (Ok None), q) | Some (Some e) \<Rightarrow> (Some (Err e), q)))"

definition next_value :: "(ResponseFrame \<times> bool) res \<Rightarrow> ResponseFrame option res" where
  "next_value r = bind_res r (\<lambda>(f, ok). Ok (if ok then Some f else None))"

definition stream_ok :: "responseStream \<Rightarrow> bool" where
  "stream_ok s \<longleftrightarrow> st_head s \<le> length (st_frames s) \<and> (st_head s < 32 \<or> st_head s * 2 < length (st_frames s))"

lemma compactLocked_unread: "st_head s \<le> length (st_frames s) \<Longrightarrow> unread (compactLocked s) = unread s \<and> stream_ok (compactLocked s)"
  by (auto simp: compactLocked_def unread_def stream_ok_def)

lemma stream_next_unread:
  assumes "stream_ok s"
  shows "map_prod (map_option next_value) unread (stream_next s) = queue_next (unread s) \<and> stream_ok (snd (stream_next s))"
proof (cases "st_head s < length (st_frames s)")
  case True
  let ?s1 = "s\<lparr>st_frames := (st_frames s)[st_head s := zero_frame], st_head := st_head s + 1\<rparr>"
  have c: "unread (compactLocked ?s1) = unread ?s1" "stream_ok (compactLocked ?s1)"
    using compactLocked_unread [of ?s1] True by simp_all
  have d: "drop (st_head s) (st_frames s) = st_frames s ! st_head s # drop (st_head s + 1) (st_frames s)"
    using True by (simp add: Cons_nth_drop_Suc)
  have "unread ?s1 = (drop (st_head s + 1) (st_frames s), snd (unread s))" by (simp add: unread_def)
  then show ?thesis using True c d by (simp add: stream_next_def queue_next_def unread_def next_value_def Let_def)
next
  case False
  then show ?thesis using assms
    by (auto simp: stream_next_def queue_next_def unread_def next_value_def split: option.splits)
qed

text \<open>C32: The response stream of a call is a queue. Through compaction, the unread frames are exactly what was enqueued before the stream
  was closed and not yet read, in order; reading returns them first and then the end, which is the reason of the first
  close; and the storage stays below twice the unread frames plus 32.\<close>

theorem response_stream_is_queue:
  assumes "stream_ok s"
  shows "map_prod id unread (stream_enqueue frame s) = queue_enqueue frame (unread s) \<and>
    unread (stream_close s) = queue_close None (unread s) \<and> unread (stream_fail err s) = queue_close (Some err) (unread s) \<and>
    map_prod (map_option next_value) unread (stream_next s) = queue_next (unread s) \<and>
    stream_ok (snd (stream_enqueue frame s)) \<and> stream_ok (stream_close s) \<and> stream_ok (stream_fail err s) \<and>
    stream_ok (snd (stream_next s)) \<and> length (st_frames s) < 2 * length (fst (unread s)) + 32"
  using assms stream_next_unread [OF assms]
  by (auto simp: stream_enqueue_def stream_close_def stream_fail_def closeWithError_def unread_def queue_enqueue_def queue_close_def
      stream_ok_def)

theorem response_stream_is_queue_witness:
  "stream_ok newResponseStream \<and> unread (snd (stream_enqueue zero_frame newResponseStream)) = ([zero_frame], None)"
proof -
  have "stream_ok newResponseStream" by (simp add: stream_ok_def newResponseStream_def)
  with response_stream_is_queue [OF this, of zero_frame ErrRPCTimeout] show ?thesis
    by (simp add: stream_enqueue_def newResponseStream_def unread_def queue_enqueue_def)
qed

section \<open>Which worker answers\<close>

definition worker_key :: "string \<Rightarrow> int \<times> int \<times> int \<times> int \<times> string" where
  "worker_key p = (let s = scoreWorkerPattern p
     in (- int (ws_literals s), - int (ws_singleStar s), int (ws_doubleStar s), - int (ws_depth s), p))"

lemma worker_less_key: "worker_less p q \<longleftrightarrow> worker_key p < worker_key q"
  by (auto simp: worker_less_def worker_key_def Let_def less_prod_def')

lemma insert_by_key: "insert_by (\<lambda>p q. f p < f q) x xs = insort_key f x xs" for f :: "'a \<Rightarrow> 'b::linorder"
  by (induction xs) (auto simp: not_less)

lemma sort_Slice_key: "sort_Slice worker_less xs = sort_key worker_key xs"
proof -
  have w: "worker_less = (\<lambda>p q. worker_key p < worker_key q)" by (simp add: worker_less_key fun_eq_iff)
  have "insert_by worker_less x ys = insort_key worker_key x ys" for x ys unfolding w by (rule insert_by_key)
  then have "insert_by worker_less = insort_key worker_key" by (simp add: fun_eq_iff)
  then show ?thesis by (simp add: sort_Slice_def sort_key_def)
qed

lemma inj_worker_key: "inj worker_key"
  by (rule injI) (simp add: worker_key_def Let_def)

lemma find_worker_first:
  "find_worker route workers =
     (if route \<in> set workers then Some route
      else let ms = {p \<in> set workers. RouteMatchesPattern route p}
           in if ms = {} then None else Some (arg_min_on worker_key ms))"
proof -
  let ?xs = "[p \<leftarrow> workers. RouteMatchesPattern route p]" and ?ms = "{p \<in> set workers. RouteMatchesPattern route p}"
  have set: "set (sort_key worker_key ?xs) = ?ms" by auto
  show ?thesis
  proof (cases "sort_key worker_key ?xs")
    case Nil
    then have "?ms = {}" using set by simp
    then show ?thesis using Nil by (simp add: find_worker_def matchingWorkerPatterns_def sort_Slice_key)
  next
    case (Cons p ps)
    have "sorted (map worker_key (p # ps))" using sorted_sort_key [of worker_key ?xs] Cons by simp
    then have "\<forall>q\<in>?ms. worker_key p \<le> worker_key q" using set Cons by auto
    moreover have "p \<in> ?ms" "?ms \<noteq> {}" "finite ?ms" using set Cons by auto
    ultimately have "worker_key (arg_min_on worker_key ?ms) = worker_key p"
      using arg_min_least [of ?ms p worker_key] arg_min_if_finite(1) [of ?ms worker_key] by (meson order_antisym)
    then have "arg_min_on worker_key ?ms = p" using inj_worker_key by (simp add: inj_eq)
    then show ?thesis using Cons \<open>?ms \<noteq> {}\<close> by (auto simp: find_worker_def matchingWorkerPatterns_def sort_Slice_key Let_def)
  qed
qed

text \<open>How specific a pattern is, by the segments of its path.\<close>

definition pattern_segments :: "string \<Rightarrow> string list" where
  "pattern_segments p = strings_Split (CHR ''/'') (fst (snd (strings_Cut ''://'' p)))"

definition literals_of :: "string list \<Rightarrow> nat" where
  "literals_of ss = length [s \<leftarrow> ss. s \<noteq> ''*'' \<and> s \<noteq> ''**'']"

definition more_specific :: "string \<Rightarrow> string \<Rightarrow> bool" where
  "more_specific p q \<longleftrightarrow>
     (let ps = pattern_segments p; qs = pattern_segments q
      in literals_of ps > literals_of qs \<or> literals_of ps = literals_of qs \<and>
         (count_list ps ''*'' > count_list qs ''*'' \<or> count_list ps ''*'' = count_list qs ''*'' \<and>
          (count_list ps ''**'' < count_list qs ''**'' \<or> count_list ps ''**'' = count_list qs ''**'' \<and>
           (length ps > length qs \<or> length ps = length qs \<and> p < q))))"

lemma fold_score:
  "fold score_segment ss \<lparr>ws_literals = l, ws_singleStar = n, ws_doubleStar = d, ws_depth = k\<rparr> =
     \<lparr>ws_literals = l + literals_of ss, ws_singleStar = n + count_list ss ''*'', ws_doubleStar = d + count_list ss ''**'', ws_depth = k\<rparr>"
  by (induction ss arbitrary: l n d) (auto simp: score_segment_def literals_of_def)

lemma worker_less_specific: "worker_less p q \<longleftrightarrow> more_specific p q"
proof -
  have "scoreWorkerPattern p = \<lparr>ws_literals = literals_of (pattern_segments p), ws_singleStar = count_list (pattern_segments p) ''*'',
      ws_doubleStar = count_list (pattern_segments p) ''**'', ws_depth = length (pattern_segments p)\<rparr>" for p
    by (simp add: scoreWorkerPattern_def pattern_segments_def fold_score Let_def split_beta)
  then show ?thesis by (auto simp: worker_less_def more_specific_def Let_def)
qed

text \<open>C33: Worker selection. A request goes to the worker registered under its very route, or else to the matching pattern that is
  more specific than every other one: more literal segments, then more single wildcards, then fewer double wildcards, then deeper,
  then alphabetically first. No worker is found only when none matches; and the order in which the workers are
  enumerated does not matter.\<close>

theorem worker_selection:
  "(find_worker route workers = None \<longleftrightarrow> route \<notin> set workers \<and> (\<forall>p\<in>set workers. \<not> RouteMatchesPattern route p)) \<and>
   (find_worker route workers = Some p \<longrightarrow> p \<in> set workers \<and>
      (p = route \<or> route \<notin> set workers \<and> RouteMatchesPattern route p \<and>
         (\<forall>q\<in>set workers. RouteMatchesPattern route q \<longrightarrow> q = p \<or> more_specific p q))) \<and>
   (set others = set workers \<longrightarrow> find_worker route others = find_worker route workers)"
proof -
  let ?ms = "{p \<in> set workers. RouteMatchesPattern route p}"
  have least: "arg_min_on worker_key ?ms \<in> ?ms \<and> (\<forall>q\<in>?ms. q = arg_min_on worker_key ?ms \<or> worker_less (arg_min_on worker_key ?ms) q)"
    if "?ms \<noteq> {}"
  proof -
    have f: "finite ?ms" by simp
    have "q = arg_min_on worker_key ?ms \<or> worker_less (arg_min_on worker_key ?ms) q" if "q \<in> ?ms" for q
    proof -
      have "worker_key (arg_min_on worker_key ?ms) \<le> worker_key q" using arg_min_least [OF f \<open>?ms \<noteq> {}\<close> that] .
      moreover have "worker_key (arg_min_on worker_key ?ms) = worker_key q \<Longrightarrow> arg_min_on worker_key ?ms = q"
        using inj_worker_key by (rule injD)
      ultimately show ?thesis unfolding worker_less_key by (auto simp: order_le_less)
    qed
    then show ?thesis using arg_min_if_finite(1) [OF f \<open>?ms \<noteq> {}\<close>] by blast
  qed
  have "p \<in> set workers \<and> (p = route \<or> route \<notin> set workers \<and> RouteMatchesPattern route p \<and>
         (\<forall>q\<in>set workers. RouteMatchesPattern route q \<longrightarrow> q = p \<or> worker_less p q))"
    if found: "find_worker route workers = Some p"
  proof (cases "route \<in> set workers")
    case True
    then show ?thesis using found by (simp add: find_worker_def)
  next
    case False
    then have "?ms \<noteq> {}" "p = arg_min_on worker_key ?ms" using found by (auto simp: find_worker_first Let_def split: if_splits)
    then show ?thesis using least False by blast
  qed
  moreover have "find_worker route workers = None \<longleftrightarrow> route \<notin> set workers \<and> (\<forall>p\<in>set workers. \<not> RouteMatchesPattern route p)"
    by (auto simp: find_worker_first Let_def)
  ultimately show ?thesis unfolding worker_less_specific by (simp add: find_worker_first)
qed

lemma star_matches:
  "RouteMatchesPattern ''rpc://a/b'' ''rpc://a/*''" "RouteMatchesPattern ''rpc://a/b'' ''rpc://**''"
proof -
  have cut: "strings_Cut ''://'' ''rpc://a/b'' = (''rpc'', ''a/b'', True)" "strings_Cut ''://'' ''rpc://a/*'' = (''rpc'', ''a/*'', True)"
    "strings_Cut ''://'' ''rpc://**'' = (''rpc'', ''**'', True)" by simp_all
  have "splitRouteSegments ''rpc://a/b'' = [''a'', ''b'']" by (simp add: splitRouteSegments_Cut)
  then have "''**'' \<notin> set (splitRouteSegments ''rpc://a/b'')" by simp
  from RouteMatchesPattern_Cut [OF this cut(1,2)] RouteMatchesPattern_Cut [OF this cut(1,3)]
  show "RouteMatchesPattern ''rpc://a/b'' ''rpc://a/*''" "RouteMatchesPattern ''rpc://a/b'' ''rpc://**''" by simp_all
qed

theorem worker_selection_witness:
  "find_worker ''rpc://a/b'' [''rpc://**'', ''rpc://a/*''] = Some ''rpc://a/*'' \<and>
   more_specific ''rpc://a/*'' ''rpc://**'' \<and> find_worker ''rpc://a/b'' [''rpc://a/*'', ''rpc://**''] = Some ''rpc://a/*''"
proof -
  have less: "\<not> worker_less ''rpc://**'' ''rpc://a/*''"
    by (simp add: worker_less_def scoreWorkerPattern_def score_segment_def)
  have f: "find_worker ''rpc://a/b'' [''rpc://**'', ''rpc://a/*''] = Some ''rpc://a/*''"
    using less worker_less_key [of "''rpc://a/*''" "''rpc://**''"]
    by (simp add: find_worker_def matchingWorkerPatterns_def star_matches sort_Slice_def)
      (simp add: worker_less_def scoreWorkerPattern_def score_segment_def)
  note sel = worker_selection [of "''rpc://a/b''" "[''rpc://**'', ''rpc://a/*'']" "''rpc://a/*''" "[''rpc://a/*'', ''rpc://**'']"]
  have "find_worker ''rpc://a/b'' [''rpc://a/*'', ''rpc://**''] = find_worker ''rpc://a/b'' [''rpc://**'', ''rpc://a/*'']" using sel by auto
  moreover have "more_specific ''rpc://a/*'' ''rpc://**''" using sel f star_matches by auto
  ultimately show ?thesis using f by simp
qed

section \<open>Requests and responses on the wire\<close>

definition flag_byte :: "bool \<Rightarrow> u8" where
  "flag_byte b = (if b then 1 else 0)"

lemma byte_flag: "(x :: u8) AND NOT 1 = 0 \<longleftrightarrow> x = flag_byte (x AND 1 \<noteq> 0)"
proof -
  have split: "x = (x AND NOT 1) OR (x AND 1)" by (rule bit_word_eqI) (auto simp: bit_simps)
  show ?thesis
  proof
    assume "x AND NOT 1 = 0"
    then have "x = x AND 1" using split by simp
    moreover have "x AND 1 = 0 \<or> x AND 1 = 1" by (simp add: and_one_eq mod_2_eq_odd)
    ultimately show "x = flag_byte (x AND 1 \<noteq> 0)" by (auto simp: flag_byte_def)
  next
    assume "x = flag_byte (x AND 1 \<noteq> 0)"
    then have "x = 0 \<or> x = 1" by (auto simp: flag_byte_def split: if_splits)
    then show "x AND NOT 1 = 0" by auto
  qed
qed

lemma u32_len_unat: "unat (n :: u32) = length xs \<Longrightarrow> u32_len xs = n"
  unfolding u32_len_def by (drule sym) simp

lemma split_13: "13 \<le> length p \<Longrightarrow> p = take 8 p @ [p ! 8] @ take 4 (drop 9 p) @ drop 13 p"
proof -
  assume n: "13 \<le> length p"
  have "p = take 8 p @ drop 8 p" by simp
  moreover have "drop 8 p = p ! 8 # drop 9 p" using n Cons_nth_drop_Suc [of 8 p] by simp
  moreover have "drop 9 p = take 4 (drop 9 p) @ drop 13 p" using append_take_drop_id [of 4 "drop 9 p"] by simp
  ultimately show ?thesis by simp
qed

lemma response_payload_exact:
  "decodeRPCResponsePayload p = Ok r \<longleftrightarrow>
     fits_u32 (dr_body r) \<and> p = PutUint64 (dr_sequence r) @ [flag_byte (dr_streamEnd r)] @ PutUint32 (u32_len (dr_body r)) @ dr_body r"
  (is "?L \<longleftrightarrow> ?R")
proof
  assume L: ?L
  then have n: "13 \<le> length p" by (simp add: decodeRPCResponsePayload_def split: if_splits)
  from L n obtain k where u: "Uint64 p = Ok (dr_sequence r)" "Uint32 (drop 9 p) = Ok k" "unat k = length p - 13"
    and f: "p ! 8 AND NOT 1 = 0" "dr_streamEnd r = (p ! 8 AND 1 \<noteq> 0)" "dr_body r = drop 13 p"
    by (auto simp: decodeRPCResponsePayload_def bind_res_Ok_iff split: if_splits)
  have "take 8 p = PutUint64 (dr_sequence r)" "take 4 (drop 9 p) = PutUint32 k" using Put_Uint(2,3) u by simp_all
  moreover have "u32_len (dr_body r) = k" using u(3) f(3) by (intro u32_len_unat) simp
  moreover have "p ! 8 = flag_byte (dr_streamEnd r)" using byte_flag f(1,2) by simp
  moreover have "fits_u32 (dr_body r)" using u(3) f(3) unat_u32_less [of k] by (simp add: fits_u32_def)
  ultimately show ?R using split_13 [OF n] f(3) by simp
next
  assume R: ?R
  let ?b = "dr_body r"
  have n: "length p = 13 + length ?b" using R by simp
  have "take 8 p = PutUint64 (dr_sequence r)" "p ! 8 = flag_byte (dr_streamEnd r)" "drop 9 p = PutUint32 (u32_len ?b) @ ?b" "drop 13 p = ?b"
    using R by (simp_all add: nth_append)
  moreover have "flag_byte b AND NOT 1 = 0" "(flag_byte b AND 1 \<noteq> 0) = b" for b by (simp_all add: flag_byte_def)
  moreover have "unat (u32_len ?b) = length ?b" using R by (simp add: fits_u32_def)
  ultimately show ?L using n by (simp add: decodeRPCResponsePayload_def)
qed

lemma budget_exact:
  "decodeRPCRequestBudget e = Ok b \<longleftrightarrow>
     pred_option (\<lambda>ms. ms \<le> 86400000) b \<and> e = (case b of None \<Rightarrow> [0] | Some ms \<Rightarrow> 1 # PutUint32 ms)"
proof -
  have five: "length e = 5 \<Longrightarrow> \<exists>x y. e = x # y \<and> length y = 4" by (cases e) auto
  show ?thesis
  proof (cases b)
    case None
    then show ?thesis by (auto simp: decodeRPCRequestBudget_def bind_res_Ok_iff length_Suc_conv split: if_splits)
  next
    case (Some ms)
    have "decodeRPCRequestBudget e = Ok (Some ms) \<longleftrightarrow> length e = 5 \<and> e ! 0 = 1 \<and> Uint32 (drop 1 e) = Ok ms \<and> ms \<le> 86400000"
      by (cases "Uint32 (drop 1 e)") (auto simp: decodeRPCRequestBudget_def not_less)
    also have "\<dots> \<longleftrightarrow> ms \<le> 86400000 \<and> e = 1 # PutUint32 ms"
      using five Put_Uint(2) [of "drop 1 e" ms] by (auto simp: drop_Cons')
    finally show ?thesis using Some by simp
  qed
qed

lemma decode_request_reads:
  "decode_worker_request full = Ok (Some (req, budget)) \<longleftrightarrow>
     16 \<le> length full \<and> req = \<lparr>ir_CorrelationID = take 16 full, ir_Route = ir_Route req, ir_Body = ir_Body req\<rparr> \<and>
     (\<exists>o1 o2. ReadString (drop 16 full) 0 = Ok (ir_Route req, o1) \<and> ReadBytes (drop 16 full) o1 = Ok (ir_Body req, o2) \<and>
        o2 \<le> length (drop 16 full) \<and> decodeRPCRequestBudget (drop o2 (drop 16 full)) = Ok budget)"
proof (cases "16 \<le> length full")
  case True
  define p where "p = drop 16 full"
  have 1: "decode_worker_request full = Ok (Some (req, budget)) \<longleftrightarrow>
      (\<exists>n m. 4 \<le> length p \<and> Uint32 p = Ok n \<and> 4 + unat n \<le> length p \<and> 4 + unat n + 4 \<le> length p \<and> Uint32 (drop (4 + unat n) p) = Ok m \<and>
        4 + unat n + 4 + unat m \<le> length p \<and> decodeRPCRequestBudget (drop (4 + unat n + 4 + unat m) p) = Ok budget \<and>
        req = \<lparr>ir_CorrelationID = take 16 full, ir_Route = string_of_bytes (take (unat n) (drop 4 p)),
               ir_Body = take (unat m) (drop (4 + unat n + 4) p)\<rparr>)"
  proof (cases "Uint32 p")
    case (Ok n)
    then show ?thesis using True
      by (cases "Uint32 (drop (4 + unat n) p)"; cases "4 + unat n \<le> length p"; cases "8 + unat n \<le> length p")
        (auto simp: decode_worker_request_def Let_def p_def [symmetric] not_less split: res.splits)
  qed (use True in \<open>auto simp: decode_worker_request_def Let_def p_def [symmetric] not_less\<close>)
  have 2: "ReadString p 0 = Ok (rt, o1) \<longleftrightarrow> (\<exists>n. 4 \<le> length p \<and> Uint32 p = Ok n \<and> 4 + unat n \<le> length p \<and>
      rt = string_of_bytes (take (unat n) (drop 4 p)) \<and> o1 = 4 + unat n)" for rt o1
    by (cases "Uint32 p") (auto simp: ReadString_def ReadU32BE_def not_less)
  have 3: "ReadBytes p o1 = Ok (bd, o2) \<longleftrightarrow> (\<exists>m. o1 + 4 \<le> length p \<and> Uint32 (drop o1 p) = Ok m \<and> o1 + 4 + unat m \<le> length p \<and>
      bd = take (unat m) (drop (o1 + 4) p) \<and> o2 = o1 + 4 + unat m)" for bd o1 o2
    by (cases "Uint32 (drop o1 p)") (auto simp: ReadBytes_def ReadU32BE_def not_less)
  show ?thesis unfolding 1 p_def [symmetric] 2 3 using True by (cases req) fastforce
next
  case False
  then show ?thesis by (simp add: decode_worker_request_def)
qed


section \<open>Errors from worker to caller\<close>

definition is_timeout :: "go_error \<Rightarrow> bool" where
  "is_timeout err \<longleftrightarrow> errors_Is err DeadlineExceeded \<or> errors_Is err ErrRPCTimeout"

definition sent_message :: "go_error \<Rightarrow> string" where
  "sent_message err = (if length (Error err) > 1024 then strings_ToValidUTF8 (take 1024 (Error err)) else Error err)"

lemma length_valid_utf8: "length (valid_utf8_loop n bs) \<le> length bs"
proof (induction n arbitrary: bs)
  case (Suc n)
  have ih: "length (valid_utf8_loop n (drop k bs)) \<le> length bs - k" for k using Suc [of "drop k bs"] by simp
  show ?case
  proof (cases "bs = [] \<or> utf8_len bs = 0")
    case True
    then show ?thesis using ih [of 1] by auto
  next
    case False
    then show ?thesis using ih [of "utf8_len bs"] by (cases "length bs \<le> utf8_len bs") (auto simp: Let_def)
  qed
qed simp

lemma sent_message_short: "length (sent_message err) \<le> 1024"
  using length_valid_utf8 [of "length (take 1024 (Error err))" "bytes_of_string (take 1024 (Error err))"]
  by (auto simp: sent_message_def strings_ToValidUTF8_def min_def)

lemma error_body_bytes:
  "error_body err = 1 # domain_error_bytes (ucast (if is_timeout err then RpcTimeout else RpcBackendError)) (if is_timeout err then 7 else 6) 1
     (sent_message err)"
  by (simp add: error_body_def domain_error_bytes_def len_prefixed_string_def len_prefixed_def sent_message_def is_timeout_def Let_def u32_len_def)

lemma error_body_parsed:
  "ParseStandardResponse (error_body err) = Err (DomainError
     \<lparr>de_code = (if is_timeout err then RpcTimeout else RpcBackendError), de_class = (if is_timeout err then 7 else 6), de_effect = 1,
      de_message = sent_message err\<rparr>)"
proof -
  let ?c = "ucast (if is_timeout err then RpcTimeout else RpcBackendError) :: u16" and ?k = "(if is_timeout err then 7 else 6) :: u8"
  have "fits_u32 (sent_message err)" using sent_message_short [of err] by (simp add: fits_u32_def)
  then have "parseTypedDomainError (domain_error_bytes ?c ?k 1 (sent_message err)) = Ok (?c, ?k, 1, sent_message err)"
    by (simp add: parseTypedDomainError_Ok_iff)
  then show ?thesis
    by (simp add: error_body_bytes ParseStandardResponse_def NewDomainErrorWithDisposition_def)
qed

lemma error_response_decoded:
  "decodeRPCResponsePayload (PutUint64 q @ [1] @ PutUint32 (u32_len (error_body err)) @ error_body err) =
     Ok \<lparr>dr_sequence = q, dr_streamEnd = True, dr_body = error_body err\<rparr>"
proof -
  have "fits_u32 (error_body err)"
    using sent_message_short [of err]
    by (simp add: error_body_bytes domain_error_bytes_def len_prefixed_string_def len_prefixed_def fits_u32_def)
  then show ?thesis unfolding response_payload_exact by (simp add: flag_byte_def)
qed

end
