(* ===== verification/Rpc_Calls.thy ===== *)
theory Rpc_Calls
  imports Rpc_Domain "HOL-Library.Multiset"
begin

text \<open>
  The life of RPC calls on the caller's side (\<^verbatim>\<open>internal/domains/rpc/rpc.go\<close>, \<^verbatim>\<open>internal/domains/rpc/lifecycle.go\<close>): a call is
  registered, sent, answered by response frames, cancelled by its context or its iterator, and failed when the
  connection ends; whoever takes the call out of the client's map reports its cancellation outcome. Iterators and their
  streams live in a heap, timers in another. Each critical section is one action; a goroutine is the list of actions it
  has still to do, and goroutines interleave. A call's correlation id is assumed not to be in use.
\<close>

section \<open>State\<close>

datatype CancellationOutcome =
    CancellationNotRequested | CancellationRequestNotSent | CancellationUnsupported | CancellationQueuedRemoved
  | CancellationForwarded | CancellationWorkerUnsupported | CancellationAlreadyTerminal | CancellationUnknown
  | CancellationForwardingFailed | CancellationUnconfirmed | CancellationConnectionClosed

record rpcIterator =
  it_correlationID :: corr_id
  it_stream :: responseStream
  it_completed :: bool
  it_cancellation :: "CancellationOutcome list"
  it_current :: ResponseFrame
  it_err :: "go_error option"
  it_done :: bool

record rpc_calls =
  rc_pending :: "corr_id \<rightharpoonup> nat"
  rc_calls :: "corr_id \<rightharpoonup> nat"
  rc_cancelRequested :: "corr_id set"
  rc_cancelTimers :: "corr_id \<rightharpoonup> nat"
  rc_armed :: "nat \<rightharpoonup> corr_id"
  rc_newTimer :: nat
  rc_iter :: "nat \<Rightarrow> rpcIterator"
  rc_newCall :: nat

definition NewClient :: "(nat \<Rightarrow> rpcIterator) \<Rightarrow> rpc_calls" where
  "NewClient heap = \<lparr>rc_pending = Map.empty, rc_calls = Map.empty, rc_cancelRequested = {}, rc_cancelTimers = Map.empty,
     rc_armed = Map.empty, rc_newTimer = 0, rc_iter = heap, rc_newCall = 0\<rparr>"

section \<open>Actions\<close>

text \<open>
  What a goroutine of the client can have before it: \<open>ACall\<close> registers a call and \<open>ASend\<close> sends its request; \<open>AResponse\<close> is
  \<open>handleRPCResponse\<close> and \<open>AEnqueue\<close>, \<open>AClose\<close>, \<open>AFail\<close> its effects on a stream; \<open>AFinishCall\<close>, \<open>AFinishCancellation\<close>,
  \<open>AComplete\<close> and \<open>AStop\<close> are \<open>finishCall\<close>, \<open>finishCancellation\<close>, \<open>complete\<close> and stopping a timer; \<open>ACancel\<close>, \<open>AArm\<close> and
  \<open>ASendCancel\<close> are the three parts of \<open>cancelPendingRPC\<close>; \<open>ALifecycle\<close> is the outcome half of \<open>handleRPCLifecycle\<close>;
  \<open>AClosePending\<close> is \<open>ClosePendingRPCs\<close>, told whether there are invocations of workers; \<open>ANext\<close> and \<open>AReceive\<close> are the two
  parts of the iterator's \<open>Next\<close>, and \<open>AIterClose\<close> is its \<open>Close\<close>.
\<close>

datatype action =
    ACall corr_id
  | ASend corr_id nat
  | AResponse corr_id bytes
  | AEnqueue nat ResponseFrame
  | AClose nat
  | AFail nat go_error
  | AFinishCall corr_id CancellationOutcome
  | ACancel corr_id u8
  | AArm corr_id nat "nat option" u8
  | ASendCancel corr_id "nat option" u8
  | AFinishCancellation corr_id CancellationOutcome
  | AComplete nat CancellationOutcome
  | AStop nat
  | ALifecycle bytes
  | AClosePending bool
  | ANext nat
  | AReceive nat
  | AIterClose nat

definition upd_iter :: "nat \<Rightarrow> (rpcIterator \<Rightarrow> rpcIterator) \<Rightarrow> rpc_calls \<Rightarrow> rpc_calls" where
  "upd_iter k f st = st\<lparr>rc_iter := (rc_iter st)(k := f (rc_iter st k))\<rparr>"

definition upd_stream :: "nat \<Rightarrow> (responseStream \<Rightarrow> responseStream) \<Rightarrow> rpc_calls \<Rightarrow> rpc_calls" where
  "upd_stream k f st = upd_iter k (\<lambda>it. it\<lparr>it_stream := f (it_stream it)\<rparr>) st"

text \<open>The locked part of \<open>Call\<close>: a new iterator with its stream.\<close>

definition register_call :: "corr_id \<Rightarrow> rpc_calls \<Rightarrow> action list \<times> rpc_calls" where
  "register_call correlationID st =
     (let k = rc_newCall st;
          it = \<lparr>it_correlationID = correlationID, it_stream = newResponseStream, it_completed = False, it_cancellation = [],
                it_current = zero_frame, it_err = None, it_done = False\<rparr>
      in ([ASend correlationID k],
          st\<lparr>rc_iter := (rc_iter st)(k := it), rc_newCall := k + 1, rc_pending := (rc_pending st)(correlationID \<mapsto> k),
             rc_calls := (rc_calls st)(correlationID \<mapsto> k)\<rparr>))"

text \<open>What \<open>handleRPCResponse\<close> does with the payload, once the stream of the call is found.\<close>

definition response_actions :: "corr_id \<Rightarrow> nat \<Rightarrow> bytes \<Rightarrow> action list" where
  "response_actions correlationID k payload =
     (case decodeRPCResponsePayload payload of
        Ok response \<Rightarrow>
          (case (if dr_streamEnd response \<and> length (dr_body response) > 0 \<and> dr_body response ! 0 = 1
                 then ParseStandardResponse (dr_body response) else Ok (True, [])) of
             Err terminalErr \<Rightarrow> [AFinishCall correlationID CancellationNotRequested, AFail k (mapRPCError terminalErr)]
           | _ \<Rightarrow>
               (if \<not> dr_streamEnd response \<or> length (dr_body response) > 0
                then [AEnqueue k \<lparr>rf_Body = dr_body response, rf_Sequence = dr_sequence response\<rparr>] else []) @
               (if dr_streamEnd response then [AFinishCall correlationID CancellationNotRequested, AClose k] else []))
      | Err err \<Rightarrow> [AFinishCall correlationID CancellationNotRequested, AFail k (Errorf1 ''malformed RPC response'' err)]
      | Panic \<Rightarrow> [])"

definition handleRPCResponse :: "corr_id \<Rightarrow> bytes \<Rightarrow> rpc_calls \<Rightarrow> action list \<times> rpc_calls" where
  "handleRPCResponse correlationID payload st =
     (if length payload < 1 then ([], st)
      else case rc_pending st correlationID of
             None \<Rightarrow> ([], st)
           | Some k \<Rightarrow> (response_actions correlationID k payload, st))"

definition option_act :: "('a \<Rightarrow> action) \<Rightarrow> 'a option \<Rightarrow> action list" where
  "option_act f x = (case x of None \<Rightarrow> [] | Some y \<Rightarrow> [f y])"

definition finishCall :: "corr_id \<Rightarrow> CancellationOutcome \<Rightarrow> rpc_calls \<Rightarrow> action list \<times> rpc_calls" where
  "finishCall correlationID outcome st =
     (let st1 = st\<lparr>rc_pending := (rc_pending st)(correlationID := None)\<rparr>
      in if correlationID \<in> rc_cancelRequested st then ([], st1)
         else (option_act AStop (rc_cancelTimers st correlationID) @ option_act (\<lambda>k. AComplete k outcome) (rc_calls st correlationID),
               st1\<lparr>rc_calls := (rc_calls st)(correlationID := None), rc_cancelRequested := rc_cancelRequested st - {correlationID},
                   rc_cancelTimers := (rc_cancelTimers st)(correlationID := None)\<rparr>))"

definition finishCancellation :: "corr_id \<Rightarrow> CancellationOutcome \<Rightarrow> rpc_calls \<Rightarrow> action list \<times> rpc_calls" where
  "finishCancellation correlationID outcome st =
     (option_act AStop (rc_cancelTimers st correlationID) @ option_act AClose (rc_pending st correlationID) @
      option_act (\<lambda>k. AComplete k outcome) (rc_calls st correlationID),
      st\<lparr>rc_calls := (rc_calls st)(correlationID := None), rc_pending := (rc_pending st)(correlationID := None),
         rc_cancelRequested := rc_cancelRequested st - {correlationID},
         rc_cancelTimers := (rc_cancelTimers st)(correlationID := None)\<rparr>)"

text \<open>\<open>cancelPendingRPC\<close>; \<open>supported\<close> is \<open>supportsRPCCancellation\<close>.\<close>

definition cancelPendingRPC :: "bool \<Rightarrow> corr_id \<Rightarrow> u8 \<Rightarrow> rpc_calls \<Rightarrow> action list \<times> rpc_calls" where
  "cancelPendingRPC supported correlationID reason st =
     (case rc_calls st correlationID of
        None \<Rightarrow> (option_act AClose (rc_pending st correlationID), st\<lparr>rc_pending := (rc_pending st)(correlationID := None)\<rparr>)
      | Some call \<Rightarrow>
          if correlationID \<in> rc_cancelRequested st then ([], st)
          else (if supported then [AArm correlationID call (rc_pending st correlationID) reason]
                else [AFinishCancellation correlationID CancellationUnsupported],
                st\<lparr>rc_cancelRequested := insert correlationID (rc_cancelRequested st)\<rparr>))"

definition arm_timer :: "corr_id \<Rightarrow> nat \<Rightarrow> nat option \<Rightarrow> u8 \<Rightarrow> rpc_calls \<Rightarrow> action list \<times> rpc_calls" where
  "arm_timer correlationID call stream reason st =
     (let timer = rc_newTimer st;
          st1 = st\<lparr>rc_newTimer := timer + 1, rc_armed := (rc_armed st)(timer \<mapsto> correlationID)\<rparr>
      in if rc_calls st correlationID \<noteq> Some call then ([AStop timer], st1)
         else ([ASendCancel correlationID stream reason],
               st1\<lparr>rc_cancelTimers := (rc_cancelTimers st)(correlationID \<mapsto> timer)\<rparr>))"

definition send_cancel :: "go_error option \<Rightarrow> corr_id \<Rightarrow> nat option \<Rightarrow> action list" where
  "send_cancel sendErr correlationID stream =
     (case sendErr of
        Some err \<Rightarrow> [AFinishCancellation correlationID
                      (if errors_Is err ErrConnectionClosed then CancellationConnectionClosed else CancellationUnconfirmed)]
      | None \<Rightarrow> option_act AClose stream)"

definition complete_call :: "nat \<Rightarrow> CancellationOutcome \<Rightarrow> rpc_calls \<Rightarrow> rpc_calls" where
  "complete_call k outcome st =
     (if it_completed (rc_iter st k) then st
      else upd_iter k (\<lambda>it. it\<lparr>it_completed := True, it_cancellation := it_cancellation it @ [outcome]\<rparr>) st)"

definition lifecycle_outcome :: "u8 \<Rightarrow> CancellationOutcome option" where
  "lifecycle_outcome v =
     map_of [(1, CancellationQueuedRemoved), (2, CancellationForwarded), (3, CancellationWorkerUnsupported),
             (4, CancellationAlreadyTerminal), (5, CancellationUnknown), (6, CancellationForwardingFailed)] v"

definition lifecycle_actions :: "bytes \<Rightarrow> action list" where
  "lifecycle_actions payload =
     (if length payload \<noteq> 18 then []
      else if payload ! 0 \<noteq> 4 then []
      else option_act (AFinishCancellation (take 16 (drop 1 payload))) (lifecycle_outcome (payload ! 17)))"

text \<open>\<open>ClosePendingRPCs\<close>; \<open>order\<close> is the order in which the swapped-out maps are ranged over.\<close>

definition ClosePendingRPCs :: "bool \<Rightarrow> (nat list \<Rightarrow> nat list) \<Rightarrow> rpc_calls \<Rightarrow> action list \<times> rpc_calls" where
  "ClosePendingRPCs invocations order st =
     (if dom (rc_pending st) = {} \<and> dom (rc_calls st) = {} \<and> \<not> invocations then ([], st)
      else let all = (\<lambda>m. order (sorted_list_of_set (ran m)))
      in (map AStop (all (rc_cancelTimers st)) @ map (\<lambda>k. AComplete k CancellationConnectionClosed) (all (rc_calls st)) @
          map (\<lambda>k. AFail k ErrConnectionClosed) (all (rc_pending st)),
          st\<lparr>rc_pending := Map.empty, rc_calls := Map.empty, rc_cancelRequested := {}, rc_cancelTimers := Map.empty\<rparr>))"

text \<open>\<open>Next\<close> up to the stream, one round of its wait on the stream, and \<open>Close\<close>; \<open>ctxErr\<close> is the error of the call's context.\<close>

definition cancel_reason :: "go_error \<Rightarrow> u8" where
  "cancel_reason e = (if errors_Is e DeadlineExceeded then 2 else 1)"

definition end_iteration :: "nat \<Rightarrow> go_error option \<Rightarrow> rpc_calls \<Rightarrow> rpc_calls" where
  "end_iteration k e = upd_iter k (\<lambda>it. it\<lparr>it_err := (case e of None \<Rightarrow> it_err it | Some _ \<Rightarrow> e), it_done := True\<rparr>)"

definition iter_Next :: "go_error option \<Rightarrow> nat \<Rightarrow> rpc_calls \<Rightarrow> action list \<times> rpc_calls" where
  "iter_Next ctxErr k st =
     (if it_done (rc_iter st k) then ([], st)
      else case ctxErr of
             Some e \<Rightarrow> ([ACancel (it_correlationID (rc_iter st k)) (cancel_reason e)], end_iteration k (Some e) st)
           | None \<Rightarrow> ([AReceive k], st))"

definition iter_receive :: "go_error option \<Rightarrow> nat \<Rightarrow> rpc_calls \<Rightarrow> action list \<times> rpc_calls" where
  "iter_receive ctxErr k st =
     (let (r, s) = stream_next (it_stream (rc_iter st k));
          st1 = upd_stream k (\<lambda>_. s) st;
          cancel = option_act (\<lambda>e. ACancel (it_correlationID (rc_iter st k)) (cancel_reason e)) ctxErr
      in case r of
           None \<Rightarrow> (case ctxErr of None \<Rightarrow> ([AReceive k], st1) | Some e \<Rightarrow> (cancel, end_iteration k (Some e) st1))
         | Some (Ok (frame, True)) \<Rightarrow> ([], upd_iter k (\<lambda>it. it\<lparr>it_current := frame\<rparr>) st1)
         | Some (Ok (frame, False)) \<Rightarrow> ([], end_iteration k ctxErr st1)
         | Some (Err e) \<Rightarrow> (cancel, end_iteration k (Some e) st1)
         | Some Panic \<Rightarrow> ([], st1))"

definition iter_Close :: "nat \<Rightarrow> rpc_calls \<Rightarrow> action list \<times> rpc_calls" where
  "iter_Close k st =
     ([AClose k, ACancel (it_correlationID (rc_iter st k)) 1], upd_iter k (\<lambda>it. it\<lparr>it_done := True\<rparr>) st)"

text \<open>One action: what the goroutine does next in its place, and the new state.\<close>

fun exec :: "bool \<Rightarrow> go_error option \<Rightarrow> go_error option \<Rightarrow> (nat list \<Rightarrow> nat list) \<Rightarrow> action \<Rightarrow> rpc_calls \<Rightarrow> action list \<times> rpc_calls" where
  "exec supported sendErr ctxErr order (ACall cid) st = register_call cid st"
| "exec supported sendErr ctxErr order (ASend cid k) st =
     ((case sendErr of None \<Rightarrow> [] | Some e \<Rightarrow> [AFinishCall cid CancellationRequestNotSent, AClose k]), st)"
| "exec supported sendErr ctxErr order (AResponse cid payload) st = handleRPCResponse cid payload st"
| "exec supported sendErr ctxErr order (AEnqueue k frame) st = ([], upd_stream k (\<lambda>s. snd (stream_enqueue frame s)) st)"
| "exec supported sendErr ctxErr order (AClose k) st = ([], upd_stream k stream_close st)"
| "exec supported sendErr ctxErr order (AFail k e) st = ([], upd_stream k (stream_fail e) st)"
| "exec supported sendErr ctxErr order (AFinishCall cid outcome) st = finishCall cid outcome st"
| "exec supported sendErr ctxErr order (ACancel cid reason) st = cancelPendingRPC supported cid reason st"
| "exec supported sendErr ctxErr order (AArm cid k s reason) st = arm_timer cid k s reason st"
| "exec supported sendErr ctxErr order (ASendCancel cid s reason) st = (send_cancel sendErr cid s, st)"
| "exec supported sendErr ctxErr order (AFinishCancellation cid outcome) st = finishCancellation cid outcome st"
| "exec supported sendErr ctxErr order (AComplete k outcome) st = ([], complete_call k outcome st)"
| "exec supported sendErr ctxErr order (AStop t) st = ([], st\<lparr>rc_armed := (rc_armed st)(t := None)\<rparr>)"
| "exec supported sendErr ctxErr order (ALifecycle payload) st = (lifecycle_actions payload, st)"
| "exec supported sendErr ctxErr order (AClosePending invocations) st = ClosePendingRPCs invocations order st"
| "exec supported sendErr ctxErr order (ANext k) st = iter_Next ctxErr k st"
| "exec supported sendErr ctxErr order (AReceive k) st = iter_receive ctxErr k st"
| "exec supported sendErr ctxErr order (AIterClose k) st = iter_Close k st"

section \<open>Goroutines\<close>

text \<open>
  A goroutine does its next action, with any answer of the connection; a call, a response, a cancellation by context or
  iterator, a lifecycle message or the end of the connection starts one; an armed timer fires one.
\<close>

fun starts :: "rpc_calls \<Rightarrow> action \<Rightarrow> bool" where
  "starts st (ACall cid) \<longleftrightarrow> (\<forall>k<rc_newCall st. it_correlationID (rc_iter st k) \<noteq> cid)"
| "starts st (AResponse cid payload) \<longleftrightarrow> True"
| "starts st (ACancel cid reason) \<longleftrightarrow> True"
| "starts st (ALifecycle payload) \<longleftrightarrow> True"
| "starts st (AClosePending invocations) \<longleftrightarrow> True"
| "starts st (ANext k) \<longleftrightarrow> k < rc_newCall st"
| "starts st (AIterClose k) \<longleftrightarrow> k < rc_newCall st"
| "starts st _ \<longleftrightarrow> False"

inductive rpc_step :: "rpc_calls \<times> action list list \<Rightarrow> rpc_calls \<times> action list list \<Rightarrow> bool" where
  run: "(\<And>xs. mset (order xs) = mset xs) \<Longrightarrow> exec supported sendErr ctxErr order a st = (next, st') \<Longrightarrow>
    (\<And>cid. a = ACall cid \<Longrightarrow> starts st a) \<Longrightarrow>
    rpc_step (st, xs @ (a # rest) # ys) (st', xs @ (next @ rest) # ys)"
| start: "starts st a \<Longrightarrow> rpc_step (st, ths) (st, [a] # ths)"
| fire: "rc_armed st t = Some cid \<Longrightarrow>
    rpc_step (st, ths) (st\<lparr>rc_armed := (rc_armed st)(t := None)\<rparr>, [AFinishCancellation cid CancellationUnconfirmed] # ths)"

inductive rpc_reach :: "rpc_calls \<times> action list list \<Rightarrow> bool" where
  init: "rpc_reach (NewClient heap, [])"
| more: "rpc_reach s \<Longrightarrow> rpc_step s s' \<Longrightarrow> rpc_reach s'"

section \<open>Who holds a call\<close>

abbreviation owner :: "rpc_calls \<Rightarrow> nat \<Rightarrow> corr_id" where
  "owner st k \<equiv> it_correlationID (rc_iter st k)"

fun closers :: "action \<Rightarrow> nat set" where
  "closers (AClose k) = {k}"
| "closers (AFail k e) = {k}"
| "closers _ = {}"

definition closing :: "action multiset \<Rightarrow> nat set" where
  "closing as = (\<Union>a\<in>set_mset as. closers a)"

fun completes :: "nat \<Rightarrow> action \<Rightarrow> bool" where
  "completes k (AComplete j o') \<longleftrightarrow> j = k"
| "completes k _ \<longleftrightarrow> False"

definition completing :: "nat \<Rightarrow> action multiset \<Rightarrow> nat" where
  "completing k as = size (filter_mset (completes k) as)"

text \<open>The maps name calls by their correlation id, ids are not shared, and actions name calls that exist.\<close>

definition maps_ok :: "rpc_calls \<Rightarrow> bool" where
  "maps_ok st \<longleftrightarrow>
     (\<forall>cid k. rc_calls st cid = Some k \<longrightarrow> k < rc_newCall st \<and> owner st k = cid) \<and>
     (\<forall>cid k. rc_pending st cid = Some k \<longrightarrow> k < rc_newCall st \<and> owner st k = cid) \<and>
     inj_on (owner st) {..<rc_newCall st}"

fun action_ok :: "rpc_calls \<Rightarrow> action \<Rightarrow> bool" where
  "action_ok st (ASend cid k) \<longleftrightarrow> k < rc_newCall st \<and> owner st k = cid"
| "action_ok st (AArm cid k s r) \<longleftrightarrow> k < rc_newCall st \<and> owner st k = cid \<and> (\<forall>j. s = Some j \<longrightarrow> j < rc_newCall st)"
| "action_ok st (ASendCancel cid s r) \<longleftrightarrow> (\<forall>j. s = Some j \<longrightarrow> j < rc_newCall st)"
| "action_ok st (AEnqueue k f) \<longleftrightarrow> k < rc_newCall st"
| "action_ok st (AClose k) \<longleftrightarrow> k < rc_newCall st"
| "action_ok st (AFail k e) \<longleftrightarrow> k < rc_newCall st"
| "action_ok st (AComplete k oc) \<longleftrightarrow> k < rc_newCall st"
| "action_ok st (AReceive k) \<longleftrightarrow> k < rc_newCall st"
| "action_ok st (ANext k) \<longleftrightarrow> k < rc_newCall st"
| "action_ok st (AIterClose k) \<longleftrightarrow> k < rc_newCall st"
| "action_ok st _ \<longleftrightarrow> True"

text \<open>A call is registered, or about to be completed by one goroutine, or completed: exactly one of these.\<close>

definition held_once :: "rpc_calls \<Rightarrow> action multiset \<Rightarrow> nat \<Rightarrow> bool" where
  "held_once st as k \<longleftrightarrow>
     (if rc_calls st (owner st k) = Some k then 1 else 0) + completing k as + (if it_completed (rc_iter st k) then 1 else 0) = (1::nat) \<and>
     length (it_cancellation (rc_iter st k)) = (if it_completed (rc_iter st k) then 1 else 0)"

text \<open>The stream of a call is closed, or will get an answer, or is about to be closed.\<close>

definition stream_ends :: "rpc_calls \<Rightarrow> action multiset \<Rightarrow> nat \<Rightarrow> bool" where
  "stream_ends st as k \<longleftrightarrow>
     st_closed (it_stream (rc_iter st k)) \<or> rc_pending st (owner st k) = Some k \<or> k \<in> closing as"

text \<open>A requested cancellation is under way or its timer is armed; a timer that is being stopped guards no call.\<close>

definition cancel_ends :: "rpc_calls \<Rightarrow> action multiset \<Rightarrow> corr_id \<Rightarrow> bool" where
  "cancel_ends st as cid \<longleftrightarrow> cid \<in> dom (rc_calls st) \<and>
     ((\<exists>oc. AFinishCancellation cid oc \<in># as) \<or> (\<exists>k s r. AArm cid k s r \<in># as) \<or>
      (\<exists>t. rc_cancelTimers st cid = Some t \<and> rc_armed st t = Some cid))"

definition timers_ok :: "rpc_calls \<Rightarrow> action multiset \<Rightarrow> bool" where
  "timers_ok st as \<longleftrightarrow>
     (\<forall>cid t. rc_cancelTimers st cid = Some t \<longrightarrow> t < rc_newTimer st \<and> AStop t \<notin># as) \<and>
     (\<forall>cid cid' t. rc_cancelTimers st cid = Some t \<longrightarrow> rc_cancelTimers st cid' = Some t \<longrightarrow> cid = cid') \<and>
     (\<forall>t. AStop t \<in># as \<longrightarrow> t < rc_newTimer st)"

definition calls_inv :: "rpc_calls \<Rightarrow> action multiset \<Rightarrow> bool" where
  "calls_inv st as \<longleftrightarrow> maps_ok st \<and> (\<forall>a\<in>#as. action_ok st a) \<and> (\<forall>k<rc_newCall st. held_once st as k \<and> stream_ends st as k) \<and>
     (\<forall>cid\<in>rc_cancelRequested st. cancel_ends st as cid) \<and> timers_ok st as"

lemma calls_invD:
  assumes "calls_inv st as"
  shows "maps_ok st" "\<And>a. a \<in># as \<Longrightarrow> action_ok st a" "\<And>k. k < rc_newCall st \<Longrightarrow> held_once st as k"
    "\<And>k. k < rc_newCall st \<Longrightarrow> stream_ends st as k" "\<And>cid. cid \<in> rc_cancelRequested st \<Longrightarrow> cancel_ends st as cid" "timers_ok st as"
  using assms by (auto simp: calls_inv_def)

lemma calls_invI:
  assumes "maps_ok st" "\<And>a. a \<in># as \<Longrightarrow> action_ok st a" "\<And>k. k < rc_newCall st \<Longrightarrow> held_once st as k"
    "\<And>k. k < rc_newCall st \<Longrightarrow> stream_ends st as k" "\<And>cid. cid \<in> rc_cancelRequested st \<Longrightarrow> cancel_ends st as cid" "timers_ok st as"
  shows "calls_inv st as"
  using assms by (auto simp: calls_inv_def)

text \<open>In a goroutine, finishing a call is followed by closing its stream.\<close>

fun thread_ok :: "rpc_calls \<Rightarrow> action list \<Rightarrow> bool" where
  "thread_ok st [] \<longleftrightarrow> True"
| "thread_ok st (a # as) \<longleftrightarrow>
     (\<forall>cid oc. a = AFinishCall cid oc \<longrightarrow> (\<exists>k\<in>closing (mset as). k < rc_newCall st \<and> owner st k = cid)) \<and> thread_ok st as"

lemma closing_simps [simp]:
  "closing {#} = {}" "closing (as + bs) = closing as \<union> closing bs" "closing (add_mset a as) = closers a \<union> closing as"
  by (auto simp: closing_def)

lemma completing_simps [simp]:
  "completing k {#} = 0" "completing k (as + bs) = completing k as + completing k bs"
  "completing k (add_mset a as) = (if completes k a then 1 else 0) + completing k as"
  by (simp_all add: completing_def)

lemma owner_upd_iter:
  assumes "\<And>it. it_correlationID (f it) = it_correlationID it"
  shows "owner (upd_iter k f st) j = owner st j"
  using assms by (simp add: upd_iter_def)

lemma upd_iter_frame [simp]:
  "rc_calls (upd_iter k f st) = rc_calls st" "rc_pending (upd_iter k f st) = rc_pending st" "rc_newCall (upd_iter k f st) = rc_newCall st"
  "rc_cancelRequested (upd_iter k f st) = rc_cancelRequested st" "rc_cancelTimers (upd_iter k f st) = rc_cancelTimers st"
  "rc_armed (upd_iter k f st) = rc_armed st" "rc_newTimer (upd_iter k f st) = rc_newTimer st"
  by (simp_all add: upd_iter_def)

lemma same_call:
  assumes "maps_ok st" "k < rc_newCall st" "j < rc_newCall st" "owner st k = owner st j"
  shows "k = j"
  using assms by (auto simp: maps_ok_def dest: inj_onD)

section \<open>Actions keep the invariant\<close>

lemma action_ok_frame:
  assumes "action_ok st a" "\<And>k. k < rc_newCall st \<Longrightarrow> k < rc_newCall st' \<and> owner st' k = owner st k"
  shows "action_ok st' a"
  using assms by (cases a) auto

text \<open>An action that holds nothing can be left out.\<close>

fun inert :: "action \<Rightarrow> bool" where
  "inert (AClose k) \<longleftrightarrow> False"
| "inert (AFail k e) \<longleftrightarrow> False"
| "inert (AComplete k oc) \<longleftrightarrow> False"
| "inert (AFinishCancellation cid oc) \<longleftrightarrow> False"
| "inert (AArm cid k s r) \<longleftrightarrow> False"
| "inert _ \<longleftrightarrow> True"

lemma calls_inv_drop:
  assumes inv: "calls_inv st (add_mset a R)" and "inert a"
  shows "calls_inv st R"
proof (rule calls_invI)
  note d = calls_invD [OF inv]
  have c: "closers a = {}" "\<not> completes k a" for k using assms(2) by (cases a; simp)+
  show "maps_ok st" by (rule d)
  show "action_ok st b" if "b \<in># R" for b using d(2) that by simp
  show "held_once st R k" if "k < rc_newCall st" for k using d(3) [OF that] c by (simp add: held_once_def)
  show "stream_ends st R k" if "k < rc_newCall st" for k using d(4) [OF that] c(1) by (simp add: stream_ends_def)
  show "cancel_ends st R cid" if "cid \<in> rc_cancelRequested st" for cid
    using d(5) [OF that] assms(2) by (auto simp: cancel_ends_def)
  show "timers_ok st R" using d(6) by (simp add: timers_ok_def)
qed

lemma completing_0: "(\<And>a. a \<in># as \<Longrightarrow> \<not> completes k a) \<Longrightarrow> completing k as = 0"
  by (induction as) simp_all

lemma register_call_inv:
  assumes inv: "calls_inv st R" and fresh: "starts st (ACall cid)" and ex: "register_call cid st = (next, st')"
  shows "calls_inv st' (mset next + R)"
proof (rule calls_invI)
  note d = calls_invD [OF inv]
  let ?n = "rc_newCall st"
  have st': "rc_newCall st' = ?n + 1" "owner st' ?n = cid" "\<And>k. k < ?n \<Longrightarrow> rc_iter st' k = rc_iter st k"
    "rc_calls st' = (rc_calls st)(cid \<mapsto> ?n)" "rc_pending st' = (rc_pending st)(cid \<mapsto> ?n)" "next = [ASend cid ?n]"
    "rc_cancelRequested st' = rc_cancelRequested st" "rc_cancelTimers st' = rc_cancelTimers st" "rc_armed st' = rc_armed st"
    "rc_newTimer st' = rc_newTimer st" "it_completed (rc_iter st' ?n) = False" "it_cancellation (rc_iter st' ?n) = []"
    using ex by (auto simp: register_call_def Let_def)
  have own: "owner st k \<noteq> cid" if "k < ?n" for k using fresh that by simp
  have free: "rc_calls st cid = None" "rc_pending st cid = None" using d(1) own by (auto simp: maps_ok_def) (metis not_None_eq)+
  have none: "completing ?n R = 0" using d(2) by (intro completing_0) (metis action_ok.simps(7) completes.elims(2) less_irrefl)
  show "maps_ok st'"
    unfolding maps_ok_def
  proof (intro conjI allI impI)
    show "k < rc_newCall st'" "owner st' k = c" if "rc_calls st' c = Some k" for c k
      using that d(1) by (auto simp: maps_ok_def st' intro: less_SucI split: if_splits)
    show "k < rc_newCall st'" "owner st' k = c" if "rc_pending st' c = Some k" for c k
      using that d(1) by (auto simp: maps_ok_def st' intro: less_SucI split: if_splits)
    have "inj_on (owner st') {..<?n}" using d(1) st'(3) by (auto simp: maps_ok_def inj_on_def)
    then show "inj_on (owner st') {..<rc_newCall st'}" using own by (auto simp: lessThan_Suc st' inj_on_def)
  qed
  show "action_ok st' a" if "a \<in># mset next + R" for a
  proof (cases "a \<in># R")
    case True
    then show ?thesis using d(2) action_ok_frame [of st a st'] by (simp add: st')
  qed (use that in \<open>auto simp: st'\<close>)
  show "held_once st' (mset next + R) k" if "k < rc_newCall st'" for k
    using that d(3) [of k] own [of k] none by (cases "k = ?n") (auto simp: held_once_def st')
  show "stream_ends st' (mset next + R) k" if "k < rc_newCall st'" for k
    using that d(4) [of k] own [of k] by (cases "k = ?n") (auto simp: stream_ends_def st')
  show "cancel_ends st' (mset next + R) c" if "c \<in> rc_cancelRequested st'" for c
    using d(5) [of c] that by (auto simp: cancel_ends_def st')
  show "timers_ok st' (mset next + R)" using d(6) by (simp add: timers_ok_def st')
qed

text \<open>Taking on an action that neither completes a call nor stops a timer.\<close>

lemma calls_inv_add:
  assumes inv: "calls_inv st R" and ok: "action_ok st a" and a: "\<And>k. \<not> completes k a" "\<And>t. a \<noteq> AStop t"
  shows "calls_inv st (add_mset a R)"
proof (rule calls_invI)
  note d = calls_invD [OF inv]
  show "maps_ok st" by (rule d)
  show "action_ok st b" if "b \<in># add_mset a R" for b using d(2) ok that by auto
  show "held_once st (add_mset a R) k" if "k < rc_newCall st" for k using d(3) [OF that] a(1) by (simp add: held_once_def)
  show "stream_ends st (add_mset a R) k" if "k < rc_newCall st" for k using d(4) [OF that] by (auto simp: stream_ends_def)
  show "cancel_ends st (add_mset a R) cid" if "cid \<in> rc_cancelRequested st" for cid
    using d(5) [OF that] by (auto simp: cancel_ends_def)
  show "timers_ok st (add_mset a R)" using d(6) a(2) by (auto simp: timers_ok_def)
qed

lemma calls_inv_add_list:
  assumes "calls_inv st R" "\<And>a. a \<in> set as \<Longrightarrow> action_ok st a \<and> (\<forall>k. \<not> completes k a) \<and> (\<forall>t. a \<noteq> AStop t)"
  shows "calls_inv st (mset as + R)"
  using assms(2) by (induction as) (auto intro!: calls_inv_add assms(1))

lemma option_act_mset: "mset (option_act f x) = (case x of None \<Rightarrow> {#} | Some y \<Rightarrow> {#f y#})"
  by (simp add: option_act_def split: option.split)

text \<open>Taking a call out of the maps, with what then has to be done.\<close>

lemma take_out:
  assumes inv: "calls_inv st R" and R: "\<And>k. rc_pending st cid = Some k \<Longrightarrow> k \<in> closing (as + R)"
    and as: "as = (case rc_cancelTimers st cid of None \<Rightarrow> {#} | Some t \<Rightarrow> {#AStop t#}) + bs +
      (case rc_calls st cid of None \<Rightarrow> {#} | Some k \<Rightarrow> {#AComplete k oc#})"
    and bs: "\<And>b. b \<in># bs \<Longrightarrow> action_ok st b \<and> (\<forall>k. \<not> completes k b) \<and> (\<forall>t. b \<noteq> AStop t)"
    and st': "st' = st\<lparr>rc_calls := (rc_calls st)(cid := None), rc_pending := (rc_pending st)(cid := None),
         rc_cancelRequested := rc_cancelRequested st - {cid}, rc_cancelTimers := (rc_cancelTimers st)(cid := None)\<rparr>"
  shows "calls_inv st' (as + R)"
proof (rule calls_invI)
  note d = calls_invD [OF inv]
  have it: "rc_iter st' = rc_iter st" "rc_newCall st' = rc_newCall st" by (simp_all add: st')
  show "maps_ok st'" using d(1) by (auto simp: maps_ok_def st' split: if_splits)
  have "action_ok st b" if "b \<in># as" for b
    using that bs d(1) by (auto simp: as maps_ok_def split: option.splits)
  then show "action_ok st' b" if "b \<in># as + R" for b
    using that d(2) by (auto intro!: action_ok_frame [of st b st'] simp: it)
  have bc: "completing k bs = 0" for k using bs by (intro completing_0) blast
  show "held_once st' (as + R) k" if k: "k < rc_newCall st'" for k
  proof -
    have own: "rc_calls st cid = Some j \<Longrightarrow> owner st j = cid" for j using d(1) by (simp add: maps_ok_def)
    have "completing k as = (if rc_calls st cid = Some k then 1 else 0)"
      using bc by (simp add: as split: option.split)
    moreover have "(rc_calls st' (owner st' k) = Some k) = (rc_calls st (owner st k) = Some k \<and> rc_calls st cid \<noteq> Some k)"
      using own by (auto simp: st')
    moreover have "rc_calls st cid = Some k \<Longrightarrow> rc_calls st (owner st k) = Some k" using own by auto
    ultimately show ?thesis using d(3) [of k] k by (auto simp: held_once_def it split: if_splits)
  qed
  show "stream_ends st' (as + R) k" if k: "k < rc_newCall st'" for k
    using d(4) [of k] k R [of k] by (auto simp: stream_ends_def st')
  show "cancel_ends st' (as + R) c" if "c \<in> rc_cancelRequested st'" for c
    using d(5) [of c] that by (auto simp: cancel_ends_def st')
  show "timers_ok st' (as + R)" using d(6) bs by (auto simp: timers_ok_def st' as split: option.splits)
qed

lemma drop_cancel:
  assumes inv: "calls_inv st (add_mset a R)" and a: "a = AFinishCancellation cid oc \<or> a = AArm cid j s r" "cid \<notin> rc_cancelRequested st"
  shows "calls_inv st R"
proof (rule calls_invI)
  note d = calls_invD [OF inv]
  have c: "closers a = {}" "\<not> completes k a" "\<And>t. a \<noteq> AStop t" for k using a(1) by auto
  show "maps_ok st" by (rule d)
  show "action_ok st b" if "b \<in># R" for b using d(2) that by simp
  show "held_once st R k" if "k < rc_newCall st" for k using d(3) [OF that] c by (simp add: held_once_def)
  show "stream_ends st R k" if "k < rc_newCall st" for k using d(4) [OF that] c(1) by (simp add: stream_ends_def)
  show "cancel_ends st R cid'" if "cid' \<in> rc_cancelRequested st" for cid'
    using d(5) [OF that] a that by (auto simp: cancel_ends_def)
  show "timers_ok st R" using d(6) by (simp add: timers_ok_def)
qed

lemma finishCall_inv:
  assumes inv: "calls_inv st R" and closer: "j \<in> closing R" "j < rc_newCall st" "owner st j = cid"
    and ex: "finishCall cid oc st = (next, st')"
  shows "calls_inv st' (mset next + R)"
proof -
  note d = calls_invD [OF inv]
  have own: "k \<in> closing R" if "rc_pending st cid = Some k" for k
    using same_call [OF d(1), of k j] d(1) that closer by (auto simp: maps_ok_def)
  show ?thesis
  proof (cases "cid \<in> rc_cancelRequested st")
    case True
    then have e: "next = []" "st' = st\<lparr>rc_pending := (rc_pending st)(cid := None)\<rparr>" using ex by (simp_all add: finishCall_def)
    show ?thesis
    proof (rule calls_invI)
      show "maps_ok st'" using d(1) by (auto simp: e maps_ok_def)
      show "action_ok st' a" if "a \<in># mset next + R" for a using d(2) that action_ok_frame [of st a st'] by (simp add: e)
      show "held_once st' (mset next + R) k" if "k < rc_newCall st'" for k using d(3) [of k] that by (simp add: held_once_def e)
      show "stream_ends st' (mset next + R) k" if "k < rc_newCall st'" for k
        using d(4) [of k] that own [of k] by (auto simp: stream_ends_def e)
      show "cancel_ends st' (mset next + R) c" if "c \<in> rc_cancelRequested st'" for c
        using d(5) [of c] that by (simp add: cancel_ends_def e)
      show "timers_ok st' (mset next + R)" using d(6) by (simp add: timers_ok_def e)
    qed
  next
    case False
    have n: "mset next = (case rc_cancelTimers st cid of None \<Rightarrow> {#} | Some t \<Rightarrow> {#AStop t#}) + {#} +
        (case rc_calls st cid of None \<Rightarrow> {#} | Some k \<Rightarrow> {#AComplete k oc#})"
      using ex False by (auto simp: finishCall_def option_act_mset)
    have "st' = st\<lparr>rc_calls := (rc_calls st)(cid := None), rc_pending := (rc_pending st)(cid := None),
         rc_cancelRequested := rc_cancelRequested st - {cid}, rc_cancelTimers := (rc_cancelTimers st)(cid := None)\<rparr>"
      using ex False by (auto simp: finishCall_def)
    then show ?thesis using take_out [OF inv _ n] own by simp
  qed
qed

lemma finishCancellation_inv:
  assumes inv: "calls_inv st (add_mset (AFinishCancellation cid oc') R)" and ex: "finishCancellation cid oc st = (next, st')"
  shows "calls_inv st' (mset next + R)"
proof -
  note d = calls_invD [OF inv]
  let ?bs = "case rc_pending st cid of None \<Rightarrow> {#} | Some k \<Rightarrow> {#AClose k#}"
  have n: "mset next = (case rc_cancelTimers st cid of None \<Rightarrow> {#} | Some t \<Rightarrow> {#AStop t#}) + ?bs +
      (case rc_calls st cid of None \<Rightarrow> {#} | Some k \<Rightarrow> {#AComplete k oc#})"
    and st': "st' = st\<lparr>rc_calls := (rc_calls st)(cid := None), rc_pending := (rc_pending st)(cid := None),
         rc_cancelRequested := rc_cancelRequested st - {cid}, rc_cancelTimers := (rc_cancelTimers st)(cid := None)\<rparr>"
    using ex by (auto simp: finishCancellation_def option_act_mset)
  have "calls_inv st' (mset next + add_mset (AFinishCancellation cid oc') R)"
  proof (rule take_out [OF inv _ n _ st'])
    show "k \<in> closing (mset next + add_mset (AFinishCancellation cid oc') R)" if "rc_pending st cid = Some k" for k
      using that by (simp add: n)
    show "action_ok st b \<and> (\<forall>k. \<not> completes k b) \<and> (\<forall>t. b \<noteq> AStop t)" if "b \<in># ?bs" for b
      using that d(1) by (auto simp: maps_ok_def split: option.splits)
  qed
  then have "calls_inv st' (add_mset (AFinishCancellation cid oc') (mset next + R))" by simp
  then show ?thesis by (rule drop_cancel [where cid = cid]) (auto simp: st')
qed

lemma cancelPendingRPC_inv:
  assumes inv: "calls_inv st R" and ex: "cancelPendingRPC supported cid reason st = (next, st')"
  shows "calls_inv st' (mset next + R)"
proof -
  note d = calls_invD [OF inv]
  have own: "rc_calls st cid = Some k \<or> rc_pending st cid = Some k \<Longrightarrow> k < rc_newCall st \<and> owner st k = cid" for k
    using d(1) by (auto simp: maps_ok_def)
  consider "rc_calls st cid = None" | "cid \<in> rc_cancelRequested st" "rc_calls st cid \<noteq> None"
    | call where "rc_calls st cid = Some call" "cid \<notin> rc_cancelRequested st" by blast
  then show ?thesis
  proof cases
    case 1
    then have "cid \<notin> rc_cancelRequested st" using d(5) [of cid] by (auto simp: cancel_ends_def)
    have e: "mset next = (case rc_pending st cid of None \<Rightarrow> {#} | Some k \<Rightarrow> {#AClose k#})"
        "st' = st\<lparr>rc_pending := (rc_pending st)(cid := None)\<rparr>"
      using ex 1 by (auto simp: cancelPendingRPC_def option_act_mset)
    show ?thesis
    proof (rule calls_invI)
      show "maps_ok st'" using d(1) by (auto simp: e maps_ok_def)
      show "action_ok st' a" if "a \<in># mset next + R" for a
        using d(2) that action_ok_frame [of st a st'] own by (auto simp: e split: option.splits)
      show "held_once st' (mset next + R) k" if "k < rc_newCall st'" for k
        using d(3) [of k] that by (cases "rc_pending st cid") (simp_all add: held_once_def e)
      show "stream_ends st' (mset next + R) k" if "k < rc_newCall st'" for k
        using d(4) [of k] that by (auto simp: stream_ends_def e split: option.split)
      show "cancel_ends st' (mset next + R) c" if "c \<in> rc_cancelRequested st'" for c
        using d(5) [of c] that by (auto simp: cancel_ends_def e)
      show "timers_ok st' (mset next + R)" using d(6) by (auto simp: timers_ok_def e split: option.split)
    qed
  next
    case 2
    then show ?thesis using ex inv by (auto simp: cancelPendingRPC_def)
  next
    case 3
    let ?a = "if supported then AArm cid call (rc_pending st cid) reason else AFinishCancellation cid CancellationUnsupported"
    have e: "next = [?a]" "st' = st\<lparr>rc_cancelRequested := insert cid (rc_cancelRequested st)\<rparr>"
      using ex 3 by (auto simp: cancelPendingRPC_def)
    have "action_ok st ?a" using own [of call] own 3(1) by auto
    then have add: "calls_inv st (add_mset ?a R)" by (intro calls_inv_add [OF inv]) auto
    note d' = calls_invD [OF add]
    show ?thesis
    proof (rule calls_invI)
      show "maps_ok st'" using d(1) by (auto simp: e maps_ok_def)
      show "action_ok st' a" if "a \<in># mset next + R" for a using d'(2) [of a] that action_ok_frame [of st a st'] by (simp add: e)
      show "held_once st' (mset next + R) k" if "k < rc_newCall st'" for k using d'(3) [of k] that by (simp add: held_once_def e)
      show "stream_ends st' (mset next + R) k" if "k < rc_newCall st'" for k using d'(4) [of k] that by (simp add: stream_ends_def e)
      show "cancel_ends st' (mset next + R) c" if "c \<in> rc_cancelRequested st'" for c
        using d'(5) [of c] that 3(1) by (auto simp: cancel_ends_def e split: if_splits)
      show "timers_ok st' (mset next + R)" using d'(6) by (simp add: timers_ok_def e)
    qed
  qed
qed

lemma arm_timer_inv:
  assumes inv: "calls_inv st (add_mset (AArm cid j s r) R)" and ex: "arm_timer cid j s r st = (next, st')"
  shows "calls_inv st' (mset next + R)"
proof -
  note d = calls_invD [OF inv]
  have j: "j < rc_newCall st" "owner st j = cid" "\<And>i. s = Some i \<Longrightarrow> i < rc_newCall st" using d(2) [of "AArm cid j s r"] by simp_all
  define t where "t = rc_newTimer st"
  define reg where "reg \<longleftrightarrow> rc_calls st cid = Some j"
  have e: "next = (if reg then [ASendCancel cid s r] else [AStop t])"
    "st' = (st\<lparr>rc_newTimer := t + 1, rc_armed := (rc_armed st)(t \<mapsto> cid),
       rc_cancelTimers := if reg then (rc_cancelTimers st)(cid \<mapsto> t) else rc_cancelTimers st\<rparr>)"
    using ex by (auto simp: arm_timer_def Let_def t_def reg_def split: if_splits)
  have gone: "cid \<notin> rc_cancelRequested st" if "\<not> reg"
  proof
    assume "cid \<in> rc_cancelRequested st"
    then obtain i where i: "rc_calls st cid = Some i" using d(5) by (auto simp: cancel_ends_def)
    then have "i = j" using d(1) j by (intro same_call [of st]) (auto simp: maps_ok_def)
    then show False using i that by (simp add: reg_def)
  qed
  show ?thesis
  proof (rule calls_invI)
    show "maps_ok st'" using d(1) by (auto simp: e maps_ok_def)
    show "action_ok st' a" if "a \<in># mset next + R" for a
      using d(2) [of a] that j action_ok_frame [of st a st'] by (auto simp: e split: if_splits)
    show "held_once st' (mset next + R) k" if "k < rc_newCall st'" for k
      using d(3) [of k] that by (cases reg) (simp_all add: held_once_def e)
    show "stream_ends st' (mset next + R) k" if "k < rc_newCall st'" for k
      using d(4) [of k] that by (cases reg) (simp_all add: stream_ends_def e)
    show "cancel_ends st' (mset next + R) c" if "c \<in> rc_cancelRequested st'" for c
    proof (cases "c = cid")
      case True
      then show ?thesis using that gone by (auto simp: cancel_ends_def e reg_def)
    next
      case False
      then have "rc_cancelTimers st c = Some i \<Longrightarrow> i \<noteq> t" for i using d(6) by (auto simp: timers_ok_def t_def)
      then show ?thesis using d(5) [of c] that False by (simp add: cancel_ends_def e) blast
    qed
    show "timers_ok st' (mset next + R)" using d(6) by (fastforce simp: timers_ok_def e t_def less_Suc_eq split: if_splits)
  qed
qed

lemma complete_call_inv:
  assumes inv: "calls_inv st (add_mset (AComplete j oc) R)"
  shows "calls_inv (complete_call j oc st) R"
proof -
  note d = calls_invD [OF inv]
  let ?st = "complete_call j oc st"
  have j: "j < rc_newCall st" using d(2) [of "AComplete j oc"] by simp
  then have "\<not> it_completed (rc_iter st j)" using d(3) [of j] by (auto simp: held_once_def split: if_splits)
  then have e: "?st = upd_iter j (\<lambda>it. it\<lparr>it_completed := True, it_cancellation := it_cancellation it @ [oc]\<rparr>) st"
    by (simp add: complete_call_def)
  have own: "owner ?st k = owner st k" for k by (simp add: e upd_iter_def)
  have str: "it_stream (rc_iter ?st k) = it_stream (rc_iter st k)" for k by (simp add: e upd_iter_def)
  have maps: "rc_calls ?st = rc_calls st" "rc_pending ?st = rc_pending st" "rc_newCall ?st = rc_newCall st"
    "rc_cancelRequested ?st = rc_cancelRequested st" "rc_cancelTimers ?st = rc_cancelTimers st" "rc_armed ?st = rc_armed st"
    "rc_newTimer ?st = rc_newTimer st" by (simp_all add: e)
  show ?thesis
  proof (rule calls_invI)
    show "maps_ok ?st" using d(1) by (simp add: maps_ok_def maps own inj_on_def)
    show "action_ok ?st a" if "a \<in># R" for a using d(2) [of a] that action_ok_frame [of st a ?st] by (simp add: own maps)
    show "held_once ?st R k" if "k < rc_newCall ?st" for k
    proof (cases "k = j")
      case True
      then show ?thesis using d(3) [OF j] by (auto simp: held_once_def maps own) (auto simp: e upd_iter_def split: if_splits)
    next
      case False
      then have "rc_iter ?st k = rc_iter st k" by (simp add: e upd_iter_def)
      then show ?thesis using d(3) [of k] that False by (simp add: held_once_def maps)
    qed
    show "stream_ends ?st R k" if "k < rc_newCall ?st" for k using d(4) [of k] that by (simp add: stream_ends_def maps own str)
    show "cancel_ends ?st R c" if "c \<in> rc_cancelRequested ?st" for c using d(5) [of c] that by (auto simp: cancel_ends_def maps)
    show "timers_ok ?st R" using d(6) by (simp add: timers_ok_def maps)
  qed
qed

lemma iter_upd_inv:
  assumes inv: "calls_inv st (as + R)" and as: "\<And>a. a \<in># as \<Longrightarrow> closers a \<subseteq> {j} \<and> (\<forall>k. \<not> completes k a) \<and>
      (\<forall>cid oc. a \<noteq> AFinishCancellation cid oc) \<and> (\<forall>cid k s r. a \<noteq> AArm cid k s r)"
    and same: "\<And>it. it_correlationID (f it) = it_correlationID it \<and> it_completed (f it) = it_completed it \<and>
      it_cancellation (f it) = it_cancellation it"
    and keeps: "st_closed (it_stream (rc_iter st j)) \<Longrightarrow> st_closed (it_stream (f (rc_iter st j)))"
    and closes: "closing as \<noteq> {} \<Longrightarrow> st_closed (it_stream (f (rc_iter st j)))"
  shows "calls_inv (upd_iter j f st) R"
proof -
  note d = calls_invD [OF inv]
  let ?st = "upd_iter j f st"
  have own: "owner ?st k = owner st k" for k using same by (simp add: upd_iter_def)
  have compl: "it_completed (rc_iter ?st k) = it_completed (rc_iter st k)" "it_cancellation (rc_iter ?st k) = it_cancellation (rc_iter st k)"
    for k using same by (simp_all add: upd_iter_def)
  have str: "rc_iter ?st k = (if k = j then f (rc_iter st k) else rc_iter st k)" for k
    by (simp add: upd_iter_def)
  have c: "completing k as = 0" for k using as by (intro completing_0) blast
  have cl: "closing as \<subseteq> {j}" using as by (force simp: closing_def)
  show ?thesis
  proof (rule calls_invI)
    show "maps_ok ?st" using d(1) by (simp add: maps_ok_def own inj_on_def)
    show "action_ok ?st b" if "b \<in># R" for b using d(2) [of b] that action_ok_frame [of st b ?st] by (simp add: own)
    show "held_once ?st R k" if "k < rc_newCall ?st" for k using d(3) [of k] that c by (simp add: held_once_def own compl)
    show "stream_ends ?st R k" if "k < rc_newCall ?st" for k
    proof (cases "k = j")
      case True
      then show ?thesis using d(4) [of k] that keeps closes
        by (cases "closing as = {}") (auto simp: stream_ends_def same str)
    next
      case False
      then show ?thesis using d(4) [of k] that cl by (auto simp: stream_ends_def str)
    qed
    show "cancel_ends ?st R c" if "c \<in> rc_cancelRequested ?st" for c
    proof -
      have "AFinishCancellation c oc \<notin># as" "AArm c k s r \<notin># as" for oc k s r using as by blast+
      then show ?thesis using d(5) [of c] that by (simp add: cancel_ends_def)
    qed
    show "timers_ok ?st R" using d(6) by (simp add: timers_ok_def)
  qed
qed

lemma stream_upd_inv:
  assumes "calls_inv st (add_mset a R)" and "closers a \<subseteq> {j}" "\<And>k. \<not> completes k a" "\<And>cid oc. a \<noteq> AFinishCancellation cid oc"
      "\<And>cid k s r. a \<noteq> AArm cid k s r"
    and "\<And>s. st_closed s \<Longrightarrow> st_closed (g s)" and "closers a \<noteq> {} \<Longrightarrow> (\<And>s. st_closed (g s))"
  shows "calls_inv (upd_stream j g st) R"
  unfolding upd_stream_def using assms by (intro iter_upd_inv [of st "{#a#}"]) auto

text \<open>Receiving keeps the stream's end; it changes nothing else that the invariant speaks of.\<close>

lemma stream_next_closed: "st_closed (snd (stream_next s)) = st_closed s"
  by (simp add: stream_next_def compactLocked_def Let_def)

lemma end_iteration_inv:
  assumes "calls_inv st R"
  shows "calls_inv (end_iteration k e st) R"
  unfolding end_iteration_def using assms by (intro iter_upd_inv [of st "{#}"]) auto

lemma receive_stream_inv:
  assumes "calls_inv st R"
  shows "calls_inv (upd_stream k (\<lambda>_. snd (stream_next (it_stream (rc_iter st k)))) st) R"
  unfolding upd_stream_def using assms by (intro iter_upd_inv [of st "{#}"]) (auto simp: stream_next_closed)

lemma iter_receive_inv:
  assumes inv: "calls_inv st R" and k: "k < rc_newCall st" and ex: "iter_receive ctxErr k st = (next, st')"
  shows "calls_inv st' (mset next + R)"
proof -
  let ?cid = "it_correlationID (rc_iter st k)"
  obtain r s where rs: "stream_next (it_stream (rc_iter st k)) = (r, s)" by fastforce
  define st1 where "st1 = upd_stream k (\<lambda>_. s) st"
  have st1: "calls_inv st1 R" "rc_newCall st1 = rc_newCall st"
    using receive_stream_inv [OF inv, of k] by (simp_all add: rs st1_def upd_stream_def)
  then have frame: "calls_inv (upd_iter k (\<lambda>it. it\<lparr>it_current := f\<rparr>) st1) R" for f
    by (intro iter_upd_inv [of st1 "{#}"]) auto
  have more: "calls_inv (end_iteration k e st1) (mset (option_act (\<lambda>e. ACancel ?cid (cancel_reason e)) ctxErr) + R)" for e
    by (intro calls_inv_add_list end_iteration_inv st1) (auto simp: option_act_def split: option.splits)
  show ?thesis
    using ex frame more end_iteration_inv [OF st1(1)] st1(1) calls_inv_add [OF st1(1), of "AReceive k"] k st1(2)
    by (auto simp: iter_receive_def rs st1_def [symmetric] Let_def option_act_def split: option.splits res.splits bool.splits)
qed

text \<open>A timer that is stopped or that fires is disarmed.\<close>

lemma disarm_inv:
  assumes inv: "calls_inv st R" and guards: "\<And>c. c \<in> rc_cancelRequested st \<Longrightarrow> rc_cancelTimers st c = Some t \<Longrightarrow> rc_armed st t = Some c \<Longrightarrow> AFinishCancellation c oc \<in># R"
  shows "calls_inv (st\<lparr>rc_armed := (rc_armed st)(t := None)\<rparr>) R" (is "calls_inv ?st R")
proof (rule calls_invI)
  note d = calls_invD [OF inv]
  show "maps_ok ?st" using d(1) by (simp add: maps_ok_def)
  show "action_ok ?st b" if "b \<in># R" for b using d(2) [of b] that action_ok_frame [of st b ?st] by simp
  show "held_once ?st R k" if "k < rc_newCall ?st" for k using d(3) [of k] that by (simp add: held_once_def)
  show "stream_ends ?st R k" if "k < rc_newCall ?st" for k using d(4) [of k] that by (simp add: stream_ends_def)
  show "cancel_ends ?st R c" if "c \<in> rc_cancelRequested ?st" for c
    using d(5) [of c] guards [of c] that
    by (cases "rc_cancelTimers st c = Some t \<and> rc_armed st t = Some c") (simp_all add: cancel_ends_def, metis+)
  show "timers_ok ?st R" using d(6) by (simp add: timers_ok_def)
qed

lemma completing_map:
  "distinct xs \<Longrightarrow> completing k (mset (map (\<lambda>k. AComplete k oc) xs)) = (if k \<in> set xs then 1 else 0)"
  "completing k (mset (map AStop xs)) = 0" "completing k (mset (map (\<lambda>k. AFail k e) xs)) = 0"
  by (induction xs, auto intro!: completing_0)

lemma closing_map:
  "closing (mset (map (\<lambda>k. AFail k e) xs)) = set xs" "closing (mset (map AStop ts)) = {}"
  "closing (mset (map (\<lambda>k. AComplete k oc) xs)) = {}"
  by (simp_all add: closing_def)

lemma ClosePendingRPCs_inv:
  assumes inv: "calls_inv st R" and order: "\<And>xs. mset (order xs) = mset xs" and ex: "ClosePendingRPCs True order st = (next, st')"
  shows "calls_inv st' (mset next + R)"
proof (rule calls_invI)
  note d = calls_invD [OF inv]
  define all where "all m = order (sorted_list_of_set (ran m))" for m :: "corr_id \<rightharpoonup> nat"
  have st': "st' = st\<lparr>rc_pending := Map.empty, rc_calls := Map.empty, rc_cancelRequested := {}, rc_cancelTimers := Map.empty\<rparr>"
    and n: "next = map AStop (all (rc_cancelTimers st)) @ map (\<lambda>k. AComplete k CancellationConnectionClosed) (all (rc_calls st)) @
        map (\<lambda>k. AFail k ErrConnectionClosed) (all (rc_pending st))"
    using ex by (auto simp: ClosePendingRPCs_def Let_def all_def)
  have "set (all m) = ran m" if "finite (ran m)" for m
    using order [of "sorted_list_of_set (ran m)"] that by (metis all_def set_mset_mset set_sorted_list_of_set)
  moreover have "ran (rc_calls st) \<subseteq> {..<rc_newCall st}" "ran (rc_pending st) \<subseteq> {..<rc_newCall st}" "ran (rc_cancelTimers st) \<subseteq> {..<rc_newTimer st}"
    using d(1,6) by (auto simp: maps_ok_def timers_ok_def ran_def)
  ultimately have sets: "set (all (rc_calls st)) = ran (rc_calls st)" "set (all (rc_pending st)) = ran (rc_pending st)"
      "set (all (rc_cancelTimers st)) = ran (rc_cancelTimers st)"
    by (meson finite_lessThan finite_subset)+
  have dist: "distinct (all m)" for m
    using order [of "sorted_list_of_set (ran m)"] by (metis all_def distinct_sorted_list_of_set mset_eq_imp_distinct_iff)
  show "maps_ok st'" using d(1) by (simp add: maps_ok_def st')
  show "action_ok st' a" if "a \<in># mset next + R" for a
  proof -
    have "action_ok st a" using that d(1,2) by (auto simp: n sets ran_def maps_ok_def)
    then show ?thesis by (rule action_ok_frame) (simp add: st')
  qed
  show "held_once st' (mset next + R) k" if "k < rc_newCall st'" for k
  proof -
    have "k \<in> ran (rc_calls st) \<longleftrightarrow> rc_calls st (owner st k) = Some k" using d(1) by (auto simp: ran_def maps_ok_def)
    then show ?thesis using d(3) [of k] that
      by (auto simp: held_once_def n completing_map dist sets st' simp del: mset_map split: if_splits)
  qed
  show "stream_ends st' (mset next + R) k" if "k < rc_newCall st'" for k
    using d(4) [of k] that by (auto simp: stream_ends_def n closing_map sets st' ran_def simp del: mset_map)
  show "cancel_ends st' (mset next + R) c" if "c \<in> rc_cancelRequested st'" for c using that by (simp add: st')
  show "timers_ok st' (mset next + R)" using d(6) by (auto simp: timers_ok_def n sets st' ran_def)
qed

lemma response_actions_ok:
  assumes "a \<in> set (response_actions cid k payload)" "k < rc_newCall st"
  shows "action_ok st a \<and> (\<forall>k. \<not> completes k a) \<and> (\<forall>t. a \<noteq> AStop t)"
  using assms by (auto simp: response_actions_def Let_def split: res.splits if_splits)

lemma lifecycle_actions_ok:
  assumes "a \<in> set (lifecycle_actions payload)"
  shows "action_ok st a \<and> (\<forall>k. \<not> completes k a) \<and> (\<forall>t. a \<noteq> AStop t)"
  using assms by (auto simp: lifecycle_actions_def option_act_def split: option.splits if_splits)

lemma exec_inv:
  assumes inv: "calls_inv st (add_mset a R)" and ex: "exec supported sendErr ctxErr order a st = (next, st')"
    and order: "\<And>xs. mset (order xs) = mset xs" and fresh: "\<And>cid. a = ACall cid \<Longrightarrow> starts st a"
    and closer: "\<And>cid oc. a = AFinishCall cid oc \<Longrightarrow> \<exists>k\<in>closing R. k < rc_newCall st \<and> owner st k = cid"
  shows "calls_inv st' (mset next + R)"
proof -
  note d = calls_invD [OF inv]
  have R: "calls_inv st R" if "inert a" using inv that by (rule calls_inv_drop)
  show ?thesis
  proof (cases a)
    case (ACall cid)
    then show ?thesis using register_call_inv R fresh ex by simp
  next
    case (ASend cid k)
    then show ?thesis using R d(2) [of a] ex by (auto intro!: calls_inv_add split: option.splits)
  next
    case (AResponse cid payload)
    have "calls_inv st (mset (response_actions cid k payload) + R)" if "rc_pending st cid = Some k" for k
      using R AResponse that d(1) by (intro calls_inv_add_list response_actions_ok) (auto simp: maps_ok_def)
    then show ?thesis using R AResponse ex by (auto simp: handleRPCResponse_def split: if_splits option.splits)
  next
    case (AFinishCall cid oc)
    then show ?thesis using finishCall_inv [of st R] R closer ex by auto
  next
    case (ACancel cid reason)
    then show ?thesis using cancelPendingRPC_inv R ex by simp
  next
    case (ASendCancel cid s reason)
    have "calls_inv st (mset (send_cancel sendErr cid s) + R)"
      using R ASendCancel d(2) [of a]
      by (intro calls_inv_add_list) (auto simp: send_cancel_def option_act_def split: option.splits)
    then show ?thesis using ASendCancel ex by auto
  next
    case (AStop t)
    have "AStop t \<in># add_mset a R" by (simp add: AStop)
    then have "rc_cancelTimers st c \<noteq> Some t" for c using d(6) by (auto simp: timers_ok_def)
    then show ?thesis using disarm_inv [OF R] AStop ex by auto
  next
    case (ALifecycle payload)
    have "calls_inv st (mset (lifecycle_actions payload) + R)"
      using R ALifecycle by (intro calls_inv_add_list lifecycle_actions_ok) auto
    then show ?thesis using ALifecycle ex by auto
  next
    case (AClosePending invocations)
    have "ClosePendingRPCs invocations order st = ([], st) \<or> ClosePendingRPCs invocations order st = ClosePendingRPCs True order st"
      by (simp add: ClosePendingRPCs_def)
    then show ?thesis using ClosePendingRPCs_inv [OF _ order] R AClosePending ex by auto
  next
    case (AReceive k)
    then show ?thesis using iter_receive_inv R d(2) [of a] ex by simp
  next
    case (ANext k)
    then show ?thesis using R d(2) [of a] ex
      by (auto intro!: calls_inv_add end_iteration_inv simp: iter_Next_def split: if_splits option.splits)
  next
    case (AIterClose k)
    then have "calls_inv (upd_iter k (\<lambda>it. it\<lparr>it_done := True\<rparr>) st) R" using R by (intro iter_upd_inv [of st "{#}"]) auto
    then show ?thesis using AIterClose d(2) [of a] ex by (auto intro!: calls_inv_add simp: iter_Close_def)
  qed (use inv ex in \<open>auto intro!: stream_upd_inv complete_call_inv elim!: arm_timer_inv finishCancellation_inv
      simp: stream_enqueue_def stream_close_def stream_fail_def closeWithError_def split: if_splits\<close>)
qed

text \<open>Actions keep the iterators of the calls, and finish a call only together with its stream.\<close>

lemma exec_owner:
  assumes "exec supported sendErr ctxErr order a st = (next, st')"
  shows "rc_newCall st \<le> rc_newCall st' \<and> (\<forall>k<rc_newCall st. owner st' k = owner st k)"
  using assms
  by (cases a) (auto simp: register_call_def handleRPCResponse_def finishCall_def cancelPendingRPC_def arm_timer_def finishCancellation_def
    complete_call_def ClosePendingRPCs_def iter_Next_def iter_receive_def iter_Close_def end_iteration_def upd_stream_def upd_iter_def Let_def
    split: if_splits option.splits res.splits prod.splits bool.splits)

lemma thread_ok_mono:
  assumes "thread_ok st as" "rc_newCall st \<le> rc_newCall st'" "\<And>k. k < rc_newCall st \<Longrightarrow> owner st' k = owner st k"
  shows "thread_ok st' as"
  using assms by (induction as) (fastforce intro: less_le_trans)+

lemma thread_ok_append:
  assumes "thread_ok st as" "thread_ok st bs"
  shows "thread_ok st (as @ bs)"
  using assms by (induction as) auto

lemma thread_ok_no_finish: "(\<And>cid oc. AFinishCall cid oc \<notin> set as) \<Longrightarrow> thread_ok st as"
  by (induction as) auto

lemma exec_thread_ok:
  assumes maps: "maps_ok st" and ok: "action_ok st a" and ex: "exec supported sendErr ctxErr order a st = (next, st')"
  shows "thread_ok st' next"
proof (cases a)
  case (ASend cid k)
  then show ?thesis using ok ex by (auto split: option.splits)
next
  case (AResponse cid payload)
  have "thread_ok st (response_actions cid k payload)" if "rc_pending st cid = Some k" for k
    using that maps by (auto simp: response_actions_def maps_ok_def split: res.splits)
  then show ?thesis using AResponse ex by (auto simp: handleRPCResponse_def split: if_splits option.splits)
qed (use ex in \<open>auto intro!: thread_ok_no_finish simp: register_call_def finishCall_def cancelPendingRPC_def arm_timer_def
    finishCancellation_def send_cancel_def lifecycle_actions_def ClosePendingRPCs_def iter_Next_def iter_receive_def iter_Close_def option_act_def Let_def
    split: if_splits option.splits res.splits prod.splits bool.splits\<close>)

lemma rpc_step_inv:
  assumes "rpc_step s s'" "calls_inv (fst s) (mset (concat (snd s)))" "\<forall>th\<in>set (snd s). thread_ok (fst s) th"
  shows "calls_inv (fst s') (mset (concat (snd s'))) \<and> (\<forall>th\<in>set (snd s'). thread_ok (fst s') th)"
  using assms
proof (induction rule: rpc_step.induct)
  case (run order supported sendErr ctxErr a st "next" st' xs rest ys)
  let ?R = "mset rest + mset (concat xs) + mset (concat ys)"
  have inv: "calls_inv st (add_mset a ?R)" using run.prems(1) by (simp add: ac_simps)
  have ths: "thread_ok st (a # rest)" using run.prems(2) by simp
  have "calls_inv st' (mset next + ?R)"
    using ths by (intro exec_inv [OF inv run.hyps(2,1,3)]) auto
  moreover have grow: "thread_ok st th \<Longrightarrow> thread_ok st' th" for th
    using exec_owner [OF run.hyps(2)] thread_ok_mono by blast
  moreover have "thread_ok st' (next @ rest)"
    using ths exec_thread_ok [OF _ _ run.hyps(2)] calls_invD(1,2) [OF inv] by (intro thread_ok_append [OF _ grow]) auto
  ultimately show ?case using run.prems(2) by (auto simp: ac_simps)
next
  case (start st a ths)
  then show ?case by (cases a) (auto intro: calls_inv_add)
next
  case (fire st t cid ths)
  let ?a = "AFinishCancellation cid CancellationUnconfirmed"
  have "calls_inv st (add_mset ?a (mset (concat ths)))" using fire by (auto intro: calls_inv_add)
  then have "calls_inv (st\<lparr>rc_armed := (rc_armed st)(t := None)\<rparr>) (add_mset ?a (mset (concat ths)))"
    using fire.hyps by (intro disarm_inv [where oc = CancellationUnconfirmed]) auto
  then show ?case using fire.prems(2) thread_ok_mono [of st _ "st\<lparr>rc_armed := (rc_armed st)(t := None)\<rparr>"] by simp
qed

lemma rpc_reach_inv:
  assumes "rpc_reach s"
  shows "calls_inv (fst s) (mset (concat (snd s))) \<and> (\<forall>th\<in>set (snd s). thread_ok (fst s) th)"
  using assms
proof (induction rule: rpc_reach.induct)
  case (init heap)
  then show ?case by (auto simp: NewClient_def calls_inv_def maps_ok_def timers_ok_def)
next
  case (more s s')
  then show ?case using rpc_step_inv by blast
qed

text \<open>C30: Whatever the interleaving of calls, responses, context and iterator cancellations, lifecycle messages, timers and the
  end of the connection: a call reports at most one cancellation outcome and none while it is registered; when no goroutine
  is running, a call is still registered or has reported its outcome, its stream still expects responses or is closed, and
  a requested cancellation has a timer that will end it.
\<close>

theorem rpc_outcome_exactly_once:
  assumes "rpc_reach (st, ths)" "k < rc_newCall st"
  shows "length (it_cancellation (rc_iter st k)) \<le> 1 \<and>
    (rc_calls st (it_correlationID (rc_iter st k)) = Some k \<longrightarrow> it_cancellation (rc_iter st k) = []) \<and>
    (concat ths = [] \<longrightarrow>
      (rc_calls st (it_correlationID (rc_iter st k)) = Some k \<or> length (it_cancellation (rc_iter st k)) = 1) \<and>
      (rc_pending st (it_correlationID (rc_iter st k)) = Some k \<or> st_closed (it_stream (rc_iter st k))) \<and>
      (it_correlationID (rc_iter st k) \<in> rc_cancelRequested st \<longrightarrow>
         (\<exists>t. rc_armed st t = Some (it_correlationID (rc_iter st k)))))"
proof -
  define as where "as = mset (concat ths)"
  have inv: "calls_inv st as" using rpc_reach_inv [OF assms(1)] by (simp add: as_def)
  have idle: "as = {#}" if "concat ths = []" using that by (simp add: as_def del: concat_eq_Nil_conv)
  show ?thesis
    using calls_invD(3,4) [OF inv assms(2)] calls_invD(5) [OF inv, of "owner st k"] idle
    by (cases "concat ths = []") (auto simp: held_once_def stream_ends_def cancel_ends_def simp del: concat_eq_Nil_conv split: if_splits)
qed

lemma reach_run:
  assumes "rpc_reach (st, (a # rest) # ths)" "\<And>cid. a = ACall cid \<Longrightarrow> starts st a"
  shows "rpc_reach (snd (exec supported sendErr None (\<lambda>xs. xs) a st), (fst (exec supported sendErr None (\<lambda>xs. xs) a st) @ rest) # ths)"
  using rpc_step.run [of "\<lambda>xs. xs" supported sendErr None a st _ _ "[]" rest ths] assms by (auto intro: rpc_reach.more)

text \<open>A call whose request cannot be sent.\<close>

theorem rpc_outcome_exactly_once_witness:
  "\<exists>st. rpc_reach (st, [[]]) \<and> 0 < rc_newCall st \<and> it_cancellation (rc_iter st 0) = [CancellationRequestNotSent] \<and>
     length (it_cancellation (rc_iter st 0)) \<le> 1 \<and> rc_pending st [] = None \<and> st_closed (it_stream (rc_iter st 0))"
proof -
  let ?it = "\<lparr>it_correlationID = [], it_stream = newResponseStream, it_completed = False, it_cancellation = [],
                it_current = zero_frame, it_err = None, it_done = False\<rparr>"
  note calc = register_call_def NewClient_def finishCall_def complete_call_def upd_stream_def upd_iter_def option_act_def Let_def
  have "rpc_reach (NewClient (\<lambda>_. ?it), [[ACall []]])"
    by (rule rpc_reach.more [OF rpc_reach.init rpc_step.start]) (simp add: NewClient_def)
  from reach_run [OF this, of True None] have r: "rpc_reach (snd (register_call [] (NewClient (\<lambda>_. ?it))), [[ASend [] 0]])"
    by (simp add: calc)
  note r1 = reach_run [OF this, of True "Some ErrConnectionClosed", simplified]
  note r2 = reach_run [OF r1, simplified, simplified calc, simplified]
  note r3 = reach_run [OF r2, simplified, simplified calc, simplified]
  note r4 = reach_run [OF r3, simplified, simplified calc, simplified]
  have "\<exists>st. rpc_reach (st, [[]]) \<and> rc_newCall st = 1 \<and> rc_iter st 0 = ?it\<lparr>it_completed := True,
     it_cancellation := [CancellationRequestNotSent], it_stream := stream_close newResponseStream\<rparr> \<and> rc_pending st [] = None"
    by (rule exI, rule conjI, rule r4) simp
  then show ?thesis using rpc_outcome_exactly_once [of _ "[[]]" 0] by force
qed

section \<open>Errors from worker to caller\<close>

definition caller_error :: "go_error \<Rightarrow> go_error" where
  "caller_error err = mapRPCError (DomainError
     \<lparr>de_code = (if is_timeout err then RpcTimeout else RpcBackendError), de_class = (if is_timeout err then 7 else 6), de_effect = 1,
      de_message = sent_message err\<rparr>)"

lemma error_response_actions:
  "response_actions cid k (PutUint64 q @ [1] @ PutUint32 (u32_len (error_body err)) @ error_body err) =
     [AFinishCall cid CancellationNotRequested, AFail k (caller_error err)]"
proof -
  have "length (error_body err) > 0 \<and> error_body err ! 0 = 1" by (simp add: error_body_def Let_def)
  then show ?thesis unfolding response_actions_def error_response_decoded by (simp add: error_body_parsed caller_error_def)
qed

lemma caller_error_kind:
  "errors_Is (caller_error err) ErrRPCTimeout = is_timeout err" "\<not> errors_Is (caller_error ErrRPCBackpressure) ErrRPCBackpressure"
proof -
  have "\<not> is_timeout ErrRPCBackpressure"
    by (simp add: is_timeout_def ErrRPCBackpressure_def DeadlineExceeded_def ErrRPCTimeout_def errors_Is_def)
  then show "errors_Is (caller_error err) ErrRPCTimeout = is_timeout err" "\<not> errors_Is (caller_error ErrRPCBackpressure) ErrRPCBackpressure"
    by (auto simp: caller_error_def mapRPCError_def error_simps ErrRPCTimeout_def ErrRPCBackpressure_def errors_Is_def Errorf2_def)
qed

lemma caller_error_domain:
  "errors_As_domain (caller_error err) = Some
     \<lparr>de_code = (if is_timeout err then RpcTimeout else RpcBackendError), de_class = (if is_timeout err then 7 else 6), de_effect = 1,
      de_message = sent_message err\<rparr>"
  by (simp add: caller_error_def mapRPCError_def Errorf2_def ErrRPCTimeout_def error_simps)

text \<open>C35: What a caller learns of a worker's failure. The one frame \<open>sendError\<close> sends is an RPC response that ends the stream of
  the call with that correlation id: its pending call is finished, and its reader gets, after the frames it has not yet read, an
  error with the text of the worker's error (cut to 1024 bytes). A timeout stays recognisable as \<open>ErrRPCTimeout\<close>, and every
  other error arrives as a backend error. That includes \<open>ErrRPCBackpressure\<close>, which a worker sends when it refuses a
  request: the caller cannot recognise it.\<close>

theorem worker_error_reaches_caller:
  assumes "rc_pending st (rw_correlationID w) = Some k"
  shows "(\<exists>payload s'. sendError (recording c) err w (s, h) = (s', h @ [(MessageTypeRpcResponse, rw_correlationID w @ payload)]) \<and>
     handleRPCResponse (rw_correlationID w) payload st =
       ([AFinishCall (rw_correlationID w) CancellationNotRequested, AFail k (caller_error err)], st)) \<and>
   (\<not> st_closed (it_stream (rc_iter st' k)) \<longrightarrow>
     unread (it_stream (rc_iter (snd (exec supported sendErr ctxErr order (AFail k (caller_error err)) st')) k)) =
       (fst (unread (it_stream (rc_iter st' k))), Some (Some (caller_error err)))) \<and>
   errors_As_domain (caller_error err) = Some
       \<lparr>de_code = (if is_timeout err then RpcTimeout else RpcBackendError), de_class = (if is_timeout err then 7 else 6), de_effect = 1,
        de_message = sent_message err\<rparr> \<and>
   (length (Error err) \<le> 1024 \<longrightarrow> sent_message err = Error err) \<and>
   errors_Is (caller_error err) ErrRPCTimeout = is_timeout err \<and>
   \<not> errors_Is (caller_error ErrRPCBackpressure) ErrRPCBackpressure"
proof -
  let ?p = "PutUint64 (rw_seq w) @ [1] @ PutUint32 (u32_len (error_body err)) @ error_body err"
  have w: "rpcResponsePayloadWriter (rw_correlationID w) (rw_seq w) (error_body err) True [] = rw_correlationID w @ ?p"
    by (simp add: rpcResponsePayloadWriter_def write_seq_simps writer_defs u32_len_def)
  have "handleRPCResponse (rw_correlationID w) ?p st =
      ([AFinishCall (rw_correlationID w) CancellationNotRequested, AFail k (caller_error err)], st)"
    using assms unfolding handleRPCResponse_def error_response_actions by simp
  moreover have "\<exists>s'. sendError (recording c) err w (s, h) = (s', h @ [(MessageTypeRpcResponse, rw_correlationID w @ ?p)])"
    unfolding w [symmetric] by (simp add: sendError_def recording_def split: prod.split)
  moreover have "unread (stream_fail e x) = (fst (unread x), Some (Some e))" if "\<not> st_closed x" for e x
    using that by (simp add: stream_fail_def closeWithError_def unread_def)
  moreover have "length (Error err) \<le> 1024 \<longrightarrow> sent_message err = Error err" by (simp add: sent_message_def)
  ultimately show ?thesis
    using caller_error_kind caller_error_domain by (intro conjI) (blast, simp_all add: upd_stream_def upd_iter_def)
qed

theorem worker_error_reaches_caller_witness:
  "\<exists>payload s' st. sendError (recording failing_api) ErrRPCTimeout \<lparr>rw_correlationID = [], rw_seq = 2\<rparr> ((), []) =
       (s', [(MessageTypeRpcResponse, payload)]) \<and>
     handleRPCResponse [] payload st = ([AFinishCall [] CancellationNotRequested, AFail 0 (caller_error ErrRPCTimeout)], st) \<and>
     errors_Is (caller_error ErrRPCTimeout) ErrRPCTimeout \<and> sent_message ErrRPCTimeout = ''rpc timeout''"
proof -
  let ?it = "\<lparr>it_correlationID = [], it_stream = newResponseStream, it_completed = False, it_cancellation = [],
                it_current = zero_frame, it_err = None, it_done = False\<rparr>"
  define st where "st = snd (register_call [] (NewClient (\<lambda>_. ?it)))"
  define w where "w = \<lparr>rw_correlationID = [], rw_seq = (2 :: u64)\<rparr>"
  have "rc_pending st (rw_correlationID w) = Some 0" by (simp add: st_def w_def register_call_def NewClient_def Let_def)
  from worker_error_reaches_caller [OF this, of failing_api ErrRPCTimeout "()" "[]" st]
  have ok: "\<exists>payload s'. sendError (recording failing_api) ErrRPCTimeout w ((), []) = (s', [(MessageTypeRpcResponse, payload)]) \<and>
       handleRPCResponse [] payload st = ([AFinishCall [] CancellationNotRequested, AFail 0 (caller_error ErrRPCTimeout)], st)"
    "length (Error ErrRPCTimeout) \<le> 1024 \<longrightarrow> sent_message ErrRPCTimeout = Error ErrRPCTimeout"
    "errors_Is (caller_error ErrRPCTimeout) ErrRPCTimeout = is_timeout ErrRPCTimeout" by (simp_all add: w_def)
  have "is_timeout ErrRPCTimeout" by (simp add: is_timeout_def errors_Is_def ErrRPCTimeout_def)
  moreover have "Error ErrRPCTimeout = ''rpc timeout''" by (simp add: ErrRPCTimeout_def)
  ultimately have "errors_Is (caller_error ErrRPCTimeout) ErrRPCTimeout" "sent_message ErrRPCTimeout = ''rpc timeout''"
    using ok(2,3) by simp_all
  moreover obtain payload s' where "sendError (recording failing_api) ErrRPCTimeout w ((), []) = (s', [(MessageTypeRpcResponse, payload)])"
    "handleRPCResponse [] payload st = ([AFinishCall [] CancellationNotRequested, AFail 0 (caller_error ErrRPCTimeout)], st)"
    using ok(1) by blast
  ultimately show ?thesis unfolding w_def by blast
qed

end
