(* ===== verification/Rpc_Workers.thy ===== *)
theory Rpc_Workers
  imports Rpc_Domain "HOL-Library.Multiset"
begin

text \<open>
  The worker's side of RPC (\<^verbatim>\<open>internal/domains/rpc/rpc.go\<close>, \<^verbatim>\<open>internal/domains/rpc/lifecycle.go\<close>): the registrations of
  workers and their restore after a reconnect, with the wire calls outside the lock, and the invocations of handlers:
  a request is buffered, started, cancelled by a lifecycle message or the end of the connection, and answered. A
  goroutine is the list of critical sections and sends it has still to do; goroutines interleave.
\<close>

section \<open>Registrations\<close>

text \<open>The maps \<open>workers\<close> (a handler is a number), \<open>workerVersions\<close> and \<open>workerConcurrency\<close> of the client.\<close>

record worker_maps =
  wk_workers :: "string \<rightharpoonup> nat"
  wk_versions :: "string \<rightharpoonup> u64"
  wk_concurrency :: "string \<rightharpoonup> u32"
  wk_next :: u64
  wk_initialized :: bool

definition no_workers :: worker_maps where
  "no_workers = \<lparr>wk_workers = Map.empty, wk_versions = Map.empty, wk_concurrency = Map.empty, wk_next = 0, wk_initialized = False\<rparr>"

record worker_sub =
  ws_route :: string
  ws_version :: u64

text \<open>A request answered by the standard envelope, as both SUBSCRIBE_WORKER and UNSUBSCRIBE_WORKER are sent.\<close>

definition worker_request :: "'s conn_api \<Rightarrow> string \<Rightarrow> u16 \<Rightarrow> writer \<Rightarrow> (unit, 's) op" where
  "worker_request c name t w s =
     (case api_send c t w s of
        (Err err, s') \<Rightarrow> (Err (Errorf1 (name @ '' request failed'') err), s')
      | (Panic, s') \<Rightarrow> (Panic, s')
      | (Ok resp, s') \<Rightarrow>
          (case ParseStandardResponse resp of
             Err err \<Rightarrow> (Err (Errorf1 (name @ '' failed'') (mapRPCError err)), s')
           | Panic \<Rightarrow> (Panic, s')
           | Ok (success, _) \<Rightarrow> (if success then Ok () else Err (ErrNew (name @ '' failed: unexpected status'')), s')))"

text \<open>\<open>cancellation\<close> is \<open>supportsRPCCancellation\<close>, the negotiated version being at least 2.\<close>

definition restoreSubscribeWorker :: "'s conn_api \<Rightarrow> bool \<Rightarrow> string \<Rightarrow> u32 \<Rightarrow> (unit, 's) op" where
  "restoreSubscribeWorker c cancellation route maxConcurrent =
     worker_request c ''SUBSCRIBE_WORKER'' MessageTypeRpcSubscribeWorker
       (rpcSubscribeWorkerPayloadWriterWithCancellation route maxConcurrent cancellation)"

definition commit_worker :: "string \<Rightarrow> u32 \<Rightarrow> nat \<Rightarrow> worker_maps \<Rightarrow> worker_sub \<times> worker_maps" where
  "commit_worker route maxConcurrent handler w =
     (let version = wk_next w + 1
      in (\<lparr>ws_route = route, ws_version = version\<rparr>,
          w\<lparr>wk_next := version, wk_workers := (wk_workers w)(route \<mapsto> handler),
            wk_concurrency := (wk_concurrency w)(route \<mapsto> maxConcurrent), wk_versions := (wk_versions w)(route \<mapsto> version)\<rparr>))"

definition subscribeWorker ::
  "'s conn_api \<Rightarrow> bool \<Rightarrow> string \<Rightarrow> u32 \<Rightarrow> nat \<Rightarrow> 's \<times> worker_maps \<Rightarrow> worker_sub res \<times> 's \<times> worker_maps" where
  "subscribeWorker c cancellation route maxConcurrent handler = (\<lambda>(s, w).
     case restoreSubscribeWorker c cancellation route maxConcurrent s of
       (Ok _, s') \<Rightarrow> (case commit_worker route maxConcurrent handler w of (sub, w') \<Rightarrow> (Ok sub, s', w'))
     | (Err e, s') \<Rightarrow> (Err e, s', w)
     | (Panic, s') \<Rightarrow> (Panic, s', w))"

text \<open>\<open>register\<close> hands the three handlers to the connection.\<close>

definition initRPCHandler :: "('s \<Rightarrow> 's) \<Rightarrow> 's \<times> worker_maps \<Rightarrow> 's \<times> worker_maps" where
  "initRPCHandler register = (\<lambda>(s, w). if wk_initialized w then (s, w) else (register s, w\<lparr>wk_initialized := True\<rparr>))"

definition rpc_ReplaceConnection :: "('s \<Rightarrow> 's) \<Rightarrow> 's \<Rightarrow> worker_maps \<Rightarrow> 's \<times> worker_maps" where
  "rpc_ReplaceConnection register conn w = (if wk_initialized w then register conn else conn, w)"

definition RegisterWorker ::
  "'s conn_api \<Rightarrow> ('s \<Rightarrow> 's) \<Rightarrow> bool \<Rightarrow> string \<Rightarrow> u32 \<Rightarrow> nat \<Rightarrow> 's \<times> worker_maps \<Rightarrow> worker_sub res \<times> 's \<times> worker_maps" where
  "RegisterWorker c register cancellation route maxConcurrent handler = (\<lambda>(s, w).
     case ValidateRegistrationPattern route ''rpc'' 0 of
       Err e \<Rightarrow> (Err (Errorf1 ''invalid route'' e), s, w)
     | Panic \<Rightarrow> (Panic, s, w)
     | Ok _ \<Rightarrow>
         if maxConcurrent < 1 \<or> maxConcurrent > 1024 then (Err (ErrNew ''maxConcurrent must be between 1 and 1024''), s, w)
         else if wk_workers w route \<noteq> None
         then (Err (ErrNew (''worker route '' @ quoted route @ '' is already registered'')), s, w)
         else subscribeWorker c cancellation route maxConcurrent handler (initRPCHandler register (s, w)))"

definition drop_worker :: "string \<Rightarrow> u64 \<Rightarrow> worker_maps \<Rightarrow> worker_maps option" where
  "drop_worker route version w =
     (if (case wk_versions w route of None \<Rightarrow> 0 | Some v \<Rightarrow> v) \<noteq> version then None
      else Some (w\<lparr>wk_workers := (wk_workers w)(route := None), wk_versions := (wk_versions w)(route := None),
                   wk_concurrency := (wk_concurrency w)(route := None)\<rparr>))"

definition unsubscribeWorker :: "'s conn_api \<Rightarrow> string \<Rightarrow> u64 \<Rightarrow> 's \<times> worker_maps \<Rightarrow> unit res \<times> 's \<times> worker_maps" where
  "unsubscribeWorker c route version = (\<lambda>(s, w).
     case drop_worker route version w of
       None \<Rightarrow> (Ok (), s, w)
     | Some w' \<Rightarrow>
         (case worker_request c ''UNSUBSCRIBE_WORKER'' MessageTypeRpcUnsubscribeWorker (rpcUnsubscribeWorkerPayloadWriter route) s of
            (r, s') \<Rightarrow> (r, s', w')))"

text \<open>\<open>rollbackRestoredWorker\<close>: the outcome of the request is ignored.\<close>

definition rollbackRestoredWorker :: "'s conn_api \<Rightarrow> string \<Rightarrow> 's \<Rightarrow> 's" where
  "rollbackRestoredWorker c route s = snd (api_send c MessageTypeRpcUnsubscribeWorker (rpcUnsubscribeWorkerPayloadWriter route) s)"

text \<open>The wire half of \<open>RestoreSubscriptions\<close>, on the snapshot in the order the map is ranged over.\<close>

fun restore_workers :: "'s conn_api \<Rightarrow> bool \<Rightarrow> (string \<times> u32) list \<Rightarrow> string list \<Rightarrow> (unit, 's) op" where
  "restore_workers c cancellation [] restored s = (Ok (), s)"
| "restore_workers c cancellation ((route, maxConcurrent) # rest) restored s =
     (case restoreSubscribeWorker c cancellation route maxConcurrent s of
        (Ok _, s') \<Rightarrow> restore_workers c cancellation rest (restored @ [route]) s'
      | (Err e, s') \<Rightarrow> (Err e, fold (rollbackRestoredWorker c) (rev restored) s')
      | (Panic, s') \<Rightarrow> (Panic, s'))"

text \<open>Its last critical section: \<open>maps.Copy(c.workers, snapshot)\<close>.\<close>

definition commit_restore :: "(string \<rightharpoonup> nat) \<Rightarrow> worker_maps \<Rightarrow> worker_maps" where
  "commit_restore snapshot w = w\<lparr>wk_workers := wk_workers w ++ snapshot\<rparr>"

text \<open>\<open>during\<close> is what other goroutines do to the maps while the requests are under way.\<close>

definition rpc_RestoreSubscriptions ::
  "'s conn_api \<Rightarrow> bool \<Rightarrow> string list \<Rightarrow> (worker_maps \<Rightarrow> worker_maps) \<Rightarrow> 's \<times> worker_maps \<Rightarrow> unit res \<times> 's \<times> worker_maps" where
  "rpc_RestoreSubscriptions c cancellation routes during = (\<lambda>(s, w).
     case restore_workers c cancellation (map (\<lambda>r. (r, case wk_concurrency w r of None \<Rightarrow> 0 | Some n \<Rightarrow> n)) routes) [] s of
       (Ok _, s') \<Rightarrow> (Ok (), s', commit_restore (wk_workers w) (during w))
     | (Err e, s') \<Rightarrow> (Err e, s', during w)
     | (Panic, s') \<Rightarrow> (Panic, s', during w))"

section \<open>Invocations\<close>

text \<open>
  \<open>iv_cancel\<close> is whether the invocation has its cancel function, \<open>iv_ran\<close>, \<open>iv_terminal\<close> and \<open>iv_removed\<close> record that its handler was
  called, the final frames sent (None is the end of the stream) and that a lifecycle message removed it while buffered;
  \<open>iv_dropped\<close> records that its task was accepted by the queue of handlers and then dropped.
\<close>

record activeRPCInvocation =
  iv_cancel :: bool
  iv_cancellationRequested :: bool
  iv_ran :: bool
  iv_terminal :: "go_error option list"
  iv_removed :: bool
  iv_dropped :: bool

record rpc_invocations =
  ri_active :: "corr_id \<rightharpoonup> nat"
  ri_inv :: "nat \<Rightarrow> activeRPCInvocation"
  ri_new :: nat
  ri_acks :: "corr_id list"

datatype waction =
    WRequest bytes
  | WLaunch corr_id nat
  | WClaim corr_id nat
  | WStart corr_id nat
  | WHandle corr_id nat
  | WReturned corr_id nat "go_error option"
  | WTerminal nat "go_error option"
  | WFinish corr_id nat
  | WFinishAck corr_id nat
  | WAck corr_id
  | WLifecycle bytes
  | WClose

definition upd_inv :: "nat \<Rightarrow> (activeRPCInvocation \<Rightarrow> activeRPCInvocation) \<Rightarrow> rpc_invocations \<Rightarrow> rpc_invocations" where
  "upd_inv k f st = st\<lparr>ri_inv := (ri_inv st)(k := f (ri_inv st k))\<rparr>"

text \<open>\<open>handleWorkerRequest\<close> up to the launch of its task; \<open>workers\<close> are the routes registered.\<close>

definition handleWorkerRequest :: "string list \<Rightarrow> bytes \<Rightarrow> rpc_invocations \<Rightarrow> waction list \<times> rpc_invocations" where
  "handleWorkerRequest workers payload st =
     (case decode_worker_request payload of
        Ok (Some (req, budget)) \<Rightarrow>
          (case find_worker (ir_Route req) workers of
             None \<Rightarrow> ([], st)
           | Some _ \<Rightarrow>
               let k = ri_new st;
                   active = \<lparr>iv_cancel = False, iv_cancellationRequested = False, iv_ran = False, iv_terminal = [], iv_removed = False,
                     iv_dropped = False\<rparr>
               in ([WLaunch (ir_CorrelationID req) k],
                   st\<lparr>ri_inv := (ri_inv st)(k := active), ri_new := k + 1,
                      ri_active := (ri_active st)(ir_CorrelationID req \<mapsto> k)\<rparr>))
      | _ \<Rightarrow> ([], st))"

text \<open>What follows \<open>LaunchAsyncHandler\<close>: the task is queued, or refused when the queue of handlers is full.\<close>

definition launch_worker :: "bool \<Rightarrow> corr_id \<Rightarrow> nat \<Rightarrow> waction list" where
  "launch_worker accepted correlationID k =
     (if accepted then [WClaim correlationID k]
      else [WFinish correlationID k, WTerminal k (Some ErrRPCBackpressure), WAck correlationID])"

text \<open>
  A queued task is run when a goroutine of the pool claims it and gets a slot. It is dropped without a trace in the client when its time limit
  has passed by then, or the connection is shutting down (\<open>claimAsyncHandlerJob\<close>, \<open>executeAsyncHandlerJob\<close> and
  \<open>drainAsyncHandlerJobsLocked\<close> of the connection).
\<close>

definition claim_worker :: "bool \<Rightarrow> corr_id \<Rightarrow> nat \<Rightarrow> rpc_invocations \<Rightarrow> waction list \<times> rpc_invocations" where
  "claim_worker claimed correlationID k st =
     (if claimed then ([WStart correlationID k], st) else ([], upd_inv k (\<lambda>a. a\<lparr>iv_dropped := True\<rparr>) st))"

text \<open>The task up to the handler; \<open>ctxErr\<close> is the error of the request's context.\<close>

definition start_worker :: "go_error option \<Rightarrow> corr_id \<Rightarrow> nat \<Rightarrow> rpc_invocations \<Rightarrow> waction list \<times> rpc_invocations" where
  "start_worker ctxErr correlationID k st =
     ((if iv_cancellationRequested (ri_inv st k) then [WFinish correlationID k, WAck correlationID]
       else case ctxErr of
              Some err \<Rightarrow> [WTerminal k (Some err), WFinish correlationID k, WAck correlationID]
            | None \<Rightarrow> [WHandle correlationID k]),
      upd_inv k (\<lambda>a. a\<lparr>iv_cancel := True\<rparr>) st)"

definition workerCancellationRequested :: "corr_id \<Rightarrow> nat \<Rightarrow> rpc_invocations \<Rightarrow> bool" where
  "workerCancellationRequested correlationID k st \<longleftrightarrow>
     ri_active st correlationID = Some k \<and> iv_cancellationRequested (ri_inv st k)"

definition after_handler :: "corr_id \<Rightarrow> nat \<Rightarrow> go_error option \<Rightarrow> rpc_invocations \<Rightarrow> waction list" where
  "after_handler correlationID k handlerErr st =
     (if workerCancellationRequested correlationID k st then [WFinishAck correlationID k]
      else [WTerminal k handlerErr, WFinish correlationID k, WAck correlationID])"

definition finishWorkerInvocation :: "corr_id \<Rightarrow> nat \<Rightarrow> rpc_invocations \<Rightarrow> bool \<times> rpc_invocations" where
  "finishWorkerInvocation correlationID k st =
     (iv_cancellationRequested (ri_inv st k),
      if ri_active st correlationID \<noteq> Some k then st else st\<lparr>ri_active := (ri_active st)(correlationID := None)\<rparr>)"

definition sendWorkerCleanupAck :: "bool \<Rightarrow> corr_id \<Rightarrow> rpc_invocations \<Rightarrow> rpc_invocations" where
  "sendWorkerCleanupAck cancellation correlationID st =
     (if cancellation then st\<lparr>ri_acks := ri_acks st @ [correlationID]\<rparr> else st)"

text \<open>\<open>handleRPCLifecycle\<close> for a cancellation of an invocation.\<close>

definition worker_lifecycle :: "bytes \<Rightarrow> rpc_invocations \<Rightarrow> waction list \<times> rpc_invocations" where
  "worker_lifecycle payload st =
     (if length payload \<noteq> 18 then ([], st)
      else let correlationID = take 16 (drop 1 payload); value = payload ! 17
           in if payload ! 0 = 2 \<and> 1 \<le> value \<and> value \<le> 4 then
                (case ri_active st correlationID of
                   None \<Rightarrow> ([], st)
                 | Some k \<Rightarrow>
                     if iv_cancel (ri_inv st k) then ([], upd_inv k (\<lambda>a. a\<lparr>iv_cancellationRequested := True\<rparr>) st)
                     else ([WAck correlationID],
                           upd_inv k (\<lambda>a. a\<lparr>iv_cancellationRequested := True, iv_removed := True\<rparr>)
                             (st\<lparr>ri_active := (ri_active st)(correlationID := None)\<rparr>)))
              else ([], st))"

text \<open>What \<open>ClosePendingRPCs\<close> does with the invocations.\<close>

definition close_invocations :: "rpc_invocations \<Rightarrow> rpc_invocations" where
  "close_invocations st =
     st\<lparr>ri_active := Map.empty,
        ri_inv := (\<lambda>k. if k \<in> ran (ri_active st) then (ri_inv st k)\<lparr>iv_cancellationRequested := True\<rparr> else ri_inv st k)\<rparr>"

text \<open>\<open>accepted\<close> says, for the launch of a task, whether the queue takes it and, for a queued task, whether it is claimed.\<close>

fun wexec ::
  "string list \<Rightarrow> bool \<Rightarrow> bool \<Rightarrow> go_error option \<Rightarrow> go_error option \<Rightarrow> waction \<Rightarrow> rpc_invocations \<Rightarrow> waction list \<times> rpc_invocations" where
  "wexec workers accepted cancellation ctxErr handlerErr (WRequest payload) st = handleWorkerRequest workers payload st"
| "wexec workers accepted cancellation ctxErr handlerErr (WLaunch cid k) st = (launch_worker accepted cid k, st)"
| "wexec workers accepted cancellation ctxErr handlerErr (WClaim cid k) st = claim_worker accepted cid k st"
| "wexec workers accepted cancellation ctxErr handlerErr (WStart cid k) st = start_worker ctxErr cid k st"
| "wexec workers accepted cancellation ctxErr handlerErr (WHandle cid k) st =
     ([WReturned cid k handlerErr], upd_inv k (\<lambda>a. a\<lparr>iv_ran := True\<rparr>) st)"
| "wexec workers accepted cancellation ctxErr handlerErr (WReturned cid k e) st = (after_handler cid k e st, st)"
| "wexec workers accepted cancellation ctxErr handlerErr (WTerminal k e) st =
     ([], upd_inv k (\<lambda>a. a\<lparr>iv_terminal := iv_terminal a @ [e]\<rparr>) st)"
| "wexec workers accepted cancellation ctxErr handlerErr (WFinish cid k) st = ([], snd (finishWorkerInvocation cid k st))"
| "wexec workers accepted cancellation ctxErr handlerErr (WFinishAck cid k) st =
     (case finishWorkerInvocation cid k st of (requested, st') \<Rightarrow> (if requested then [WAck cid] else [], st'))"
| "wexec workers accepted cancellation ctxErr handlerErr (WAck cid) st = ([], sendWorkerCleanupAck cancellation cid st)"
| "wexec workers accepted cancellation ctxErr handlerErr (WLifecycle payload) st = worker_lifecycle payload st"
| "wexec workers accepted cancellation ctxErr handlerErr WClose st = ([], close_invocations st)"

definition no_invocations :: "(nat \<Rightarrow> activeRPCInvocation) \<Rightarrow> rpc_invocations" where
  "no_invocations heap = \<lparr>ri_active = Map.empty, ri_inv = heap, ri_new = 0, ri_acks = []\<rparr>"

fun wstarts :: "waction \<Rightarrow> bool" where
  "wstarts (WRequest payload) \<longleftrightarrow> True"
| "wstarts (WLifecycle payload) \<longleftrightarrow> True"
| "wstarts WClose \<longleftrightarrow> True"
| "wstarts _ \<longleftrightarrow> False"

inductive worker_reach :: "rpc_invocations \<times> waction list list \<Rightarrow> bool" where
  init: "worker_reach (no_invocations heap, [])"
| start: "worker_reach (st, ths) \<Longrightarrow> wstarts a \<Longrightarrow> worker_reach (st, [a] # ths)"
| run: "worker_reach (st, xs @ (a # rest) # ys) \<Longrightarrow>
    wexec workers accepted cancellation ctxErr handlerErr a st = (next, st') \<Longrightarrow>
    worker_reach (st', xs @ (next @ rest) # ys)"

section \<open>How invocations end\<close>

text \<open>An action that will give the invocation its final frame, and one that will take it out of the map.\<close>

fun drives :: "nat \<Rightarrow> waction \<Rightarrow> bool" where
  "drives k (WLaunch cid j) \<longleftrightarrow> j = k"
| "drives k (WClaim cid j) \<longleftrightarrow> j = k"
| "drives k (WStart cid j) \<longleftrightarrow> j = k"
| "drives k (WHandle cid j) \<longleftrightarrow> j = k"
| "drives k (WReturned cid j e) \<longleftrightarrow> j = k"
| "drives k (WTerminal j e) \<longleftrightarrow> j = k"
| "drives k _ \<longleftrightarrow> False"

fun takes_out :: "corr_id \<Rightarrow> nat \<Rightarrow> waction \<Rightarrow> bool" where
  "takes_out c k (WLaunch cid j) \<longleftrightarrow> c = cid \<and> j = k"
| "takes_out c k (WClaim cid j) \<longleftrightarrow> c = cid \<and> j = k"
| "takes_out c k (WStart cid j) \<longleftrightarrow> c = cid \<and> j = k"
| "takes_out c k (WHandle cid j) \<longleftrightarrow> c = cid \<and> j = k"
| "takes_out c k (WReturned cid j e) \<longleftrightarrow> c = cid \<and> j = k"
| "takes_out c k (WFinish cid j) \<longleftrightarrow> c = cid \<and> j = k"
| "takes_out c k (WFinishAck cid j) \<longleftrightarrow> c = cid \<and> j = k"
| "takes_out c k _ \<longleftrightarrow> False"

fun handles :: "nat \<Rightarrow> waction \<Rightarrow> bool" where
  "handles k (WHandle cid j) \<longleftrightarrow> j = k"
| "handles k _ \<longleftrightarrow> False"

fun waits_start :: "nat \<Rightarrow> waction \<Rightarrow> bool" where
  "waits_start k (WLaunch cid j) \<longleftrightarrow> j = k"
| "waits_start k (WClaim cid j) \<longleftrightarrow> j = k"
| "waits_start k (WStart cid j) \<longleftrightarrow> j = k"
| "waits_start k _ \<longleftrightarrow> False"

lemma waits_start_drives: "waits_start k a \<Longrightarrow> drives k a" "handles k a \<Longrightarrow> drives k a"
  by (cases a; simp)+

definition driving :: "nat \<Rightarrow> waction multiset \<Rightarrow> nat" where
  "driving k as = size (filter_mset (drives k) as)"

lemma driving_simps [simp]:
  "driving k {#} = 0" "driving k (as + bs) = driving k as + driving k bs"
  "driving k (add_mset a as) = (if drives k a then 1 else 0) + driving k as"
  by (simp_all add: driving_def)

text \<open>Each invocation: one goroutine will end it, or it has its final frame, or its task was dropped, or it was cancelled.\<close>

definition ends_of :: "nat \<Rightarrow> waction multiset \<Rightarrow> activeRPCInvocation \<Rightarrow> nat" where
  "ends_of k as a = driving k as + length (iv_terminal a) + (if iv_dropped a then 1 else 0)"

definition inv_ok :: "rpc_invocations \<Rightarrow> waction multiset \<Rightarrow> nat \<Rightarrow> bool" where
  "inv_ok st as k \<longleftrightarrow>
     ends_of k as (ri_inv st k) \<le> 1 \<and>
     (ends_of k as (ri_inv st k) = 0 \<longrightarrow> iv_cancellationRequested (ri_inv st k)) \<and>
     (iv_ran (ri_inv st k) \<or> (\<exists>a\<in>#as. handles k a) \<longrightarrow> iv_cancel (ri_inv st k) \<and> \<not> iv_removed (ri_inv st k)) \<and>
     (iv_removed (ri_inv st k) \<longrightarrow> iv_cancellationRequested (ri_inv st k)) \<and>
     (iv_dropped (ri_inv st k) \<or> (\<exists>a\<in>#as. waits_start k a) \<longrightarrow> \<not> iv_cancel (ri_inv st k))"

definition active_ok :: "rpc_invocations \<Rightarrow> waction multiset \<Rightarrow> bool" where
  "active_ok st as \<longleftrightarrow> (\<forall>cid k. ri_active st cid = Some k \<longrightarrow> k < ri_new st \<and> ((\<exists>a\<in>#as. takes_out cid k a) \<or> iv_dropped (ri_inv st k))) \<and>
     (\<forall>a\<in>#as. \<forall>k. drives k a \<longrightarrow> k < ri_new st)"

definition workers_inv :: "rpc_invocations \<Rightarrow> waction multiset \<Rightarrow> bool" where
  "workers_inv st as \<longleftrightarrow> active_ok st as \<and> (\<forall>k<ri_new st. inv_ok st as k)"

lemma undriven:
  assumes "active_ok st as" "ri_new st \<le> k"
  shows "driving k as = 0" "\<not> (\<exists>a\<in>#as. handles k a)" "\<not> (\<exists>a\<in>#as. waits_start k a)"
proof -
  have "a \<in># as \<Longrightarrow> \<not> drives k a" for a using assms by (force simp: active_ok_def)
  then show "driving k as = 0" by (auto simp: driving_def)
  show "\<not> (\<exists>a\<in>#as. handles k a)" "\<not> (\<exists>a\<in>#as. waits_start k a)"
    using \<open>\<And>a. a \<in># as \<Longrightarrow> \<not> drives k a\<close> waits_start_drives by blast+
qed

lemma request_inv:
  assumes inv: "workers_inv st (add_mset (WRequest payload) R)" and ex: "handleWorkerRequest workers payload st = (next, st')"
  shows "workers_inv st' (mset next + R)"
proof (cases "next = []")
  case True
  then have "st' = st" using ex by (auto simp: handleWorkerRequest_def Let_def split: res.splits option.splits prod.splits)
  then show ?thesis using inv True by (simp add: workers_inv_def active_ok_def inv_ok_def ends_of_def)
next
  case False
  let ?k = "ri_new st"
  obtain cid where e: "next = [WLaunch cid ?k]" "ri_active st' = (ri_active st)(cid \<mapsto> ?k)" "ri_new st' = ?k + 1"
    "ri_inv st' = (ri_inv st)(?k := \<lparr>iv_cancel = False, iv_cancellationRequested = False, iv_ran = False, iv_terminal = [], iv_removed = False,
      iv_dropped = False\<rparr>)"
    using ex False by (auto simp: handleWorkerRequest_def Let_def split: res.splits option.splits prod.splits)
  have R: "active_ok st R" using inv by (simp add: workers_inv_def active_ok_def)
  have "active_ok st' (mset next + R)" using R by (auto simp: active_ok_def e intro: less_SucI)
  moreover have "inv_ok st' (mset next + R) k" if "k < ri_new st'" for k
    using that inv undriven [OF R, of k] by (cases "k = ?k") (auto simp: inv_ok_def ends_of_def workers_inv_def e)
  ultimately show ?thesis by (simp add: workers_inv_def)
qed

text \<open>An action that replaces itself by others and changes only the invocation it drives.\<close>

lemma drive_inv:
  assumes inv: "workers_inv st (add_mset a R)" and k: "drives k a" "ends_of k (mset next) (f (ri_inv st k)) \<le> 1"
      "ends_of k (mset next) (f (ri_inv st k)) = 0 \<Longrightarrow> iv_cancellationRequested (ri_inv st k)"
    and out: "\<And>cid. takes_out cid k a \<Longrightarrow> (\<exists>b\<in>set next. takes_out cid k b) \<or> iv_dropped (f (ri_inv st k))"
    and flags: "iv_cancellationRequested (f (ri_inv st k)) = iv_cancellationRequested (ri_inv st k)" "iv_removed (f (ri_inv st k)) = iv_removed (ri_inv st k)"
    and cancel: "iv_cancel (ri_inv st k) \<Longrightarrow> iv_cancel (f (ri_inv st k))"
    and hnd: "iv_ran (f (ri_inv st k)) \<or> (\<exists>b\<in>set next. handles k b) \<Longrightarrow> iv_ran (ri_inv st k) \<or> handles k a \<or>
      (\<not> iv_cancellationRequested (ri_inv st k) \<and> iv_cancel (f (ri_inv st k)))"
    and early: "iv_dropped (f (ri_inv st k)) \<or> (\<exists>b\<in>set next. waits_start k b) \<Longrightarrow> waits_start k a \<and> iv_cancel (f (ri_inv st k)) = iv_cancel (ri_inv st k)"
    and others: "\<And>b j. b \<in> set next \<Longrightarrow> drives j b \<or> handles j b \<Longrightarrow> j = k" "\<And>cid j. takes_out cid j a \<Longrightarrow> j = k" "\<And>j. drives j a \<Longrightarrow> j = k"
  shows "workers_inv (upd_inv k f st) (mset next + R)"
proof -
  let ?st = "upd_inv k f st"
  have act: "active_ok st (add_mset a R)" and ok: "\<And>j. j < ri_new st \<Longrightarrow> inv_ok st (add_mset a R) j"
    using inv by (simp_all add: workers_inv_def)
  have kn: "k < ri_new st" using act k(1) by (simp add: active_ok_def)
  have same: "ri_active ?st = ri_active st" "ri_new ?st = ri_new st" "\<And>j. j \<noteq> k \<Longrightarrow> ri_inv ?st j = ri_inv st j" "ri_inv ?st k = f (ri_inv st k)"
    by (simp_all add: upd_inv_def)
  have one: "driving k R = 0" "iv_terminal (ri_inv st k) = []" "\<not> iv_dropped (ri_inv st k)"
    using ok [OF kn] k(1) by (auto simp: inv_ok_def ends_of_def split: if_splits)
  have quiet: "\<not> drives k b" if "b \<in># R" for b using one(1) that by (auto simp: driving_def)
  have "(\<exists>b\<in>#mset next + R. takes_out cid j b) \<or> iv_dropped (ri_inv ?st j)" if "ri_active st cid = Some j" for cid j
  proof -
    from act that have "takes_out cid j a \<or> (\<exists>b\<in>#R. takes_out cid j b) \<or> iv_dropped (ri_inv st j)" by (auto simp: active_ok_def)
    then show ?thesis
    proof (elim disjE)
      assume t: "takes_out cid j a"
      then have "j = k" by (rule others(2))
      then show ?thesis using out [of cid] t unfolding same(4) [symmetric] by auto
    next
      assume d: "iv_dropped (ri_inv st j)"
      then have "j \<noteq> k" using one(3) by auto
      then show ?thesis using d same(3) by simp
    qed auto
  qed
  moreover have "j < ri_new st" if "b \<in># mset next + R" "drives j b" for b j
    using that act kn others(1) [of b j] by (auto simp: active_ok_def)
  ultimately have "active_ok ?st (mset next + R)" using act by (simp add: active_ok_def same(1,2))
  moreover have "inv_ok ?st (mset next + R) j" if j: "j < ri_new ?st" for j
  proof (cases "j = k")
    case True
    have R: "\<not> (\<exists>b\<in>#R. handles k b)" "\<not> (\<exists>b\<in>#R. waits_start k b)" using quiet waits_start_drives by blast+
    have "ends_of k (mset next + R) (f (ri_inv st k)) = ends_of k (mset next) (f (ri_inv st k))" using one(1) by (simp add: ends_of_def)
    moreover have "(\<exists>b\<in>#mset next + R. handles k b) = (\<exists>b\<in>set next. handles k b)" "(\<exists>b\<in>#mset next + R. waits_start k b) = (\<exists>b\<in>set next. waits_start k b)"
      using R by auto
    moreover have "\<not> iv_cancel (f (ri_inv st k))" if "iv_dropped (f (ri_inv st k)) \<or> (\<exists>b\<in>set next. waits_start k b)"
      using early [OF that] ok [OF kn] by (auto simp: inv_ok_def)
    moreover have "iv_cancel (f (ri_inv st k)) \<and> \<not> iv_removed (ri_inv st k)" if "iv_ran (f (ri_inv st k)) \<or> (\<exists>b\<in>set next. handles k b)"
      using hnd [OF that] ok [OF kn] cancel by (auto simp: inv_ok_def)
    ultimately show ?thesis using ok [OF kn] k(2,3) flags unfolding True inv_ok_def same(4) by metis
  next
    case False
    have "b \<in> set next \<Longrightarrow> \<not> drives j b" for b using others(1) False by blast
    then have "driving j (mset next) = 0" "\<not> (\<exists>b\<in>set next. handles j b)" "\<not> (\<exists>b\<in>set next. waits_start j b)"
      using waits_start_drives by (auto simp: driving_def, blast+)
    moreover have "\<not> drives j a" using others(3) False by blast
    ultimately show ?thesis using ok [of j] j False waits_start_drives [of j a] by (auto simp: inv_ok_def ends_of_def same)
  qed
  ultimately show ?thesis by (simp add: workers_inv_def)
qed

lemma drop_action:
  assumes "workers_inv st (add_mset a R)" "\<And>k. \<not> drives k a" "\<And>cid k. ri_active st cid = Some k \<Longrightarrow> \<not> takes_out cid k a"
  shows "workers_inv st R"
proof -
  have "\<not> handles k a" "\<not> waits_start k a" for k using assms(2) [of k] waits_start_drives by blast+
  then show ?thesis using assms by (auto simp: workers_inv_def active_ok_def inv_ok_def ends_of_def)
qed

lemma finish_inv:
  assumes inv: "workers_inv st (add_mset a R)" and a: "a = WFinish cid k \<or> a = WFinishAck cid k" 
  shows "workers_inv (snd (finishWorkerInvocation cid k st)) R"
proof -
  let ?st = "snd (finishWorkerInvocation cid k st)"
  have same: "ri_inv ?st = ri_inv st" "ri_new ?st = ri_new st" "ri_active ?st cid \<noteq> Some k"
    "\<And>c j. ri_active ?st c = Some j \<Longrightarrow> ri_active st c = Some j"
    by (auto simp: finishWorkerInvocation_def split: if_splits)
  have "active_ok ?st (add_mset a R)" using inv same(1,2) by (auto simp: workers_inv_def active_ok_def dest!: same(4))
  then have "workers_inv ?st (add_mset a R)" using inv same(1,2) by (simp add: workers_inv_def inv_ok_def ends_of_def)
  then show ?thesis using a same(3) by (auto elim!: drop_action)
qed

lemma add_ack:
  assumes "workers_inv st R" shows "workers_inv st (add_mset (WAck cid) R)"
  using assms by (auto simp: workers_inv_def active_ok_def inv_ok_def ends_of_def)

lemma lifecycle_inv:
  assumes inv: "workers_inv st R" and ex: "worker_lifecycle payload st = (next, st')"
  shows "workers_inv st' (mset next + R)"
proof -
  have request: "workers_inv (upd_inv k (\<lambda>a. a\<lparr>iv_cancellationRequested := True\<rparr>) st) R" for k
    using inv by (auto simp: workers_inv_def active_ok_def inv_ok_def ends_of_def upd_inv_def)
  have "workers_inv (upd_inv k (\<lambda>a. a\<lparr>iv_cancellationRequested := True, iv_removed := True\<rparr>)
      (st\<lparr>ri_active := (ri_active st)(cid := None)\<rparr>)) R" if "\<not> iv_cancel (ri_inv st k)" for k cid
    using inv that by (auto simp: workers_inv_def active_ok_def inv_ok_def ends_of_def upd_inv_def)
  then show ?thesis
    using ex inv request by (auto simp: worker_lifecycle_def Let_def intro!: add_ack split: if_splits option.splits)
qed

lemma close_inv:
  assumes "workers_inv st R"
  shows "workers_inv (close_invocations st) R"
proof -
  have "inv_ok (close_invocations st) R k" if "inv_ok st R k" for k
    using that by (cases "k \<in> Map.ran (ri_active st)") (auto simp: inv_ok_def ends_of_def close_invocations_def)
  then show ?thesis using assms by (auto simp: workers_inv_def active_ok_def close_invocations_def)
qed

lemma upd_inv_id [simp]: "upd_inv k (\<lambda>a. a) st = st"
  by (simp add: upd_inv_def)

lemma wexec_inv:
  assumes inv: "workers_inv st (add_mset a R)" and ex: "wexec workers accepted cancellation ctxErr handlerErr a st = (next, st')"
  shows "workers_inv st' (mset next + R)"
proof -
  have ok: "inv_ok st (add_mset a R) k" if "drives k a" for k using inv that by (simp add: workers_inv_def active_ok_def)
  have R: "workers_inv st R" if "\<And>k. \<not> drives k a" "\<And>cid k. \<not> takes_out cid k a" using drop_action [OF inv] that by blast
  have tm: "iv_terminal (ri_inv st k) = []" "\<not> iv_dropped (ri_inv st k)" if "drives k a" for k using ok [OF that] that by (auto simp: inv_ok_def ends_of_def)
  show ?thesis
  proof (cases a)
    case (WLaunch cid k)
    have "workers_inv (upd_inv k (\<lambda>a. a) st) (mset (launch_worker accepted cid k) + R)"
      by (rule drive_inv [OF inv]) (use tm [of k] WLaunch in \<open>auto simp: launch_worker_def ends_of_def split: if_splits\<close>)
    then show ?thesis using WLaunch ex by simp
  next
    case (WClaim cid k)
    have "workers_inv (upd_inv k (\<lambda>a. if accepted then a else a\<lparr>iv_dropped := True\<rparr>) st) (mset (fst (claim_worker accepted cid k st)) + R)"
      by (rule drive_inv [OF inv]) (use tm [of k] WClaim in \<open>auto simp: claim_worker_def ends_of_def split: if_splits\<close>)
    then show ?thesis using WClaim ex by (auto simp: claim_worker_def split: if_splits)
  next
    case (WStart cid k)
    have "workers_inv (upd_inv k (\<lambda>a. a\<lparr>iv_cancel := True\<rparr>) st) (mset (fst (start_worker ctxErr cid k st)) + R)"
      by (rule drive_inv [OF inv]) (use tm [of k] WStart in \<open>auto simp: start_worker_def ends_of_def split: if_splits option.splits\<close>)
    then show ?thesis using WStart ex by (auto simp: start_worker_def)
  next
    case (WHandle cid k)
    have "workers_inv (upd_inv k (\<lambda>a. a\<lparr>iv_ran := True\<rparr>) st) (mset [WReturned cid k handlerErr] + R)"
      by (rule drive_inv [OF inv]) (use tm [of k] WHandle in \<open>auto simp: ends_of_def\<close>)
    then show ?thesis using WHandle ex by auto
  next
    case (WReturned cid k e)
    have "workers_inv (upd_inv k (\<lambda>a. a) st) (mset (after_handler cid k e st) + R)"
      by (rule drive_inv [OF inv])
        (use tm [of k] WReturned in \<open>auto simp: after_handler_def workerCancellationRequested_def ends_of_def split: if_splits\<close>)
    then show ?thesis using WReturned ex by auto
  next
    case (WTerminal k e)
    have "workers_inv (upd_inv k (\<lambda>a. a\<lparr>iv_terminal := iv_terminal a @ [e]\<rparr>) st) (mset [] + R)"
      by (rule drive_inv [OF inv]) (use tm [of k] WTerminal in \<open>auto simp: ends_of_def\<close>)
    then show ?thesis using WTerminal ex by auto
  next
    case (WRequest payload)
    then show ?thesis using request_inv inv ex by simp
  next
    case (WAck cid)
    have "workers_inv (sendWorkerCleanupAck cancellation cid st) R" using R WAck
      by (simp add: sendWorkerCleanupAck_def workers_inv_def active_ok_def inv_ok_def ends_of_def)
    then show ?thesis using WAck ex by auto
  next
    case (WFinishAck cid k)
    then show ?thesis using finish_inv [OF inv] ex by (auto intro: add_ack split: prod.splits)
  qed (use inv ex finish_inv [OF inv] lifecycle_inv [OF R] close_inv [OF R] in auto)
qed

lemma worker_reach_inv:
  assumes "worker_reach s"
  shows "workers_inv (fst s) (mset (concat (snd s)))"
  using assms
proof (induction rule: worker_reach.induct)
  case (init heap)
  then show ?case by (simp add: no_invocations_def workers_inv_def active_ok_def)
next
  case (start st ths a)
  then have "workers_inv st (mset (concat ths))" "\<And>k. \<not> drives k a" "\<And>k. \<not> handles k a" "\<And>k. \<not> waits_start k a" by (cases a; simp)+
  then show ?case by (auto simp: workers_inv_def active_ok_def inv_ok_def ends_of_def)
next
  case (run st xs a rest ys workers accepted cancellation ctxErr handlerErr "next" st')
  then show ?case using wexec_inv [of st a "mset rest + mset (concat xs) + mset (concat ys)"] by (simp add: ac_simps)
qed

text \<open>C31: However requests, lifecycle messages, refusals by the handler queue, tasks dropped by it and the end of the connection interleave,
  an invocation of a worker sends at most one final frame and its handler is not called once a cancellation removed it while it
  was buffered. When no goroutine is running, it is out of the map of active invocations and has sent its final frame or was
  cancelled, unless its task was dropped after the queue had accepted it: then its handler is never called and no final frame is sent.
\<close>

theorem invocation_ends_once:
  assumes "worker_reach (st, ths)" "k < ri_new st"
  shows "length (iv_terminal (ri_inv st k)) \<le> 1 \<and> (iv_removed (ri_inv st k) \<longrightarrow> \<not> iv_ran (ri_inv st k)) \<and>
    (iv_dropped (ri_inv st k) \<longrightarrow> \<not> iv_ran (ri_inv st k) \<and> iv_terminal (ri_inv st k) = []) \<and>
    (concat ths = [] \<longrightarrow> iv_dropped (ri_inv st k) \<or>
       k \<notin> ran (ri_active st) \<and> (length (iv_terminal (ri_inv st k)) = 1 \<or> iv_cancellationRequested (ri_inv st k)))"
proof -
  define as where "as = mset (concat ths)"
  have inv: "workers_inv st as" using worker_reach_inv [OF assms(1)] by (simp add: as_def)
  then have ok: "active_ok st as" "inv_ok st as k" using assms(2) by (auto simp: workers_inv_def)
  have idle: "as = {#}" if "concat ths = []" using that by (simp add: as_def del: concat_eq_Nil_conv)
  have "length (iv_terminal (ri_inv st k)) \<le> 1" using ok(2) by (simp add: inv_ok_def ends_of_def)
  moreover have "iv_removed (ri_inv st k) \<longrightarrow> \<not> iv_ran (ri_inv st k)" using ok(2) by (auto simp: inv_ok_def)
  moreover have "\<not> iv_ran (ri_inv st k) \<and> iv_terminal (ri_inv st k) = []" if "iv_dropped (ri_inv st k)"
    using ok(2) that by (auto simp: inv_ok_def ends_of_def)
  moreover have "k \<notin> ran (ri_active st) \<and> (length (iv_terminal (ri_inv st k)) = 1 \<or> iv_cancellationRequested (ri_inv st k))"
    if "concat ths = []" "\<not> iv_dropped (ri_inv st k)"
    using ok idle [OF that(1)] that(2) by (auto simp: inv_ok_def ends_of_def active_ok_def ran_def le_Suc_eq)
  ultimately show ?thesis by blast
qed

text \<open>A request whose task expires in the queue: it stays in the map of a connection that is open, and its caller gets no answer.\<close>

definition example_request :: bytes where
  "example_request = replicate 16 7 @ [0, 0, 0, 1, 114] @ [0, 0, 0, 0] @ [0]"

lemma example_request_decodes:
  "decode_worker_request example_request =
     Ok (Some (\<lparr>ir_CorrelationID = replicate 16 7, ir_Route = ''r'', ir_Body = []\<rparr>, None))"
  by code_simp

lemma run_front:
  assumes "worker_reach (st, (a # rest) # ths)"
  shows "worker_reach (snd (wexec [''r''] accepted True None None a st), (fst (wexec [''r''] accepted True None None a st) @ rest) # ths)"
  using worker_reach.run [of st "[]" a rest ths "[''r'']" accepted True None None] assms by simp

theorem invocation_ends_once_witness:
  "\<exists>st. worker_reach (st, [[]]) \<and> 0 < ri_new st \<and> iv_dropped (ri_inv st 0) \<and> ri_active st (replicate 16 7) = Some 0 \<and>
     \<not> iv_cancellationRequested (ri_inv st 0) \<and> \<not> iv_ran (ri_inv st 0) \<and> iv_terminal (ri_inv st 0) = []"
proof -
  define heap :: "nat \<Rightarrow> activeRPCInvocation" where
    "heap = (\<lambda>_. \<lparr>iv_cancel = False, iv_cancellationRequested = False, iv_ran = False, iv_terminal = [], iv_removed = False, iv_dropped = False\<rparr>)"
  define st1 where "st1 = snd (handleWorkerRequest [''r''] example_request (no_invocations heap))"
  have h: "handleWorkerRequest [''r''] example_request (no_invocations heap) = ([WLaunch (replicate 16 7) 0], st1)"
    "ri_active st1 (replicate 16 7) = Some 0" "ri_new st1 = 1" "\<not> iv_cancellationRequested (ri_inv st1 0)"
    by (simp_all add: st1_def handleWorkerRequest_def example_request_decodes find_worker_def no_invocations_def Let_def)
  have "worker_reach (no_invocations heap, [[WRequest example_request]])" by (rule worker_reach.start [OF worker_reach.init]) simp
  from run_front [OF this, of True] have "worker_reach (st1, [[WLaunch (replicate 16 7) 0]])" by (simp add: h)
  from run_front [OF this, of True] have "worker_reach (st1, [[WClaim (replicate 16 7) 0]])" by (simp add: launch_worker_def)
  from run_front [OF this, of False] have r: "worker_reach (upd_inv 0 (\<lambda>a. a\<lparr>iv_dropped := True\<rparr>) st1, [[]])"
    by (simp add: claim_worker_def)
  let ?st = "upd_inv 0 (\<lambda>a. a\<lparr>iv_dropped := True\<rparr>) st1"
  have f: "ri_active ?st (replicate 16 7) = Some 0" "ri_new ?st = 1" "iv_dropped (ri_inv ?st 0)" "\<not> iv_cancellationRequested (ri_inv ?st 0)"
    using h by (simp_all add: upd_inv_def)
  then show ?thesis using r invocation_ends_once [OF r, of 0] by (intro exI [of _ ?st]) simp
qed

section \<open>Restoring registrations\<close>

text \<open>C36: A worker that is unsubscribed while \<open>RestoreSubscriptions\<close> waits for the broker is put back by its last step. It then
  has a handler but no version: no handle can remove it and its route cannot be registered again.
\<close>

theorem unsubscribed_worker_is_restored:
  assumes "wk_workers w route = Some handler" "drop_worker route version w = Some w1"
    and "rpc_RestoreSubscriptions c cancellation routes (\<lambda>_. w1) (s, w) = (Ok (), s', w')"
  shows "wk_workers w' route = Some handler \<and>
    (\<forall>v s. v \<noteq> 0 \<longrightarrow> unsubscribeWorker c route v (s, w') = (Ok (), s, w')) \<and>
    (\<forall>n h s sub. fst (RegisterWorker c register cancellation route n h (s, w')) \<noteq> Ok sub)"
proof -
  have w': "w' = commit_restore (wk_workers w) w1" using assms(3) by (auto simp: rpc_RestoreSubscriptions_def split: prod.splits res.splits)
  have "wk_versions w1 route = None" using assms(2) by (auto simp: drop_worker_def split: if_splits option.splits)
  then have "wk_workers w' route = Some handler" "wk_versions w' route = None" using assms(1) by (simp_all add: w' commit_restore_def)
  then show ?thesis by (simp add: unsubscribeWorker_def drop_worker_def RegisterWorker_def split: res.split)
qed

text \<open>On a broker that accepts every registration.\<close>

theorem unsubscribed_worker_is_restored_witness:
  "\<exists>c w w1 w'. wk_workers w ''rpc://a/b'' = Some 5 \<and> drop_worker ''rpc://a/b'' 1 w = Some w1 \<and>
     rpc_RestoreSubscriptions (c :: unit conn_api) True [''rpc://a/b''] (\<lambda>_. w1) ((), w) = (Ok (), (), w') \<and>
     wk_workers w1 ''rpc://a/b'' = None \<and> wk_workers w' ''rpc://a/b'' = Some 5"
proof -
  let ?c = "failing_api\<lparr>api_request := \<lambda>_ _ _ s. (Ok [0], s)\<rparr>"
  define w where "w = snd (commit_worker ''rpc://a/b'' 1 5 no_workers)"
  let ?w1 = "w\<lparr>wk_workers := Map.empty, wk_versions := Map.empty, wk_concurrency := Map.empty\<rparr>"
  have w: "wk_workers w ''rpc://a/b'' = Some 5" "drop_worker ''rpc://a/b'' 1 w = Some ?w1"
    by (simp_all add: w_def commit_worker_def no_workers_def drop_worker_def Let_def)
  have "restoreSubscribeWorker ?c True r n () = (Ok (), ())" for r n
    by (simp add: restoreSubscribeWorker_def worker_request_def api_send_def ParseStandardResponse_def)
  then have r: "rpc_RestoreSubscriptions ?c True [''rpc://a/b''] (\<lambda>_. ?w1) ((), w) = (Ok (), (), commit_restore (wk_workers w) ?w1)"
    by (simp add: rpc_RestoreSubscriptions_def)
  have "wk_workers (commit_restore (wk_workers w) ?w1) ''rpc://a/b'' = Some 5"
    using unsubscribed_worker_is_restored [OF w r] by blast
  then show ?thesis using w r by (intro exI [of _ ?c] exI [of _ w] exI [of _ ?w1] exI) auto
qed

end
