(* ===== verification/Connection.thy ===== *)
theory Connection
  imports Multiplexer Wire_Extensions Conn_Api Go_Strings
begin

text \<open>
  A connection to the broker (\<^verbatim>\<open>internal/core/connection/connection.go\<close>): its configuration and defaults, the CONNECT
  and HELLO handshake, the dispatch loop with its negotiated limits, the admission and the life of requests and
  one-way messages, and shutdown. A semaphore is a buffered channel: a capacity and the number of slots held, in a
  heap, because HELLO replaces the channels. The calls of \<open>SendRequest\<close> in progress are numbered; each has its own
  waiter of the multiplexer. Critical sections, channel operations and calls of the transport are the steps of the
  model. Tracing, metrics and logging are not modelled.
\<close>

section \<open>Configuration\<close>

text \<open>Times are in nanoseconds.\<close>

record Config =
  cfg_Token :: string
  cfg_ServiceName :: string
  cfg_ClientBuild :: string
  cfg_MaxMessageBytes :: int
  cfg_ReadTimeout :: int
  cfg_WriteTimeout :: int
  cfg_MaxInFlightRequests :: int
  cfg_MaxRequestQueueSize :: int
  cfg_AsyncHandlerTimeout :: int
  cfg_AsyncHandlerMaxConcurrency :: int
  cfg_AsyncHandlerQueueCapacity :: int
  cfg_RetryEnabled :: bool
  cfg_RetryConfigured :: bool
  cfg_RetryMaxAttempts :: int
  cfg_RetryBackoff :: int
  cfg_RetryMaxBackoff :: int
  cfg_HeartbeatEnabled :: bool
  cfg_HeartbeatConfigured :: bool
  cfg_HeartbeatInterval :: int
  cfg_HeartbeatTimeout :: int

abbreviation milliseconds :: "int \<Rightarrow> int" where "milliseconds n \<equiv> n * 1000000"

text \<open>The defaults \<open>New\<close> applies.\<close>

definition with_defaults :: "Config \<Rightarrow> Config" where
  "with_defaults cfg = cfg\<lparr>
     cfg_ReadTimeout := if cfg_ReadTimeout cfg = 0 then milliseconds 30000 else cfg_ReadTimeout cfg,
     cfg_WriteTimeout := if cfg_WriteTimeout cfg = 0 then milliseconds 10000 else cfg_WriteTimeout cfg,
     cfg_MaxInFlightRequests := if cfg_MaxInFlightRequests cfg \<le> 0 then 256 else cfg_MaxInFlightRequests cfg,
     cfg_MaxRequestQueueSize :=
       (let n = (if cfg_MaxRequestQueueSize cfg < 0 then 0 else cfg_MaxRequestQueueSize cfg) in if n = 0 then 1024 else n),
     cfg_AsyncHandlerTimeout := if cfg_AsyncHandlerTimeout cfg = 0 then milliseconds 30000 else cfg_AsyncHandlerTimeout cfg,
     cfg_AsyncHandlerMaxConcurrency := if cfg_AsyncHandlerMaxConcurrency cfg \<le> 0 then 256 else cfg_AsyncHandlerMaxConcurrency cfg,
     cfg_AsyncHandlerQueueCapacity := if cfg_AsyncHandlerQueueCapacity cfg \<le> 0 then 1024 else cfg_AsyncHandlerQueueCapacity cfg,
     cfg_RetryEnabled := if \<not> cfg_RetryConfigured cfg then True else cfg_RetryEnabled cfg,
     cfg_RetryMaxAttempts := if cfg_RetryMaxAttempts cfg \<le> 0 then 3 else cfg_RetryMaxAttempts cfg,
     cfg_RetryBackoff := if cfg_RetryBackoff cfg \<le> 0 then milliseconds 100 else cfg_RetryBackoff cfg,
     cfg_RetryMaxBackoff := if cfg_RetryMaxBackoff cfg \<le> 0 then milliseconds 1000 else cfg_RetryMaxBackoff cfg,
     cfg_HeartbeatEnabled := if \<not> cfg_HeartbeatConfigured cfg then True else cfg_HeartbeatEnabled cfg,
     cfg_HeartbeatInterval := if cfg_HeartbeatInterval cfg \<le> 0 then milliseconds 10000 else cfg_HeartbeatInterval cfg,
     cfg_HeartbeatTimeout := if cfg_HeartbeatTimeout cfg \<le> 0 then milliseconds 30000 else cfg_HeartbeatTimeout cfg,
     cfg_ClientBuild := if cfg_ClientBuild cfg = [] then ''fitz-go/0.4.0'' else cfg_ClientBuild cfg\<rparr>"

definition DefaultConfig :: Config where
  "DefaultConfig = \<lparr>cfg_Token = [], cfg_ServiceName = [], cfg_ClientBuild = ''fitz-go/0.4.0'', cfg_MaxMessageBytes = 0,
     cfg_ReadTimeout = milliseconds 30000, cfg_WriteTimeout = milliseconds 10000, cfg_MaxInFlightRequests = 256,
     cfg_MaxRequestQueueSize = 1024, cfg_AsyncHandlerTimeout = 0, cfg_AsyncHandlerMaxConcurrency = 0,
     cfg_AsyncHandlerQueueCapacity = 1024, cfg_RetryEnabled = True, cfg_RetryConfigured = True, cfg_RetryMaxAttempts = 3,
     cfg_RetryBackoff = milliseconds 100, cfg_RetryMaxBackoff = milliseconds 1000, cfg_HeartbeatEnabled = True,
     cfg_HeartbeatConfigured = True, cfg_HeartbeatInterval = milliseconds 10000, cfg_HeartbeatTimeout = milliseconds 30000\<rparr>"

definition MaxRequestQueueSize :: "Config \<Rightarrow> int" where
  "MaxRequestQueueSize cfg = (if cfg_MaxRequestQueueSize cfg \<le> 0 then 1024 else cfg_MaxRequestQueueSize cfg)"

section \<open>State\<close>

datatype State = StateDisconnected | StateConnecting | StateConnected | StateAuthenticating | StateAuthenticated | StateClosed

text \<open>
  Where a call of \<open>SendRequest\<close> or \<open>SendFireAndForget\<close> is: at its start, queued for a slot, holding a slot, with the frame to
  write, waiting for the answer, about to give its slot back, returned. A request is sent with its
  payload or with a writer of its payload; \<open>sr_sem\<close> is the semaphore the call waits on or took its slot from,
  \<open>sr_cid\<close> its correlation id.
\<close>

datatype send_phase =
    SNew | SQueued | SAdmitted | SWriting bytes | SWaiting | SReleasing "bytes res" | SDone "bytes res"

datatype send_kind = Request u16 u8 bytes | RequestWriter u16 u8 writer | OneWay u16 bytes | OneWayWriter u16 writer

record send_req =
  sr_kind :: send_kind
  sr_phase :: send_phase
  sr_sem :: nat
  sr_cid :: u64

record connection =
  c_cfg :: Config
  c_state :: State
  c_mux :: multiplexer
  c_sems :: "nat \<Rightarrow> nat \<times> nat"
  c_newSem :: nat
  c_requestSem :: nat
  c_oneWaySem :: nat
  c_queuedRequests :: int
  c_queuedWrites :: int
  c_authConfirmed :: bool
  c_authError :: "go_error option"
  c_serverHello :: bool
  c_maxMessageBytes :: u32
  c_maxInFlight :: u32
  c_sessionID :: u64
  c_frameSize :: "nat option"
  c_goaways :: "(u16 \<times> u32 \<times> string) list"
  c_firstResponse :: bool
  c_connError :: "go_error option"
  c_cancelled :: bool
  c_done :: bool
  c_started :: bool
  c_connecting :: bool
  c_closed :: bool
  c_asyncClosing :: bool
  c_asyncJobs :: "nat list"
  c_wire :: "bytes list"
  c_activeSubscriptions :: int
  c_reqs :: "nat \<Rightarrow> send_req"
  c_newReq :: nat

definition conn_New :: "Config \<Rightarrow> (waiter \<Rightarrow> requestWaiter) \<Rightarrow> (nat \<Rightarrow> send_req) \<Rightarrow> connection" where
  "conn_New cfg0 heap reqs =
     (let cfg = with_defaults cfg0; n = nat (cfg_MaxInFlightRequests cfg)
      in \<lparr>c_cfg = cfg, c_state = StateDisconnected, c_mux = NewMultiplexer heap, c_sems = (\<lambda>_. (n, 0)), c_newSem = 2,
          c_requestSem = 0, c_oneWaySem = 1, c_queuedRequests = 0, c_queuedWrites = 0, c_authConfirmed = False, c_authError = None,
          c_serverHello = False, c_maxMessageBytes = word_of_nat MaxMessageSize, c_maxInFlight = 0, c_sessionID = 0,
          c_frameSize = None, c_goaways = [], c_firstResponse = True, c_connError = None, c_cancelled = False, c_done = False,
          c_started = False, c_connecting = False, c_closed = False, c_asyncClosing = False, c_asyncJobs = [], c_wire = [], c_activeSubscriptions = 0,
          c_reqs = reqs, c_newReq = 0\<rparr>)"

definition setConnError :: "go_error option \<Rightarrow> connection \<Rightarrow> connection" where
  "setConnError err c = (case err of None \<Rightarrow> c | Some _ \<Rightarrow> c\<lparr>c_connError := err\<rparr>)"

definition confirmAuthentication :: "connection \<Rightarrow> connection" where
  "confirmAuthentication c =
     (if c_authConfirmed c then c else c\<lparr>c_state := StateAuthenticated, c_authConfirmed := True\<rparr>)"

definition beginAsyncHandlerShutdown :: "connection \<Rightarrow> connection" where
  "beginAsyncHandlerShutdown c = c\<lparr>c_asyncClosing := True, c_asyncJobs := []\<rparr>"

section \<open>The handshake\<close>

definition connect_string :: "string \<Rightarrow> bytes" where
  "connect_string s = PutUint32 (u32_len s) @ bytes_of_string s"

text \<open>The frame \<open>sendConnect\<close> writes.\<close>

definition connect_frame :: "Config \<Rightarrow> bytes res" where
  "connect_frame cfg =
     (let payload = PutUint16 3 @ PutUint16 3 @ [0, 0, 0, 0] @ connect_string (cfg_Token cfg) @
            connect_string (strings_TrimSpace (cfg_ServiceName cfg)) @ connect_string (cfg_ClientBuild cfg)
      in bind_res (EncodeExtensions payload [\<lparr>ext_id = 1, ext_value = ClientCapabilityList\<rparr>]) (\<lambda>value.
           case EncodeFrameOwnedWithHeader MessageTypeConnect FlagExtensionsPresent 0 value of
             None \<Rightarrow> Err (ErrNew ''encode CONNECT frame'')
           | Some frame \<Rightarrow> Ok frame))"

text \<open>The fields of HELLO: version, capabilities, message limit, in-flight limit, session.\<close>

definition read_hello :: "bytes \<Rightarrow> (u16 \<times> u32 \<times> u32 \<times> u32 \<times> u64) res" where
  "read_hello p =
     bind_res (bind_res (slice p 0 2) Uint16) (\<lambda>version.
     bind_res (bind_res (slice p 2 6) Uint32) (\<lambda>capabilities.
     bind_res (bind_res (slice p 6 10) Uint32) (\<lambda>maxMessageBytes.
     bind_res (bind_res (slice p 10 14) Uint32) (\<lambda>maxInFlight.
     bind_res (bind_res (slice p 14 22) Uint64) (\<lambda>sessionID.
       Ok (version, capabilities, maxMessageBytes, maxInFlight, sessionID))))))"

definition local_limit :: "Config \<Rightarrow> u32 \<Rightarrow> u32" where
  "local_limit cfg maxMessageBytes =
     (let limit = min (word_of_nat MaxMessageSize) maxMessageBytes
      in if cfg_MaxMessageBytes cfg > 0 \<and> word_of_int (cfg_MaxMessageBytes cfg) < limit
         then word_of_int (cfg_MaxMessageBytes cfg) else limit)"

definition replace_semaphores :: "u32 \<Rightarrow> connection \<Rightarrow> connection" where
  "replace_semaphores maxInFlight c =
     (if unat maxInFlight < fst (c_sems c (c_requestSem c)) then
        let k = c_newSem c; limit = unat maxInFlight
        in c\<lparr>c_sems := (c_sems c)(k := (limit, 0), k + 1 := (limit, 0)), c_newSem := k + 2, c_requestSem := k, c_oneWaySem := k + 1\<rparr>
      else c)"

definition capability_mask :: "u32 list \<Rightarrow> u32" where
  "capability_mask ids = fold (\<lambda>i mask. mask OR push_bit (unat i) 1) ids 0"

definition handle_hello :: "frame \<Rightarrow> u32 list \<Rightarrow> connection \<Rightarrow> bool res \<times> connection" where
  "handle_hello f capabilityIDs c =
     (if m_version (c_mux c) \<noteq> 0 then (Err (ErrNew ''repeated HELLO cannot renegotiate an established session''), c)
      else if CorrelationID f \<noteq> 0 \<or> Flags f \<noteq> FlagExtensionsPresent \<or> length (Payload f) \<noteq> 22
      then (Err (ErrNew ''malformed HELLO''), c)
      else case read_hello (Payload f) of
             Err e \<Rightarrow> (Err e, c)
           | Panic \<Rightarrow> (Panic, c)
           | Ok (version, capabilities, maxMessageBytes, maxInFlight, sessionID) \<Rightarrow>
               if version \<noteq> 3 then (Err (ErrNew (''unsupported negotiated wire version '' @ dec (unat version))), c)
               else if capabilities \<noteq> 0 then (Err (ErrNew ''legacy HELLO capability bits must be zero''), c)
               else if maxMessageBytes < word_of_nat HeaderLen \<or> maxInFlight = 0
               then (Err (ErrNew ''HELLO contains invalid negotiated limits''), c)
               else
                 let limit = local_limit (c_cfg c) maxMessageBytes;
                     c1 = replace_semaphores maxInFlight
                            (c\<lparr>c_maxMessageBytes := limit, c_maxInFlight := maxInFlight, c_sessionID := sessionID\<rparr>)
                 in (Ok True,
                     c1\<lparr>c_mux := (SetCapabilities version capabilities (c_mux c1))\<lparr>m_activeIDs := capability_mask capabilityIDs\<rparr>,
                        c_frameSize := Some (unat limit), c_serverHello := True\<rparr>))"

definition handle_rejected :: "frame \<Rightarrow> connection \<Rightarrow> bool res \<times> connection" where
  "handle_rejected f c =
     (if CorrelationID f \<noteq> 0 then (Err (ErrNew ''CONNECT_REJECTED has a correlation''), c)
      else case ReadU16BE (Payload f) 0 of
             Err e \<Rightarrow> (Err (Errorf1 ''decode CONNECT_REJECTED'' e), c)
           | Panic \<Rightarrow> (Panic, c)
           | Ok (code, offset) \<Rightarrow>
               (case ReadString (Payload f) offset of
                  Err e \<Rightarrow> (Err (ErrNew ''malformed CONNECT_REJECTED''), c)
                | Panic \<Rightarrow> (Panic, c)
                | Ok (message, off) \<Rightarrow>
                    if off \<noteq> length (Payload f) then (Err (ErrNew ''malformed CONNECT_REJECTED''), c)
                    else
                      let rejection =
                        (if code = 50
                         then Wrap (Error ErrVersionMismatch @ '' (code '' @ dec (unat code) @ ''): '' @ message) [ErrVersionMismatch]
                         else ErrNew (''connection rejected with code '' @ dec (unat code) @ '': '' @ message))
                      in (Err rejection, c\<lparr>c_authError := Some rejection\<rparr>)))"

definition handle_goaway :: "frame \<Rightarrow> connection \<Rightarrow> bool res \<times> connection" where
  "handle_goaway f c =
     (if CorrelationID f \<noteq> 0 then (Err (ErrNew ''GOAWAY has a correlation''), c)
      else case bind_res (map_err (Errorf1 ''decode GOAWAY'') (ReadU16BE (Payload f) 0)) (\<lambda>(code, offset).
                bind_res (map_err (Errorf1 ''decode GOAWAY'') (ReadU32BE (Payload f) offset)) (\<lambda>(graceMS, offset).
                bind_res (map_err (\<lambda>_. ErrNew ''malformed GOAWAY'') (ReadString (Payload f) offset)) (\<lambda>(reason, off).
                  if off \<noteq> length (Payload f) then Err (ErrNew ''malformed GOAWAY'') else Ok (code, graceMS, reason)))) of
             Ok away \<Rightarrow> (Ok False, c\<lparr>c_goaways := c_goaways c @ [away]\<rparr>)
           | Err e \<Rightarrow> (Err e, c)
           | Panic \<Rightarrow> (Panic, c))"

section \<open>The dispatch loop\<close>

definition inbound_frame :: "bytes \<Rightarrow> (frame \<times> u32 list) res" where
  "inbound_frame data =
     bind_res (DecodeMessage data) (\<lambda>f. bind_res (DecodeExtensions f) (\<lambda>(core, ids). Ok (f\<lparr>Payload := core\<rparr>, ids)))"

definition dispatchTransportFrame :: "bytes \<Rightarrow> connection \<Rightarrow> bool res \<times> connection" where
  "dispatchTransportFrame data c =
     (if c_maxMessageBytes c > 0 \<and> length data > unat (c_maxMessageBytes c)
      then (Err (ErrNew ''message exceeds negotiated limit''), c)
      else case inbound_frame data of
             Err e \<Rightarrow> (Err e, c)
           | Panic \<Rightarrow> (Panic, c)
           | Ok (f, capabilityIDs) \<Rightarrow>
               if MessageType f = MessageTypeHello then handle_hello f capabilityIDs c
               else if MessageType f = MessageTypeConnectRejected then handle_rejected f c
               else if MessageType f = MessageTypeGoAway then handle_goaway f c
               else if CorrelationID f \<noteq> 0 then
                 (case DispatchCorrelated (CorrelationID f) (Payload f) (Flags f AND FlagResponseFinal \<noteq> 0) (c_mux c) of
                    (True, m) \<Rightarrow> (Ok True, c\<lparr>c_mux := m\<rparr>)
                  | (False, m) \<Rightarrow>
                      (Err (ErrNew (''unexpected response correlation '' @ dec (unat (CorrelationID f)))), c\<lparr>c_mux := m\<rparr>))
               else (case Dispatch (MessageType f) (Payload f) (c_mux c) of
                       Ok m \<Rightarrow> (Ok True, c\<lparr>c_mux := m\<rparr>)
                     | Err e \<Rightarrow> (Err e, c)
                     | Panic \<Rightarrow> (Panic, c)))"

text \<open>The deferred end of \<open>dispatchLoop\<close>; the lists are the orders in which \<open>Multiplexer.Close\<close> ranges over its maps.\<close>

definition loop_exit :: "u16 list \<Rightarrow> u64 list \<Rightarrow> connection \<Rightarrow> connection" where
  "loop_exit types corrs c =
     (let c1 = beginAsyncHandlerShutdown (c\<lparr>c_state := StateClosed, c_mux := mux_Close types corrs (c_mux c)\<rparr>)
      in c1\<lparr>c_cancelled := True, c_done := True\<rparr>)"

text \<open>One round of the loop on a frame: the loop goes on, or ends with a decoding error.\<close>

definition loop_frame :: "u16 list \<Rightarrow> u64 list \<Rightarrow> bytes \<Rightarrow> connection \<Rightarrow> connection" where
  "loop_frame types corrs data c =
     (case dispatchTransportFrame data c of
        (Ok hasResponse, c1) \<Rightarrow>
          if c_firstResponse c1 \<and> hasResponse then (confirmAuthentication c1)\<lparr>c_firstResponse := False\<rparr> else c1
      | (Err err, c1) \<Rightarrow> loop_exit types corrs (setConnError (Some (Errorf1 ''decode frame'' err)) c1)
      | (Panic, c1) \<Rightarrow> c1)"

definition handleReadError :: "go_error \<Rightarrow> connection \<Rightarrow> connection" where
  "handleReadError err c =
     (if errors_Is err Canceled then setConnError None c
      else setConnError (Some err) (if c_authConfirmed c then c else c\<lparr>c_authError := Some ErrAuthenticationFailed\<rparr>))"

definition loop_read_error :: "u16 list \<Rightarrow> u64 list \<Rightarrow> go_error \<Rightarrow> connection \<Rightarrow> connection" where
  "loop_read_error types corrs err c =
     (if cfg_ReadTimeout (c_cfg c) > 0 \<and> errors_Is err DeadlineExceeded \<and> \<not> c_cancelled c then c
      else loop_exit types corrs (handleReadError err c))"

section \<open>Start and Close\<close>

text \<open>\<open>Close\<close> up to its wait for the dispatch loop, and what follows the wait.\<close>

definition close_begin :: "connection \<Rightarrow> connection" where
  "close_begin c =
     (if c_closed c then c else (beginAsyncHandlerShutdown (c\<lparr>c_closed := True\<rparr>))\<lparr>c_cancelled := True\<rparr>)"

definition close_end :: "connection \<Rightarrow> connection" where
  "close_end c = c\<lparr>c_state := StateClosed\<rparr>"

definition start_begin :: "connection \<Rightarrow> unit res \<times> connection" where
  "start_begin c =
     (if c_closed c then (Err ErrConnectionClosed, c)
      else if c_started c then (Err ErrConnectionAlreadyStarted, c)
      else (Ok (), c\<lparr>c_started := True, c_connecting := True, c_state := StateAuthenticating\<rparr>))"

text \<open>
  Sending CONNECT; \<open>writeErr\<close> is the error of the transport's write. \<open>c_connecting\<close> is set while \<open>Start\<close> has still to
  send it, and \<open>c_wire\<close> holds every frame that has been written.
\<close>

definition start_connect :: "go_error option \<Rightarrow> connection \<Rightarrow> unit res \<times> connection" where
  "start_connect writeErr c =
     (let c1 = c\<lparr>c_connecting := False\<rparr>
      in case bind_res (connect_frame (c_cfg c)) (\<lambda>frame. case writeErr of None \<Rightarrow> Ok frame | Some e \<Rightarrow> Err e) of
           Ok frame \<Rightarrow> (Ok (), c1\<lparr>c_wire := c_wire c @ [frame]\<rparr>)
         | Err e \<Rightarrow> (Err (Errorf1 ''send CONNECT'' e), close_begin c1)
         | Panic \<Rightarrow> (Panic, c1))"

text \<open>The \<open>select\<close> of \<open>Start\<close>; None when the case is not ready.\<close>

datatype start_case = HelloReceived | SessionDone | CallerDone go_error | NegotiationTimeout

definition start_wait :: "start_case \<Rightarrow> connection \<Rightarrow> (unit res \<times> connection) option" where
  "start_wait sc c =
     (case sc of
        HelloReceived \<Rightarrow>
          if \<not> c_serverHello c then None
          else if c_closed c \<or> c_cancelled c then Some (Err ErrConnectionClosed, c)
          else Some (Ok (), confirmAuthentication c)
      | SessionDone \<Rightarrow>
          if \<not> c_cancelled c then None
          else Some (Err (case c_authError c of
                            Some e \<Rightarrow> e
                          | None \<Rightarrow> if c_closed c then ErrConnectionClosed else ErrAuthenticationFailed), c)
      | CallerDone e \<Rightarrow> Some (Err e, close_begin c)
      | NegotiationTimeout \<Rightarrow> Some (Err ErrAuthenticationTimeout, close_begin c))"

definition CheckLiveHandle :: "connection \<Rightarrow> go_error option" where
  "CheckLiveHandle c =
     (if c_closed c then Some (Errorf2 ErrStaleHandle ErrConnectionClosed)
      else if c_done c
      then Some (Errorf2 ErrStaleHandle (case c_connError c of Some e \<Rightarrow> e | None \<Rightarrow> ErrConnectionClosed))
      else None)"

definition AddSubscriptions :: "int \<Rightarrow> connection \<Rightarrow> connection" where
  "AddSubscriptions delta c = c\<lparr>c_activeSubscriptions := c_activeSubscriptions c + delta\<rparr>"

section \<open>Requests and one-way messages\<close>

definition outboundAdmissionError :: "go_error option \<Rightarrow> connection \<Rightarrow> go_error" where
  "outboundAdmissionError ctxErr c =
     (case c_connError c of Some e \<Rightarrow> e | None \<Rightarrow> (case ctxErr of Some e \<Rightarrow> e | None \<Rightarrow> ErrConnectionClosed))"

text \<open>The cases of the admission's \<open>select\<close> that are ready.\<close>

definition slot_cases :: "go_error option \<Rightarrow> nat \<Rightarrow> connection \<Rightarrow> unit res list" where
  "slot_cases ctxErr sem c =
     (if snd (c_sems c sem) < fst (c_sems c sem) then [Ok ()] else []) @
     (case ctxErr of Some e \<Rightarrow> [Err e] | None \<Rightarrow> []) @
     (if c_done c then [Err (outboundAdmissionError ctxErr c)] else [])"

definition take_slot :: "nat \<Rightarrow> connection \<Rightarrow> connection" where
  "take_slot sem c = c\<lparr>c_sems := (c_sems c)(sem := (fst (c_sems c sem), snd (c_sems c sem) + 1))\<rparr>"

definition upd_req :: "nat \<Rightarrow> (send_req \<Rightarrow> send_req) \<Rightarrow> connection \<Rightarrow> connection" where
  "upd_req r f c = c\<lparr>c_reqs := (c_reqs c)(r := f (c_reqs c r))\<rparr>"

abbreviation to_phase :: "nat \<Rightarrow> send_phase \<Rightarrow> connection \<Rightarrow> connection" where
  "to_phase r p \<equiv> upd_req r (\<lambda>q. q\<lparr>sr_phase := p\<rparr>)"

fun oneway :: "send_kind \<Rightarrow> bool" where
  "oneway (Request t flags payload) \<longleftrightarrow> False"
| "oneway (RequestWriter t flags w) \<longleftrightarrow> False"
| "oneway (OneWay t payload) \<longleftrightarrow> True"
| "oneway (OneWayWriter t w) \<longleftrightarrow> True"

definition sem_of :: "send_kind \<Rightarrow> connection \<Rightarrow> nat" where
  "sem_of k c = (if oneway k then c_oneWaySem c else c_requestSem c)"

definition queued :: "send_kind \<Rightarrow> connection \<Rightarrow> int" where
  "queued k c = (if oneway k then c_queuedWrites c else c_queuedRequests c)"

definition add_queued :: "send_kind \<Rightarrow> int \<Rightarrow> connection \<Rightarrow> connection" where
  "add_queued k n c =
     (if oneway k then c\<lparr>c_queuedWrites := c_queuedWrites c + n\<rparr> else c\<lparr>c_queuedRequests := c_queuedRequests c + n\<rparr>)"

text \<open>A call begins.\<close>

definition send_call :: "send_kind \<Rightarrow> connection \<Rightarrow> connection" where
  "send_call k c = c\<lparr>c_reqs := (c_reqs c)(c_newReq c := \<lparr>sr_kind = k, sr_phase = SNew, sr_sem = 0, sr_cid = 0\<rparr>), c_newReq := c_newReq c + 1\<rparr>"

text \<open>
  The outcome of a select of \<open>AcquireRequestSlotErr\<close> or \<open>AcquireWriteSlotErr\<close>; the first select also has a default case, which
  counts the call as queued or refuses it.
\<close>

definition admit :: "nat \<Rightarrow> nat \<Rightarrow> unit res \<Rightarrow> connection \<Rightarrow> connection" where
  "admit r sem x c =
     (case x of
        Ok _ \<Rightarrow> upd_req r (\<lambda>q. q\<lparr>sr_phase := SAdmitted, sr_sem := sem\<rparr>) (take_slot sem c)
      | Err e \<Rightarrow> to_phase r (SDone (Err e)) c
      | Panic \<Rightarrow> c)"

definition send_begin :: "unit res option \<Rightarrow> nat \<Rightarrow> connection \<Rightarrow> connection" where
  "send_begin x r c =
     (let k = sr_kind (c_reqs c r)
      in if \<not> c_authConfirmed c then to_phase r (SDone (Err ErrNotAuthenticated)) c
         else case x of
                Some y \<Rightarrow> admit r (sem_of k c) y c
              | None \<Rightarrow>
                  if queued k c + 1 > MaxRequestQueueSize (c_cfg c) then to_phase r (SDone (Err ErrRequestQueueFull)) c
                  else upd_req r (\<lambda>q. q\<lparr>sr_phase := SQueued, sr_sem := sem_of k c\<rparr>) (add_queued k 1 c))"

definition send_queued :: "unit res \<Rightarrow> nat \<Rightarrow> connection \<Rightarrow> connection" where
  "send_queued x r c = admit r (sr_sem (c_reqs c r)) x (add_queued (sr_kind (c_reqs c r)) (-1) c)"

definition ids_exhausted :: go_error where
  "ids_exhausted = ErrNew ''correlation IDs exhausted; reconnect before sending another request''"

definition too_long :: "connection \<Rightarrow> go_error" where
  "too_long c = ErrNew (''message exceeds negotiated max_message_bytes ('' @ dec (unat (c_maxMessageBytes c)) @ '')'')"

definition fireAndForgetNeedsCorrelation :: "u16 \<Rightarrow> bytes \<Rightarrow> bool" where
  "fireAndForgetNeedsCorrelation messageType payload =
     (if messageType < MessageTypeRpcSubscribeWorker \<or> messageType > MessageTypeRpcLifecycle then False
      else if messageType = MessageTypeRpcResponse \<or> messageType = MessageTypeRpcLifecycle then False
      else if messageType = MessageTypeRpcCancellation then length payload > 0 \<and> payload ! 0 = 1
      else True)"

text \<open>A call with its slot, up to the write of its frame.\<close>

definition encode_call :: "send_kind \<Rightarrow> u64 \<Rightarrow> bytes res" where
  "encode_call k cid =
     (case k of
        Request t flags payload \<Rightarrow>
          (case EncodeFrameOwnedWithHeader t flags cid payload of None \<Rightarrow> Err (ErrNew ''encode frame'') | Some frame \<Rightarrow> Ok frame)
      | RequestWriter t flags w \<Rightarrow>
          map_err (Errorf1 ''encode frame'') (EncodeFrameWithHeaderAndPayloadWriter t flags cid (Some w))
      | OneWay t payload \<Rightarrow>
          (case EncodeFrameOwnedWithHeader t 0 cid payload of None \<Rightarrow> Err (ErrNew ''encode frame'') | Some frame \<Rightarrow> Ok frame)
      | OneWayWriter t w \<Rightarrow>
          (case EncodeFrameOwnedWithHeader t 0 cid (w []) of None \<Rightarrow> Err (ErrNew ''encode frame'') | Some frame \<Rightarrow> Ok frame))"

definition needs_id :: "send_kind \<Rightarrow> bool" where
  "needs_id k = (case k of OneWay t payload \<Rightarrow> fireAndForgetNeedsCorrelation t payload
                          | OneWayWriter t w \<Rightarrow> fireAndForgetNeedsCorrelation t (w [])
                          | _ \<Rightarrow> True)"

definition register_waiter :: "nat \<Rightarrow> u64 \<Rightarrow> bytes \<Rightarrow> connection \<Rightarrow> connection" where
  "register_waiter r cid frame c =
     (if oneway (sr_kind (c_reqs c r)) then to_phase r (SWriting frame) c
      else let m = (c_mux c)\<lparr>m_waiters := (m_waiters (c_mux c))(r := waiter_reset (m_waiters (c_mux c) r))\<rparr>
           in case RegisterCorrelatedRequest cid r m of
                (False, m') \<Rightarrow> to_phase r (SReleasing (Err (ErrNew ''register correlated request''))) (c\<lparr>c_mux := m'\<rparr>)
              | (True, m') \<Rightarrow> to_phase r (SWriting frame) (c\<lparr>c_mux := m'\<rparr>))"

definition send_encode :: "nat \<Rightarrow> connection \<Rightarrow> connection" where
  "send_encode r c =
     (let k = sr_kind (c_reqs c r);
          (cid, m) = (if needs_id k then NextCorrelationID (c_mux c) else (0, c_mux c));
          c1 = upd_req r (\<lambda>q. q\<lparr>sr_cid := cid\<rparr>) (c\<lparr>c_mux := m\<rparr>)
      in if needs_id k \<and> cid = 0 then to_phase r (SReleasing (Err ids_exhausted)) c1
         else case encode_call k cid of
                Err e \<Rightarrow> to_phase r (SReleasing (Err e)) c1
              | Panic \<Rightarrow> to_phase r (SReleasing Panic) c1
              | Ok frame \<Rightarrow>
                  if word_of_nat (length frame) > c_maxMessageBytes c then to_phase r (SReleasing (Err (too_long c))) c1
                  else register_waiter r cid frame c1)"

definition unregister :: "nat \<Rightarrow> connection \<Rightarrow> connection" where
  "unregister r c = c\<lparr>c_mux := snd (UnregisterCorrelatedRequest (sr_cid (c_reqs c r)) r (c_mux c))\<rparr>"

text \<open>The write of the frame, and the end of a request: the deferred removal of its registration and the return.\<close>

definition end_request :: "nat \<Rightarrow> bytes res \<Rightarrow> connection \<Rightarrow> connection" where
  "end_request r res c = to_phase r (SReleasing res) (unregister r c)"

definition send_write :: "go_error option \<Rightarrow> bytes \<Rightarrow> nat \<Rightarrow> connection \<Rightarrow> connection" where
  "send_write writeErr frame r c =
     (case writeErr of
        Some e \<Rightarrow> if oneway (sr_kind (c_reqs c r)) then to_phase r (SReleasing (Err (Errorf1 ''write fire-and-forget'' e))) c
                  else end_request r (Err (Errorf1 ''write request'' e)) c
      | None \<Rightarrow> to_phase r (if oneway (sr_kind (c_reqs c r)) then SReleasing (Ok []) else SWaiting) (c\<lparr>c_wire := c_wire c @ [frame]\<rparr>))"

datatype send_case = Answered | CtxDone go_error | ConnDone

definition closed_error :: "connection \<Rightarrow> go_error" where
  "closed_error c = (case c_connError c of Some e \<Rightarrow> e | None \<Rightarrow> ErrConnectionClosed)"

definition send_wait :: "send_case \<Rightarrow> nat \<Rightarrow> connection \<Rightarrow> connection option" where
  "send_wait sc r c =
     (let w = m_waiters (c_mux c) r
      in case sc of
           Answered \<Rightarrow>
             if w_ready w then Some (end_request r (if w_closed w then Err (closed_error c) else Ok (w_response w)) c) else None
         | CtxDone e \<Rightarrow> Some (end_request r (Err e) c)
         | ConnDone \<Rightarrow>
             if c_done c
             then Some (end_request r (if w_ready w \<and> \<not> w_closed w then Ok (w_response w) else Err (closed_error c)) c)
             else None)"

text \<open>\<open>ReleaseRequestSlot\<close> and \<open>ReleaseWriteSlot\<close> receive from the channel the connection has now; on an empty one they block.\<close>

definition send_release :: "nat \<Rightarrow> bytes res \<Rightarrow> connection \<Rightarrow> connection option" where
  "send_release r res c =
     (let sem = sem_of (sr_kind (c_reqs c r)) c
      in if snd (c_sems c sem) = 0 then None
         else Some (to_phase r (SDone res) (c\<lparr>c_sems := (c_sems c)(sem := (fst (c_sems c sem), snd (c_sems c sem) - 1))\<rparr>)))"

section \<open>Steps\<close>

text \<open>
  The steps of a connection and its callers. \<open>allowed\<close> says what the broker may send next. The second component of the
  state is the frames received.
\<close>

inductive conn_step :: "(connection \<Rightarrow> bytes \<Rightarrow> bool) \<Rightarrow> connection \<times> bytes list \<Rightarrow> connection \<times> bytes list \<Rightarrow> bool" for allowed where
  started: "conn_step allowed (c, fs) (snd (start_begin c), fs)"
| connected: "c_started c \<Longrightarrow> c_connecting c \<Longrightarrow> conn_step allowed (c, fs) (snd (start_connect writeErr c), fs)"
| waited: "c_started c \<Longrightarrow> \<not> c_connecting c \<Longrightarrow> start_wait sc c = Some (res, c') \<Longrightarrow> conn_step allowed (c, fs) (c', fs)"
| received: "c_started c \<Longrightarrow> \<not> c_done c \<Longrightarrow> allowed c data \<Longrightarrow> enumerates types (m_pending (c_mux c)) \<Longrightarrow>
    enumerates corrs (m_correlated (c_mux c)) \<Longrightarrow> conn_step allowed (c, fs) (loop_frame types corrs data c, fs @ [data])"
| failed: "c_started c \<Longrightarrow> \<not> c_done c \<Longrightarrow> enumerates types (m_pending (c_mux c)) \<Longrightarrow>
    enumerates corrs (m_correlated (c_mux c)) \<Longrightarrow> conn_step allowed (c, fs) (loop_read_error types corrs err c, fs)"
| cancelled: "c_started c \<Longrightarrow> \<not> c_done c \<Longrightarrow> c_cancelled c \<Longrightarrow> enumerates types (m_pending (c_mux c)) \<Longrightarrow>
    enumerates corrs (m_correlated (c_mux c)) \<Longrightarrow> conn_step allowed (c, fs) (loop_exit types corrs c, fs)"
| closing: "conn_step allowed (c, fs) (close_begin c, fs)"
| closed: "c_closed c \<Longrightarrow> \<not> c_started c \<or> c_done c \<Longrightarrow> conn_step allowed (c, fs) (close_end c, fs)"
| called: "conn_step allowed (c, fs) (send_call k c, fs)"
| begun: "r < c_newReq c \<Longrightarrow> sr_phase (c_reqs c r) = SNew \<Longrightarrow>
    (case x of Some y \<Rightarrow> y \<in> set (slot_cases ctxErr (sem_of (sr_kind (c_reqs c r)) c) c)
             | None \<Rightarrow> slot_cases ctxErr (sem_of (sr_kind (c_reqs c r)) c) c = []) \<Longrightarrow>
    conn_step allowed (c, fs) (send_begin x r c, fs)"
| admitted: "r < c_newReq c \<Longrightarrow> sr_phase (c_reqs c r) = SQueued \<Longrightarrow> x \<in> set (slot_cases ctxErr (sr_sem (c_reqs c r)) c) \<Longrightarrow>
    conn_step allowed (c, fs) (send_queued x r c, fs)"
| encoded: "r < c_newReq c \<Longrightarrow> sr_phase (c_reqs c r) = SAdmitted \<Longrightarrow> conn_step allowed (c, fs) (send_encode r c, fs)"
| written: "r < c_newReq c \<Longrightarrow> sr_phase (c_reqs c r) = SWriting frame \<Longrightarrow> conn_step allowed (c, fs) (send_write writeErr frame r c, fs)"
| ended: "r < c_newReq c \<Longrightarrow> sr_phase (c_reqs c r) = SWaiting \<Longrightarrow> send_wait sc r c = Some c' \<Longrightarrow> conn_step allowed (c, fs) (c', fs)"
| released: "r < c_newReq c \<Longrightarrow> sr_phase (c_reqs c r) = SReleasing res \<Longrightarrow> send_release r res c = Some c' \<Longrightarrow> conn_step allowed (c, fs) (c', fs)"

inductive conn_reach :: "(connection \<Rightarrow> bytes \<Rightarrow> bool) \<Rightarrow> connection \<times> bytes list \<Rightarrow> bool" for allowed where
  init: "conn_reach allowed (conn_New cfg heap reqs, [])"
| step: "conn_reach allowed s \<Longrightarrow> conn_step allowed s s' \<Longrightarrow> conn_reach allowed s'"

text \<open>The documented handshake: until HELLO has been received, the broker sends only control frames.\<close>

definition hello_first :: "connection \<Rightarrow> bytes \<Rightarrow> bool" where
  "hello_first c data \<longleftrightarrow> c_serverHello c \<or>
     (case DecodeMessage data of
        Ok f \<Rightarrow> MessageType f \<in> {MessageTypeHello, MessageTypeConnectRejected, MessageTypeGoAway}
      | _ \<Rightarrow> True)"

section \<open>What a received frame changes\<close>

text \<open>The parts of the connection that only the handshake and the callers change.\<close>

definition same_calls :: "connection \<Rightarrow> connection \<Rightarrow> bool" where
  "same_calls c c' \<longleftrightarrow> c_cfg c' = c_cfg c \<and> c_sems c' = c_sems c \<and> c_newSem c' = c_newSem c \<and> c_requestSem c' = c_requestSem c \<and>
     c_oneWaySem c' = c_oneWaySem c \<and> c_queuedRequests c' = c_queuedRequests c \<and> c_queuedWrites c' = c_queuedWrites c \<and>
     c_serverHello c' = c_serverHello c \<and> c_maxMessageBytes c' = c_maxMessageBytes c \<and> c_maxInFlight c' = c_maxInFlight c \<and>
     c_reqs c' = c_reqs c \<and> c_newReq c' = c_newReq c \<and> c_wire c' = c_wire c \<and>
     c_started c' = c_started c \<and> c_connecting c' = c_connecting c"

lemma same_calls_refl [simp]: "same_calls c c"
  by (simp add: same_calls_def)

lemma loop_exit_same: "same_calls c (loop_exit types corrs c)" "c_mux (loop_exit types corrs c) = mux_Close types corrs (c_mux c)"
  "c_done (loop_exit types corrs c)" "c_authConfirmed (loop_exit types corrs c) = c_authConfirmed c"
  by (simp_all add: loop_exit_def beginAsyncHandlerShutdown_def same_calls_def)

definition answered :: "bytes list \<Rightarrow> u64 \<Rightarrow> bytes \<Rightarrow> bool" where
  "answered fs cid resp \<longleftrightarrow> (\<exists>data\<in>set fs. \<exists>f ids. DecodeMessage data = Ok f \<and> DecodeExtensions f = Ok (resp, ids) \<and> CorrelationID f = cid)"

text \<open>
  A HELLO frame that announces a message limit and an in-flight limit, and what the configuration makes of the first:
  the smallest of the protocol's, the announced and a configured limit, read as 32 bits.
\<close>

definition announces :: "Config \<Rightarrow> bytes \<Rightarrow> u32 \<Rightarrow> u32 \<Rightarrow> bool" where
  "announces cfg data limit n \<longleftrightarrow> (\<exists>f ids maxMessageBytes sessionID. inbound_frame data = Ok (f, ids) \<and>
     MessageType f = MessageTypeHello \<and> CorrelationID f = 0 \<and>
     Payload f = PutUint16 3 @ PutUint32 0 @ PutUint32 maxMessageBytes @ PutUint32 n @ PutUint64 sessionID \<and>
     HeaderLen \<le> unat maxMessageBytes \<and> 0 < unat n \<and>
     unat limit = min (min MaxMessageSize (unat maxMessageBytes))
       (if cfg_MaxMessageBytes cfg > 0 then nat (cfg_MaxMessageBytes cfg mod 2 ^ 32) else MaxMessageSize))"

text \<open>The ways a frame can be handled; \<open>stays\<close> is a change of other parts only.\<close>

definition stays :: "connection \<Rightarrow> connection \<Rightarrow> bool" where
  "stays c c' \<longleftrightarrow> same_calls c c' \<and> c_mux c' = c_mux c \<and> c_authConfirmed c' = c_authConfirmed c \<and> c_done c' = c_done c"

definition negotiates :: "bytes \<Rightarrow> u32 \<Rightarrow> u32 \<Rightarrow> connection \<Rightarrow> connection \<Rightarrow> bool" where
  "negotiates data limit n c c' \<longleftrightarrow> announces (c_cfg c) data limit n \<and> m_version (c_mux c) = 0 \<and> 0 < n \<and> unat limit \<le> MaxMessageSize \<and>
     (\<exists>ids. c_mux c' = (c_mux c)\<lparr>m_version := 3, m_capabilities := 0, m_nextID := 0, m_activeIDs := ids\<rparr>) \<and>
     same_calls (replace_semaphores n c\<lparr>c_maxMessageBytes := limit, c_maxInFlight := n, c_serverHello := True\<rparr>) c' \<and> c_done c' = c_done c"

definition carries :: "bytes \<Rightarrow> u64 \<Rightarrow> bytes \<Rightarrow> bool" where
  "carries data cid payload \<longleftrightarrow> (\<exists>f ids. DecodeMessage data = Ok f \<and> DecodeExtensions f = Ok (payload, ids) \<and> CorrelationID f = cid \<and>
     MessageType f \<notin> {MessageTypeHello, MessageTypeConnectRejected, MessageTypeGoAway})"

lemma read_hello_exact:
  assumes "read_hello p = Ok (version, capabilities, m, n, sid)" "length p = 22"
  shows "p = PutUint16 version @ PutUint32 capabilities @ PutUint32 m @ PutUint32 n @ PutUint64 sid"
proof -
  have sl: "slice p i j = Ok (take (j - i) (drop i p))" if "i \<le> j" "j \<le> 22" for i j using that assms(2) by (simp add: slice_def)
  have "take 2 p = PutUint16 version" "take 4 (drop 2 p) = PutUint32 capabilities" "take 4 (drop 6 p) = PutUint32 m"
    "take 4 (drop 10 p) = PutUint32 n" "take 8 (drop 14 p) = PutUint64 sid"
    using assms(1) Put_Uint(1) [of "take 2 p"] Put_Uint(2) [of "take 4 (drop 2 p)"] Put_Uint(2) [of "take 4 (drop 6 p)"]
      Put_Uint(2) [of "take 4 (drop 10 p)"] Put_Uint(3) [of "take 8 (drop 14 p)"]
    by (auto simp: read_hello_def bind_res_Ok_iff sl)
  moreover have "p = take 2 p @ take 4 (drop 2 p) @ take 4 (drop 6 p) @ take 4 (drop 10 p) @ take 8 (drop 14 p)"
  proof -
    have "q = take k q @ drop k q" for k and q :: bytes by simp
    from this [of p 2] this [of "drop 2 p" 4] this [of "drop 6 p" 4] this [of "drop 10 p" 4]
    have "p = take 2 p @ drop 2 p" "drop 2 p = take 4 (drop 2 p) @ drop 6 p" "drop 6 p = take 4 (drop 6 p) @ drop 10 p"
      "drop 10 p = take 4 (drop 10 p) @ drop 14 p" by (simp_all add: drop_drop)
    moreover have "drop 14 p = take 8 (drop 14 p)" using assms(2) by simp
    ultimately show ?thesis by metis
  qed
  ultimately show ?thesis by simp
qed

lemma local_limit_exact:
  "unat (local_limit cfg m) = min (min MaxMessageSize (unat m))
     (if cfg_MaxMessageBytes cfg > 0 then nat (cfg_MaxMessageBytes cfg mod 2 ^ 32) else MaxMessageSize)"
proof -
  have "unat (word_of_int i :: u32) = nat (i mod 2 ^ 32)" for i by (simp add: unsigned_of_int take_bit_eq_mod)
  moreover have "unat (word_of_nat MaxMessageSize :: u32) = MaxMessageSize" by (simp add: MaxMessageSize_def unat_of_nat)
  moreover have "unat (min a b) = min (unat a) (unat b)" for a b :: u32 by (simp add: min_def word_le_nat_alt)
  ultimately show ?thesis by (auto simp: local_limit_def Let_def word_less_nat_alt)
qed

lemma local_limit_le: "unat (local_limit cfg n) \<le> MaxMessageSize"
proof -
  have "min (word_of_nat MaxMessageSize) n \<le> (word_of_nat MaxMessageSize :: u32)" by simp
  then have "local_limit cfg n \<le> word_of_nat MaxMessageSize" by (auto simp: local_limit_def Let_def intro: order.trans less_imp_le)
  then show ?thesis by (simp add: word_le_nat_alt MaxMessageSize_def)
qed

lemma handle_hello_cases:
  assumes "handle_hello f ids c = (res, c1)" "inbound_frame data = Ok (f, ids)" "MessageType f = MessageTypeHello"
  obtains (refused) "c1 = c" "\<And>b. res \<noteq> Ok b" | (negotiated) limit n where "negotiates data limit n c c1" "c_authConfirmed c1 = c_authConfirmed c" "res = Ok True"
proof (cases "\<exists>b. res = Ok b")
  case False
  then show ?thesis using assms(1)
    by (intro refused) (auto simp: handle_hello_def Let_def split: if_splits res.splits prod.splits)
next
  case True
  then obtain maxMessageBytes n sid where h: "m_version (c_mux c) = 0" "n \<noteq> 0" "res = Ok True"
    "c1 = (let c1 = replace_semaphores n (c\<lparr>c_maxMessageBytes := local_limit (c_cfg c) maxMessageBytes, c_maxInFlight := n, c_sessionID := sid\<rparr>)
       in c1\<lparr>c_mux := (SetCapabilities 3 0 (c_mux c1))\<lparr>m_activeIDs := capability_mask ids\<rparr>,
          c_frameSize := Some (unat (local_limit (c_cfg c) maxMessageBytes)), c_serverHello := True\<rparr>)"
    and p: "CorrelationID f = 0" "read_hello (Payload f) = Ok (3, 0, maxMessageBytes, n, sid)" "length (Payload f) = 22"
      "\<not> maxMessageBytes < word_of_nat HeaderLen"
    using assms(1) by (auto simp: handle_hello_def Let_def split: if_splits res.splits prod.splits)
  have "HeaderLen \<le> unat maxMessageBytes" using p(4) by (simp add: not_less word_le_nat_alt HeaderLen_def)
  then have "announces (c_cfg c) data (local_limit (c_cfg c) maxMessageBytes) n"
    using assms(2,3) p(1) h(2) read_hello_exact [OF p(2,3)] unfolding announces_def local_limit_exact by (auto simp: unat_gt_0)
  then have "negotiates data (local_limit (c_cfg c) maxMessageBytes) n c c1"
    using h(1,2) local_limit_le by (auto simp: h(4) negotiates_def Let_def replace_semaphores_def SetCapabilities_def same_calls_def word_neq_0_conv)
  moreover have "c_authConfirmed c1 = c_authConfirmed c" by (simp add: h(4) Let_def replace_semaphores_def)
  ultimately show ?thesis using h(3) negotiated by blast
qed

lemma dispatch_cases:
  assumes "dispatchTransportFrame data c = (res, c1)"
  obtains (refused) "stays c c1" "res \<noteq> Ok True"
    | (negotiated) limit n where "negotiates data limit n c c1" "c_authConfirmed c1 = c_authConfirmed c" "res = Ok True"
    | (correlated) cid payload fin where "carries data cid payload" "cid \<noteq> 0" "same_calls c c1" "c_mux c1 = snd (DispatchCorrelated cid payload fin (c_mux c))"
        "c_authConfirmed c1 = c_authConfirmed c" "c_done c1 = c_done c" "res = Ok True"
    | (uncorrelated) t p where "carries data 0 p" "Dispatch t p (c_mux c) = Ok (c_mux c1)" "same_calls c c1"
        "c_authConfirmed c1 = c_authConfirmed c" "c_done c1 = c_done c" "res = Ok True"
proof (cases "c_maxMessageBytes c > 0 \<and> length data > unat (c_maxMessageBytes c) \<or> (\<forall>f ids. inbound_frame data \<noteq> Ok (f, ids))")
  case True
  then have "c1 = c" "res \<noteq> Ok True"
    using assms by (auto simp: dispatchTransportFrame_def split: if_splits res.splits prod.splits)
  then show ?thesis by (intro refused) (simp_all add: stays_def)
next
  case False
  then obtain f ids where d: "\<not> (c_maxMessageBytes c > 0 \<and> length data > unat (c_maxMessageBytes c))" "inbound_frame data = Ok (f, ids)"
    by blast
  let ?t = "MessageType f"
  have e: "(res, c1) = (if ?t = MessageTypeHello then handle_hello f ids c
      else if ?t = MessageTypeConnectRejected then handle_rejected f c
      else if ?t = MessageTypeGoAway then handle_goaway f c
      else if CorrelationID f \<noteq> 0 then
        (case DispatchCorrelated (CorrelationID f) (Payload f) (Flags f AND FlagResponseFinal \<noteq> 0) (c_mux c) of
           (True, m) \<Rightarrow> (Ok True, c\<lparr>c_mux := m\<rparr>)
         | (False, m) \<Rightarrow> (Err (ErrNew (''unexpected response correlation '' @ dec (unat (CorrelationID f)))), c\<lparr>c_mux := m\<rparr>))
      else (case Dispatch ?t (Payload f) (c_mux c) of
              Ok m \<Rightarrow> (Ok True, c\<lparr>c_mux := m\<rparr>) | Err e \<Rightarrow> (Err e, c) | Panic \<Rightarrow> (Panic, c)))"
    using assms d by (auto simp: dispatchTransportFrame_def)
  have car: "carries data (CorrelationID f) (Payload f)" if "?t \<notin> {MessageTypeHello, MessageTypeConnectRejected, MessageTypeGoAway}"
    using d(2) that by (auto simp: inbound_frame_def bind_res_Ok_iff carries_def)
  consider (hello) "?t = MessageTypeHello" | (control) "?t \<noteq> MessageTypeHello" "?t = 3 \<or> ?t = 4"
    | (corr) "?t \<noteq> MessageTypeHello" "?t \<noteq> 3" "?t \<noteq> 4" "CorrelationID f \<noteq> 0" | (uncorr) "?t \<noteq> MessageTypeHello" "?t \<noteq> 3" "?t \<noteq> 4" "CorrelationID f = 0"
    by blast
  then show ?thesis
  proof cases
    case hello
    with e have "handle_hello f ids c = (res, c1)" by simp
    from this d(2) hello show ?thesis
    proof (cases rule: handle_hello_cases)
      case refused
      then show ?thesis by (intro that(1)) (simp_all add: stays_def)
    next
      case (negotiated limit n)
      then show ?thesis by (rule that(2))
    qed
  next
    case control
    with e have "stays c c1" "res \<noteq> Ok True"
      by (auto simp: handle_rejected_def handle_goaway_def Let_def stays_def same_calls_def split: if_splits res.splits prod.splits)
    then show ?thesis by (rule refused)
  next
    case corr
    obtain ok m where dc: "DispatchCorrelated (CorrelationID f) (Payload f) (Flags f AND FlagResponseFinal \<noteq> 0) (c_mux c) = (ok, m)" by fastforce
    have same: "\<not> ok \<Longrightarrow> m = c_mux c" using dc by (auto simp: DispatchCorrelated_def Let_def split: option.splits if_splits)
    show ?thesis
    proof (cases ok)
      case True
      then have "res = Ok True" "c1 = c\<lparr>c_mux := m\<rparr>" using e corr dc by auto
      then show ?thesis using corr car dc correlated [of "CorrelationID f" "Payload f" "Flags f AND FlagResponseFinal \<noteq> 0"]
        by (simp add: same_calls_def)
    next
      case False
      then have "res \<noteq> Ok True" "c1 = c\<lparr>c_mux := m\<rparr>" using e corr dc by auto
      then show ?thesis using refused same False by (simp add: stays_def same_calls_def)
    qed
  next
    case uncorr
    then show ?thesis using e car uncorrelated [of "Payload f" ?t] refused
      by (cases "Dispatch ?t (Payload f) (c_mux c)") (auto simp: stays_def same_calls_def)
  qed
qed

lemma loop_frame_cases:
  obtains (ended) c1 where "stays c c1" "loop_frame types corrs data c = loop_exit types corrs c1"
    | (ignored) "stays c (loop_frame types corrs data c)"
    | (negotiated) limit n where "negotiates data limit n c (loop_frame types corrs data c)"
    | (correlated) cid payload fin where "carries data cid payload" "cid \<noteq> 0" "same_calls c (loop_frame types corrs data c)"
        "c_mux (loop_frame types corrs data c) = snd (DispatchCorrelated cid payload fin (c_mux c))" "c_done (loop_frame types corrs data c) = c_done c"
    | (uncorrelated) t p where "carries data 0 p" "Dispatch t p (c_mux c) = Ok (c_mux (loop_frame types corrs data c))"
        "same_calls c (loop_frame types corrs data c)" "c_done (loop_frame types corrs data c) = c_done c"
proof -
  obtain res c1 where d: "dispatchTransportFrame data c = (res, c1)" by fastforce
  let ?conf = "(confirmAuthentication c1)\<lparr>c_firstResponse := False\<rparr>"
  let ?c = "loop_frame types corrs data c"
  have conf: "same_calls c1 ?conf" "c_mux ?conf = c_mux c1" "c_done ?conf = c_done c1"
    by (simp_all add: confirmAuthentication_def same_calls_def)
  have l: "same_calls c1 ?c" "c_mux ?c = c_mux c1" "c_done ?c = c_done c1" if "res = Ok True"
    using that d conf by (auto simp: loop_frame_def)
  have trans: "same_calls x c1 \<Longrightarrow> same_calls c1 y \<Longrightarrow> same_calls x y" for x y by (simp add: same_calls_def)
  from d show ?thesis
  proof (cases rule: dispatch_cases)
    case refused
    show ?thesis
    proof (cases res)
      case (Err e)
      have "stays c (setConnError (Some (Errorf1 ''decode frame'' e)) c1)"
        using refused(1) by (simp add: setConnError_def stays_def same_calls_def)
      then show ?thesis using that(1) d Err by (simp add: loop_frame_def)
    next
      case (Ok b)
      then show ?thesis using refused d by (intro that(2)) (cases b; simp add: loop_frame_def)
    next
      case Panic
      then show ?thesis using refused d by (intro that(2)) (simp add: loop_frame_def)
    qed
  next
    case (negotiated limit n)
    then have "negotiates data limit n c ?c" using l [OF negotiated(3)] trans by (simp add: negotiates_def)
    then show ?thesis by (rule that(3))
  next
    case (correlated cid payload fin)
    note c1 = l [OF correlated(7)]
    show ?thesis using correlated(1,2) trans [OF correlated(3) c1(1)] c1(2,3) correlated(4,6) by (intro that(4)) auto
  next
    case (uncorrelated t p)
    note c1 = l [OF uncorrelated(6)]
    show ?thesis using uncorrelated(1,2,5) trans [OF uncorrelated(3) c1(1)] c1(2,3) by (intro that(5) [of p t]) auto
  qed
qed

definition same_mux :: "multiplexer \<Rightarrow> multiplexer \<Rightarrow> bool" where
  "same_mux m m' \<longleftrightarrow> m_pending m' = m_pending m \<and> m_correlated m' = m_correlated m \<and> m_closed m' = m_closed m \<and> m_version m' = m_version m \<and>
    m_nextID m' = m_nextID m \<and> m_waiters m' = m_waiters m"

lemma same_mux_call: "same_mux m m" "same_mux m (mux_call call m)" "same_mux m (dropFrame m)"
  by (simp_all add: same_mux_def mux_call_def dropFrame_def)

lemma handlers_same:
  "handleKVNotify p h m = Ok m' \<Longrightarrow> same_mux m m'" "handleNotify p h m = Ok m' \<Longrightarrow> same_mux m m'"
  "handleQueueNotify p h m = Ok m' \<Longrightarrow> same_mux m m'" "same_mux m (handleRpcRequest p m)" "handleRpcResponse p m = Ok m' \<Longrightarrow> same_mux m m'"
  by (auto simp: handleKVNotify_def handleNotify_def handleQueueNotify_def handleRpcRequest_def handleRpcResponse_def bind_res_Ok_iff Let_def
      same_mux_call split: if_splits option.splits res.splits prod.splits)

lemma Dispatch_same:
  assumes "Dispatch t p m = Ok m'"
  shows "same_mux m m' \<or> m' = dispatch_sync t p m"
proof -
  have notify: "same_mux m m'" if "with_notify f t p m = Ok m'" "\<And>h. f p h m = Ok m' \<Longrightarrow> same_mux m m'" for f t
    using that by (auto simp: with_notify_def same_mux_call split: option.splits)
  show ?thesis
    using assms
    by (auto simp: Dispatch_def dest: notify [OF _ handlers_same(1)] notify [OF _ handlers_same(2)] notify [OF _ handlers_same(3)] handlers_same(5)
        simp: handlers_same(4) bind_res_Ok_iff split: if_splits)
qed

lemma Dispatch_no_pending:
  assumes "m_pending m = Map.empty" "Dispatch t p m = Ok m'"
  shows "same_mux m m'"
  using Dispatch_same [OF assms(2)] assms(1)
  by (auto simp: dispatch_sync_def same_mux_def mux_call_def split: option.splits)

lemma Dispatch_version:
  assumes "Dispatch t p m = Ok m'"
  shows "m_version m' = m_version m"
  using Dispatch_same [OF assms]
  by (auto simp: same_mux_def dispatch_sync_def deliver_to_def mux_call_def Let_def split: option.split prod.split)

lemma mux_Close_no_pending:
  assumes "m_pending m = Map.empty" "\<not> m_closed m" "enumerates types (m_pending m)" "enumerates corrs (m_correlated m)"
  shows "m_pending (mux_Close types corrs m) = Map.empty" "m_correlated (mux_Close types corrs m) = Map.empty" "m_closed (mux_Close types corrs m)"
    "m_nextID (mux_Close types corrs m) = m_nextID m"
    "m_waiters (mux_Close types corrs m) w =
      (if \<exists>i q. m_correlated m i = Some q \<and> req_waiter q = Some w then waiter_fail (m_waiters m w) else m_waiters m w)"
proof -
  have t: "types = []" using assms(1,3) by (simp add: enumerates_def)
  have corr: "(\<exists>i\<in>set corrs. \<exists>q. m_correlated m i = Some q \<and> req_waiter q = Some w) \<longleftrightarrow> (\<exists>i q. m_correlated m i = Some q \<and> req_waiter q = Some w)"
    using assms(4) by (auto simp: enumerates_def)
  have id: "m_nextID (fold (\<lambda>i. case d i of None \<Rightarrow> id | Some req \<Rightarrow> fail_correlated req) cs n) = m_nextID n" for d cs n
    by (induction cs arbitrary: n) (auto simp: fail_correlated_def fail_waiter_def split: option.split)
  show "m_pending (mux_Close types corrs m) = Map.empty" "m_correlated (mux_Close types corrs m) = Map.empty" "m_closed (mux_Close types corrs m)"
    "m_nextID (mux_Close types corrs m) = m_nextID m"
    "m_waiters (mux_Close types corrs m) w =
      (if \<exists>i q. m_correlated m i = Some q \<and> req_waiter q = Some w then waiter_fail (m_waiters m w) else m_waiters m w)"
    using assms(2) by (auto simp: mux_Close_def Let_def t fold_fail_correlated id corr)
qed

section \<open>Slots, queues and limits\<close>

fun holds_slot :: "send_phase \<Rightarrow> bool" where
  "holds_slot SNew \<longleftrightarrow> False"
| "holds_slot SQueued \<longleftrightarrow> False"
| "holds_slot (SDone res) \<longleftrightarrow> False"
| "holds_slot _ \<longleftrightarrow> True"

definition calls_in :: "(send_phase \<Rightarrow> bool) \<Rightarrow> bool \<Rightarrow> connection \<Rightarrow> nat set" where
  "calls_in P b c = {r. r < c_newReq c \<and> oneway (sr_kind (c_reqs c r)) = b \<and> P (sr_phase (c_reqs c r))}"

abbreviation sem_for :: "bool \<Rightarrow> connection \<Rightarrow> nat" where
  "sem_for b c \<equiv> if b then c_oneWaySem c else c_requestSem c"

abbreviation queued_for :: "bool \<Rightarrow> connection \<Rightarrow> int" where
  "queued_for b c \<equiv> if b then c_queuedWrites c else c_queuedRequests c"

definition slots_ok :: "bool \<Rightarrow> connection \<Rightarrow> bool" where
  "slots_ok b c \<longleftrightarrow> snd (c_sems c (sem_for b c)) = card (calls_in holds_slot b c) \<and> snd (c_sems c (sem_for b c)) \<le> fst (c_sems c (sem_for b c)) \<and>
     1 \<le> fst (c_sems c (sem_for b c)) \<and> fst (c_sems c (sem_for b c)) \<le> nat (cfg_MaxInFlightRequests (c_cfg c)) \<and>
     (c_serverHello c \<longrightarrow> fst (c_sems c (sem_for b c)) \<le> unat (c_maxInFlight c)) \<and>
     (\<not> c_serverHello c \<longrightarrow> fst (c_sems c (sem_for b c)) = nat (cfg_MaxInFlightRequests (c_cfg c))) \<and>
     queued_for b c = int (card (calls_in (\<lambda>p. p = SQueued) b c)) \<and> queued_for b c \<le> MaxRequestQueueSize (c_cfg c) \<and>
     (\<forall>r\<in>calls_in (\<lambda>p. p = SQueued) b c. sr_sem (c_reqs c r) = sem_for b c)"

definition sems_ok :: "connection \<Rightarrow> bool" where
  "sems_ok c \<longleftrightarrow> c_requestSem c \<noteq> c_oneWaySem c \<and> c_requestSem c < c_newSem c \<and> c_oneWaySem c < c_newSem c"

text \<open>Before HELLO nothing has been admitted, and at most CONNECT has been written.\<close>

definition hello_ok :: "connection \<Rightarrow> bool" where
  "hello_ok c \<longleftrightarrow> (c_authConfirmed c \<longrightarrow> c_serverHello c) \<and> (c_serverHello c \<longrightarrow> c_done c \<or> m_version (c_mux c) = 3) \<and>
     (\<not> c_serverHello c \<longrightarrow>
        (\<forall>frame\<in>set (c_wire c). connect_frame (c_cfg c) = Ok frame) \<and> length (c_wire c) \<le> (if c_started c \<and> \<not> c_connecting c then 1 else 0) \<and>
        (\<forall>r<c_newReq c. sr_cid (c_reqs c r) = 0 \<and> (sr_phase (c_reqs c r) = SNew \<or> (\<exists>e. sr_phase (c_reqs c r) = SDone (Err e)))))"

definition limits_ok :: "connection \<Rightarrow> bool" where
  "limits_ok c \<longleftrightarrow> unat (c_maxMessageBytes c) \<le> MaxMessageSize \<and> (c_serverHello c \<longrightarrow> 0 < c_maxInFlight c) \<and>
     (\<forall>frame\<in>set (c_wire c). connect_frame (c_cfg c) = Ok frame \<or> length frame \<le> unat (c_maxMessageBytes c)) \<and>
     (\<forall>r frame. r < c_newReq c \<longrightarrow> sr_phase (c_reqs c r) = SWriting frame \<longrightarrow> length frame \<le> unat (c_maxMessageBytes c))"

definition calls_ok :: "connection \<Rightarrow> bool" where
  "calls_ok c \<longleftrightarrow> slots_ok False c \<and> slots_ok True c \<and> sems_ok c \<and> hello_ok c \<and> limits_ok c"

definition quiet :: "connection \<Rightarrow> connection \<Rightarrow> bool" where
  "quiet c c' \<longleftrightarrow> same_calls c c' \<and> (c_authConfirmed c' \<longrightarrow> c_authConfirmed c \<or> c_serverHello c) \<and>
     (c_done c' \<or> \<not> c_done c \<and> m_version (c_mux c') = m_version (c_mux c))"

lemma finite_calls_in [simp]: "finite (calls_in P b c)"
  by (simp add: calls_in_def)

lemma calls_in_same: "same_calls c c' \<Longrightarrow> calls_in P b c' = calls_in P b c"
  by (simp add: calls_in_def same_calls_def)

lemma quiet_calls_ok:
  assumes "calls_ok c" "quiet c c'"
  shows "calls_ok c'"
proof -
  have same: "same_calls c c'" using assms(2) by (simp add: quiet_def)
  have "slots_ok b c'" if "slots_ok b c" for b using that same by (cases b) (simp_all add: slots_ok_def calls_in_same [OF same], simp_all add: same_calls_def)
  moreover have "sems_ok c'" "limits_ok c'" using assms(1) same by (simp_all add: calls_ok_def sems_ok_def limits_ok_def same_calls_def)
  moreover have "hello_ok c'" using assms by (auto simp: calls_ok_def hello_ok_def quiet_def same_calls_def)
  ultimately show ?thesis using assms(1) by (simp add: calls_ok_def)
qed

text \<open>A call moves from one phase to another.\<close>

definition moves :: "nat \<Rightarrow> send_req \<Rightarrow> connection \<Rightarrow> connection \<Rightarrow> bool" where
  "moves r q' c c' \<longleftrightarrow> r < c_newReq c \<and> sr_kind q' = sr_kind (c_reqs c r) \<and> c_reqs c' = (c_reqs c)(r := q') \<and> c_newReq c' = c_newReq c \<and>
     c_cfg c' = c_cfg c \<and> c_requestSem c' = c_requestSem c \<and> c_oneWaySem c' = c_oneWaySem c \<and> c_newSem c' = c_newSem c \<and>
     c_serverHello c' = c_serverHello c \<and> c_authConfirmed c' = c_authConfirmed c \<and> c_done c' = c_done c \<and>
     c_maxMessageBytes c' = c_maxMessageBytes c \<and> c_maxInFlight c' = c_maxInFlight c \<and> m_version (c_mux c') = m_version (c_mux c) \<and>
     c_started c' = c_started c \<and> c_connecting c' = c_connecting c"

lemma card_move:
  assumes "moves r q' c c'" "oneway (sr_kind (c_reqs c r)) = b"
  shows "card (calls_in P b c') + (if P (sr_phase (c_reqs c r)) then 1 else 0) = card (calls_in P b c) + (if P (sr_phase q') then 1 else 0)"
proof -
  have "calls_in P b c' = (if P (sr_phase q') then insert r (calls_in P b c) else calls_in P b c - {r})"
    using assms by (auto simp: calls_in_def moves_def)
  moreover have "r \<in> calls_in P b c \<longleftrightarrow> P (sr_phase (c_reqs c r))" using assms by (auto simp: calls_in_def moves_def)
  moreover have "card (calls_in P b c) > 0" if "r \<in> calls_in P b c" using that by (metis card_gt_0_iff empty_iff finite_calls_in)
  ultimately show ?thesis by (auto simp: card_insert_if)
qed

lemma slots_move:
  assumes ok: "slots_ok b c" and mv: "moves r q' c c'" and kind: "oneway (sr_kind (c_reqs c r)) = b"
    and cap: "fst (c_sems c' (sem_for b c)) = fst (c_sems c (sem_for b c))"
    and held: "snd (c_sems c' (sem_for b c)) + (if holds_slot (sr_phase (c_reqs c r)) then 1 else 0) =
      snd (c_sems c (sem_for b c)) + (if holds_slot (sr_phase q') then 1 else 0)" "snd (c_sems c' (sem_for b c)) \<le> fst (c_sems c (sem_for b c))"
    and qd: "queued_for b c' + (if sr_phase (c_reqs c r) = SQueued then 1 else 0) = queued_for b c + (if sr_phase q' = SQueued then 1 else 0)"
      "queued_for b c' \<le> MaxRequestQueueSize (c_cfg c)" "sr_phase q' = SQueued \<Longrightarrow> sr_sem q' = sem_for b c"
  shows "slots_ok b c'"
proof -
  have m: "c_requestSem c' = c_requestSem c" "c_oneWaySem c' = c_oneWaySem c" "c_cfg c' = c_cfg c" "c_maxInFlight c' = c_maxInFlight c"
    "c_serverHello c' = c_serverHello c" "c_reqs c' = (c_reqs c)(r := q')" using mv by (simp_all add: moves_def)
  have sm: "sem_for b c' = sem_for b c" by (simp add: m)
  note d = ok [unfolded slots_ok_def]
  have "snd (c_sems c' (sem_for b c')) = card (calls_in holds_slot b c')"
    using d held(1) card_move [OF mv kind, of holds_slot] unfolding sm by simp
  moreover have "queued_for b c' = int (card (calls_in (\<lambda>p. p = SQueued) b c'))"
    using d qd(1) card_move [OF mv kind, of "\<lambda>p. p = SQueued"] by (simp split: if_splits)
  moreover have "sr_sem (c_reqs c' k) = sem_for b c'" if "k \<in> calls_in (\<lambda>p. p = SQueued) b c'" for k
    using d that qd(3) mv unfolding sm by (auto simp: calls_in_def moves_def split: if_splits)
  ultimately show ?thesis unfolding slots_ok_def using d cap held(2) qd(2) unfolding sm m(3-5) by auto
qed

lemma slots_other:
  assumes ok: "slots_ok b c" and mv: "moves r q' c c'" and kind: "oneway (sr_kind (c_reqs c r)) \<noteq> b"
    and same: "c_sems c' (sem_for b c) = c_sems c (sem_for b c)" "queued_for b c' = queued_for b c"
  shows "slots_ok b c'"
proof -
  have "calls_in P b c' = calls_in P b c" for P using mv kind by (auto simp: calls_in_def moves_def)
  moreover have "sem_for b c' = sem_for b c" using mv by (simp add: moves_def)
  moreover have "sr_sem (c_reqs c' k) = sr_sem (c_reqs c k)" if "k \<in> calls_in P b c" for k P
    using that mv kind by (auto simp: calls_in_def moves_def)
  ultimately show ?thesis using ok same mv unfolding slots_ok_def by (auto simp: moves_def)
qed

definition move_fits :: "send_req \<Rightarrow> connection \<Rightarrow> connection \<Rightarrow> bool" where
  "move_fits q' c c' \<longleftrightarrow> (c_serverHello c \<or> sr_cid q' = 0 \<and> (\<exists>e. sr_phase q' = SDone (Err e)) \<and> c_wire c' = c_wire c) \<and>
     (\<forall>frame\<in>set (c_wire c'). frame \<in> set (c_wire c) \<or> length frame \<le> unat (c_maxMessageBytes c)) \<and>
     (\<forall>frame. sr_phase q' = SWriting frame \<longrightarrow> length frame \<le> unat (c_maxMessageBytes c))"

lemma calls_ok_move:
  assumes ok: "calls_ok c" and mv: "moves r q' c c'" and fits: "move_fits q' c c'" and b: "oneway (sr_kind (c_reqs c r)) = b"
    and "slots_ok b c'" "c_sems c' (sem_for (\<not> b) c) = c_sems c (sem_for (\<not> b) c)" "queued_for (\<not> b) c' = queued_for (\<not> b) c"
  shows "calls_ok c'"
proof -
  have "slots_ok (\<not> b) c" using ok by (cases b) (simp_all add: calls_ok_def)
  then have "slots_ok (\<not> b) c'" by (rule slots_other [OF _ mv]) (use b assms(6,7) in simp_all)
  then have "slots_ok False c'" "slots_ok True c'" using assms(5) by (cases b; simp)+
  moreover have "sems_ok c'" using ok mv by (simp add: calls_ok_def sems_ok_def moves_def)
  moreover have "hello_ok c'" using ok mv fits by (auto simp: calls_ok_def hello_ok_def moves_def move_fits_def)
  moreover have "limits_ok c'" using ok mv fits by (auto simp: calls_ok_def limits_ok_def moves_def move_fits_def split: if_splits)
  ultimately show ?thesis by (simp add: calls_ok_def)
qed

lemma calls_ok_stay:
  assumes ok: "calls_ok c" and mv: "moves r q' c c'" and fits: "move_fits q' c c'"
    and "holds_slot (sr_phase q') = holds_slot (sr_phase (c_reqs c r))" "sr_phase q' \<noteq> SQueued" "sr_phase (c_reqs c r) \<noteq> SQueued"
    and same: "c_sems c' = c_sems c" "c_queuedRequests c' = c_queuedRequests c" "c_queuedWrites c' = c_queuedWrites c"
  shows "calls_ok c'"
proof -
  let ?b = "oneway (sr_kind (c_reqs c r))"
  have b: "slots_ok ?b c" using ok by (cases ?b) (simp_all add: calls_ok_def)
  then have "slots_ok ?b c'" by (rule slots_move [OF _ mv refl]) (use b assms(4-) in \<open>auto simp: slots_ok_def\<close>)
  then show ?thesis by (rule calls_ok_move [OF ok mv fits refl]) (simp_all add: same)
qed

text \<open>Taking, queueing for and giving back a slot.\<close>

lemma admit_ok:
  assumes ok: "calls_ok c" and r: "r < c_newReq c" "c_serverHello c" "x \<in> set (slot_cases ctxErr (sem_for b c) c)"
    and b: "oneway (sr_kind (c_reqs c r)) = b" and ph: "sr_phase (c_reqs c r) = SNew \<and> n = 0 \<or> sr_phase (c_reqs c r) = SQueued \<and> n = -1"
  shows "calls_ok (admit r (sem_for b c) x (add_queued (sr_kind (c_reqs c r)) n c))" (is "calls_ok ?c")
proof -
  have s: "slots_ok b c" "sems_ok c" using ok by (cases b; simp add: calls_ok_def)+
  have x: "(\<exists>u. x = Ok u) \<and> snd (c_sems c (sem_for b c)) < fst (c_sems c (sem_for b c)) \<or> (\<exists>e. x = Err e)"
    using r(3) by (auto simp: slot_cases_def split: if_splits option.splits)
  define q' where "q' = c_reqs ?c r"
  have phq: "sr_phase q' = (case x of Ok _ \<Rightarrow> SAdmitted | Err e \<Rightarrow> SDone (Err e) | Panic \<Rightarrow> sr_phase (c_reqs c r))"
    by (simp add: q'_def admit_def take_slot_def upd_req_def add_queued_def split: res.split)
  have mv: "moves r q' c ?c"
    using r(1) by (auto simp: moves_def q'_def admit_def take_slot_def upd_req_def add_queued_def split: res.split)
  have fits: "move_fits q' c ?c" using r(2) x by (auto simp: move_fits_def phq admit_def take_slot_def upd_req_def add_queued_def)
  have sem: "c_sems ?c = (case x of Ok _ \<Rightarrow> (c_sems c)(sem_for b c := (fst (c_sems c (sem_for b c)), snd (c_sems c (sem_for b c)) + 1)) | _ \<Rightarrow> c_sems c)"
    by (simp add: admit_def take_slot_def upd_req_def add_queued_def split: res.split)
  have que: "queued_for b ?c = queued_for b c + n" "queued_for (\<not> b) ?c = queued_for (\<not> b) c"
    using b by (auto simp: admit_def take_slot_def upd_req_def add_queued_def split: res.split)
  have "slots_ok b ?c"
    by (rule slots_move [OF s(1) mv b]) (use s(1) ph x que(1) in \<open>auto simp: sem phq slots_ok_def\<close>)
  then show ?thesis
    by (rule calls_ok_move [OF ok mv fits b]) (use s(2) que(2) in \<open>auto simp: sem sems_ok_def split: res.split\<close>)
qed

lemma queue_ok:
  assumes ok: "calls_ok c" and r: "r < c_newReq c" "c_serverHello c" "sr_phase (c_reqs c r) = SNew" and b: "oneway (sr_kind (c_reqs c r)) = b"
    and room: "queued_for b c + 1 \<le> MaxRequestQueueSize (c_cfg c)"
  shows "calls_ok (upd_req r (\<lambda>q. q\<lparr>sr_phase := SQueued, sr_sem := sem_for b c\<rparr>) (add_queued (sr_kind (c_reqs c r)) 1 c))" (is "calls_ok ?c")
proof -
  have s: "slots_ok b c" using ok by (cases b) (simp_all add: calls_ok_def)
  let ?q = "(c_reqs c r)\<lparr>sr_phase := SQueued, sr_sem := sem_for b c\<rparr>"
  have mv: "moves r ?q c ?c" using r(1) by (simp add: moves_def upd_req_def add_queued_def)
  have fits: "move_fits ?q c ?c" using r(2) by (simp add: move_fits_def upd_req_def add_queued_def)
  have sem: "c_sems ?c = c_sems c" by (simp add: upd_req_def add_queued_def)
  have que: "queued_for b ?c = queued_for b c + 1" "queued_for (\<not> b) ?c = queued_for (\<not> b) c"
    using b by (auto simp: upd_req_def add_queued_def)
  have "slots_ok b ?c" by (rule slots_move [OF s mv b]) (use s r(3) room que(1) in \<open>simp_all add: sem slots_ok_def\<close>)
  then show ?thesis by (rule calls_ok_move [OF ok mv fits b]) (simp_all only: sem que(2))
qed

lemma release_ok:
  assumes ok: "calls_ok c" and r: "r < c_newReq c" "sr_phase (c_reqs c r) = SReleasing res" and rel: "send_release r res c = Some c'"
  shows "calls_ok c'"
proof -
  let ?b = "oneway (sr_kind (c_reqs c r))"
  let ?sem = "sem_for ?b c"
  have s: "slots_ok ?b c" "sems_ok c" using ok by (cases ?b; simp add: calls_ok_def)+
  have hello: "c_serverHello c" using ok r by (auto simp: calls_ok_def hello_ok_def)
  have rel': "snd (c_sems c ?sem) > 0"
    "c' = to_phase r (SDone res) (c\<lparr>c_sems := (c_sems c)(?sem := (fst (c_sems c ?sem), snd (c_sems c ?sem) - 1))\<rparr>)"
    using rel by (auto simp: send_release_def sem_of_def Let_def split: if_splits)
  have mv: "moves r ((c_reqs c r)\<lparr>sr_phase := SDone res\<rparr>) c c'" using r(1) by (simp add: rel'(2) moves_def upd_req_def)
  have fits: "move_fits ((c_reqs c r)\<lparr>sr_phase := SDone res\<rparr>) c c'" using hello by (simp add: move_fits_def rel'(2) upd_req_def)
  have sem: "c_sems c' = (c_sems c)(?sem := (fst (c_sems c ?sem), snd (c_sems c ?sem) - 1))" by (simp add: rel'(2) upd_req_def)
  have que: "queued_for b c' = queued_for b c" for b by (simp add: rel'(2) upd_req_def)
  have "slots_ok ?b c'"
    by (rule slots_move [OF s(1) mv refl]) (use s(1) r(2) rel'(1) que in \<open>auto simp: sem slots_ok_def\<close>)
  then show ?thesis
    by (rule calls_ok_move [OF ok mv fits refl]) (use s(2) que in \<open>auto simp: sem sems_ok_def\<close>)
qed

lemma moved_phase:
  assumes "r < c_newReq c" "sr_kind (f (c_reqs c r)) = sr_kind (c_reqs c r)"
  shows "moves r (f (c_reqs c r)) c (upd_req r f c)"
  using assms by (simp add: moves_def upd_req_def)

lemma call_ok:
  assumes ok: "calls_ok c"
  shows "calls_ok (send_call k c)"
proof -
  have "calls_in P b (send_call k c) = calls_in P b c" if "\<not> P SNew" for P b
    using that by (auto simp: calls_in_def send_call_def less_Suc_eq)
  then have c: "calls_in holds_slot b (send_call k c) = calls_in holds_slot b c"
    "calls_in (\<lambda>p. p = SQueued) b (send_call k c) = calls_in (\<lambda>p. p = SQueued) b c" for b by simp_all
  have "sr_sem (c_reqs (send_call k c) r) = sr_sem (c_reqs c r)" if "r \<in> calls_in P b c" for P b r
    using that by (auto simp: calls_in_def send_call_def)
  then have "slots_ok b (send_call k c)" if "slots_ok b c" for b
    using that unfolding slots_ok_def c by (auto simp: send_call_def)
  then show ?thesis using ok
    by (auto simp: calls_ok_def sems_ok_def hello_ok_def limits_ok_def send_call_def less_Suc_eq)
qed

lemma begin_ok:
  assumes ok: "calls_ok c" and r: "r < c_newReq c" "sr_phase (c_reqs c r) = SNew"
    and x: "case x of Some y \<Rightarrow> y \<in> set (slot_cases ctxErr (sem_of (sr_kind (c_reqs c r)) c) c) | None \<Rightarrow> True"
  shows "calls_ok (send_begin x r c)"
proof -
  let ?k = "sr_kind (c_reqs c r)"
  have sem: "sem_of ?k c = sem_for (oneway ?k) c" "queued ?k c = queued_for (oneway ?k) c" by (simp_all add: sem_of_def queued_def)
  have zero: "add_queued ?k 0 c = c" by (simp add: add_queued_def)
  have cid: "\<not> c_serverHello c \<Longrightarrow> sr_cid (c_reqs c r) = 0" using ok r(1) by (simp add: calls_ok_def hello_ok_def)
  have done_err: "calls_ok (to_phase r (SDone (Err e)) c)" for e
    using r cid by (intro calls_ok_stay [OF ok moved_phase]) (auto simp: move_fits_def upd_req_def)
  show ?thesis
  proof (cases "c_authConfirmed c")
    case False
    then show ?thesis using done_err by (simp add: send_begin_def)
  next
    case True
    then have hello: "c_serverHello c" using ok by (simp add: calls_ok_def hello_ok_def)
    show ?thesis
    proof (cases x)
      case (Some y)
      then show ?thesis using admit_ok [OF ok r(1) hello _ refl, of y ctxErr 0] x r(2) True by (simp add: send_begin_def sem zero)
    next
      case None
      then show ?thesis using queue_ok [OF ok r(1) hello r(2) refl] done_err True by (simp add: send_begin_def sem Let_def)
    qed
  qed
qed

lemma queued_ok:
  assumes ok: "calls_ok c" and r: "r < c_newReq c" "sr_phase (c_reqs c r) = SQueued"
    and x: "x \<in> set (slot_cases ctxErr (sr_sem (c_reqs c r)) c)"
  shows "calls_ok (send_queued x r c)"
proof -
  let ?b = "oneway (sr_kind (c_reqs c r))"
  have hello: "c_serverHello c" using ok r by (auto simp: calls_ok_def hello_ok_def)
  have "slots_ok ?b c" using ok by (cases ?b) (simp_all add: calls_ok_def)
  moreover have "r \<in> calls_in (\<lambda>p. p = SQueued) ?b c" using r by (simp add: calls_in_def)
  ultimately have sem: "sr_sem (c_reqs c r) = sem_for ?b c" unfolding slots_ok_def by blast
  show ?thesis
    unfolding send_queued_def sem by (rule admit_ok [OF ok r(1) hello _ refl]) (use x r(2) sem in simp_all)
qed

lemma length_splice_le: "length (Fitz_Prelude.splice i bs xs) \<le> max (i + length bs) (length xs)"
  by (auto simp: Fitz_Prelude.splice_def)

lemma encoded_length:
  assumes "encode_call k cid = Ok frame"
  shows "length frame \<le> MaxMessageSize"
proof -
  have bound: "length (Fitz_Prelude.splice 11 (PutUint32 n) (Fitz_Prelude.splice 3 (PutUint64 cid) xs)) \<le> max 15 (length xs)" for n xs
    using length_splice_le [of 11 "PutUint32 n" "Fitz_Prelude.splice 3 (PutUint64 cid) xs"] length_splice_le [of 3 "PutUint64 cid" xs] by simp
  have "length frame \<le> MaxMessageSize" if "EncodeFrameWithHeaderAndPayloadWriter t flags cid (Some w) = Ok frame" for t flags w
    using that by (auto simp: EncodeFrameWithHeaderAndPayloadWriter_def Let_def MaxPayloadSize_def MaxMessageSize_def HeaderLen_def
      intro!: order.trans [OF bound] split: if_splits)
  then show ?thesis using assms
    by (cases k) (auto simp: encode_call_def EncodeFrameOwnedWithHeader_def MaxPayloadSize_def MaxMessageSize_def HeaderLen_def
      split: if_splits option.splits)
qed

definition only_call :: "nat \<Rightarrow> connection \<Rightarrow> connection \<Rightarrow> bool" where
  "only_call r c c' \<longleftrightarrow> (\<exists>m q. c' = c\<lparr>c_mux := m, c_reqs := (c_reqs c)(r := q)\<rparr> \<and> m_version m = m_version (c_mux c) \<and>
     sr_kind q = sr_kind (c_reqs c r))"

lemma only_callI:
  assumes "c' = c\<lparr>c_mux := c_mux c', c_reqs := (c_reqs c)(r := c_reqs c' r)\<rparr>" "m_version (c_mux c') = m_version (c_mux c)"
    "sr_kind (c_reqs c' r) = sr_kind (c_reqs c r)"
  shows "only_call r c c'"
  using assms unfolding only_call_def by blast

lemma register_waiter_only:
  "only_call r c (register_waiter r cid frame c)" "sr_phase (c_reqs (register_waiter r cid frame c) r) \<in> {SWriting frame, SReleasing (Err (ErrNew ''register correlated request''))}"
proof -
  obtain ok m where rc: "RegisterCorrelatedRequest cid r ((c_mux c)\<lparr>m_waiters := (m_waiters (c_mux c))(r := waiter_reset (m_waiters (c_mux c) r))\<rparr>) = (ok, m)"
    by fastforce
  then have "m_version m = m_version (c_mux c)"
    by (auto simp: RegisterCorrelatedRequest_def fail_waiter_def split: if_splits)
  then show "only_call r c (register_waiter r cid frame c)" "sr_phase (c_reqs (register_waiter r cid frame c) r) \<in> {SWriting frame, SReleasing (Err (ErrNew ''register correlated request''))}"
    by (auto simp: register_waiter_def rc upd_req_def split: bool.split intro!: only_callI)
qed

lemma only_call_trans: "only_call r c c1 \<Longrightarrow> only_call r c1 c2 \<Longrightarrow> only_call r c c2"
  by (auto simp: only_call_def [of _ _ c1] only_call_def [of _ c1] intro!: only_callI)

lemma send_encode_only:
  "only_call r c (send_encode r c)" "holds_slot (sr_phase (c_reqs (send_encode r c) r))"
  "sr_phase (c_reqs (send_encode r c) r) = SWriting frame \<Longrightarrow> length frame \<le> unat (c_maxMessageBytes c)"
proof -
  let ?k = "sr_kind (c_reqs c r)"
  obtain cid m where n: "(if needs_id ?k then NextCorrelationID (c_mux c) else (0, c_mux c)) = (cid, m)" by fastforce
  define c1 where "c1 = upd_req r (\<lambda>q. q\<lparr>sr_cid := cid\<rparr>) (c\<lparr>c_mux := m\<rparr>)"
  have v: "m_version m = m_version (c_mux c)" using n by (auto simp: NextCorrelationID_def split: if_splits)
  then have c1: "only_call r c c1" by (intro only_callI) (simp_all add: c1_def upd_req_def)
  have ph: "only_call r c (to_phase r p c1)" for p using v by (intro only_callI) (simp_all add: c1_def upd_req_def)
  have short: "length frame \<le> unat (c_maxMessageBytes c)" if "encode_call k cid = Ok frame" "\<not> word_of_nat (length frame) > c_maxMessageBytes c"
    for k frame
    using that encoded_length [OF that(1)] by (simp add: not_less word_le_nat_alt MaxMessageSize_def unat_of_nat)
  have e: "send_encode r c = (if needs_id ?k \<and> cid = 0 then to_phase r (SReleasing (Err ids_exhausted)) c1
         else case encode_call ?k cid of
                Err e \<Rightarrow> to_phase r (SReleasing (Err e)) c1
              | Panic \<Rightarrow> to_phase r (SReleasing Panic) c1
              | Ok frame \<Rightarrow>
                  if word_of_nat (length frame) > c_maxMessageBytes c then to_phase r (SReleasing (Err (too_long c))) c1
                  else register_waiter r cid frame c1)"
    unfolding send_encode_def Let_def n c1_def by (simp split: res.split)
  have rw: "holds_slot (sr_phase (c_reqs (register_waiter r cid f c1) r))" "sr_phase (c_reqs (register_waiter r cid f c1) r) = SWriting g \<Longrightarrow> g = f"
    for f g using register_waiter_only(2) [of r cid f c1] by auto
  show "only_call r c (send_encode r c)" "holds_slot (sr_phase (c_reqs (send_encode r c) r))"
    "sr_phase (c_reqs (send_encode r c) r) = SWriting frame \<Longrightarrow> length frame \<le> unat (c_maxMessageBytes c)"
    using ph short only_call_trans [OF c1 register_waiter_only(1)] rw
    by (auto simp: e upd_req_def split: if_splits res.splits dest!: rw(2))
qed

lemma only_call_ok:
  assumes ok: "calls_ok c" and r: "r < c_newReq c" "c_serverHello c" and oc: "only_call r c c'"
    and ph: "holds_slot (sr_phase (c_reqs c r))" "holds_slot (sr_phase (c_reqs c' r))"
      "\<And>frame. sr_phase (c_reqs c' r) = SWriting frame \<Longrightarrow> length frame \<le> unat (c_maxMessageBytes c)"
  shows "calls_ok c'"
proof (rule calls_ok_stay [OF ok, of r "c_reqs c' r"])
  obtain m q where c': "c' = c\<lparr>c_mux := m, c_reqs := (c_reqs c)(r := q)\<rparr>" "m_version m = m_version (c_mux c)" "sr_kind q = sr_kind (c_reqs c r)"
    using oc unfolding only_call_def by metis
  show "moves r (c_reqs c' r) c c'" "move_fits (c_reqs c' r) c c'" using r ph(3) c'(2,3) by (simp_all add: c'(1) moves_def move_fits_def)
  show "c_sems c' = c_sems c" "c_queuedRequests c' = c_queuedRequests c" "c_queuedWrites c' = c_queuedWrites c" by (simp_all add: c'(1))
qed (use ph in auto)

lemma end_request_only: "only_call r c (end_request r res c)" "sr_phase (c_reqs (end_request r res c) r) = SReleasing res"
  by (auto simp: end_request_def unregister_def UnregisterCorrelatedRequest_def upd_req_def split: option.splits intro!: only_callI)

lemma send_wait_only:
  assumes "send_wait sc r c = Some c'"
  shows "only_call r c c'" "\<exists>res. sr_phase (c_reqs c' r) = SReleasing res"
  using assms by (auto simp: send_wait_def Let_def end_request_only split: send_case.splits if_splits)

lemma write_ok:
  assumes ok: "calls_ok c" and r: "r < c_newReq c" "sr_phase (c_reqs c r) = SWriting frame"
  shows "calls_ok (send_write writeErr frame r c)"
proof -
  have hello: "c_serverHello c" using ok r by (auto simp: calls_ok_def hello_ok_def)
  have len: "length frame \<le> unat (c_maxMessageBytes c)" using ok r by (auto simp: calls_ok_def limits_ok_def)
  show ?thesis
  proof (cases writeErr)
    case (Some e)
    have "only_call r c (to_phase r p c)" for p by (intro only_callI) (simp_all add: upd_req_def)
    then have "only_call r c (send_write writeErr frame r c)" using end_request_only(1) by (simp add: send_write_def Some)
    moreover have "sr_phase (c_reqs (send_write writeErr frame r c) r) \<in> range SReleasing"
      using end_request_only(2) [of r _ c] by (simp add: send_write_def Some) (simp add: upd_req_def)
    ultimately show ?thesis using r by (intro only_call_ok [OF ok r(1) hello]) auto
  next
    case None
    let ?p = "if oneway (sr_kind (c_reqs c r)) then SReleasing (Ok []) else SWaiting"
    have e: "send_write writeErr frame r c = to_phase r ?p (c\<lparr>c_wire := c_wire c @ [frame]\<rparr>)" by (simp add: send_write_def None)
    show ?thesis
      unfolding e by (rule calls_ok_stay [OF ok, of r "(c_reqs c r)\<lparr>sr_phase := ?p\<rparr>"])
        (use r hello len in \<open>auto simp: moves_def move_fits_def upd_req_def\<close>)
  qed
qed

lemma negotiates_ok:
  assumes ok: "calls_ok c" and n: "negotiates data limit n c c'" and fresh: "\<not> c_serverHello c"
  shows "calls_ok c'"
proof -
  have same: "c_reqs c' = c_reqs c" "c_newReq c' = c_newReq c" "c_wire c' = c_wire c" "c_cfg c' = c_cfg c" "c_serverHello c'"
    "c_maxInFlight c' = n" "c_maxMessageBytes c' = limit" "c_queuedRequests c' = c_queuedRequests c" "c_queuedWrites c' = c_queuedWrites c"
    "c_sems c' = c_sems (replace_semaphores n c)" "c_requestSem c' = c_requestSem (replace_semaphores n c)"
    "c_oneWaySem c' = c_oneWaySem (replace_semaphores n c)" "c_newSem c' = c_newSem (replace_semaphores n c)"
    using n by (auto simp: negotiates_def same_calls_def replace_semaphores_def Let_def)
  have idle: "sr_phase (c_reqs c r) = SNew \<or> (\<exists>e. sr_phase (c_reqs c r) = SDone (Err e))" if "r < c_newReq c" for r
    using ok fresh that by (auto simp: calls_ok_def hello_ok_def)
  have none: "calls_in P b c = {}" "calls_in P b c' = {}" if "\<not> P SNew" "\<And>e. \<not> P (SDone e)" for P b
    using idle that by (fastforce simp: calls_in_def same)+
  have emp: "calls_in holds_slot b c' = {}" "calls_in (\<lambda>p. p = SQueued) b c' = {}" "calls_in holds_slot b c = {}" "calls_in (\<lambda>p. p = SQueued) b c = {}" for b
    by (intro none; simp)+
  have n0: "0 < unat n" using n by (simp add: negotiates_def word_less_nat_alt)
  have "slots_ok b c'" for b
  proof -
    have s: "slots_ok b c" "slots_ok False c" "sems_ok c" using ok by (cases b; simp add: calls_ok_def)+
    have cap: "fst (c_sems c (sem_for b c)) = nat (cfg_MaxInFlightRequests (c_cfg c))" "snd (c_sems c (sem_for b c)) = 0" "queued_for b c = 0"
      "1 \<le> fst (c_sems c (sem_for b c))" "0 \<le> MaxRequestQueueSize (c_cfg c)" "fst (c_sems c (c_requestSem c)) = nat (cfg_MaxInFlightRequests (c_cfg c))"
      using s(1,2) emp fresh by (auto simp: slots_ok_def)
    have q0: "queued_for b c' = 0" using cap(3) same(8,9) by (cases b) simp_all
    show ?thesis
    proof (cases "unat n < fst (c_sems c (c_requestSem c))")
      case True
      then have "c_sems c' (sem_for b c') = (unat n, 0)" by (simp add: same replace_semaphores_def Let_def)
      then show ?thesis using cap(1,4-6) n0 True unfolding slots_ok_def emp q0 by (simp add: same(4-7))
    next
      case False
      then have "c_sems c' (sem_for b c') = c_sems c (sem_for b c)" by (simp add: same replace_semaphores_def)
      then show ?thesis using cap False unfolding slots_ok_def emp q0 by (simp add: same(4-7))
    qed
  qed
  moreover have "sems_ok c'" using ok by (simp add: calls_ok_def sems_ok_def same replace_semaphores_def Let_def)
  moreover have "hello_ok c'" using n by (auto simp: hello_ok_def same negotiates_def)
  moreover have "limits_ok c'"
  proof -
    have "\<forall>frame\<in>set (c_wire c). connect_frame (c_cfg c) = Ok frame" using ok fresh by (simp add: calls_ok_def hello_ok_def)
    then show ?thesis using n idle by (fastforce simp: limits_ok_def same negotiates_def)
  qed
  ultimately show ?thesis by (simp add: calls_ok_def)
qed

lemma carries_not_control:
  assumes "hello_first c data" "carries data cid payload"
  shows "c_serverHello c"
  using assms by (auto simp: hello_first_def carries_def)

lemma loop_frame_ok:
  assumes ok: "calls_ok c" and "hello_first c data" "\<not> c_done c"
  shows "calls_ok (loop_frame types corrs data c)"
proof (cases rule: loop_frame_cases [of c types corrs data])
  case (ended c1)
  then have "quiet c (loop_frame types corrs data c)" using loop_exit_same [where c = c1 and types = types and corrs = corrs] by (auto simp: quiet_def stays_def same_calls_def)
  then show ?thesis by (rule quiet_calls_ok [OF ok])
next
  case ignored
  then show ?thesis using assms(3) by (intro quiet_calls_ok [OF ok]) (simp add: quiet_def stays_def)
next
  case (negotiated limit n)
  have "\<not> c_serverHello c" using ok negotiated assms(3) by (auto simp: calls_ok_def hello_ok_def negotiates_def)
  then show ?thesis by (rule negotiates_ok [OF ok negotiated])
next
  case (correlated cid payload fin)
  have "m_version (snd (DispatchCorrelated cid payload fin m)) = m_version m" for m
    by (simp add: DispatchCorrelated_def deliver_to_def Let_def split: option.split)
  then show ?thesis using correlated carries_not_control [OF assms(2) correlated(1)] assms(3)
    by (intro quiet_calls_ok [OF ok]) (simp add: quiet_def)
next
  case (uncorrelated t p)
  then show ?thesis using Dispatch_version [OF uncorrelated(2)] carries_not_control [OF assms(2) uncorrelated(1)] assms(3)
    by (intro quiet_calls_ok [OF ok]) (simp add: quiet_def)
qed

lemma quiet_steps: "quiet c (close_begin c)" "quiet c (close_end c)"
  by (auto simp: quiet_def same_calls_def close_begin_def close_end_def beginAsyncHandlerShutdown_def)

lemma start_ok:
  assumes ok: "calls_ok c"
  shows "calls_ok (snd (start_begin c))" "c_started c \<Longrightarrow> c_connecting c \<Longrightarrow> calls_ok (snd (start_connect writeErr c))"
proof -
  have slots: "slots_ok b c'" if "slots_ok b c" "c' = c\<lparr>c_started := x, c_connecting := y, c_state := z, c_wire := ws\<rparr>" for b c' x y z ws
  proof -
    have "calls_in P b c' = calls_in P b c" for P b by (simp add: calls_in_def that(2))
    then show ?thesis using that(1) by (cases b) (simp_all add: slots_ok_def that(2))
  qed
  have rest: "calls_ok c'" if "c' = c\<lparr>c_started := x, c_connecting := y, c_state := z, c_wire := ws\<rparr>" "hello_ok c'" "limits_ok c'" for c' x y z ws
    using ok slots [OF _ that(1)] that(2,3) by (simp add: calls_ok_def) (simp add: sems_ok_def that(1))
  show "calls_ok (snd (start_begin c))"
    using ok by (cases "c_closed c \<or> c_started c")
      (auto simp: start_begin_def intro!: rest [where x = True and y = True and z = StateAuthenticating and ws = "c_wire c"], auto simp: calls_ok_def hello_ok_def limits_ok_def)
  assume conn: "c_started c" "c_connecting c"
  let ?c1 = "c\<lparr>c_connecting := False\<rparr>"
  have c1: "calls_ok ?c1"
    using ok conn by (intro rest [where x = "c_started c" and y = False and z = "c_state c" and ws = "c_wire c"]) (auto simp: calls_ok_def hello_ok_def limits_ok_def)
  have "calls_ok (?c1\<lparr>c_wire := c_wire c @ [frame]\<rparr>)" if "connect_frame (c_cfg c) = Ok frame" for frame
    using ok conn that by (intro rest [where x = True and y = False and z = "c_state c" and ws = "c_wire c @ [frame]"]) (auto simp: calls_ok_def hello_ok_def limits_ok_def)
  moreover have "calls_ok (close_begin ?c1)" using quiet_calls_ok [OF c1 quiet_steps(1)] .
  ultimately show "calls_ok (snd (start_connect writeErr c))"
    using c1 by (auto simp: start_connect_def Let_def bind_res_Ok_iff split: res.split option.splits)
qed

lemma conn_step_ok:
  assumes "conn_step hello_first s s'" "calls_ok (fst s)"
  shows "calls_ok (fst s')"
  using assms
proof (induction rule: conn_step.induct)
  case (waited c sc res c' fs)
  then have "quiet c c'" using quiet_steps(1) [of c]
    by (auto simp: start_wait_def confirmAuthentication_def quiet_def same_calls_def split: start_case.splits if_splits)
  then show ?case using waited quiet_calls_ok by simp
next
  case (failed c types corrs fs err)
  have "quiet c (loop_exit types corrs (handleReadError err c))"
    using loop_exit_same [where c = "handleReadError err c" and types = types and corrs = corrs]
    by (auto simp: quiet_def same_calls_def handleReadError_def setConnError_def split: if_splits)
  then show ?case using failed quiet_calls_ok by (simp add: loop_read_error_def)
next
  case (cancelled c types corrs fs)
  have "quiet c (loop_exit types corrs c)"
    using loop_exit_same [where c = c and types = types and corrs = corrs] by (auto simp: quiet_def)
  then show ?case using cancelled quiet_calls_ok by simp
next
  case (begun r c x ctxErr fs)
  then show ?case by (auto intro!: begin_ok split: option.splits)
next
  case (encoded r c fs)
  have "c_serverHello c" using encoded by (auto simp: calls_ok_def hello_ok_def)
  then show ?case using encoded send_encode_only [of r c] by (auto intro: only_call_ok)
next
  case (ended r c sc c' fs)
  have "c_serverHello c" using ended by (auto simp: calls_ok_def hello_ok_def)
  then show ?case using ended send_wait_only [OF ended(3)] by (auto intro!: only_call_ok [of c r])
qed (auto intro: quiet_calls_ok quiet_steps start_ok loop_frame_ok call_ok queued_ok write_ok release_ok)

lemma conn_New_ok: "calls_ok (conn_New cfg heap reqs)"
proof -
  have "1 \<le> nat (cfg_MaxInFlightRequests (with_defaults cfg))" "0 \<le> MaxRequestQueueSize (with_defaults cfg)"
    by (auto simp: with_defaults_def MaxRequestQueueSize_def Let_def)
  moreover have "unat (word_of_nat MaxMessageSize :: u32) = MaxMessageSize" by (simp add: MaxMessageSize_def unat_of_nat)
  ultimately show ?thesis
    by (simp add: calls_ok_def slots_ok_def sems_ok_def hello_ok_def limits_ok_def calls_in_def conn_New_def Let_def)
qed

lemma conn_reach_ok:
  assumes "conn_reach hello_first s"
  shows "calls_ok (fst s)"
  using assms by (induction rule: conn_reach.induct) (auto simp: conn_New_ok dest: conn_step_ok)

section \<open>Well-formed connections\<close>

text \<open>What holds of a connection whatever the broker sends.\<close>

definition conn_wf :: "bytes list \<Rightarrow> connection \<Rightarrow> bool" where
  "conn_wf fs c \<longleftrightarrow> sems_ok c \<and> (\<forall>s. snd (c_sems c s) \<le> fst (c_sems c s)) \<and> 1 \<le> nat (cfg_MaxInFlightRequests (c_cfg c)) \<and>
     (\<forall>s\<in>{c_requestSem c, c_oneWaySem c}. fst (c_sems c s) =
        (if c_serverHello c then min (nat (cfg_MaxInFlightRequests (c_cfg c))) (unat (c_maxInFlight c)) else nat (cfg_MaxInFlightRequests (c_cfg c)))) \<and>
     (c_serverHello c \<longrightarrow> (c_done c \<or> m_version (c_mux c) = 3) \<and>
        (\<exists>data\<in>set fs. announces (c_cfg c) data (c_maxMessageBytes c) (c_maxInFlight c)))"

definition wf_frame :: "connection \<Rightarrow> connection \<Rightarrow> bool" where
  "wf_frame c c' \<longleftrightarrow> c_cfg c' = c_cfg c \<and> c_newSem c' = c_newSem c \<and> c_requestSem c' = c_requestSem c \<and> c_oneWaySem c' = c_oneWaySem c \<and>
     c_serverHello c' = c_serverHello c \<and> c_maxMessageBytes c' = c_maxMessageBytes c \<and> c_maxInFlight c' = c_maxInFlight c \<and>
     (\<forall>s. fst (c_sems c' s) = fst (c_sems c s) \<and> (snd (c_sems c s) \<le> fst (c_sems c s) \<longrightarrow> snd (c_sems c' s) \<le> fst (c_sems c s))) \<and>
     (c_done c' \<or> \<not> c_done c \<and> m_version (c_mux c') = m_version (c_mux c))"

lemma wf_frame_wf: "conn_wf fs c \<Longrightarrow> wf_frame c c' \<Longrightarrow> set fs \<subseteq> set fs' \<Longrightarrow> conn_wf fs' c'"
  unfolding conn_wf_def wf_frame_def sems_ok_def by auto

lemma quiet_frame: "quiet c c' \<Longrightarrow> wf_frame c c'"
  by (simp add: quiet_def wf_frame_def same_calls_def)

lemma admit_frame:
  assumes "x \<in> set (slot_cases ctxErr sem c)" "same_calls c c1" "c_done c1 = c_done c" "m_version (c_mux c1) = m_version (c_mux c)"
  shows "wf_frame c (admit r sem x c1)"
  using assms by (auto simp: admit_def take_slot_def wf_frame_def upd_req_def slot_cases_def same_calls_def split: res.split if_splits option.splits)

lemma encode_frame: "wf_frame c (send_encode r c)"
  by (auto simp: send_encode_def register_waiter_def NextCorrelationID_def RegisterCorrelatedRequest_def fail_waiter_def wf_frame_def upd_req_def Let_def
      split: res.split)

lemma end_frame: "wf_frame c (end_request r res c)"
  by (auto simp: end_request_def unregister_def UnregisterCorrelatedRequest_def wf_frame_def upd_req_def Let_def split: option.split)

lemma write_frame: "wf_frame c (send_write writeErr frame r c)"
  using end_frame by (auto simp: send_write_def split: option.split) (auto simp: wf_frame_def upd_req_def)

lemma negotiates_wf:
  assumes wf: "conn_wf fs c" and n: "negotiates data limit n c c'" and "\<not> c_done c"
  shows "conn_wf (fs @ [data]) c'"
proof -
  have fresh: "\<not> c_serverHello c" using wf n assms(3) by (auto simp: conn_wf_def negotiates_def)
  have c': "announces (c_cfg c) data limit n" "m_version (c_mux c') = 3"
    "same_calls (replace_semaphores n c\<lparr>c_maxMessageBytes := limit, c_maxInFlight := n, c_serverHello := True\<rparr>) c'"
    using n by (auto simp: negotiates_def)
  show ?thesis
    using wf fresh c' by (cases "unat n < fst (c_sems c (c_requestSem c))")
      (auto simp: conn_wf_def sems_ok_def same_calls_def replace_semaphores_def Let_def min_def)
qed

lemma loop_frame_wf:
  assumes ok: "conn_wf fs c" and "\<not> c_done c"
  shows "conn_wf (fs @ [data]) (loop_frame types corrs data c)"
proof -
  have frame: "wf_frame c c' \<Longrightarrow> conn_wf (fs @ [data]) c'" for c' using wf_frame_wf [OF ok, of c' "fs @ [data]"] by auto
  show ?thesis
  proof (cases rule: loop_frame_cases [of c types corrs data])
    case (ended c1)
    then have "quiet c (loop_frame types corrs data c)"
      using loop_exit_same [where c = c1 and types = types and corrs = corrs] by (auto simp: quiet_def stays_def same_calls_def)
    then show ?thesis using quiet_frame frame by blast
  next
    case ignored
    then show ?thesis using assms(2) by (intro frame quiet_frame) (simp add: quiet_def stays_def)
  next
    case (negotiated limit n)
    then show ?thesis using negotiates_wf [OF ok _ assms(2)] by blast
  next
    case (correlated cid payload fin)
    have "m_version (snd (DispatchCorrelated cid payload fin m)) = m_version m" for m
      by (simp add: DispatchCorrelated_def deliver_to_def Let_def split: option.split)
    then show ?thesis using correlated assms(2) by (intro frame) (simp add: wf_frame_def same_calls_def)
  next
    case (uncorrelated t p)
    then show ?thesis using Dispatch_version [OF uncorrelated(2)] assms(2)
      by (intro frame) (simp add: wf_frame_def same_calls_def)
  qed
qed

lemma conn_step_wf:
  assumes "conn_step allowed s s'" "conn_wf (snd s) (fst s)"
  shows "conn_wf (snd s') (fst s')"
  using assms
proof (induction rule: conn_step.induct)
  case (started c fs)
  have "wf_frame c (snd (start_begin c))" by (simp add: start_begin_def wf_frame_def)
  then show ?case using started wf_frame_wf by auto
next
  case (connected c fs writeErr)
  have "wf_frame c (snd (start_connect writeErr c))"
    by (auto simp: start_connect_def close_begin_def beginAsyncHandlerShutdown_def wf_frame_def Let_def split: res.split)
  then show ?case using connected wf_frame_wf by auto
next
  case (waited c sc res c' fs)
  then have "wf_frame c c'" using quiet_frame [OF quiet_steps(1), of c]
    by (auto simp: start_wait_def confirmAuthentication_def wf_frame_def split: start_case.splits if_splits)
  then show ?case using waited wf_frame_wf by auto
next
  case (failed c types corrs fs err)
  have "quiet c (loop_exit types corrs (handleReadError err c))"
    using loop_exit_same [where c = "handleReadError err c" and types = types and corrs = corrs]
    by (auto simp: quiet_def same_calls_def handleReadError_def setConnError_def split: if_splits)
  then show ?case using failed wf_frame_wf [OF _ quiet_frame] by (auto simp: loop_read_error_def)
next
  case (cancelled c types corrs fs)
  have "quiet c (loop_exit types corrs c)"
    using loop_exit_same [where c = c and types = types and corrs = corrs] by (auto simp: quiet_def)
  then show ?case using cancelled wf_frame_wf [OF _ quiet_frame] by auto
next
  case (called c fs k)
  then show ?case by (auto intro!: wf_frame_wf [of fs c] simp: wf_frame_def send_call_def)
next
  case (begun r c x ctxErr fs)
  have "wf_frame c (send_begin x r c)"
  proof (cases "c_authConfirmed c \<and> x \<noteq> None")
    case True
    then show ?thesis using begun by (auto simp: send_begin_def Let_def intro!: admit_frame)
  next
    case False
    then show ?thesis by (auto simp: send_begin_def wf_frame_def upd_req_def add_queued_def Let_def)
  qed
  then show ?case using begun wf_frame_wf by auto
next
  case (admitted r c x ctxErr fs)
  have "wf_frame (add_queued k (- 1) c) (admit r (sr_sem (c_reqs c r)) x (add_queued k (- 1) c))" for k
    using admitted by (intro admit_frame [where ctxErr = ctxErr]) (auto simp: slot_cases_def add_queued_def outboundAdmissionError_def)
  moreover have "wf_frame c (add_queued k (- 1) c)" for k by (simp add: add_queued_def wf_frame_def)
  ultimately show ?case using admitted wf_frame_wf by (simp add: send_queued_def) blast
next
  case (ended r c sc c' fs)
  then show ?case by (auto simp: send_wait_def Let_def intro: wf_frame_wf end_frame split: send_case.splits if_splits)
next
  case (released r c res c' fs)
  then have "wf_frame c c'" by (auto simp: send_release_def wf_frame_def upd_req_def Let_def split: if_splits)
  then show ?case using released wf_frame_wf by auto
qed (auto intro: wf_frame_wf quiet_frame quiet_steps loop_frame_wf encode_frame write_frame)

lemma conn_reach_wf: "conn_reach allowed s \<Longrightarrow> conn_wf (snd s) (fst s)"
proof (induction rule: conn_reach.induct)
  case (init cfg heap reqs)
  have "1 \<le> nat (cfg_MaxInFlightRequests (with_defaults cfg))" by (auto simp: with_defaults_def Let_def)
  moreover have "unat (word_of_nat MaxMessageSize :: u32) = MaxMessageSize" by (simp add: MaxMessageSize_def unat_of_nat)
  ultimately show ?case by (simp add: conn_wf_def sems_ok_def conn_New_def Let_def)
next
  case (step s s')
  then show ?case using conn_step_wf by blast
qed



section \<open>Answers\<close>

text \<open>A request whose registration is in the multiplexer, or whose answer is in its waiter.\<close>

fun in_flight :: "send_req \<Rightarrow> bool" where
  "in_flight q \<longleftrightarrow> \<not> oneway (sr_kind q) \<and> (sr_phase q = SWaiting \<or> (\<exists>frame. sr_phase q = SWriting frame))"

fun result_of :: "send_phase \<Rightarrow> bytes res option" where
  "result_of (SReleasing res) = Some res"
| "result_of (SDone res) = Some res"
| "result_of _ = None"

definition registered :: "multiplexer \<Rightarrow> u64 \<Rightarrow> nat \<Rightarrow> bool" where
  "registered m cid r \<longleftrightarrow> (\<exists>q. m_correlated m cid = Some q \<and> req_waiter q = Some r \<and> \<not> req_discard q)"

definition waiter_ok :: "bytes list \<Rightarrow> multiplexer \<Rightarrow> send_req \<Rightarrow> nat \<Rightarrow> bool" where
  "waiter_ok fs m q r \<longleftrightarrow> registered m (sr_cid q) r \<and> \<not> w_ready (m_waiters m r) \<or>
     w_ready (m_waiters m r) \<and> (w_closed (m_waiters m r) \<or> answered fs (sr_cid q) (w_response (m_waiters m r)))"

definition ids_ok :: "connection \<Rightarrow> bool" where
  "ids_ok c \<longleftrightarrow> (\<forall>r<c_newReq c. unat (sr_cid (c_reqs c r)) \<le> unat (m_nextID (c_mux c))) \<and>
     (\<forall>r<c_newReq c. \<forall>k<c_newReq c. sr_cid (c_reqs c r) = sr_cid (c_reqs c k) \<longrightarrow> sr_cid (c_reqs c r) \<noteq> 0 \<longrightarrow> r = k) \<and>
     (\<forall>cid q. m_correlated (c_mux c) cid = Some q \<longrightarrow> unat cid \<le> unat (m_nextID (c_mux c)))"

definition entries_ok :: "connection \<Rightarrow> bool" where
  "entries_ok c \<longleftrightarrow> m_pending (c_mux c) = Map.empty \<and> (m_closed (c_mux c) \<longleftrightarrow> c_done c) \<and> (\<not> c_serverHello c \<longrightarrow> m_correlated (c_mux c) = Map.empty) \<and>
     (\<forall>cid q r. m_correlated (c_mux c) cid = Some q \<longrightarrow> req_waiter q = Some r \<longrightarrow> r < c_newReq c \<and> sr_cid (c_reqs c r) = cid \<and> in_flight (c_reqs c r))"

definition answers_ok :: "bytes list \<Rightarrow> connection \<Rightarrow> bool" where
  "answers_ok fs c \<longleftrightarrow> (\<forall>r<c_newReq c. (in_flight (c_reqs c r) \<longrightarrow> waiter_ok fs (c_mux c) (c_reqs c r) r) \<and>
     (\<forall>resp. \<not> oneway (sr_kind (c_reqs c r)) \<longrightarrow> result_of (sr_phase (c_reqs c r)) = Some (Ok resp) \<longrightarrow> answered fs (sr_cid (c_reqs c r)) resp))"

definition exchange_ok :: "bytes list \<Rightarrow> connection \<Rightarrow> bool" where
  "exchange_ok fs c \<longleftrightarrow> ids_ok c \<and> entries_ok c \<and> answers_ok fs c"

lemma answered_more: "answered fs cid resp \<Longrightarrow> answered (fs @ gs) cid resp"
  by (auto simp: answered_def)

lemma waiter_ok_more: "waiter_ok fs m q r \<Longrightarrow> waiter_ok (fs @ gs) m q r"
  by (auto simp: waiter_ok_def answered_more)

lemma exchange_more: "exchange_ok fs c \<Longrightarrow> exchange_ok (fs @ gs) c"
  by (auto simp: exchange_ok_def answers_ok_def answered_more waiter_ok_more)

text \<open>Steps that leave the calls and the multiplexer's exchange as they are.\<close>

lemma exchange_same:
  assumes "exchange_ok fs c" "c_reqs c' = c_reqs c" "c_newReq c' = c_newReq c" "same_mux (c_mux c) (c_mux c')" "c_done c' = c_done c"
    "c_serverHello c' = c_serverHello c"
  shows "exchange_ok fs c'"
  using assms by (simp add: exchange_ok_def ids_ok_def entries_ok_def answers_ok_def waiter_ok_def registered_def same_mux_def)

lemma exchange_exit:
  assumes ok: "exchange_ok fs c" and "\<not> c_done c" "enumerates types (m_pending (c_mux c))" "enumerates corrs (m_correlated (c_mux c))"
    and same: "same_calls c c1" "c_mux c1 = c_mux c"
  shows "exchange_ok fs (loop_exit types corrs c1)"
proof -
  let ?c = "loop_exit types corrs c1"
  have op: "m_pending (c_mux c) = Map.empty" "\<not> m_closed (c_mux c)" using ok assms(2) by (auto simp: exchange_ok_def entries_ok_def)
  note cl = mux_Close_no_pending [OF op assms(3,4)]
  have c: "c_reqs ?c = c_reqs c" "c_newReq ?c = c_newReq c" "c_mux ?c = mux_Close types corrs (c_mux c)" "c_done ?c"
    using same loop_exit_same [where c = c1 and types = types and corrs = corrs] by (simp_all add: same_calls_def)
  have "waiter_ok fs (c_mux ?c) q r" if "waiter_ok fs (c_mux c) q r" for q r
    using that by (auto simp: waiter_ok_def registered_def c cl waiter_fail_def)
  then show ?thesis using ok by (auto simp: exchange_ok_def ids_ok_def entries_ok_def answers_ok_def c cl)
qed

lemma exchange_correlated:
  assumes ok: "exchange_ok fs c" and car: "carries data cid payload" and same: "same_calls c c'" "c_mux c' = snd (DispatchCorrelated cid payload fin (c_mux c))"
    "c_done c' = c_done c"
  shows "exchange_ok (fs @ [data]) c'"
proof (cases "fin \<and> m_correlated (c_mux c) cid \<noteq> None")
  case False
  then have "c_mux c' = c_mux c" using same(2) by (auto simp: DispatchCorrelated_def split: option.splits)
  then show ?thesis using same by (intro exchange_more exchange_same [OF ok]) (simp_all add: same_calls_def same_mux_call)
next
  case True
  then obtain q where q: "fin" "m_correlated (c_mux c) cid = Some q" by blast
  let ?m = "c_mux c" and ?m' = "c_mux c'"
  have ans: "answered (fs @ [data]) cid payload" using car by (auto simp: answered_def carries_def)
  have m: "m_pending ?m' = m_pending ?m" "m_closed ?m' = m_closed ?m" "m_nextID ?m' = m_nextID ?m" "m_correlated ?m' = (m_correlated ?m)(cid := None)"
    "m_waiters ?m' r = (if req_waiter q = Some r \<and> \<not> req_discard q then waiter_deliver payload (m_waiters ?m r) else m_waiters ?m r)" for r
    using same(2) q by (auto simp: DispatchCorrelated_def deliver_to_def Let_def)
  have c: "c_reqs c' = c_reqs c" "c_newReq c' = c_newReq c" "c_serverHello c' = c_serverHello c" using same(1) by (simp_all add: same_calls_def)
  have "waiter_ok (fs @ [data]) ?m' (c_reqs c r) r" if r: "r < c_newReq c" "in_flight (c_reqs c r)" for r
  proof (cases "registered ?m (sr_cid (c_reqs c r)) r \<and> sr_cid (c_reqs c r) = cid")
    case True
    then have "req_waiter q = Some r" "\<not> req_discard q" using q by (auto simp: registered_def)
    then show ?thesis using m(5) True ans by (simp add: waiter_ok_def waiter_deliver_def)
  next
    case False
    have w: "waiter_ok fs ?m (c_reqs c r) r" using ok r by (simp add: exchange_ok_def answers_ok_def)
    have "req_waiter q = Some r \<Longrightarrow> sr_cid (c_reqs c r) = cid" using ok q by (auto simp: exchange_ok_def entries_ok_def)
    then have "m_waiters ?m' r = m_waiters ?m r" using False m(5) [of r] q by (auto simp: registered_def)
    then show ?thesis using w False by (auto simp: waiter_ok_def registered_def m(4) answered_more)
  qed
  then show ?thesis using ok same(3)
    by (auto simp: exchange_ok_def ids_ok_def entries_ok_def answers_ok_def m(1-4) c answered_more split: if_splits)
qed

lemma exchange_negotiates:
  assumes ok: "exchange_ok fs c" and calls: "calls_ok c" and n: "negotiates data limit n c c'" and fresh: "\<not> c_serverHello c"
  shows "exchange_ok fs c'"
proof -
  obtain ids where m: "c_mux c' = (c_mux c)\<lparr>m_version := 3, m_capabilities := 0, m_nextID := 0, m_activeIDs := ids\<rparr>" using n by (auto simp: negotiates_def)
  have c: "c_reqs c' = c_reqs c" "c_newReq c' = c_newReq c" "c_serverHello c'" "c_done c' = c_done c"
    using n by (auto simp: negotiates_def same_calls_def replace_semaphores_def Let_def)
  have idle: "sr_cid (c_reqs c r) = 0" "\<not> in_flight (c_reqs c r)" if "r < c_newReq c" for r
    using calls fresh that by (auto simp: calls_ok_def hello_ok_def)
  have "m_correlated (c_mux c) = Map.empty" using ok fresh by (simp add: exchange_ok_def entries_ok_def)
  then show ?thesis using ok idle by (auto simp: exchange_ok_def ids_ok_def entries_ok_def answers_ok_def m c)
qed

lemma exchange_frame:
  assumes ok: "exchange_ok fs c" "calls_ok c" and "hello_first c data" "\<not> c_done c"
    and en: "enumerates types (m_pending (c_mux c))" "enumerates corrs (m_correlated (c_mux c))"
  shows "exchange_ok (fs @ [data]) (loop_frame types corrs data c)"
proof (cases rule: loop_frame_cases [of c types corrs data])
  case (ended c1)
  then show ?thesis using exchange_exit [OF ok(1) assms(4) en, of c1] by (auto simp: stays_def intro: exchange_more)
next
  case ignored
  then show ?thesis by (intro exchange_more exchange_same [OF ok(1)]) (simp_all add: stays_def same_calls_def same_mux_call)
next
  case (negotiated limit n)
  have "\<not> c_serverHello c" using ok(2) negotiated assms(4) by (auto simp: calls_ok_def hello_ok_def negotiates_def)
  then show ?thesis by (intro exchange_more exchange_negotiates [OF ok negotiated])
next
  case (correlated cid payload fin)
  then show ?thesis by (intro exchange_correlated [OF ok(1)])
next
  case (uncorrelated t p)
  have "m_pending (c_mux c) = Map.empty" using ok(1) by (simp add: exchange_ok_def entries_ok_def)
  then have "same_mux (c_mux c) (c_mux (loop_frame types corrs data c))" using Dispatch_no_pending uncorrelated(2) by blast
  then show ?thesis using uncorrelated by (intro exchange_more exchange_same [OF ok(1)]) (simp_all add: same_calls_def)
qed

text \<open>A call moves on without touching the multiplexer.\<close>

lemma exchange_move:
  assumes ok: "exchange_ok fs c" and r: "r < c_newReq c" and c': "c_reqs c' = (c_reqs c)(r := q)" "c_newReq c' = c_newReq c" "c_mux c' = c_mux c"
      "c_done c' = c_done c" "c_serverHello c' = c_serverHello c"
    and q: "sr_kind q = sr_kind (c_reqs c r)" "sr_cid q = sr_cid (c_reqs c r)" "in_flight q = in_flight (c_reqs c r)"
      "\<And>resp. \<not> oneway (sr_kind q) \<Longrightarrow> result_of (sr_phase q) = Some (Ok resp) \<Longrightarrow> result_of (sr_phase (c_reqs c r)) = Some (Ok resp)"
  shows "exchange_ok fs c'"
proof -
  have k: "sr_cid (c_reqs c' k) = sr_cid (c_reqs c k)" "in_flight (c_reqs c' k) = in_flight (c_reqs c k)"
    "oneway (sr_kind (c_reqs c' k)) = oneway (sr_kind (c_reqs c k))" for k using q(1-3) by (simp_all add: c'(1) del: in_flight.simps)
  have res: "result_of (sr_phase (c_reqs c k)) = Some (Ok resp)"
    if "\<not> oneway (sr_kind (c_reqs c k))" "result_of (sr_phase (c_reqs c' k)) = Some (Ok resp)" for k resp
    using that q(1,4) by (cases "k = r") (auto simp: c'(1))
  have "waiter_ok fs (c_mux c) (c_reqs c' k) k = waiter_ok fs (c_mux c) (c_reqs c k) k" for k by (simp add: waiter_ok_def k(1))
  then show ?thesis using ok res unfolding exchange_ok_def ids_ok_def entries_ok_def answers_ok_def k c'(2-5) by blast
qed

lemma exchange_end:
  assumes ok: "exchange_ok fs c" and r: "r < c_newReq c" "in_flight (c_reqs c r)"
    and res: "\<And>resp. res = Ok resp \<Longrightarrow> answered fs (sr_cid (c_reqs c r)) resp"
  shows "exchange_ok fs (end_request r res c)"
proof -
  let ?c = "end_request r res c" and ?cid = "sr_cid (c_reqs c r)"
  have c: "c_newReq ?c = c_newReq c" "c_done ?c = c_done c" "c_serverHello ?c = c_serverHello c"
    "c_reqs ?c = (c_reqs c)(r := (c_reqs c r)\<lparr>sr_phase := SReleasing res\<rparr>)"
    by (simp_all add: end_request_def unregister_def upd_req_def)
  have m: "m_pending (c_mux ?c) = m_pending (c_mux c)" "m_closed (c_mux ?c) = m_closed (c_mux c)" "m_nextID (c_mux ?c) = m_nextID (c_mux c)"
    "m_waiters (c_mux ?c) = m_waiters (c_mux c)"
    "m_correlated (c_mux ?c) cid = (case m_correlated (c_mux c) cid of
       Some q \<Rightarrow> Some (if cid = ?cid \<and> req_waiter q = Some r then q\<lparr>req_waiter := None, req_discard := True\<rparr> else q) | None \<Rightarrow> None)" for cid
    by (auto simp: end_request_def unregister_def upd_req_def UnregisterCorrelatedRequest_def split: option.split)
  have "registered (c_mux ?c) cid k" if "registered (c_mux c) cid k" "k \<noteq> r" for cid k
    using that by (auto simp: registered_def m)
  then have w: "waiter_ok fs (c_mux ?c) q k" if "waiter_ok fs (c_mux c) q k" "k \<noteq> r" for q k
    using that by (auto simp: waiter_ok_def m)
  have "m_correlated (c_mux c) cid \<noteq> None" if "m_correlated (c_mux ?c) cid = Some q" for cid q
    using that by (cases "m_correlated (c_mux c) cid") (simp_all add: m(5))
  moreover have "sr_cid (c_reqs ?c k) = sr_cid (c_reqs c k)" for k by (simp add: c)
  ultimately have "ids_ok ?c" using ok unfolding exchange_ok_def ids_ok_def c(1) m(3) by (metis option.exhaust)
  moreover have "entries_ok ?c"
  proof -
    have "m_correlated (c_mux ?c) = Map.empty" if "\<not> c_serverHello c" using ok that by (auto simp: exchange_ok_def entries_ok_def m fun_eq_iff)
    moreover have "k < c_newReq c \<and> sr_cid (c_reqs ?c k) = cid \<and> in_flight (c_reqs ?c k)"
      if entry: "m_correlated (c_mux ?c) cid = Some q" "req_waiter q = Some k" for cid q k
    proof -
      obtain q0 where q0: "m_correlated (c_mux c) cid = Some q0" using entry(1) by (cases "m_correlated (c_mux c) cid") (simp_all add: m(5))
      then have q: "q = (if cid = ?cid \<and> req_waiter q0 = Some r then q0\<lparr>req_waiter := None, req_discard := True\<rparr> else q0)"
        using entry(1) by (simp add: m(5))
      then have "req_waiter q0 = Some k" "k = r \<Longrightarrow> cid \<noteq> ?cid" using entry(2) by (auto split: if_splits)
      moreover have "k < c_newReq c" "sr_cid (c_reqs c k) = cid" "in_flight (c_reqs c k)"
        using ok q0 calculation(1) by (auto simp: exchange_ok_def entries_ok_def)
      ultimately show ?thesis by (auto simp: c)
    qed
    ultimately show ?thesis using ok by (auto simp: exchange_ok_def entries_ok_def c m(1,2))
  qed
  moreover have "answers_ok fs ?c" using ok r res w by (auto simp: exchange_ok_def answers_ok_def c split: if_splits)
  ultimately show ?thesis by (simp add: exchange_ok_def)
qed

lemma exchange_wait:
  assumes ok: "exchange_ok fs c" and r: "r < c_newReq c" "sr_phase (c_reqs c r) = SWaiting" "\<not> oneway (sr_kind (c_reqs c r))"
    and w: "send_wait sc r c = Some c'"
  shows "exchange_ok fs c'"
proof -
  have fl: "in_flight (c_reqs c r)" using r by simp
  have "answered fs (sr_cid (c_reqs c r)) (w_response (m_waiters (c_mux c) r))" if "w_ready (m_waiters (c_mux c) r)" "\<not> w_closed (m_waiters (c_mux c) r)"
    using ok r(1) fl that by (auto simp: exchange_ok_def answers_ok_def waiter_ok_def)
  then show ?thesis
    using w exchange_end [OF ok r(1) fl] by (auto simp: send_wait_def Let_def split: send_case.splits if_splits)
qed

lemma NextCorrelationID_fresh:
  assumes "NextCorrelationID m = (cid, m')" "cid \<noteq> 0"
  shows "m' = m\<lparr>m_nextID := cid\<rparr>" "unat cid = unat (m_nextID m) + 1"
proof -
  have "m_nextID m \<noteq> NOT 0" "cid = m_nextID m + 1" "m' = m\<lparr>m_nextID := m_nextID m + 1\<rparr>"
    using assms by (auto simp: NextCorrelationID_def split: if_splits)
  then show "m' = m\<lparr>m_nextID := cid\<rparr>" "unat cid = unat (m_nextID m) + 1" using assms(2) unatSuc [of "m_nextID m"] by (simp_all add: add.commute)
qed

text \<open>A call gets its correlation id.\<close>

lemma exchange_id:
  assumes ok: "exchange_ok fs c" and r: "r < c_newReq c" "sr_phase (c_reqs c r) = SAdmitted"
    and n: "(if needs_id k then NextCorrelationID (c_mux c) else (0, c_mux c)) = (cid, m)"
  shows "exchange_ok fs (upd_req r (\<lambda>q. q\<lparr>sr_cid := cid\<rparr>) (c\<lparr>c_mux := m\<rparr>))" (is "exchange_ok fs ?c") "cid \<noteq> 0 \<Longrightarrow> m_correlated m cid = None"
proof -
  have z: "m = c_mux c" if "cid = 0"
    using n that by (auto simp: NextCorrelationID_def eq_neg_iff_add_eq_0 split: if_splits)
  have nz: "m = (c_mux c)\<lparr>m_nextID := cid\<rparr>" "unat cid = unat (m_nextID (c_mux c)) + 1" if "cid \<noteq> 0"
    using n NextCorrelationID_fresh [of "c_mux c" cid m] that by (auto split: if_splits)
  have m: "unat (m_nextID (c_mux c)) \<le> unat (m_nextID m)" by (cases "cid = 0") (simp_all add: z nz)
  have m': "unat cid = unat (m_nextID (c_mux c)) + 1 \<and> m_nextID m = cid" if "cid \<noteq> 0" using nz [OF that] by simp
  have mf: "m_pending m = m_pending (c_mux c)" "m_closed m = m_closed (c_mux c)" "m_correlated m = m_correlated (c_mux c)" "m_waiters m = m_waiters (c_mux c)"
    by (cases "cid = 0"; simp add: z nz(1))+
  have old: "unat (sr_cid (c_reqs c k)) \<le> unat (m_nextID (c_mux c))" if "k < c_newReq c" for k using ok that by (simp add: exchange_ok_def ids_ok_def)
  have corr: "unat i \<le> unat (m_nextID (c_mux c))" if "m_correlated (c_mux c) i = Some q" for i q using ok that by (simp add: exchange_ok_def ids_ok_def)
  then show "cid \<noteq> 0 \<Longrightarrow> m_correlated m cid = None" using m' by (cases "m_correlated m cid") (auto simp: mf dest: corr)
  define c' where "c' = ?c"
  have c: "c_reqs c' k = (if k = r then (c_reqs c r)\<lparr>sr_cid := cid\<rparr> else c_reqs c k)" "c_newReq c' = c_newReq c" "c_mux c' = m" "c_done c' = c_done c"
    "c_serverHello c' = c_serverHello c" for k by (simp_all add: c'_def upd_req_def)
  have nf: "\<not> in_flight (c_reqs c r)" "\<not> in_flight (c_reqs c' r)" using r(2) by (simp_all add: c)
  have lt: "sr_cid (c_reqs c k) \<noteq> cid" if "k < c_newReq c" "cid \<noteq> 0" for k using old [OF that(1)] m' [OF that(2)] by auto
  have "ids_ok c'" unfolding ids_ok_def c(2,3)
  proof (intro conjI allI impI)
    show "unat (sr_cid (c_reqs c' k)) \<le> unat (m_nextID m)" if "k < c_newReq c" for k
      using old [OF that] m m' by (cases "cid = 0") (auto simp: c)
    show "j = k" if "j < c_newReq c" "k < c_newReq c" "sr_cid (c_reqs c' j) = sr_cid (c_reqs c' k)" "sr_cid (c_reqs c' j) \<noteq> 0" for j k
    proof (cases "j = r \<or> k = r")
      case True
      then show ?thesis using that lt [of j] lt [of k] by (auto simp: c split: if_splits)
    next
      case False
      then show ?thesis using that ok by (simp add: c exchange_ok_def ids_ok_def)
    qed
    show "unat i \<le> unat (m_nextID m)" if "m_correlated m i = Some q" for i q using corr [of i q] that m by (simp add: mf)
  qed
  moreover have "entries_ok c'"
  proof -
    have "k \<noteq> r" if "m_correlated (c_mux c) i = Some q" "req_waiter q = Some k" for i q k
      using ok that nf(1) by (auto simp: exchange_ok_def entries_ok_def)
    then show ?thesis using ok unfolding exchange_ok_def entries_ok_def c(2-5) mf by (auto simp: c(1) simp del: in_flight.simps)
  qed
  moreover have "answers_ok fs c'"
  proof -
    have "waiter_ok fs m q k = waiter_ok fs (c_mux c) q k" for q k by (simp add: waiter_ok_def registered_def mf)
    then show ?thesis using ok nf r(2) unfolding exchange_ok_def answers_ok_def c(2,3) by (auto simp: c(1))
  qed
  ultimately show "exchange_ok fs ?c" by (simp add: exchange_ok_def c'_def)
qed

lemma exchange_waiter:
  assumes ok: "exchange_ok fs c" and r: "\<not> in_flight (c_reqs c r)"
  shows "exchange_ok fs (c\<lparr>c_mux := (c_mux c)\<lparr>m_waiters := (m_waiters (c_mux c))(r := w)\<rparr>\<rparr>)"
proof -
  have "waiter_ok fs ((c_mux c)\<lparr>m_waiters := (m_waiters (c_mux c))(r := w)\<rparr>) q k = waiter_ok fs (c_mux c) q k" if "k \<noteq> r" for q k
    using that by (simp add: waiter_ok_def registered_def)
  then show ?thesis using ok r unfolding exchange_ok_def ids_ok_def entries_ok_def answers_ok_def
    by (simp del: in_flight.simps) metis
qed

lemma exchange_phase:
  assumes "exchange_ok fs c" "r < c_newReq c" "\<not> in_flight (c_reqs c r)" "\<And>resp. result_of p \<noteq> Some (Ok resp)" "p \<noteq> SWaiting" "\<And>frame. p \<noteq> SWriting frame"
  shows "exchange_ok fs (to_phase r p c)"
  using assms by (intro exchange_move [OF assms(1,2), where q = "(c_reqs c r)\<lparr>sr_phase := p\<rparr>"]) (simp_all add: upd_req_def)

lemma exchange_register:
  assumes ok: "exchange_ok fs c" and r: "r < c_newReq c" "sr_phase (c_reqs c r) = SAdmitted" "sr_cid (c_reqs c r) = cid" and hello: "c_serverHello c"
    and fresh: "\<not> oneway (sr_kind (c_reqs c r)) \<Longrightarrow> cid \<noteq> 0 \<and> m_correlated (c_mux c) cid = None"
  shows "exchange_ok fs (register_waiter r cid frame c)"
proof (cases "oneway (sr_kind (c_reqs c r))")
  case True
  then show ?thesis using r
    by (simp add: register_waiter_def, intro exchange_move [OF ok r(1), where q = "(c_reqs c r)\<lparr>sr_phase := SWriting frame\<rparr>"])
      (simp_all add: upd_req_def)
next
  case False
  have nf: "\<not> in_flight (c_reqs c r)" using r(2) by simp
  let ?m = "(c_mux c)\<lparr>m_waiters := (m_waiters (c_mux c))(r := waiter_reset (m_waiters (c_mux c) r))\<rparr>"
  have m: "exchange_ok fs (c\<lparr>c_mux := ?m\<rparr>)" by (rule exchange_waiter [OF ok nf])
  show ?thesis
  proof (cases "m_closed (c_mux c)")
    case True
    have "exchange_ok fs (c\<lparr>c_mux := fail_waiter r ?m\<rparr>)"
      using exchange_waiter [OF m, of r "waiter_fail (m_waiters ?m r)"] nf by (simp add: fail_waiter_def)
    then show ?thesis using True False r nf
      by (simp add: register_waiter_def RegisterCorrelatedRequest_def, intro exchange_phase) simp_all
  next
    case open': False
    let ?q = "\<lparr>req_waiter = Some r, req_cancel = None, req_discard = False\<rparr>"
    define m' where "m' = ?m\<lparr>m_correlated := (m_correlated (c_mux c))(cid \<mapsto> ?q), m_inFlight := m_inFlight (c_mux c) + 1, m_requestsTotal := m_requestsTotal (c_mux c) + 1\<rparr>"
    define c' where "c' = to_phase r (SWriting frame) (c\<lparr>c_mux := m'\<rparr>)"
    have e: "register_waiter r cid frame c = c'"
      using False open' fresh by (simp add: register_waiter_def RegisterCorrelatedRequest_def m'_def c'_def)
    have c: "c_reqs c' = (c_reqs c)(r := (c_reqs c r)\<lparr>sr_phase := SWriting frame\<rparr>)" "c_newReq c' = c_newReq c" "c_done c' = c_done c"
      "c_serverHello c' = c_serverHello c" "c_mux c' = m'" by (simp_all add: c'_def upd_req_def)
    have mf: "m_pending m' = m_pending (c_mux c)" "m_closed m' = m_closed (c_mux c)" "m_nextID m' = m_nextID (c_mux c)"
      "m_correlated m' = (m_correlated (c_mux c))(cid \<mapsto> ?q)" "m_waiters m' = (m_waiters (c_mux c))(r := waiter_reset (m_waiters (c_mux c) r))"
      by (simp_all add: m'_def)
    have ids: "ids_ok c" using ok by (simp add: exchange_ok_def)
    have cs: "sr_cid (c_reqs c' k) = sr_cid (c_reqs c k)" for k by (simp add: c(1))
    have "unat cid \<le> unat (m_nextID (c_mux c))" using ids r(1,3) by (auto simp: ids_ok_def)
    then have "unat i \<le> unat (m_nextID (c_mux c))" if "m_correlated m' i = Some q" for i q
      using ids that by (cases "i = cid") (simp_all add: ids_ok_def mf)
    then have "ids_ok c'" using ids unfolding ids_ok_def c(2,5) mf(3) cs by blast
    moreover have "entries_ok c'"
    proof -
      have "k < c_newReq c \<and> sr_cid (c_reqs c' k) = i \<and> in_flight (c_reqs c' k)" if "m_correlated m' i = Some q" "req_waiter q = Some k" for i q k
      proof (cases "i = cid")
        case True
        then show ?thesis using that r False by (auto simp: mf c)
      next
        case i: False
        then have "k < c_newReq c" "sr_cid (c_reqs c k) = i" "in_flight (c_reqs c k)" using ok that by (auto simp: mf exchange_ok_def entries_ok_def)
        then show ?thesis using nf by (cases "k = r") (simp_all add: c(1) del: in_flight.simps)
      qed
      then show ?thesis using ok hello by (auto simp: exchange_ok_def entries_ok_def c mf(1,2))
    qed
    moreover have "answers_ok fs c'"
    proof -
      have "waiter_ok fs m' q k" if "waiter_ok fs (c_mux c) q k" "k \<noteq> r" for q k
        using that fresh False by (auto simp: waiter_ok_def registered_def mf)
      moreover have "waiter_ok fs m' (c_reqs c' r) r" by (simp add: waiter_ok_def registered_def mf c r(3) waiter_reset_def)
      moreover have "result_of (sr_phase (c_reqs c' r)) = None" by (simp add: c(1))
      ultimately have "(in_flight (c_reqs c' k) \<longrightarrow> waiter_ok fs m' (c_reqs c' k) k) \<and> (\<forall>resp. \<not> oneway (sr_kind (c_reqs c' k)) \<longrightarrow>
          result_of (sr_phase (c_reqs c' k)) = Some (Ok resp) \<longrightarrow> answered fs (sr_cid (c_reqs c' k)) resp)" if "k < c_newReq c" for k
        using ok that by (cases "k = r") (simp_all add: exchange_ok_def answers_ok_def c(1) del: in_flight.simps)
      then show ?thesis by (simp add: answers_ok_def c(2,5) del: in_flight.simps)
    qed
    ultimately show ?thesis by (simp add: e exchange_ok_def)
  qed
qed

lemma exchange_encode:
  assumes ok: "exchange_ok fs c" and r: "r < c_newReq c" "sr_phase (c_reqs c r) = SAdmitted" and hello: "c_serverHello c"
  shows "exchange_ok fs (send_encode r c)"
proof -
  let ?k = "sr_kind (c_reqs c r)"
  obtain cid m where n: "(if needs_id ?k then NextCorrelationID (c_mux c) else (0, c_mux c)) = (cid, m)" by fastforce
  define c1 where "c1 = upd_req r (\<lambda>q. q\<lparr>sr_cid := cid\<rparr>) (c\<lparr>c_mux := m\<rparr>)"
  have c1: "exchange_ok fs c1" "cid \<noteq> 0 \<Longrightarrow> m_correlated (c_mux c1) cid = None"
    using exchange_id [OF ok r n] by (simp_all add: c1_def upd_req_def)
  have f: "r < c_newReq c1" "sr_phase (c_reqs c1 r) = SAdmitted" "sr_cid (c_reqs c1 r) = cid" "c_serverHello c1" "sr_kind (c_reqs c1 r) = ?k"
    using r hello by (simp_all add: c1_def upd_req_def)
  have err: "exchange_ok fs (to_phase r (SReleasing (Err e)) c1)" "exchange_ok fs (to_phase r (SReleasing Panic) c1)" for e
    using f by (intro exchange_phase [OF c1(1)]; simp)+
  have id: "\<not> oneway ?k \<Longrightarrow> needs_id ?k" by (cases ?k) (simp_all add: needs_id_def)
  have reg: "exchange_ok fs (register_waiter r cid frame c1)" if "\<not> (needs_id ?k \<and> cid = 0)" for frame
    using that id c1(2) f by (intro exchange_register [OF c1(1)]) auto
  have e: "send_encode r c = (if needs_id ?k \<and> cid = 0 then to_phase r (SReleasing (Err ids_exhausted)) c1
         else case encode_call ?k cid of
                Err e \<Rightarrow> to_phase r (SReleasing (Err e)) c1
              | Panic \<Rightarrow> to_phase r (SReleasing Panic) c1
              | Ok frame \<Rightarrow>
                  if word_of_nat (length frame) > c_maxMessageBytes c then to_phase r (SReleasing (Err (too_long c))) c1
                  else register_waiter r cid frame c1)"
    unfolding send_encode_def Let_def n c1_def by (simp split: res.split)
  show ?thesis using err reg by (simp add: e split: res.split)
qed

lemma exchange_end_oneway:
  assumes ok: "exchange_ok fs c" and r: "r < c_newReq c" "oneway (sr_kind (c_reqs c r))"
  shows "exchange_ok fs (end_request r res c)"
proof -
  have "m_correlated (c_mux c) (sr_cid (c_reqs c r)) = Some q \<Longrightarrow> req_waiter q \<noteq> Some r" for q
    using ok r(2) by (auto simp: exchange_ok_def entries_ok_def)
  then have "unregister r c = c" by (simp add: unregister_def UnregisterCorrelatedRequest_def split: option.split)
  then show ?thesis using r(2)
    by (simp add: end_request_def, intro exchange_move [OF ok r(1), where q = "(c_reqs c r)\<lparr>sr_phase := SReleasing res\<rparr>"]) (simp_all add: upd_req_def)
qed

lemma exchange_admit:
  assumes "exchange_ok fs c" "r < c_newReq c" "\<not> in_flight (c_reqs c r)"
  shows "exchange_ok fs (admit r sem x c)"
proof -
  have "exchange_ok fs (upd_req r (\<lambda>q. q\<lparr>sr_phase := SAdmitted, sr_sem := sem\<rparr>) (take_slot sem c))"
    using assms by (intro exchange_move [OF assms(1,2), where q = "(c_reqs c r)\<lparr>sr_phase := SAdmitted, sr_sem := sem\<rparr>"])
      (simp_all add: upd_req_def take_slot_def)
  then show ?thesis using assms exchange_phase [OF assms] by (simp add: admit_def split: res.split)
qed

lemma exchange_queue:
  assumes "exchange_ok fs c" shows "exchange_ok fs (add_queued k n c)"
  by (rule exchange_same [OF assms]) (simp_all add: add_queued_def same_mux_call)

lemma exchange_begin:
  assumes ok: "exchange_ok fs c" and r: "r < c_newReq c" "sr_phase (c_reqs c r) = SNew"
  shows "exchange_ok fs (send_begin x r c)"
proof -
  have nf: "\<not> in_flight (c_reqs c r)" using r(2) by simp
  have q: "exchange_ok fs (upd_req r (\<lambda>q. q\<lparr>sr_phase := SQueued, sr_sem := sem\<rparr>) (add_queued k 1 c))" for sem k
    using r by (intro exchange_move [OF exchange_queue [OF ok], where r = r and q = "(c_reqs c r)\<lparr>sr_phase := SQueued, sr_sem := sem\<rparr>"])
      (simp_all add: upd_req_def add_queued_def)
  show ?thesis using exchange_admit [OF ok r(1) nf] exchange_phase [OF ok r(1) nf] q
    by (simp add: send_begin_def Let_def split: option.split)
qed

lemma exchange_queued:
  assumes ok: "exchange_ok fs c" and r: "r < c_newReq c" "sr_phase (c_reqs c r) = SQueued"
  shows "exchange_ok fs (send_queued x r c)"
  unfolding send_queued_def using r by (intro exchange_admit exchange_queue [OF ok]) (simp_all add: add_queued_def)

lemma exchange_write:
  assumes ok: "exchange_ok fs c" and r: "r < c_newReq c" "sr_phase (c_reqs c r) = SWriting frame"
  shows "exchange_ok fs (send_write writeErr frame r c)"
proof (cases "oneway (sr_kind (c_reqs c r))")
  case True
  have "exchange_ok fs (to_phase r (SReleasing res) (c\<lparr>c_wire := ws\<rparr>))" "exchange_ok fs (to_phase r (SReleasing res) c)" for res ws
    using True r by (intro exchange_move [OF ok r(1), where q = "(c_reqs c r)\<lparr>sr_phase := SReleasing res\<rparr>"]; simp add: upd_req_def)+
  then show ?thesis using True by (simp add: send_write_def split: option.split)
next
  case False
  have fl: "in_flight (c_reqs c r)" using False r by simp
  have "exchange_ok fs (to_phase r SWaiting (c\<lparr>c_wire := ws\<rparr>))" for ws
    using False r by (intro exchange_move [OF ok r(1), where q = "(c_reqs c r)\<lparr>sr_phase := SWaiting\<rparr>"]) (simp_all add: upd_req_def)
  moreover have "exchange_ok fs (end_request r (Err e) c)" for e by (rule exchange_end [OF ok r(1) fl]) simp
  ultimately show ?thesis using False by (simp add: send_write_def split: option.split)
qed

lemma exchange_call:
  assumes ok: "exchange_ok fs c"
  shows "exchange_ok fs (send_call k c)"
proof -
  let ?c = "send_call k c"
  have c: "c_newReq ?c = Suc (c_newReq c)" "c_mux ?c = c_mux c" "c_done ?c = c_done c" "c_serverHello ?c = c_serverHello c"
    "\<And>r. r < c_newReq c \<Longrightarrow> c_reqs ?c r = c_reqs c r" "sr_cid (c_reqs ?c (c_newReq c)) = 0" "sr_phase (c_reqs ?c (c_newReq c)) = SNew"
    by (simp_all add: send_call_def)
  have "ids_ok ?c" using ok by (auto simp: exchange_ok_def ids_ok_def c less_Suc_eq)
  moreover have "entries_ok ?c"
  proof -
    have "r < c_newReq c \<and> sr_cid (c_reqs ?c r) = cid \<and> in_flight (c_reqs ?c r)" if "m_correlated (c_mux c) cid = Some q" "req_waiter q = Some r" for cid q r
      using ok that by (auto simp: exchange_ok_def entries_ok_def c(5))
    then show ?thesis using ok unfolding exchange_ok_def entries_ok_def c(1-4) by (metis less_SucI)
  qed
  moreover have "answers_ok fs ?c" using ok by (auto simp: exchange_ok_def answers_ok_def c less_Suc_eq)
  ultimately show ?thesis by (simp add: exchange_ok_def)
qed

lemma exchange_step:
  assumes "conn_step hello_first s s'" "exchange_ok (snd s) (fst s)" "calls_ok (fst s)"
  shows "exchange_ok (snd s') (fst s')"
  using assms
proof (induction rule: conn_step.induct)
  case (started c fs)
  then show ?case by (auto intro!: exchange_same [of fs c] simp: start_begin_def same_mux_call)
next
  case (connected c fs writeErr)
  then show ?case
    by (auto intro!: exchange_same [of fs c] simp: start_connect_def close_begin_def beginAsyncHandlerShutdown_def same_mux_call Let_def split: res.split)
next
  case (waited c sc res c' fs)
  then show ?case
    by (auto intro!: exchange_same [of fs c] simp: start_wait_def confirmAuthentication_def close_begin_def beginAsyncHandlerShutdown_def same_mux_call
        split: start_case.splits if_splits)
next
  case (received c data types corrs fs)
  then show ?case using exchange_frame by simp
next
  case (failed c types corrs fs err)
  have "same_calls c (handleReadError err c)" "c_mux (handleReadError err c) = c_mux c"
    by (simp_all add: handleReadError_def setConnError_def same_calls_def)
  then show ?case using failed exchange_exit [of fs c types corrs "handleReadError err c"] by (simp add: loop_read_error_def)
next
  case (cancelled c types corrs fs)
  then show ?case using exchange_exit [of fs c types corrs c] by simp
next
  case (closing c fs)
  then show ?case by (auto intro!: exchange_same [of fs c] simp: close_begin_def beginAsyncHandlerShutdown_def same_mux_call)
next
  case (closed c fs)
  then show ?case by (auto intro!: exchange_same [of fs c] simp: close_end_def same_mux_call)
next
  case (called c fs k)
  then show ?case using exchange_call by simp
next
  case (begun r c x ctxErr fs)
  then show ?case using exchange_begin by simp
next
  case (admitted r c x ctxErr fs)
  then show ?case using exchange_queued by simp
next
  case (encoded r c fs)
  have "c_serverHello c" using encoded by (auto simp: calls_ok_def hello_ok_def)
  then show ?case using encoded exchange_encode by simp
next
  case (written r c frame fs writeErr)
  then show ?case using exchange_write by simp
next
  case (ended r c sc c' fs)
  then show ?case using exchange_wait exchange_end_oneway
    by (cases "oneway (sr_kind (c_reqs c r))") (auto simp: send_wait_def Let_def split: send_case.splits if_splits)
next
  case (released r c res c' fs)
  then have c': "c_reqs c' = (c_reqs c)(r := (c_reqs c r)\<lparr>sr_phase := SDone res\<rparr>)" "c_newReq c' = c_newReq c" "c_mux c' = c_mux c" "c_done c' = c_done c"
    "c_serverHello c' = c_serverHello c" by (auto simp: send_release_def upd_req_def Let_def split: if_splits)
  show ?case using released by (simp, intro exchange_move [OF _ _ c']) simp_all
qed

lemma conn_reach_exchange:
  assumes "conn_reach hello_first s"
  shows "exchange_ok (snd s) (fst s)"
  using assms
proof (induction rule: conn_reach.induct)
  case (init cfg heap reqs)
  then show ?case
    by (simp add: conn_New_def NewMultiplexer_def exchange_ok_def ids_ok_def entries_ok_def answers_ok_def Let_def)
next
  case (step s s')
  then show ?case using exchange_step conn_reach_ok by blast
qed

text \<open>After the dispatch loop has ended nothing is registered.\<close>

lemma ended_empty_step:
  assumes "conn_step hello_first s s'" "exchange_ok (snd s) (fst s)" "c_done (fst s) \<longrightarrow> m_correlated (c_mux (fst s)) = Map.empty"
  shows "c_done (fst s') \<longrightarrow> m_correlated (c_mux (fst s')) = Map.empty"
proof -
  have exit: "m_correlated (c_mux (loop_exit types corrs c1)) = Map.empty"
    if "exchange_ok fs c" "\<not> c_done c" "c_mux c1 = c_mux c" for fs c c1 types corrs
    using that by (simp add: loop_exit_same(2) mux_Close_def Let_def exchange_ok_def entries_ok_def)
  have unreg: "m_correlated (c_mux (unregister r c)) = Map.empty" if "m_correlated (c_mux c) = Map.empty" for r c
    using that by (simp add: unregister_def UnregisterCorrelatedRequest_def)
  show ?thesis
    using assms
  proof (cases rule: conn_step.cases)
    case (received c data types corrs fs)
    then show ?thesis
      using assms(2) by (cases rule: loop_frame_cases [of c types corrs data]) (auto simp: stays_def negotiates_def exit)
  next
    case (failed c types corrs fs err)
    have "c_mux (handleReadError err c) = c_mux c" by (simp add: handleReadError_def setConnError_def split: option.split)
    then show ?thesis using failed assms(2) exit by (simp add: loop_read_error_def)
  next
    case (cancelled c types corrs fs)
    then show ?thesis using assms(2) exit by simp
  next
    case (encoded r c fs)
    have "m_closed (c_mux c)" if "c_done c" using encoded assms(2) that by (simp add: exchange_ok_def entries_ok_def)
    then show ?thesis using encoded assms(3)
      by (auto simp: send_encode_def register_waiter_def NextCorrelationID_def RegisterCorrelatedRequest_def fail_waiter_def upd_req_def Let_def
          split: res.split)
  next
    case (written r c frame fs writeErr)
    then show ?thesis using assms(3) unreg by (auto simp: send_write_def end_request_def upd_req_def unregister_def split: option.split)
  next
    case (ended r c sc c' fs)
    then show ?thesis using assms(3) unreg
      by (auto simp: send_wait_def end_request_def upd_req_def Let_def unregister_def split: send_case.splits if_splits)
  qed (use assms(3) in \<open>auto simp: start_begin_def start_connect_def start_wait_def close_begin_def beginAsyncHandlerShutdown_def close_end_def
        confirmAuthentication_def send_call_def send_begin_def send_queued_def admit_def take_slot_def add_queued_def send_release_def upd_req_def Let_def
        split: res.splits option.splits start_case.splits if_splits\<close>)
qed

lemma conn_reach_ended:
  assumes "conn_reach hello_first s"
  shows "c_done (fst s) \<longrightarrow> m_correlated (c_mux (fst s)) = Map.empty"
  using assms
proof (induction rule: conn_reach.induct)
  case (init cfg heap reqs)
  then show ?case by (simp add: conn_New_def Let_def)
next
  case (step s s')
  then show ?case using ended_empty_step conn_reach_exchange by blast
qed

text \<open>C38: Requests and answers. With a broker that sends HELLO before anything else, a request that returns a response returns the
  payload of a received frame with its own correlation id, and no other call has that id; once the dispatch loop has
  ended, every waiting request has been woken.
\<close>

theorem request_gets_its_answer:
  assumes "conn_reach hello_first (c, fs)" "r < c_newReq c" "\<not> oneway (sr_kind (c_reqs c r))"
  shows "(\<forall>resp. sr_phase (c_reqs c r) = SDone (Ok resp) \<longrightarrow> (\<exists>data\<in>set fs. \<exists>f ids.
      DecodeMessage data = Ok f \<and> DecodeExtensions f = Ok (resp, ids) \<and> CorrelationID f = sr_cid (c_reqs c r))) \<and>
    (\<forall>k<c_newReq c. sr_cid (c_reqs c k) = sr_cid (c_reqs c r) \<longrightarrow> sr_cid (c_reqs c r) \<noteq> 0 \<longrightarrow> k = r) \<and>
    (c_done c \<longrightarrow> sr_phase (c_reqs c r) = SWaiting \<longrightarrow> w_ready (m_waiters (c_mux c) r))"
proof -
  have ok: "exchange_ok fs c" using conn_reach_exchange [OF assms(1)] by simp
  have "answered fs (sr_cid (c_reqs c r)) resp" if "sr_phase (c_reqs c r) = SDone (Ok resp)" for resp
    using ok assms(2,3) that by (simp add: exchange_ok_def answers_ok_def)
  moreover have "k = r" if "k < c_newReq c" "sr_cid (c_reqs c k) = sr_cid (c_reqs c r)" "sr_cid (c_reqs c r) \<noteq> 0" for k
    using ok assms(2) that by (simp add: exchange_ok_def ids_ok_def)
  moreover have "w_ready (m_waiters (c_mux c) r)" if "c_done c" "sr_phase (c_reqs c r) = SWaiting"
    using conn_reach_ended [OF assms(1)] ok assms(2,3) that
    by (auto simp: exchange_ok_def answers_ok_def waiter_ok_def registered_def)
  ultimately show ?thesis by (simp add: answered_def)
qed

section \<open>A frame before HELLO\<close>

text \<open>A notification for which there is no handler, and a HELLO that allows one request in flight.\<close>

definition wire_bytes :: "frame \<Rightarrow> bytes" where
  "wire_bytes f = PutUint16 (MessageType f) @ [Flags f] @ (PutUint64 (CorrelationID f) @ PutUint32 (u32_len (Payload f))) @ Payload f"

definition notice_frame :: frame where
  "notice_frame = \<lparr>MessageType = 504, Flags = 0, CorrelationID = 0, Payload = []\<rparr>"

definition hello_core :: bytes where
  "hello_core = PutUint16 3 @ PutUint32 0 @ PutUint32 1048576 @ PutUint32 1 @ PutUint64 7"

definition hello_frame :: frame where
  "hello_frame = \<lparr>MessageType = 2, Flags = 4, CorrelationID = 0,
     Payload = PutUint32 (u32_len hello_core) @ hello_core @ concat (map enc_ext [\<lparr>ext_id = 1, ext_value = cap_list []\<rparr>])\<rparr>"

definition reply_frame :: frame where
  "reply_frame = \<lparr>MessageType = 100, Flags = 2, CorrelationID = 1, Payload = [9]\<rparr>"

lemma example_frames:
  "inbound_frame (wire_bytes notice_frame) = Ok (notice_frame, [])"
  "inbound_frame (wire_bytes hello_frame) = Ok (hello_frame\<lparr>Payload := hello_core\<rparr>, [])"
  "inbound_frame (wire_bytes reply_frame) = Ok (reply_frame, [])"
  "read_hello hello_core = Ok (3, 0, 1048576, 1, 7)"
  "DecodeMessage (wire_bytes hello_frame) = Ok hello_frame"
proof -
  have d: "DecodeMessage (wire_bytes f) = Ok f" if "length (Payload f) \<le> MaxPayloadSize" "\<not> bad_flags (Flags f)" for f
    using that DecodeMessage_wire by (simp add: wire_bytes_def)
  have 1: "\<not> bad_flags 0" "\<not> bad_flags 4" "\<not> bad_flags 2" by (simp_all add: bad_flags_def validFlags_def FlagAckRequested_def FlagResponseFinal_def FlagExtensionsPresent_def)
  have len: "length hello_core = 22" by (simp add: hello_core_def)
  show "inbound_frame (wire_bytes notice_frame) = Ok (notice_frame, [])"
    using d [of notice_frame] 1
    by (simp add: inbound_frame_def notice_frame_def MaxPayloadSize_def MaxMessageSize_def HeaderLen_def DecodeExtensions_def MessageTypeHello_def)
  show "inbound_frame (wire_bytes reply_frame) = Ok (reply_frame, [])"
    using d [of reply_frame] 1
    by (simp add: inbound_frame_def reply_frame_def MaxPayloadSize_def MaxMessageSize_def HeaderLen_def DecodeExtensions_def MessageTypeHello_def
        FlagExtensionsPresent_def)
  have small: "length (Payload hello_frame) \<le> MaxPayloadSize"
    by (simp add: hello_frame_def len cap_list_def MaxPayloadSize_def MaxMessageSize_def HeaderLen_def)
  have flag: "Flags hello_frame AND FlagExtensionsPresent \<noteq> 0" by (simp add: hello_frame_def FlagExtensionsPresent_def)
  have "DecodeExtensions hello_frame = Ok (hello_core, [])"
    unfolding ext_envelope_iff [OF flag small]
    by (intro exI [of _ "[\<lparr>ext_id = 1, ext_value = cap_list []\<rparr>]"] exI [of _ True])
      (auto simp: hello_frame_def ext_ok_def cap_list_def MessageTypeHello_def hello_fields_Cons hello_fields_Nil cap_value_def
        intro!: exI [of _ "[]"])
  then show "inbound_frame (wire_bytes hello_frame) = Ok (hello_frame\<lparr>Payload := hello_core\<rparr>, [])"
    using d [OF small] 1 by (simp add: inbound_frame_def hello_frame_def)
  show "read_hello hello_core = Ok (3, 0, 1048576, 1, 7)"
    by (simp add: read_hello_def hello_core_def slice_def)
  show "DecodeMessage (wire_bytes hello_frame) = Ok hello_frame" using d [OF small] 1 by (simp add: hello_frame_def)
qed

lemma notice_effect:
  assumes "c_firstResponse c" "\<not> c_authConfirmed c" "c_maxMessageBytes c = 1048576" "m_notify (c_mux c) 504 = None"
  shows "loop_frame types corrs (wire_bytes notice_frame) c =
    c\<lparr>c_state := StateAuthenticated, c_authConfirmed := True, c_firstResponse := False\<rparr>"
proof -
  have len: "length (wire_bytes notice_frame) = 15" by (simp add: wire_bytes_def notice_frame_def)
  have sel: "MessageType notice_frame = 504" "Flags notice_frame = 0" "CorrelationID notice_frame = 0" "Payload notice_frame = []"
    by (simp_all add: notice_frame_def)
  have "dispatchTransportFrame (wire_bytes notice_frame) c = (Ok True, c)"
    using assms(3,4) len by (simp add: dispatchTransportFrame_def example_frames sel MessageTypeHello_def Dispatch_def with_notify_def)
  then show ?thesis using assms(1,2) by (simp add: loop_frame_def confirmAuthentication_def)
qed

text \<open>The connection after that HELLO.\<close>

definition hello_done :: "connection \<Rightarrow> connection" where
  "hello_done c = c\<lparr>c_maxMessageBytes := 1048576, c_maxInFlight := 1, c_sessionID := 7,
      c_sems := (c_sems c)(c_newSem c := (1, 0), c_newSem c + 1 := (1, 0)), c_newSem := c_newSem c + 2, c_requestSem := c_newSem c,
      c_oneWaySem := c_newSem c + 1, c_mux := (c_mux c)\<lparr>m_version := 3, m_capabilities := 0, m_nextID := 0, m_activeIDs := 0\<rparr>,
      c_frameSize := Some 1048576, c_serverHello := True\<rparr>"

lemma hello_effect:
  assumes "m_version (c_mux c) = 0" "c_maxMessageBytes c = 1048576" "cfg_MaxMessageBytes (c_cfg c) = 0" "1 < fst (c_sems c (c_requestSem c))"
  shows "dispatchTransportFrame (wire_bytes hello_frame) c = (Ok True, hello_done c)"
proof -
  have len: "length (wire_bytes hello_frame) = 49" by (simp add: wire_bytes_def hello_frame_def hello_core_def cap_list_def)
  have lim: "local_limit (c_cfg c) 1048576 = 1048576" using assms(3) by (simp add: local_limit_def MaxMessageSize_def)
  have sel: "MessageType (hello_frame\<lparr>Payload := hello_core\<rparr>) = 2" "Flags (hello_frame\<lparr>Payload := hello_core\<rparr>) = 4"
    "CorrelationID (hello_frame\<lparr>Payload := hello_core\<rparr>) = 0" "length hello_core = 22"
    by (simp_all add: hello_frame_def hello_core_def)
  show ?thesis
    using assms(1,2,4) len lim
    by (simp add: dispatchTransportFrame_def example_frames handle_hello_def sel MessageTypeHello_def FlagExtensionsPresent_def HeaderLen_def
        replace_semaphores_def Let_def SetCapabilities_def capability_mask_def hello_done_def)
qed

text \<open>The first request of a connection, from its admission to its wait.\<close>

definition example_call :: "connection \<Rightarrow> bool" where
  "example_call c \<longleftrightarrow> c_newReq c = 1 \<and> sr_kind (c_reqs c 0) = Request 100 0 [] \<and> \<not> c_closed c \<and> \<not> c_done c \<and> c_started c \<and> \<not> c_firstResponse c \<and>
     c_maxMessageBytes c = 1048576 \<and> m_pending (c_mux c) = Map.empty"

lemma example_sent:
  assumes "conn_reach allowed (c, fs)" "example_call c" "sr_phase (c_reqs c 0) = SAdmitted" "\<not> m_closed (c_mux c)" "m_nextID (c_mux c) = 0"
    "m_correlated (c_mux c) = Map.empty"
  obtains c' where "conn_reach allowed (c', fs)" "example_call c'" "sr_phase (c_reqs c' 0) = SWaiting" "sr_cid (c_reqs c' 0) = 1"
    "m_correlated (c_mux c') = [1 \<mapsto> \<lparr>req_waiter = Some 0, req_cancel = None, req_discard = False\<rparr>]"
    "c_sems c' (c_requestSem c') = c_sems c (c_requestSem c)" "c_serverHello c' = c_serverHello c"
    "\<not> w_closed (m_waiters (c_mux c') 0)"
proof -
  let ?c = "send_encode 0 c"
  obtain frame where fr: "EncodeFrameOwnedWithHeader 100 0 1 [] = Some frame" "length frame = 15"
    by (auto simp: EncodeFrameOwnedWithHeader_def bad_flags_def MaxPayloadSize_def MaxMessageSize_def HeaderLen_def)
  have e: "sr_phase (c_reqs ?c 0) = SWriting frame" "example_call ?c" "sr_cid (c_reqs ?c 0) = 1"
    "m_correlated (c_mux ?c) = [1 \<mapsto> \<lparr>req_waiter = Some 0, req_cancel = None, req_discard = False\<rparr>]"
    "c_sems ?c (c_requestSem ?c) = c_sems c (c_requestSem c)" "c_serverHello ?c = c_serverHello c"
    "\<not> w_closed (m_waiters (c_mux ?c) 0)"
    using assms(2-) fr
    by (simp_all add: send_encode_def needs_id_def encode_call_def NextCorrelationID_def register_waiter_def RegisterCorrelatedRequest_def
        upd_req_def example_call_def waiter_reset_def)
  define c' where "c' = send_write None frame 0 ?c"
  have w: "c' = to_phase 0 SWaiting (?c\<lparr>c_wire := c_wire ?c @ [frame]\<rparr>)" using e(2) by (simp add: c'_def send_write_def example_call_def)
  have "conn_reach allowed (?c, fs)"
    using assms(1) by (rule conn_reach.step) (rule conn_step.encoded, use assms(2,3) in \<open>simp_all add: example_call_def\<close>)
  then have "conn_reach allowed (c', fs)"
    unfolding c'_def by (rule conn_reach.step) (rule conn_step.written, use e(1,2) in \<open>simp_all add: example_call_def\<close>)
  then show thesis using e by (intro that [of c']) (simp_all add: w upd_req_def example_call_def)
qed

lemma example_received:
  assumes "conn_reach allowed (c, fs)" "c_started c" "\<not> c_done c" "allowed c data" "m_pending (c_mux c) = Map.empty" "m_correlated (c_mux c) = Map.empty"
  shows "conn_reach allowed (loop_frame [] [] data c, fs @ [data])"
  using assms(1) by (rule conn_reach.step) (rule conn_step.received, use assms in \<open>simp_all add: enumerates_def\<close>)

text \<open>A connection that has been started and has sent CONNECT.\<close>

definition example_conn :: "(waiter \<Rightarrow> requestWaiter) \<Rightarrow> (nat \<Rightarrow> send_req) \<Rightarrow> connection" where
  "example_conn heap reqs = snd (start_connect None (snd (start_begin (conn_New DefaultConfig heap reqs))))"

lemma connect_default: "\<exists>frame. connect_frame (with_defaults DefaultConfig) = Ok frame"
  by (simp add: connect_frame_def connect_string_def EncodeExtensions_def EncodeFrameOwnedWithHeader_def with_defaults_def DefaultConfig_def
      MaxPayloadSize_def MaxMessageSize_def HeaderLen_def ClientCapabilityList_def enc_ext_def bad_flags_def validFlags_def
      FlagExtensionsPresent_def FlagAckRequested_def FlagResponseFinal_def strings_TrimSpace_def trim_left.simps [of "[]"] trim_right.simps [of "[]"] Let_def)

lemma example_started:
  fixes heap reqs
  defines "c \<equiv> example_conn heap reqs"
  shows "conn_reach allowed (c, [])" "fst (c_sems c s) = 256" "snd (c_sems c s) = 0" "c_newSem c = 2" "c_requestSem c = 0" "c_firstResponse c"
    "\<not> c_authConfirmed c" "c_maxMessageBytes c = 1048576" "c_mux c = NewMultiplexer heap" "c_newReq c = 0" "\<not> c_closed c" "\<not> c_done c" "c_started c"
    "cfg_MaxMessageBytes (c_cfg c) = 0" "\<not> c_serverHello c" "\<not> c_cancelled c" "\<not> c_connecting c"
proof -
  let ?n = "conn_New DefaultConfig heap reqs"
  obtain frame where f: "connect_frame (with_defaults DefaultConfig) = Ok frame" using connect_default by blast
  have b: "snd (start_begin ?n) = ?n\<lparr>c_started := True, c_connecting := True, c_state := StateAuthenticating\<rparr>"
    by (simp add: start_begin_def conn_New_def Let_def)
  have "conn_reach allowed (snd (start_begin ?n), [])" using conn_reach.init by (rule conn_reach.step) (rule conn_step.started)
  then show "conn_reach allowed (c, [])"
    unfolding c_def example_conn_def by (rule conn_reach.step) (rule conn_step.connected, simp_all add: b)
  have c: "c = ?n\<lparr>c_started := True, c_connecting := False, c_state := StateAuthenticating, c_wire := [frame]\<rparr>"
    using f by (simp add: c_def example_conn_def b start_connect_def) (simp add: conn_New_def Let_def)
  show "fst (c_sems c s) = 256" "snd (c_sems c s) = 0" "c_newSem c = 2" "c_requestSem c = 0" "c_firstResponse c"
    "\<not> c_authConfirmed c" "c_maxMessageBytes c = 1048576" "c_mux c = NewMultiplexer heap" "c_newReq c = 0" "\<not> c_closed c" "\<not> c_done c" "c_started c"
    "cfg_MaxMessageBytes (c_cfg c) = 0" "\<not> c_serverHello c" "\<not> c_cancelled c" "\<not> c_connecting c"
    by (simp_all add: c conn_New_def with_defaults_def DefaultConfig_def Let_def MaxMessageSize_def)
qed

text \<open>A call on a connection with a free slot is admitted.\<close>

lemma example_admitted:
  assumes "conn_reach allowed (c, fs)" "c_newReq c = 0" "snd (c_sems c (c_requestSem c)) < fst (c_sems c (c_requestSem c))" "c_authConfirmed c" "\<not> c_closed c"
    "\<not> c_done c"
  defines "c' \<equiv> send_begin (Some (Ok ())) 0 (send_call (Request 100 0 []) c)"
  shows "conn_reach allowed (c', fs)" "sr_phase (c_reqs c' 0) = SAdmitted" "sr_kind (c_reqs c' 0) = Request 100 0 []" "c_newReq c' = 1"
    "c_sems c' = (c_sems c)(c_requestSem c := (fst (c_sems c (c_requestSem c)), snd (c_sems c (c_requestSem c)) + 1))"
    "c_requestSem c' = c_requestSem c" "c_newSem c' = c_newSem c" "c_mux c' = c_mux c" "c_maxMessageBytes c' = c_maxMessageBytes c" "c_cfg c' = c_cfg c"
    "c_closed c' = c_closed c" "c_done c' = c_done c" "c_started c' = c_started c" "c_firstResponse c' = c_firstResponse c" "c_serverHello c' = c_serverHello c"
    "c_maxInFlight c' = c_maxInFlight c" "c_cancelled c' = c_cancelled c"
proof -
  have "conn_reach allowed (send_call (Request 100 0 []) c, fs)" using assms(1) by (rule conn_reach.step) (rule conn_step.called)
  then show "conn_reach allowed (c', fs)" unfolding c'_def
    using assms(2-6) by (elim conn_reach.step, intro conn_step.begun [where ctxErr = None]) (simp_all add: send_call_def sem_of_def slot_cases_def)
qed (use assms(2-6) in \<open>simp_all add: c'_def send_begin_def send_call_def admit_def take_slot_def upd_req_def sem_of_def Let_def\<close>)

text \<open>A request that has its result, alone on its connection, with no slot of its semaphore held.\<close>

definition stuck :: "bytes res \<Rightarrow> connection \<Rightarrow> bool" where
  "stuck res c \<longleftrightarrow> sr_phase (c_reqs c 0) = SReleasing res \<and> \<not> oneway (sr_kind (c_reqs c 0)) \<and> snd (c_sems c (c_requestSem c)) = 0"

lemma stuck_release: "stuck res c \<Longrightarrow> send_release 0 res c = None"
  by (simp add: stuck_def send_release_def sem_of_def)

lemma stuck_same: "stuck res c \<Longrightarrow> c_reqs c' = c_reqs c \<Longrightarrow> c_sems c' = c_sems c \<Longrightarrow> c_requestSem c' = c_requestSem c \<Longrightarrow> stuck res c'"
  by (simp add: stuck_def)

lemma stuck_frame:
  assumes st: "stuck res c"
  shows "stuck res (loop_frame types corrs data c)"
proof (cases rule: loop_frame_cases [of c types corrs data])
  case (ended c1)
  then have "same_calls c (loop_frame types corrs data c)"
    using loop_exit_same(1) [where c = c1 and types = types and corrs = corrs] by (simp add: stays_def same_calls_def)
  then show ?thesis by (intro stuck_same [OF st]) (simp_all add: same_calls_def)
next
  case (negotiated limit n)
  then show ?thesis using st
    by (cases "unat n < fst (c_sems c (c_requestSem c))") (auto simp: negotiates_def stuck_def same_calls_def replace_semaphores_def Let_def)
qed (intro stuck_same [OF st]; simp add: stays_def same_calls_def)+

lemma newReq_step:
  assumes "conn_step allowed s s'"
  shows "c_newReq (fst s) \<le> c_newReq (fst s')"
  using assms
proof (cases rule: conn_step.cases)
  case (received c data types corrs fs)
  then show ?thesis by (cases rule: loop_frame_cases [of c types corrs data])
      (auto simp: stays_def negotiates_def same_calls_def replace_semaphores_def Let_def loop_exit_def beginAsyncHandlerShutdown_def)
next
  case (failed c types corrs fs err)
  then show ?thesis by (simp add: loop_read_error_def loop_exit_def beginAsyncHandlerShutdown_def handleReadError_def setConnError_def)
next
  case (encoded r c fs)
  then show ?thesis using send_encode_only(1) [of r c] by (auto simp: only_call_def)
next
  case (ended r c sc c' fs)
  then show ?thesis using send_wait_only(1) [of sc r c c'] by (auto simp: only_call_def)
next
  case (written r c frame fs writeErr)
  have "c_newReq (end_request r res c) = c_newReq c" for res using end_request_only(1) [of r c res] by (auto simp: only_call_def)
  then show ?thesis using written by (simp add: send_write_def upd_req_def split: option.split)
qed (auto simp: start_begin_def start_connect_def start_wait_def close_begin_def beginAsyncHandlerShutdown_def close_end_def loop_exit_def
        confirmAuthentication_def send_call_def send_begin_def send_queued_def admit_def take_slot_def add_queued_def send_release_def upd_req_def Let_def
        split: res.splits option.splits start_case.splits if_splits)

lemma stuck_step:
  assumes "conn_step allowed s s'" "stuck res (fst s)" "c_newReq (fst s) = 1" "c_newReq (fst s') = 1"
  shows "stuck res (fst s')"
  using assms(1)
proof (cases rule: conn_step.cases)
  case (received c data types corrs fs)
  then show ?thesis using assms(2) stuck_frame by simp
next
  case (failed c types corrs fs err)
  then show ?thesis using assms(2)
    by (auto simp: loop_read_error_def loop_exit_def beginAsyncHandlerShutdown_def handleReadError_def setConnError_def stuck_def)
next
  case (released r c res' c' fs)
  then show ?thesis using assms(2,3) by (auto simp: stuck_def send_release_def sem_of_def)
next
  case (called c fs k)
  then show ?thesis using assms(3,4) by (simp add: send_call_def)
qed (use assms(2,3) in \<open>auto simp: stuck_def start_begin_def start_connect_def start_wait_def close_begin_def beginAsyncHandlerShutdown_def close_end_def
        loop_exit_def confirmAuthentication_def Let_def split: res.splits option.splits start_case.splits if_splits\<close>)

lemma stuck_run:
  assumes "(conn_step allowed)\<^sup>*\<^sup>* (c, fs) (c', fs')" "stuck res c" "c_newReq c = 1" "c_newReq c' = 1"
  shows "stuck res c'"
proof -
  have "1 \<le> c_newReq (fst s) \<and> (c_newReq (fst s) = 1 \<longrightarrow> stuck res (fst s))" if "(conn_step allowed)\<^sup>*\<^sup>* (c, fs) s" for s
    using that
  proof (induction rule: rtranclp_induct)
    case (step s s')
    then show ?case using newReq_step [OF step(2)] stuck_step [OF step(2)] by (metis le_antisym le_trans)
  qed (use assms in simp)
  from this [OF assms(1)] show ?thesis using assms(4) by simp
qed

text \<open>C40: A request before HELLO. The first frame of any kind confirms the authentication, so requests can be sent before HELLO; a
  HELLO that then lowers the in-flight limit replaces the semaphores. A request that took its slot before and has its result
  cannot give the slot back: it does not return, whatever the broker, the connection and its shutdown do, as long
  as no other call is made (whose slot of the new semaphore it would take).
\<close>

theorem early_request_cannot_return:
  "\<exists>c fs. conn_reach (\<lambda>_ _. True) (c, fs) \<and> \<not> c_closed c \<and> \<not> c_done c \<and> c_newReq c = 1 \<and>
     (\<forall>c' fs'. (conn_step (\<lambda>_ _. True))\<^sup>*\<^sup>* (c, fs) (c', fs') \<longrightarrow> c_newReq c' = 1 \<longrightarrow>
        sr_phase (c_reqs c' 0) = SReleasing (Err Canceled) \<and> send_release 0 (Err Canceled) c' = None)"
proof -
  let ?R = "conn_reach (\<lambda>_ _. True)" and ?fs = "[wire_bytes notice_frame]"
  fix heap reqs
  define c1 where "c1 = example_conn heap reqs"
  note f1 = example_started [where heap = heap and reqs = reqs, folded c1_def]
  define c2 where "c2 = c1\<lparr>c_state := StateAuthenticated, c_authConfirmed := True, c_firstResponse := False\<rparr>"
  have "loop_frame [] [] (wire_bytes notice_frame) c1 = c2" using f1 by (simp add: c2_def notice_effect NewMultiplexer_def)
  then have R2: "?R (c2, ?fs)"
    using example_received [OF f1(1), of "\<lambda>_ _. True" "wire_bytes notice_frame"] f1 by (simp add: NewMultiplexer_def)
  define c3 where "c3 = send_begin (Some (Ok ())) 0 (send_call (Request 100 0 []) c2)"
  have f3: "?R (c3, ?fs)" "sr_phase (c_reqs c3 0) = SAdmitted" "sr_kind (c_reqs c3 0) = Request 100 0 []" "c_newReq c3 = 1" "\<not> c_firstResponse c3"
    "c_maxMessageBytes c3 = 1048576" "cfg_MaxMessageBytes (c_cfg c3) = 0" "1 < fst (c_sems c3 (c_requestSem c3))" "c_mux c3 = NewMultiplexer heap"
    "c_newSem c3 = 2" "\<not> c_closed c3" "\<not> c_done c3" "c_started c3"
    using example_admitted [OF R2, folded c3_def] f1 by (simp_all add: c2_def)
  have h: "loop_frame [] [] (wire_bytes hello_frame) c3 = hello_done c3"
    using f3 by (simp add: loop_frame_def hello_effect NewMultiplexer_def hello_done_def)
  have R4: "?R (hello_done c3, ?fs @ [wire_bytes hello_frame])"
    using example_received [OF f3(1), of "wire_bytes hello_frame"] f3 h by (simp add: NewMultiplexer_def)
  obtain c5 where c5: "?R (c5, ?fs @ [wire_bytes hello_frame])" "example_call c5" "sr_phase (c_reqs c5 0) = SWaiting"
    "c_sems c5 (c_requestSem c5) = c_sems (hello_done c3) (c_requestSem (hello_done c3))"
    using example_sent [OF R4] f3 by (auto simp: example_call_def hello_done_def NewMultiplexer_def)
  have "?R (end_request 0 (Err Canceled) c5, ?fs @ [wire_bytes hello_frame])"
    using c5(1) by (rule conn_reach.step) (rule conn_step.ended [where r = 0 and sc = "CtxDone Canceled"], use c5 in \<open>simp_all add: send_wait_def example_call_def\<close>)
  moreover have e: "\<not> c_closed (end_request 0 (Err Canceled) c5)" "\<not> c_done (end_request 0 (Err Canceled) c5)"
    "c_newReq (end_request 0 (Err Canceled) c5) = 1" "stuck (Err Canceled) (end_request 0 (Err Canceled) c5)"
    using c5 by (simp_all add: stuck_def example_call_def hello_done_def end_request_def unregister_def upd_req_def)
  moreover have later: "sr_phase (c_reqs c' 0) = SReleasing (Err Canceled) \<and> send_release 0 (Err Canceled) c' = None"
    if "(conn_step (\<lambda>_ _. True))\<^sup>*\<^sup>* (end_request 0 (Err Canceled) c5, ?fs @ [wire_bytes hello_frame]) (c', fs')" "c_newReq c' = 1" for c' fs'
    using stuck_run [OF that(1) e(4,3) that(2)] stuck_release by (simp add: stuck_def)
  ultimately show ?thesis
    by (intro exI [of _ "end_request 0 (Err Canceled) c5"] exI [of _ "?fs @ [wire_bytes hello_frame]"] conjI allI impI)
      (assumption | rule later [THEN conjunct1] later [THEN conjunct2])+
qed

theorem early_request_cannot_return_witness:
  "\<exists>c fs. conn_reach (\<lambda>_ _. True) (c, fs) \<and> c_closed c \<and> send_release 0 (Err Canceled) c = None"
proof -
  obtain c fs where c: "conn_reach (\<lambda>_ _. True) (c, fs)" "\<not> c_closed c" "c_newReq c = 1"
    "\<And>c' fs'. (conn_step (\<lambda>_ _. True))\<^sup>*\<^sup>* (c, fs) (c', fs') \<Longrightarrow> c_newReq c' = 1 \<Longrightarrow> send_release 0 (Err Canceled) c' = None"
    using early_request_cannot_return by blast
  have step: "conn_step (\<lambda>_ _. True) (c, fs) (close_begin c, fs)" by (rule conn_step.closing)
  moreover have "c_closed (close_begin c)" "c_newReq (close_begin c) = 1" using c(2,3) by (simp_all add: close_begin_def beginAsyncHandlerShutdown_def)
  ultimately show ?thesis using c(4) [of "close_begin c" fs] conn_reach.step [OF c(1) step] by blast
qed

section \<open>A run with an answer\<close>

text \<open>HELLO, then a request and its answer, on a broker that follows the handshake.\<close>

lemma example_negotiated:
  obtains c where "conn_reach hello_first (c, [wire_bytes hello_frame])" "example_call c" "sr_phase (c_reqs c 0) = SAdmitted" "c_serverHello c"
    "c_sems c (c_requestSem c) = (1, 1)" "\<not> m_closed (c_mux c)" "m_nextID (c_mux c) = 0" "m_correlated (c_mux c) = Map.empty" "c_maxInFlight c = 1"
    "\<not> c_cancelled c"
proof -
  let ?R = "conn_reach hello_first"
  fix heap reqs
  define c1 where "c1 = example_conn heap reqs"
  note f1 = example_started [where heap = heap and reqs = reqs, folded c1_def]
  define c2 where "c2 = (confirmAuthentication (hello_done c1))\<lparr>c_firstResponse := False\<rparr>"
  have h: "loop_frame [] [] (wire_bytes hello_frame) c1 = c2" using f1 by (simp add: c2_def loop_frame_def hello_effect hello_done_def NewMultiplexer_def)
  have "hello_first c1 (wire_bytes hello_frame)" by (simp add: hello_first_def example_frames MessageTypeHello_def) (simp add: hello_frame_def)
  then have R2: "?R (c2, [wire_bytes hello_frame])"
    using example_received [OF f1(1), of hello_first "wire_bytes hello_frame"] f1 h by (simp add: NewMultiplexer_def)
  have f2: "c_newReq c2 = 0" "c_sems c2 (c_requestSem c2) = (1, 0)" "c_authConfirmed c2" "\<not> c_closed c2" "\<not> c_done c2" "c_serverHello c2" "c_started c2"
    "\<not> c_firstResponse c2" "c_maxMessageBytes c2 = 1048576" "m_pending (c_mux c2) = Map.empty" "m_correlated (c_mux c2) = Map.empty"
    "\<not> m_closed (c_mux c2)" "m_nextID (c_mux c2) = 0" "c_maxInFlight c2 = 1" "\<not> c_cancelled c2"
    using f1 by (simp_all add: c2_def confirmAuthentication_def hello_done_def NewMultiplexer_def)
  show thesis
    using example_admitted [OF R2] f2 by (intro that [of "send_begin (Some (Ok ())) 0 (send_call (Request 100 0 []) c2)"]) (simp_all add: example_call_def)
qed

lemma example_answered:
  obtains c fs where "conn_reach hello_first (c, fs)" "c_newReq c = 1" "sr_kind (c_reqs c 0) = Request 100 0 []" "sr_phase (c_reqs c 0) = SDone (Ok [9])"
    "sr_cid (c_reqs c 0) = 1"
proof -
  let ?R = "conn_reach hello_first"
  obtain c0 where c0: "?R (c0, [wire_bytes hello_frame])" "example_call c0" "sr_phase (c_reqs c0 0) = SAdmitted" "c_serverHello c0"
    "c_sems c0 (c_requestSem c0) = (1, 1)" "\<not> m_closed (c_mux c0)" "m_nextID (c_mux c0) = 0" "m_correlated (c_mux c0) = Map.empty"
    by (rule example_negotiated) blast
  obtain c where c: "?R (c, [wire_bytes hello_frame])" "example_call c" "sr_phase (c_reqs c 0) = SWaiting" "sr_cid (c_reqs c 0) = 1"
    "m_correlated (c_mux c) = [1 \<mapsto> \<lparr>req_waiter = Some 0, req_cancel = None, req_discard = False\<rparr>]"
    "c_sems c (c_requestSem c) = (1, 1)" "c_serverHello c" "\<not> w_closed (m_waiters (c_mux c) 0)"
    using example_sent [OF c0(1,2,3,6,7,8)] c0 by metis
  define c1 where "c1 = loop_frame [] [1] (wire_bytes reply_frame) c"
  have len: "length (wire_bytes reply_frame) = 16" by (simp add: wire_bytes_def reply_frame_def)
  have sel: "MessageType reply_frame = 100" "Flags reply_frame = 2" "CorrelationID reply_frame = 1" "Payload reply_frame = [9]" by (simp_all add: reply_frame_def)
  have d: "c1 = c\<lparr>c_mux := snd (DispatchCorrelated 1 [9] True (c_mux c))\<rparr>"
    using c len by (simp add: c1_def loop_frame_def dispatchTransportFrame_def example_frames sel MessageTypeHello_def FlagResponseFinal_def
        DispatchCorrelated_def example_call_def Let_def)
  have f1: "w_ready (m_waiters (c_mux c1) 0)" "w_response (m_waiters (c_mux c1) 0) = [9]" "\<not> w_closed (m_waiters (c_mux c1) 0)"
    using c by (simp_all add: d DispatchCorrelated_def deliver_to_def waiter_deliver_def Let_def)
  have R1: "?R (c1, [wire_bytes hello_frame] @ [wire_bytes reply_frame])"
    unfolding c1_def using c(1) by (rule conn_reach.step) (rule conn_step.received, use c in \<open>simp_all add: example_call_def hello_first_def enumerates_def\<close>)
  define c2 where "c2 = end_request 0 (Ok [9]) c1"
  have R2: "?R (c2, [wire_bytes hello_frame] @ [wire_bytes reply_frame])"
    using R1 by (rule conn_reach.step)
      (rule conn_step.ended [where r = 0 and sc = Answered], use c f1 in \<open>simp_all add: c2_def d send_wait_def example_call_def\<close>)
  have f2: "c_newReq c2 = 1" "sr_phase (c_reqs c2 0) = SReleasing (Ok [9])" "sr_kind (c_reqs c2 0) = Request 100 0 []"
    "c_sems c2 (c_requestSem c2) = (1, 1)" "sr_cid (c_reqs c2 0) = 1"
    using c by (simp_all add: c2_def d end_request_def unregister_def upd_req_def example_call_def)
  obtain c3 where c3: "send_release 0 (Ok [9]) c2 = Some c3" using f2 by (simp add: send_release_def sem_of_def)
  then have f3: "c_reqs c3 = (c_reqs c2)(0 := (c_reqs c2 0)\<lparr>sr_phase := SDone (Ok [9])\<rparr>)" "c_newReq c3 = 1"
    using f2 by (auto simp: send_release_def upd_req_def Let_def split: if_splits)
  have "?R (c3, [wire_bytes hello_frame] @ [wire_bytes reply_frame])"
    using R2 by (rule conn_reach.step) (rule conn_step.released [where r = 0], use f2 c3 in simp_all)
  then show thesis using f2 f3 by (intro that [of c3]) simp_all
qed


theorem request_gets_its_answer_witness:
  "\<exists>c fs. conn_reach hello_first (c, fs) \<and> c_newReq c = 1 \<and> sr_phase (c_reqs c 0) = SDone (Ok [9]) \<and>
     (\<exists>data\<in>set fs. \<exists>f ids. DecodeMessage data = Ok f \<and> DecodeExtensions f = Ok ([9], ids) \<and> CorrelationID f = 1)"
proof -
  obtain c fs where c: "conn_reach hello_first (c, fs)" "c_newReq c = 1" "sr_kind (c_reqs c 0) = Request 100 0 []"
    "sr_phase (c_reqs c 0) = SDone (Ok [9])" "sr_cid (c_reqs c 0) = 1" by (rule example_answered)
  then show ?thesis using request_gets_its_answer [OF c(1), of 0] by fastforce
qed


end
