(* ===== verification/Spec2Isabelle.thy ===== *)
theory Spec2Isabelle
  imports Tlv_Codec Multiplexer Sub_Registry Kv_Domain Queue_Domain Lease_Acquire Lease_Observer Stream_Pages Watch_Client
    Rpc_Calls Rpc_Workers Connection
begin

text \<open>
  A verification of the Fitz client for Go (\<^verbatim>\<open>src/\<close>, module \<^verbatim>\<open>github.com/cntryl/fitz-go\<close>). The client talks to a broker over
  one connection. \<^verbatim>\<open>internal/protocol\<close> lays out the messages; \<^verbatim>\<open>internal/core/connection\<close> opens the connection, admits
  requests and hands each response to its waiter; the domain clients under \<^verbatim>\<open>internal/domains\<close> (key-value, queue, stream, notice,
  schedule, lease, RPC) build requests, parse responses and keep handles, subscriptions and iterators.

  \<^bold>\<open>How the code is modelled.\<close> A Go function that can fail returns a \<open>res\<close>: \<open>Ok\<close>, \<open>Err\<close> of a Go error, or \<open>Panic\<close> for an index
  out of range. Integers are words of their width, structs are records, maps are partial functions, strings are their
  bytes. A method that changes its receiver takes and returns it. An operation that uses the connection is an \<open>op\<close> on a state the
  record \<open>conn_api\<close> of services works on, so that it holds for every behaviour of the broker. Goroutines
  are interleaved: a critical section, a channel operation or a call of the transport is a step of an \<open>inductive\<close> relation, or
  an action of a thread. The order in which Go ranges over a map is an argument.

  \<^bold>\<open>Foundations.\<close>
  \<^item> \<open>Fitz_Prelude\<close>: machine types, slices, big-endian integers, results; the collections of simplification rules.
  \<^item> \<open>Core_Errors\<close> (\<^verbatim>\<open>core/errors/errors.go\<close>, \<^verbatim>\<open>core/transport/errors.go\<close>): error codes and values, \<open>errors.Is\<close> and \<open>errors.As\<close>.
  \<^item> \<open>Go_Strings\<close>: what the sources use of Go's \<open>strings\<close> and \<open>strconv\<close>.
  \<^item> \<open>Payload_Codec\<close> (\<^verbatim>\<open>core/connection/response.go\<close>, \<^verbatim>\<open>core/encoding/encoder.go\<close>): field readers and writers, the response envelope. The
    locale \<open>field_codec\<close> is the contract of a field: reading back what was written, and accepting nothing else. It is
    interpreted on every field type here and, through \<open>Message_Codec\<close> and \<open>Layout_Tools\<close>, on whole requests and
    responses in the domain theories.
  \<^item> \<open>Routes\<close> (\<^verbatim>\<open>core/types/types.go\<close>): the route scanner, validators, Stream selectors, and the wildcard matcher, which is shown to
    decide the recursive definition of matching.
  \<^item> \<open>Iterators\<close> (\<^verbatim>\<open>core/iter\<close>): \<open>ForEach\<close> under the contract \<open>pull_iterator\<close>, interpreted on slices and on lease pages.

  \<^bold>\<open>The wire.\<close> \<open>Wire_Frame\<close> (\<^verbatim>\<open>protocol/frame.go\<close>), \<open>Wire_Extensions\<close> (\<^verbatim>\<open>protocol/extensions.go\<close>), \<open>Message_Types\<close>
  (\<^verbatim>\<open>protocol/message_types.go\<close>) and \<open>Tlv_Codec\<close> (\<^verbatim>\<open>core/transport/tlv.go\<close>): each decoder accepts exactly what its encoder produces.

  \<^bold>\<open>The connection.\<close>
  \<^item> \<open>Request_Queue\<close> and \<open>Multiplexer\<close> (\<^verbatim>\<open>core/connection/mux.go\<close>): the queue of pending requests refines a list of slots
    (locale \<open>request_slots\<close>); responses arrive in request order, abandoned requests swallow theirs, the in-flight counter is
    exact, and closing fails every waiter.
  \<^item> \<open>Connection\<close> (\<^verbatim>\<open>core/connection/connection.go\<close>): handshake, dispatch loop, admission by semaphores, requests and one-way
    messages from call to return, shutdown. The theorems bound admission by the configured and negotiated limits, tie a
    returned response to a received frame with the request's id, and fix what HELLO negotiates; one shows how a request
    admitted before HELLO fails to return.
  \<^item> \<open>Conn_Api\<close>: the services a domain client uses (\<open>SendRequestWithWriter\<close>, \<open>SendFireAndForgetWithWriter\<close>, \<open>CheckLiveHandle\<close>), and the
    retry loops of \<open>RunWithRetry\<close> and \<^verbatim>\<open>core/retry/retry.go\<close>, specified by the traces they may produce.

  \<^bold>\<open>Subscriptions.\<close> \<open>Sub_Registry\<close> (\<^verbatim>\<open>core/subscriptions/registry.go\<close>): consistency of the registry's maps in every interleaving
  without overlapping restores, and restore with rollback. \<open>Watch_Client\<close>: the subscription methods of five domain
  clients on that registry, and their agreement with the broker.

  \<^bold>\<open>The domains.\<close> \<open>Kv_Domain\<close>, \<open>Queue_Domain\<close>, \<open>Stream_Domain\<close> with \<open>Stream_Pages\<close>, \<open>Notice_Domain\<close>, \<open>Schedule_Domain\<close>, \<open>Lease_Domain\<close>:
  requests and responses, and the life of transactions, messages, leases and pages. \<open>Lease_Acquire\<close> and \<open>Lease_Observer\<close>: concurrent
  acquisitions, and the local view of leases. \<open>Rpc_Domain\<close>, \<open>Rpc_Calls\<close>, \<open>Rpc_Workers\<close>: codec, worker selection, response
  stream; calls from registration to their one outcome; invocations of workers.

  \<^bold>\<open>Loops.\<close> Loops over data are total functions with a measure. \<open>for_each_loop\<close> (\<open>ForEach\<close>) and \<open>select_loop\<close> (\<open>ListBySelector\<close>)
  depend on an iterator or a broker that may never end and are partial; the theorems about them prove that they return
  when the pages end. The retry loops run down the number of attempts. \<open>valid_utf8_loop\<close> is given the length of its input,
  and drops at least one byte per round.

  \<^bold>\<open>Assumptions.\<close> A broker that sends HELLO first (\<open>hello_first\<close>) is assumed by two theorems on the connection, as its handshake
  documents; another shows what happens without it. Handlers, JSON decoding and the backoff delays are parameters.
  A call of the multiplexer has a waiter of its own: the pool that reuses waiters after their return is not modelled.

  \<^bold>\<open>Not modelled.\<close> The transports (\<^verbatim>\<open>core/transport/tcp.go\<close>, \<^verbatim>\<open>ws.go\<close>) are network I/O, whose reads and writes are inputs of
  the steps. The client and its reconnection (\<^verbatim>\<open>core/client\<close>, \<^verbatim>\<open>core/reconnect\<close>) dial, wait and call the restore operations, which are
  modelled with the domains. The public facade (\<^verbatim>\<open>fitz\<close>) forwards to the domains; its polling iterators and \<open>WakeGate\<close> are
  left out, as are the heartbeat, the channel iterator, buffer pools, tracing, metrics, logging, test support and benchmarks.
\<close>

end
